(* ===== verification/Prelude.thy ===== *)
theory Prelude
  imports Main "HOL-Library.Char_ord" "HOL-Library.Multiset"
begin

text \<open>
  What the component theories share: the development's collections of facts, the C string
  helpers the program uses everywhere (\<open>strchr\<close>, bounded scans over an index) and the
  generic lemmas about them.

  A C string is a HOL \<open>string\<close> without its terminating NUL; an index into it is a
  \<open>nat\<close>, and a read \<open>s[i]\<close> is \<open>s ! i\<close>, which the model performs only under the
  guard the code has. A C pointer that may be \<open>NULL\<close> is an \<open>option\<close>.
\<close>

named_theorems parse_bounds \<open>where the parsers of the expression language may stop\<close>
named_theorems parse_reads \<open>a parser reads only the characters before its end index\<close>

section \<open>Scanning a string\<close>

text \<open>The loop \<open>while (i < stop && P(s[i])) i++\<close>.\<close>

function scan_while :: "(char \<Rightarrow> bool) \<Rightarrow> string \<Rightarrow> nat \<Rightarrow> nat \<Rightarrow> nat" where
  "scan_while P s i stop =
     (if i < stop \<and> P (s ! i) then scan_while P s (Suc i) stop else i)"
  by pat_completeness auto
termination
  by (relation "measure (\<lambda>(P, s, i, stop). stop - i)") auto

declare scan_while.simps [simp del]

lemma scan_while_ge [simp]: "i \<le> scan_while P s i stop"
  by (induction P s i stop rule: scan_while.induct)
    (subst scan_while.simps, auto)

lemma scan_while_le: "i \<le> stop \<Longrightarrow> scan_while P s i stop \<le> stop"
  by (induction P s i stop rule: scan_while.induct)
    (subst scan_while.simps, auto)

lemma scan_while_all:
  "i \<le> j \<Longrightarrow> j < scan_while P s i stop \<Longrightarrow> P (s ! j)"
proof (induction P s i stop rule: scan_while.induct)
  case (1 P s i stop)
  then show ?case
    by (cases "i = j \<or> \<not> (i < stop \<and> P (s ! i))")
      (auto simp: scan_while.simps [of P s i stop] scan_while.simps [of P s j stop]
        split: if_splits)
qed

lemma scan_while_stops:
  "scan_while P s i stop < stop \<Longrightarrow> \<not> P (s ! scan_while P s i stop)"
proof (induction P s i stop rule: scan_while.induct)
  case (1 P s i stop)
  then show ?case
    by (auto simp: scan_while.simps [of P s i stop] split: if_splits)
qed

lemma scan_while_cong:
  "(\<And>j. i \<le> j \<Longrightarrow> j < stop \<Longrightarrow> s ! j = t ! j) \<Longrightarrow>
   scan_while P s i stop = scan_while P t i stop"
proof (induction P s i stop rule: scan_while.induct)
  case (1 P s i stop)
  then show ?case
    by (auto simp: scan_while.simps [of P s i stop] scan_while.simps [of P t i stop])
qed

text \<open>A scan over a block of accepted characters ends right after the block.\<close>

lemma scan_while_block:
  assumes "\<And>c. c \<in> set w \<Longrightarrow> P c"
    and "rest = [] \<or> \<not> P (hd rest)"
    and "stop = length pre + length w + length rest"
  shows "scan_while P (pre @ w @ rest) (length pre) stop = length pre + length w"
  using assms
proof (induction w arbitrary: pre)
  case Nil
  then show ?case
    by (cases rest) (simp_all add: scan_while.simps [of P _ "length pre"])
next
  case (Cons c w)
  have "scan_while P ((pre @ [c]) @ w @ rest) (length (pre @ [c])) stop
      = length (pre @ [c]) + length w"
    by (rule Cons.IH) (use Cons.prems in auto)
  with Cons.prems show ?case
    by (auto simp: scan_while.simps [of P _ "length pre"])
qed

text \<open>The characters \<open>s[i], ..., s[j - 1]\<close>: \<open>xstrndup(s + i, j - i)\<close>.\<close>

definition substr :: "string \<Rightarrow> nat \<Rightarrow> nat \<Rightarrow> string" where
  "substr s i j = take (j - i) (drop i s)"

lemma set_substrD: "c \<in> set (substr s i j) \<Longrightarrow> \<exists>k. i \<le> k \<and> k < j \<and> k < length s \<and> c = s ! k"
  by (auto simp: substr_def in_set_conv_nth) (metis le_add1 less_diff_conv add.commute)

lemma substr_block [simp]:
  "substr (pre @ w @ rest) (length pre) (length pre + length w) = w"
  by (simp add: substr_def)

lemma substr_append [simp]: "j \<le> length s \<Longrightarrow> substr (s @ t) i j = substr s i j"
  by (cases "i \<le> j") (simp_all add: substr_def)

lemma length_substr [simp]: "j \<le> length s \<Longrightarrow> length (substr s i j) = j - i"
  by (auto simp: substr_def)

text \<open>\<open>strchr(s, c)\<close>: the index of the first \<open>c\<close> in \<open>s\<close>, if there is one.\<close>

fun strchr :: "string \<Rightarrow> char \<Rightarrow> nat option" where
  "strchr [] c = None"
| "strchr (x # xs) c = (if x = c then Some 0 else map_option Suc (strchr xs c))"

lemma strchr_None: "strchr s c = None \<longleftrightarrow> c \<notin> set s"
  by (induction s) auto

lemma strchr_append_left: "c \<in> set s \<Longrightarrow> strchr (s @ t) c = strchr s c"
  by (induction s) auto

lemma strchr_append_right:
  "c \<notin> set s \<Longrightarrow> strchr (s @ t) c = map_option (\<lambda>i. length s + i) (strchr t c)"
  by (induction s; cases "strchr t c") auto

lemma strchr_SomeD:
  "strchr s c = Some i \<Longrightarrow> i < length s \<and> s ! i = c \<and> c \<notin> set (take i s)"
  by (induction s arbitrary: i) (auto split: if_splits)

lemma strchr_hit [simp]: "c \<notin> set s \<Longrightarrow> strchr (s @ c # t) c = Some (length s)"
  by (induction s) auto


text \<open>\<open>strstr(s, t) != NULL\<close>.\<close>

fun strstr :: "string \<Rightarrow> string \<Rightarrow> bool" where
  "strstr [] t \<longleftrightarrow> t = []"
| "strstr (c # cs) t \<longleftrightarrow> take (length t) (c # cs) = t \<or> strstr cs t"

lemma strstr_iff: "strstr s t \<longleftrightarrow> (\<exists>u v. s = u @ t @ v)"
proof (induction s)
  case (Cons c cs)
  have "take (length t) (c # cs) = t \<longleftrightarrow> (\<exists>v. c # cs = t @ v)"
    by (metis append_eq_conv_conj append_take_drop_id)
  with Cons show ?case
    by (auto simp: Cons_eq_append_conv)
qed auto

section \<open>Searching an array\<close>

text \<open>
  The loop \<open>for (i = 0; i < size; i++) if (P(values[i])) return i\<close>: the first index whose
  element satisfies \<open>P\<close>. Removing the element at \<open>i\<close> moves the tail down by one.
\<close>

fun find_index :: "('a \<Rightarrow> bool) \<Rightarrow> 'a list \<Rightarrow> nat option" where
  "find_index P [] = None"
| "find_index P (x # xs) = (if P x then Some 0 else map_option Suc (find_index P xs))"

definition remove_at :: "nat \<Rightarrow> 'a list \<Rightarrow> 'a list" where
  "remove_at i xs = take i xs @ drop (Suc i) xs"

lemma remove_at_simps [simp]:
  "remove_at 0 (x # xs) = xs" "remove_at (Suc i) (x # xs) = x # remove_at i xs"
  by (simp_all add: remove_at_def)

lemma length_remove_at [simp]: "i < length xs \<Longrightarrow> length (remove_at i xs) = length xs - 1"
  by (simp add: remove_at_def)

lemma set_remove_at_subset: "set (remove_at i xs) \<subseteq> set xs"
  by (auto simp: remove_at_def dest: in_set_takeD in_set_dropD)

lemma find_index_None: "find_index P xs = None \<longleftrightarrow> (\<forall>x \<in> set xs. \<not> P x)"
  by (induction xs) auto

lemma find_index_SomeD:
  "find_index P xs = Some i \<Longrightarrow> i < length xs \<and> P (xs ! i) \<and> (\<forall>j < i. \<not> P (xs ! j))"
proof (induction xs arbitrary: i)
  case (Cons x xs)
  then show ?case
    by (auto split: if_splits simp: less_Suc_eq_0_disj nth_Cons split: nat.splits)
qed simp

lemma find_index_append:
  "find_index P (xs @ ys) =
     (if \<exists>x \<in> set xs. P x then find_index P xs
      else map_option (\<lambda>i. length xs + i) (find_index P ys))"
  by (induction xs; cases "find_index P ys")
    (auto simp: option.map_comp comp_def)

text \<open>Splitting a list at the found index, the form the loop invariants use.\<close>

lemma find_index_split:
  assumes "find_index P xs = Some i"
  obtains us x vs where "xs = us @ x # vs" "length us = i" "P x" "\<forall>u \<in> set us. \<not> P u"
proof -
  from find_index_SomeD [OF assms]
  have i: "i < length xs" "P (xs ! i)" "\<forall>j < i. \<not> P (xs ! j)" by auto
  then have "\<forall>u \<in> set (take i xs). \<not> P u" by (auto simp: in_set_conv_nth)
  with i show thesis
    by (intro that [of "take i xs" "xs ! i" "drop (Suc i) xs"]) (auto simp: id_take_nth_drop)
qed

lemma list_update_middle [simp]: "(us @ x # vs)[length us := y] = us @ y # vs"
  by (simp add: list_update_append)

lemma remove_at_middle [simp]: "remove_at (length us) (us @ x # vs) = us @ vs"
  by (simp add: remove_at_def)


lemma map_find_index: "map_option (\<lambda>i. xs ! i) (find_index P xs) = List.find P xs"
proof (induction xs)
  case (Cons x xs)
  then show ?case by (cases "find_index P xs") auto
qed simp

lemma find_append:
  "List.find P (xs @ ys) = (case List.find P xs of None \<Rightarrow> List.find P ys | Some x \<Rightarrow> Some x)"
  by (induction xs) auto

lemma find_None_all: "\<forall>u \<in> set us. \<not> P u \<Longrightarrow> List.find P us = None"
  by (simp add: find_None_iff)


section \<open>Splitting at a separator\<close>

text \<open>
  The loop \<open>while ((curr = strsep(&copy, d)))\<close> for a single separator \<open>d\<close>: the pieces between
  its occurrences, empty ones included, so there is always at least one.
\<close>

function strsep_tokens :: "char \<Rightarrow> string \<Rightarrow> string list" where
  "strsep_tokens d s =
     (case strchr s d of
        None \<Rightarrow> [s]
      | Some i \<Rightarrow> take i s # strsep_tokens d (drop (Suc i) s))"
  by pat_completeness auto
termination
  by (relation "measure (\<lambda>(d, s). length s)") (auto dest: strchr_SomeD)

declare strsep_tokens.simps [simp del]

lemma strsep_tokens_none [simp]: "d \<notin> set s \<Longrightarrow> strsep_tokens d s = [s]"
  by (subst strsep_tokens.simps) (simp add: strchr_None [THEN iffD2])

lemma strsep_tokens_cons [simp]:
  "d \<notin> set s \<Longrightarrow> strsep_tokens d (s @ d # t) = s # strsep_tokens d t"
  by (subst strsep_tokens.simps) simp

lemma strsep_tokens_nonempty [simp]: "strsep_tokens d s \<noteq> []"
  by (subst strsep_tokens.simps) (simp split: option.split)

lemma strsep_tokens_no_sep: "t \<in> set (strsep_tokens d s) \<Longrightarrow> d \<notin> set t"
proof (induction d s rule: strsep_tokens.induct)
  case (1 d s)
  then show ?case
    by (subst (asm) strsep_tokens.simps)
      (auto simp: strchr_None dest: strchr_SomeD split: option.splits)
qed

section \<open>Comparing strings\<close>

text \<open>
  \<open>strcmp\<close>: the characters are compared as \<open>unsigned char\<close>; only the sign of the result is
  specified, so it is \<open>-1\<close>, \<open>0\<close> or \<open>1\<close>.
\<close>

fun strcmp :: "string \<Rightarrow> string \<Rightarrow> int" where
  "strcmp [] [] = 0"
| "strcmp [] (d # ds) = - 1"
| "strcmp (c # cs) [] = 1"
| "strcmp (c # cs) (d # ds) =
     (if c = d then strcmp cs ds else if of_char c < (of_char d :: nat) then - 1 else 1)"

lemma strcmp_eq_0 [simp]: "strcmp s t = 0 \<longleftrightarrow> s = t"
  by (induction s t rule: strcmp.induct) auto

lemma strcmp_self [simp]: "strcmp s s = 0"
  by simp

lemma strcmp_trans: "strcmp s t < 0 \<Longrightarrow> strcmp t u < 0 \<Longrightarrow> strcmp s u < 0"
proof (induction s t arbitrary: u rule: strcmp.induct)
  case (4 c cs d ds)
  then show ?case by (cases u) (auto split: if_splits)
next
  case (2 d ds)
  then show ?case by (cases u) auto
qed auto

lemma strcmp_swap: "strcmp s t < 0 \<longleftrightarrow> strcmp t s > 0"
proof (induction s t rule: strcmp.induct)
  case (4 c cs d ds)
  then show ?case
    by (auto simp: not_less le_less of_char_eq_iff)
qed auto

lemma strcmp_total: "strcmp s t < 0 \<or> s = t \<or> strcmp t s < 0"
  using strcmp_swap [of t s] strcmp_eq_0 [of s t] by linarith

lemma strcmp_neg_trans: "strcmp s u < 0 \<Longrightarrow> strcmp s t < 0 \<or> strcmp t u < 0"
  using strcmp_total [of s t] strcmp_trans by blast

section \<open>Printing\<close>

fun join_with :: "string \<Rightarrow> string list \<Rightarrow> string" where
  "join_with sep [] = []"
| "join_with sep [s] = s"
| "join_with sep (s # t # ts) = s @ sep @ join_with sep (t # ts)"

text \<open>\<open>%d\<close> and \<open>%u\<close>.\<close>

fun show_nat :: "nat \<Rightarrow> string" where
  "show_nat n = (if n < 10 then [] else show_nat (n div 10)) @ [char_of (48 + n mod 10)]"

definition show_int :: "int \<Rightarrow> string" where
  "show_int i = (if i < 0 then ''-'' @ show_nat (nat (- i)) else show_nat (nat i))"

declare show_nat.simps [simp del]

end
