(* ===== verification/String_Expr.thy ===== *)
theory String_Expr
  imports Prelude
begin

text \<open>
  String expressions, \<open>libpromises/string_expressions.c\<close>: names of classes and variables
  with embedded variable references, such as \<open>host_$(sys.arch)\<close>. The theory holds the
  recursive-descent parser over \<open>(expr, start, end)\<close> as the code has it, the evaluator,
  and a printer for parsed expressions against which the parser is proved exact.

  The C parser is a group of mutually recursive functions; here each one takes the parser
  it calls back (\<open>ParseStringExpression\<close>) as its first argument, and the recursion is tied
  with fuel. \<open>ParseStringExpression_unfold\<close> shows that the fuel is always enough: the parser
  satisfies the recursive equation of the C code on every input.
\<close>

datatype VarRefType = VAR_REF_TYPE_SCALAR | VAR_REF_TYPE_LIST

datatype StringExpression =
    CONCAT StringExpression StringExpression
  | LITERAL string
  | VARREF StringExpression VarRefType

text \<open>\<open>StringParseResult\<close> and \<open>ParseResult\<close>: a \<open>NULL\<close> result is \<open>None\<close>.\<close>

datatype 'a parse_result = ParseResult (result: "'a option") (position: nat)

type_synonym 'a parser = "string \<Rightarrow> nat \<Rightarrow> nat \<Rightarrow> 'a parse_result"

section \<open>The parser\<close>

definition ValidTokenCharacter :: "char \<Rightarrow> bool" where
  "ValidTokenCharacter c =
     (if CHR ''a'' \<le> c \<and> c \<le> CHR ''z'' then True
      else if CHR ''A'' \<le> c \<and> c \<le> CHR ''Z'' then True
      else if CHR ''0'' \<le> c \<and> c \<le> CHR ''9'' then True
      else c = CHR ''_'' \<or> c = CHR ''['' \<or> c = CHR '']'' \<or> c = CHR '':'')"

definition ParseToken :: "StringExpression parser" where
  "ParseToken expr start stop =
     (let endlit = scan_while ValidTokenCharacter expr start stop in
      if start < endlit
      then ParseResult (Some (LITERAL (substr expr start endlit))) endlit
      else ParseResult None endlit)"

definition ParseQname :: "StringExpression parser \<Rightarrow> StringExpression parser" where
  "ParseQname parse_string expr start stop =
     (let lhs = parse_string expr start stop in
      case result lhs of
        None \<Rightarrow> lhs
      | Some l \<Rightarrow>
          if position lhs = stop \<or> expr ! position lhs \<noteq> CHR ''.'' then lhs
          else
            (let rhs = parse_string expr (position lhs + 1) stop in
             case result rhs of
               None \<Rightarrow> rhs
             | Some r \<Rightarrow>
                 ParseResult (Some (CONCAT l (CONCAT (LITERAL ''.'') r))) (position rhs)))"

definition ParseVarRef :: "StringExpression parser \<Rightarrow> StringExpression parser" where
  "ParseVarRef parse_string expr start stop =
     (if start + 1 < stop \<and> (expr ! start = CHR ''$'' \<or> expr ! start = CHR ''@'') then
        if expr ! (start + 1) = CHR ''('' \<or> expr ! (start + 1) = CHR ''{'' then
          (let closing_bracket =
                 (if expr ! (start + 1) = CHR ''('' then CHR '')'' else CHR ''}'');
               res = ParseQname parse_string expr (start + 2) stop in
           case result res of
             None \<Rightarrow> res
           | Some r \<Rightarrow>
               if position res < stop \<and> expr ! position res = closing_bracket then
                 ParseResult
                   (Some (VARREF r (if expr ! start = CHR ''$'' then VAR_REF_TYPE_SCALAR
                                    else VAR_REF_TYPE_LIST)))
                   (position res + 1)
               else ParseResult None (position res))
        else ParseResult None (start + 1)
      else ParseResult None start)"

definition ParseTerm :: "StringExpression parser \<Rightarrow> StringExpression parser" where
  "ParseTerm parse_string expr start stop =
     (let res = ParseToken expr start stop in
      case result res of
        Some _ \<Rightarrow> res
      | None \<Rightarrow> ParseVarRef parse_string expr start stop)"

definition ParseName :: "StringExpression parser \<Rightarrow> StringExpression parser" where
  "ParseName parse_string expr start stop =
     (let lhs = ParseTerm parse_string expr start stop in
      case result lhs of
        None \<Rightarrow> lhs
      | Some l \<Rightarrow>
          (let rhs = parse_string expr (position lhs) stop in
           case result rhs of
             Some r \<Rightarrow> ParseResult (Some (CONCAT l r)) (position rhs)
           | None \<Rightarrow> lhs))"

text \<open>One level of recursion consumes at least one character.\<close>

primrec ParseStringExpression_fuel :: "nat \<Rightarrow> StringExpression parser" where
  "ParseStringExpression_fuel 0 = (\<lambda>expr start stop. ParseResult None start)"
| "ParseStringExpression_fuel (Suc n) = ParseName (ParseStringExpression_fuel n)"

definition ParseStringExpression :: "StringExpression parser" where
  "ParseStringExpression expr start stop =
     ParseStringExpression_fuel (Suc (stop - start)) expr start stop"

section \<open>Evaluation\<close>

text \<open>
  The callback \<open>VarRefEvaluator\<close> with its parameter is a function; \<open>NULL\<close> is \<open>None\<close>.
\<close>

type_synonym VarRefEvaluator = "string \<Rightarrow> VarRefType \<Rightarrow> string option"

fun EvalStringExpression :: "VarRefEvaluator \<Rightarrow> StringExpression \<Rightarrow> string option" where
  "EvalStringExpression evalfn (CONCAT l r) =
     (case EvalStringExpression evalfn l of
        None \<Rightarrow> None
      | Some lhs \<Rightarrow>
          (case EvalStringExpression evalfn r of
             None \<Rightarrow> None
           | Some rhs \<Rightarrow> Some (lhs @ rhs)))"
| "EvalStringExpression evalfn (LITERAL s) = Some s"
| "EvalStringExpression evalfn (VARREF n t) =
     (case EvalStringExpression evalfn n of
        None \<Rightarrow> None
      | Some name \<Rightarrow> evalfn name t)"

section \<open>Where a parser stops\<close>

definition advances :: "'a parser \<Rightarrow> bool" where
  "advances p \<longleftrightarrow>
     (\<forall>expr start stop. start \<le> stop \<longrightarrow>
        start \<le> position (p expr start stop) \<and> position (p expr start stop) \<le> stop \<and>
        (result (p expr start stop) \<noteq> None \<longrightarrow> start < position (p expr start stop)))"

lemma advancesI:
  assumes "\<And>expr start stop. start \<le> stop \<Longrightarrow>
      start \<le> position (p expr start stop) \<and> position (p expr start stop) \<le> stop \<and>
      (result (p expr start stop) \<noteq> None \<longrightarrow> start < position (p expr start stop))"
  shows "advances p"
  using assms by (simp add: advances_def)

lemma advancesD:
  assumes "advances p" "start \<le> stop"
  shows "start \<le> position (p expr start stop)" "position (p expr start stop) \<le> stop"
    "result (p expr start stop) = Some r \<Longrightarrow> start < position (p expr start stop)"
  using assms by (auto simp: advances_def)

lemma advances_ParseToken [parse_bounds]: "advances ParseToken"
  by (rule advancesI) (simp add: ParseToken_def Let_def scan_while_le)

lemma advances_ParseQname [parse_bounds]:
  assumes p: "advances p"
  shows "advances (ParseQname p)"
proof (rule advancesI)
  fix expr start stop
  assume le: "start \<le> (stop :: nat)"
  let ?l = "p expr start stop"
  have l: "start \<le> position ?l" "position ?l \<le> stop"
    using advancesD [OF p le] by auto
  show "start \<le> position (ParseQname p expr start stop) \<and>
      position (ParseQname p expr start stop) \<le> stop \<and>
      (result (ParseQname p expr start stop) \<noteq> None \<longrightarrow>
         start < position (ParseQname p expr start stop))"
    using l advancesD [OF p le, of expr]
      advancesD [OF p, of "position ?l + 1" stop expr]
    by (cases "position ?l = stop") (auto simp: ParseQname_def Let_def split: option.splits)
qed

lemma advances_ParseVarRef [parse_bounds]:
  assumes p: "advances p"
  shows "advances (ParseVarRef p)"
proof (rule advancesI)
  fix expr start stop
  assume le: "start \<le> (stop :: nat)"
  show "start \<le> position (ParseVarRef p expr start stop) \<and>
      position (ParseVarRef p expr start stop) \<le> stop \<and>
      (result (ParseVarRef p expr start stop) \<noteq> None \<longrightarrow>
         start < position (ParseVarRef p expr start stop))"
    using le advancesD [OF advances_ParseQname [OF p], of "start + 2" stop expr]
    by (auto simp: ParseVarRef_def Let_def split: option.splits)
qed

lemma advances_ParseTerm [parse_bounds]:
  assumes p: "advances p"
  shows "advances (ParseTerm p)"
proof (rule advancesI)
  fix expr start stop
  assume le: "start \<le> (stop :: nat)"
  show "start \<le> position (ParseTerm p expr start stop) \<and>
      position (ParseTerm p expr start stop) \<le> stop \<and>
      (result (ParseTerm p expr start stop) \<noteq> None \<longrightarrow>
         start < position (ParseTerm p expr start stop))"
    using advancesD [OF advances_ParseToken le] advancesD [OF advances_ParseVarRef [OF p] le]
    by (auto simp: ParseTerm_def Let_def split: option.splits)
qed

lemma advances_ParseName [parse_bounds]:
  assumes p: "advances p"
  shows "advances (ParseName p)"
proof (rule advancesI)
  fix expr start stop
  assume le: "start \<le> (stop :: nat)"
  let ?l = "ParseTerm p expr start stop"
  have l: "start \<le> position ?l" "position ?l \<le> stop"
    using advancesD [OF advances_ParseTerm [OF p] le] by auto
  show "start \<le> position (ParseName p expr start stop) \<and>
      position (ParseName p expr start stop) \<le> stop \<and>
      (result (ParseName p expr start stop) \<noteq> None \<longrightarrow>
         start < position (ParseName p expr start stop))"
    using l advancesD [OF advances_ParseTerm [OF p] le, of expr]
      advancesD [OF p l(2), of expr]
    by (auto simp: ParseName_def Let_def split: option.splits)
qed

lemma advances_fuel [parse_bounds]: "advances (ParseStringExpression_fuel n)"
  by (induction n) (simp_all add: parse_bounds, simp add: advances_def)

lemma advances_ParseStringExpression [parse_bounds]: "advances ParseStringExpression"
  using advances_fuel by (simp add: advances_def ParseStringExpression_def del: ParseStringExpression_fuel.simps)


section \<open>Fuel is always enough\<close>

lemma ParseQname_cong:
  assumes p: "advances p" and le: "start \<le> stop"
    and eq: "\<And>s. start \<le> s \<Longrightarrow> s \<le> stop \<Longrightarrow> p expr s stop = q expr s stop"
  shows "ParseQname p expr start stop = ParseQname q expr start stop"
proof -
  let ?l = "p expr start stop"
  have l: "start \<le> position ?l" "position ?l \<le> stop"
    using advancesD [OF p le] by auto
  have "p expr (position ?l + 1) stop = q expr (position ?l + 1) stop" if "position ?l \<noteq> stop"
    using l that by (intro eq) auto
  then show ?thesis
    using eq [OF order_refl le] by (auto simp: ParseQname_def Let_def split: option.splits)
qed

lemma ParseTerm_cong:
  assumes p: "advances p"
    and eq: "\<And>s. start < s \<Longrightarrow> s \<le> stop \<Longrightarrow> p expr s stop = q expr s stop"
  shows "ParseTerm p expr start stop = ParseTerm q expr start stop"
proof -
  have "ParseVarRef p expr start stop = ParseVarRef q expr start stop"
  proof (cases "start + 1 < stop")
    case True
    then have "ParseQname p expr (start + 2) stop = ParseQname q expr (start + 2) stop"
      by (intro ParseQname_cong [OF p] eq) auto
    then show ?thesis by (simp add: ParseVarRef_def)
  next
    case False
    then show ?thesis by (simp add: ParseVarRef_def)
  qed
  then show ?thesis by (simp add: ParseTerm_def Let_def split: option.split)
qed

lemma ParseTerm_past_end:
  assumes "stop \<le> start"
  shows "result (ParseTerm p expr start stop) = None"
proof -
  have "scan_while ValidTokenCharacter expr start stop = start"
    using assms by (simp add: scan_while.simps)
  then show ?thesis
    using assms by (simp add: ParseTerm_def ParseToken_def ParseVarRef_def)
qed

lemma ParseName_cong:
  assumes p: "advances p"
    and eq: "\<And>s. start < s \<Longrightarrow> s \<le> stop \<Longrightarrow> p expr s stop = q expr s stop"
  shows "ParseName p expr start stop = ParseName q expr start stop"
proof (cases "result (ParseTerm p expr start stop)")
  case None
  then show ?thesis
    using ParseTerm_cong [OF p, of start stop expr q] eq by (simp add: ParseName_def Let_def)
next
  case (Some l)
  then have "start \<le> stop"
    using ParseTerm_past_end [of stop start p expr] by fastforce
  note adv = advancesD [OF advances_ParseTerm [OF p] this, of expr]
  have "p expr (position (ParseTerm p expr start stop)) stop =
      q expr (position (ParseTerm p expr start stop)) stop"
    using adv(3) [OF Some] adv(2) by (rule eq)
  with Some show ?thesis
    using ParseTerm_cong [OF p, of start stop expr q] eq by (simp add: ParseName_def Let_def)
qed

lemma fuel_enough:
  "stop - start < n \<Longrightarrow> stop - start < m \<Longrightarrow>
   ParseStringExpression_fuel n expr start stop = ParseStringExpression_fuel m expr start stop"
proof (induction n arbitrary: m start)
  case 0
  then show ?case by simp
next
  case (Suc n)
  then obtain m' where m: "m = Suc m'" by (cases m) auto
  have "ParseName (ParseStringExpression_fuel n) expr start stop =
      ParseName (ParseStringExpression_fuel m') expr start stop"
    by (rule ParseName_cong [OF advances_fuel], rule Suc.IH) (use Suc.prems m in auto)
  then show ?case by (simp add: m)
qed

text \<open>
  The parser of string expressions terminates on every input and is the recursive
  descent of the code: \<open>ParseStringExpression\<close> satisfies the code's own equation, with
  itself as the parser called back by \<open>ParseTerm\<close>, \<open>ParseVarRef\<close> and \<open>ParseQname\<close>, for
  every string and every pair of indices. Fuel never decides a result.
\<close>

lemma ParseStringExpression_unfold:
  "ParseStringExpression expr start stop = ParseName ParseStringExpression expr start stop"
proof -
  have "ParseName (ParseStringExpression_fuel (stop - start)) expr start stop =
      ParseName ParseStringExpression expr start stop"
  proof (rule ParseName_cong [OF advances_fuel])
    fix s
    assume "start < s" "s \<le> stop"
    then show "ParseStringExpression_fuel (stop - start) expr s stop =
        ParseStringExpression expr s stop"
      unfolding ParseStringExpression_def by (intro fuel_enough) auto
  qed
  then show ?thesis by (simp add: ParseStringExpression_def)
qed

section \<open>Only the characters before the end index are read\<close>

definition reads_within :: "'a parser \<Rightarrow> bool" where
  "reads_within p \<longleftrightarrow>
     (\<forall>expr junk start stop. start \<le> stop \<longrightarrow> stop \<le> length expr \<longrightarrow>
        p (expr @ junk) start stop = p expr start stop)"

lemma reads_withinD:
  "reads_within p \<Longrightarrow> start \<le> stop \<Longrightarrow> stop \<le> length expr \<Longrightarrow>
   p (expr @ junk) start stop = p expr start stop"
  by (simp add: reads_within_def)

lemma reads_within_ParseToken [parse_reads]: "reads_within ParseToken"
  unfolding reads_within_def
proof (intro allI impI)
  fix expr junk start stop
  assume le: "start \<le> stop" "stop \<le> length (expr :: string)"
  have "scan_while ValidTokenCharacter (expr @ junk) start stop =
      scan_while ValidTokenCharacter expr start stop"
    using le by (intro scan_while_cong) (simp add: nth_append)
  moreover have "scan_while ValidTokenCharacter expr start stop \<le> length expr"
    using scan_while_le [OF le(1)] le(2) by (rule order_trans)
  ultimately show "ParseToken (expr @ junk) start stop = ParseToken expr start stop"
    by (simp add: ParseToken_def Let_def)
qed

lemma reads_within_ParseQname [parse_reads]:
  assumes p: "advances p" and r: "reads_within p"
  shows "reads_within (ParseQname p)"
  unfolding reads_within_def
proof (intro allI impI)
  fix expr junk start stop
  assume le: "start \<le> stop" "stop \<le> length (expr :: string)"
  let ?l = "p expr start stop"
  have l: "p (expr @ junk) start stop = ?l" "start \<le> position ?l" "position ?l \<le> stop"
    using reads_withinD [OF r le] advancesD [OF p le(1)] by auto
  have "p (expr @ junk) (position ?l + 1) stop = p expr (position ?l + 1) stop"
    "(expr @ junk) ! position ?l = expr ! position ?l" if "position ?l \<noteq> stop"
    using reads_withinD [OF r] l le that by (auto simp: nth_append)
  with l show "ParseQname p (expr @ junk) start stop = ParseQname p expr start stop"
    by (auto simp: ParseQname_def Let_def split: option.splits)
qed

lemma reads_within_ParseVarRef [parse_reads]:
  assumes p: "advances p" and r: "reads_within p"
  shows "reads_within (ParseVarRef p)"
  unfolding reads_within_def
proof (intro allI impI)
  fix expr junk start stop
  assume le: "start \<le> stop" "stop \<le> length (expr :: string)"
  show "ParseVarRef p (expr @ junk) start stop = ParseVarRef p expr start stop"
  proof (cases "start + 1 < stop")
    case True
    let ?q = "ParseQname p expr (start + 2) stop"
    have q: "ParseQname p (expr @ junk) (start + 2) stop = ?q"
      using True le by (intro reads_withinD reads_within_ParseQname assms) auto
    have "position ?q < stop \<Longrightarrow> (expr @ junk) ! position ?q = expr ! position ?q"
      using le by (simp add: nth_append)
    with True le q show ?thesis
      by (auto simp: ParseVarRef_def Let_def nth_append split: option.splits)
  next
    case False
    then show ?thesis by (simp add: ParseVarRef_def)
  qed
qed

lemma reads_within_ParseTerm [parse_reads]:
  assumes "advances p" "reads_within p"
  shows "reads_within (ParseTerm p)"
  using reads_within_ParseToken reads_within_ParseVarRef [OF assms]
  by (simp add: reads_within_def ParseTerm_def Let_def split: option.split)

lemma reads_within_ParseName [parse_reads]:
  assumes p: "advances p" and r: "reads_within p"
  shows "reads_within (ParseName p)"
  unfolding reads_within_def
proof (intro allI impI)
  fix expr junk start stop
  assume le: "start \<le> stop" "stop \<le> length (expr :: string)"
  let ?l = "ParseTerm p expr start stop"
  have "ParseTerm p (expr @ junk) start stop = ?l"
    using reads_within_ParseTerm [OF p r] le by (rule reads_withinD)
  moreover have "p (expr @ junk) (position ?l) stop = p expr (position ?l) stop"
    using advancesD(2) [OF advances_ParseTerm [OF p] le(1)] le(2) by (rule reads_withinD [OF r])
  ultimately show "ParseName p (expr @ junk) start stop = ParseName p expr start stop"
    by (simp add: ParseName_def Let_def split: option.split)
qed

lemma reads_within_fuel [parse_reads]: "reads_within (ParseStringExpression_fuel n)"
  by (induction n) (simp_all add: parse_bounds parse_reads, simp add: reads_within_def)

lemma reads_within_ParseStringExpression [parse_reads]: "reads_within ParseStringExpression"
  using reads_within_fuel
  by (simp add: reads_within_def ParseStringExpression_def del: ParseStringExpression_fuel.simps)


section \<open>Printing\<close>

text \<open>
  The shape of a parsed name: concatenations nest to the right, their left operand is a token
  or a variable reference, a token is not followed by a token, and the name inside a reference
  may be qualified once (\<open>CONCAT l (CONCAT (LITERAL ''.'') r)\<close>).
\<close>

fun is_concat :: "StringExpression \<Rightarrow> bool" where
  "is_concat (CONCAT l r) = True"
| "is_concat e = False"

fun starts_literal :: "StringExpression \<Rightarrow> bool" where
  "starts_literal (CONCAT l r) = starts_literal l"
| "starts_literal (LITERAL s) = True"
| "starts_literal (VARREF n t) = False"

fun wf_name :: "StringExpression \<Rightarrow> bool" where
  "wf_name (LITERAL s) = (s \<noteq> [] \<and> list_all ValidTokenCharacter s)"
| "wf_name (VARREF n t) =
     (wf_name n \<or>
      (case n of
         CONCAT l (CONCAT (LITERAL d) r) \<Rightarrow> d = ''.'' \<and> wf_name l \<and> wf_name r
       | _ \<Rightarrow> False))"
| "wf_name (CONCAT l r) =
     (\<not> is_concat l \<and> wf_name l \<and> wf_name r \<and> \<not> (starts_literal l \<and> starts_literal r))"

definition wf_qname :: "StringExpression \<Rightarrow> bool" where
  "wf_qname n \<longleftrightarrow>
     wf_name n \<or> (\<exists>l r. n = CONCAT l (CONCAT (LITERAL ''.'') r) \<and> wf_name l \<and> wf_name r)"

lemma wf_name_VARREF [simp]: "wf_name (VARREF n t) \<longleftrightarrow> wf_qname n"
  by (auto simp: wf_qname_def split: StringExpression.splits)

declare wf_name.simps(2) [simp del]

fun show_name :: "StringExpression \<Rightarrow> string" where
  "show_name (CONCAT l r) = show_name l @ show_name r"
| "show_name (LITERAL s) = s"
| "show_name (VARREF n t) =
     (case t of VAR_REF_TYPE_SCALAR \<Rightarrow> CHR ''$'' | VAR_REF_TYPE_LIST \<Rightarrow> CHR ''@'')
     # CHR ''('' # show_name n @ '')''"

text \<open>The characters that may follow a name without being part of it.\<close>

definition ends_name :: "string \<Rightarrow> bool" where
  "ends_name rest \<longleftrightarrow>
     (case rest of [] \<Rightarrow> True
      | c # _ \<Rightarrow> \<not> ValidTokenCharacter c \<and> c \<noteq> CHR ''$'' \<and> c \<noteq> CHR ''@'')"

lemma not_token_chars [simp]:
  "\<not> ValidTokenCharacter CHR ''$''" "\<not> ValidTokenCharacter CHR ''@''"
  "\<not> ValidTokenCharacter CHR ''.''" "\<not> ValidTokenCharacter CHR '')''"
  "\<not> ValidTokenCharacter CHR ''(''" "\<not> ValidTokenCharacter CHR ''!''"
  "\<not> ValidTokenCharacter CHR ''&''" "\<not> ValidTokenCharacter CHR ''|''"
  by (simp_all add: ValidTokenCharacter_def less_eq_char_def)

lemma ends_name_simps [simp]:
  "ends_name []" "ends_name (CHR ''.'' # cs)" "ends_name (CHR '')'' # cs)"
  "ends_name (CHR ''&'' # cs)" "ends_name (CHR ''|'' # cs)"
  by (simp_all add: ends_name_def)

lemma wf_qname_cases:
  assumes "wf_qname n"
  obtains (name) "wf_name n"
    | (dotted) l r where "n = CONCAT l (CONCAT (LITERAL ''.'') r)" "wf_name l" "wf_name r"
  using assms by (auto simp: wf_qname_def)

lemma show_name_nonempty: "wf_name e \<Longrightarrow> show_name e \<noteq> []"
  by (induction e rule: show_name.induct) auto

lemma hd_show_name:
  "wf_name e \<Longrightarrow> \<not> starts_literal e \<Longrightarrow>
   hd (show_name e) = CHR ''$'' \<or> hd (show_name e) = CHR ''@''"
  by (induction e rule: starts_literal.induct)
    (auto simp: show_name_nonempty split: VarRefType.splits)

lemma ParseTerm_token:
  assumes "wf_name (LITERAL s)" "rest = [] \<or> \<not> ValidTokenCharacter (hd rest)"
  shows "ParseTerm p (pre @ s @ rest) (length pre) (length (pre @ s @ rest)) =
     ParseResult (Some (LITERAL s)) (length pre + length s)"
proof -
  have "scan_while ValidTokenCharacter (pre @ s @ rest) (length pre) (length (pre @ s @ rest))
      = length pre + length s"
    by (rule scan_while_block) (use assms in \<open>auto simp: list_all_iff\<close>)
  with assms(1) show ?thesis
    by (simp add: ParseTerm_def ParseToken_def Let_def)
qed

lemma ParseToken_fails:
  assumes "rest = [] \<or> \<not> ValidTokenCharacter (hd rest)"
  shows "ParseToken (pre @ rest) (length pre) (length (pre @ rest)) =
     ParseResult None (length pre)"
  using scan_while_block [of "[]" ValidTokenCharacter rest "length (pre @ rest)" pre] assms
  by (simp add: ParseToken_def Let_def)

lemma ParseStringExpression_fails:
  assumes "ends_name rest"
  shows "result (ParseStringExpression (pre @ rest) (length pre) (length (pre @ rest))) = None"
proof -
  have "rest = [] \<or> \<not> ValidTokenCharacter (hd rest)"
    using assms by (auto simp: ends_name_def split: list.splits)
  then have "ParseTerm ParseStringExpression (pre @ rest) (length pre) (length (pre @ rest)) =
      ParseVarRef ParseStringExpression (pre @ rest) (length pre) (length (pre @ rest))"
    using ParseToken_fails [of rest pre] by (simp add: ParseTerm_def Let_def)
  moreover have "rest = [] \<or> (hd rest \<noteq> CHR ''$'' \<and> hd rest \<noteq> CHR ''@'')"
    using assms by (auto simp: ends_name_def split: list.splits)
  then have "result (ParseVarRef ParseStringExpression (pre @ rest) (length pre)
      (length (pre @ rest))) = None"
    by (cases rest) (auto simp: ParseVarRef_def)
  ultimately show ?thesis
    by (subst ParseStringExpression_unfold) (simp add: ParseName_def Let_def)
qed

text \<open>A reference is parsed back if the qualified name inside it is.\<close>

lemma ParseTerm_reference:
  assumes "ParseQname ParseStringExpression (pre @ show_name (VARREF n t) @ rest)
       (length pre + 2) (length (pre @ show_name (VARREF n t) @ rest)) =
     ParseResult (Some n) (length pre + 2 + length (show_name n))"
  shows "ParseTerm ParseStringExpression (pre @ show_name (VARREF n t) @ rest) (length pre)
       (length (pre @ show_name (VARREF n t) @ rest)) =
     ParseResult (Some (VARREF n t)) (length pre + length (show_name (VARREF n t)))"
proof -
  have "ParseToken (pre @ show_name (VARREF n t) @ rest) (length pre)
      (length (pre @ show_name (VARREF n t) @ rest)) = ParseResult None (length pre)"
    by (rule ParseToken_fails) (simp split: VarRefType.split)
  with assms show ?thesis
    by (cases t) (simp_all add: ParseTerm_def ParseVarRef_def Let_def nth_append)
qed

lemma ParseQname_show:
  assumes "wf_qname n"
    and IH: "\<And>m pre rest. size m \<le> size n \<Longrightarrow> wf_name m \<Longrightarrow> ends_name rest \<Longrightarrow>
      ParseStringExpression (pre @ show_name m @ rest) (length pre)
        (length (pre @ show_name m @ rest)) =
      ParseResult (Some m) (length pre + length (show_name m))"
  shows "ParseQname ParseStringExpression (pre @ show_name n @ '')'' @ rest) (length pre)
      (length (pre @ show_name n @ '')'' @ rest)) =
     ParseResult (Some n) (length pre + length (show_name n))"
  using assms(1)
proof (cases rule: wf_qname_cases)
  case name
  then have "ParseStringExpression (pre @ show_name n @ '')'' @ rest) (length pre)
      (length (pre @ show_name n @ '')'' @ rest)) =
     ParseResult (Some n) (length pre + length (show_name n))"
    by (intro IH) simp_all
  then show ?thesis by (simp add: ParseQname_def Let_def nth_append)
next
  case (dotted l r)
  have "ParseStringExpression (pre @ show_name l @ ''.'' @ show_name r @ '')'' @ rest) (length pre)
      (length (pre @ show_name l @ ''.'' @ show_name r @ '')'' @ rest)) =
     ParseResult (Some l) (length pre + length (show_name l))"
    by (rule IH) (use dotted in simp_all)
  moreover have "ParseStringExpression
      ((pre @ show_name l @ ''.'') @ show_name r @ '')'' @ rest) (length (pre @ show_name l @ ''.''))
      (length ((pre @ show_name l @ ''.'') @ show_name r @ '')'' @ rest)) =
     ParseResult (Some r) (length (pre @ show_name l @ ''.'') + length (show_name r))"
    by (rule IH) (use dotted in simp_all)
  ultimately show ?thesis
    using dotted by (simp add: ParseQname_def Let_def nth_append)
qed

lemma ParseTerm_show:
  assumes "wf_name e" "\<not> is_concat e"
    and "starts_literal e \<Longrightarrow> rest = [] \<or> \<not> ValidTokenCharacter (hd rest)"
    and IH: "\<And>m pre rest. size m < size e \<Longrightarrow> wf_name m \<Longrightarrow> ends_name rest \<Longrightarrow>
      ParseStringExpression (pre @ show_name m @ rest) (length pre)
        (length (pre @ show_name m @ rest)) =
      ParseResult (Some m) (length pre + length (show_name m))"
  shows "ParseTerm ParseStringExpression (pre @ show_name e @ rest) (length pre)
      (length (pre @ show_name e @ rest)) =
     ParseResult (Some e) (length pre + length (show_name e))"
proof (cases e)
  case (LITERAL s)
  with assms show ?thesis by (simp add: ParseTerm_token del: length_append)
next
  case (VARREF n t)
  let ?c = "case t of VAR_REF_TYPE_SCALAR \<Rightarrow> CHR ''$'' | VAR_REF_TYPE_LIST \<Rightarrow> CHR ''@''"
  have "ParseQname ParseStringExpression ((pre @ [?c, CHR ''('']) @ show_name n @ '')'' @ rest)
      (length (pre @ [?c, CHR ''('']))
      (length ((pre @ [?c, CHR ''('']) @ show_name n @ '')'' @ rest)) =
     ParseResult (Some n) (length (pre @ [?c, CHR ''('']) + length (show_name n))"
    by (rule ParseQname_show) (use VARREF assms in auto)
  then show ?thesis
    unfolding VARREF by (intro ParseTerm_reference) simp
next
  case (CONCAT l r)
  with assms show ?thesis by simp
qed

lemma ParseStringExpression_show:
  "wf_name e \<Longrightarrow> ends_name rest \<Longrightarrow>
   ParseStringExpression (pre @ show_name e @ rest) (length pre) (length (pre @ show_name e @ rest)) =
     ParseResult (Some e) (length pre + length (show_name e))"
proof (induction e arbitrary: pre rest rule: measure_induct_rule [where f = size])
  case (less e)
  show ?case
  proof (cases "is_concat e")
    case False
    have "rest = [] \<or> \<not> ValidTokenCharacter (hd rest)"
      using less.prems(2) by (auto simp: ends_name_def split: list.splits)
    then have "ParseTerm ParseStringExpression (pre @ show_name e @ rest) (length pre)
        (length (pre @ show_name e @ rest)) =
       ParseResult (Some e) (length pre + length (show_name e))"
      using False less by (intro ParseTerm_show)
    moreover have "result (ParseStringExpression ((pre @ show_name e) @ rest)
        (length (pre @ show_name e)) (length ((pre @ show_name e) @ rest))) = None"
      using less.prems(2) by (rule ParseStringExpression_fails)
    ultimately show ?thesis
      by (subst ParseStringExpression_unfold) (simp add: ParseName_def Let_def)
  next
    case True
    then obtain l r where e: "e = CONCAT l r" by (cases e) auto
    with less.prems have wf: "wf_name l" "wf_name r" "\<not> is_concat l"
      "starts_literal l \<Longrightarrow> \<not> starts_literal r" by auto
    then have "starts_literal l \<Longrightarrow> \<not> ValidTokenCharacter (hd (show_name r @ rest))"
      using hd_show_name [of r] show_name_nonempty [of r] by auto
    then have "ParseTerm ParseStringExpression (pre @ show_name l @ show_name r @ rest) (length pre)
        (length (pre @ show_name l @ show_name r @ rest)) =
       ParseResult (Some l) (length pre + length (show_name l))"
      using e wf less.IH by (intro ParseTerm_show) auto
    moreover have "ParseStringExpression ((pre @ show_name l) @ show_name r @ rest)
        (length (pre @ show_name l)) (length ((pre @ show_name l) @ show_name r @ rest)) =
       ParseResult (Some r) (length (pre @ show_name l) + length (show_name r))"
      using e wf less.prems(2) by (intro less.IH) auto
    ultimately show ?thesis
      unfolding e by (subst ParseStringExpression_unfold) (simp add: ParseName_def Let_def)
  qed
qed


section \<open>Every parsed expression has that shape\<close>

lemma ParseToken_wf:
  assumes "result (ParseToken expr start stop) = Some e" "stop \<le> length expr"
  shows "wf_name e \<and> \<not> is_concat e"
proof -
  let ?i = "scan_while ValidTokenCharacter expr start stop"
  have i: "start < ?i" "e = LITERAL (substr expr start ?i)"
    using assms(1) by (auto simp: ParseToken_def Let_def split: if_splits)
  moreover have "start \<le> stop"
    using i(1) by (cases "start \<le> stop") (auto simp: scan_while.simps [of _ _ start])
  ultimately have "?i \<le> length expr"
    using scan_while_le assms(2) order_trans by blast
  then have "substr expr start ?i \<noteq> []"
    using i(1) by (simp add: substr_def)
  moreover have "list_all ValidTokenCharacter (substr expr start ?i)"
    using scan_while_all [of start _ ValidTokenCharacter expr stop]
    by (auto simp: list_all_iff dest!: set_substrD)
  ultimately show ?thesis using i(2) by simp
qed

lemma ParseTerm_literal_stop:
  assumes "result (ParseTerm p expr start stop) = Some e" "starts_literal e"
    "\<not> is_concat e" "start \<le> stop"
  shows "position (ParseTerm p expr start stop) = stop \<or>
    \<not> ValidTokenCharacter (expr ! position (ParseTerm p expr start stop))"
proof -
  let ?i = "scan_while ValidTokenCharacter expr start stop"
  have "result (ParseVarRef p expr start stop) = Some e \<Longrightarrow> \<not> starts_literal e"
    by (auto simp: ParseVarRef_def Let_def split: if_splits option.splits)
  with assms(1,2) have "position (ParseTerm p expr start stop) = ?i"
    by (auto simp: ParseTerm_def ParseToken_def Let_def split: if_splits)
  then show ?thesis
    using scan_while_stops [of ValidTokenCharacter expr start stop]
      scan_while_le [OF assms(4), of ValidTokenCharacter expr] by auto
qed

lemma starts_literal_ParseName:
  assumes "result (ParseName p expr start stop) = Some e" "starts_literal e"
  shows "start < stop \<and> ValidTokenCharacter (expr ! start)"
proof (rule ccontr)
  assume no: "\<not> ?thesis"
  then have "scan_while ValidTokenCharacter expr start stop = start"
    by (auto simp: scan_while.simps)
  then have "ParseTerm p expr start stop = ParseVarRef p expr start stop"
    by (simp add: ParseTerm_def ParseToken_def)
  then show False
    using assms by (auto simp: ParseName_def ParseVarRef_def Let_def split: option.splits if_splits)
qed

lemma ParseQname_wf:
  assumes "result (ParseQname p expr start stop) = Some e" "advances p" "start \<le> stop"
    and "\<And>s m. start \<le> s \<Longrightarrow> s \<le> stop \<Longrightarrow> result (p expr s stop) = Some m \<Longrightarrow> wf_name m"
  shows "wf_qname e"
proof -
  note adv = advancesD [OF assms(2,3), of expr]
  have "position (p expr start stop) \<noteq> stop \<Longrightarrow>
      result (p expr (position (p expr start stop) + 1) stop) = Some m \<Longrightarrow> wf_name m" for m
    using adv by (intro assms(4) [of "position (p expr start stop) + 1"]) auto
  then show ?thesis
    using assms(1,3) assms(4) [of start]
    by (auto simp: ParseQname_def Let_def wf_qname_def split: option.splits if_splits)
qed

lemma ParseTerm_wf:
  assumes "result (ParseTerm p expr start stop) = Some e" "advances p" "stop \<le> length expr"
    and "\<And>s m. start < s \<Longrightarrow> s \<le> stop \<Longrightarrow> result (p expr s stop) = Some m \<Longrightarrow> wf_name m"
  shows "wf_name e \<and> \<not> is_concat e"
proof (cases "result (ParseToken expr start stop)")
  case (Some t)
  with assms(1,3) show ?thesis
    using ParseToken_wf by (auto simp: ParseTerm_def Let_def)
next
  case None
  then have v: "result (ParseVarRef p expr start stop) = Some e"
    using assms(1) by (simp add: ParseTerm_def Let_def)
  then obtain n t where "start + 1 < stop" "e = VARREF n t"
    "result (ParseQname p expr (start + 2) stop) = Some n"
    by (auto simp: ParseVarRef_def Let_def split: if_splits option.splits)
  moreover from this have "wf_qname n"
    using assms(2) by (intro ParseQname_wf [of p expr "start + 2" stop] assms(4)) auto
  ultimately show ?thesis by simp
qed

lemma ParseStringExpression_wf:
  "result (ParseStringExpression expr start stop) = Some e \<Longrightarrow> stop \<le> length expr \<Longrightarrow> wf_name e"
proof (induction "stop - start" arbitrary: start e rule: less_induct)
  case less
  let ?t = "ParseTerm ParseStringExpression expr start stop"
  have le: "start \<le> stop"
    using less.prems(1) ParseTerm_past_end [of stop start ParseStringExpression expr]
    by (cases "start \<le> stop")
      (auto simp: ParseStringExpression_unfold [of expr start] ParseName_def Let_def)
  have IH: "start < s \<Longrightarrow> s \<le> stop \<Longrightarrow> result (ParseStringExpression expr s stop) = Some m
      \<Longrightarrow> wf_name m" for s m
    using less.prems(2) by (intro less.hyps) auto
  note name = less.prems(1) [unfolded ParseStringExpression_unfold [of expr start]]
  from name obtain l where l: "result ?t = Some l"
    by (auto simp: ParseName_def Let_def split: option.splits)
  note adv = advancesD [OF advances_ParseTerm [OF advances_ParseStringExpression] le, of expr]
  have wfl: "wf_name l \<and> \<not> is_concat l"
    using l advances_ParseStringExpression less.prems(2) IH by (rule ParseTerm_wf)
  show ?case
  proof (cases "result (ParseStringExpression expr (position ?t) stop)")
    case None
    with name l wfl show ?thesis by (simp add: ParseName_def Let_def)
  next
    case (Some r)
    have "wf_name r" using Some adv(3) [OF l] adv(2) by (intro IH)
    moreover have "\<not> (starts_literal l \<and> starts_literal r)"
    proof
      assume "starts_literal l \<and> starts_literal r"
      then show False
        using starts_literal_ParseName [of ParseStringExpression expr "position ?t" stop r]
          ParseTerm_literal_stop [OF l] Some wfl le
        by (auto simp: ParseStringExpression_unfold [of expr "position ?t"])
    qed
    ultimately show ?thesis
      using name l wfl Some by (auto simp: ParseName_def Let_def)
  qed
qed

end
