(* ===== verification/Logic_Expr.thy ===== *)
theory Logic_Expr
  imports String_Expr
begin

text \<open>
  Class expressions, \<open>libpromises/logic_expressions.c\<close>: the boolean language of the class
  guards \<open>linux.!redhat|(a&b)::\<close>. The parser has the grammar's four levels; the names at the
  leaves are string expressions. As in \<open>String_Expr\<close>, each function takes the parser it calls
  back, and the recursion is tied with fuel that \<open>ParseExpression_unfold\<close> shows irrelevant.

  The evaluator takes the callbacks \<open>nameevalfn\<close> and \<open>varrefevalfn\<close>. It evaluates both
  operands of \<open>AND\<close> and \<open>OR\<close> always: an error on the right is an error of the whole
  expression even where the left operand decides the value.
\<close>

datatype Expression =
    OR Expression Expression
  | AND Expression Expression
  | NOT Expression
  | EVAL StringExpression

datatype ExpressionValue = EXP_ERROR | EXP_FALSE | EXP_TRUE

section \<open>The parser\<close>

definition ParsePrimary :: "Expression parser \<Rightarrow> Expression parser" where
  "ParsePrimary parse_expr expr start stop =
     (if start < stop \<and> expr ! start = CHR ''('' then
        (let res = parse_expr expr (start + 1) stop in
         case result res of
           Some r \<Rightarrow>
             if position res < stop \<and> expr ! position res = CHR '')''
             then ParseResult (Some r) (position res + 1)
             else ParseResult None (position res)
         | None \<Rightarrow> res)
      else
        (let strres = ParseStringExpression expr start stop in
         case result strres of
           Some name \<Rightarrow> ParseResult (Some (EVAL name)) (position strres)
         | None \<Rightarrow> ParseResult None (position strres)))"

definition ParseNotExpression :: "Expression parser \<Rightarrow> Expression parser" where
  "ParseNotExpression parse_expr expr start stop =
     (if start < stop \<and> expr ! start = CHR ''!'' then
        (let primres = ParsePrimary parse_expr expr (start + 1) stop in
         case result primres of
           Some r \<Rightarrow> ParseResult (Some (NOT r)) (position primres)
         | None \<Rightarrow> primres)
      else ParsePrimary parse_expr expr start stop)"

text \<open>
  \<open>ParseAndExpression\<close> calls itself on the rest: \<open>parse_and\<close> is that call.
\<close>

definition ParseAndStep :: "Expression parser \<Rightarrow> Expression parser \<Rightarrow> Expression parser" where
  "ParseAndStep parse_and parse_expr expr start stop =
     (let lhs = ParseNotExpression parse_expr expr start stop in
      case result lhs of
        None \<Rightarrow> lhs
      | Some l \<Rightarrow>
          if position lhs = stop \<or>
             (expr ! position lhs \<noteq> CHR ''.'' \<and> expr ! position lhs \<noteq> CHR ''&'')
          then lhs
          else
            (let rhs = parse_and expr (position lhs + 1) stop in
             case result rhs of
               None \<Rightarrow> rhs
             | Some r \<Rightarrow> ParseResult (Some (AND l r)) (position rhs)))"

definition ParseOrStep :: "Expression parser \<Rightarrow> Expression parser \<Rightarrow> Expression parser" where
  "ParseOrStep parse_and parse_expr expr start stop =
     (let lhs = parse_and expr start stop in
      case result lhs of
        None \<Rightarrow> lhs
      | Some l \<Rightarrow>
          if position lhs = stop \<or> expr ! position lhs \<noteq> CHR ''|'' then lhs
          else
            (let pos = (if position lhs + 1 < stop \<and> expr ! (position lhs + 1) = CHR ''|''
                        then position lhs + 1 else position lhs);
                 rhs = parse_expr expr (pos + 1) stop in
             case result rhs of
               None \<Rightarrow> rhs
             | Some r \<Rightarrow> ParseResult (Some (OR l r)) (position rhs)))"

text \<open>
  The two mutually recursive parsers at fuel \<open>n\<close>: first \<open>ParseAndExpression\<close>, then
  \<open>ParseExpression\<close>. A call that consumes a character spends one unit.
\<close>

primrec ParseAnd_fuel :: "nat \<Rightarrow> Expression parser \<times> Expression parser" where
  "ParseAnd_fuel 0 =
     (\<lambda>expr start stop. ParseResult None start, \<lambda>expr start stop. ParseResult None start)"
| "ParseAnd_fuel (Suc n) =
     (let (parse_and, parse_expr) = ParseAnd_fuel n;
          parse_and' = ParseAndStep parse_and parse_expr
      in (parse_and', ParseOrStep parse_and' parse_expr))"

definition ParseAndExpression :: "Expression parser" where
  "ParseAndExpression expr start stop = fst (ParseAnd_fuel (Suc (stop - start))) expr start stop"

definition ParseExpression :: "Expression parser" where
  "ParseExpression expr start stop = snd (ParseAnd_fuel (Suc (stop - start))) expr start stop"

section \<open>Evaluation\<close>

type_synonym NameEvaluator = "string \<Rightarrow> ExpressionValue"

definition exp_bool :: "bool \<Rightarrow> ExpressionValue" where
  "exp_bool b = (if b then EXP_TRUE else EXP_FALSE)"

fun EvalExpression :: "NameEvaluator \<Rightarrow> VarRefEvaluator \<Rightarrow> Expression \<Rightarrow> ExpressionValue" where
  "EvalExpression nameevalfn varrefevalfn (OR l r) =
     (let lhs = EvalExpression nameevalfn varrefevalfn l in
      if lhs = EXP_ERROR then EXP_ERROR
      else
        (let rhs = EvalExpression nameevalfn varrefevalfn r in
         if rhs = EXP_ERROR then EXP_ERROR
         else exp_bool (lhs \<noteq> EXP_FALSE \<or> rhs \<noteq> EXP_FALSE)))"
| "EvalExpression nameevalfn varrefevalfn (AND l r) =
     (let lhs = EvalExpression nameevalfn varrefevalfn l in
      if lhs = EXP_ERROR then EXP_ERROR
      else
        (let rhs = EvalExpression nameevalfn varrefevalfn r in
         if rhs = EXP_ERROR then EXP_ERROR
         else exp_bool (lhs \<noteq> EXP_FALSE \<and> rhs \<noteq> EXP_FALSE)))"
| "EvalExpression nameevalfn varrefevalfn (NOT e) =
     (let arg = EvalExpression nameevalfn varrefevalfn e in
      if arg = EXP_ERROR then EXP_ERROR else exp_bool (arg = EXP_FALSE))"
| "EvalExpression nameevalfn varrefevalfn (EVAL n) =
     (case EvalStringExpression varrefevalfn n of
        None \<Rightarrow> EXP_ERROR
      | Some name \<Rightarrow> nameevalfn name)"

section \<open>Where the parsers stop\<close>

lemma advances_ParsePrimary [parse_bounds]:
  assumes p: "advances p"
  shows "advances (ParsePrimary p)"
proof (rule advancesI)
  fix expr start stop
  assume le: "start \<le> (stop :: nat)"
  show "start \<le> position (ParsePrimary p expr start stop) \<and>
      position (ParsePrimary p expr start stop) \<le> stop \<and>
      (result (ParsePrimary p expr start stop) \<noteq> None \<longrightarrow>
         start < position (ParsePrimary p expr start stop))"
    using le advancesD [OF p, of "start + 1" stop expr]
      advancesD [OF advances_ParseStringExpression le, of expr]
    by (auto simp: ParsePrimary_def Let_def split: option.splits)
qed

lemma advances_ParseNotExpression [parse_bounds]:
  assumes p: "advances p"
  shows "advances (ParseNotExpression p)"
proof (rule advancesI)
  fix expr start stop
  assume le: "start \<le> (stop :: nat)"
  show "start \<le> position (ParseNotExpression p expr start stop) \<and>
      position (ParseNotExpression p expr start stop) \<le> stop \<and>
      (result (ParseNotExpression p expr start stop) \<noteq> None \<longrightarrow>
         start < position (ParseNotExpression p expr start stop))"
    using le advancesD [OF advances_ParsePrimary [OF p], of "start + 1" stop expr]
      advancesD [OF advances_ParsePrimary [OF p] le, of expr]
    by (auto simp: ParseNotExpression_def Let_def split: option.splits)
qed

lemma advances_ParseAndStep [parse_bounds]:
  assumes a: "advances a" and p: "advances p"
  shows "advances (ParseAndStep a p)"
proof (rule advancesI)
  fix expr start stop
  assume le: "start \<le> (stop :: nat)"
  let ?l = "ParseNotExpression p expr start stop"
  note l = advancesD [OF advances_ParseNotExpression [OF p] le, of expr]
  show "start \<le> position (ParseAndStep a p expr start stop) \<and>
      position (ParseAndStep a p expr start stop) \<le> stop \<and>
      (result (ParseAndStep a p expr start stop) \<noteq> None \<longrightarrow>
         start < position (ParseAndStep a p expr start stop))"
    using l advancesD [OF a, of "position ?l + 1" stop expr]
    by (cases "position ?l = stop") (auto simp: ParseAndStep_def Let_def split: option.splits)
qed

lemma advances_ParseOrStep [parse_bounds]:
  assumes a: "advances a" and p: "advances p"
  shows "advances (ParseOrStep a p)"
proof (rule advancesI)
  fix expr start stop
  assume le: "start \<le> (stop :: nat)"
  let ?l = "a expr start stop"
  note l = advancesD [OF a le, of expr]
  show "start \<le> position (ParseOrStep a p expr start stop) \<and>
      position (ParseOrStep a p expr start stop) \<le> stop \<and>
      (result (ParseOrStep a p expr start stop) \<noteq> None \<longrightarrow>
         start < position (ParseOrStep a p expr start stop))"
    using l advancesD [OF p, of "position ?l + 1" stop expr]
      advancesD [OF p, of "position ?l + 2" stop expr]
    by (cases "position ?l = stop") (auto simp: ParseOrStep_def Let_def split: option.splits)
qed

lemma advances_ParseAnd_fuel [parse_bounds]:
  "advances (fst (ParseAnd_fuel n)) \<and> advances (snd (ParseAnd_fuel n))"
  by (induction n) (auto simp: Let_def parse_bounds advances_def [of "\<lambda>_ b _. ParseResult _ b"]
      split: prod.splits)

lemma advances_ParseExpression [parse_bounds]:
  "advances ParseAndExpression" "advances ParseExpression"
  using advances_ParseAnd_fuel
  by (simp_all add: advances_def ParseAndExpression_def ParseExpression_def del: ParseAnd_fuel.simps)


section \<open>Fuel is always enough\<close>

lemma result_past_end:
  assumes "stop \<le> start"
  shows "result (ParseStringExpression expr start stop) = None"
  using ParseTerm_past_end [OF assms, of ParseStringExpression expr]
  by (simp add: ParseStringExpression_unfold [of expr start] ParseName_def Let_def)

lemma ParseNotExpression_past_end:
  assumes "stop \<le> start"
  shows "ParseNotExpression p expr start stop = ParseNotExpression q expr start stop"
    and "result (ParseNotExpression p expr start stop) = None"
  using assms result_past_end [OF assms]
  by (simp_all add: ParseNotExpression_def ParsePrimary_def Let_def split: option.split)

lemma ParsePrimary_cong:
  assumes "start < stop \<Longrightarrow> p expr (start + 1) stop = q expr (start + 1) stop"
  shows "ParsePrimary p expr start stop = ParsePrimary q expr start stop"
  using assms by (auto simp: ParsePrimary_def Let_def split: option.split)

lemma ParseNotExpression_cong:
  assumes "\<And>s. start < s \<Longrightarrow> s \<le> stop \<Longrightarrow> p expr s stop = q expr s stop"
  shows "ParseNotExpression p expr start stop = ParseNotExpression q expr start stop"
proof -
  have "ParsePrimary p expr start stop = ParsePrimary q expr start stop"
    by (rule ParsePrimary_cong) (rule assms; simp)
  moreover have "ParsePrimary p expr (start + 1) stop = ParsePrimary q expr (start + 1) stop"
    if "start < stop"
    by (rule ParsePrimary_cong) (rule assms; simp)
  ultimately show ?thesis
    by (auto simp: ParseNotExpression_def Let_def split: option.split)
qed

lemma ParseAndStep_cong:
  assumes p: "advances p"
    and eq: "\<And>s. start < s \<Longrightarrow> s \<le> stop \<Longrightarrow> p expr s stop = q expr s stop"
    and eqa: "\<And>s. start < s \<Longrightarrow> s \<le> stop \<Longrightarrow> a expr s stop = b expr s stop"
  shows "ParseAndStep a p expr start stop = ParseAndStep b q expr start stop"
proof -
  let ?l = "ParseNotExpression p expr start stop"
  have l: "?l = ParseNotExpression q expr start stop"
    using eq by (rule ParseNotExpression_cong)
  show ?thesis
  proof (cases "start \<le> stop")
    case True
    note adv = advancesD [OF advances_ParseNotExpression [OF p] True, of expr]
    have "position ?l \<noteq> stop \<Longrightarrow> a expr (position ?l + 1) stop = b expr (position ?l + 1) stop"
      using adv(1,2) by (intro eqa) auto
    then show ?thesis
      using l by (auto simp: ParseAndStep_def Let_def split: option.split)
  next
    case False
    then have "result ?l = None" by (simp add: ParseNotExpression_past_end)
    with l show ?thesis by (simp add: ParseAndStep_def Let_def)
  qed
qed

lemma ParseOrStep_cong:
  assumes a: "advances a" and le: "start \<le> stop"
    and eq: "\<And>s. start < s \<Longrightarrow> s \<le> stop \<Longrightarrow> p expr s stop = q expr s stop"
    and eqa: "a expr start stop = b expr start stop"
  shows "ParseOrStep a p expr start stop = ParseOrStep b q expr start stop"
proof -
  let ?l = "a expr start stop"
  note adv = advancesD [OF a le, of expr]
  have "position ?l \<noteq> stop \<Longrightarrow> p expr (Suc (position ?l)) stop = q expr (Suc (position ?l)) stop"
    using adv(1,2) by (intro eq) auto
  moreover have "Suc (position ?l) < stop \<Longrightarrow>
      p expr (Suc (Suc (position ?l))) stop = q expr (Suc (Suc (position ?l))) stop"
    using adv(1,2) by (intro eq) auto
  ultimately show ?thesis
    using eqa by (auto simp: ParseOrStep_def Let_def split: option.split)
qed

lemma ParseAnd_fuel_enough:
  assumes "start \<le> stop"
  shows "stop - start < n \<Longrightarrow> stop - start < m \<Longrightarrow>
     fst (ParseAnd_fuel n) expr start stop = fst (ParseAnd_fuel m) expr start stop \<and>
     snd (ParseAnd_fuel n) expr start stop = snd (ParseAnd_fuel m) expr start stop"
  using assms
proof (induction n arbitrary: m start)
  case 0
  then show ?case by simp
next
  case (Suc n)
  then obtain m' where m: "m = Suc m'" by (cases m) auto
  obtain a p where n: "ParseAnd_fuel n = (a, p)" by (cases "ParseAnd_fuel n")
  obtain b q where m': "ParseAnd_fuel m' = (b, q)" by (cases "ParseAnd_fuel m'")
  have adv: "advances a" "advances p" using advances_ParseAnd_fuel [of n] n by auto
  have IH: "a expr s stop = b expr s stop" "p expr s stop = q expr s stop"
    if "start < s" "s \<le> stop" for s
    using Suc.IH [of s m'] Suc.prems that m n m' by auto
  have "ParseAndStep a p expr start stop = ParseAndStep b q expr start stop"
    using IH by (intro ParseAndStep_cong adv)
  moreover from this have "ParseOrStep (ParseAndStep a p) p expr start stop =
      ParseOrStep (ParseAndStep b q) q expr start stop"
    using IH Suc.prems(3) adv by (intro ParseOrStep_cong advances_ParseAndStep)
  ultimately show ?case by (simp add: m n m' Let_def)
qed

lemma ParseExpression_unfold:
  assumes "start \<le> stop"
  shows "ParseAndExpression expr start stop =
      ParseAndStep ParseAndExpression ParseExpression expr start stop"
    and "ParseExpression expr start stop =
      ParseOrStep ParseAndExpression ParseExpression expr start stop"
proof -
  obtain a p where n: "ParseAnd_fuel (stop - start) = (a, p)"
    by (cases "ParseAnd_fuel (stop - start)")
  have adv: "advances a" "advances p"
    using advances_ParseAnd_fuel [of "stop - start"] n by auto
  have eq: "a expr s stop = ParseAndExpression expr s stop"
    "p expr s stop = ParseExpression expr s stop" if "start < s" "s \<le> stop" for s
    using ParseAnd_fuel_enough [of s stop "stop - start" "Suc (stop - s)" expr] that n
    unfolding ParseAndExpression_def ParseExpression_def by auto
  have "ParseAndStep a p expr start stop =
      ParseAndStep ParseAndExpression ParseExpression expr start stop"
    using eq by (intro ParseAndStep_cong adv)
  then show a: "ParseAndExpression expr start stop =
      ParseAndStep ParseAndExpression ParseExpression expr start stop"
    by (simp add: ParseAndExpression_def n Let_def)
  have "ParseOrStep (ParseAndStep a p) p expr start stop =
      ParseOrStep ParseAndExpression ParseExpression expr start stop"
    using eq assms adv a
    by (intro ParseOrStep_cong advances_ParseAndStep) (auto simp: ParseAndExpression_def n Let_def)
  then show "ParseExpression expr start stop =
      ParseOrStep ParseAndExpression ParseExpression expr start stop"
    by (simp add: ParseExpression_def n Let_def)
qed

section \<open>Printing\<close>

text \<open>
  A printer with the parentheses the grammar needs: level 0 is \<open><or-expr>\<close>, 1 \<open><and-expr>\<close>,
  2 \<open><not-expr>\<close> and 3 \<open><primary>\<close>.
\<close>

definition parens :: "bool \<Rightarrow> string \<Rightarrow> string" where
  "parens b s = (if b then ''('' @ s @ '')'' else s)"

fun show_at :: "nat \<Rightarrow> Expression \<Rightarrow> string" where
  "show_at k (OR l r) = parens (0 < k) (show_at 1 l @ ''|'' @ show_at 0 r)"
| "show_at k (AND l r) = parens (1 < k) (show_at 2 l @ ''.'' @ show_at 1 r)"
| "show_at k (NOT e) = parens (2 < k) (''!'' @ show_at 3 e)"
| "show_at k (EVAL n) = show_name n"

abbreviation show_expression :: "Expression \<Rightarrow> string" where
  "show_expression \<equiv> show_at 0"

primrec wf_expression :: "Expression \<Rightarrow> bool" where
  "wf_expression (OR l r) = (wf_expression l \<and> wf_expression r)"
| "wf_expression (AND l r) = (wf_expression l \<and> wf_expression r)"
| "wf_expression (NOT e) = wf_expression e"
| "wf_expression (EVAL n) = wf_name n"

text \<open>The parser reads \<open>txt\<close> as \<open>e\<close> wherever it stands before a character of \<open>F\<close>.\<close>

definition reads_as :: "Expression parser \<Rightarrow> string \<Rightarrow> char set \<Rightarrow> Expression \<Rightarrow> bool" where
  "reads_as p txt F e \<longleftrightarrow>
     (\<forall>pre rest. rest = [] \<or> hd rest \<in> F \<longrightarrow>
        p (pre @ txt @ rest) (length pre) (length (pre @ txt @ rest)) =
          ParseResult (Some e) (length pre + length txt))"

lemma reads_asD:
  "reads_as p txt F e \<Longrightarrow> rest = [] \<or> hd rest \<in> F \<Longrightarrow>
   p (pre @ txt @ rest) (length pre) (length (pre @ txt @ rest)) =
     ParseResult (Some e) (length pre + length txt)"
  unfolding reads_as_def by blast

abbreviation follow_primary :: "char set" where
  "follow_primary \<equiv> {CHR '')'', CHR ''|'', CHR ''.'', CHR ''&''}"

abbreviation follow_and :: "char set" where
  "follow_and \<equiv> {CHR '')'', CHR ''|''}"

abbreviation follow_or :: "char set" where
  "follow_or \<equiv> {CHR '')''}"

lemma token_not_operator:
  "ValidTokenCharacter c \<or> c = CHR ''$'' \<or> c = CHR ''@'' \<Longrightarrow>
   c \<noteq> CHR ''('' \<and> c \<noteq> CHR ''!'' \<and> c \<noteq> CHR ''|''"
  by auto

lemma wf_name_start:
  assumes "wf_name n"
  obtains c cs where "show_name n = c # cs" "c \<noteq> CHR ''(''" "c \<noteq> CHR ''!''" "c \<noteq> CHR ''|''"
proof -
  have "ValidTokenCharacter (hd (show_name n)) \<or> hd (show_name n) = CHR ''$'' \<or>
      hd (show_name n) = CHR ''@''"
    using assms
  proof (induction n rule: show_name.induct)
    case (1 l r)
    then show ?case using show_name_nonempty [of l] by (cases "show_name l") auto
  next
    case (2 s)
    then show ?case by (cases s) auto
  next
    case (3 n t)
    then show ?case by (cases t) auto
  qed
  from token_not_operator [OF this] show thesis
    using show_name_nonempty [OF assms] that by (cases "show_name n") auto
qed

lemma show_at_start_ex:
  "wf_expression e \<Longrightarrow>
   \<exists>c cs. show_at k e = c # cs \<and>
     c \<noteq> CHR ''|'' \<and>
     (k = 3 \<longrightarrow> c \<noteq> CHR ''!'')"
proof (induction e arbitrary: k)
  case (OR l r)
  then show ?case using OR.IH(1) [of 1] by (auto simp: parens_def)
next
  case (AND l r)
  then show ?case using AND.IH(1) [of 2] by (auto simp: parens_def)
next
  case (NOT e)
  then show ?case by (auto simp: parens_def)
next
  case (EVAL n)
  then have "wf_name n" by simp
  then show ?case by (elim wf_name_start) auto
qed

lemma show_at_start:
  assumes "wf_expression e"
  obtains c cs where "show_at k e = c # cs"
    "c \<noteq> CHR ''|''" "k = 3 \<longrightarrow> c \<noteq> CHR ''!''"
  using show_at_start_ex [OF assms, of k] by blast

text \<open>One lemma per level of the grammar.\<close>

lemma reads_primary_name:
  assumes "wf_name n"
  shows "reads_as (ParsePrimary p) (show_name n) follow_primary (EVAL n)"
  unfolding reads_as_def
proof (intro allI impI)
  fix pre rest :: string
  assume "rest = [] \<or> hd rest \<in> follow_primary"
  then have "ends_name rest" by (cases rest) auto
  with assms have "ParseStringExpression (pre @ show_name n @ rest) (length pre)
      (length (pre @ show_name n @ rest)) =
     ParseResult (Some n) (length pre + length (show_name n))"
    by (rule ParseStringExpression_show)
  moreover obtain c cs where "show_name n = c # cs" "c \<noteq> CHR ''(''"
    using assms by (elim wf_name_start) auto
  ultimately show "ParsePrimary p (pre @ show_name n @ rest) (length pre)
      (length (pre @ show_name n @ rest)) =
     ParseResult (Some (EVAL n)) (length pre + length (show_name n))"
    by (simp add: ParsePrimary_def)
qed

lemma reads_primary_parens:
  assumes "reads_as p txt follow_or e"
  shows "reads_as (ParsePrimary p) (''('' @ txt @ '')'') F e"
  unfolding reads_as_def
proof (intro allI impI)
  fix pre rest :: string
  show "ParsePrimary p (pre @ (''('' @ txt @ '')'') @ rest) (length pre)
      (length (pre @ (''('' @ txt @ '')'') @ rest)) =
     ParseResult (Some e) (length pre + length (''('' @ txt @ '')''))"
    using reads_asD [OF assms, of "'')'' @ rest" "pre @ ''(''"]
    by (simp add: ParsePrimary_def Let_def nth_append)
qed

lemma reads_not:
  assumes "reads_as (ParsePrimary p) txt F e"
  shows "reads_as (ParseNotExpression p) (''!'' @ txt) F (NOT e)"
  unfolding reads_as_def
proof (intro allI impI)
  fix pre rest :: string
  assume "rest = [] \<or> hd rest \<in> F"
  then show "ParseNotExpression p (pre @ (''!'' @ txt) @ rest) (length pre)
      (length (pre @ (''!'' @ txt) @ rest)) =
     ParseResult (Some (NOT e)) (length pre + length (''!'' @ txt))"
    using reads_asD [OF assms, of rest "pre @ ''!''"]
    by (simp add: ParseNotExpression_def Let_def)
qed

lemma reads_not_primary:
  assumes "reads_as (ParsePrimary p) (c # txt) F e" "c \<noteq> CHR ''!''"
  shows "reads_as (ParseNotExpression p) (c # txt) F e"
  using assms by (simp add: reads_as_def ParseNotExpression_def)

lemma reads_and:
  assumes "reads_as (ParseNotExpression ParseExpression) ltxt follow_primary l"
    and "reads_as ParseAndExpression rtxt follow_and r"
  shows "reads_as ParseAndExpression (ltxt @ ''.'' @ rtxt) follow_and (AND l r)"
  unfolding reads_as_def
proof (intro allI impI)
  fix pre rest :: string
  assume "rest = [] \<or> hd rest \<in> follow_and"
  then show "ParseAndExpression (pre @ (ltxt @ ''.'' @ rtxt) @ rest) (length pre)
      (length (pre @ (ltxt @ ''.'' @ rtxt) @ rest)) =
     ParseResult (Some (AND l r)) (length pre + length (ltxt @ ''.'' @ rtxt))"
    using reads_asD [OF assms(1), of "''.'' @ rtxt @ rest" pre]
      reads_asD [OF assms(2), of rest "pre @ ltxt @ ''.''"]
    by (subst ParseExpression_unfold(1)) (simp_all add: ParseAndStep_def Let_def nth_append)
qed

lemma reads_and_not:
  assumes "reads_as (ParseNotExpression ParseExpression) txt follow_primary e"
  shows "reads_as ParseAndExpression txt follow_and e"
  unfolding reads_as_def
proof (intro allI impI)
  fix pre rest :: string
  assume "rest = [] \<or> hd rest \<in> follow_and"
  then show "ParseAndExpression (pre @ txt @ rest) (length pre) (length (pre @ txt @ rest)) =
     ParseResult (Some e) (length pre + length txt)"
    using reads_asD [OF assms, of rest pre]
    by (cases rest; subst ParseExpression_unfold(1))
      (auto simp: ParseAndStep_def Let_def nth_append)
qed

lemma reads_or:
  assumes "reads_as ParseAndExpression ltxt follow_and l"
    and "reads_as ParseExpression (c # rtxt) follow_or r" "c \<noteq> CHR ''|''"
  shows "reads_as ParseExpression (ltxt @ ''|'' @ c # rtxt) follow_or (OR l r)"
  unfolding reads_as_def
proof (intro allI impI)
  fix pre rest :: string
  assume "rest = [] \<or> hd rest \<in> follow_or"
  then show "ParseExpression (pre @ (ltxt @ ''|'' @ c # rtxt) @ rest) (length pre)
      (length (pre @ (ltxt @ ''|'' @ c # rtxt) @ rest)) =
     ParseResult (Some (OR l r)) (length pre + length (ltxt @ ''|'' @ c # rtxt))"
    using reads_asD [OF assms(1), of "''|'' @ (c # rtxt) @ rest" pre] assms(3)
      reads_asD [OF assms(2), of rest "pre @ ltxt @ ''|''"]
    by (subst ParseExpression_unfold(2)) (simp_all add: ParseOrStep_def Let_def nth_append)
qed

lemma reads_or_and:
  assumes "reads_as ParseAndExpression txt follow_and e"
  shows "reads_as ParseExpression txt follow_or e"
  unfolding reads_as_def
proof (intro allI impI)
  fix pre rest :: string
  assume "rest = [] \<or> hd rest \<in> follow_or"
  then show "ParseExpression (pre @ txt @ rest) (length pre) (length (pre @ txt @ rest)) =
     ParseResult (Some e) (length pre + length txt)"
    using reads_asD [OF assms, of rest pre]
    by (cases rest; subst ParseExpression_unfold(2))
      (auto simp: ParseOrStep_def Let_def nth_append)
qed

text \<open>The four levels together, by induction on the expression.\<close>

definition reads_back :: "Expression \<Rightarrow> bool" where
  "reads_back e \<longleftrightarrow>
     reads_as ParseExpression (show_at 0 e) follow_or e \<and>
     reads_as ParseAndExpression (show_at 1 e) follow_and e \<and>
     reads_as (ParseNotExpression ParseExpression) (show_at 2 e) follow_primary e \<and>
     reads_as (ParsePrimary ParseExpression) (show_at 3 e) follow_primary e"

lemma reads_not_parens:
  "reads_as (ParsePrimary p) (''('' @ txt @ '')'') F e \<Longrightarrow>
   reads_as (ParseNotExpression p) (''('' @ txt @ '')'') F e"
  using reads_not_primary [of p "CHR ''(''"] by simp

lemma reads_back_wf: "wf_expression e \<Longrightarrow> reads_back e"
proof (induction e)
  case (OR l r)
  obtain c cs where c: "show_at 0 r = c # cs" "c \<noteq> CHR ''|''"
    using OR.prems by (auto elim!: show_at_start [of r 0])
  have "reads_as ParseExpression (show_at 0 (OR l r)) follow_or (OR l r)"
    using OR reads_or [of "show_at 1 l" l c cs r] c by (simp add: reads_back_def parens_def)
  moreover from this have p: "reads_as (ParsePrimary ParseExpression)
      (''('' @ show_at 0 (OR l r) @ '')'') follow_primary (OR l r)"
    by (rule reads_primary_parens)
  moreover note reads_not_parens [OF p] reads_and_not [OF reads_not_parens [OF p]]
  ultimately show ?case by (simp add: reads_back_def parens_def)
next
  case (AND l r)
  have a: "reads_as ParseAndExpression (show_at 1 (AND l r)) follow_and (AND l r)"
    using AND reads_and [of "show_at 2 l" l "show_at 1 r" r]
    by (simp add: reads_back_def parens_def)
  moreover note reads_or_and [OF a]
  moreover from this have p: "reads_as (ParsePrimary ParseExpression)
      (''('' @ show_at 1 (AND l r) @ '')'') follow_primary (AND l r)"
    by (rule reads_primary_parens)
  moreover note reads_not_parens [OF p]
  ultimately show ?case by (simp add: reads_back_def parens_def)
next
  case (NOT e)
  have n: "reads_as (ParseNotExpression ParseExpression) (show_at 2 (NOT e)) follow_primary (NOT e)"
    using NOT reads_not [of ParseExpression "show_at 3 e" follow_primary e]
    by (simp add: reads_back_def parens_def)
  moreover note a = reads_and_not [OF n]
  moreover note reads_or_and [OF a]
  moreover from this have p: "reads_as (ParsePrimary ParseExpression)
      (''('' @ show_at 2 (NOT e) @ '')'') follow_primary (NOT e)"
    by (rule reads_primary_parens)
  ultimately show ?case by (simp add: reads_back_def parens_def)
next
  case (EVAL n)
  have p: "reads_as (ParsePrimary ParseExpression) (show_name n) follow_primary (EVAL n)"
    using EVAL by (intro reads_primary_name) simp
  obtain c cs where "show_name n = c # cs" "c \<noteq> CHR ''!''"
    using EVAL by (auto elim!: wf_name_start [of n])
  with p have n: "reads_as (ParseNotExpression ParseExpression) (show_name n) follow_primary (EVAL n)"
    using reads_not_primary [of ParseExpression c cs] by simp
  moreover note a = reads_and_not [OF n]
  moreover note reads_or_and [OF a]
  ultimately show ?case using p by (simp add: reads_back_def)
qed

lemma ParseExpression_show:
  assumes "wf_expression e"
  shows "ParseExpression (show_expression e) 0 (length (show_expression e)) =
     ParseResult (Some e) (length (show_expression e))"
proof -
  have "reads_as ParseExpression (show_expression e) follow_or e"
    using reads_back_wf [OF assms] by (simp add: reads_back_def)
  from reads_asD [OF this, of "[]" "[]"] show ?thesis by simp
qed


section \<open>Only the characters before the end index are read\<close>

lemma reads_within_ParsePrimary [parse_reads]:
  assumes p: "advances p" and r: "reads_within p"
  shows "reads_within (ParsePrimary p)"
  unfolding reads_within_def
proof (intro allI impI)
  fix expr junk start stop
  assume le: "start \<le> stop" "stop \<le> length (expr :: string)"
  have "ParseStringExpression (expr @ junk) start stop = ParseStringExpression expr start stop"
    using reads_within_ParseStringExpression le by (rule reads_withinD)
  moreover have "start < stop \<Longrightarrow> p (expr @ junk) (start + 1) stop = p expr (start + 1) stop"
    using le by (intro reads_withinD [OF r]) auto
  moreover have "i < stop \<Longrightarrow> (expr @ junk) ! i = expr ! i" for i
    using le by (simp add: nth_append)
  ultimately show "ParsePrimary p (expr @ junk) start stop = ParsePrimary p expr start stop"
    by (cases "start < stop") (auto simp: ParsePrimary_def Let_def split: option.split)
qed

lemma reads_within_ParseNotExpression [parse_reads]:
  assumes p: "advances p" and r: "reads_within p"
  shows "reads_within (ParseNotExpression p)"
  unfolding reads_within_def
proof (intro allI impI)
  fix expr junk start stop
  assume le: "start \<le> stop" "stop \<le> length (expr :: string)"
  note prim = reads_within_ParsePrimary [OF p r]
  have "start < stop \<Longrightarrow>
      ParsePrimary p (expr @ junk) (start + 1) stop = ParsePrimary p expr (start + 1) stop"
    using le by (intro reads_withinD [OF prim]) auto
  moreover have "ParsePrimary p (expr @ junk) start stop = ParsePrimary p expr start stop"
    using prim le by (rule reads_withinD)
  moreover have "start < stop \<Longrightarrow> (expr @ junk) ! start = expr ! start"
    using le by (simp add: nth_append)
  ultimately show "ParseNotExpression p (expr @ junk) start stop = ParseNotExpression p expr start stop"
    by (cases "start < stop") (simp_all add: ParseNotExpression_def Let_def split: option.split)
qed

lemma reads_within_ParseAndStep [parse_reads]:
  assumes a: "reads_within a" and p: "advances p" and r: "reads_within p"
  shows "reads_within (ParseAndStep a p)"
  unfolding reads_within_def
proof (intro allI impI)
  fix expr junk start stop
  assume le: "start \<le> stop" "stop \<le> length (expr :: string)"
  let ?l = "ParseNotExpression p expr start stop"
  have l: "ParseNotExpression p (expr @ junk) start stop = ?l"
    using reads_within_ParseNotExpression [OF p r] le by (rule reads_withinD)
  have pos: "position ?l \<le> stop"
    using advancesD(2) [OF advances_ParseNotExpression [OF p] le(1)] .
  have "position ?l \<noteq> stop \<Longrightarrow>
      a (expr @ junk) (position ?l + 1) stop = a expr (position ?l + 1) stop \<and>
      (expr @ junk) ! position ?l = expr ! position ?l"
    using pos le reads_withinD [OF a, of "position ?l + 1" stop expr junk]
    by (simp add: nth_append)
  with l show "ParseAndStep a p (expr @ junk) start stop = ParseAndStep a p expr start stop"
    by (auto simp: ParseAndStep_def Let_def split: option.split)
qed

lemma reads_within_ParseOrStep [parse_reads]:
  assumes adv: "advances a" and a: "reads_within a" and r: "reads_within p"
  shows "reads_within (ParseOrStep a p)"
  unfolding reads_within_def
proof (intro allI impI)
  fix expr junk start stop
  assume le: "start \<le> stop" "stop \<le> length (expr :: string)"
  let ?l = "a expr start stop"
  have l: "a (expr @ junk) start stop = ?l"
    using a le by (rule reads_withinD)
  have pos: "position ?l \<le> stop" using advancesD(2) [OF adv le(1)] .
  have "position ?l \<noteq> stop \<Longrightarrow>
      p (expr @ junk) (Suc (position ?l)) stop = p expr (Suc (position ?l)) stop \<and>
      (expr @ junk) ! position ?l = expr ! position ?l"
    using pos le reads_withinD [OF r, of "Suc (position ?l)" stop expr junk]
    by (simp add: nth_append)
  moreover have "Suc (position ?l) < stop \<Longrightarrow>
      p (expr @ junk) (Suc (Suc (position ?l))) stop = p expr (Suc (Suc (position ?l))) stop \<and>
      (expr @ junk) ! Suc (position ?l) = expr ! Suc (position ?l)"
    using le reads_withinD [OF r, of "Suc (Suc (position ?l))" stop expr junk]
    by (simp add: nth_append)
  ultimately show "ParseOrStep a p (expr @ junk) start stop = ParseOrStep a p expr start stop"
    using l by (auto simp: ParseOrStep_def Let_def split: option.split)
qed

lemma reads_within_ParseAnd_fuel [parse_reads]:
  "reads_within (fst (ParseAnd_fuel n)) \<and> reads_within (snd (ParseAnd_fuel n))"
proof (induction n)
  case 0
  then show ?case by (simp add: reads_within_def)
next
  case (Suc n)
  with advances_ParseAnd_fuel [of n] show ?case
    by (cases "ParseAnd_fuel n") (simp add: Let_def parse_reads parse_bounds)
qed

lemma reads_within_ParseExpression [parse_reads]: "reads_within ParseExpression"
  using reads_within_ParseAnd_fuel
  by (simp add: reads_within_def ParseExpression_def del: ParseAnd_fuel.simps)

section \<open>The evaluator against the boolean reading\<close>

text \<open>
  The value a leaf denotes, the boolean reading of an expression under a valuation of its
  leaves, and the leaves themselves.
\<close>

definition leaf_value :: "NameEvaluator \<Rightarrow> VarRefEvaluator \<Rightarrow> StringExpression \<Rightarrow> ExpressionValue"
where
  "leaf_value nameevalfn varrefevalfn n =
     (case EvalStringExpression varrefevalfn n of
        None \<Rightarrow> EXP_ERROR | Some name \<Rightarrow> nameevalfn name)"

primrec holds :: "(StringExpression \<Rightarrow> bool) \<Rightarrow> Expression \<Rightarrow> bool" where
  "holds v (OR l r) = (holds v l \<or> holds v r)"
| "holds v (AND l r) = (holds v l \<and> holds v r)"
| "holds v (NOT e) = (\<not> holds v e)"
| "holds v (EVAL n) = v n"

primrec leaves :: "Expression \<Rightarrow> StringExpression set" where
  "leaves (OR l r) = leaves l \<union> leaves r"
| "leaves (AND l r) = leaves l \<union> leaves r"
| "leaves (NOT e) = leaves e"
| "leaves (EVAL n) = {n}"

lemma exp_bool_simps [simp]:
  "exp_bool b \<noteq> EXP_ERROR" "exp_bool b = EXP_FALSE \<longleftrightarrow> \<not> b" "exp_bool b = EXP_TRUE \<longleftrightarrow> b"
  by (simp_all add: exp_bool_def)

lemma EvalExpression_value:
  "EvalExpression nameevalfn varrefevalfn e =
     (if \<exists>n \<in> leaves e. leaf_value nameevalfn varrefevalfn n = EXP_ERROR then EXP_ERROR
      else exp_bool (holds (\<lambda>n. leaf_value nameevalfn varrefevalfn n = EXP_TRUE) e))"
proof (induction e)
  case (EVAL n)
  then show ?case
    by (cases "leaf_value nameevalfn varrefevalfn n")
      (auto simp: leaf_value_def exp_bool_def split: option.splits)
qed (auto simp: Let_def exp_bool_def)

section \<open>Every parsed expression is well formed\<close>

lemma ParsePrimary_wf:
  assumes "result (ParsePrimary p expr start stop) = Some e" "stop \<le> length expr"
    and "\<And>m. start < stop \<Longrightarrow> result (p expr (start + 1) stop) = Some m \<Longrightarrow> wf_expression m"
  shows "wf_expression e"
  using assms ParseStringExpression_wf [of expr start stop]
  by (auto simp: ParsePrimary_def Let_def split: if_splits option.splits)

lemma ParseNotExpression_cases:
  assumes "result (ParseNotExpression p expr start stop) = Some e"
  obtains "result (ParsePrimary p expr start stop) = Some e"
    | m where "e = NOT m" "result (ParsePrimary p expr (start + 1) stop) = Some m"
  using assms by (auto simp: ParseNotExpression_def Let_def split: if_splits option.splits)

lemma ParseAndStep_cases:
  assumes "result (ParseAndStep a p expr start stop) = Some e"
  obtains "result (ParseNotExpression p expr start stop) = Some e"
    | l r where "e = AND l r" "result (ParseNotExpression p expr start stop) = Some l"
        "position (ParseNotExpression p expr start stop) \<noteq> stop"
        "result (a expr (position (ParseNotExpression p expr start stop) + 1) stop) = Some r"
  using assms
  by (cases "position (ParseNotExpression p expr start stop) = stop")
    (auto simp: ParseAndStep_def Let_def split: if_splits option.splits)

lemma ParseOrStep_cases:
  assumes "result (ParseOrStep a p expr start stop) = Some e"
  obtains "result (a expr start stop) = Some e"
    | l r where "e = OR l r" "result (a expr start stop) = Some l"
        "position (a expr start stop) \<noteq> stop"
        "result (p expr (position (a expr start stop) + 1) stop) = Some r"
    | l r where "e = OR l r" "result (a expr start stop) = Some l"
        "position (a expr start stop) + 1 < stop"
        "result (p expr (position (a expr start stop) + 2) stop) = Some r"
  using assms
  by (cases "position (a expr start stop) = stop")
    (auto simp: ParseOrStep_def Let_def split: if_splits option.splits)

lemma ParseNotExpression_wf:
  assumes "result (ParseNotExpression p expr start stop) = Some e" "stop \<le> length expr"
    and "\<And>s m. start < s \<Longrightarrow> s \<le> stop \<Longrightarrow> result (p expr s stop) = Some m \<Longrightarrow> wf_expression m"
  shows "wf_expression e"
proof -
  have prim: "wf_expression m" if "start \<le> s" "result (ParsePrimary p expr s stop) = Some m" for s m
    using that(2) assms(2) by (rule ParsePrimary_wf) (rule assms(3) [of "s + 1"]; use that in simp)
  from assms(1) show ?thesis
    by (rule ParseNotExpression_cases) (auto intro: prim [of start] prim [of "start + 1"])
qed

lemma ParseExpression_wf_both:
  assumes "stop \<le> length expr"
  shows "start \<le> stop \<Longrightarrow>
     (\<forall>e. result (ParseAndExpression expr start stop) = Some e \<longrightarrow> wf_expression e) \<and>
     (\<forall>e. result (ParseExpression expr start stop) = Some e \<longrightarrow> wf_expression e)"
proof (induction "stop - start" arbitrary: start rule: less_induct)
  case less
  have IH: "wf_expression m"
    if "result (ParseAndExpression expr s stop) = Some m \<or> result (ParseExpression expr s stop) = Some m"
      "start < s" "s \<le> stop" for s m
    using less.hyps [of s] that by auto
  let ?n = "ParseNotExpression ParseExpression expr start stop"
  note advn = advancesD [OF advances_ParseNotExpression [OF advances_ParseExpression(2)]
      less.prems, of expr]
  have n: "wf_expression m" if "result ?n = Some m" for m
    using that assms by (rule ParseNotExpression_wf) (rule IH, blast)
  let ?a = "ParseAndExpression expr start stop"
  note adva = advancesD [OF advances_ParseExpression(1) less.prems, of expr]
  have a: "wf_expression m" if "result ?a = Some m" for m
    using that unfolding ParseExpression_unfold(1) [OF less.prems]
  proof (cases rule: ParseAndStep_cases)
    case (2 l r)
    then have "wf_expression r" using advn(1,2) by (intro IH [OF disjI1, OF 2(4)]) auto
    with 2 n show ?thesis by simp
  qed (rule n)
  have "wf_expression m" if "result (ParseExpression expr start stop) = Some m" for m
    using that unfolding ParseExpression_unfold(2) [OF less.prems]
  proof (cases rule: ParseOrStep_cases)
    case (2 l r)
    then have "wf_expression r" using adva(1,2) by (intro IH [OF disjI2, OF 2(4)]) auto
    with 2 a show ?thesis by simp
  next
    case (3 l r)
    then have "wf_expression r" using adva(1,2) by (intro IH [OF disjI2, OF 3(4)]) auto
    with 3 a show ?thesis by simp
  qed (rule a)
  with a show ?case by blast
qed

section \<open>Properties\<close>

text \<open>
  C6. Every class expression reads back: printing an expression, with the parentheses the
  grammar's precedences (\<open>!\<close> over \<open>.\<close> over \<open>|\<close>) and its right associativity call for, and
  parsing the text returns the same expression and consumes the whole text.
\<close>

theorem class_expression_roundtrip:
  assumes "wf_expression e"
  shows "ParseExpression (show_expression e) 0 (length (show_expression e)) =
     ParseResult (Some e) (length (show_expression e))"
  using assms by (rule ParseExpression_show)

theorem class_expression_roundtrip_witness:
  "ParseExpression ''(a|!b).c$(d.e)'' 0 14 =
     ParseResult
       (Some (AND (OR (EVAL (LITERAL ''a'')) (NOT (EVAL (LITERAL ''b''))))
          (EVAL (CONCAT (LITERAL ''c'')
             (VARREF (CONCAT (LITERAL ''d'') (CONCAT (LITERAL ''.'') (LITERAL ''e'')))
                VAR_REF_TYPE_SCALAR))))) 14"
  using class_expression_roundtrip [of
      "AND (OR (EVAL (LITERAL ''a'')) (NOT (EVAL (LITERAL ''b''))))
          (EVAL (CONCAT (LITERAL ''c'')
             (VARREF (CONCAT (LITERAL ''d'') (CONCAT (LITERAL ''.'') (LITERAL ''e'')))
                VAR_REF_TYPE_SCALAR)))"]
  by (simp add: parens_def wf_qname_def ValidTokenCharacter_def less_eq_char_def eval_nat_numeral)




text \<open>
  C14. The parser stays inside its slice: it stops at a position between \<open>start\<close> and \<open>end\<close>,
  past \<open>start\<close> when it succeeds, what it returns is well formed, and the characters from
  \<open>end\<close> on are never looked at.
\<close>

theorem class_expression_bounds:
  assumes "start \<le> stop" "stop \<le> length expr"
  shows "start \<le> position (ParseExpression expr start stop) \<and>
    position (ParseExpression expr start stop) \<le> stop \<and>
    (\<forall>e. result (ParseExpression expr start stop) = Some e \<longrightarrow>
       start < position (ParseExpression expr start stop) \<and> wf_expression e) \<and>
    ParseExpression (expr @ junk) start stop = ParseExpression expr start stop"
  using advancesD [OF advances_ParseExpression(2) assms(1)]
    reads_withinD [OF reads_within_ParseExpression assms]
    ParseExpression_wf_both [OF assms(2,1)]
  by blast

theorem class_expression_bounds_witness:
  "ParseExpression (''a|)'' @ ''b'') 0 2 = ParseExpression ''a|)'' 0 2"
  using class_expression_bounds [of 0 2 "''a|)''" "''b''"] by simp

text \<open>
  C15. Evaluation is strict in errors and boolean otherwise: an expression evaluates to an error
  exactly when some name in it does, also where the other operand would decide the value; with
  no such name it has the value the boolean connectives give.
\<close>

theorem class_expression_evaluation:
  "EvalExpression nameevalfn varrefevalfn e =
     (if \<exists>n \<in> leaves e. leaf_value nameevalfn varrefevalfn n = EXP_ERROR then EXP_ERROR
      else exp_bool (holds (\<lambda>n. leaf_value nameevalfn varrefevalfn n = EXP_TRUE) e))"
  by (rule EvalExpression_value)

end
