(* ===== verification/Hashes.thy ===== *)
theory Hashes
  imports Prelude "HOL-Library.Word"
begin

text \<open>
  The one-at-a-time hash of \<open>libutils/hashes.c\<close>, on 32-bit unsigned words as the code has
  it. The containers rely on its result being a valid bucket index.
\<close>

definition OatHash_step :: "32 word \<Rightarrow> char \<Rightarrow> 32 word" where
  "OatHash_step h c =
     (let h1 = h + of_char c;
          h2 = h1 + push_bit 10 h1
      in xor h2 (drop_bit 6 h2))"

definition OatHash_final :: "32 word \<Rightarrow> 32 word" where
  "OatHash_final h =
     (let h1 = h + push_bit 3 h;
          h2 = xor h1 (drop_bit 11 h1)
      in h2 + push_bit 15 h2)"

definition OatHash :: "string \<Rightarrow> 32 word \<Rightarrow> nat" where
  "OatHash key limit = unat (and (OatHash_final (foldl OatHash_step 0 key)) (limit - 1))"

text \<open>The mask keeps the result below \<open>limit\<close>, whatever \<open>limit\<close> is, as long as it is not 0.\<close>

lemma OatHash_less: "limit \<noteq> 0 \<Longrightarrow> OatHash key limit < unat limit"
proof -
  assume "limit \<noteq> 0"
  have "unat (and (OatHash_final (foldl OatHash_step 0 key)) (limit - 1)) \<le> unat (limit - 1)"
    by (rule word_and_le1 [THEN word_le_nat_alt [THEN iffD1]])
  also have "unat (limit - 1) < unat limit"
    using \<open>limit \<noteq> 0\<close> by (simp add: unat_minus_one unat_gt_0)
  finally show ?thesis by (simp add: OatHash_def)
qed

end
