(* ===== verification/Map_Impl.thy ===== *)
theory Map_Impl
  imports Hashes
begin

text \<open>
  The associative containers of \<open>libutils\<close>: \<open>array_map.c\<close> (a linear array of at most 14
  pairs), \<open>hash_map.c\<close> (8192 chained buckets), \<open>map.c\<close> (the first, converted to the second
  when it is full) and \<open>set.c\<close> on top of it.

  The function pointers \<open>hash_fn\<close> and \<open>equal_fn\<close> are arguments. The destructors only release
  memory; which keys and values they are called on is recorded in a log (\<open>Inl\<close> a key, \<open>Inr\<close>
  a value), so that ownership can be stated: nothing handed to a m is lost or freed twice.

  The interface \<open>map_iface\<close> says what a client may rely on; it is proved of the hash m and
  of the m for every equality that the hash function respects, and the set is its client.
\<close>

section \<open>array_map.c\<close>

definition TINY_LIMIT :: nat where
  "TINY_LIMIT = 14"

record ('k, 'v) ArrayMap =
  am_values :: "('k \<times> 'v) list"
  am_freed :: "('k + 'v) list"

definition ArrayMapNew :: "('k, 'v) ArrayMap" where
  "ArrayMapNew = \<lparr>am_values = [], am_freed = []\<rparr>"

definition ArrayMapInsert ::
  "('k \<Rightarrow> 'k \<Rightarrow> bool) \<Rightarrow> ('k, 'v) ArrayMap \<Rightarrow> 'k \<Rightarrow> 'v \<Rightarrow> bool \<times> ('k, 'v) ArrayMap" where
  "ArrayMapInsert equal_fn m key val =
     (if length (am_values m) = TINY_LIMIT then (False, m)
      else
        (case find_index (\<lambda>kv. equal_fn (fst kv) key) (am_values m) of
           Some i \<Rightarrow>
             (True,
              m\<lparr>am_values := (am_values m)[i := (fst (am_values m ! i), val)],
                  am_freed := am_freed m @ [Inl key, Inr (snd (am_values m ! i))]\<rparr>)
         | None \<Rightarrow> (True, m\<lparr>am_values := am_values m @ [(key, val)]\<rparr>)))"

definition ArrayMapRemove ::
  "('k \<Rightarrow> 'k \<Rightarrow> bool) \<Rightarrow> ('k, 'v) ArrayMap \<Rightarrow> 'k \<Rightarrow> bool \<times> ('k, 'v) ArrayMap" where
  "ArrayMapRemove equal_fn m key =
     (case find_index (\<lambda>kv. equal_fn (fst kv) key) (am_values m) of
        Some i \<Rightarrow>
          (True,
           m\<lparr>am_values := remove_at i (am_values m),
               am_freed := am_freed m @
                 [Inl (fst (am_values m ! i)), Inr (snd (am_values m ! i))]\<rparr>)
      | None \<Rightarrow> (False, m))"

definition ArrayMapGet ::
  "('k \<Rightarrow> 'k \<Rightarrow> bool) \<Rightarrow> ('k, 'v) ArrayMap \<Rightarrow> 'k \<Rightarrow> ('k \<times> 'v) option" where
  "ArrayMapGet equal_fn m key =
     map_option (\<lambda>i. am_values m ! i)
       (find_index (\<lambda>kv. equal_fn (fst kv) key) (am_values m))"

definition free_pairs :: "('k \<times> 'v) list \<Rightarrow> ('k + 'v) list" where
  "free_pairs kvs = concat (map (\<lambda>kv. [Inl (fst kv), Inr (snd kv)]) kvs)"

definition ArrayMapClear :: "('k, 'v) ArrayMap \<Rightarrow> ('k, 'v) ArrayMap" where
  "ArrayMapClear m = m\<lparr>am_values := [], am_freed := am_freed m @ free_pairs (am_values m)\<rparr>"

text \<open>The iterator is the next position.\<close>

definition ArrayMapIteratorNext :: "('k, 'v) ArrayMap \<Rightarrow> nat \<Rightarrow> ('k \<times> 'v) option \<times> nat" where
  "ArrayMapIteratorNext m pos =
     (if length (am_values m) \<le> pos then (None, pos)
      else (Some (am_values m ! pos), Suc pos))"

section \<open>hash_map.c\<close>

definition HASHMAP_BUCKETS :: nat where
  "HASHMAP_BUCKETS = 8192"

text \<open>
  A bucket is its chain from the head; \<open>hm_buckets\<close> is the array of chains, of which the
  indices below \<open>HASHMAP_BUCKETS\<close> exist.
\<close>

record ('k, 'v) HashMap =
  hm_buckets :: "nat \<Rightarrow> ('k \<times> 'v) list"
  hm_freed :: "('k + 'v) list"

definition HashMapNew :: "('k, 'v) HashMap" where
  "HashMapNew = \<lparr>hm_buckets = (\<lambda>_. []), hm_freed = []\<rparr>"

definition HashMapInsert ::
  "('k \<Rightarrow> nat) \<Rightarrow> ('k \<Rightarrow> 'k \<Rightarrow> bool) \<Rightarrow> ('k, 'v) HashMap \<Rightarrow> 'k \<Rightarrow> 'v
    \<Rightarrow> bool \<times> ('k, 'v) HashMap" where
  "HashMapInsert hash_fn equal_fn m key val =
     (let bucket = hash_fn key; chain = hm_buckets m bucket in
      case find_index (\<lambda>kv. equal_fn (fst kv) key) chain of
        Some i \<Rightarrow>
          (True,
           m\<lparr>hm_buckets := (hm_buckets m)(bucket := chain[i := (fst (chain ! i), val)]),
               hm_freed := hm_freed m @ [Inl key, Inr (snd (chain ! i))]\<rparr>)
      | None \<Rightarrow>
          (False, m\<lparr>hm_buckets := (hm_buckets m)(bucket := (key, val) # chain)\<rparr>))"

definition HashMapRemove ::
  "('k \<Rightarrow> nat) \<Rightarrow> ('k \<Rightarrow> 'k \<Rightarrow> bool) \<Rightarrow> ('k, 'v) HashMap \<Rightarrow> 'k \<Rightarrow> bool \<times> ('k, 'v) HashMap" where
  "HashMapRemove hash_fn equal_fn m key =
     (let bucket = hash_fn key; chain = hm_buckets m bucket in
      case find_index (\<lambda>kv. equal_fn (fst kv) key) chain of
        Some i \<Rightarrow>
          (True,
           m\<lparr>hm_buckets := (hm_buckets m)(bucket := remove_at i chain),
               hm_freed := hm_freed m @ [Inl (fst (chain ! i)), Inr (snd (chain ! i))]\<rparr>)
      | None \<Rightarrow> (False, m))"

definition HashMapGet ::
  "('k \<Rightarrow> nat) \<Rightarrow> ('k \<Rightarrow> 'k \<Rightarrow> bool) \<Rightarrow> ('k, 'v) HashMap \<Rightarrow> 'k \<Rightarrow> ('k \<times> 'v) option" where
  "HashMapGet hash_fn equal_fn m key =
     (let chain = hm_buckets m (hash_fn key) in
      map_option (\<lambda>i. chain ! i) (find_index (\<lambda>kv. equal_fn (fst kv) key) chain))"

text \<open>\<open>FreeBucketListItem\<close> frees the tail of a chain before its head.\<close>

fun FreeBucketListItem :: "('k \<times> 'v) list \<Rightarrow> ('k + 'v) list" where
  "FreeBucketListItem [] = []"
| "FreeBucketListItem (kv # next_items) =
     FreeBucketListItem next_items @ [Inl (fst kv), Inr (snd kv)]"

definition HashMapClear :: "('k, 'v) HashMap \<Rightarrow> ('k, 'v) HashMap" where
  "HashMapClear m =
     m\<lparr>hm_buckets := (\<lambda>i. if i < HASHMAP_BUCKETS then [] else hm_buckets m i),
         hm_freed := hm_freed m @
           concat (map (\<lambda>i. FreeBucketListItem (hm_buckets m i)) [0..<HASHMAP_BUCKETS])\<rparr>"

text \<open>The iterator is the current bucket and what is left of its chain.\<close>

definition HashMapIteratorInit :: "('k, 'v) HashMap \<Rightarrow> nat \<times> ('k \<times> 'v) list" where
  "HashMapIteratorInit m = (0, hm_buckets m 0)"

function HashMapIteratorNext ::
  "('k, 'v) HashMap \<Rightarrow> nat \<times> ('k \<times> 'v) list \<Rightarrow> ('k \<times> 'v) option \<times> nat \<times> ('k \<times> 'v) list" where
  "HashMapIteratorNext m (bucket, kv # cur) = (Some kv, bucket, cur)"
| "HashMapIteratorNext m (bucket, []) =
     (if HASHMAP_BUCKETS \<le> Suc bucket then (None, Suc bucket, [])
      else HashMapIteratorNext m (Suc bucket, hm_buckets m (Suc bucket)))"
  by pat_completeness auto
termination
  by (relation "measure (\<lambda>(m, bucket, cur). HASHMAP_BUCKETS - bucket)") auto

section \<open>map.c\<close>

text \<open>
  \<open>map->hash_fn != NULL\<close> says that the m is still an array: the constructor \<open>Array_Map\<close>.
\<close>

datatype ('k, 'v) CfMap = Array_Map "('k, 'v) ArrayMap" | Hash_Map "('k, 'v) HashMap"

definition MapNew :: "('k, 'v) CfMap" where
  "MapNew = Array_Map ArrayMapNew"

definition IsArrayMap :: "('k, 'v) CfMap \<Rightarrow> bool" where
  "IsArrayMap m = (case m of Array_Map _ \<Rightarrow> True | Hash_Map _ \<Rightarrow> False)"

definition ConvertToHashMap ::
  "('k \<Rightarrow> nat) \<Rightarrow> ('k \<Rightarrow> 'k \<Rightarrow> bool) \<Rightarrow> ('k, 'v) ArrayMap \<Rightarrow> ('k, 'v) HashMap" where
  "ConvertToHashMap hash_fn equal_fn m =
     foldl (\<lambda>hm kv. snd (HashMapInsert hash_fn equal_fn hm (fst kv) (snd kv)))
       (HashMapNew\<lparr>hm_freed := am_freed m\<rparr>) (am_values m)"

definition MapInsert ::
  "('k \<Rightarrow> nat) \<Rightarrow> ('k \<Rightarrow> 'k \<Rightarrow> bool) \<Rightarrow> ('k, 'v) CfMap \<Rightarrow> 'k \<Rightarrow> 'v \<Rightarrow> ('k, 'v) CfMap" where
  "MapInsert hash_fn equal_fn m key val =
     (case m of
        Array_Map am \<Rightarrow>
          (case ArrayMapInsert equal_fn am key val of
             (True, am') \<Rightarrow> Array_Map am'
           | (False, am') \<Rightarrow>
               Hash_Map (snd (HashMapInsert hash_fn equal_fn
                 (ConvertToHashMap hash_fn equal_fn am') key val)))
      | Hash_Map hm \<Rightarrow> Hash_Map (snd (HashMapInsert hash_fn equal_fn hm key val)))"

definition MapGetRaw ::
  "('k \<Rightarrow> nat) \<Rightarrow> ('k \<Rightarrow> 'k \<Rightarrow> bool) \<Rightarrow> ('k, 'v) CfMap \<Rightarrow> 'k \<Rightarrow> ('k \<times> 'v) option" where
  "MapGetRaw hash_fn equal_fn m key =
     (case m of
        Array_Map am \<Rightarrow> ArrayMapGet equal_fn am key
      | Hash_Map hm \<Rightarrow> HashMapGet hash_fn equal_fn hm key)"

definition MapHasKey :: "('k \<Rightarrow> nat) \<Rightarrow> ('k \<Rightarrow> 'k \<Rightarrow> bool) \<Rightarrow> ('k, 'v) CfMap \<Rightarrow> 'k \<Rightarrow> bool" where
  "MapHasKey hash_fn equal_fn m key \<longleftrightarrow> MapGetRaw hash_fn equal_fn m key \<noteq> None"

definition MapGet :: "('k \<Rightarrow> nat) \<Rightarrow> ('k \<Rightarrow> 'k \<Rightarrow> bool) \<Rightarrow> ('k, 'v) CfMap \<Rightarrow> 'k \<Rightarrow> 'v option" where
  "MapGet hash_fn equal_fn m key = map_option snd (MapGetRaw hash_fn equal_fn m key)"

definition MapRemove ::
  "('k \<Rightarrow> nat) \<Rightarrow> ('k \<Rightarrow> 'k \<Rightarrow> bool) \<Rightarrow> ('k, 'v) CfMap \<Rightarrow> 'k \<Rightarrow> bool \<times> ('k, 'v) CfMap" where
  "MapRemove hash_fn equal_fn m key =
     (case m of
        Array_Map am \<Rightarrow> map_prod id Array_Map (ArrayMapRemove equal_fn am key)
      | Hash_Map hm \<Rightarrow> map_prod id Hash_Map (HashMapRemove hash_fn equal_fn hm key))"

definition MapClear :: "('k, 'v) CfMap \<Rightarrow> ('k, 'v) CfMap" where
  "MapClear m =
     (case m of
        Array_Map am \<Rightarrow> Array_Map (ArrayMapClear am)
      | Hash_Map hm \<Rightarrow> Hash_Map (HashMapClear hm))"

text \<open>
  What an iterator has yet to return: the rest of its chain and the later buckets. Each call
  of \<open>HashMapIteratorNext\<close> returns the head of that list, so the loop of \<open>MapSize\<close> stops.
\<close>

definition hash_rest :: "('k, 'v) HashMap \<Rightarrow> nat \<times> ('k \<times> 'v) list \<Rightarrow> ('k \<times> 'v) list" where
  "hash_rest m it = snd it @ concat (map (hm_buckets m) [Suc (fst it)..<HASHMAP_BUCKETS])"

lemma HashMapIteratorNext_rest:
  "(case HashMapIteratorNext m it of
      (None, it') \<Rightarrow> hash_rest m it = []
    | (Some kv, it') \<Rightarrow> hash_rest m it = kv # hash_rest m it')"
proof (induction m it rule: HashMapIteratorNext.induct)
  case (1 m bucket kv cur)
  then show ?case by (simp add: hash_rest_def)
next
  case (2 m bucket)
  show ?case
  proof (cases "HASHMAP_BUCKETS \<le> Suc bucket")
    case True
    then show ?thesis by (simp add: hash_rest_def)
  next
    case False
    then have "hash_rest m (bucket, []) = hash_rest m (Suc bucket, hm_buckets m (Suc bucket))"
      by (simp add: hash_rest_def upt_conv_Cons)
    with False 2 show ?thesis by (auto split: prod.splits option.splits)
  qed
qed

lemma hash_rest_less:
  "(Some kv, it') = HashMapIteratorNext m it \<Longrightarrow> length (hash_rest m it') < length (hash_rest m it)"
  using HashMapIteratorNext_rest [of m it] by (auto split: prod.splits)

function hash_map_count :: "('k, 'v) HashMap \<Rightarrow> nat \<times> ('k \<times> 'v) list \<Rightarrow> nat \<Rightarrow> nat" where
  "hash_map_count m it n =
     (case HashMapIteratorNext m it of
        (None, _) \<Rightarrow> n
      | (Some _, it') \<Rightarrow> hash_map_count m it' (Suc n))"
  by pat_completeness auto
termination
  by (relation "measure (\<lambda>(m, it, n). length (hash_rest m it))") (auto dest: hash_rest_less)

declare hash_map_count.simps [simp del]

definition MapSize :: "('k, 'v) CfMap \<Rightarrow> nat" where
  "MapSize m =
     (case m of
        Array_Map am \<Rightarrow> length (am_values am)
      | Hash_Map hm \<Rightarrow> hash_map_count hm (HashMapIteratorInit hm) 0)"

section \<open>set.c\<close>

type_synonym 'a CfSet = "('a, 'a) CfMap"

definition SetNew :: "'a CfSet" where
  "SetNew = MapNew"

definition SetAdd :: "('a \<Rightarrow> nat) \<Rightarrow> ('a \<Rightarrow> 'a \<Rightarrow> bool) \<Rightarrow> 'a CfSet \<Rightarrow> 'a \<Rightarrow> 'a CfSet" where
  "SetAdd hash_fn equal_fn s e = MapInsert hash_fn equal_fn s e e"

definition SetContains :: "('a \<Rightarrow> nat) \<Rightarrow> ('a \<Rightarrow> 'a \<Rightarrow> bool) \<Rightarrow> 'a CfSet \<Rightarrow> 'a \<Rightarrow> bool" where
  "SetContains hash_fn equal_fn s e = MapHasKey hash_fn equal_fn s e"

definition SetRemove :: "('a \<Rightarrow> nat) \<Rightarrow> ('a \<Rightarrow> 'a \<Rightarrow> bool) \<Rightarrow> 'a CfSet \<Rightarrow> 'a \<Rightarrow> bool \<times> 'a CfSet" where
  "SetRemove hash_fn equal_fn s e = MapRemove hash_fn equal_fn s e"

definition SetClear :: "'a CfSet \<Rightarrow> 'a CfSet" where
  "SetClear s = MapClear s"

definition SetSize :: "'a CfSet \<Rightarrow> nat" where
  "SetSize s = MapSize s"


section \<open>The interface\<close>

text \<open>What a client of a map relies on, up to the equality of keys.\<close>

locale map_iface =
  fixes equal_fn :: "'k \<Rightarrow> 'k \<Rightarrow> bool"
    and new :: 'm
    and insert :: "'m \<Rightarrow> 'k \<Rightarrow> 'v \<Rightarrow> 'm"
    and remove :: "'m \<Rightarrow> 'k \<Rightarrow> bool \<times> 'm"
    and get :: "'m \<Rightarrow> 'k \<Rightarrow> 'v option"
    and invar :: "'m \<Rightarrow> bool"
  assumes equal_refl: "equal_fn k k"
    and invar_new: "invar new"
    and invar_insert: "invar m \<Longrightarrow> invar (insert m k v)"
    and invar_remove: "invar m \<Longrightarrow> invar (snd (remove m k))"
    and get_new: "get new k = None"
    and get_insert: "invar m \<Longrightarrow> get (insert m k v) k' = (if equal_fn k k' then Some v else get m k')"
    and get_remove: "invar m \<Longrightarrow> get (snd (remove m k)) k' = (if equal_fn k k' then None else get m k')"
    and remove_found: "invar m \<Longrightarrow> fst (remove m k) \<longleftrightarrow> get m k \<noteq> None"
begin

text \<open>A run of inserts: the last value inserted under an equal key is found.\<close>

lemma invar_inserts: "invar m \<Longrightarrow> invar (foldl (\<lambda>m kv. insert m (fst kv) (snd kv)) m kvs)"
  by (induction kvs arbitrary: m) (auto simp: invar_insert)

lemma get_inserts:
  "invar m \<Longrightarrow>
   get (foldl (\<lambda>m kv. insert m (fst kv) (snd kv)) m kvs) k =
     (case List.find (\<lambda>kv. equal_fn (fst kv) k) (rev kvs) of
        Some kv \<Rightarrow> Some (snd kv) | None \<Rightarrow> get m k)"
  by (induction kvs arbitrary: m)
    (auto simp: invar_insert get_insert find_append split: option.splits)

lemma insert_then_remove:
  "invar m \<Longrightarrow> get (snd (remove (insert m k v) k)) k = None \<and> fst (remove (insert m k v) k)"
  by (simp add: invar_insert get_remove remove_found get_insert equal_refl)

end

section \<open>Pairs up to an equality\<close>

text \<open>The contract of the callbacks: an equivalence that the hash respects and bounds.\<close>

locale key_ops =
  fixes hash_fn :: "'k \<Rightarrow> nat" and equal_fn :: "'k \<Rightarrow> 'k \<Rightarrow> bool"
  assumes eq_refl: "equal_fn k k"
    and eq_sym: "equal_fn k k' \<Longrightarrow> equal_fn k' k"
    and eq_trans: "equal_fn k k' \<Longrightarrow> equal_fn k' k'' \<Longrightarrow> equal_fn k k''"
    and hash_equal: "equal_fn k k' \<Longrightarrow> hash_fn k = hash_fn k'"
    and hash_less: "hash_fn k < HASHMAP_BUCKETS"
begin

abbreviation pairs_get :: "('k \<times> 'v) list \<Rightarrow> 'k \<Rightarrow> 'v option" where
  "pairs_get kvs k \<equiv> map_option snd (List.find (\<lambda>kv. equal_fn (fst kv) k) kvs)"

abbreviation distinct_keys :: "('k \<times> 'v) list \<Rightarrow> bool" where
  "distinct_keys \<equiv> sorted_wrt (\<lambda>a b. \<not> equal_fn (fst a) (fst b))"

lemma eq_cong: "equal_fn k k' \<Longrightarrow> equal_fn x k = equal_fn x k'"
  using eq_sym eq_trans by blast

lemma eq_cong_left: "equal_fn k k' \<Longrightarrow> equal_fn k x = equal_fn k' x"
  using eq_sym eq_trans by blast

text \<open>The three changes the operations make: replace a value, add a pair, remove a pair.\<close>

lemma pairs_get_replace:
  assumes "find_index (\<lambda>kv. equal_fn (fst kv) k) kvs = Some i"
  shows "pairs_get (kvs[i := (fst (kvs ! i), v)]) k' =
    (if equal_fn k k' then Some v else pairs_get kvs k')"
proof -
  from assms obtain us kv vs where s: "kvs = us @ kv # vs" "length us = i" "equal_fn (fst kv) k"
    "\<forall>u \<in> set us. \<not> equal_fn (fst u) k"
    by (rule find_index_split)
  from s(2) [symmetric] s(1,3) show ?thesis
  proof (cases "equal_fn k k'")
    case True
    with s(4) have "\<forall>u \<in> set us. \<not> equal_fn (fst u) k'" using eq_cong by blast
    then have "List.find (\<lambda>kv. equal_fn (fst kv) k') us = None" by (rule find_None_all)
    moreover have "equal_fn (fst kv) k'" using s(3) True by (rule eq_trans)
    ultimately show ?thesis using s True by (auto simp: find_append)
  next
    case False
    then have "\<not> equal_fn (fst kv) k'" using s(3) eq_sym eq_trans by blast
    then show ?thesis using s False by (auto simp: find_append split: option.splits)
  qed
qed

lemma pairs_get_Cons: "pairs_get ((k, v) # kvs) k' = (if equal_fn k k' then Some v else pairs_get kvs k')"
  by simp

lemma pairs_get_snoc:
  assumes "find_index (\<lambda>kv. equal_fn (fst kv) k) kvs = None"
  shows "pairs_get (kvs @ [(k, v)]) k' = (if equal_fn k k' then Some v else pairs_get kvs k')"
proof (cases "equal_fn k k'")
  case True
  with assms have "\<forall>kv \<in> set kvs. \<not> equal_fn (fst kv) k'"
    using eq_cong by (auto simp: find_index_None)
  then have "List.find (\<lambda>kv. equal_fn (fst kv) k') kvs = None" by (rule find_None_all)
  with True show ?thesis by (simp add: find_append)
next
  case False
  then show ?thesis by (auto simp: find_append split: option.splits)
qed

lemma pairs_get_remove:
  assumes "find_index (\<lambda>kv. equal_fn (fst kv) k) kvs = Some i" "distinct_keys kvs"
  shows "pairs_get (remove_at i kvs) k' = (if equal_fn k k' then None else pairs_get kvs k')"
proof -
  from assms(1) obtain us kv vs where s: "kvs = us @ kv # vs" "length us = i" "equal_fn (fst kv) k"
    "\<forall>u \<in> set us. \<not> equal_fn (fst u) k"
    by (rule find_index_split)
  show ?thesis
  proof (cases "equal_fn k k'")
    case True
    have "\<forall>u \<in> set (us @ vs). \<not> equal_fn (fst u) k'"
    proof
      fix u assume "u \<in> set (us @ vs)"
      moreover have "\<forall>v \<in> set vs. \<not> equal_fn (fst kv) (fst v)"
        using assms(2) s(1) by (simp add: sorted_wrt_append)
      ultimately show "\<not> equal_fn (fst u) k'"
        using s(3,4) True eq_sym eq_trans by (metis UnE set_append)
    qed
    then have "List.find (\<lambda>kv. equal_fn (fst kv) k') (us @ vs) = None" by (rule find_None_all)
    moreover have "remove_at i kvs = us @ vs" using s(1,2) by auto
    ultimately show ?thesis using True by simp
  next
    case False
    then have "\<not> equal_fn (fst kv) k'" using s(3) eq_sym eq_trans by blast
    moreover have "remove_at i kvs = us @ vs" using s(1,2) by auto
    ultimately show ?thesis using s False by (auto simp: find_append split: option.splits)
  qed
qed

lemma distinct_keys_replace:
  assumes "distinct_keys kvs"
  shows "distinct_keys (kvs[i := (fst (kvs ! i), v)])"
proof -
  have "map fst (kvs[i := (fst (kvs ! i), v)]) = map fst kvs"
    by (cases "i < length kvs"; intro nth_equalityI) (simp_all add: nth_list_update)
  with assms show ?thesis
    by (simp only: sorted_wrt_map [of "\<lambda>a b. \<not> equal_fn a b" fst, symmetric])
qed

lemma distinct_keys_remove:
  assumes "distinct_keys kvs"
  shows "distinct_keys (remove_at i kvs)"
proof -
  have "distinct_keys (take i kvs @ drop i kvs)" using assms by simp
  moreover have "set (drop (Suc i) kvs) \<subseteq> set (drop i kvs)"
    by (rule set_drop_subset_set_drop) simp
  ultimately show ?thesis
    using sorted_wrt_drop [OF assms, of "Suc i"]
    unfolding remove_at_def sorted_wrt_append by blast
qed

lemma distinct_keys_Cons:
  "find_index (\<lambda>kv. equal_fn (fst kv) k) kvs = None \<Longrightarrow> distinct_keys kvs \<Longrightarrow>
   distinct_keys ((k, v) # kvs)"
  using eq_sym by (auto simp: find_index_None)

lemma distinct_keys_snoc:
  "find_index (\<lambda>kv. equal_fn (fst kv) k) kvs = None \<Longrightarrow> distinct_keys kvs \<Longrightarrow>
   distinct_keys (kvs @ [(k, v)])"
  by (auto simp: sorted_wrt_append find_index_None)

lemma pairs_get_rev:
  "distinct_keys kvs \<Longrightarrow> pairs_get (rev kvs) k = pairs_get kvs k"
proof (induction kvs)
  case (Cons kv kvs)
  show ?case
  proof (cases "equal_fn (fst kv) k")
    case True
    have "\<forall>u \<in> set kvs. \<not> equal_fn (fst u) k"
    proof
      fix u assume "u \<in> set kvs"
      then have "\<not> equal_fn (fst kv) (fst u)" using Cons.prems by simp
      then show "\<not> equal_fn (fst u) k" using True eq_sym eq_trans by blast
    qed
    then have "List.find (\<lambda>kv. equal_fn (fst kv) k) (rev kvs) = None"
      by (intro find_None_all) simp
    with True show ?thesis by (simp add: find_append)
  next
    case False
    with Cons show ?thesis by (auto simp: find_append split: option.splits)
  qed
qed simp

section \<open>The hash map keeps its laws\<close>

abbreviation hget :: "('k, 'v) HashMap \<Rightarrow> 'k \<Rightarrow> 'v option" where
  "hget m k \<equiv> map_option snd (HashMapGet hash_fn equal_fn m k)"

text \<open>Every pair is in the bucket of its key, and a chain has no two equal keys.\<close>

definition hash_inv :: "('k, 'v) HashMap \<Rightarrow> bool" where
  "hash_inv m \<longleftrightarrow>
     (\<forall>b. distinct_keys (hm_buckets m b) \<and> (\<forall>kv \<in> set (hm_buckets m b). hash_fn (fst kv) = b))"

lemma hget_bucket: "hget m k = pairs_get (hm_buckets m (hash_fn k)) k"
  by (simp add: HashMapGet_def Let_def map_find_index)

lemma hash_inv_bucket:
  "hash_inv m \<Longrightarrow> distinct_keys kvs \<Longrightarrow> \<forall>kv \<in> set kvs. hash_fn (fst kv) = b \<Longrightarrow>
   hm_buckets m' = (hm_buckets m)(b := kvs) \<Longrightarrow> hash_inv m'"
  by (auto simp: hash_inv_def)

lemma HashMapInsert_inv:
  assumes inv: "hash_inv m"
  shows "hash_inv (snd (HashMapInsert hash_fn equal_fn m k v))"
proof -
  let ?c = "hm_buckets m (hash_fn k)"
  have c: "distinct_keys ?c" "\<forall>kv \<in> set ?c. hash_fn (fst kv) = hash_fn k"
    using inv by (auto simp: hash_inv_def)
  show ?thesis
  proof (cases "find_index (\<lambda>kv. equal_fn (fst kv) k) ?c")
    case None
    then show ?thesis
      using distinct_keys_Cons [OF None c(1)] c(2)
      by (intro hash_inv_bucket [OF inv, of "(k, v) # ?c" "hash_fn k"])
        (simp_all add: HashMapInsert_def Let_def)
  next
    case (Some i)
    then have i: "i < length ?c" using find_index_SomeD by blast
    then have "\<forall>kv \<in> set (?c[i := (fst (?c ! i), v)]). hash_fn (fst kv) = hash_fn k"
      using c(2) by (auto dest!: set_update_subset_insert [THEN subsetD])
    with Some show ?thesis
      using distinct_keys_replace [OF c(1)]
      by (intro hash_inv_bucket [OF inv, of "?c[i := (fst (?c ! i), v)]" "hash_fn k"])
        (simp_all add: HashMapInsert_def Let_def)
  qed
qed

lemma HashMapRemove_inv:
  assumes inv: "hash_inv m"
  shows "hash_inv (snd (HashMapRemove hash_fn equal_fn m k))"
proof (cases "find_index (\<lambda>kv. equal_fn (fst kv) k) (hm_buckets m (hash_fn k))")
  case None
  then show ?thesis using inv by (simp add: HashMapRemove_def Let_def)
next
  case (Some i)
  let ?c = "hm_buckets m (hash_fn k)"
  have "distinct_keys (remove_at i ?c)" "\<forall>kv \<in> set (remove_at i ?c). hash_fn (fst kv) = hash_fn k"
    using inv distinct_keys_remove set_remove_at_subset by (fastforce simp: hash_inv_def)+
  then show ?thesis
    using Some by (intro hash_inv_bucket [OF inv, of "remove_at i ?c" "hash_fn k"])
      (simp_all add: HashMapRemove_def Let_def)
qed

lemma HashMapInsert_get:
  "hget (snd (HashMapInsert hash_fn equal_fn m k v)) k' = (if equal_fn k k' then Some v else hget m k')"
proof (cases "find_index (\<lambda>kv. equal_fn (fst kv) k) (hm_buckets m (hash_fn k))")
  case None
  then show ?thesis
    by (auto simp: hget_bucket HashMapInsert_def Let_def dest: hash_equal)
next
  case (Some i)
  then show ?thesis
    using pairs_get_replace [OF Some, where v = v and k' = k'] hash_equal [of k k']
    by (cases "hash_fn k = hash_fn k'")
      (simp_all add: hget_bucket HashMapInsert_def Let_def split: if_splits)
qed

lemma HashMapRemove_get:
  assumes inv: "hash_inv m"
  shows "hget (snd (HashMapRemove hash_fn equal_fn m k)) k' = (if equal_fn k k' then None else hget m k')"
proof (cases "find_index (\<lambda>kv. equal_fn (fst kv) k) (hm_buckets m (hash_fn k))")
  case None
  then have "equal_fn k k' \<Longrightarrow> \<forall>kv \<in> set (hm_buckets m (hash_fn k')). \<not> equal_fn (fst kv) k'"
    using eq_cong [of k k'] hash_equal [of k k'] by (auto simp: find_index_None)
  then have "equal_fn k k' \<Longrightarrow> hget m k' = None"
    by (simp add: hget_bucket find_None_all)
  with None show ?thesis by (simp add: HashMapRemove_def Let_def)
next
  case (Some i)
  have "distinct_keys (hm_buckets m (hash_fn k))" using inv by (simp add: hash_inv_def)
  from pairs_get_remove [OF Some this, of k'] Some show ?thesis
    using hash_equal [of k k']
    by (cases "hash_fn k = hash_fn k'")
      (simp_all add: hget_bucket HashMapRemove_def Let_def split: if_splits)
qed

lemma HashMapRemove_found:
  "fst (HashMapRemove hash_fn equal_fn m k) \<longleftrightarrow> hget m k \<noteq> None"
  by (auto simp: HashMapRemove_def HashMapGet_def Let_def split: option.split)

lemma hash_inv_freed [simp]: "hash_inv (m\<lparr>hm_freed := l\<rparr>) = hash_inv m"
  by (simp add: hash_inv_def)

lemma hget_freed [simp]: "hget (m\<lparr>hm_freed := l\<rparr>) k = hget m k"
  by (simp add: HashMapGet_def)

lemma hash_inv_new: "hash_inv HashMapNew"
  by (simp add: hash_inv_def HashMapNew_def)

lemma hget_new: "HashMapGet hash_fn equal_fn HashMapNew k = None"
  by (simp add: HashMapGet_def HashMapNew_def)

end

sublocale key_ops \<subseteq> hm: map_iface equal_fn HashMapNew
  "\<lambda>m k v. snd (HashMapInsert hash_fn equal_fn m k v)" "HashMapRemove hash_fn equal_fn"
  "\<lambda>m k. map_option snd (HashMapGet hash_fn equal_fn m k)" hash_inv
  by unfold_locales
    (simp_all add: eq_refl hash_inv_new hget_new HashMapInsert_inv HashMapRemove_inv
      HashMapInsert_get HashMapRemove_get HashMapRemove_found)

section \<open>The map keeps its laws\<close>

context key_ops begin

definition array_inv :: "('k, 'v) ArrayMap \<Rightarrow> bool" where
  "array_inv m \<longleftrightarrow> distinct_keys (am_values m) \<and> length (am_values m) \<le> TINY_LIMIT"

lemma ArrayMapInsert_cases:
  assumes "array_inv m" "ArrayMapInsert equal_fn m k v = (True, m')"
  shows "array_inv m'"
    and "map_option snd (ArrayMapGet equal_fn m' k') =
      (if equal_fn k k' then Some v else map_option snd (ArrayMapGet equal_fn m k'))"
proof -
  show "array_inv m'"
    using assms distinct_keys_snoc [of k "am_values m" v] distinct_keys_replace
    by (auto simp: ArrayMapInsert_def array_inv_def split: if_splits option.splits)
  show "map_option snd (ArrayMapGet equal_fn m' k') =
      (if equal_fn k k' then Some v else map_option snd (ArrayMapGet equal_fn m k'))"
  proof (cases "find_index (\<lambda>kv. equal_fn (fst kv) k) (am_values m)")
    case None
    with assms(2) have "am_values m' = am_values m @ [(k, v)]"
      by (auto simp: ArrayMapInsert_def split: if_splits)
    with pairs_get_snoc [OF None] show ?thesis by (simp add: ArrayMapGet_def map_find_index)
  next
    case (Some i)
    with assms(2) have "am_values m' = (am_values m)[i := (fst (am_values m ! i), v)]"
      by (auto simp: ArrayMapInsert_def split: if_splits)
    with pairs_get_replace [OF Some] show ?thesis by (simp add: ArrayMapGet_def map_find_index)
  qed
qed

lemma ArrayMapInsert_full:
  "ArrayMapInsert equal_fn m k v = (False, m') \<Longrightarrow> m' = m"
  by (auto simp: ArrayMapInsert_def split: if_splits option.splits)

lemma ArrayMapRemove_cases:
  assumes "array_inv m"
  shows "array_inv (snd (ArrayMapRemove equal_fn m k))"
    and "map_option snd (ArrayMapGet equal_fn (snd (ArrayMapRemove equal_fn m k)) k') =
      (if equal_fn k k' then None else map_option snd (ArrayMapGet equal_fn m k'))"
proof -
  have d: "distinct_keys (am_values m)" using assms by (simp add: array_inv_def)
  show "array_inv (snd (ArrayMapRemove equal_fn m k))"
    using assms distinct_keys_remove
    by (auto simp: ArrayMapRemove_def array_inv_def dest!: find_index_SomeD split: option.splits)
  show "map_option snd (ArrayMapGet equal_fn (snd (ArrayMapRemove equal_fn m k)) k') =
      (if equal_fn k k' then None else map_option snd (ArrayMapGet equal_fn m k'))"
  proof (cases "find_index (\<lambda>kv. equal_fn (fst kv) k) (am_values m)")
    case None
    then have "equal_fn k k' \<Longrightarrow> List.find (\<lambda>kv. equal_fn (fst kv) k') (am_values m) = None"
      using eq_cong [of k k'] by (intro find_None_all) (auto simp: find_index_None)
    with None show ?thesis by (simp add: ArrayMapRemove_def ArrayMapGet_def map_find_index)
  next
    case (Some i)
    with pairs_get_remove [OF Some d] show ?thesis
      by (simp add: ArrayMapRemove_def ArrayMapGet_def map_find_index)
  qed
qed

lemma ConvertToHashMap_laws:
  assumes "array_inv m"
  shows "hash_inv (ConvertToHashMap hash_fn equal_fn m)"
    and "hget (ConvertToHashMap hash_fn equal_fn m) k = map_option snd (ArrayMapGet equal_fn m k)"
proof -
  have inv: "hash_inv (HashMapNew\<lparr>hm_freed := am_freed m\<rparr>)"
    using hm.invar_new by simp
  then show "hash_inv (ConvertToHashMap hash_fn equal_fn m)"
    unfolding ConvertToHashMap_def by (rule hm.invar_inserts)
  have "hget (ConvertToHashMap hash_fn equal_fn m) k = pairs_get (rev (am_values m)) k"
    unfolding ConvertToHashMap_def hm.get_inserts [OF inv]
    using hm.get_new by (auto split: option.split)
  also have "\<dots> = pairs_get (am_values m) k"
    using assms by (intro pairs_get_rev) (simp add: array_inv_def)
  finally show "hget (ConvertToHashMap hash_fn equal_fn m) k = map_option snd (ArrayMapGet equal_fn m k)"
    by (simp add: ArrayMapGet_def map_find_index)
qed

definition map_inv :: "('k, 'v) CfMap \<Rightarrow> bool" where
  "map_inv m = (case m of Array_Map am \<Rightarrow> array_inv am | Hash_Map hm \<Rightarrow> hash_inv hm)"

lemma MapInsert_laws:
  assumes "map_inv m"
  shows "map_inv (MapInsert hash_fn equal_fn m k v) \<and>
    MapGet hash_fn equal_fn (MapInsert hash_fn equal_fn m k v) k' =
      (if equal_fn k k' then Some v else MapGet hash_fn equal_fn m k')"
proof (cases m)
  case (Hash_Map h)
  with assms show ?thesis
    using hm.invar_insert [of h k v] hm.get_insert [of h k v k']
    by (simp add: MapInsert_def MapGet_def MapGetRaw_def map_inv_def)
next
  case (Array_Map a)
  with assms have inv: "array_inv a" by (simp add: map_inv_def)
  obtain ok a' where ins: "ArrayMapInsert equal_fn a k v = (ok, a')" by fastforce
  show ?thesis
  proof (cases ok)
    case True
    with ins Array_Map ArrayMapInsert_cases(1) [OF inv, of k v a'] ArrayMapInsert_cases(2) [OF inv, of k v a' k'] show ?thesis
      by (simp add: MapInsert_def MapGet_def MapGetRaw_def map_inv_def)
  next
    case False
    with ins have "a' = a" using ArrayMapInsert_full by simp
    with False ins Array_Map ConvertToHashMap_laws(1) [OF inv] ConvertToHashMap_laws(2) [OF inv, of k'] show ?thesis
      using hm.invar_insert [of "ConvertToHashMap hash_fn equal_fn a" k v]
        hm.get_insert [of "ConvertToHashMap hash_fn equal_fn a" k v k']
      by (simp add: MapInsert_def MapGet_def MapGetRaw_def map_inv_def)
  qed
qed

lemma MapRemove_laws:
  assumes "map_inv m"
  shows "map_inv (snd (MapRemove hash_fn equal_fn m k)) \<and>
    MapGet hash_fn equal_fn (snd (MapRemove hash_fn equal_fn m k)) k' =
      (if equal_fn k k' then None else MapGet hash_fn equal_fn m k') \<and>
    (fst (MapRemove hash_fn equal_fn m k) \<longleftrightarrow> MapGet hash_fn equal_fn m k \<noteq> None)"
proof (cases m)
  case (Hash_Map h)
  with assms show ?thesis
    using hm.invar_remove [of h k] hm.get_remove [of h k k'] hm.remove_found [of h k]
    by (simp add: MapRemove_def MapGet_def MapGetRaw_def map_inv_def)
next
  case (Array_Map a)
  with assms have inv: "array_inv a" by (simp add: map_inv_def)
  have "fst (ArrayMapRemove equal_fn a k) \<longleftrightarrow> ArrayMapGet equal_fn a k \<noteq> None"
    by (auto simp: ArrayMapRemove_def ArrayMapGet_def split: option.split)
  with Array_Map ArrayMapRemove_cases(1) [OF inv, of k] ArrayMapRemove_cases(2) [OF inv, of k k'] show ?thesis
    by (simp add: MapRemove_def MapGet_def MapGetRaw_def map_inv_def)
qed

lemma map_inv_new: "map_inv MapNew"
  by (simp add: map_inv_def MapNew_def array_inv_def ArrayMapNew_def)

lemma MapGet_new: "MapGet hash_fn equal_fn MapNew k = None"
  by (simp add: MapGet_def MapGetRaw_def MapNew_def ArrayMapGet_def ArrayMapNew_def)

end

sublocale key_ops \<subseteq> cm: map_iface equal_fn MapNew "MapInsert hash_fn equal_fn"
  "MapRemove hash_fn equal_fn" "MapGet hash_fn equal_fn" map_inv
  by unfold_locales
    (simp_all add: eq_refl map_inv_new MapGet_new MapInsert_laws MapRemove_laws)

section \<open>Ownership\<close>

text \<open>
  What a map holds, and with the log what it has ever been given: the keys and values of its
  pairs as a multiset.
\<close>

definition owned :: "('k \<times> 'v) list \<Rightarrow> ('k + 'v) multiset" where
  "owned kvs = mset (free_pairs kvs)"

definition map_owned :: "('k, 'v) CfMap \<Rightarrow> ('k + 'v) multiset" where
  "map_owned m =
     (case m of
        Array_Map am \<Rightarrow> owned (am_values am)
      | Hash_Map hm \<Rightarrow> (\<Sum>b<HASHMAP_BUCKETS. owned (hm_buckets hm b)))"

definition map_freed :: "('k, 'v) CfMap \<Rightarrow> ('k + 'v) multiset" where
  "map_freed m =
     (case m of Array_Map am \<Rightarrow> mset (am_freed am) | Hash_Map hm \<Rightarrow> mset (hm_freed hm))"

definition pair_mset :: "'k \<Rightarrow> 'v \<Rightarrow> ('k + 'v) multiset" where
  "pair_mset k v = {#Inl k, Inr v#}"

lemma owned_simps [simp]:
  "owned [] = {#}" "owned (kv # kvs) = pair_mset (fst kv) (snd kv) + owned kvs"
  "owned (kvs @ kvs') = owned kvs + owned kvs'"
  by (simp_all add: owned_def free_pairs_def pair_mset_def)

lemma mset_FreeBucketListItem: "mset (FreeBucketListItem kvs) = owned kvs"
  by (induction kvs rule: FreeBucketListItem.induct) (simp_all add: pair_mset_def)

lemma owned_replace:
  assumes "find_index P kvs = Some i"
  shows "owned (kvs[i := (fst (kvs ! i), v)]) + {#Inr (snd (kvs ! i))#} = owned kvs + {#Inr v#}"
  using assms
proof (rule find_index_split)
  fix us kv vs
  assume kvs: "kvs = us @ kv # vs" "length us = i"
  then show ?thesis by (auto simp: pair_mset_def)
qed

lemma owned_remove:
  assumes "find_index P kvs = Some i"
  shows "owned (remove_at i kvs) + pair_mset (fst (kvs ! i)) (snd (kvs ! i)) = owned kvs"
  using assms
proof (rule find_index_split)
  fix us kv vs
  assume kvs: "kvs = us @ kv # vs" "length us = i"
  then show ?thesis by auto
qed

lemma sum_bucket:
  fixes f :: "'a list \<Rightarrow> 'b :: cancel_comm_monoid_add"
  assumes "b < HASHMAP_BUCKETS"
  shows "(\<Sum>i<HASHMAP_BUCKETS. f ((g(b := c)) i)) + f (g b) = (\<Sum>i<HASHMAP_BUCKETS. f (g i)) + f c"
proof -
  have "(\<Sum>i<HASHMAP_BUCKETS. f ((g(b := c)) i)) =
      f c + (\<Sum>i \<in> {..<HASHMAP_BUCKETS} - {b}. f ((g(b := c)) i))"
    using assms by (subst sum.remove [of _ b]) auto
  also have "(\<Sum>i \<in> {..<HASHMAP_BUCKETS} - {b}. f ((g(b := c)) i)) =
      (\<Sum>i \<in> {..<HASHMAP_BUCKETS} - {b}. f (g i))"
    by (intro sum.cong) auto
  finally show ?thesis
    using assms by (simp add: sum.remove [of "{..<HASHMAP_BUCKETS}" b "\<lambda>i. f (g i)"] ac_simps)
qed

lemma cancel_chain:
  fixes S :: "'b :: cancel_comm_monoid_add"
  assumes "S' + c = S + c'" "c' + x = c + y"
  shows "S' + x = S + y"
proof -
  have "(S' + x) + c = (S' + c) + x" by (simp only: ac_simps)
  also have "\<dots> = S + (c' + x)" by (simp only: assms(1) ac_simps)
  also have "\<dots> = (S + y) + c" by (simp only: assms(2) ac_simps)
  finally show ?thesis by (simp only: add_right_cancel)
qed

text \<open>The number of pairs: what \<open>MapSize\<close> counts.\<close>

definition hash_pairs :: "('k, 'v) HashMap \<Rightarrow> nat" where
  "hash_pairs m = (\<Sum>b<HASHMAP_BUCKETS. length (hm_buckets m b))"

lemma hash_map_count_rest: "hash_map_count m it n = length (hash_rest m it) + n"
proof (induction m it n rule: hash_map_count.induct)
  case (1 m it n)
  then show ?case
    using HashMapIteratorNext_rest [of m it]
    by (subst hash_map_count.simps) (auto split: prod.splits option.splits)
qed

lemma HASHMAP_BUCKETS_pos: "0 < HASHMAP_BUCKETS"
  by (simp add: HASHMAP_BUCKETS_def)

lemma MapSize_hash: "MapSize (Hash_Map m) = hash_pairs m"
proof -
  have "hash_rest m (HashMapIteratorInit m) = concat (map (hm_buckets m) [0..<HASHMAP_BUCKETS])"
    using HASHMAP_BUCKETS_pos by (simp add: hash_rest_def HashMapIteratorInit_def upt_conv_Cons)
  then show ?thesis
    by (simp add: MapSize_def hash_map_count_rest hash_pairs_def length_concat comp_def
        sum_list_sum_nth atLeast0LessThan)
qed

context key_ops begin

definition hash_total :: "('k, 'v) HashMap \<Rightarrow> ('k + 'v) multiset" where
  "hash_total m = mset (hm_freed m) + (\<Sum>b<HASHMAP_BUCKETS. owned (hm_buckets m b))"

lemma HashMapInsert_total:
  "hash_total (snd (HashMapInsert hash_fn equal_fn m k v)) = hash_total m + pair_mset k v"
proof (cases "find_index (\<lambda>kv. equal_fn (fst kv) k) (hm_buckets m (hash_fn k))")
  case None
  show ?thesis
    using sum_bucket [OF hash_less, of owned "hm_buckets m" k "(k, v) # hm_buckets m (hash_fn k)"] None
    by (simp add: HashMapInsert_def Let_def hash_total_def ac_simps)
next
  case (Some i)
  let ?c = "hm_buckets m (hash_fn k)"
  let ?c' = "?c[i := (fst (?c ! i), v)]"
  let ?S = "\<Sum>b<HASHMAP_BUCKETS. owned (hm_buckets m b)"
  let ?S' = "\<Sum>b<HASHMAP_BUCKETS. owned (((hm_buckets m)(hash_fn k := ?c')) b)"
  have "?S' + owned ?c = ?S + owned ?c'"
    by (rule sum_bucket [OF hash_less])
  moreover have "owned ?c' + {#Inr (snd (?c ! i))#} = owned ?c + {#Inr v#}"
    using Some by (rule owned_replace)
  ultimately have "?S' + {#Inr (snd (?c ! i))#} = ?S + {#Inr v#}"
    by (rule cancel_chain)
  with Some show ?thesis
    by (simp add: HashMapInsert_def Let_def hash_total_def pair_mset_def ac_simps)
qed

lemma HashMapRemove_total:
  "hash_total (snd (HashMapRemove hash_fn equal_fn m k)) = hash_total m"
proof (cases "find_index (\<lambda>kv. equal_fn (fst kv) k) (hm_buckets m (hash_fn k))")
  case None
  then show ?thesis by (simp add: HashMapRemove_def Let_def)
next
  case (Some i)
  let ?c = "hm_buckets m (hash_fn k)"
  let ?S = "\<Sum>b<HASHMAP_BUCKETS. owned (hm_buckets m b)"
  let ?S' = "\<Sum>b<HASHMAP_BUCKETS. owned (((hm_buckets m)(hash_fn k := remove_at i ?c)) b)"
  let ?p = "pair_mset (fst (?c ! i)) (snd (?c ! i))"
  have "?S' + owned ?c = ?S + owned (remove_at i ?c)"
    by (rule sum_bucket [OF hash_less])
  moreover have "owned (remove_at i ?c) + ?p = owned ?c + {#}"
    using owned_remove [OF Some] by simp
  ultimately have "?S' + ?p = ?S + {#}" by (rule cancel_chain)
  with Some show ?thesis
    by (simp add: HashMapRemove_def Let_def hash_total_def pair_mset_def add_mset_commute)
qed

lemma HashMapInsert_pairs:
  "hash_pairs (snd (HashMapInsert hash_fn equal_fn m k v)) =
     hash_pairs m + (if hget m k = None then 1 else 0)"
proof (cases "find_index (\<lambda>kv. equal_fn (fst kv) k) (hm_buckets m (hash_fn k))")
  case None
  then show ?thesis
    using sum_bucket [OF hash_less, of length "hm_buckets m" k "(k, v) # hm_buckets m (hash_fn k)"]
    by (simp add: HashMapInsert_def Let_def hash_pairs_def HashMapGet_def)
next
  case (Some i)
  let ?c = "hm_buckets m (hash_fn k)"
  show ?thesis
    using sum_bucket [OF hash_less, of length "hm_buckets m" k "?c[i := (fst (?c ! i), v)]"] Some
    by (simp add: HashMapInsert_def Let_def hash_pairs_def HashMapGet_def)
qed

lemma HashMapRemove_pairs:
  "hash_pairs (snd (HashMapRemove hash_fn equal_fn m k)) + (if hget m k = None then 0 else 1) =
     hash_pairs m"
proof (cases "find_index (\<lambda>kv. equal_fn (fst kv) k) (hm_buckets m (hash_fn k))")
  case None
  then show ?thesis by (simp add: HashMapRemove_def Let_def HashMapGet_def)
next
  case (Some i)
  let ?c = "hm_buckets m (hash_fn k)"
  have "i < length ?c" using Some find_index_SomeD by blast
  then show ?thesis
    using sum_bucket [OF hash_less, of length "hm_buckets m" k "remove_at i ?c"] Some
    by (simp add: HashMapRemove_def Let_def hash_pairs_def HashMapGet_def)
qed

text \<open>The conversion hands every pair over and frees none.\<close>

lemma inserts_total:
  "hash_total (foldl (\<lambda>hm kv. snd (HashMapInsert hash_fn equal_fn hm (fst kv) (snd kv))) m kvs) =
     hash_total m + owned kvs"
  by (induction kvs arbitrary: m) (simp_all add: HashMapInsert_total ac_simps)

lemma HashMapInsert_absent:
  "HashMapGet hash_fn equal_fn (snd (HashMapInsert hash_fn equal_fn m k v)) k' = None \<longleftrightarrow>
     \<not> equal_fn k k' \<and> HashMapGet hash_fn equal_fn m k' = None"
proof -
  have "hget (snd (HashMapInsert hash_fn equal_fn m k v)) k' = None \<longleftrightarrow>
      \<not> equal_fn k k' \<and> hget m k' = None"
    by (simp add: HashMapInsert_get)
  then show ?thesis by simp
qed

lemma inserts_pairs:
  "distinct_keys kvs \<Longrightarrow> \<forall>kv \<in> set kvs. hget m (fst kv) = None \<Longrightarrow>
   hash_pairs (foldl (\<lambda>hm kv. snd (HashMapInsert hash_fn equal_fn hm (fst kv) (snd kv))) m kvs) =
     hash_pairs m + length kvs"
  by (induction kvs arbitrary: m) (auto simp: HashMapInsert_pairs HashMapInsert_absent)

lemma ConvertToHashMap_total:
  "hash_total (ConvertToHashMap hash_fn equal_fn m) = mset (am_freed m) + owned (am_values m)"
  by (simp add: ConvertToHashMap_def inserts_total) (simp add: hash_total_def HashMapNew_def)

lemma ConvertToHashMap_pairs:
  assumes "array_inv m"
  shows "hash_pairs (ConvertToHashMap hash_fn equal_fn m) = length (am_values m)"
proof -
  have "hash_pairs (HashMapNew\<lparr>hm_freed := am_freed m\<rparr>) = 0"
    by (simp add: hash_pairs_def HashMapNew_def)
  with assms show ?thesis
    unfolding ConvertToHashMap_def by (subst inserts_pairs) (simp_all add: array_inv_def hget_new)
qed

abbreviation map_total :: "('k, 'v) CfMap \<Rightarrow> ('k + 'v) multiset" where
  "map_total m \<equiv> map_freed m + map_owned m"

lemma map_total_hash: "map_total (Hash_Map m) = hash_total m"
  by (simp add: map_freed_def map_owned_def hash_total_def)

lemma MapInsert_total: "map_total (MapInsert hash_fn equal_fn m k v) = map_total m + pair_mset k v"
proof (cases m)
  case (Hash_Map h)
  then show ?thesis
    by (simp only: Hash_Map MapInsert_def CfMap.case map_total_hash HashMapInsert_total)
next
  case (Array_Map a)
  show ?thesis
  proof (cases "length (am_values a) = TINY_LIMIT")
    case True
    have "map_total (MapInsert hash_fn equal_fn m k v) =
        hash_total (snd (HashMapInsert hash_fn equal_fn (ConvertToHashMap hash_fn equal_fn a) k v))"
      using True Array_Map by (simp add: MapInsert_def ArrayMapInsert_def flip: map_total_hash)
    then show ?thesis
      by (simp add: HashMapInsert_total ConvertToHashMap_total Array_Map map_freed_def map_owned_def)
  next
    case False
    show ?thesis
    proof (cases "find_index (\<lambda>kv. equal_fn (fst kv) k) (am_values a)")
      case None
      with False Array_Map show ?thesis
        by (simp add: MapInsert_def ArrayMapInsert_def map_freed_def map_owned_def ac_simps)
    next
      case (Some i)
      with False Array_Map show ?thesis
        using owned_replace [OF Some, of v]
        by (simp add: MapInsert_def ArrayMapInsert_def map_freed_def map_owned_def pair_mset_def)
    qed
  qed
qed

lemma MapRemove_total: "map_total (snd (MapRemove hash_fn equal_fn m k)) = map_total m"
proof (cases m)
  case (Hash_Map h)
  then show ?thesis
    using HashMapRemove_total [of h k] by (simp add: MapRemove_def map_total_hash [symmetric])
next
  case (Array_Map a)
  show ?thesis
  proof (cases "find_index (\<lambda>kv. equal_fn (fst kv) k) (am_values a)")
    case None
    with Array_Map show ?thesis by (simp add: MapRemove_def ArrayMapRemove_def)
  next
    case (Some i)
    with Array_Map show ?thesis
      using owned_remove [OF Some]
      by (simp add: MapRemove_def ArrayMapRemove_def map_freed_def map_owned_def pair_mset_def
            add_mset_commute)
  qed
qed

lemma MapSize_insert:
  assumes "map_inv m"
  shows "MapSize (MapInsert hash_fn equal_fn m k v) =
    MapSize m + (if MapHasKey hash_fn equal_fn m k then 0 else 1)"
proof (cases m)
  case (Hash_Map h)
  then show ?thesis
    using HashMapInsert_pairs [of h k v]
    by (simp add: MapInsert_def MapSize_hash MapHasKey_def MapGetRaw_def)
next
  case (Array_Map a)
  with assms have inv: "array_inv a" by (simp add: map_inv_def)
  show ?thesis
  proof (cases "length (am_values a) = TINY_LIMIT")
    case True
    with Array_Map ConvertToHashMap_laws(2) [OF inv, of k] ConvertToHashMap_pairs [OF inv] show ?thesis
      by (simp add: MapInsert_def ArrayMapInsert_def MapSize_hash HashMapInsert_pairs MapHasKey_def
          MapGetRaw_def) (simp add: MapSize_def)
  next
    case False
    with Array_Map show ?thesis
      by (auto simp: MapInsert_def ArrayMapInsert_def MapSize_def MapHasKey_def MapGetRaw_def
          ArrayMapGet_def split: option.split)
  qed
qed

end

text \<open>
  String keys, as \<open>StringMap\<close> and \<open>StringSet\<close> have them: \<open>OatHash\<close> over the 8192 buckets and
  \<open>StringSafeEqual\<close> on strings that are not \<open>NULL\<close>.
\<close>

definition string_hash :: "string \<Rightarrow> nat" where
  "string_hash key = OatHash key 8192"

interpretation str_keys: key_ops string_hash "(=)"
  using OatHash_less [of 8192] by unfold_locales (auto simp: string_hash_def HASHMAP_BUCKETS_def)


section \<open>String maps and string sets\<close>

text \<open>The instances \<open>TYPED_MAP_DEFINE(String, ...)\<close> and \<open>TYPED_SET_DEFINE(String, ...)\<close>.\<close>

definition StringMapInsert :: "(string, 'v) CfMap \<Rightarrow> string \<Rightarrow> 'v \<Rightarrow> (string, 'v) CfMap" where
  "StringMapInsert = MapInsert string_hash (=)"

definition StringMapGet :: "(string, 'v) CfMap \<Rightarrow> string \<Rightarrow> 'v option" where
  "StringMapGet = MapGet string_hash (=)"

definition StringMapRemove :: "(string, 'v) CfMap \<Rightarrow> string \<Rightarrow> bool \<times> (string, 'v) CfMap" where
  "StringMapRemove = MapRemove string_hash (=)"

type_synonym StringSet = "string CfSet"

definition StringSetAdd :: "StringSet \<Rightarrow> string \<Rightarrow> StringSet" where
  "StringSetAdd = SetAdd string_hash (=)"

definition StringSetContains :: "StringSet \<Rightarrow> string \<Rightarrow> bool" where
  "StringSetContains = SetContains string_hash (=)"

definition StringSetRemove :: "StringSet \<Rightarrow> string \<Rightarrow> bool \<times> StringSet" where
  "StringSetRemove = SetRemove string_hash (=)"

definition StringSetFromString :: "string \<Rightarrow> char \<Rightarrow> StringSet" where
  "StringSetFromString str delimiter =
     foldl StringSetAdd SetNew (strsep_tokens delimiter str)"

text \<open>What a client of a string set relies on.\<close>

locale set_iface =
  fixes new :: 's
    and add :: "'s \<Rightarrow> 'a \<Rightarrow> 's"
    and remove :: "'s \<Rightarrow> 'a \<Rightarrow> bool \<times> 's"
    and contains :: "'s \<Rightarrow> 'a \<Rightarrow> bool"
    and invar :: "'s \<Rightarrow> bool"
  assumes invar_new: "invar new"
    and invar_add: "invar s \<Longrightarrow> invar (add s e)"
    and invar_remove: "invar s \<Longrightarrow> invar (snd (remove s e))"
    and contains_new: "\<not> contains new e"
    and contains_add: "invar s \<Longrightarrow> contains (add s e) e' \<longleftrightarrow> e' = e \<or> contains s e'"
    and contains_remove: "invar s \<Longrightarrow> contains (snd (remove s e)) e' \<longleftrightarrow> e' \<noteq> e \<and> contains s e'"
    and remove_found: "invar s \<Longrightarrow> fst (remove s e) \<longleftrightarrow> contains s e"
begin

lemma invar_adds: "invar s \<Longrightarrow> invar (foldl add s es)"
  by (induction es arbitrary: s) (auto simp: invar_add)

lemma contains_adds: "invar s \<Longrightarrow> contains (foldl add s es) e \<longleftrightarrow> e \<in> set es \<or> contains s e"
  by (induction es arbitrary: s) (auto simp: invar_add contains_add)

text \<open>The members as a set, the view clients reason with.\<close>

definition members :: "'s \<Rightarrow> 'a set" where
  "members s = {e. contains s e}"

lemma members_simps:
  "members new = {}"
  "invar s \<Longrightarrow> members (add s e) = Set.insert e (members s)"
  "invar s \<Longrightarrow> members (snd (remove s e)) = members s - {e}"
  "invar s \<Longrightarrow> members (foldl add s es) = members s \<union> set es"
  by (auto simp: members_def contains_new contains_add contains_remove contains_adds)

end

lemma SetContains_get: "StringSetContains s e \<longleftrightarrow> MapGet string_hash (=) s e \<noteq> None"
  by (simp add: StringSetContains_def SetContains_def MapHasKey_def MapGet_def)

interpretation str_set: set_iface SetNew StringSetAdd StringSetRemove StringSetContains
  "str_keys.map_inv"
  by unfold_locales
    (auto simp: SetContains_get StringSetAdd_def SetAdd_def StringSetRemove_def SetRemove_def SetNew_def
      str_keys.cm.invar_new str_keys.cm.invar_insert str_keys.cm.invar_remove str_keys.cm.get_new
      str_keys.cm.get_insert str_keys.cm.get_remove str_keys.cm.remove_found split: if_splits)

section \<open>Clearing\<close>

lemma MapClear_get: "StringMapGet (MapClear m) k = None"
proof (cases m)
  case (Hash_Map h)
  then show ?thesis
    using str_keys.hash_less [of k]
    by (simp add: StringMapGet_def MapClear_def MapGet_def MapGetRaw_def HashMapGet_def HashMapClear_def)
next
  case (Array_Map a)
  then show ?thesis
    by (simp add: StringMapGet_def MapClear_def MapGet_def MapGetRaw_def ArrayMapGet_def ArrayMapClear_def)
qed

lemma MapClear_inv: "str_keys.map_inv m \<Longrightarrow> str_keys.map_inv (MapClear m)"
  by (auto simp: MapClear_def str_keys.map_inv_def str_keys.array_inv_def str_keys.hash_inv_def
      ArrayMapClear_def HashMapClear_def split: CfMap.splits)

lemma MapClear_total: "map_freed (MapClear m) + map_owned (MapClear m) = map_freed m + map_owned m"
proof (cases m)
  case (Hash_Map h)
  have "(\<Sum>b\<leftarrow>[0..<HASHMAP_BUCKETS]. owned (hm_buckets h b)) =
      (\<Sum>b<HASHMAP_BUCKETS. owned (hm_buckets h b))"
    by (simp add: interv_sum_list_conv_sum_set_nat atLeast0LessThan)
  with Hash_Map show ?thesis
    by (simp add: MapClear_def map_freed_def map_owned_def HashMapClear_def mset_concat
        mset_FreeBucketListItem comp_def)
next
  case (Array_Map a)
  then show ?thesis
    by (simp add: MapClear_def map_freed_def map_owned_def ArrayMapClear_def owned_def free_pairs_def)
qed

lemma MapClear_size: "MapSize (MapClear m) = 0"
proof (cases m)
  case (Hash_Map h)
  then have "MapSize (MapClear m) = hash_pairs (HashMapClear h)"
    by (simp only: MapClear_def CfMap.case MapSize_hash)
  then show ?thesis by (simp add: hash_pairs_def HashMapClear_def)
next
  case (Array_Map a)
  then show ?thesis by (simp add: MapClear_def MapSize_def ArrayMapClear_def)
qed

section \<open>Sequences of operations\<close>

datatype 'v map_op = Op_Insert string 'v | Op_Remove string | Op_Clear

text \<open>The operations on the code's map, and on the partial function it stands for.\<close>

fun map_step :: "(string, 'v) CfMap \<Rightarrow> 'v map_op \<Rightarrow> (string, 'v) CfMap" where
  "map_step m (Op_Insert k v) = StringMapInsert m k v"
| "map_step m (Op_Remove k) = snd (StringMapRemove m k)"
| "map_step m Op_Clear = MapClear m"

fun spec_step :: "(string \<rightharpoonup> 'v) \<Rightarrow> 'v map_op \<Rightarrow> (string \<rightharpoonup> 'v)" where
  "spec_step f (Op_Insert k v) = f(k \<mapsto> v)"
| "spec_step f (Op_Remove k) = f(k := None)"
| "spec_step f Op_Clear = Map.empty"

fun given_step :: "'v map_op \<Rightarrow> (string + 'v) multiset" where
  "given_step (Op_Insert k v) = pair_mset k v"
| "given_step (Op_Remove k) = {#}"
| "given_step Op_Clear = {#}"

lemma map_step_inv: "str_keys.map_inv m \<Longrightarrow> str_keys.map_inv (map_step m op)"
  by (cases op) (simp_all add: StringMapInsert_def StringMapRemove_def str_keys.cm.invar_insert
      str_keys.cm.invar_remove MapClear_inv)

lemma map_step_get:
  assumes "str_keys.map_inv m"
  shows "StringMapGet (map_step m op) = spec_step (StringMapGet m) op"
proof (cases op)
  case Op_Clear
  then show ?thesis by (simp add: MapClear_get fun_eq_iff)
qed (use assms in \<open>auto simp: StringMapGet_def StringMapInsert_def StringMapRemove_def fun_eq_iff
    str_keys.cm.get_insert str_keys.cm.get_remove\<close>)

lemma map_steps_get:
  "str_keys.map_inv m \<Longrightarrow>
   str_keys.map_inv (foldl map_step m ops) \<and>
   StringMapGet (foldl map_step m ops) = foldl spec_step (StringMapGet m) ops"
  by (induction ops arbitrary: m) (auto simp: map_step_inv map_step_get)

lemma map_step_size:
  assumes "str_keys.map_inv m" "MapSize m = card (dom (StringMapGet m))" "finite (dom (StringMapGet m))"
  shows "MapSize (map_step m op) = card (dom (StringMapGet (map_step m op))) \<and>
    finite (dom (StringMapGet (map_step m op)))"
proof (cases op)
  case (Op_Insert k v)
  have "MapHasKey string_hash (=) m k \<longleftrightarrow> k \<in> dom (StringMapGet m)"
    by (auto simp: MapHasKey_def StringMapGet_def MapGet_def dom_def)
  with assms Op_Insert show ?thesis
    using map_step_get [OF assms(1), of op] str_keys.MapSize_insert [OF assms(1), of k v]
    by (simp add: StringMapInsert_def card_insert_if)
next
  case (Op_Remove k)
  have "MapSize (snd (StringMapRemove m k)) + (if k \<in> dom (StringMapGet m) then 1 else 0) = MapSize m"
  proof (cases m)
    case (Hash_Map h)
    then show ?thesis
      using str_keys.HashMapRemove_pairs [of h k]
      by (auto simp: StringMapRemove_def MapRemove_def MapSize_hash StringMapGet_def MapGet_def
          MapGetRaw_def dom_def split: if_splits)
  next
    case (Array_Map a)
    then show ?thesis
      by (auto simp: StringMapRemove_def MapRemove_def ArrayMapRemove_def MapSize_def StringMapGet_def
          MapGet_def MapGetRaw_def ArrayMapGet_def dom_def dest!: find_index_SomeD split: option.split)
  qed
  with assms Op_Remove show ?thesis
    using map_step_get [OF assms(1), of op]
    by (cases "k \<in> dom (StringMapGet m)") (auto simp: card_Diff_singleton_if)
next
  case Op_Clear
  then show ?thesis
    using map_step_get [OF assms(1), of op] by (simp add: MapClear_size)
qed

lemma map_steps_size:
  "str_keys.map_inv m \<Longrightarrow> MapSize m = card (dom (StringMapGet m)) \<Longrightarrow> finite (dom (StringMapGet m)) \<Longrightarrow>
   MapSize (foldl map_step m ops) = card (dom (StringMapGet (foldl map_step m ops)))"
  by (induction ops arbitrary: m) (simp_all add: map_step_inv map_step_size)

lemma map_step_total:
  "map_freed (map_step m op) + map_owned (map_step m op) = map_freed m + map_owned m + given_step op"
  by (cases op) (simp_all add: StringMapInsert_def StringMapRemove_def str_keys.MapInsert_total
      str_keys.MapRemove_total MapClear_total)

lemma map_steps_total:
  "map_freed (foldl map_step m ops) + map_owned (foldl map_step m ops) =
     map_freed m + map_owned m + (\<Sum>op\<leftarrow>ops. given_step op)"
  by (induction ops arbitrary: m) (simp_all add: map_step_total ac_simps)

section \<open>Properties\<close>

text \<open>
  C16. The map is a partial function: after any sequence of insertions, removals and clears from
  the empty map, a lookup gives what the same sequence leaves in a function, also across the
  conversion from the array to the hash table, and \<open>MapSize\<close> is the number of keys.
\<close>

theorem string_map_refines:
  "StringMapGet (foldl map_step MapNew ops) = foldl spec_step Map.empty ops \<and>
   MapSize (foldl map_step MapNew ops) = card (dom (foldl spec_step Map.empty ops))"
proof -
  have new: "StringMapGet MapNew = (Map.empty :: string \<rightharpoonup> 'a)"
    by (simp add: fun_eq_iff StringMapGet_def str_keys.MapGet_new)
  have "MapSize (MapNew :: (string, 'a) CfMap) = 0"
    by (simp add: MapSize_def MapNew_def ArrayMapNew_def)
  with new show ?thesis
    using map_steps_get [OF str_keys.map_inv_new, of ops]
      map_steps_size [OF str_keys.map_inv_new, of ops] by simp
qed

text \<open>
  C17. Ownership: after any sequence of operations, every key and value ever given to the map is
  either still in it or has been passed to its destructor, and none has been passed twice.
\<close>

theorem string_map_ownership:
  "map_freed (foldl map_step MapNew ops) + map_owned (foldl map_step MapNew ops) =
     (\<Sum>op\<leftarrow>ops. given_step op)"
proof -
  have "map_freed (MapNew :: (string, 'a) CfMap) + map_owned (MapNew :: (string, 'a) CfMap) = {#}"
    by (simp add: map_freed_def map_owned_def MapNew_def ArrayMapNew_def)
  then show ?thesis by (simp add: map_steps_total)
qed

text \<open>
  A set made from a string holds exactly the pieces between the separators.
\<close>

theorem string_set_from_string:
  "StringSetContains (StringSetFromString str delimiter) e \<longleftrightarrow> e \<in> set (strsep_tokens delimiter str)"
  by (simp add: StringSetFromString_def str_set.contains_adds str_set.invar_new str_set.contains_new)

end
