(* ===== verification/Assoc.thy ===== *)
theory Assoc
  imports Hashes
begin

text \<open>
  The associative table of variables, \<open>libpromises/assoc.c\<close>: an array of up to 14 entries that
  becomes an open-addressing hash table of 8192 buckets with linear probing. An entry is the
  code's \<open>CfAssoc\<close>; the value type \<open>Rval\<close> is a type parameter, since nothing here looks
  inside it.

  Insertion and lookup are proved to be those of a partial function in which the first value of
  a name stays. Deletion in the hash table empties the bucket instead of marking it
  \<open>HASH_ENTRY_DELETED\<close> and so cuts probe sequences: \<open>huge_delete_loses_entry\<close>.
\<close>

definition CF_HASHTABLESIZE :: nat where
  "CF_HASHTABLESIZE = 8192"

definition ASSOC_TINY_LIMIT :: nat where
  "ASSOC_TINY_LIMIT = 14"

record ('r, 'd) CfAssoc =
  lval :: string
  rval :: 'r
  dtype :: 'd

definition NewAssoc :: "string \<Rightarrow> 'r \<Rightarrow> 'd \<Rightarrow> ('r, 'd) CfAssoc" where
  "NewAssoc lv rv dt = \<lparr>lval = lv, rval = rv, dtype = dt\<rparr>"

lemma lval_NewAssoc [simp]: "lval (NewAssoc lv rv dt) = lv"
  by (simp add: NewAssoc_def)

text \<open>A bucket: \<open>NULL\<close>, \<open>HASH_ENTRY_DELETED\<close>, or an entry.\<close>

datatype 'a slot = Null | Deleted | Entry 'a

definition slot_entry :: "'a slot \<Rightarrow> 'a option" where
  "slot_entry s = (case s of Entry a \<Rightarrow> Some a | _ \<Rightarrow> None)"

type_synonym ('r, 'd) buckets = "nat \<Rightarrow> ('r, 'd) CfAssoc slot"

datatype ('r, 'd) AssocHashTable = Tiny "('r, 'd) CfAssoc list" | Huge "('r, 'd) buckets"

definition HashInit :: "('r, 'd) AssocHashTable" where
  "HashInit = Tiny []"

definition bucket_of :: "string \<Rightarrow> nat" where
  "bucket_of element = OatHash element (of_nat CF_HASHTABLESIZE)"

text \<open>
  The buckets the loops \<open>do ... i = (i + 1) % CF_HASHTABLESIZE; while (i != bucket)\<close> visit, in
  order.
\<close>

definition probes :: "nat \<Rightarrow> nat list" where
  "probes bucket = map (\<lambda>j. (bucket + j) mod CF_HASHTABLESIZE) [0..<CF_HASHTABLESIZE]"

section \<open>Insertion\<close>

text \<open>
  The search of \<open>HashConvertToHuge\<close> for the first \<open>NULL\<close> bucket. The code's loop does not
  stop on a table without one; here the buckets are then left as they are.
\<close>

fun first_null :: "('r, 'd) buckets \<Rightarrow> nat list \<Rightarrow> nat option" where
  "first_null bs [] = None"
| "first_null bs (i # is) = (if bs i = Null then Some i else first_null bs is)"

definition put_fresh :: "('r, 'd) buckets \<Rightarrow> ('r, 'd) CfAssoc \<Rightarrow> ('r, 'd) buckets" where
  "put_fresh bs assoc =
     (case first_null bs (probes (bucket_of (lval assoc))) of
        Some i \<Rightarrow> bs(i := Entry assoc)
      | None \<Rightarrow> bs)"

definition HashConvertToHuge :: "('r, 'd) CfAssoc list \<Rightarrow> ('r, 'd) buckets" where
  "HashConvertToHuge vals = foldl put_fresh (\<lambda>_. Null) vals"

fun huge_insert_loop ::
  "('r, 'd) buckets \<Rightarrow> string \<Rightarrow> 'r \<Rightarrow> 'd \<Rightarrow> nat list \<Rightarrow> bool \<times> ('r, 'd) buckets" where
  "huge_insert_loop bs element rv dt [] = (False, bs)"
| "huge_insert_loop bs element rv dt (i # is) =
     (case bs i of
        Null \<Rightarrow> (True, bs(i := Entry (NewAssoc element rv dt)))
      | Deleted \<Rightarrow> (True, bs(i := Entry (NewAssoc element rv dt)))
      | Entry a \<Rightarrow>
          if element = lval a then (False, bs) else huge_insert_loop bs element rv dt is)"

definition HugeHashInsertElement ::
  "('r, 'd) buckets \<Rightarrow> string \<Rightarrow> 'r \<Rightarrow> 'd \<Rightarrow> bool \<times> ('r, 'd) buckets" where
  "HugeHashInsertElement bs element rv dt =
     huge_insert_loop bs element rv dt (probes (bucket_of element))"

definition TinyHashInsertElement ::
  "('r, 'd) CfAssoc list \<Rightarrow> string \<Rightarrow> 'r \<Rightarrow> 'd \<Rightarrow> bool \<times> ('r, 'd) AssocHashTable" where
  "TinyHashInsertElement vals element rv dt =
     (if length vals = ASSOC_TINY_LIMIT
      then map_prod id Huge (HugeHashInsertElement (HashConvertToHuge vals) element rv dt)
      else
        (case find_index (\<lambda>a. lval a = element) vals of
           Some i \<Rightarrow> (False, Tiny vals)
         | None \<Rightarrow> (True, Tiny (vals @ [NewAssoc element rv dt]))))"

definition HashInsertElement ::
  "('r, 'd) AssocHashTable \<Rightarrow> string \<Rightarrow> 'r \<Rightarrow> 'd \<Rightarrow> bool \<times> ('r, 'd) AssocHashTable" where
  "HashInsertElement t element rv dt =
     (case t of
        Huge bs \<Rightarrow> map_prod id Huge (HugeHashInsertElement bs element rv dt)
      | Tiny vals \<Rightarrow> TinyHashInsertElement vals element rv dt)"

section \<open>Deletion\<close>

fun huge_delete_loop :: "('r, 'd) buckets \<Rightarrow> string \<Rightarrow> nat list \<Rightarrow> bool \<times> ('r, 'd) buckets" where
  "huge_delete_loop bs element [] = (False, bs)"
| "huge_delete_loop bs element (i # is) =
     (case bs i of
        Null \<Rightarrow> (False, bs)
      | Deleted \<Rightarrow> huge_delete_loop bs element is
      | Entry a \<Rightarrow>
          if element = lval a then (True, bs(i := Null)) else huge_delete_loop bs element is)"

definition HugeHashDeleteElement :: "('r, 'd) buckets \<Rightarrow> string \<Rightarrow> bool \<times> ('r, 'd) buckets" where
  "HugeHashDeleteElement bs element = huge_delete_loop bs element (probes (bucket_of element))"

definition TinyHashDeleteElement ::
  "('r, 'd) CfAssoc list \<Rightarrow> string \<Rightarrow> bool \<times> ('r, 'd) CfAssoc list" where
  "TinyHashDeleteElement vals element =
     (case find_index (\<lambda>a. lval a = element) vals of
        Some i \<Rightarrow> (True, remove_at i vals)
      | None \<Rightarrow> (False, vals))"

definition HashDeleteElement ::
  "('r, 'd) AssocHashTable \<Rightarrow> string \<Rightarrow> bool \<times> ('r, 'd) AssocHashTable" where
  "HashDeleteElement t element =
     (case t of
        Huge bs \<Rightarrow> map_prod id Huge (HugeHashDeleteElement bs element)
      | Tiny vals \<Rightarrow> map_prod id Tiny (TinyHashDeleteElement vals element))"

section \<open>Lookup\<close>

fun huge_lookup_loop ::
  "('r, 'd) buckets \<Rightarrow> string \<Rightarrow> nat list \<Rightarrow> ('r, 'd) CfAssoc option" where
  "huge_lookup_loop bs element [] = None"
| "huge_lookup_loop bs element (i # is) =
     (case bs i of
        Null \<Rightarrow> None
      | Deleted \<Rightarrow> huge_lookup_loop bs element is
      | Entry a \<Rightarrow> if element = lval a then Some a else huge_lookup_loop bs element is)"

definition HugeHashLookupElement :: "('r, 'd) buckets \<Rightarrow> string \<Rightarrow> ('r, 'd) CfAssoc option" where
  "HugeHashLookupElement bs element = huge_lookup_loop bs element (probes (bucket_of element))"

definition TinyHashLookupElement ::
  "('r, 'd) CfAssoc list \<Rightarrow> string \<Rightarrow> ('r, 'd) CfAssoc option" where
  "TinyHashLookupElement vals element =
     map_option (\<lambda>i. vals ! i) (find_index (\<lambda>a. lval a = element) vals)"

definition HashLookupElement ::
  "('r, 'd) AssocHashTable \<Rightarrow> string \<Rightarrow> ('r, 'd) CfAssoc option" where
  "HashLookupElement t element =
     (case t of
        Huge bs \<Rightarrow> HugeHashLookupElement bs element
      | Tiny vals \<Rightarrow> TinyHashLookupElement vals element)"

section \<open>Clearing and iterating\<close>

definition HashClear :: "('r, 'd) AssocHashTable \<Rightarrow> ('r, 'd) AssocHashTable" where
  "HashClear t =
     (case t of
        Huge bs \<Rightarrow> Huge (\<lambda>i. if i < CF_HASHTABLESIZE then Null else bs i)
      | Tiny vals \<Rightarrow> Tiny [])"

function next_entry :: "('r, 'd) buckets \<Rightarrow> nat \<Rightarrow> nat" where
  "next_entry bs pos =
     (if pos < CF_HASHTABLESIZE \<and> (bs pos = Null \<or> bs pos = Deleted)
      then next_entry bs (Suc pos) else pos)"
  by pat_completeness auto
termination
  by (relation "measure (\<lambda>(bs, pos). CF_HASHTABLESIZE - pos)") auto

declare next_entry.simps [simp del]

definition HugeHashIteratorNext ::
  "('r, 'd) buckets \<Rightarrow> nat \<Rightarrow> ('r, 'd) CfAssoc option \<times> nat" where
  "HugeHashIteratorNext bs pos =
     (let p = next_entry bs pos in
      if p = CF_HASHTABLESIZE then (None, p) else (slot_entry (bs p), Suc p))"

definition TinyHashIteratorNext ::
  "('r, 'd) CfAssoc list \<Rightarrow> nat \<Rightarrow> ('r, 'd) CfAssoc option \<times> nat" where
  "TinyHashIteratorNext vals pos =
     (if length vals \<le> pos then (None, pos) else (Some (vals ! pos), Suc pos))"

definition HashIteratorNext ::
  "('r, 'd) AssocHashTable \<Rightarrow> nat \<Rightarrow> ('r, 'd) CfAssoc option \<times> nat" where
  "HashIteratorNext t pos =
     (case t of
        Huge bs \<Rightarrow> HugeHashIteratorNext bs pos
      | Tiny vals \<Rightarrow> TinyHashIteratorNext vals pos)"

text \<open>What an iterator at \<open>pos\<close> has yet to return.\<close>

definition entries_from :: "('r, 'd) AssocHashTable \<Rightarrow> nat \<Rightarrow> ('r, 'd) CfAssoc list" where
  "entries_from t pos =
     (case t of
        Huge bs \<Rightarrow> List.map_filter (\<lambda>i. slot_entry (bs i)) [pos..<CF_HASHTABLESIZE]
      | Tiny vals \<Rightarrow> drop pos vals)"

lemma next_entry_filter:
  "pos \<le> CF_HASHTABLESIZE \<Longrightarrow>
   next_entry bs pos \<le> CF_HASHTABLESIZE \<and>
   List.map_filter (\<lambda>i. slot_entry (bs i)) [pos..<CF_HASHTABLESIZE] =
     List.map_filter (\<lambda>i. slot_entry (bs i)) [next_entry bs pos..<CF_HASHTABLESIZE] \<and>
   (next_entry bs pos < CF_HASHTABLESIZE \<longrightarrow> (\<exists>a. bs (next_entry bs pos) = Entry a))"
proof (induction bs pos rule: next_entry.induct)
  case (1 bs pos)
  show ?case
  proof (cases "pos < CF_HASHTABLESIZE \<and> (bs pos = Null \<or> bs pos = Deleted)")
    case True
    with 1 show ?thesis
      by (auto simp: next_entry.simps [of bs pos] upt_conv_Cons slot_entry_def map_filter_simps)
  next
    case False
    with "1.prems" show ?thesis
      by (cases "pos < CF_HASHTABLESIZE"; cases "bs pos") (auto simp: next_entry.simps [of bs pos] next_entry.simps [of bs CF_HASHTABLESIZE])
  qed
qed

lemma HashIteratorNext_entries:
  assumes "pos \<le> CF_HASHTABLESIZE \<or> (\<exists>vals. t = Tiny vals)"
  shows "(case HashIteratorNext t pos of
      (None, p) \<Rightarrow> entries_from t pos = []
    | (Some a, p) \<Rightarrow> entries_from t pos = a # entries_from t p \<and>
        (p \<le> CF_HASHTABLESIZE \<or> (\<exists>vals. t = Tiny vals)))"
proof (cases t)
  case (Tiny vals)
  then show ?thesis
    by (simp add: HashIteratorNext_def TinyHashIteratorNext_def entries_from_def Cons_nth_drop_Suc)
next
  case (Huge bs)
  with assms have "pos \<le> CF_HASHTABLESIZE" by auto
  from next_entry_filter [OF this, of bs] Huge show ?thesis
    by (cases "next_entry bs pos = CF_HASHTABLESIZE")
      (auto simp: HashIteratorNext_def HugeHashIteratorNext_def entries_from_def Let_def
        upt_conv_Cons map_filter_simps slot_entry_def split: slot.split)
qed


section \<open>Probing\<close>

lemma CF_HASHTABLESIZE_pos [simp]: "0 < CF_HASHTABLESIZE"
  by (simp add: CF_HASHTABLESIZE_def)

lemma bucket_of_less [simp]: "bucket_of element < CF_HASHTABLESIZE"
  using OatHash_less [of "of_nat CF_HASHTABLESIZE" element]
  by (simp add: bucket_of_def CF_HASHTABLESIZE_def)

lemma probes_less: "i \<in> set (probes b) \<Longrightarrow> i < CF_HASHTABLESIZE"
  by (auto simp: probes_def)

lemma probes_covers:
  assumes "b < CF_HASHTABLESIZE" "i < CF_HASHTABLESIZE"
  shows "i \<in> set (probes b)"
proof (cases "b \<le> i")
  case True
  then have "i = (b + (i - b)) mod CF_HASHTABLESIZE" using assms by simp
  moreover have "i - b < CF_HASHTABLESIZE" using assms by simp
  ultimately show ?thesis unfolding probes_def by force
next
  case False
  let ?j = "CF_HASHTABLESIZE - b + i"
  have "b + ?j = CF_HASHTABLESIZE + i" using assms False by simp
  then have "i = (b + ?j) mod CF_HASHTABLESIZE" using assms by simp
  moreover have "?j < CF_HASHTABLESIZE" using assms False by simp
  ultimately show ?thesis unfolding probes_def by force
qed

text \<open>
  The invariant of the hash table: no bucket is marked deleted, and the entry in bucket \<open>i\<close> is
  reached from the bucket of its name through entries with other names only.
\<close>

definition reached :: "('r, 'd) buckets \<Rightarrow> string \<Rightarrow> nat \<Rightarrow> bool" where
  "reached bs k i \<longleftrightarrow>
     (\<exists>us vs. probes (bucket_of k) = us @ i # vs \<and>
        (\<forall>u \<in> set us. \<exists>a. bs u = Entry a \<and> lval a \<noteq> k))"

definition probe_inv :: "('r, 'd) buckets \<Rightarrow> bool" where
  "probe_inv bs \<longleftrightarrow>
     (\<forall>i < CF_HASHTABLESIZE. bs i \<noteq> Deleted \<and> (\<forall>a. bs i = Entry a \<longrightarrow> reached bs (lval a) i))"

lemma lookup_prefix:
  "\<forall>u \<in> set us. \<exists>a. bs u = Entry a \<and> lval a \<noteq> k \<Longrightarrow>
   huge_lookup_loop bs k (us @ is) = huge_lookup_loop bs k is"
  by (induction us) (auto split: slot.splits)

lemma lookup_loop_Some:
  "huge_lookup_loop bs k is = Some a \<Longrightarrow> \<exists>i \<in> set is. bs i = Entry a \<and> lval a = k"
  by (induction "is") (auto split: slot.splits if_splits)

lemma HugeHashLookup_iff:
  assumes "probe_inv bs"
  shows "HugeHashLookupElement bs k = Some a \<longleftrightarrow> (\<exists>i < CF_HASHTABLESIZE. bs i = Entry a \<and> lval a = k)"
proof
  assume "HugeHashLookupElement bs k = Some a"
  then show "\<exists>i < CF_HASHTABLESIZE. bs i = Entry a \<and> lval a = k"
    unfolding HugeHashLookupElement_def using lookup_loop_Some probes_less by blast
next
  assume "\<exists>i < CF_HASHTABLESIZE. bs i = Entry a \<and> lval a = k"
  then obtain i where i: "i < CF_HASHTABLESIZE" "bs i = Entry a" "lval a = k" by blast
  with assms have "reached bs k i" by (auto simp: probe_inv_def)
  then obtain us vs where p: "probes (bucket_of k) = us @ i # vs"
    "\<forall>u \<in> set us. \<exists>a. bs u = Entry a \<and> lval a \<noteq> k"
    by (auto simp: reached_def)
  with i show "HugeHashLookupElement bs k = Some a"
    by (simp add: HugeHashLookupElement_def lookup_prefix)
qed

text \<open>Where an insertion ends: at the name, at a free bucket, or nowhere.\<close>

lemma huge_insert_loop_cases:
  assumes "\<forall>i \<in> set is. bs i \<noteq> Deleted"
  shows "(\<exists>us i vs. is = us @ i # vs \<and> (\<forall>u \<in> set us. \<exists>a. bs u = Entry a \<and> lval a \<noteq> k) \<and>
      (bs i = Null \<and> huge_insert_loop bs k rv dt is = (True, bs(i := Entry (NewAssoc k rv dt))) \<or>
       (\<exists>a. bs i = Entry a \<and> lval a = k) \<and> huge_insert_loop bs k rv dt is = (False, bs))) \<or>
    ((\<forall>i \<in> set is. \<exists>a. bs i = Entry a \<and> lval a \<noteq> k) \<and> huge_insert_loop bs k rv dt is = (False, bs))"
  using assms
proof (induction "is")
  case (Cons i "is")
  show ?case
  proof (cases "bs i")
    case Null
    then show ?thesis by (intro disjI1 exI [of _ "[]"]) (simp add: fun_upd_def)
  next
    case Deleted
    with Cons.prems show ?thesis by simp
  next
    case (Entry a)
    show ?thesis
    proof (cases "k = lval a")
      case True
      with Entry show ?thesis by (intro disjI1 exI [of _ "[]"]) simp
    next
      case False
      have IH: "(\<exists>us j vs. is = us @ j # vs \<and>
          (\<forall>u \<in> set us. \<exists>a. bs u = Entry a \<and> lval a \<noteq> k) \<and>
          (bs j = Null \<and> huge_insert_loop bs k rv dt is = (True, bs(j := Entry (NewAssoc k rv dt))) \<or>
           (\<exists>a. bs j = Entry a \<and> lval a = k) \<and> huge_insert_loop bs k rv dt is = (False, bs))) \<or>
        ((\<forall>i \<in> set is. \<exists>a. bs i = Entry a \<and> lval a \<noteq> k) \<and> huge_insert_loop bs k rv dt is = (False, bs))"
        by (rule Cons.IH) (use Cons.prems in simp)
      then show ?thesis
      proof (elim disjE exE conjE)
        fix us j vs
        assume "is = us @ j # vs" "\<forall>u \<in> set us. \<exists>a. bs u = Entry a \<and> lval a \<noteq> k"
          "bs j = Null" "huge_insert_loop bs k rv dt is = (True, bs(j := Entry (NewAssoc k rv dt)))"
        with Entry False show ?thesis by (intro disjI1 exI [of _ "i # us"]) auto
      next
        fix us j vs a'
        assume "is = us @ j # vs" "\<forall>u \<in> set us. \<exists>a. bs u = Entry a \<and> lval a \<noteq> k"
          "bs j = Entry a'" "lval a' = k" "huge_insert_loop bs k rv dt is = (False, bs)"
        with Entry False show ?thesis by (intro disjI1 exI [of _ "i # us"]) auto
      next
        assume "\<forall>i \<in> set is. \<exists>a. bs i = Entry a \<and> lval a \<noteq> k"
          "huge_insert_loop bs k rv dt is = (False, bs)"
        with Entry False show ?thesis by (intro disjI2) auto
      qed
    qed
  qed
qed simp

text \<open>Filling a free bucket reached for a new name keeps the invariant.\<close>

lemma probe_inv_put:
  assumes "probe_inv bs" "reached bs (lval a) i" "bs i = Null"
  shows "probe_inv (bs(i := Entry a))"
  unfolding probe_inv_def
proof (intro allI impI conjI)
  fix j assume j: "j < CF_HASHTABLESIZE"
  show "(bs(i := Entry a)) j \<noteq> Deleted" using assms(1) j by (auto simp: probe_inv_def)
  fix b assume b: "(bs(i := Entry a)) j = Entry b"
  have "reached bs (lval b) j"
    using assms(1,2) b j by (cases "j = i") (auto simp: probe_inv_def)
  then obtain us vs where p: "probes (bucket_of (lval b)) = us @ j # vs"
    "\<forall>u \<in> set us. \<exists>c. bs u = Entry c \<and> lval c \<noteq> lval b"
    unfolding reached_def by blast
  moreover from p(2) assms(3) have "i \<notin> set us" by force
  ultimately have "\<forall>u \<in> set us. \<exists>c. (bs(i := Entry a)) u = Entry c \<and> lval c \<noteq> lval b" by auto
  with p(1) show "reached (bs(i := Entry a)) (lval b) j" unfolding reached_def by blast
qed

lemma reached_less: "reached bs k i \<Longrightarrow> i < CF_HASHTABLESIZE"
  using probes_less [of i "bucket_of k"] by (auto simp: reached_def)

lemma lookup_put:
  assumes "probe_inv bs" "reached bs (lval a) i" "bs i = Null"
  shows "HugeHashLookupElement (bs(i := Entry a)) k =
    (if k = lval a then Some a else HugeHashLookupElement bs k)"
proof -
  note iff = HugeHashLookup_iff [OF probe_inv_put [OF assms]]
  show ?thesis
  proof (cases "k = lval a")
    case True
    then show ?thesis using iff [of k a] reached_less [OF assms(2)] by auto
  next
    case False
    then have "HugeHashLookupElement (bs(i := Entry a)) k = Some b \<longleftrightarrow> HugeHashLookupElement bs k = Some b"
      for b
      unfolding iff HugeHashLookup_iff [OF assms(1)] using assms(3) by (auto simp: fun_upd_def)
    with False show ?thesis by (metis not_Some_eq)
  qed
qed

definition occupied :: "('r, 'd) buckets \<Rightarrow> nat" where
  "occupied bs = card {i. i < CF_HASHTABLESIZE \<and> bs i \<noteq> Null}"

lemma occupied_put: "occupied (bs(i := s)) \<le> Suc (occupied bs)"
proof -
  have "{j. j < CF_HASHTABLESIZE \<and> (bs(i := s)) j \<noteq> Null} \<subseteq>
      insert i {j. j < CF_HASHTABLESIZE \<and> bs j \<noteq> Null}" by auto
  then have "occupied (bs(i := s)) \<le> card (insert i {j. j < CF_HASHTABLESIZE \<and> bs j \<noteq> Null})"
    unfolding occupied_def by (intro card_mono) auto
  also have "\<dots> \<le> Suc (occupied bs)"
    unfolding occupied_def by (intro card_insert_le_m1) auto
  finally show ?thesis .
qed

lemma free_bucket:
  assumes "occupied bs < CF_HASHTABLESIZE"
  shows "\<exists>i \<in> set (probes (bucket_of k)). bs i = Null"
proof (rule ccontr)
  assume "\<not> ?thesis"
  then have "{i. i < CF_HASHTABLESIZE \<and> bs i \<noteq> Null} = {..<CF_HASHTABLESIZE}"
    using probes_covers [OF bucket_of_less] by auto
  with assms show False by (simp add: occupied_def)
qed

lemma HugeHashInsertElement_laws:
  assumes inv: "probe_inv bs" and room: "occupied bs < CF_HASHTABLESIZE"
  shows "probe_inv (snd (HugeHashInsertElement bs k rv dt))"
    and "occupied (snd (HugeHashInsertElement bs k rv dt)) \<le> Suc (occupied bs)"
    and "fst (HugeHashInsertElement bs k rv dt) \<longleftrightarrow> HugeHashLookupElement bs k = None"
    and "HugeHashLookupElement (snd (HugeHashInsertElement bs k rv dt)) k' =
      (if k' = k \<and> HugeHashLookupElement bs k = None then Some (NewAssoc k rv dt)
       else HugeHashLookupElement bs k')"
proof -
  let ?p = "probes (bucket_of k)"
  have nd: "\<forall>i \<in> set ?p. bs i \<noteq> Deleted" using inv probes_less by (auto simp: probe_inv_def)
  have "\<not> (\<forall>i \<in> set ?p. \<exists>a. bs i = Entry a \<and> lval a \<noteq> k)"
    using free_bucket [OF room, of k] by fastforce
  then consider
      (fresh) us i vs where "?p = us @ i # vs" "\<forall>u \<in> set us. \<exists>a. bs u = Entry a \<and> lval a \<noteq> k"
        "bs i = Null" "HugeHashInsertElement bs k rv dt = (True, bs(i := Entry (NewAssoc k rv dt)))"
    | (present) us i vs a where "?p = us @ i # vs" "\<forall>u \<in> set us. \<exists>a. bs u = Entry a \<and> lval a \<noteq> k"
        "bs i = Entry a" "lval a = k" "HugeHashInsertElement bs k rv dt = (False, bs)"
    using huge_insert_loop_cases [OF nd, of k rv dt] unfolding HugeHashInsertElement_def by blast
  then have "probe_inv (snd (HugeHashInsertElement bs k rv dt)) \<and>
    occupied (snd (HugeHashInsertElement bs k rv dt)) \<le> Suc (occupied bs) \<and>
    (fst (HugeHashInsertElement bs k rv dt) \<longleftrightarrow> HugeHashLookupElement bs k = None) \<and>
    HugeHashLookupElement (snd (HugeHashInsertElement bs k rv dt)) k' =
      (if k' = k \<and> HugeHashLookupElement bs k = None then Some (NewAssoc k rv dt)
       else HugeHashLookupElement bs k')"
  proof cases
    case fresh
    then have r: "reached bs (lval (NewAssoc k rv dt)) i" unfolding reached_def by auto
    have "HugeHashLookupElement bs k = None"
      using fresh by (simp add: HugeHashLookupElement_def lookup_prefix)
    with fresh r show ?thesis
      using probe_inv_put [OF inv r] lookup_put [OF inv r, of k'] occupied_put [of bs] by simp
  next
    case present
    then have "HugeHashLookupElement bs k = Some a"
      by (simp add: HugeHashLookupElement_def lookup_prefix)
    with present inv show ?thesis by simp
  qed
  then show "probe_inv (snd (HugeHashInsertElement bs k rv dt))"
    "occupied (snd (HugeHashInsertElement bs k rv dt)) \<le> Suc (occupied bs)"
    "fst (HugeHashInsertElement bs k rv dt) \<longleftrightarrow> HugeHashLookupElement bs k = None"
    "HugeHashLookupElement (snd (HugeHashInsertElement bs k rv dt)) k' =
      (if k' = k \<and> HugeHashLookupElement bs k = None then Some (NewAssoc k rv dt)
       else HugeHashLookupElement bs k')" by blast+
qed


section \<open>Conversion\<close>

lemma first_null_reached:
  assumes "\<forall>i \<in> set is. \<forall>a. bs i = Entry a \<longrightarrow> lval a \<noteq> k" "\<forall>i \<in> set is. bs i \<noteq> Deleted"
    "\<exists>i \<in> set is. bs i = Null"
  shows "\<exists>i us vs. first_null bs is = Some i \<and> bs i = Null \<and> is = us @ i # vs \<and>
    (\<forall>u \<in> set us. \<exists>a. bs u = Entry a \<and> lval a \<noteq> k)"
  using assms
proof (induction "is")
  case (Cons i "is")
  show ?case
  proof (cases "bs i = Null")
    case True
    then show ?thesis by (intro exI [of _ i] exI [of _ "[]"] exI [of _ "is"]) simp
  next
    case False
    with Cons.prems obtain a where a: "bs i = Entry a" "lval a \<noteq> k" by (cases "bs i") auto
    from Cons False obtain j us vs where "first_null bs is = Some j" "bs j = Null" "is = us @ j # vs"
      "\<forall>u \<in> set us. \<exists>a. bs u = Entry a \<and> lval a \<noteq> k" by auto
    with a False show ?thesis
      by (intro exI [of _ j] exI [of _ "i # us"] exI [of _ vs]) auto
  qed
qed simp

lemma put_fresh_laws:
  assumes inv: "probe_inv bs" and room: "occupied bs < CF_HASHTABLESIZE"
    and new: "HugeHashLookupElement bs (lval a) = None"
  shows "probe_inv (put_fresh bs a) \<and> occupied (put_fresh bs a) \<le> Suc (occupied bs) \<and>
    (\<forall>k. HugeHashLookupElement (put_fresh bs a) k =
       (if k = lval a then Some a else HugeHashLookupElement bs k))"
proof -
  let ?p = "probes (bucket_of (lval a))"
  have "bs i = Entry b \<Longrightarrow> i < CF_HASHTABLESIZE \<Longrightarrow> lval b \<noteq> lval a" for i b
    using HugeHashLookup_iff [OF inv, of "lval a" b] new by auto
  then obtain i us vs where i: "first_null bs ?p = Some i" "bs i = Null" "?p = us @ i # vs"
    "\<forall>u \<in> set us. \<exists>b. bs u = Entry b \<and> lval b \<noteq> lval a"
    using first_null_reached [of ?p bs "lval a"] free_bucket [OF room] inv probes_less
    by (auto simp: probe_inv_def)
  then have r: "reached bs (lval a) i" unfolding reached_def by blast
  from i(1) have "put_fresh bs a = bs(i := Entry a)" by (simp add: put_fresh_def)
  then show ?thesis
    using probe_inv_put [OF inv r i(2)] lookup_put [OF inv r i(2)] occupied_put [of bs] by simp
qed

lemma put_all_laws:
  "probe_inv bs \<Longrightarrow> distinct (map lval as) \<Longrightarrow> occupied bs + length as \<le> CF_HASHTABLESIZE \<Longrightarrow>
   \<forall>a \<in> set as. HugeHashLookupElement bs (lval a) = None \<Longrightarrow>
   probe_inv (foldl put_fresh bs as) \<and>
   occupied (foldl put_fresh bs as) \<le> occupied bs + length as \<and>
   (\<forall>k. HugeHashLookupElement (foldl put_fresh bs as) k =
      (case TinyHashLookupElement as k of Some a \<Rightarrow> Some a | None \<Rightarrow> HugeHashLookupElement bs k))"
proof (induction as arbitrary: bs)
  case Nil
  then show ?case by (simp add: TinyHashLookupElement_def)
next
  case (Cons a as)
  have put: "probe_inv (put_fresh bs a) \<and> occupied (put_fresh bs a) \<le> Suc (occupied bs) \<and>
    (\<forall>k. HugeHashLookupElement (put_fresh bs a) k =
       (if k = lval a then Some a else HugeHashLookupElement bs k))"
    using Cons.prems by (intro put_fresh_laws) auto
  have ne: "lval x \<noteq> lval a" if "x \<in> set as" for x
  proof
    assume "lval x = lval a"
    with imageI [OF that, of lval] Cons.prems(2) show False by simp
  qed
  have IH: "probe_inv (foldl put_fresh (put_fresh bs a) as) \<and>
     occupied (foldl put_fresh (put_fresh bs a) as) \<le> occupied (put_fresh bs a) + length as \<and>
     (\<forall>k. HugeHashLookupElement (foldl put_fresh (put_fresh bs a) as) k =
        (case TinyHashLookupElement as k of Some b \<Rightarrow> Some b
         | None \<Rightarrow> HugeHashLookupElement (put_fresh bs a) k))"
    using Cons.prems put ne by (intro Cons.IH) auto
  have "TinyHashLookupElement as (lval a) = None"
    using ne by (simp add: TinyHashLookupElement_def find_index_None)
  moreover have "TinyHashLookupElement (a # as) k =
      (if k = lval a then Some a else TinyHashLookupElement as k)" for k
    by (cases "find_index (\<lambda>a. lval a = k) as") (auto simp: TinyHashLookupElement_def)
  ultimately show ?case using IH put by (auto split: option.split)
qed

lemma empty_buckets:
  "probe_inv (\<lambda>_. Null)" "occupied (\<lambda>_. Null) = 0" "HugeHashLookupElement (\<lambda>_. Null) k = None"
proof -
  show "probe_inv (\<lambda>_. Null)" by (simp add: probe_inv_def)
  show "occupied (\<lambda>_. Null) = 0" by (simp add: occupied_def)
  have "huge_lookup_loop (\<lambda>_. Null) k is = None" for "is" by (cases "is") simp_all
  then show "HugeHashLookupElement (\<lambda>_. Null) k = None" by (simp add: HugeHashLookupElement_def)
qed

lemma HashConvertToHuge_laws:
  assumes "distinct (map lval vals)" "length vals \<le> CF_HASHTABLESIZE"
  shows "probe_inv (HashConvertToHuge vals)" "occupied (HashConvertToHuge vals) \<le> length vals"
    "HugeHashLookupElement (HashConvertToHuge vals) k = TinyHashLookupElement vals k"
  using put_all_laws [of "\<lambda>_. Null" vals] assms
  by (auto simp: HashConvertToHuge_def empty_buckets split: option.splits)

section \<open>The table as a partial function\<close>

text \<open>
  The invariant of a table, with room for \<open>n\<close> more insertions.
\<close>

definition table_room :: "nat \<Rightarrow> ('r, 'd) AssocHashTable \<Rightarrow> bool" where
  "table_room n t \<longleftrightarrow>
     (case t of
        Tiny vals \<Rightarrow> distinct (map lval vals) \<and> length vals \<le> ASSOC_TINY_LIMIT \<and>
          length vals + n \<le> CF_HASHTABLESIZE
      | Huge bs \<Rightarrow> probe_inv bs \<and> occupied bs + n \<le> CF_HASHTABLESIZE)"

text \<open>
  The interface a scope relies on: insertion of a new name succeeds, of a known name fails and
  changes nothing.
\<close>

locale assoc_iface =
  fixes insert :: "'t \<Rightarrow> string \<Rightarrow> 'r \<Rightarrow> 'd \<Rightarrow> bool \<times> 't"
    and lookup :: "'t \<Rightarrow> string \<Rightarrow> ('r, 'd) CfAssoc option"
    and room :: "nat \<Rightarrow> 't \<Rightarrow> bool"
  assumes room_insert: "room (Suc n) t \<Longrightarrow> room n (snd (insert t k rv dt))"
    and insert_new: "room (Suc n) t \<Longrightarrow> fst (insert t k rv dt) \<longleftrightarrow> lookup t k = None"
    and lookup_insert: "room (Suc n) t \<Longrightarrow> lookup (snd (insert t k rv dt)) k' =
      (if k' = k \<and> lookup t k = None then Some (NewAssoc k rv dt) else lookup t k')"
begin

text \<open>After a run of insertions the first one of each name is found.\<close>

lemma lookup_inserts:
  "room (length as) t \<Longrightarrow>
   lookup (foldl (\<lambda>t a. snd (insert t (lval a) (rval a) (dtype a))) t as) k =
     (case lookup t k of
        Some a \<Rightarrow> Some a
      | None \<Rightarrow> map_option (\<lambda>a. NewAssoc k (rval a) (dtype a)) (List.find (\<lambda>a. lval a = k) as))"
proof (induction as arbitrary: t)
  case (Cons a as)
  then have r: "room (Suc (length as)) t" by simp
  show ?case
    using Cons.IH [OF room_insert [OF r, of "lval a" "rval a" "dtype a"]] lookup_insert [OF r]
    by (auto split: option.split)
qed (auto split: option.split)

lemma room_inserts:
  "room (length as + n) t \<Longrightarrow>
   room n (foldl (\<lambda>t a. snd (insert t (lval a) (rval a) (dtype a))) t as)"
  by (induction as arbitrary: t) (auto simp: room_insert)

end

lemma HashInsertElement_laws:
  assumes "table_room (Suc n) t"
  shows "table_room n (snd (HashInsertElement t k rv dt)) \<and>
    (fst (HashInsertElement t k rv dt) \<longleftrightarrow> HashLookupElement t k = None) \<and>
    HashLookupElement (snd (HashInsertElement t k rv dt)) k' =
      (if k' = k \<and> HashLookupElement t k = None then Some (NewAssoc k rv dt)
       else HashLookupElement t k')"
proof (cases t)
  case (Huge bs)
  with assms have inv: "probe_inv bs" "occupied bs < CF_HASHTABLESIZE"
    "occupied bs + Suc n \<le> CF_HASHTABLESIZE" by (auto simp: table_room_def)
  show ?thesis
    using HugeHashInsertElement_laws [OF inv(1,2), of k rv dt] inv(3)
    by (simp add: Huge table_room_def HashInsertElement_def HashLookupElement_def)
next
  case (Tiny vals)
  with assms have d: "distinct (map lval vals)" and l: "length vals + Suc n \<le> CF_HASHTABLESIZE"
    "length vals \<le> ASSOC_TINY_LIMIT"
    by (auto simp: table_room_def)
  show ?thesis
  proof (cases "length vals = ASSOC_TINY_LIMIT")
    case True
    have "length vals \<le> CF_HASHTABLESIZE" using l by simp
    note conv = HashConvertToHuge_laws [OF d this]
    have "occupied (HashConvertToHuge vals) < CF_HASHTABLESIZE" using conv(2) l by simp
    note ins = HugeHashInsertElement_laws [OF conv(1) this, of k rv dt]
    from ins conv l True show ?thesis
      by (simp add: Tiny table_room_def HashInsertElement_def HashLookupElement_def
          TinyHashInsertElement_def)
  next
    case False
    show ?thesis
    proof (cases "find_index (\<lambda>a. lval a = k) vals")
      case (Some i)
      with False Tiny l d show ?thesis
        by (auto simp: table_room_def HashInsertElement_def HashLookupElement_def
            TinyHashInsertElement_def TinyHashLookupElement_def)
    next
      case None
      have "TinyHashLookupElement (vals @ [NewAssoc k rv dt]) k' =
          (if k' = k then Some (NewAssoc k rv dt) else TinyHashLookupElement vals k')"
        using find_None_all [of vals "\<lambda>a. lval a = k"] None
        by (auto simp: TinyHashLookupElement_def map_find_index find_append find_index_None
            split: option.split)
      moreover have "HashInsertElement t k rv dt = (True, Tiny (vals @ [NewAssoc k rv dt]))"
        using None False by (simp add: Tiny HashInsertElement_def TinyHashInsertElement_def)
      moreover have "TinyHashLookupElement vals k = None"
        using None by (simp add: TinyHashLookupElement_def)
      ultimately show ?thesis
        using None False l d
        by (auto simp: Tiny table_room_def HashLookupElement_def find_index_None)
    qed
  qed
qed

interpretation vars_table: assoc_iface HashInsertElement HashLookupElement table_room
  by unfold_locales (simp_all add: HashInsertElement_laws)


section \<open>Copying\<close>

text \<open>
  \<open>HashCopy\<close> inserts what the iterator returns, which by \<open>HashIteratorNext_entries\<close> is
  \<open>entries_from t 0\<close>.
\<close>

definition HashCopy ::
  "('r, 'd) AssocHashTable \<Rightarrow> ('r, 'd) AssocHashTable \<Rightarrow> ('r, 'd) AssocHashTable" where
  "HashCopy newhash oldhash =
     foldl (\<lambda>t a. snd (HashInsertElement t (lval a) (rval a) (dtype a))) newhash
       (entries_from oldhash 0)"

lemma length_map_filter_le: "length (List.map_filter f xs) \<le> length xs"
  by (induction xs) (auto simp: map_filter_simps split: option.split)

lemma set_map_filter_iff: "a \<in> set (List.map_filter f xs) \<longleftrightarrow> (\<exists>x \<in> set xs. f x = Some a)"
  by (induction xs) (auto simp: map_filter_simps split: option.split)

lemma slot_entry_iff: "slot_entry s = Some a \<longleftrightarrow> s = Entry a"
  by (cases s) (auto simp: slot_entry_def)

lemma lookup_entries:
  assumes "table_room n t"
  shows "HashLookupElement t k = List.find (\<lambda>a. lval a = k) (entries_from t 0)"
proof (cases t)
  case (Tiny vals)
  then show ?thesis
    by (simp add: HashLookupElement_def TinyHashLookupElement_def entries_from_def map_find_index)
next
  case (Huge bs)
  with assms have inv: "probe_inv bs" by (simp add: table_room_def)
  let ?es = "entries_from t 0"
  have mem: "a \<in> set ?es \<longleftrightarrow> (\<exists>i < CF_HASHTABLESIZE. bs i = Entry a)" for a
    by (auto simp: Huge entries_from_def set_map_filter_iff slot_entry_iff)
  have "HashLookupElement t k = Some a \<longleftrightarrow> a \<in> set ?es \<and> lval a = k" for a
    using HugeHashLookup_iff [OF inv, of k a] mem by (auto simp: Huge HashLookupElement_def)
  note iff = this
  show ?thesis
  proof (cases "List.find (\<lambda>a. lval a = k) ?es")
    case None
    then have "HashLookupElement t k \<noteq> Some a" for a by (auto simp: iff find_None_iff)
    with None show ?thesis by (cases "HashLookupElement t k") auto
  next
    case (Some a)
    then have "a \<in> set ?es \<and> lval a = k" by (auto simp: find_Some_iff)
    with Some iff show ?thesis by auto
  qed
qed

lemma HashInit_room: "n \<le> CF_HASHTABLESIZE \<Longrightarrow> table_room n HashInit"
  by (simp add: table_room_def HashInit_def)

lemma HashInit_lookup: "HashLookupElement HashInit k = None"
  by (simp add: HashLookupElement_def HashInit_def TinyHashLookupElement_def)

lemma length_entries: "table_room n t \<Longrightarrow> length (entries_from t 0) \<le> CF_HASHTABLESIZE"
  using length_map_filter_le [of _ "[0..<CF_HASHTABLESIZE]"]
  by (auto simp: table_room_def entries_from_def split: AssocHashTable.splits)

lemma find_copy:
  "map_option (\<lambda>a. NewAssoc k (rval a) (dtype a)) (List.find (\<lambda>a. lval a = k) as) =
     List.find (\<lambda>a. lval a = k) as"
  by (induction as) (auto simp: NewAssoc_def)

section \<open>Properties\<close>

text \<open>
  C18. A table of variables built by insertions alone is a partial function in which the first value
  of each name stays, up to 8192 insertions and so across the conversion to the hash table.
\<close>

theorem assoc_first_insert_wins:
  assumes "length as \<le> CF_HASHTABLESIZE"
  shows "HashLookupElement
      (foldl (\<lambda>t a. snd (HashInsertElement t (lval a) (rval a) (dtype a))) HashInit as) k =
    map_option (\<lambda>a. NewAssoc k (rval a) (dtype a)) (List.find (\<lambda>a. lval a = k) as)"
  using vars_table.lookup_inserts [OF HashInit_room [OF assms], of k] by (simp add: HashInit_lookup)

theorem assoc_first_insert_wins_witness:
  "HashLookupElement
      (foldl (\<lambda>t a. snd (HashInsertElement t (lval a) (rval a) (dtype a))) HashInit
        [NewAssoc ''x'' (1 :: nat) (), NewAssoc ''y'' 2 (), NewAssoc ''x'' 3 ()]) ''x'' =
    Some (NewAssoc ''x'' 1 ())"
  using assoc_first_insert_wins [of "[NewAssoc ''x'' (1 :: nat) (), NewAssoc ''y'' 2 (), NewAssoc ''x'' 3 ()]" "''x''"]
  by (simp add: CF_HASHTABLESIZE_def NewAssoc_def)

text \<open>
  A copy of a table finds what the table finds: \<open>HashCopy\<close> into an empty table keeps every
  lookup, whatever the shape of the two tables.
\<close>

theorem assoc_copy:
  assumes "table_room n t"
  shows "HashLookupElement (HashCopy HashInit t) k = HashLookupElement t k"
  using vars_table.lookup_inserts [OF HashInit_room [OF length_entries [OF assms]], of k]
  by (simp add: HashCopy_def HashInit_lookup find_copy lookup_entries [OF assms])

theorem assoc_copy_witness:
  "HashLookupElement (HashCopy HashInit (Tiny [NewAssoc ''x'' (1 :: nat) ()])) ''x'' =
     Some (NewAssoc ''x'' 1 ())"
proof -
  have "table_room 0 (Tiny [NewAssoc ''x'' (1 :: nat) ()])"
    by (simp add: table_room_def ASSOC_TINY_LIMIT_def CF_HASHTABLESIZE_def)
  from assoc_copy [OF this, of "''x''"] show ?thesis
    by (simp add: HashLookupElement_def TinyHashLookupElement_def)
qed

lemma probes_start:
  "\<exists>rest. probes b = b mod CF_HASHTABLESIZE # (Suc b) mod CF_HASHTABLESIZE # rest"
proof -
  have "1 < CF_HASHTABLESIZE" by (simp add: CF_HASHTABLESIZE_def)
  then have "[0..<CF_HASHTABLESIZE] = 0 # 1 # [2..<CF_HASHTABLESIZE]"
    by (simp add: upt_conv_Cons numeral_2_eq_2)
  then show ?thesis by (simp add: probes_def)
qed

text \<open>
  Deletion in the hash table loses other entries: with two names of the same bucket, inserted one
  after the other into free buckets, deleting the first makes the second unfindable, although it
  is still in the table, and a second entry for it can then be inserted.
\<close>

theorem huge_delete_loses_entry:
  assumes collide: "bucket_of a = bucket_of b" "a \<noteq> b"
    and free: "bs (bucket_of a) = Null" "bs (Suc (bucket_of a) mod CF_HASHTABLESIZE) = Null"
  shows "let t1 = snd (HashInsertElement (Huge bs) a ra da);
             t2 = snd (HashInsertElement t1 b rb db)
    in HashLookupElement t2 b = Some (NewAssoc b rb db) \<and>
       fst (HashDeleteElement t2 a) \<and>
       HashLookupElement (snd (HashDeleteElement t2 a)) b = None \<and>
       fst (HashInsertElement (snd (HashDeleteElement t2 a)) b rb db)"
proof -
  let ?h = "bucket_of b" let ?i = "Suc (bucket_of b) mod CF_HASHTABLESIZE"
  obtain rest where p: "probes ?h = ?h # ?i # rest"
    using probes_start [of ?h] by auto
  have ne: "?i \<noteq> ?h"
    using bucket_of_less [of b] by (cases "Suc ?h = CF_HASHTABLESIZE") (auto simp: CF_HASHTABLESIZE_def)
  let ?t2 = "Huge (bs(?h := Entry (NewAssoc a ra da), ?i := Entry (NewAssoc b rb db)))"
  have t2: "snd (HashInsertElement (snd (HashInsertElement (Huge bs) a ra da)) b rb db) = ?t2"
    using collide free ne p
    by (simp add: HashInsertElement_def HugeHashInsertElement_def)
  have d: "HashDeleteElement ?t2 a = (True, Huge (bs(?h := Null, ?i := Entry (NewAssoc b rb db))))"
    using collide ne p
    by (simp add: HashDeleteElement_def HugeHashDeleteElement_def fun_upd_twist)
  show ?thesis
    using collide ne p unfolding Let_def t2 d
    by (simp add: HashLookupElement_def HugeHashLookupElement_def HashInsertElement_def
        HugeHashInsertElement_def)
qed

theorem huge_delete_loses_entry_witness:
  "let t1 = snd (HashInsertElement (Huge (\<lambda>_. Null)) ''bz'' (1 :: nat) ());
       t2 = snd (HashInsertElement t1 ''d1'' 2 ())
   in HashLookupElement t2 ''d1'' = Some (NewAssoc ''d1'' 2 ()) \<and>
      fst (HashDeleteElement t2 ''bz'') \<and>
      HashLookupElement (snd (HashDeleteElement t2 ''bz'')) ''d1'' = None \<and>
      fst (HashInsertElement (snd (HashDeleteElement t2 ''bz'')) ''d1'' 2 ())"
proof -
  have "bucket_of ''bz'' = bucket_of ''d1''"
    by (simp add: bucket_of_def OatHash_def OatHash_step_def OatHash_final_def CF_HASHTABLESIZE_def
        Let_def)
  then show ?thesis by (rule huge_delete_loses_entry) simp_all
qed

end
