(* ===== verification/Var_Expr.thy ===== *)
theory Var_Expr
  imports Prelude
begin

text \<open>
  Variable references, \<open>libpromises/var_expressions.c\<close>: \<open>ns:scope.lval[i][j]\<close> as written in
  policies, and \<open>ns*scope#lval[i]\<close> as mangled for the scope tables. The parser inherits the
  namespace and scope of its caller; the two printers are its inverses on well-formed
  references.

  An element of \<open>indices\<close> that the code leaves uninitialised is \<open>None\<close>; a failed \<open>assert\<close> of
  the parser is the result \<open>None\<close>. \<open>VarRefSetMeta\<close> is not modelled: it writes through freed
  memory.
\<close>

record VarRef =
  ns :: "string option"
  scope :: "string option"
  vlval :: string
  indices :: "string option list"

definition CF_NS :: char where
  "CF_NS = CHR '':''"

text \<open>The number of brackets opened and not closed after a prefix, and at the end.\<close>

fun bracket_count :: "string \<Rightarrow> int" where
  "bracket_count [] = 0"
| "bracket_count (c # cs) =
     (if c = CHR ''['' then 1 else 0) + (if c = CHR '']'' then -1 else 0) + bracket_count cs"

definition IndexBracketsBalance :: "string \<Rightarrow> bool" where
  "IndexBracketsBalance s \<longleftrightarrow> bracket_count s = 0"

definition IndexCount :: "string \<Rightarrow> nat" where
  "IndexCount s = length (filter (\<lambda>c. c = CHR ''['') s)"

text \<open>The loop over the characters after the first bracket.\<close>

fun index_loop :: "string \<Rightarrow> nat \<Rightarrow> string \<Rightarrow> string option list \<Rightarrow> string option list" where
  "index_loop [] cur_index buf inds = inds"
| "index_loop (c # cs) cur_index buf inds =
     (if c = CHR ''['' then index_loop cs (Suc cur_index) buf inds
      else if c = CHR '']'' then index_loop cs cur_index [] (inds[cur_index := Some buf])
      else index_loop cs cur_index (buf @ [c]) inds)"

text \<open>
  The separator at \<open>start + i\<close> counts only before the first bracket.
\<close>

definition before_indices :: "nat option \<Rightarrow> nat \<Rightarrow> bool" where
  "before_indices indices_start i = (case indices_start of None \<Rightarrow> True | Some j \<Rightarrow> i < j)"

text \<open>
  One of the two prefixes: the text from \<open>start\<close> up to the separator, if the separator is there,
  and where the rest starts.
\<close>

definition split_prefix :: "string \<Rightarrow> nat option \<Rightarrow> nat \<Rightarrow> char \<Rightarrow> string option \<times> nat" where
  "split_prefix q indices_start start separator =
     (case strchr (drop start q) separator of
        Some i \<Rightarrow>
          if before_indices indices_start (start + i)
          then (Some (substr q start (start + i)), Suc (start + i))
          else (None, start)
      | None \<Rightarrow> (None, start))"

definition VarRefParseFromNamespaceAndScope ::
  "string \<Rightarrow> string option \<Rightarrow> string option \<Rightarrow> char \<Rightarrow> char \<Rightarrow> VarRef option" where
  "VarRefParseFromNamespaceAndScope qualified_name ns0 scope0 ns_separator scope_separator =
     (let indices_start = strchr qualified_name CHR ''['';
          (nsp, scope_start) = split_prefix qualified_name indices_start 0 ns_separator;
          (scp, lval_start) = split_prefix qualified_name indices_start scope_start scope_separator;
          result = \<lparr>ns = (case nsp of Some _ \<Rightarrow> nsp | None \<Rightarrow> ns0),
                    scope = (case scp of Some _ \<Rightarrow> scp | None \<Rightarrow> scope0),
                    vlval = (case indices_start of
                        Some j \<Rightarrow> substr qualified_name lval_start j
                      | None \<Rightarrow> drop lval_start qualified_name),
                    indices = (case indices_start of
                        Some j \<Rightarrow>
                          index_loop (drop (Suc j) qualified_name) 0 []
                            (replicate (IndexCount (drop j qualified_name)) None)
                      | None \<Rightarrow> [])\<rparr>
      in
      if (case indices_start of
            Some j \<Rightarrow> \<not> IndexBracketsBalance (drop j qualified_name)
          | None \<Rightarrow> False)
         \<or> (scp = None \<and> scope0 = None \<and> nsp \<noteq> None)
      then None else Some result)"

definition VarRefParse :: "string \<Rightarrow> VarRef option" where
  "VarRefParse s = VarRefParseFromNamespaceAndScope s None None CF_NS CHR ''.''"

definition VarRefParseFromScope :: "string \<Rightarrow> string option \<Rightarrow> VarRef option" where
  "VarRefParseFromScope s scp =
     (case scp of
        None \<Rightarrow> VarRefParseFromNamespaceAndScope s None None CF_NS CHR ''.''
      | Some sc \<Rightarrow>
          (case strchr sc CF_NS of
             Some i \<Rightarrow>
               VarRefParseFromNamespaceAndScope s (Some (substr sc 0 i)) (Some (drop (Suc i) sc))
                 CF_NS CHR ''.''
           | None \<Rightarrow> VarRefParseFromNamespaceAndScope s None (Some sc) CF_NS CHR ''.''))"

text \<open>The bundle is given by its namespace and its name.\<close>

definition VarRefParseFromBundle :: "string \<Rightarrow> (string option \<times> string option) option \<Rightarrow> VarRef option"
where
  "VarRefParseFromBundle s bundle =
     (case bundle of
        Some (bns, bname) \<Rightarrow> VarRefParseFromNamespaceAndScope s bns bname CF_NS CHR ''.''
      | None \<Rightarrow> VarRefParse s)"

section \<open>Printing\<close>

definition show_index :: "string option \<Rightarrow> string" where
  "show_index i = ''['' @ (case i of Some s \<Rightarrow> s | None \<Rightarrow> []) @ '']''"

definition VarRefToString :: "VarRef \<Rightarrow> bool \<Rightarrow> string" where
  "VarRefToString ref qualified =
     (if qualified then
        (case ns ref of Some n \<Rightarrow> n @ '':'' | None \<Rightarrow> []) @
        (case scope ref of Some s \<Rightarrow> s @ ''.'' | None \<Rightarrow> [])
      else []) @
     vlval ref @ concat (map show_index (indices ref))"

definition VarRefMangle :: "VarRef \<Rightarrow> string" where
  "VarRefMangle ref =
     (let suffix = VarRefToString ref False in
      case scope ref of
        None \<Rightarrow> suffix
      | Some s \<Rightarrow>
          (case ns ref of
             Some n \<Rightarrow> n @ ''*'' @ s @ ''#'' @ suffix
           | None \<Rightarrow> s @ ''#'' @ suffix))"

definition VarRefDeMangle :: "string \<Rightarrow> VarRef option" where
  "VarRefDeMangle s = VarRefParseFromNamespaceAndScope s None None CHR ''*'' CHR ''#''"

definition VarRefIsQualified :: "VarRef \<Rightarrow> bool" where
  "VarRefIsQualified ref \<longleftrightarrow> scope ref \<noteq> None"

section \<open>Reading back the indices\<close>

definition no_brackets :: "string \<Rightarrow> bool" where
  "no_brackets s \<longleftrightarrow> CHR ''['' \<notin> set s \<and> CHR '']'' \<notin> set s"

lemma bracket_count_append [simp]: "bracket_count (s @ t) = bracket_count s + bracket_count t"
  by (induction s) auto

lemma bracket_count_none [simp]: "no_brackets s \<Longrightarrow> bracket_count s = 0"
  by (induction s) (auto simp: no_brackets_def)

lemma balance_indices:
  "\<forall>i \<in> set is. no_brackets i \<Longrightarrow>
   bracket_count (concat (map show_index (map Some is))) = 0 \<and>
   IndexCount (concat (map show_index (map Some is))) = length is"
proof (induction "is")
  case (Cons i "is")
  then have "filter (\<lambda>c. c = CHR ''['') i = []" by (auto simp: no_brackets_def filter_empty_conv)
  with Cons show ?case by (auto simp: show_index_def IndexCount_def)
qed (simp add: IndexCount_def)

lemma index_loop_plain:
  "no_brackets i \<Longrightarrow> index_loop (i @ cs) cur buf inds = index_loop cs cur (buf @ i) inds"
  by (induction i arbitrary: buf) (auto simp: no_brackets_def)

lemma index_loop_indices:
  "\<forall>i \<in> set is. no_brackets i \<Longrightarrow> length inds = Suc cur + length is \<Longrightarrow>
   index_loop (concat (map show_index (map Some is))) cur [] inds = take (Suc cur) inds @ map Some is"
proof (induction "is" arbitrary: cur inds)
  case (Cons i "is")
  have "index_loop (concat (map show_index (map Some (i # is)))) cur [] inds =
      index_loop (concat (map show_index (map Some is))) (Suc cur) [] (inds[Suc cur := Some i])"
    using Cons.prems by (simp add: show_index_def index_loop_plain)
  also have "\<dots> = take (Suc (Suc cur)) (inds[Suc cur := Some i]) @ map Some is"
    using Cons.prems by (intro Cons.IH) auto
  also have "take (Suc (Suc cur)) (inds[Suc cur := Some i]) = take (Suc cur) inds @ [Some i]"
    using Cons.prems by (simp add: take_Suc_conv_app_nth)
  finally show ?case by simp
qed simp

lemma index_loop_all:
  assumes "\<forall>i \<in> set (i # is). no_brackets i"
  shows "index_loop (i @ '']'' @ concat (map show_index (map Some is))) 0 []
      (replicate (Suc (length is)) None) = map Some (i # is)"
proof -
  have "index_loop (i @ '']'' @ concat (map show_index (map Some is))) 0 []
      (replicate (Suc (length is)) None) =
    index_loop (concat (map show_index (map Some is))) 0 [] (Some i # replicate (length is) None)"
    using assms by (simp add: index_loop_plain)
  also have "\<dots> = map Some (i # is)"
    using assms by (subst index_loop_indices) auto
  finally show ?thesis .
qed

section \<open>The parser reads back what the printers write\<close>

text \<open>
  A reference is well formed for two separators when no part contains what ends it: the
  namespace and scope no bracket and no separator, the name no bracket, and where a part is
  missing nothing later is taken for it.
\<close>

definition wf_ref :: "char \<Rightarrow> char \<Rightarrow> VarRef \<Rightarrow> bool" where
  "wf_ref nsep ssep ref \<longleftrightarrow>
     (\<exists>is. indices ref = map Some is \<and> (\<forall>i \<in> set is. no_brackets i)) \<and>
     CHR ''['' \<notin> set (vlval ref) \<and>
     (case ns ref of
        Some n \<Rightarrow> nsep \<notin> set n \<and> CHR ''['' \<notin> set n \<and> scope ref \<noteq> None
      | None \<Rightarrow> nsep \<notin> set (vlval ref) \<and> (\<forall>s. scope ref = Some s \<longrightarrow> nsep \<notin> set s)) \<and>
     (case scope ref of
        Some s \<Rightarrow> ssep \<notin> set s \<and> CHR ''['' \<notin> set s
      | None \<Rightarrow> ssep \<notin> set (vlval ref))"

definition render :: "char \<Rightarrow> char \<Rightarrow> VarRef \<Rightarrow> string" where
  "render nsep ssep ref =
     (case ns ref of Some n \<Rightarrow> n @ [nsep] | None \<Rightarrow> []) @
     (case scope ref of Some s \<Rightarrow> s @ [ssep] | None \<Rightarrow> []) @
     vlval ref @ concat (map show_index (indices ref))"

lemma split_prefix_found:
  assumes "c \<notin> set a" "before_indices ind (length pre + length a)"
  shows "split_prefix (pre @ a @ [c] @ b) ind (length pre) c = (Some a, length pre + length a + 1)"
proof -
  have "strchr (a @ c # b) c = Some (length a)" using assms(1) by simp
  with assms(2) show ?thesis by (simp add: split_prefix_def substr_def)
qed

lemma split_prefix_absent:
  assumes "c \<notin> set b" "ind = (if w = [] then None else Some (length pre + length b))"
  shows "split_prefix (pre @ b @ w) ind (length pre) c = (None, length pre)"
proof -
  have "strchr (b @ w) c = map_option (\<lambda>i. length b + i) (strchr w c)"
    using assms(1) by (rule strchr_append_right)
  with assms(2) show ?thesis
    by (cases w; cases "strchr w c") (auto simp: split_prefix_def before_indices_def)
qed

lemma strchr_bracket:
  assumes "CHR ''['' \<notin> set p"
  shows "strchr (p @ concat (map show_index is)) CHR ''['' =
    (if concat (map show_index is) = [] then None else Some (length p))"
  using strchr_append_right [OF assms, of "concat (map show_index is)"]
  by (cases "is") (auto simp: show_index_def)

text \<open>What is left once the two prefixes are split off.\<close>

lemma parse_rest:
  assumes "CHR ''['' \<notin> set (pre @ lv)" "\<forall>i \<in> set is. no_brackets i"
    and "q = pre @ lv @ concat (map show_index (map Some is))"
    and "strchr q CHR ''['' = ind"
    and "split_prefix q ind 0 nsep = (nsp, n)"
    and "split_prefix q ind n ssep = (scp, length pre)"
    and "scp = None \<longrightarrow> nsp = None"
  shows "VarRefParseFromNamespaceAndScope q None None nsep ssep =
    Some \<lparr>ns = nsp, scope = scp, vlval = lv, indices = map Some is\<rparr>"
proof (cases "is")
  case Nil
  then have "ind = None" using assms(1,3,4) by (auto simp: strchr_None)
  with Nil assms show ?thesis
    by (simp add: VarRefParseFromNamespaceAndScope_def split: option.split)
next
  case (Cons i js)
  let ?w = "concat (map show_index (map Some is))"
  have q: "q = (pre @ lv) @ ?w" using assms(3) by simp
  have ind: "ind = Some (length (pre @ lv))"
    using strchr_bracket [OF assms(1), of "map Some is"] assms(4) Cons by (simp add: q show_index_def)
  have drops: "drop (length (pre @ lv)) q = ?w"
    "drop (Suc (length (pre @ lv))) q = i @ '']'' @ concat (map show_index (map Some js))"
    using Cons by (simp_all add: q show_index_def)
  have lv: "substr q (length pre) (length (pre @ lv)) = lv" by (simp add: q substr_def)
  have bal: "IndexBracketsBalance ?w" "IndexCount ?w = Suc (length js)"
    using balance_indices [OF assms(2)] Cons by (simp_all add: IndexBracketsBalance_def)
  have loop: "index_loop (i @ '']'' @ concat (map show_index (map Some js))) 0 []
      (replicate (Suc (length js)) None) = map Some is"
    using index_loop_all [of i js] assms(2) Cons by simp
  show ?thesis
    using assms(5-7) bal loop lv drops
    by (simp add: VarRefParseFromNamespaceAndScope_def assms(4) ind split: option.split)
qed

lemma parse_render:
  assumes wf: "wf_ref nsep ssep ref"
    and seps: "nsep \<noteq> CHR ''[''" "ssep \<noteq> CHR ''[''" "nsep \<noteq> ssep"
  shows "VarRefParseFromNamespaceAndScope (render nsep ssep ref) None None nsep ssep = Some ref"
proof -
  from wf obtain idx where idx: "indices ref = map Some idx" "\<forall>i \<in> set idx. no_brackets i"
    by (auto simp: wf_ref_def)
  define w where "w = concat (map show_index (map Some idx))"
  define n where "n = (case ns ref of Some n \<Rightarrow> n @ [nsep] | None \<Rightarrow> [])"
  define s where "s = (case scope ref of Some s \<Rightarrow> s @ [ssep] | None \<Rightarrow> [])"
  define q where "q = n @ s @ vlval ref @ w"
  define ind where "ind = (if w = [] then None else Some (length (n @ s @ vlval ref)))"
  have nb: "CHR ''['' \<notin> set ((n @ s) @ vlval ref)"
    using wf seps by (auto simp: wf_ref_def n_def s_def split: option.splits)
  have ind: "strchr q CHR ''['' = ind"
    using strchr_bracket [OF nb, of "map Some idx"] by (simp add: q_def ind_def w_def)
  have first: "split_prefix q ind 0 nsep = (ns ref, length n)"
  proof (cases "ns ref")
    case None
    then have "nsep \<notin> set (s @ vlval ref)"
      using wf seps by (auto simp: wf_ref_def s_def split: option.splits)
    moreover have "ind = (if w = [] then None else Some (length ([] :: string) + length (s @ vlval ref)))"
      using None by (simp add: ind_def n_def)
    ultimately have "split_prefix ([] @ (s @ vlval ref) @ w) ind (length ([] :: string)) nsep =
      (None, length ([] :: string))"
      by (rule split_prefix_absent)
    with None show ?thesis by (simp add: q_def n_def)
  next
    case (Some a)
    then have "nsep \<notin> set a" using wf by (auto simp: wf_ref_def split: option.splits)
    moreover have "before_indices ind (length a)"
      using Some by (simp add: ind_def before_indices_def n_def)
    ultimately show ?thesis
      using split_prefix_found [of nsep a ind "[]" "s @ vlval ref @ w"] Some
      by (simp add: q_def n_def)
  qed
  have second: "split_prefix q ind (length n) ssep = (scope ref, length (n @ s))"
  proof (cases "scope ref")
    case None
    then have "ssep \<notin> set (vlval ref)"
      using wf by (auto simp: wf_ref_def split: option.splits)
    moreover have "ind = (if w = [] then None else Some (length n + length (vlval ref)))"
      using None by (simp add: ind_def s_def)
    ultimately have "split_prefix (n @ vlval ref @ w) ind (length n) ssep = (None, length n)"
      by (rule split_prefix_absent)
    with None show ?thesis by (simp add: q_def s_def)
  next
    case (Some a)
    then have "ssep \<notin> set a" using wf by (auto simp: wf_ref_def split: option.splits)
    moreover have "before_indices ind (length n + length a)"
      using Some by (simp add: ind_def before_indices_def s_def)
    ultimately show ?thesis
      using split_prefix_found [of ssep a ind n "vlval ref @ w"] Some
      by (simp add: q_def s_def)
  qed
  have "scope ref = None \<longrightarrow> ns ref = None"
    using wf by (auto simp: wf_ref_def split: option.splits)
  from parse_rest [OF nb idx(2) _ ind first second this] idx(1)
  have "VarRefParseFromNamespaceAndScope q None None nsep ssep = Some ref"
    by (simp add: q_def w_def)
  moreover have "render nsep ssep ref = q"
    by (simp add: render_def q_def n_def s_def w_def idx(1))
  ultimately show ?thesis by simp
qed

lemma VarRefToString_render: "VarRefToString ref True = render CF_NS CHR ''.'' ref"
  by (simp add: VarRefToString_def render_def CF_NS_def)

lemma VarRefMangle_render:
  "scope ref = None \<longrightarrow> ns ref = None \<Longrightarrow> VarRefMangle ref = render CHR ''*'' CHR ''#'' ref"
  by (auto simp: VarRefMangle_def VarRefToString_def render_def split: option.splits)

lemma wf_ref_scope: "wf_ref nsep ssep ref \<Longrightarrow> scope ref = None \<longrightarrow> ns ref = None"
  by (auto simp: wf_ref_def split: option.splits)

section \<open>Properties\<close>

definition example_ref :: VarRef where
  "example_ref = \<lparr>ns = Some ''ns'', scope = Some ''b'', vlval = ''a.x'',
     indices = [Some ''i'', Some ''j:k'']\<rparr>"



text \<open>Demangling a mangled reference gives the reference back, for references whose
  parts keep clear of the two mangling characters and of brackets; names with dots and colons
  are allowed.\<close>

theorem var_ref_mangle_roundtrip:
  assumes "wf_ref CHR ''*'' CHR ''#'' ref"
  shows "VarRefDeMangle (VarRefMangle ref) = Some ref"
  using parse_render [OF assms] VarRefMangle_render [OF wf_ref_scope [OF assms]]
  by (simp add: VarRefDeMangle_def)

theorem var_ref_mangle_roundtrip_witness:
  "VarRefDeMangle ''ns*b#a.x[i][j:k]'' = Some example_ref"
proof -
  have "wf_ref CHR ''*'' CHR ''#'' example_ref"
    by (auto simp: wf_ref_def example_ref_def no_brackets_def
        intro!: exI [of _ "[''i'', ''j:k'']"])
  from var_ref_mangle_roundtrip [OF this] show ?thesis
    by (simp add: example_ref_def VarRefMangle_def VarRefToString_def show_index_def)
qed

end
