(* ===== verification/Linked_List.thy ===== *)
theory Linked_List
  imports Prelude "HOL-Library.Monad_Syntax"
begin

text \<open>
  Singly linked lists in memory: \<open>Item\<close> and \<open>Rlist\<close> are chains of heap cells joined by a
  \<open>next\<close> pointer. A pointer is an \<open>'a option\<close> (\<open>None\<close> is \<open>NULL\<close>); following the link
  of a cell is a partial function, undefined where no cell is allocated. \<open>lseg f p xs q\<close> says
  that the cells \<open>xs\<close> are what the loop \<open>for (ip = p; ip != q; ip = ip->next)\<close> visits.

  The locale \<open>linked\<close> is the contract of the two callbacks by which the generic sorting code
  reads and writes links.
\<close>

type_synonym 'a links = "'a \<Rightarrow> 'a option option"

fun lseg :: "'a links \<Rightarrow> 'a option \<Rightarrow> 'a list \<Rightarrow> 'a option \<Rightarrow> bool" where
  "lseg f p [] q \<longleftrightarrow> p = q"
| "lseg f p (x # xs) q \<longleftrightarrow> p = Some x \<and> (\<exists>n. f x = Some n \<and> lseg f n xs q)"

lemma lseg_append [simp]: "lseg f p (xs @ ys) q \<longleftrightarrow> (\<exists>r. lseg f p xs r \<and> lseg f r ys q)"
  by (induction xs arbitrary: p) auto

lemma lseg_cong: "\<forall>x \<in> set xs. f x = g x \<Longrightarrow> lseg f p xs q = lseg g p xs q"
  by (induction xs arbitrary: p) auto

lemma lseg_upd [simp]: "a \<notin> set xs \<Longrightarrow> lseg (f(a := n)) p xs q = lseg f p xs q"
  by (rule lseg_cong) auto

lemma lseg_None_iff [simp]: "lseg f None xs None \<longleftrightarrow> xs = []"
  by (cases xs) auto

lemma lseg_alloc: "lseg f p xs q \<Longrightarrow> x \<in> set xs \<Longrightarrow> f x \<noteq> None"
  by (induction xs arbitrary: p) auto

lemma lseg_det: "lseg f p xs None \<Longrightarrow> lseg f p ys None \<Longrightarrow> xs = ys"
proof (induction xs arbitrary: p ys)
  case (Cons x xs)
  then show ?case by (cases ys) auto
qed (cases ys, auto)

lemma lseg_distinct: "lseg f p xs None \<Longrightarrow> distinct xs"
proof (induction xs arbitrary: p)
  case (Cons x xs)
  then obtain n where n: "f x = Some n" "lseg f n xs None" by auto
  have "x \<notin> set xs"
  proof
    assume "x \<in> set xs"
    then obtain us vs where "xs = us @ x # vs" by (auto dest: split_list)
    with n have "lseg f (Some x) (x # vs) None" "lseg f (Some x) (x # xs) None" by auto
    then have "x # vs = x # xs" by (rule lseg_det)
    with \<open>xs = us @ x # vs\<close> show False by simp
  qed
  with Cons n show ?case by auto
qed simp

lemma lseg_head: "lseg f p xs None \<Longrightarrow> p = (case xs of [] \<Rightarrow> None | x # _ \<Rightarrow> Some x)"
  by (cases xs) auto

lemma lseg_Some: "lseg f (Some a) xs None \<Longrightarrow> \<exists>ys n. xs = a # ys \<and> f a = Some n \<and> lseg f n ys None"
  by (cases xs) auto

section \<open>Loops over a list\<close>

text \<open>
  \<open>for (ip = p; !stop(ip); ip = ip->next) { ... }\<close>. The body continues with a new value of the
  local variables (\<open>Inl\<close>) or leaves the loop with a result (\<open>Inr\<close>); a list that never reaches
  the stop, by a cycle or through \<open>NULL\<close>, gives \<open>None\<close>. The memory does not change in the loop.
\<close>

partial_function (option) for_list ::
  "'a links \<Rightarrow> ('a option \<Rightarrow> bool) \<Rightarrow> ('a \<Rightarrow> 's \<Rightarrow> ('s + 'r) option) \<Rightarrow> 'a option \<Rightarrow> 's \<Rightarrow> ('s + 'r) option"
where
  "for_list f stop body p s =
     (if stop p then Some (Inl s)
      else do {
        a \<leftarrow> p;
        r \<leftarrow> body a s;
        (case r of
           Inr v \<Rightarrow> Some (Inr v)
         | Inl s' \<Rightarrow> do { n \<leftarrow> f a; for_list f stop body n s' })
      })"

fun fold_list :: "('a \<Rightarrow> 's \<Rightarrow> ('s + 'r) option) \<Rightarrow> 'a list \<Rightarrow> 's \<Rightarrow> ('s + 'r) option" where
  "fold_list body [] s = Some (Inl s)"
| "fold_list body (x # xs) s =
     do {
       r \<leftarrow> body x s;
       (case r of Inr v \<Rightarrow> Some (Inr v) | Inl s' \<Rightarrow> fold_list body xs s')
     }"

lemma for_list_lseg:
  "lseg f p xs q \<Longrightarrow> stop q \<Longrightarrow> \<forall>x \<in> set xs. \<not> stop (Some x) \<Longrightarrow>
   for_list f stop body p s = fold_list body xs s"
proof (induction xs arbitrary: p s)
  case Nil
  then show ?case by (simp add: for_list.simps)
next
  case (Cons x xs)
  then show ?case
    by (subst for_list.simps) (auto intro!: Option.bind_cong split: sum.split)
qed

lemmas for_list_all = for_list_lseg [where q = None and stop = "\<lambda>p. p = None", simplified]

text \<open>Leaving the loop at the first element that satisfies \<open>P\<close>.\<close>

lemma fold_list_find:
  assumes "\<And>x. x \<in> set xs \<Longrightarrow> body x () = Some (if P x then Inr (g x) else Inl ())"
  shows "fold_list body xs () = Some (case List.find P xs of None \<Rightarrow> Inl () | Some x \<Rightarrow> Inr (g x))"
  using assms by (induction xs) auto

text \<open>Running through the whole list.\<close>

lemma fold_list_fold:
  assumes "\<And>x s. x \<in> set xs \<Longrightarrow> body x s = Some (Inl (g x s))"
  shows "fold_list body xs s = Some (Inl (fold g xs s))"
  using assms by (induction xs arbitrary: s) auto

section \<open>The link callbacks\<close>

locale linked =
  fixes get_next :: "'h \<Rightarrow> 'a links"
    and put_next :: "'h \<Rightarrow> 'a \<Rightarrow> 'a option \<Rightarrow> 'h option"
    and view :: "'h \<Rightarrow> 'a \<Rightarrow> 'v"
  assumes put_next: "get_next h a \<noteq> None \<Longrightarrow>
    \<exists>h'. put_next h a n = Some h' \<and> get_next h' = (get_next h)(a := Some n) \<and> view h' = view h"

end
