(* ===== verification/List_Sort.thy ===== *)
theory List_Sort
  imports Linked_List
begin

text \<open>
  The in-place merge sort of \<open>libpromises/sort.c\<close>. \<open>Sort\<close> relinks the cells of a list through
  two callbacks, in passes that merge runs of \<open>insize\<close> cells pairwise and double \<open>insize\<close>;
  dereferencing \<open>NULL\<close> or memory that is not allocated, and running forever, are the result
  \<open>None\<close>. \<open>insize\<close> and the counters are unbounded here; in C they are \<open>int\<close>, which lists of
  fewer than \<open>2 ^ 30\<close> cells do not overflow.

  The list functions below state what it computes: \<open>merge_runs\<close>, one pass \<open>pass\<close>, all passes
  \<open>sort_runs\<close>, and the sort \<open>rev_sort\<close> that inserts each element after its equals, so that equal
  elements end in the reverse of their order.
\<close>

section \<open>The code\<close>

text \<open>The loop that steps \<open>insize\<close> places along from \<open>p\<close>.\<close>

fun step_along :: "'a links \<Rightarrow> nat \<Rightarrow> 'a \<Rightarrow> nat \<Rightarrow> ('a option \<times> nat) option" where
  "step_along f 0 q psize = Some (Some q, psize)"
| "step_along f (Suc i) q psize =
     do {
       n \<leftarrow> f q;
       (case n of
          None \<Rightarrow> Some (None, Suc psize)
        | Some q' \<Rightarrow> step_along f i q' (Suc psize))
     }"

text \<open>Adding the next element to the merged list.\<close>

definition append_element ::
  "('h \<Rightarrow> 'a \<Rightarrow> 'a option \<Rightarrow> 'h option) \<Rightarrow> 'h \<Rightarrow> 'a option \<Rightarrow> 'a option \<Rightarrow> 'a \<Rightarrow>
   ('a option \<times> 'h) option" where
  "append_element put_next h lst tail e =
     (case tail of
        Some t \<Rightarrow> do { h' \<leftarrow> put_next h t (Some e); Some (lst, h') }
      | None \<Rightarrow> Some (Some e, h))"

text \<open>Which run the next element comes from: \<open>Some True\<close> for \<open>p\<close>.\<close>

definition pick_run ::
  "('h \<Rightarrow> 'a \<Rightarrow> 'a \<Rightarrow> bool option) \<Rightarrow> 'h \<Rightarrow> 'a option \<Rightarrow> nat \<Rightarrow> 'a option \<Rightarrow> nat \<Rightarrow> bool option"
where
  "pick_run lessp h p psize q qsize =
     (if psize = 0 then Some False
      else if qsize = 0 \<or> q = None then Some True
      else do { a \<leftarrow> p; b \<leftarrow> q; lessp h a b })"

function merge_loop ::
  "('h \<Rightarrow> 'a \<Rightarrow> 'a \<Rightarrow> bool option) \<Rightarrow> ('h \<Rightarrow> 'a links) \<Rightarrow> ('h \<Rightarrow> 'a \<Rightarrow> 'a option \<Rightarrow> 'h option) \<Rightarrow>
   'h \<Rightarrow> 'a option \<Rightarrow> nat \<Rightarrow> 'a option \<Rightarrow> nat \<Rightarrow> 'a option \<Rightarrow> 'a option \<Rightarrow>
   ('a option \<times> 'a option \<times> 'a option \<times> 'h) option" where
  "merge_loop lessp get_next put_next h p psize q qsize lst tail =
     (if psize > 0 \<or> (qsize > 0 \<and> q \<noteq> None) then
        do {
          from_p \<leftarrow> pick_run lessp h p psize q qsize;
          e \<leftarrow> (if from_p then p else q);
          n \<leftarrow> get_next h e;
          (lst', h') \<leftarrow> append_element put_next h lst tail e;
          (if from_p then merge_loop lessp get_next put_next h' n (psize - 1) q qsize lst' (Some e)
           else merge_loop lessp get_next put_next h' p psize n (qsize - 1) lst' (Some e))
        }
      else Some (q, lst, tail, h))"
  by pat_completeness auto
termination
  by (relation "measure (\<lambda>(_, _, _, _, _, psize, _, qsize, _). psize + qsize)")
    (auto simp: pick_run_def split: if_splits)

declare merge_loop.simps [simp del]

text \<open>One pass over the list, and the passes.\<close>

partial_function (option) merge_pass ::
  "('h \<Rightarrow> 'a \<Rightarrow> 'a \<Rightarrow> bool option) \<Rightarrow> ('h \<Rightarrow> 'a links) \<Rightarrow> ('h \<Rightarrow> 'a \<Rightarrow> 'a option \<Rightarrow> 'h option) \<Rightarrow>
   nat \<Rightarrow> 'h \<Rightarrow> 'a option \<Rightarrow> 'a option \<Rightarrow> 'a option \<Rightarrow> nat \<Rightarrow>
   ('a option \<times> 'a option \<times> nat \<times> 'h) option" where
  "merge_pass lessp get_next put_next insize h p lst tail nmerges =
     (case p of
        None \<Rightarrow> Some (lst, tail, nmerges, h)
      | Some a \<Rightarrow>
          do {
            (q, psize) \<leftarrow> step_along (get_next h) insize a 0;
            (q', lst', tail', h') \<leftarrow> merge_loop lessp get_next put_next h p psize q insize lst tail;
            merge_pass lessp get_next put_next insize h' q' lst' tail' (Suc nmerges)
          })"

partial_function (option) sort_passes ::
  "('h \<Rightarrow> 'a \<Rightarrow> 'a \<Rightarrow> bool option) \<Rightarrow> ('h \<Rightarrow> 'a links) \<Rightarrow> ('h \<Rightarrow> 'a \<Rightarrow> 'a option \<Rightarrow> 'h option) \<Rightarrow>
   nat \<Rightarrow> 'h \<Rightarrow> 'a option \<Rightarrow> ('a option \<times> 'h) option" where
  "sort_passes lessp get_next put_next insize h p =
     do {
       (lst, tail, nmerges, h') \<leftarrow> merge_pass lessp get_next put_next insize h p None None 0;
       t \<leftarrow> tail;
       h'' \<leftarrow> put_next h' t None;
       (if nmerges \<le> 1 then Some (lst, h'')
        else sort_passes lessp get_next put_next (insize * 2) h'' lst)
     }"

definition Sort ::
  "('h \<Rightarrow> 'a \<Rightarrow> 'a \<Rightarrow> bool option) \<Rightarrow> ('h \<Rightarrow> 'a links) \<Rightarrow> ('h \<Rightarrow> 'a \<Rightarrow> 'a option \<Rightarrow> 'h option) \<Rightarrow>
   'h \<Rightarrow> 'a option \<Rightarrow> ('a option \<times> 'h) option" where
  "Sort lessp get_next put_next h list =
     (if list = None then Some (None, h) else sort_passes lessp get_next put_next 1 h list)"

section \<open>What it computes on lists\<close>

fun merge_runs :: "('a \<Rightarrow> 'a \<Rightarrow> bool) \<Rightarrow> 'a list \<Rightarrow> 'a list \<Rightarrow> 'a list" where
  "merge_runs lt [] qs = qs"
| "merge_runs lt ps [] = ps"
| "merge_runs lt (p # ps) (q # qs) =
     (if lt p q then p # merge_runs lt ps (q # qs) else q # merge_runs lt (p # ps) qs)"

lemma merge_runs_Nil [simp]: "merge_runs lt ps [] = ps"
  by (cases ps) auto

lemma set_merge_runs [simp]: "set (merge_runs lt ps qs) = set ps \<union> set qs"
  by (induction lt ps qs rule: merge_runs.induct) auto

lemma mset_merge_runs [simp]: "mset (merge_runs lt ps qs) = mset ps + mset qs"
  by (induction lt ps qs rule: merge_runs.induct) auto

lemma distinct_merge_runs: "distinct (merge_runs lt ps qs) \<longleftrightarrow> distinct (ps @ qs)"
  by (metis mset_append mset_eq_imp_distinct_iff mset_merge_runs)

lemma merge_runs_eq_Nil [simp]: "merge_runs lt ps qs = [] \<longleftrightarrow> ps = [] \<and> qs = []"
  using set_merge_runs [of lt ps qs] by (metis Un_empty set_empty)

text \<open>One pass with runs of \<open>Suc n\<close> elements.\<close>

function pass :: "('a \<Rightarrow> 'a \<Rightarrow> bool) \<Rightarrow> nat \<Rightarrow> 'a list \<Rightarrow> 'a list" where
  "pass lt n xs =
     (if xs = [] \<or> n = 0 then []
      else merge_runs lt (take n xs) (take n (drop n xs)) @ pass lt n (drop n (drop n xs)))"
  by pat_completeness auto
termination
  by (relation "measure (\<lambda>(_, _, xs). length xs)") auto

declare pass.simps [simp del]

text \<open>How many merges it does.\<close>

function merges :: "nat \<Rightarrow> 'a list \<Rightarrow> nat" where
  "merges n xs = (if xs = [] \<or> n = 0 then 0 else Suc (merges n (drop n (drop n xs))))"
  by pat_completeness auto
termination
  by (relation "measure (\<lambda>(_, xs). length xs)") auto

declare merges.simps [simp del]

lemma merges_le_1: "n > 0 \<Longrightarrow> merges n xs \<le> 1 \<longleftrightarrow> length xs \<le> n + n"
  by (cases "xs = []"; cases "length xs \<le> n + n")
    (simp_all add: merges.simps [of n xs] merges.simps [of n "[]"] merges.simps [of n "drop (n + n) xs"])

fun ins_after :: "('a \<Rightarrow> 'a \<Rightarrow> bool) \<Rightarrow> 'a \<Rightarrow> 'a list \<Rightarrow> 'a list" where
  "ins_after lt x [] = [x]"
| "ins_after lt x (y # ys) = (if lt x y then x # y # ys else y # ins_after lt x ys)"

fun rev_sort :: "('a \<Rightarrow> 'a \<Rightarrow> bool) \<Rightarrow> 'a list \<Rightarrow> 'a list" where
  "rev_sort lt [] = []"
| "rev_sort lt (x # xs) = ins_after lt x (rev_sort lt xs)"

lemma mset_ins_after [simp]: "mset (ins_after lt x ys) = add_mset x (mset ys)"
  by (induction ys) auto

lemma mset_rev_sort [simp]: "mset (rev_sort lt xs) = mset xs"
  by (induction xs) auto

lemma set_ins_after [simp]: "set (ins_after lt x ys) = insert x (set ys)"
  by (induction ys) auto

lemma set_rev_sort [simp]: "set (rev_sort lt xs) = set xs"
  by (induction xs) auto

text \<open>The list cut into runs of \<open>n\<close>, each sorted.\<close>

function sorted_runs :: "('a \<Rightarrow> 'a \<Rightarrow> bool) \<Rightarrow> nat \<Rightarrow> 'a list \<Rightarrow> 'a list" where
  "sorted_runs lt n xs =
     (if xs = [] \<or> n = 0 then [] else rev_sort lt (take n xs) @ sorted_runs lt n (drop n xs))"
  by pat_completeness auto
termination
  by (relation "measure (\<lambda>(_, _, xs). length xs)") auto

declare sorted_runs.simps [simp del]

lemma length_rev_sort [simp]: "length (rev_sort lt xs) = length xs"
  by (metis mset_rev_sort size_mset)

lemma sorted_runs_Nil [simp]: "sorted_runs lt n [] = []"
  by (simp add: sorted_runs.simps)

lemma sorted_runs_Cons:
  "n > 0 \<Longrightarrow> xs \<noteq> [] \<Longrightarrow>
   sorted_runs lt n xs = rev_sort lt (take n xs) @ sorted_runs lt n (drop n xs)"
  by (subst sorted_runs.simps) simp

lemma length_sorted_runs [simp]: "n > 0 \<Longrightarrow> length (sorted_runs lt n xs) = length xs"
proof (induction xs rule: measure_induct_rule [of length])
  case (less xs)
  then show ?case by (cases "xs = []") (auto simp: sorted_runs_Cons min_def)
qed

lemma mset_sorted_runs [simp]: "n > 0 \<Longrightarrow> mset (sorted_runs lt n xs) = mset xs"
proof (induction xs rule: measure_induct_rule [of length])
  case (less xs)
  show ?case
  proof (cases "xs = []")
    case False
    with less have "mset (sorted_runs lt n xs) = mset (take n xs @ drop n xs)"
      by (simp add: sorted_runs_Cons del: append_take_drop_id)
    then show ?thesis by simp
  qed simp
qed

lemma sorted_runs_set:
  assumes "n > 0"
  shows "set (sorted_runs lt n xs) = set xs" "distinct (sorted_runs lt n xs) = distinct xs"
    "sorted_runs lt n xs = [] \<longleftrightarrow> xs = []"
  using mset_sorted_runs [OF assms, of lt xs] mset_eq_setD mset_eq_imp_distinct_iff
  by (blast, blast, metis mset_zero_iff)

lemma sorted_runs_short: "n > 0 \<Longrightarrow> length xs \<le> n \<Longrightarrow> sorted_runs lt n xs = rev_sort lt xs"
  by (cases "xs = []") (auto simp: sorted_runs_Cons)

lemma take_drop_sorted_runs:
  assumes "n > 0"
  shows "take n (sorted_runs lt n xs) = rev_sort lt (take n xs)"
    and "drop n (sorted_runs lt n xs) = sorted_runs lt n (drop n xs)"
proof -
  have "take n (sorted_runs lt n xs) = rev_sort lt (take n xs) \<and>
      drop n (sorted_runs lt n xs) = sorted_runs lt n (drop n xs)"
  proof (cases "length xs \<le> n")
    case True
    with assms show ?thesis by (simp add: sorted_runs_short)
  next
    case False
    with assms have "sorted_runs lt n xs = rev_sort lt (take n xs) @ sorted_runs lt n (drop n xs)"
      by (intro sorted_runs_Cons) auto
    with False show ?thesis by (simp add: min_def)
  qed
  then show "take n (sorted_runs lt n xs) = rev_sort lt (take n xs)"
    "drop n (sorted_runs lt n xs) = sorted_runs lt n (drop n xs)" by auto
qed

lemma sorted_runs_1: "sorted_runs lt (Suc 0) xs = xs"
proof (induction xs)
  case (Cons x xs)
  then show ?case by (simp add: sorted_runs_Cons)
qed simp

section \<open>Strict weak orders\<close>

definition equals :: "('v \<Rightarrow> 'v \<Rightarrow> bool) \<Rightarrow> 'v \<Rightarrow> 'v \<Rightarrow> bool" where
  "equals lt c x \<longleftrightarrow> \<not> lt c x \<and> \<not> lt x c"


locale weak_order =
  fixes lt :: "'v \<Rightarrow> 'v \<Rightarrow> bool"
  assumes irrefl: "\<not> lt x x"
    and trans: "lt x y \<Longrightarrow> lt y z \<Longrightarrow> lt x z"
    and neg_trans: "lt x z \<Longrightarrow> lt x y \<or> lt y z"
begin

lemma asym: "lt x y \<Longrightarrow> \<not> lt y x"
  using irrefl trans by blast

lemma merge_ins_after:
  "merge_runs lt (ins_after lt x ps) qs = ins_after lt x (merge_runs lt ps qs)"
proof (induction ps arbitrary: qs)
  case Nil
  show ?case by (induction qs) auto
next
  case (Cons p ps)
  note outer = Cons
  show ?case
  proof (induction qs)
    case Nil
    show ?case by simp
  next
    case (Cons q qs)
    show ?case
    proof (cases "lt x p")
      case True
      with Cons show ?thesis using trans by auto
    next
      case False
      with outer Cons show ?thesis using neg_trans by auto
    qed
  qed
qed

lemma merge_rev_sort: "merge_runs lt (rev_sort lt xs) (rev_sort lt ys) = rev_sort lt (xs @ ys)"
  by (induction xs) (simp_all add: merge_ins_after)

text \<open>A pass doubles the length of the sorted runs.\<close>

lemma pass_sorted_runs: "n > 0 \<Longrightarrow> pass lt n (sorted_runs lt n xs) = sorted_runs lt (n + n) xs"
proof (induction xs rule: measure_induct_rule [of length])
  case (less xs)
  show ?case
  proof (cases "xs = []")
    case False
    with less.prems have "sorted_runs lt n xs \<noteq> []"
      by (metis length_0_conv length_sorted_runs)
    moreover have "take n xs @ take n (drop n xs) = take (n + n) xs"
      by (simp add: take_add)
    moreover have "pass lt n (sorted_runs lt n (drop n (drop n xs))) =
        sorted_runs lt (n + n) (drop n (drop n xs))"
      using less.prems False by (intro less.IH) auto
    moreover have "drop n (drop n xs) = drop (n + n) xs" by simp
    ultimately show ?thesis
      using less.prems False
      by (simp add: pass.simps [of lt n "sorted_runs lt n xs"] sorted_runs_Cons [of "n + n" xs]
          take_drop_sorted_runs merge_rev_sort del: drop_drop)
  qed (simp add: pass.simps)
qed

text \<open>\<open>rev_sort\<close> sorts, and reverses equal elements.\<close>

lemma sorted_ins_after:
  "sorted_wrt (\<lambda>a b. \<not> lt b a) ys \<Longrightarrow> sorted_wrt (\<lambda>a b. \<not> lt b a) (ins_after lt x ys)"
proof (induction ys)
  case (Cons y ys)
  show ?case
  proof (cases "lt x y")
    case True
    then have "\<forall>z \<in> set ys. \<not> lt z x" using trans Cons.prems by auto
    with True Cons.prems asym show ?thesis by auto
  next
    case False
    with Cons show ?thesis by auto
  qed
qed simp

lemma sorted_rev_sort: "sorted_wrt (\<lambda>a b. \<not> lt b a) (rev_sort lt xs)"
  by (induction xs) (auto intro: sorted_ins_after)

lemma filter_ins_after:
  "sorted_wrt (\<lambda>a b. \<not> lt b a) ys \<Longrightarrow>
   filter (equals lt c) (ins_after lt x ys) = filter (equals lt c) ys @ filter (equals lt c) [x]"
proof (induction ys)
  case (Cons y ys)
  have "filter (equals lt c) (y # ys) = []" if "lt x y" "equals lt c x"
  proof -
    have "\<forall>z \<in> set (y # ys). lt x z" using Cons.prems neg_trans \<open>lt x y\<close> by auto
    then have "\<forall>z \<in> set (y # ys). lt c z" using \<open>equals lt c x\<close> neg_trans by (auto simp: equals_def)
    then show ?thesis by (auto simp: equals_def filter_empty_conv)
  qed
  with Cons show ?case by auto
qed simp

lemma equals_reversed: "filter (equals lt c) (rev_sort lt xs) = rev (filter (equals lt c) xs)"
  by (induction xs) (simp_all add: filter_ins_after sorted_rev_sort)

end

section \<open>The code computes it\<close>

lemma step_along:
  "lseg f (Some a) xs None \<Longrightarrow>
   step_along f n a k =
     (if n = 0 then Some (Some a, k)
      else Some (case drop n xs of [] \<Rightarrow> None | y # _ \<Rightarrow> Some y, k + length (take n xs)))"
proof (induction n arbitrary: a xs k)
  case (Suc n)
  then obtain ys m where xs: "xs = a # ys" "f a = Some m" "lseg f m ys None"
    by (auto dest: lseg_Some)
  show ?case
  proof (cases m)
    case None
    with xs show ?thesis by simp
  next
    case (Some b)
    with xs Suc.IH [of b ys "Suc k"] show ?thesis
      by (cases "n = 0") (auto dest: lseg_Some)
  qed
qed simp

locale sortable = linked get_next put_next view + weak_order lt
  for get_next :: "'h \<Rightarrow> 'a links"
    and put_next :: "'h \<Rightarrow> 'a \<Rightarrow> 'a option \<Rightarrow> 'h option"
    and view :: "'h \<Rightarrow> 'a \<Rightarrow> 'v"
    and lt :: "'v \<Rightarrow> 'v \<Rightarrow> bool" +
  fixes lessp :: "'h \<Rightarrow> 'a \<Rightarrow> 'a \<Rightarrow> bool option"
    and good :: "'v \<Rightarrow> bool"
  assumes lessp: "good (view h a) \<Longrightarrow> good (view h b) \<Longrightarrow> lessp h a b = Some (lt (view h a) (view h b))"
begin

lemma weak_view: "weak_order (\<lambda>a b. lt (view h a) (view h b))"
  by unfold_locales (use irrefl trans neg_trans in blast)+

text \<open>
  The merged list while it is built: the link of its last cell is not yet set.
\<close>

definition built :: "'h \<Rightarrow> 'a option \<Rightarrow> 'a option \<Rightarrow> 'a list \<Rightarrow> bool" where
  "built h lst tail m \<longleftrightarrow>
     (if m = [] then lst = None \<and> tail = None
      else tail = Some (last m) \<and> lseg (get_next h) lst (butlast m) tail \<and> get_next h (last m) \<noteq> None)"

text \<open>What an operation on the cells \<open>A\<close> leaves alone.\<close>

definition frame :: "'a set \<Rightarrow> 'h \<Rightarrow> 'h \<Rightarrow> bool" where
  "frame A h h' \<longleftrightarrow> view h' = view h \<and> (\<forall>a. a \<notin> A \<longrightarrow> get_next h' a = get_next h a) \<and>
     (\<forall>a. get_next h a \<noteq> None \<longrightarrow> get_next h' a \<noteq> None)"

lemma frame_refl [simp]: "frame A h h"
  by (simp add: frame_def)

lemma frame_trans: "frame A h h' \<Longrightarrow> frame B h' h'' \<Longrightarrow> A \<subseteq> C \<Longrightarrow> B \<subseteq> C \<Longrightarrow> frame C h h''"
  unfolding frame_def by (metis subset_iff)

lemma frame_lseg: "frame A h h' \<Longrightarrow> set xs \<inter> A = {} \<Longrightarrow> lseg (get_next h') p xs q = lseg (get_next h) p xs q"
  by (rule lseg_cong) (auto simp: frame_def)

lemma append_built:
  assumes "built h lst tail m" "get_next h e \<noteq> None" "e \<notin> set m" "distinct m"
  shows "\<exists>lst' h'. append_element put_next h lst tail e = Some (lst', h') \<and>
    built h' lst' (Some e) (m @ [e]) \<and> frame (set m) h h'"
proof (cases m rule: rev_cases)
  case Nil
  with assms show ?thesis by (auto simp: built_def append_element_def)
next
  case (snoc ms t)
  with assms(1) have m: "tail = Some t" "lseg (get_next h) lst ms (Some t)"
    "get_next h t \<noteq> None" by (auto simp: built_def)
  from put_next [OF m(3), of "Some e"] obtain h' where
    h': "put_next h t (Some e) = Some h'" "get_next h' = (get_next h)(t := Some (Some e))"
    "view h' = view h" by auto
  with m assms(2,4) snoc show ?thesis
    by (intro exI [of _ lst] exI [of _ h']) (auto simp: append_element_def built_def frame_def butlast_append)
qed

text \<open>Merging the runs \<open>ps\<close> and \<open>qs\<close>, after \<open>m\<close> and before \<open>rs\<close>.\<close>

lemma merge_loop_correct:
  assumes "built h lst tail m"
    and "lseg (get_next h) p ps r" "length ps = psize"
    and "lseg (get_next h) q qs q2" "lseg (get_next h) q2 rs None"
    and "length qs = qsize \<or> length qs \<le> qsize \<and> rs = []"
    and "distinct (m @ ps @ qs @ rs)" "\<forall>x \<in> set (ps @ qs). good (view h x)"
  shows "\<exists>lst' tail' h'.
    merge_loop lessp get_next put_next h p psize q qsize lst tail = Some (q2, lst', tail', h') \<and>
    built h' lst' tail' (m @ merge_runs (\<lambda>a b. lt (view h a) (view h b)) ps qs) \<and>
    frame (set (m @ ps @ qs)) h h'"
  using assms
proof (induction "psize + qsize" arbitrary: h lst tail m p ps psize q qs qsize rule: less_induct)
  case less
  let ?lt = "\<lambda>a b. lt (view h a) (view h b)"
  show ?case
  proof (cases "ps = [] \<and> qs = []")
    case True
    with less.prems have "psize = 0" "qsize = 0 \<or> q = None" "q = q2" by auto
    then have "merge_loop lessp get_next put_next h p psize q qsize lst tail = Some (q2, lst, tail, h)"
      by (subst merge_loop.simps) auto
    with True less.prems(1) show ?thesis by simp
  next
    case False
    text \<open>One step takes \<open>e\<close> off one of the runs.\<close>
    have step: ?thesis
      if pick: "pick_run lessp h p psize q qsize = Some b" and e: "(if b then p else q) = Some e"
        and n: "get_next h e = Some n"
        and runs: "if b then ps = e # ps' \<and> qs' = qs else qs = e # qs' \<and> ps' = ps"
        and merged: "merge_runs ?lt ps qs = e # merge_runs ?lt ps' qs'"
      for b e n ps' qs'
    proof -
      have "e \<notin> set m" "distinct m" using less.prems(7) runs by (auto split: if_splits)
      with append_built [OF less.prems(1), of e] n obtain lst1 h1 where
        h1: "append_element put_next h lst tail e = Some (lst1, h1)"
        "built h1 lst1 (Some e) (m @ [e])" "frame (set m) h h1" by auto
      have view: "view h1 = view h" using h1(3) by (simp add: frame_def)
      let ?p = "if b then n else p" and ?q = "if b then q else n"
      let ?ps = "if b then psize - 1 else psize" and ?qs = "if b then qsize else qsize - 1"
      have "?ps + ?qs < psize + qsize" using runs less.prems by (auto split: if_splits)
      moreover have "set ps' \<inter> set m = {}" "set qs' \<inter> set m = {}" "set rs \<inter> set m = {}"
        using less.prems(7) runs by (auto split: if_splits)
      then have "lseg (get_next h1) ?p ps' r" "lseg (get_next h1) ?q qs' q2"
        "lseg (get_next h1) q2 rs None"
        using runs less.prems(2,4,5) n by (auto simp: frame_lseg [OF h1(3)] split: if_splits)
      moreover have "length ps' = ?ps" "length qs' = ?qs \<or> length qs' \<le> ?qs \<and> rs = []"
        "distinct ((m @ [e]) @ ps' @ qs' @ rs)" "\<forall>x \<in> set (ps' @ qs'). good (view h1 x)"
        using runs less.prems(3,6,7,8) by (auto simp: view split: if_splits)
      ultimately obtain lst' tail' h' where
        h': "merge_loop lessp get_next put_next h1 ?p ?ps ?q ?qs lst1 (Some e) = Some (q2, lst', tail', h')"
        "built h' lst' tail' ((m @ [e]) @ merge_runs (\<lambda>a b. lt (view h1 a) (view h1 b)) ps' qs')"
        "frame (set ((m @ [e]) @ ps' @ qs')) h1 h'"
        using less.hyps [of ?ps ?qs h1 lst1 "Some e" "m @ [e]" ?p ps' ?q qs'] h1(2) by blast
      have "frame (set (m @ ps @ qs)) h h'"
        using h1(3) h'(3) runs by (rule_tac frame_trans) (auto split: if_splits)
      moreover have "merge_loop lessp get_next put_next h p psize q qsize lst tail =
          Some (q2, lst', tail', h')"
      proof -
        have "psize > 0 \<or> qsize > 0 \<and> q \<noteq> None" using runs less.prems e by (auto split: if_splits)
        with pick e n h1(1) h'(1) show ?thesis
          by (subst merge_loop.simps) (simp split: if_splits)
      qed
      ultimately show ?thesis using h'(2) merged by (auto simp: view)
    qed
    show ?thesis
    proof (cases ps)
      case Nil
      with False obtain b qs' n where "qs = b # qs'" "q = Some b" "get_next h b = Some n"
        using less.prems(4) by (cases qs) auto
      with Nil less.prems(3) show ?thesis
        by (intro step [of False b n "[]" qs']) (simp_all add: pick_run_def)
    next
      case (Cons a ps')
      then obtain n where a: "p = Some a" "get_next h a = Some n" using less.prems(2) by auto
      show ?thesis
      proof (cases qs)
        case Nil
        then have "qsize = 0 \<or> q = None" using less.prems(4-6) by auto
        with a Cons Nil less.prems(3) show ?thesis
          by (intro step [of True a n ps' "[]"]) (auto simp: pick_run_def)
      next
        case (Cons b qs')
        then obtain n2 where b: "q = Some b" "get_next h b = Some n2" "qsize > 0"
          using less.prems(4,6) by auto
        let ?b = "lt (view h a) (view h b)"
        have "pick_run lessp h p psize q qsize = Some ?b"
          using a b less.prems(3,8) \<open>ps = a # ps'\<close> Cons by (auto simp: pick_run_def lessp)
        then show ?thesis
          using a b \<open>ps = a # ps'\<close> Cons
          by (intro step [of ?b "if ?b then a else b" "if ?b then n else n2"
                "if ?b then ps' else ps" "if ?b then qs else qs'"]) simp_all
      qed
    qed
  qed
qed

lemma merge_pass_correct:
  assumes "n > 0" "built h lst tail m" "lseg (get_next h) p xs None" "distinct (m @ xs)"
    and "\<forall>x \<in> set xs. good (view h x)"
  shows "\<exists>lst' tail' h'.
    merge_pass lessp get_next put_next n h p lst tail k = Some (lst', tail', k + merges n xs, h') \<and>
    built h' lst' tail' (m @ pass (\<lambda>a b. lt (view h a) (view h b)) n xs) \<and>
    frame (set (m @ xs)) h h'"
  using assms
proof (induction xs arbitrary: h lst tail m p k rule: measure_induct_rule [of length])
  case (less xs)
  let ?lt = "\<lambda>a b. lt (view h a) (view h b)"
  show ?case
  proof (cases xs)
    case Nil
    with less.prems show ?thesis
      by (auto simp: merge_pass.simps merges.simps pass.simps)
  next
    case (Cons a as)
    define ps where "ps = take n xs"
    define qs where "qs = take n (drop n xs)"
    define rs where "rs = drop n (drop n xs)"
    have xs: "xs = ps @ qs @ rs" by (simp add: ps_def qs_def rs_def flip: append_assoc take_add)
    from less.prems(3) Cons have p: "p = Some a" by simp
    from less.prems(3) xs obtain q q2 where segs: "lseg (get_next h) p ps q"
      "lseg (get_next h) q qs q2" "lseg (get_next h) q2 rs None" by auto
    then have q: "q = (case drop n xs of [] \<Rightarrow> None | y # _ \<Rightarrow> Some y)"
      using lseg_head [of "get_next h" q "drop n xs"] xs
      by (metis append_take_drop_id lseg_append qs_def rs_def)
    have along: "step_along (get_next h) n a 0 = Some (q, length ps)"
      using step_along [of "get_next h" a xs n 0] less.prems(1,3) p q by (simp add: ps_def)
    have "length qs = n \<or> length qs \<le> n \<and> rs = []" by (auto simp: qs_def rs_def)
    from merge_loop_correct [OF less.prems(2) segs(1) refl segs(2,3) this]
    obtain lst1 tail1 h1 where
      h1: "merge_loop lessp get_next put_next h p (length ps) q n lst tail = Some (q2, lst1, tail1, h1)"
      "built h1 lst1 tail1 (m @ merge_runs ?lt ps qs)" "frame (set (m @ ps @ qs)) h h1"
      using less.prems(4,5) xs by auto
    have view: "view h1 = view h" using h1(3) by (simp add: frame_def)
    have merged: "set (merge_runs ?lt ps qs) = set ps \<union> set qs"
      "distinct (merge_runs ?lt ps qs)"
      using less.prems(4) xs by (auto simp: distinct_merge_runs)
    have "length rs < length xs" using Cons less.prems(1) by (simp add: rs_def)
    moreover have "lseg (get_next h1) q2 rs None"
      using segs(3) less.prems(4) xs by (subst frame_lseg [OF h1(3)]) auto
    moreover have "distinct ((m @ merge_runs ?lt ps qs) @ rs)"
      using less.prems(4) merged xs by auto
    ultimately obtain lst' tail' h' where
      h': "merge_pass lessp get_next put_next n h1 q2 lst1 tail1 (Suc k) =
        Some (lst', tail', Suc k + merges n rs, h')"
      "built h' lst' tail' ((m @ merge_runs ?lt ps qs) @ pass ?lt n rs)"
      "frame (set ((m @ merge_runs ?lt ps qs) @ rs)) h1 h'"
      using less.IH [of rs h1 lst1 tail1 "m @ merge_runs ?lt ps qs" q2 "Suc k"] less.prems(1,5) h1(2) xs
      by (auto simp: view)
    have "frame (set (m @ xs)) h h'"
      using h1(3) h'(3) xs merged by (rule_tac frame_trans) auto
    moreover have "pass ?lt n xs = merge_runs ?lt ps qs @ pass ?lt n rs" "merges n xs = Suc (merges n rs)"
      using Cons less.prems(1) unfolding ps_def qs_def rs_def
      by (subst pass.simps, simp, subst merges.simps, simp)
    ultimately show ?thesis
      using h' h1(1) along p by (auto simp: merge_pass.simps [of _ _ _ n h])
  qed
qed

text \<open>Closing the merged list.\<close>

lemma finish_built:
  assumes "built h lst tail m" "m \<noteq> []" "distinct m"
  shows "\<exists>t h'. tail = Some t \<and> put_next h t None = Some h' \<and> lseg (get_next h') lst m None \<and>
    frame (set m) h h'"
proof (cases m rule: rev_cases)
  case (snoc ms t)
  with assms(1) have m: "tail = Some t" "lseg (get_next h) lst ms (Some t)"
    "get_next h t \<noteq> None" by (auto simp: built_def)
  from put_next [OF m(3), of None] m snoc assms(3) show ?thesis
    by (auto simp: frame_def)
qed (use assms in simp)

lemma sort_passes_correct:
  assumes "n > 0" "lseg (get_next h) p (sorted_runs (\<lambda>a b. lt (view h a) (view h b)) n xs) None"
    and "\<forall>x \<in> set xs. good (view h x)" "xs \<noteq> []"
  shows "\<exists>p' h'. sort_passes lessp get_next put_next n h p = Some (p', h') \<and>
    lseg (get_next h') p' (rev_sort (\<lambda>a b. lt (view h a) (view h b)) xs) None \<and> frame (set xs) h h'"
  using assms
proof (induction "length xs - n" arbitrary: n h p rule: less_induct)
  case less
  let ?lt = "\<lambda>a b. lt (view h a) (view h b)"
  let ?xs = "sorted_runs ?lt n xs" and ?m = "sorted_runs ?lt (n + n) xs"
  have "n + n > 0" using less.prems(1) by simp
  note xs = sorted_runs_set [OF less.prems(1), of ?lt xs] sorted_runs_set [OF this, of ?lt xs]
  have dist: "distinct ?xs" using less.prems(2) by (rule lseg_distinct)
  have "built h None None []" by (simp add: built_def)
  then obtain lst tail h1 where
    h1: "merge_pass lessp get_next put_next n h p None None 0 = Some (lst, tail, merges n ?xs, h1)"
    "built h1 lst tail (pass ?lt n ?xs)" "frame (set xs) h h1"
    using merge_pass_correct [OF less.prems(1) _ less.prems(2), of None None "[]" 0] less.prems(3) xs dist
    by auto
  have pass: "pass ?lt n ?xs = ?m"
    using weak_order.pass_sorted_runs [OF weak_view less.prems(1)] .
  obtain h2 where
    h2: "tail \<bind> (\<lambda>t. put_next h1 t None) = Some h2" "lseg (get_next h2) lst ?m None"
    "frame (set ?m) h1 h2"
    using finish_built [OF h1(2)] pass xs less.prems(4) dist by auto
  have frame: "frame (set xs) h h2" using h1(3) h2(3) xs by (rule_tac frame_trans) auto
  then have view: "view h2 = view h" by (simp add: frame_def)
  have step: "sort_passes lessp get_next put_next n h p =
      (if length xs \<le> n + n then Some (lst, h2)
       else sort_passes lessp get_next put_next (n * 2) h2 lst)"
    using h1(1) h2(1) merges_le_1 [OF less.prems(1), of ?xs] less.prems(1)
    by (subst sort_passes.simps) (auto simp: bind_eq_Some_conv split: option.splits)
  show ?case
  proof (cases "length xs \<le> n + n")
    case True
    then have "?m = rev_sort ?lt xs" using less.prems(1) by (simp add: sorted_runs_short)
    with True step h2(2) frame show ?thesis by auto
  next
    case False
    then obtain p' h' where "sort_passes lessp get_next put_next (n + n) h2 lst = Some (p', h')"
      "lseg (get_next h') p' (rev_sort ?lt xs) None" "frame (set xs) h2 h'"
      using less.hyps [of "n + n" h2 lst] less.prems h2(2) \<open>n + n > 0\<close>
      by (auto simp: view diff_less_mono2)
    with False step frame show ?thesis
      by (auto simp: mult_2_right intro: frame_trans)
  qed
qed

lemma Sort_correct:
  assumes "lseg (get_next h) p xs None" "\<forall>x \<in> set xs. good (view h x)"
  shows "\<exists>p' h'. Sort lessp get_next put_next h p = Some (p', h') \<and>
    lseg (get_next h') p' (rev_sort (\<lambda>a b. lt (view h a) (view h b)) xs) None \<and>
    view h' = view h \<and> (\<forall>a. a \<notin> set xs \<longrightarrow> get_next h' a = get_next h a)"
proof (cases "xs = []")
  case False
  then have "p \<noteq> None" using assms(1) by (cases xs) auto
  with sort_passes_correct [of 1 h p xs] assms False show ?thesis
    by (auto simp: Sort_def sorted_runs_1 frame_def)
qed (use assms in \<open>simp add: Sort_def\<close>)

text \<open>The same without the list function.\<close>

lemma Sort_sorts:
  assumes "lseg (get_next h) p xs None" "\<forall>x \<in> set xs. good (view h x)"
  shows "\<exists>ys p' h'. Sort lessp get_next put_next h p = Some (p', h') \<and>
    lseg (get_next h') p' ys None \<and> mset ys = mset xs \<and>
    sorted_wrt (\<lambda>a b. \<not> lt (view h b) (view h a)) ys \<and>
    (\<forall>c. filter (equals (\<lambda>a b. lt (view h a) (view h b)) c) ys =
      rev (filter (equals (\<lambda>a b. lt (view h a) (view h b)) c) xs)) \<and>
    view h' = view h \<and> (\<forall>a. a \<notin> set xs \<longrightarrow> get_next h' a = get_next h a)"
  using Sort_correct [OF assms] weak_order.sorted_rev_sort [OF weak_view, of h xs]
    weak_order.equals_reversed [OF weak_view, of h _ xs] mset_rev_sort
  by fast

end

lemma weak_order_key: "weak_order lt \<Longrightarrow> weak_order (\<lambda>a b. lt (f a) (f b))"
  unfolding weak_order_def by blast

lemma weak_order_strcmp: "weak_order (\<lambda>s t. strcmp s t < 0)"
  by unfold_locales (use strcmp_trans strcmp_neg_trans in auto)

lemma weak_order_more: "weak_order (\<lambda>m n. m > (n :: int))"
  by unfold_locales auto

end
