(* ===== verification/Item_List.thy ===== *)
theory Item_List
  imports List_Sort
begin

text \<open>
  Lists of items, \<open>libpromises/item_lib.c\<close>, and their sorting in \<open>libpromises/sort.c\<close>. Items
  live in a heap of cells; a pointer \<open>Item *\<close> is a \<open>nat option\<close>. Every operation takes and
  returns the heap it works on; reading or writing a cell that is not allocated (\<open>NULL\<close>, a freed
  cell, the sentinel \<open>CF_UNDEFINED_ITEM\<close>), passing \<open>NULL\<close> to a string function, a call of
  \<open>ProgrammingError\<close> and running forever are the result \<open>None\<close>.

  The counter and the time are integers, so overflow of the counter (undefined in C) is not
  modelled. \<open>matches rx s\<close> stands for \<open>FullTextMatch(rx, s)\<close>, which calls PCRE.
\<close>

record Item =
  iname :: "string option"
  iclasses :: "string option"
  icounter :: int
  itime :: int
  inext :: "nat option"

record ItemHeap =
  cells :: "nat \<Rightarrow> Item option"
  brk :: nat

definition CF_UNDEFINED_ITEM :: "nat option" where
  "CF_UNDEFINED_ITEM = Some 4660"

text \<open>Every cell lies between the sentinel and the break.\<close>

definition wf_heap :: "ItemHeap \<Rightarrow> bool" where
  "wf_heap h \<longleftrightarrow> 4660 < brk h \<and> (\<forall>a. cells h a \<noteq> None \<longrightarrow> 4660 < a \<and> a < brk h)"

definition new_item :: "ItemHeap \<Rightarrow> Item \<Rightarrow> nat \<times> ItemHeap" where
  "new_item h i = (brk h, h\<lparr>cells := (cells h)(brk h \<mapsto> i), brk := Suc (brk h)\<rparr>)"

definition free_item :: "ItemHeap \<Rightarrow> nat \<Rightarrow> ItemHeap" where
  "free_item h a = h\<lparr>cells := (cells h)(a := None)\<rparr>"

definition put_item :: "ItemHeap \<Rightarrow> nat \<Rightarrow> Item \<Rightarrow> ItemHeap" where
  "put_item h a i = h\<lparr>cells := (cells h)(a \<mapsto> i)\<rparr>"

definition ItemGetNext :: "ItemHeap \<Rightarrow> nat links" where
  "ItemGetNext h a = map_option inext (cells h a)"

definition ItemPutNext :: "ItemHeap \<Rightarrow> nat \<Rightarrow> nat option \<Rightarrow> ItemHeap option" where
  "ItemPutNext h a n = map_option (\<lambda>i. put_item h a (i\<lparr>inext := n\<rparr>)) (cells h a)"

text \<open>What a cell holds besides its link.\<close>

definition content :: "ItemHeap \<Rightarrow> nat \<Rightarrow> Item option" where
  "content h a = map_option (\<lambda>i. i\<lparr>inext := None\<rparr>) (cells h a)"

section \<open>Searching\<close>

abbreviation for_items ::
  "ItemHeap \<Rightarrow> (nat \<Rightarrow> Item \<Rightarrow> 's \<Rightarrow> ('s + 'r) option) \<Rightarrow> nat option \<Rightarrow> 's \<Rightarrow> ('s + 'r) option" where
  "for_items h body \<equiv> for_list (ItemGetNext h) (\<lambda>p. p = None)
     (\<lambda>a s. do { i \<leftarrow> cells h a; body a i s })"

text \<open>The loop that returns at the first item satisfying a test.\<close>

definition find_item :: "ItemHeap \<Rightarrow> (Item \<Rightarrow> bool option) \<Rightarrow> nat option \<Rightarrow> nat option option" where
  "find_item h P p =
     (case for_items h (\<lambda>a i _. do { b \<leftarrow> P i; Some (if b then Inr a else Inl ()) }) p () of
        None \<Rightarrow> None
      | Some (Inr a) \<Rightarrow> Some (Some a)
      | Some (Inl _) \<Rightarrow> Some None)"

definition no_item :: "string option \<Rightarrow> bool" where
  "no_item item \<longleftrightarrow> item = None \<or> item = Some []"

definition ReturnItemIn :: "ItemHeap \<Rightarrow> nat option \<Rightarrow> string option \<Rightarrow> nat option option" where
  "ReturnItemIn h list item =
     (if no_item item then Some None
      else find_item h (\<lambda>i. do { s \<leftarrow> iname i; t \<leftarrow> item; Some (strcmp s t = 0) }) list)"

definition ReturnItemInClass ::
  "ItemHeap \<Rightarrow> nat option \<Rightarrow> string option \<Rightarrow> string option \<Rightarrow> nat option option" where
  "ReturnItemInClass h list item classes =
     (if no_item item then Some None
      else find_item h (\<lambda>i. do {
          s \<leftarrow> iname i;
          t \<leftarrow> item;
          (if strcmp s t = 0
           then do { c \<leftarrow> iclasses i; d \<leftarrow> classes; Some (strcmp c d = 0) }
           else Some False)
        }) list)"

definition ReturnItemAtIndex :: "ItemHeap \<Rightarrow> nat option \<Rightarrow> int \<Rightarrow> nat option option" where
  "ReturnItemAtIndex h list index =
     (case for_items h (\<lambda>a _ i. Some (if i = index then Inr a else Inl (i + 1))) list 0 of
        None \<Rightarrow> None
      | Some (Inr a) \<Rightarrow> Some (Some a)
      | Some (Inl _) \<Rightarrow> Some None)"

definition IsItemIn :: "ItemHeap \<Rightarrow> nat option \<Rightarrow> string option \<Rightarrow> bool option" where
  "IsItemIn h list item =
     (if no_item item then Some True
      else do {
        p \<leftarrow> find_item h (\<lambda>i. do { s \<leftarrow> iname i; t \<leftarrow> item; Some (strcmp s t = 0) }) list;
        Some (p \<noteq> None)
      })"

text \<open>The value of a local variable when the loop has run through the list.\<close>

definition left :: "('s + unit) option \<Rightarrow> 's option" where
  "left r = (case r of Some (Inl s) \<Rightarrow> Some s | _ \<Rightarrow> None)"

definition ListLen :: "ItemHeap \<Rightarrow> nat option \<Rightarrow> int option" where
  "ListLen h list = left (for_items h (\<lambda>a i count. Some (Inl (count + 1))) list 0)"

definition ItemListSize :: "ItemHeap \<Rightarrow> nat option \<Rightarrow> int option" where
  "ItemListSize h list =
     left (for_items h (\<lambda>a i size.
       Some (Inl (case iname i of Some s \<Rightarrow> size + int (length s) | None \<Rightarrow> size))) list 0)"

definition ByteSizeList :: "ItemHeap \<Rightarrow> nat option \<Rightarrow> int option" where
  "ByteSizeList h list =
     left (for_items h (\<lambda>a i count. do { s \<leftarrow> iname i; Some (Inl (count + int (length s))) }) list 0)"

definition EndOfList :: "ItemHeap \<Rightarrow> nat option \<Rightarrow> nat option option" where
  "EndOfList h start = left (for_items h (\<lambda>a i prev. Some (Inl (Some a))) start CF_UNDEFINED_ITEM)"

definition ListsCompare :: "ItemHeap \<Rightarrow> nat option \<Rightarrow> nat option \<Rightarrow> bool option" where
  "ListsCompare h list1 list2 =
     do {
       m \<leftarrow> ListLen h list1;
       n \<leftarrow> ListLen h list2;
       (if m \<noteq> n then Some False
        else (case for_items h (\<lambda>a i _. do {
                 b \<leftarrow> IsItemIn h list2 (iname i);
                 Some (if b then Inl () else Inr ())
               }) list1 () of
                None \<Rightarrow> None
              | Some r \<Rightarrow> Some (r = Inl ())))
     }"

text \<open>\<open>SelectNextItemMatching\<close> returns whether it matched, \<open>*match\<close> and \<open>*prev\<close>.\<close>

definition SelectNextItemMatching ::
  "(string \<Rightarrow> string \<Rightarrow> bool) \<Rightarrow> ItemHeap \<Rightarrow> string \<Rightarrow> nat option \<Rightarrow> nat option \<Rightarrow>
   (bool \<times> nat option \<times> nat option) option" where
  "SelectNextItemMatching matches h regexp begin stop =
     (case for_list (ItemGetNext h) (\<lambda>p. p = stop)
          (\<lambda>a ip_prev. do {
             i \<leftarrow> cells h a;
             Some (case iname i of
                 None \<Rightarrow> Inl ip_prev
               | Some s \<Rightarrow> if matches regexp s then Inr (a, ip_prev) else Inl (Some a))
           }) begin CF_UNDEFINED_ITEM of
        None \<Rightarrow> None
      | Some (Inr (a, ip_prev)) \<Rightarrow> Some (True, Some a, ip_prev)
      | Some (Inl _) \<Rightarrow> Some (False, CF_UNDEFINED_ITEM, CF_UNDEFINED_ITEM))"

definition SelectLastItemMatching ::
  "(string \<Rightarrow> string \<Rightarrow> bool) \<Rightarrow> ItemHeap \<Rightarrow> string \<Rightarrow> nat option \<Rightarrow> nat option \<Rightarrow>
   (bool \<times> nat option \<times> nat option) option" where
  "SelectLastItemMatching matches h regexp begin stop =
     do {
       (ip_prev, ip_last, prev) \<leftarrow> left (for_list (ItemGetNext h) (\<lambda>p. p = stop)
          (\<lambda>a (ip_prev, ip_last, prev). do {
             i \<leftarrow> cells h a;
             Some (Inl (case iname i of
                 None \<Rightarrow> (ip_prev, ip_last, prev)
               | Some s \<Rightarrow>
                   if matches regexp s then (Some a, Some a, ip_prev) else (Some a, ip_last, prev)))
           }) begin (CF_UNDEFINED_ITEM, None, CF_UNDEFINED_ITEM));
       Some (if ip_last \<noteq> None then (True, ip_last, prev) else (False, CF_UNDEFINED_ITEM, prev))
     }"

definition SelectItemMatching ::
  "(string \<Rightarrow> string \<Rightarrow> bool) \<Rightarrow> ItemHeap \<Rightarrow> nat option \<Rightarrow> string option \<Rightarrow> nat option \<Rightarrow>
   nat option \<Rightarrow> string option \<Rightarrow> (bool \<times> nat option \<times> nat option) option" where
  "SelectItemMatching matches h start regex begin_ptr end_ptr fl =
     (case regex of
        None \<Rightarrow> Some (False, CF_UNDEFINED_ITEM, CF_UNDEFINED_ITEM)
      | Some rx \<Rightarrow>
          do {
            (ret, match, prev) \<leftarrow>
              (if fl = Some ''first'' then SelectNextItemMatching matches h rx begin_ptr end_ptr
               else SelectLastItemMatching matches h rx begin_ptr end_ptr);
            prev' \<leftarrow>
              (if match \<noteq> CF_UNDEFINED_ITEM \<and> prev = CF_UNDEFINED_ITEM
               then left (for_list (ItemGetNext h) (\<lambda>p. p = None \<or> p = match)
                   (\<lambda>a _. Some (Inl (Some a))) start prev)
               else Some prev);
            Some (ret, match, prev')
          })"

section \<open>Adding items\<close>

text \<open>\<open>xcalloc\<close> clears the fields that are not set.\<close>

definition fresh_item :: "string \<Rightarrow> string option \<Rightarrow> nat option \<Rightarrow> Item" where
  "fresh_item itemstring classes nxt =
     \<lparr>iname = Some itemstring, iclasses = classes, icounter = 0, itime = 0, inext = nxt\<rparr>"

text \<open>Operations on \<open>Item **liststart\<close> return its new value before the heap.\<close>

definition PrependItem ::
  "ItemHeap \<Rightarrow> nat option \<Rightarrow> string \<Rightarrow> string option \<Rightarrow> nat option \<times> ItemHeap" where
  "PrependItem h liststart itemstring classes =
     (let (ip, h') = new_item h (fresh_item itemstring classes liststart) in (Some ip, h'))"

definition PrependFullItem ::
  "ItemHeap \<Rightarrow> nat option \<Rightarrow> string \<Rightarrow> string option \<Rightarrow> int \<Rightarrow> int \<Rightarrow> nat option \<times> ItemHeap" where
  "PrependFullItem h liststart itemstring classes counter t =
     (let (ip, h') = new_item h
        (fresh_item itemstring classes liststart \<lparr>icounter := counter, itime := t\<rparr>)
      in (Some ip, h'))"

definition PrependItemList :: "ItemHeap \<Rightarrow> nat option \<Rightarrow> string \<Rightarrow> nat option \<times> ItemHeap" where
  "PrependItemList h liststart itemstring =
     (let (ip, h') = new_item h (fresh_item itemstring None liststart) in (Some ip, h'))"

text \<open>The loop to the cell without a next one.\<close>

definition last_item :: "ItemHeap \<Rightarrow> nat option \<Rightarrow> nat option" where
  "last_item h list =
     (case for_items h (\<lambda>a i _. Some (if inext i = None then Inr a else Inl ())) list () of
        Some (Inr a) \<Rightarrow> Some a
      | _ \<Rightarrow> None)"

definition AppendItem ::
  "ItemHeap \<Rightarrow> nat option \<Rightarrow> string \<Rightarrow> string option \<Rightarrow> (nat option \<times> ItemHeap) option" where
  "AppendItem h liststart itemstring classes =
     (let (ip, h1) = new_item h (fresh_item itemstring classes None) in
      if liststart = None then Some (Some ip, h1)
      else do {
        lp \<leftarrow> last_item h1 liststart;
        h2 \<leftarrow> ItemPutNext h1 lp (Some ip);
        Some (liststart, h2)
      })"

text \<open>The three idempotent additions return the item first.\<close>

definition IdempPrependItem ::
  "ItemHeap \<Rightarrow> nat option \<Rightarrow> string \<Rightarrow> string option \<Rightarrow> (nat option \<times> nat option \<times> ItemHeap) option"
where
  "IdempPrependItem h liststart itemstring classes =
     do {
       ip \<leftarrow> ReturnItemIn h liststart (Some itemstring);
       Some (if ip \<noteq> None then (ip, liststart, h)
             else let (l, h') = PrependItem h liststart itemstring classes in (l, l, h'))
     }"

definition IdempPrependItemClass ::
  "ItemHeap \<Rightarrow> nat option \<Rightarrow> string \<Rightarrow> string option \<Rightarrow> (nat option \<times> nat option \<times> ItemHeap) option"
where
  "IdempPrependItemClass h liststart itemstring classes =
     do {
       ip \<leftarrow> ReturnItemInClass h liststart (Some itemstring) classes;
       Some (if ip \<noteq> None then (ip, liststart, h)
             else let (l, h') = PrependItem h liststart itemstring classes in (l, l, h'))
     }"

definition update_item :: "ItemHeap \<Rightarrow> nat \<Rightarrow> (Item \<Rightarrow> Item) \<Rightarrow> ItemHeap option" where
  "update_item h a f = do { i \<leftarrow> cells h a; Some (put_item h a (f i)) }"

definition IdempItemCount ::
  "ItemHeap \<Rightarrow> nat option \<Rightarrow> string \<Rightarrow> string option \<Rightarrow> (nat option \<times> ItemHeap) option" where
  "IdempItemCount h liststart itemstring classes =
     do {
       ip \<leftarrow> ReturnItemIn h liststart (Some itemstring);
       (case ip of
          Some a \<Rightarrow>
            do {
              h' \<leftarrow> update_item h a (\<lambda>i. i\<lparr>icounter := icounter i + 1\<rparr>);
              Some (liststart, h')
            }
        | None \<Rightarrow> Some (PrependItem h liststart itemstring classes))
     }"

definition IncrementItemListCounter :: "ItemHeap \<Rightarrow> nat option \<Rightarrow> string option \<Rightarrow> ItemHeap option" where
  "IncrementItemListCounter h list item =
     (if no_item item then Some h
      else do {
        ip \<leftarrow> find_item h (\<lambda>i. do { s \<leftarrow> iname i; t \<leftarrow> item; Some (strcmp s t = 0) }) list;
        (case ip of
           Some a \<Rightarrow> update_item h a (\<lambda>i. i\<lparr>icounter := icounter i + 1\<rparr>)
         | None \<Rightarrow> Some h)
      })"

definition SetItemListCounter :: "ItemHeap \<Rightarrow> nat option \<Rightarrow> string option \<Rightarrow> int \<Rightarrow> ItemHeap option"
where
  "SetItemListCounter h list item val =
     (if no_item item then Some h
      else do {
        ip \<leftarrow> find_item h (\<lambda>i. do { s \<leftarrow> iname i; t \<leftarrow> item; Some (strcmp s t = 0) }) list;
        (case ip of
           Some a \<Rightarrow> update_item h a (\<lambda>i. i\<lparr>icounter := val\<rparr>)
         | None \<Rightarrow> Some h)
      })"

definition InsertAfter ::
  "ItemHeap \<Rightarrow> nat option \<Rightarrow> nat option \<Rightarrow> string \<Rightarrow> (nat option \<times> ItemHeap) option" where
  "InsertAfter h filestart ptr str =
     (if filestart = None \<or> ptr = CF_UNDEFINED_ITEM then AppendItem h filestart str None
      else (case ptr of
          None \<Rightarrow> AppendItem h filestart str None
        | Some a \<Rightarrow>
            do {
              n \<leftarrow> ItemGetNext h a;
              (let (ip, h1) = new_item h (fresh_item str None n) in
               do { h2 \<leftarrow> ItemPutNext h1 a (Some ip); Some (filestart, h2) })
            }))"

partial_function (option) copy_loop ::
  "ItemHeap \<Rightarrow> nat option \<Rightarrow> nat option \<Rightarrow> (nat option \<times> ItemHeap) option" where
  "copy_loop h dest ip =
     (case ip of
        None \<Rightarrow> Some (dest, h)
      | Some a \<Rightarrow>
          do {
            i \<leftarrow> cells h a;
            s \<leftarrow> iname i;
            (dest', h') \<leftarrow> AppendItem h dest s (iclasses i);
            n \<leftarrow> ItemGetNext h' a;
            copy_loop h' dest' n
          })"

definition CopyList :: "ItemHeap \<Rightarrow> nat option \<Rightarrow> nat option \<Rightarrow> (nat option \<times> ItemHeap) option" where
  "CopyList h dest source = (if dest \<noteq> None then None else copy_loop h dest source)"

definition ConcatLists :: "ItemHeap \<Rightarrow> nat option \<Rightarrow> nat option \<Rightarrow> (nat option \<times> ItemHeap) option" where
  "ConcatLists h list1 list2 =
     do {
       e \<leftarrow> last_item h list1;
       h' \<leftarrow> ItemPutNext h e list2;
       Some (list1, h')
     }"

section \<open>Deleting items\<close>

partial_function (option) DeleteItemList :: "ItemHeap \<Rightarrow> nat option \<Rightarrow> ItemHeap option" where
  "DeleteItemList h item =
     (case item of
        None \<Rightarrow> Some h
      | Some a \<Rightarrow> do { n \<leftarrow> ItemGetNext h a; DeleteItemList (free_item h a) n })"

text \<open>
  The predecessor of \<open>item\<close>, or the last item when \<open>item\<close> is not in the list, or \<open>NULL\<close> when the
  list is empty.
\<close>

definition before_item :: "ItemHeap \<Rightarrow> nat option \<Rightarrow> nat \<Rightarrow> nat option option" where
  "before_item h liststart item =
     (case for_items h (\<lambda>a i _. Some (if inext i \<noteq> Some item \<and> inext i \<noteq> None then Inl () else Inr a))
        liststart () of
        None \<Rightarrow> None
      | Some (Inr a) \<Rightarrow> Some (Some a)
      | Some (Inl _) \<Rightarrow> Some None)"

definition DeleteItem :: "ItemHeap \<Rightarrow> nat option \<Rightarrow> nat option \<Rightarrow> (nat option \<times> ItemHeap) option" where
  "DeleteItem h liststart item =
     (case item of
        None \<Rightarrow> Some (liststart, h)
      | Some a \<Rightarrow>
          do {
            sp \<leftarrow> ItemGetNext h a;
            (if item = liststart then Some (sp, free_item h a)
             else do {
               ip \<leftarrow> before_item h liststart a;
               h' \<leftarrow> (case ip of Some b \<Rightarrow> ItemPutNext h b sp | None \<Rightarrow> Some h);
               Some (liststart, free_item h' a)
             })
          })"

datatype ItemMatchType =
  ITEM_MATCH_TYPE_LITERAL_START
  | ITEM_MATCH_TYPE_LITERAL_COMPLETE
  | ITEM_MATCH_TYPE_LITERAL_SOMEWHERE
  | ITEM_MATCH_TYPE_REGEX_COMPLETE
  | ITEM_MATCH_TYPE_LITERAL_START_NOT
  | ITEM_MATCH_TYPE_LITERAL_COMPLETE_NOT
  | ITEM_MATCH_TYPE_LITERAL_SOMEWHERE_NOT
  | ITEM_MATCH_TYPE_REGEX_COMPLETE_NOT

fun item_matches :: "(string \<Rightarrow> string \<Rightarrow> bool) \<Rightarrow> ItemMatchType \<Rightarrow> string \<Rightarrow> string \<Rightarrow> bool" where
  "item_matches matches ITEM_MATCH_TYPE_LITERAL_START_NOT str s = (take (length str) s \<noteq> str)"
| "item_matches matches ITEM_MATCH_TYPE_LITERAL_START str s = (take (length str) s = str)"
| "item_matches matches ITEM_MATCH_TYPE_LITERAL_COMPLETE_NOT str s = (strcmp s str \<noteq> 0)"
| "item_matches matches ITEM_MATCH_TYPE_LITERAL_COMPLETE str s = (strcmp s str = 0)"
| "item_matches matches ITEM_MATCH_TYPE_LITERAL_SOMEWHERE_NOT str s = (\<not> strstr s str)"
| "item_matches matches ITEM_MATCH_TYPE_LITERAL_SOMEWHERE str s = strstr s str"
| "item_matches matches ITEM_MATCH_TYPE_REGEX_COMPLETE_NOT str s = (\<not> matches str s)"
| "item_matches matches ITEM_MATCH_TYPE_REGEX_COMPLETE str s = matches str s"

text \<open>The result is whether an item was deleted, the new list start and the heap.\<close>

definition DeleteItemGeneral ::
  "(string \<Rightarrow> string \<Rightarrow> bool) \<Rightarrow> ItemHeap \<Rightarrow> nat option \<Rightarrow> string \<Rightarrow> ItemMatchType \<Rightarrow>
   (bool \<times> nat option \<times> ItemHeap) option" where
  "DeleteItemGeneral matches h list str type =
     (case for_items h (\<lambda>a i prev. Some
          (case iname i of
             None \<Rightarrow> Inl prev
           | Some s \<Rightarrow> if item_matches matches type str s then Inr (a, prev) else Inl (Some a)))
        list None of
        None \<Rightarrow> None
      | Some (Inl _) \<Rightarrow> Some (False, list, h)
      | Some (Inr (ip, prev)) \<Rightarrow>
          do {
            n \<leftarrow> ItemGetNext h ip;
            (if Some ip = list then Some (True, n, free_item h ip)
             else do {
               h' \<leftarrow> (case prev of Some l \<Rightarrow> ItemPutNext h l n | None \<Rightarrow> Some h);
               Some (True, list, free_item h' ip)
             })
          })"

definition DeleteItemStarting where
  "DeleteItemStarting matches h list str =
     DeleteItemGeneral matches h list str ITEM_MATCH_TYPE_LITERAL_START"

definition DeleteItemNotStarting where
  "DeleteItemNotStarting matches h list str =
     DeleteItemGeneral matches h list str ITEM_MATCH_TYPE_LITERAL_START_NOT"

definition DeleteItemLiteral where
  "DeleteItemLiteral matches h list str =
     DeleteItemGeneral matches h list str ITEM_MATCH_TYPE_LITERAL_COMPLETE"

definition DeleteItemMatching where
  "DeleteItemMatching matches h list str =
     DeleteItemGeneral matches h list str ITEM_MATCH_TYPE_REGEX_COMPLETE"

definition DeleteItemNotMatching where
  "DeleteItemNotMatching matches h list str =
     DeleteItemGeneral matches h list str ITEM_MATCH_TYPE_REGEX_COMPLETE_NOT"

definition DeleteItemContaining where
  "DeleteItemContaining matches h list str =
     DeleteItemGeneral matches h list str ITEM_MATCH_TYPE_LITERAL_SOMEWHERE"

definition DeleteItemNotContaining where
  "DeleteItemNotContaining matches h list str =
     DeleteItemGeneral matches h list str ITEM_MATCH_TYPE_LITERAL_SOMEWHERE_NOT"

section \<open>Text\<close>

definition CF_BUFSIZE :: nat where
  "CF_BUFSIZE = 4096"

definition CF_MAXVARSIZE :: nat where
  "CF_MAXVARSIZE = 1024"

text \<open>
  \<open>SplitString\<close>: \<open>before\<close> holds the first \<open>i\<close> characters of the buffer, \<open>prev\<close> is \<open>sp[-1]\<close> or
  \<open>None\<close> at the start of the string. A write outside the buffer is \<open>None\<close>.
\<close>

fun split_loop ::
  "char \<Rightarrow> string \<Rightarrow> char option \<Rightarrow> string \<Rightarrow> ItemHeap \<Rightarrow> nat option \<Rightarrow> (nat option \<times> ItemHeap) option"
where
  "split_loop sep [] prev before h liststart =
     (if CF_BUFSIZE \<le> length before then None else AppendItem h liststart before (Some []))"
| "split_loop sep (c # cs) prev before h liststart =
     (if CF_BUFSIZE \<le> length before then None
      else if c = sep then
        (if prev = Some (CHR 0x5C) then
           (if before = [] then None
            else split_loop sep cs (Some c) (butlast before @ [sep]) h liststart)
         else do {
           (l, h') \<leftarrow> AppendItem h liststart before None;
           split_loop sep cs (Some c) [] h' l
         })
      else split_loop sep cs (Some c) (before @ [c]) h liststart)"

definition SplitString :: "ItemHeap \<Rightarrow> string \<Rightarrow> char \<Rightarrow> (nat option \<times> ItemHeap) option" where
  "SplitString h str sep = split_loop sep str None [] h None"

text \<open>
  \<open>SplitStringAsItemList\<close>: \<open>sscanf(sp, "%255[^c]", node)\<close> reads at most 255 characters up to the
  separator.
\<close>

function node_loop ::
  "char \<Rightarrow> string \<Rightarrow> ItemHeap \<Rightarrow> nat option \<Rightarrow> (nat option \<times> ItemHeap) option" where
  "node_loop sep s h liststart =
     (if s = [] then Some (liststart, h)
      else
        (let node = take 255 (takeWhile (\<lambda>c. c \<noteq> sep) s) in
         if node = [] then node_loop sep (tl s) h liststart
         else do {
           (l, h') \<leftarrow> AppendItem h liststart node None;
           node_loop sep (drop (length node) s) h' l
         }))"
  by pat_completeness auto
termination
  by (relation "measure (\<lambda>(_, s, _, _). length s)") auto

declare node_loop.simps [simp del]

definition SplitStringAsItemList :: "ItemHeap \<Rightarrow> string \<Rightarrow> char \<Rightarrow> (nat option \<times> ItemHeap) option" where
  "SplitStringAsItemList h str sep = node_loop sep str h None"

definition ItemList2CSV :: "ItemHeap \<Rightarrow> nat option \<Rightarrow> string option" where
  "ItemList2CSV h list =
     left (for_items h (\<lambda>a i s. do {
       t \<leftarrow> iname i;
       Some (Inl (s @ t @ (if inext i \<noteq> None then '','' else [])))
     }) list [])"

definition PrintItemList :: "ItemHeap \<Rightarrow> nat option \<Rightarrow> string option" where
  "PrintItemList h list =
     do {
       s \<leftarrow> left (for_items h (\<lambda>a i s. do {
         t \<leftarrow> iname i;
         Some (Inl (s @ (if Some a \<noteq> list then '','' else []) @ [CHR 0x27] @ t @ [CHR 0x27]))
       }) list ''{'');
       Some (s @ ''}'')
     }"

text \<open>
  \<open>MatchRegion\<close> compares the lines of the chunk with the items from \<open>begin\<close>; the result is the
  number of lines, 0 for no match. A line longer than its buffer is not modelled.
\<close>

fun region_loop ::
  "(string \<Rightarrow> string \<Rightarrow> bool) \<Rightarrow> ItemHeap \<Rightarrow> nat option \<Rightarrow> bool \<Rightarrow> string list \<Rightarrow> nat option \<Rightarrow> int \<Rightarrow>
   int option" where
  "region_loop matches h stop regex [] ip lines = Some lines"
| "region_loop matches h stop regex (buf # bufs) ip lines =
     (case ip of
        None \<Rightarrow> Some 0
      | Some a \<Rightarrow>
          do {
            i \<leftarrow> cells h a;
            s \<leftarrow> iname i;
            (if (\<not> regex \<and> strcmp buf s \<noteq> 0) \<or> (regex \<and> \<not> matches buf s) then Some 0
             else if ip = stop then Some 0
             else
               (case inext i of
                  Some n \<Rightarrow> region_loop matches h stop regex bufs (Some n) (lines + 1)
                | None \<Rightarrow> Some (if bufs \<noteq> [] then 0 else lines + 1)))
          })"

definition MatchRegion ::
  "(string \<Rightarrow> string \<Rightarrow> bool) \<Rightarrow> ItemHeap \<Rightarrow> string \<Rightarrow> nat option \<Rightarrow> nat option \<Rightarrow> bool \<Rightarrow> int option"
where
  "MatchRegion matches h chunk begin stop regex =
     region_loop matches h stop regex (strsep_tokens CHR 0x0A chunk) begin 0"

section \<open>Sorting\<close>

definition compare_items ::
  "(Item \<Rightarrow> Item \<Rightarrow> bool option) \<Rightarrow> ItemHeap \<Rightarrow> nat \<Rightarrow> nat \<Rightarrow> bool option" where
  "compare_items f h lhs rhs = do { i \<leftarrow> cells h lhs; j \<leftarrow> cells h rhs; f i j }"

definition ItemNameLess :: "ItemHeap \<Rightarrow> nat \<Rightarrow> nat \<Rightarrow> bool option" where
  "ItemNameLess =
     compare_items (\<lambda>i j. do { s \<leftarrow> iname i; t \<leftarrow> iname j; Some (strcmp s t < 0) })"

definition ItemClassesLess :: "ItemHeap \<Rightarrow> nat \<Rightarrow> nat \<Rightarrow> bool option" where
  "ItemClassesLess =
     compare_items (\<lambda>i j. do { s \<leftarrow> iclasses i; t \<leftarrow> iclasses j; Some (strcmp s t < 0) })"

definition ItemCounterMore :: "ItemHeap \<Rightarrow> nat \<Rightarrow> nat \<Rightarrow> bool option" where
  "ItemCounterMore = compare_items (\<lambda>i j. Some (icounter i > icounter j))"

definition ItemTimeMore :: "ItemHeap \<Rightarrow> nat \<Rightarrow> nat \<Rightarrow> bool option" where
  "ItemTimeMore = compare_items (\<lambda>i j. Some (itime i > itime j))"

definition SortItemListNames :: "ItemHeap \<Rightarrow> nat option \<Rightarrow> (nat option \<times> ItemHeap) option" where
  "SortItemListNames h list = Sort ItemNameLess ItemGetNext ItemPutNext h list"

definition SortItemListClasses :: "ItemHeap \<Rightarrow> nat option \<Rightarrow> (nat option \<times> ItemHeap) option" where
  "SortItemListClasses h list = Sort ItemClassesLess ItemGetNext ItemPutNext h list"

definition SortItemListCounters :: "ItemHeap \<Rightarrow> nat option \<Rightarrow> (nat option \<times> ItemHeap) option" where
  "SortItemListCounters h list = Sort ItemCounterMore ItemGetNext ItemPutNext h list"

definition SortItemListTimes :: "ItemHeap \<Rightarrow> nat option \<Rightarrow> (nat option \<times> ItemHeap) option" where
  "SortItemListTimes h list = Sort ItemTimeMore ItemGetNext ItemPutNext h list"

section \<open>The cells and links of a heap\<close>

named_theorems heap_simps \<open>what the heap operations do to cells and links\<close>

lemma cells_heap [heap_simps]:
  "cells (put_item h a i) = (cells h)(a \<mapsto> i)"
  "cells (free_item h a) = (cells h)(a := None)"
  "brk (put_item h a i) = brk h"
  "brk (free_item h a) = brk h"
  by (simp_all add: put_item_def free_item_def)

lemma next_heap [heap_simps]:
  "ItemGetNext (put_item h a i) = (ItemGetNext h)(a \<mapsto> inext i)"
  "ItemGetNext (free_item h a) = (ItemGetNext h)(a := None)"
  by (auto simp: ItemGetNext_def cells_heap)

lemma content_heap [heap_simps]:
  "content (put_item h a i) = (content h)(a \<mapsto> i\<lparr>inext := None\<rparr>)"
  "content (free_item h a) = (content h)(a := None)"
  by (auto simp: content_def cells_heap)

lemma next_Some_iff: "ItemGetNext h a = Some n \<longleftrightarrow> (\<exists>i. cells h a = Some i \<and> inext i = n)"
  by (auto simp: ItemGetNext_def)

lemma content_Some_iff:
  "content h a = Some c \<longleftrightarrow> (\<exists>i. cells h a = Some i \<and> c = i\<lparr>inext := None\<rparr>)"
  by (auto simp: content_def)

lemma put_next_eq:
  "cells h a = Some i \<Longrightarrow> ItemPutNext h a n = Some (put_item h a (i\<lparr>inext := n\<rparr>))"
  by (simp add: ItemPutNext_def)

interpretation item_links: linked ItemGetNext ItemPutNext content
proof
  fix h a n
  assume "ItemGetNext h a \<noteq> None"
  then obtain i where "cells h a = Some i" by (auto simp: ItemGetNext_def)
  then show "\<exists>h'. ItemPutNext h a n = Some h' \<and> ItemGetNext h' = (ItemGetNext h)(a := Some n) \<and>
      content h' = content h"
    by (auto simp: put_next_eq heap_simps content_def fun_eq_iff)
qed

section \<open>Sorting is correct\<close>

definition string_of :: "string option \<Rightarrow> string" where
  "string_of s = (case s of Some t \<Rightarrow> t | None \<Rightarrow> [])"

abbreviation name_of :: "Item option \<Rightarrow> string" where
  "name_of c \<equiv> string_of (Option.bind c iname)"

abbreviation classes_of :: "Item option \<Rightarrow> string" where
  "classes_of c \<equiv> string_of (Option.bind c iclasses)"

abbreviation counter_of :: "Item option \<Rightarrow> int" where
  "counter_of c \<equiv> (case c of Some i \<Rightarrow> icounter i | None \<Rightarrow> 0)"

abbreviation time_of :: "Item option \<Rightarrow> int" where
  "time_of c \<equiv> (case c of Some i \<Rightarrow> itime i | None \<Rightarrow> 0)"

interpretation by_name: sortable ItemGetNext ItemPutNext content
    "\<lambda>c d. strcmp (name_of c) (name_of d) < 0" ItemNameLess "\<lambda>c. Option.bind c iname \<noteq> None"
  by (intro sortable.intro weak_order_key [OF weak_order_strcmp] item_links.linked_axioms
      sortable_axioms.intro)
    (auto simp: ItemNameLess_def compare_items_def content_def string_of_def bind_eq_Some_conv)

interpretation by_classes: sortable ItemGetNext ItemPutNext content
    "\<lambda>c d. strcmp (classes_of c) (classes_of d) < 0" ItemClassesLess "\<lambda>c. Option.bind c iclasses \<noteq> None"
  by (intro sortable.intro weak_order_key [OF weak_order_strcmp] item_links.linked_axioms
      sortable_axioms.intro)
    (auto simp: ItemClassesLess_def compare_items_def content_def string_of_def bind_eq_Some_conv)

interpretation by_counter: sortable ItemGetNext ItemPutNext content
    "\<lambda>c d. counter_of c > counter_of d" ItemCounterMore "\<lambda>c. c \<noteq> None"
  by (intro sortable.intro weak_order_key [OF weak_order_more] item_links.linked_axioms
      sortable_axioms.intro)
    (auto simp: ItemCounterMore_def compare_items_def content_def)

interpretation by_time: sortable ItemGetNext ItemPutNext content
    "\<lambda>c d. time_of c > time_of d" ItemTimeMore "\<lambda>c. c \<noteq> None"
  by (intro sortable.intro weak_order_key [OF weak_order_more] item_links.linked_axioms
      sortable_axioms.intro)
    (auto simp: ItemTimeMore_def compare_items_def content_def)

section \<open>Lists in the heap\<close>

abbreviation item_list :: "ItemHeap \<Rightarrow> nat option \<Rightarrow> nat list \<Rightarrow> bool" where
  "item_list h p xs \<equiv> lseg (ItemGetNext h) p xs None"

lemma list_cells: "lseg (ItemGetNext h) p xs q \<Longrightarrow> a \<in> set xs \<Longrightarrow> \<exists>i. cells h a = Some i"
  by (drule (1) lseg_alloc) (auto simp: ItemGetNext_def)

lemma brk_fresh:
  assumes "wf_heap h"
  shows "cells h (brk h) = None" "ItemGetNext h (brk h) = None" "content h (brk h) = None"
  using assms by (auto simp: wf_heap_def ItemGetNext_def content_def)

lemma brk_notin: "wf_heap h \<Longrightarrow> lseg (ItemGetNext h) p xs q \<Longrightarrow> brk h \<notin> set xs"
  using brk_fresh lseg_alloc by metis

lemma new_item_heap:
  assumes "new_item h i = (a, h')"
  shows "a = brk h" "cells h' = (cells h)(brk h \<mapsto> i)" "brk h' = Suc (brk h)"
    "ItemGetNext h' = (ItemGetNext h)(brk h \<mapsto> inext i)"
    "content h' = (content h)(brk h \<mapsto> i\<lparr>inext := None\<rparr>)"
  using assms by (auto simp: new_item_def ItemGetNext_def content_def)

lemma wf_new_item: "wf_heap h \<Longrightarrow> wf_heap (snd (new_item h i))"
  by (auto simp: wf_heap_def new_item_def less_Suc_eq)

lemma wf_put_item: "wf_heap h \<Longrightarrow> cells h a \<noteq> None \<Longrightarrow> wf_heap (put_item h a i)"
  by (auto simp: wf_heap_def heap_simps)

lemma wf_free_item: "wf_heap h \<Longrightarrow> wf_heap (free_item h a)"
  by (auto simp: wf_heap_def heap_simps)

lemma for_items_list:
  "item_list h p xs \<Longrightarrow> for_items h body p s = fold_list (\<lambda>a s. body a (the (cells h a)) s) xs s"
proof -
  assume l: "item_list h p xs"
  have "fold_list (\<lambda>a s. do { i \<leftarrow> cells h a; body a i s }) ys s =
      fold_list (\<lambda>a s. body a (the (cells h a)) s) ys s" if "set ys \<subseteq> set xs" for ys s
    using that list_cells [OF l]
    by (induction ys arbitrary: s) (fastforce intro!: Option.bind_cong split: sum.split)+
  then show ?thesis by (simp add: for_list_all [OF l])
qed

lemma find_item_list:
  assumes "item_list h p xs" "\<And>a. a \<in> set xs \<Longrightarrow> P (the (cells h a)) = Some (Q a)"
  shows "find_item h P p = Some (List.find Q xs)"
  using fold_list_find [of xs "\<lambda>a s. do { b \<leftarrow> P (the (cells h a)); Some (if b then Inr a else Inl ()) }"
      Q "\<lambda>a. a"] assms
  by (simp add: find_item_def for_items_list split: option.split)

lemma last_item_list: "item_list h p (xs @ [x]) \<Longrightarrow> last_item h p = Some x"
proof -
  assume l: "item_list h p (xs @ [x])"
  then have "fold_list (\<lambda>a _. Some (if inext (the (cells h a)) = None then Inr a else Inl ())) (xs @ [x]) ()
      = Some (Inr x)"
    by (induction xs arbitrary: p) (auto simp: next_Some_iff elim: lseg.elims)
  then show ?thesis by (simp add: last_item_def for_items_list [OF l])
qed

section \<open>Additions\<close>

text \<open>What an addition to the list \<open>xs\<close> does to the rest of the heap.\<close>

definition added :: "ItemHeap \<Rightarrow> ItemHeap \<Rightarrow> nat set \<Rightarrow> Item \<Rightarrow> bool" where
  "added h h' A i \<longleftrightarrow> wf_heap h' \<and> brk h' = Suc (brk h) \<and>
     content h' = (content h)(brk h \<mapsto> i\<lparr>inext := None\<rparr>) \<and>
     (\<forall>a. a \<notin> A \<longrightarrow> a \<noteq> brk h \<longrightarrow> ItemGetNext h' a = ItemGetNext h a)"

lemma PrependItem_list:
  assumes "wf_heap h" "item_list h p xs"
  shows "\<exists>h'. PrependItem h p s c = (Some (brk h), h') \<and> item_list h' (Some (brk h)) (brk h # xs) \<and>
    added h h' {} (fresh_item s c None)"
proof -
  obtain a h' where h': "new_item h (fresh_item s c p) = (a, h')" by fastforce
  with new_item_heap [OF h'] brk_notin [OF assms] wf_new_item [OF assms(1), of "fresh_item s c p"] assms(2)
  show ?thesis by (auto simp: PrependItem_def added_def fresh_item_def)
qed

lemma AppendItem_list:
  assumes "wf_heap h" "item_list h p xs"
  shows "\<exists>p' h'. AppendItem h p s c = Some (p', h') \<and> item_list h' p' (xs @ [brk h]) \<and>
    added h h' (set xs) (fresh_item s c None)"
proof -
  let ?i = "fresh_item s c None"
  obtain a h1 where h1: "new_item h ?i = (a, h1)" by fastforce
  note new = new_item_heap [OF h1]
  have wf1: "wf_heap h1" using wf_new_item [OF assms(1), of ?i] h1 by simp
  show ?thesis
  proof (cases xs rule: rev_cases)
    case Nil
    with assms(2) new wf1 h1 show ?thesis
      by (auto simp: AppendItem_def added_def fresh_item_def)
  next
    case (snoc ys y)
    have notin: "brk h \<notin> set xs" using brk_notin assms by blast
    then have list1: "item_list h1 p xs" using assms(2) by (simp add: new(4))
    then have "last_item h1 p = Some y" using snoc last_item_list by simp
    moreover obtain i where i: "cells h1 y = Some i" using list_cells [OF list1, of y] snoc by auto
    ultimately have eq: "AppendItem h p s c = Some (p, put_item h1 y (i\<lparr>inext := Some (brk h)\<rparr>))"
      using h1 lseg_head [OF assms(2)] snoc new(1)
      by (cases ys) (auto simp: AppendItem_def put_next_eq)
    have "distinct xs" using assms(2) by (rule lseg_distinct)
    then have "item_list (put_item h1 y (i\<lparr>inext := Some (brk h)\<rparr>)) p (xs @ [brk h])"
      using list1 notin snoc new(4) by (auto simp: next_heap fresh_item_def)
    moreover have "added h (put_item h1 y (i\<lparr>inext := Some (brk h)\<rparr>)) (set xs) ?i"
    proof -
      have "content (put_item h1 y (i\<lparr>inext := Some (brk h)\<rparr>)) = content h1"
        using i by (auto simp: content_heap content_def)
      with wf_put_item [OF wf1] i new snoc show ?thesis by (auto simp: added_def heap_simps)
    qed
    ultimately show ?thesis using eq by blast
  qed
qed

lemma added_content:
  "added h h' A i \<Longrightarrow> wf_heap h \<Longrightarrow> cells h a \<noteq> None \<Longrightarrow> content h' a = content h a"
  by (auto simp: added_def wf_heap_def)

lemma content_cells: "content h' a = content h a \<Longrightarrow> cells h a \<noteq> None \<Longrightarrow> cells h' a \<noteq> None"
  by (auto simp: content_def)

lemma added_list:
  assumes "added h h' A i" "wf_heap h" "lseg (ItemGetNext h) p xs q" "set xs \<inter> A = {}"
  shows "lseg (ItemGetNext h') p xs q"
proof -
  have "lseg (ItemGetNext h') p xs q = lseg (ItemGetNext h) p xs q"
    using assms brk_notin [OF assms(2,3)] by (intro lseg_cong) (auto simp: added_def)
  with assms(3) show ?thesis by simp
qed

section \<open>Copying\<close>

text \<open>The name and classes of the cells of a list.\<close>

definition texts :: "ItemHeap \<Rightarrow> nat list \<Rightarrow> (string option \<times> string option) list" where
  "texts h xs = map (\<lambda>a. (Option.bind (content h a) iname, Option.bind (content h a) iclasses)) xs"

lemma copy_loop_list:
  assumes "wf_heap h" "item_list h p xs" "item_list h d ds" "set xs \<inter> set ds = {}"
    and "\<forall>a \<in> set xs. Option.bind (content h a) iname \<noteq> None"
  shows "\<exists>d' ys h'. copy_loop h d p = Some (d', h') \<and> item_list h' d' (ds @ ys) \<and> wf_heap h' \<and>
    texts h' ys = texts h xs \<and>
    (\<forall>a \<in> set ys. brk h \<le> a) \<and>
    (\<forall>a. a \<notin> set ds \<longrightarrow> a < brk h \<longrightarrow> ItemGetNext h' a = ItemGetNext h a) \<and>
    (\<forall>a. cells h a \<noteq> None \<longrightarrow> content h' a = content h a)"
  using assms
proof (induction xs arbitrary: h p d ds)
  case Nil
  then show ?case
    by (intro exI [of _ d] exI [of _ "[]"] exI [of _ h]) (simp add: copy_loop.simps texts_def)
next
  case (Cons x xs)
  from Cons.prems(2,5) obtain i s where x: "p = Some x" "cells h x = Some i" "iname i = Some s"
    "item_list h (inext i) xs"
    by (auto simp: next_Some_iff content_def)
  from AppendItem_list [OF Cons.prems(1,3), of s "iclasses i"] obtain d1 h1 where
    h1: "AppendItem h d s (iclasses i) = Some (d1, h1)" "item_list h1 d1 (ds @ [brk h])"
    "added h h1 (set ds) (fresh_item s (iclasses i) None)" by auto
  have wf1: "wf_heap h1" using h1(3) by (simp add: added_def)
  note keep = added_content [OF h1(3) Cons.prems(1)]
  have list1: "item_list h1 p (x # xs)"
    using added_list [OF h1(3) Cons.prems(1,2)] Cons.prems(4) by auto
  have names: "\<forall>a \<in> set xs. Option.bind (content h1 a) iname \<noteq> None"
    using Cons.prems(5) keep list_cells [OF x(4)] by auto
  have "brk h \<notin> set xs" using brk_notin [OF Cons.prems(1) x(4)] .
  then have next1: "ItemGetNext h1 x = Some (inext i)"
    using h1(3) x(2) Cons.prems(1,4) brk_fresh(1) [OF Cons.prems(1)]
    by (auto simp: added_def ItemGetNext_def)
  with list1 have "item_list h1 (inext i) xs" by simp
  then obtain d' ys h' where h': "copy_loop h1 d1 (inext i) = Some (d', h')"
    "item_list h' d' ((ds @ [brk h]) @ ys)" "wf_heap h'" "texts h' ys = texts h1 xs"
    "\<forall>a \<in> set ys. brk h1 \<le> a" "\<forall>a. a \<notin> set (ds @ [brk h]) \<longrightarrow> a < brk h1 \<longrightarrow> ItemGetNext h' a = ItemGetNext h1 a" "\<forall>a. cells h1 a \<noteq> None \<longrightarrow> content h' a = content h1 a"
    using Cons.IH [of h1 "inext i" d1 "ds @ [brk h]"] wf1 h1(2) names Cons.prems(4) \<open>brk h \<notin> set xs\<close>
    by auto
  have keep': "content h' a = content h a" if "cells h a \<noteq> None" for a
    using h'(7) keep [OF that] content_cells [OF keep that] that by simp
  have "copy_loop h d p = Some (d', h')"
    using x h1(1) next1 h'(1) by (simp add: copy_loop.simps [of h])
  moreover have "texts h' (brk h # ys) = texts h (x # xs)"
  proof -
    have "texts h1 xs = texts h xs"
      using keep list_cells [OF x(4)] by (force simp: texts_def)
    moreover have "content h1 (brk h) = Some (fresh_item s (iclasses i) None)"
      using h1(3) by (simp add: added_def fresh_item_def)
    moreover from this have "content h' (brk h) = content h1 (brk h)"
      using h'(7) by (auto simp: content_Some_iff)
    ultimately have "Option.bind (content h' (brk h)) iname = Some s"
      "Option.bind (content h' (brk h)) iclasses = iclasses i" "texts h' ys = texts h xs"
      using h'(4) by (simp_all add: fresh_item_def)
    then show ?thesis using x by (simp add: texts_def content_def)
  qed
  moreover have "ItemGetNext h' a = ItemGetNext h a" if "a \<notin> set ds" "a < brk h" for a
    using h'(6) h1(3) that by (simp add: added_def)
  moreover have "\<forall>a \<in> set (brk h # ys). brk h \<le> a"
    using h'(5) h1(3) by (auto simp: added_def)
  ultimately show ?case using h'(2,3) keep'
    by (intro exI [of _ d'] exI [of _ "brk h # ys"] exI [of _ h']) simp
qed

section \<open>Deletions\<close>

text \<open>Removing the cell \<open>x\<close>: the list goes on around it, and the cell is freed.\<close>

definition removed :: "ItemHeap \<Rightarrow> nat \<Rightarrow> nat set \<Rightarrow> ItemHeap \<Rightarrow> bool" where
  "removed h x A h' \<longleftrightarrow> content h' = (content h)(x := None) \<and>
     (\<forall>a. a \<notin> A \<longrightarrow> a \<noteq> x \<longrightarrow> ItemGetNext h' a = ItemGetNext h a)"

lemma unlink_first:
  assumes "item_list h p (x # vs)" "cells h x = Some j"
  shows "item_list (free_item h x) (inext j) vs" "removed h x A (free_item h x)"
proof -
  have "x \<notin> set vs" using lseg_distinct [OF assms(1)] by simp
  with assms show "item_list (free_item h x) (inext j) vs" "removed h x A (free_item h x)"
    by (auto simp: next_heap ItemGetNext_def removed_def content_heap)
qed

lemma unlink:
  assumes "item_list h p (us @ w # x # vs)" "cells h w = Some i" "cells h x = Some j"
  shows "item_list (free_item (put_item h w (i\<lparr>inext := inext j\<rparr>)) x) p (us @ w # vs)"
    and "w \<in> A \<Longrightarrow> removed h x A (free_item (put_item h w (i\<lparr>inext := inext j\<rparr>)) x)"
proof -
  have "distinct (us @ w # x # vs)" using lseg_distinct [OF assms(1)] .
  with assms show "item_list (free_item (put_item h w (i\<lparr>inext := inext j\<rparr>)) x) p (us @ w # vs)"
    by (auto simp: next_heap next_Some_iff)
  show "w \<in> A \<Longrightarrow> removed h x A (free_item (put_item h w (i\<lparr>inext := inext j\<rparr>)) x)"
    using assms by (auto simp: removed_def content_heap next_heap content_def fun_eq_iff)
qed

lemma before_item_list: "item_list h p (us @ w # x # vs) \<Longrightarrow> before_item h p x = Some (Some w)"
proof -
  assume l: "item_list h p (us @ w # x # vs)"
  have "x \<notin> set us" "x \<noteq> w" using lseg_distinct [OF l] by auto
  with l have "fold_list (\<lambda>a _. Some (if inext (the (cells h a)) \<noteq> Some x \<and> inext (the (cells h a)) \<noteq> None
      then Inl () else Inr a)) (us @ w # x # vs) () = Some (Inr w)"
    by (induction us arbitrary: p) (auto simp: next_Some_iff elim: lseg.elims)
  then show ?thesis by (simp add: before_item_def for_items_list [OF l])
qed

lemma DeleteItem_list:
  assumes "item_list h p (us @ x # vs)"
  shows "\<exists>p' h'. DeleteItem h p (Some x) = Some (p', h') \<and> item_list h' p' (us @ vs) \<and>
    removed h x (set us) h'"
proof -
  obtain j where j: "cells h x = Some j" using list_cells [OF assms] by auto
  show ?thesis
  proof (cases us rule: rev_cases)
    case Nil
    with assms j unlink_first [of h p x vs j] show ?thesis
      by (auto simp: DeleteItem_def ItemGetNext_def)
  next
    case (snoc ws w)
    with assms have l: "item_list h p (ws @ w # x # vs)" by simp
    obtain i where i: "cells h w = Some i" using list_cells [OF l] by auto
    have "p \<noteq> Some x" using lseg_head [OF l] lseg_distinct [OF l] by (cases ws) auto
    then have "DeleteItem h p (Some x) =
        Some (p, free_item (put_item h w (i\<lparr>inext := inext j\<rparr>)) x)"
      using before_item_list [OF l] i j by (simp add: DeleteItem_def ItemGetNext_def put_next_eq)
    with unlink(1) [OF l i j] unlink(2) [OF l i j, of "set us"] snoc show ?thesis by auto
  qed
qed

text \<open>The loop of \<open>DeleteItemGeneral\<close> over a list whose items all have names.\<close>

definition name_at :: "ItemHeap \<Rightarrow> nat \<Rightarrow> string" where
  "name_at h a = name_of (content h a)"

definition named :: "ItemHeap \<Rightarrow> nat \<Rightarrow> bool" where
  "named h a \<longleftrightarrow> Option.bind (content h a) iname \<noteq> None"

lemma named_iff: "named h a \<longleftrightarrow> (\<exists>i. cells h a = Some i \<and> iname i = Some (name_at h a))"
  by (auto simp: named_def name_at_def content_def string_of_def bind_eq_Some_conv)

lemma delete_loop:
  assumes "\<forall>a \<in> set xs. named h a"
  shows "fold_list (\<lambda>a prev. Some (case iname (the (cells h a)) of
        None \<Rightarrow> Inl prev | Some s \<Rightarrow> if M s then Inr (a, prev) else Inl (Some a))) xs prev =
    (case find_index (\<lambda>a. M (name_at h a)) xs of
       None \<Rightarrow> Some (Inl (if xs = [] then prev else Some (last xs)))
     | Some k \<Rightarrow> Some (Inr (xs ! k, if k = 0 then prev else Some (xs ! (k - 1)))))"
  using assms
proof (induction xs arbitrary: prev)
  case (Cons x xs)
  then show ?case
    by (cases "find_index (\<lambda>a. M (name_at h a)) xs")
      (auto simp: named_iff nth_Cons' split: nat.split)
qed simp

lemma DeleteItemGeneral_list:
  assumes "item_list h p xs" "\<forall>a \<in> set xs. named h a"
  shows "case find_index (\<lambda>a. item_matches matches type str (name_at h a)) xs of
      None \<Rightarrow> DeleteItemGeneral matches h p str type = Some (False, p, h)
    | Some k \<Rightarrow> \<exists>p' h'. DeleteItemGeneral matches h p str type = Some (True, p', h') \<and>
        item_list h' p' (remove_at k xs) \<and> removed h (xs ! k) (set xs) h'"
proof (cases "find_index (\<lambda>a. item_matches matches type str (name_at h a)) xs")
  case None
  with delete_loop [OF assms(2)] show ?thesis
    by (simp add: DeleteItemGeneral_def for_items_list [OF assms(1)])
next
  case (Some k)
  from find_index_split [OF Some] obtain us x vs where xs: "xs = us @ x # vs" "length us = k"
    by metis
  obtain j where j: "cells h x = Some j" using list_cells [OF assms(1)] xs by auto
  show ?thesis
  proof (cases us rule: rev_cases)
    case Nil
    with xs have l: "item_list h p (x # vs)" "k = 0" "xs ! 0 = x" using assms(1) by simp_all
    then have eq: "DeleteItemGeneral matches h p str type =
        (if Some x = p then Some (True, inext j, free_item h x) else Some (True, p, free_item h x))"
      using delete_loop [OF assms(2)] Some j
      by (simp add: DeleteItemGeneral_def for_items_list [OF assms(1)] ItemGetNext_def del: lseg.simps)
    moreover have "Some x = p" using l(1) by simp
    ultimately have "DeleteItemGeneral matches h p str type = Some (True, inext j, free_item h x)"
      by simp
    with unlink_first [OF l(1) j] Some l xs Nil show ?thesis by auto
  next
    case (snoc ws w)
    with assms xs have l: "item_list h p (ws @ w # x # vs)" by simp
    obtain i where i: "cells h w = Some i" using list_cells [OF l] by auto
    have "p \<noteq> Some x" using lseg_head [OF l] lseg_distinct [OF l] by (cases ws) auto
    moreover have "xs ! k = x" "xs ! (k - 1) = w" "k \<noteq> 0" using xs snoc by (auto simp: nth_append)
    ultimately have "DeleteItemGeneral matches h p str type =
        Some (True, p, free_item (put_item h w (i\<lparr>inext := inext j\<rparr>)) x)"
      using delete_loop [OF assms(2)] Some i j
      by (simp add: DeleteItemGeneral_def for_items_list [OF assms(1)] ItemGetNext_def put_next_eq)
    with unlink(1) [OF l i j] unlink(2) [OF l i j, of "set xs"] snoc xs Some \<open>xs ! k = x\<close> show ?thesis
      using remove_at_middle [of us x vs] by auto
  qed
qed

section \<open>Splitting joined text\<close>

definition escape_item :: "char \<Rightarrow> string \<Rightarrow> string" where
  "escape_item sep s = concat (map (\<lambda>c. if c = sep then [CHR 0x5C, c] else [c]) s)"

fun join_items :: "char \<Rightarrow> string list \<Rightarrow> string" where
  "join_items sep [] = []"
| "join_items sep [s] = escape_item sep s"
| "join_items sep (s # t # ts) = escape_item sep s @ sep # join_items sep (t # ts)"

lemma added_names:
  assumes "added h h' A (fresh_item s c None)" "wf_heap h" "lseg (ItemGetNext h) p xs q"
  shows "map (name_at h') (xs @ [brk h]) = map (name_at h) xs @ [s]"
proof -
  have "name_at h' (brk h) = s"
    using assms(1) by (simp add: added_def name_at_def fresh_item_def string_of_def)
  moreover have "\<forall>a \<in> set xs. content h' a = content h a"
    using list_cells [OF assms(3)] added_content [OF assms(1,2)] by auto
  ultimately show ?thesis by (simp add: name_at_def)
qed

lemma split_loop_item:
  assumes "sep \<noteq> CHR 0x5C" "CHR 0x5C \<notin> set it" "length (before @ it) < CF_BUFSIZE"
    and "prev \<noteq> Some (CHR 0x5C)"
  shows "\<exists>prev'. prev' \<noteq> Some (CHR 0x5C) \<and>
    split_loop sep (escape_item sep it @ rest) prev before h l = split_loop sep rest prev' (before @ it) h l"
  using assms
proof (induction it arbitrary: before prev)
  case Nil
  then show ?case by (auto simp: escape_item_def)
next
  case (Cons c it)
  then have "CF_BUFSIZE > length (before @ [c])" by simp
  from Cons.prems Cons.IH [of "before @ [c]" "Some c"] obtain prev' where
    "prev' \<noteq> Some (CHR 0x5C)"
    "split_loop sep (escape_item sep it @ rest) (Some c) (before @ [c]) h l =
      split_loop sep rest prev' (before @ c # it) h l" by auto
  then show ?case using Cons.prems
    by (intro exI [of _ prev'], cases "c = sep") (simp_all add: escape_item_def)
qed

lemma split_loop_names:
  assumes "sep \<noteq> CHR 0x5C" "items \<noteq> []"
    and "\<forall>s \<in> set items. CHR 0x5C \<notin> set s \<and> length s < CF_BUFSIZE"
    and "wf_heap h" "item_list h l ds" "prev \<noteq> Some (CHR 0x5C)"
  shows "\<exists>p' ys h'. split_loop sep (join_items sep items) prev [] h l = Some (p', h') \<and>
    item_list h' p' ys \<and> map (name_at h') ys = map (name_at h) ds @ items"
  using assms
proof (induction sep items arbitrary: h l ds prev rule: join_items.induct)
  case (2 sep s)
  from split_loop_item [OF 2(1), of s "[]" prev "[]" h l] 2(3,6) have
    "split_loop sep (join_items sep [s]) prev [] h l = AppendItem h l s (Some [])" by auto
  with AppendItem_list [OF 2(4,5), of s "Some []"] added_names [OF _ 2(4,5)] show ?case by fastforce
next
  case (3 sep s t ts)
  from split_loop_item [OF 3(2), of s "[]" prev "sep # join_items sep (t # ts)" h l] 3(4,7)
  have eq: "split_loop sep (join_items sep (s # t # ts)) prev [] h l =
      do { (l', h') \<leftarrow> AppendItem h l s None; split_loop sep (join_items sep (t # ts)) (Some sep) [] h' l' }"
    by auto
  from AppendItem_list [OF 3(5,6), of s None] obtain l1 h1 where
    h1: "AppendItem h l s None = Some (l1, h1)" "item_list h1 l1 (ds @ [brk h])"
    "added h h1 (set ds) (fresh_item s None None)" by auto
  then have "wf_heap h1" by (simp add: added_def)
  with 3(1) [OF 3(2) _ _ _ h1(2), of "Some sep"] 3(2,4) obtain p' ys h' where
    "split_loop sep (join_items sep (t # ts)) (Some sep) [] h1 l1 = Some (p', h')"
    "item_list h' p' ys" "map (name_at h') ys = map (name_at h1) (ds @ [brk h]) @ t # ts" by auto
  with eq h1(1) added_names [OF h1(3) 3(5,6)] show ?case
    by (intro exI [of _ p'] exI [of _ ys] exI [of _ h']) (simp del: map_append)
qed simp

section \<open>Sorting by name\<close>

definition sorted_names ::
  "ItemHeap \<Rightarrow> nat option \<Rightarrow> nat list \<Rightarrow> nat list \<Rightarrow> nat option \<Rightarrow> ItemHeap \<Rightarrow> bool" where
  "sorted_names h p xs ys p' h' \<longleftrightarrow>
     SortItemListNames h p = Some (p', h') \<and> item_list h' p' ys \<and>
     mset ys = mset xs \<and> sorted_wrt (\<lambda>a b. strcmp (name_at h a) (name_at h b) \<le> 0) ys \<and>
     (\<forall>s. filter (\<lambda>a. name_at h a = s) ys = rev (filter (\<lambda>a. name_at h a = s) xs)) \<and>
     content h' = content h \<and> (\<forall>a. a \<notin> set xs \<longrightarrow> ItemGetNext h' a = ItemGetNext h a)"

lemma sort_names:
  assumes "item_list h p xs" "\<forall>a \<in> set xs. named h a"
  shows "\<exists>ys p' h'. sorted_names h p xs ys p' h'"
proof -
  let ?lt = "\<lambda>a b. strcmp (name_of (content h a)) (name_of (content h b)) < 0"
  have "\<forall>a \<in> set xs. Option.bind (content h a) iname \<noteq> None" using assms(2) by (simp add: named_def)
  from by_name.Sort_sorts [OF assms(1) this] obtain ys p' h' where
    ys: "SortItemListNames h p = Some (p', h')" "item_list h' p' ys" "mset ys = mset xs"
    "sorted_wrt (\<lambda>a b. \<not> ?lt b a) ys"
    "\<forall>c. filter (equals ?lt c) ys = rev (filter (equals ?lt c) xs)"
    "content h' = content h" "\<forall>a. a \<notin> set xs \<longrightarrow> ItemGetNext h' a = ItemGetNext h a"
    unfolding SortItemListNames_def by blast
  have "sorted_wrt (\<lambda>a b. strcmp (name_at h a) (name_at h b) \<le> 0) ys"
    using ys(4) by (rule sorted_wrt_mono_rel [rotated])
      (simp add: name_at_def strcmp_swap)
  moreover have "filter (\<lambda>a. name_at h a = s) ys = rev (filter (\<lambda>a. name_at h a = s) xs)" for s
  proof (cases "\<exists>c. name_at h c = s")
    case True
    then obtain c where c: "name_at h c = s" by blast
    have "equals ?lt c = (\<lambda>a. name_at h a = s)"
      using c strcmp_total [of s] by (auto simp: fun_eq_iff equals_def name_at_def) metis
    with ys(5) show ?thesis by metis
  qed simp
  ultimately show ?thesis using ys unfolding sorted_names_def by blast
qed

section \<open>Properties\<close>

definition example_heap :: "string list \<Rightarrow> ItemHeap" where
  "example_heap names =
     \<lparr>cells = (\<lambda>a. if 5000 \<le> a \<and> a < 5000 + length names
         then Some (fresh_item (names ! (a - 5000)) None
           (if Suc a < 5000 + length names then Some (Suc a) else None))
         else None),
      brk = 5000 + length names\<rparr>"

text \<open>C20. Sorting a list of named items by name always returns. The result is a list of the same
  cells with the same contents, in order; cells outside the list keep their links.\<close>

theorem sort_item_list_names:
  assumes "item_list h p xs" "\<forall>a \<in> set xs. named h a"
  shows "\<exists>ys p' h'. SortItemListNames h p = Some (p', h') \<and> item_list h' p' ys \<and>
    mset ys = mset xs \<and> sorted_wrt (\<lambda>a b. strcmp (name_at h a) (name_at h b) \<le> 0) ys \<and>
    content h' = content h \<and> (\<forall>a. a \<notin> set xs \<longrightarrow> ItemGetNext h' a = ItemGetNext h a)"
proof -
  from sort_names [OF assms] obtain ys p' h' where "sorted_names h p xs ys p' h'" by blast
  then show ?thesis unfolding sorted_names_def by blast
qed

theorem sort_item_list_names_witness:
  "\<exists>ys p' h'. SortItemListNames (example_heap [''b'', ''c'', ''a'']) (Some 5000) = Some (p', h') \<and>
    item_list h' p' ys \<and> mset ys = {#5000, 5001, 5002#} \<and>
    sorted_wrt (\<lambda>a b. strcmp (name_at (example_heap [''b'', ''c'', ''a'']) a)
      (name_at (example_heap [''b'', ''c'', ''a'']) b) \<le> 0) ys"
proof -
  have "item_list (example_heap [''b'', ''c'', ''a'']) (Some 5000) [5000, 5001, 5002]"
    "\<forall>a \<in> set [5000, 5001, 5002]. named (example_heap [''b'', ''c'', ''a'']) a"
    by (auto simp: example_heap_def ItemGetNext_def fresh_item_def named_iff name_at_def content_def string_of_def)
  from sort_item_list_names [OF this] show ?thesis by auto
qed

text \<open>The sort is not stable: items with equal names come out in the reverse of their order,
  although the comment in the code says that an element that is the same is taken from the first run.\<close>

theorem sort_item_list_reverses_ties:
  assumes "item_list h p xs" "\<forall>a \<in> set xs. named h a"
  shows "\<exists>ys p' h'. SortItemListNames h p = Some (p', h') \<and> item_list h' p' ys \<and>
    mset ys = mset xs \<and> filter (\<lambda>a. name_at h a = s) ys = rev (filter (\<lambda>a. name_at h a = s) xs)"
proof -
  from sort_names [OF assms] obtain ys p' h' where "sorted_names h p xs ys p' h'" by blast
  then show ?thesis unfolding sorted_names_def by blast
qed

theorem sort_item_list_reverses_ties_witness:
  "\<exists>p' h'. SortItemListNames (example_heap [''a'', ''a'', ''a'']) (Some 5000) = Some (p', h') \<and>
    item_list h' p' [5002, 5001, 5000]"
proof -
  let ?h = "example_heap [''a'', ''a'', ''a'']"
  have names: "\<forall>a \<in> {5000, 5001, 5002}. name_at ?h a = ''a'' \<and> named ?h a"
    by (auto simp: example_heap_def fresh_item_def named_iff name_at_def content_def string_of_def)
  have "item_list ?h (Some 5000) [5000, 5001, 5002]"
    by (auto simp: example_heap_def ItemGetNext_def fresh_item_def)
  from sort_item_list_reverses_ties [OF this, of "''a''"] names obtain ys p' h' where
    ys: "SortItemListNames ?h (Some 5000) = Some (p', h')" "item_list h' p' ys"
    "mset ys = mset [5000, 5001, 5002]" "filter (\<lambda>a. name_at ?h a = ''a'') ys = [5002, 5001, 5000]"
    by auto
  moreover have "set ys = {5000, 5001, 5002}" using mset_eq_setD [OF ys(3)] by simp
  ultimately have "filter (\<lambda>a. name_at ?h a = ''a'') ys = ys" using names by (simp add: filter_id_conv)
  with ys show ?thesis by auto
qed

text \<open>C21. Deleting from a list of named items removes the first item that matches in the chosen
  sense, frees exactly its cell, and returns whether there was one; without a match nothing changes.\<close>

theorem delete_item_general:
  assumes "item_list h p xs" "\<forall>a \<in> set xs. named h a"
  shows "case find_index (\<lambda>a. item_matches matches type str (name_at h a)) xs of
      None \<Rightarrow> DeleteItemGeneral matches h p str type = Some (False, p, h)
    | Some k \<Rightarrow> \<exists>p' h'. DeleteItemGeneral matches h p str type = Some (True, p', h') \<and>
        item_list h' p' (remove_at k xs) \<and> content h' = (content h)(xs ! k := None)"
  using DeleteItemGeneral_list [OF assms, of matches str type]
  by (auto simp: removed_def split: option.splits)

theorem delete_item_general_witness:
  "\<exists>p' h'. DeleteItemGeneral (\<lambda>_ _. False) (example_heap [''ab'', ''ac'', ''a'']) (Some 5000) ''ac''
      ITEM_MATCH_TYPE_LITERAL_SOMEWHERE = Some (True, p', h') \<and> item_list h' p' [5000, 5002]"
proof -
  let ?h = "example_heap [''ab'', ''ac'', ''a'']"
  have names: "name_at ?h 5000 = ''ab''" "name_at ?h 5001 = ''ac''" "name_at ?h 5002 = ''a''"
    "\<forall>a \<in> set [5000, 5001, 5002]. named ?h a"
    by (auto simp: example_heap_def fresh_item_def named_iff name_at_def content_def string_of_def)
  have "item_list ?h (Some 5000) [5000, 5001, 5002]"
    by (auto simp: example_heap_def ItemGetNext_def fresh_item_def)
  from delete_item_general [OF this names(4), of "\<lambda>_ _. False" "''ac''" ITEM_MATCH_TYPE_LITERAL_SOMEWHERE]
    names show ?thesis by (auto simp: remove_at_def)
qed

text \<open>An item without a name breaks it: when only nameless items come before the match, the cell
  is freed but stays linked, so the list runs into freed memory.\<close>

definition nameless_heap :: ItemHeap where
  "nameless_heap =
     \<lparr>cells = [5000 \<mapsto> \<lparr>iname = None, iclasses = None, icounter = 0, itime = 0, inext = Some 5001\<rparr>,
        5001 \<mapsto> fresh_item ''a'' None None], brk = 5002\<rparr>"

theorem delete_after_nameless_dangles:
  "case DeleteItemLiteral matches nameless_heap (Some 5000) ''a'' of
     Some (b, p', h') \<Rightarrow> b \<and> p' = Some 5000 \<and> ItemGetNext h' 5000 = Some (Some 5001) \<and> cells h' 5001 = None
   | None \<Rightarrow> False"
  by (simp add: DeleteItemLiteral_def DeleteItemGeneral_def nameless_heap_def fresh_item_def
      for_list.simps ItemGetNext_def free_item_def)

text \<open>Copying a list of named items gives a separate list with the same names and classes, and
  leaves every cell of the source as it was.\<close>

theorem copy_list:
  assumes "wf_heap h" "item_list h p xs" "\<forall>a \<in> set xs. named h a"
  shows "\<exists>d ys h'. CopyList h None p = Some (d, h') \<and> item_list h' d ys \<and> wf_heap h' \<and>
    texts h' ys = texts h xs \<and> item_list h' p xs \<and> set xs \<inter> set ys = {} \<and>
    (\<forall>a. cells h a \<noteq> None \<longrightarrow> content h' a = content h a)"
proof -
  from copy_loop_list [OF assms(1,2), of None "[]"] assms(3) obtain d ys h' where
    ys: "copy_loop h None p = Some (d, h')" "item_list h' d ys" "wf_heap h'" "texts h' ys = texts h xs"
    "\<forall>a \<in> set ys. brk h \<le> a" "\<forall>a. a < brk h \<longrightarrow> ItemGetNext h' a = ItemGetNext h a"
    "\<forall>a. cells h a \<noteq> None \<longrightarrow> content h' a = content h a"
    by (auto simp: named_def)
  have old: "\<forall>a \<in> set xs. a < brk h"
    using list_cells [OF assms(2)] assms(1) by (auto simp: wf_heap_def)
  then have "item_list h' p xs = item_list h p xs" using ys(6) by (intro lseg_cong) auto
  moreover have "set xs \<inter> set ys = {}" using old ys(5) by fastforce
  ultimately show ?thesis using ys assms(2) by (auto simp: CopyList_def)
qed

theorem copy_list_witness:
  "\<exists>d ys h'. CopyList (example_heap [''x'', ''y'']) None (Some 5000) = Some (d, h') \<and> item_list h' d ys \<and>
    texts h' ys = [(Some ''x'', None), (Some ''y'', None)]"
proof -
  let ?h = "example_heap [''x'', ''y'']"
  have "wf_heap ?h" "item_list ?h (Some 5000) [5000, 5001]" "\<forall>a \<in> set [5000, 5001]. named ?h a"
    "texts ?h [5000, 5001] = [(Some ''x'', None), (Some ''y'', None)]"
    by (auto simp: wf_heap_def example_heap_def ItemGetNext_def fresh_item_def named_iff name_at_def
        content_def string_of_def texts_def split: if_splits)
  with copy_list [OF this(1-3)] show ?thesis by auto
qed

text \<open>Splitting a joined text gives back the items, when the separator is escaped inside them
  with a backslash, they hold no backslash themselves and fit the buffer.\<close>

theorem split_string_roundtrip:
  assumes "sep \<noteq> CHR 0x5C" "items \<noteq> []" "wf_heap h"
    and "\<forall>s \<in> set items. CHR 0x5C \<notin> set s \<and> length s < CF_BUFSIZE"
  shows "\<exists>p ys h'. SplitString h (join_items sep items) sep = Some (p, h') \<and>
    item_list h' p ys \<and> map (name_at h') ys = items"
  using split_loop_names [OF assms(1,2,4,3), of None "[]" None] by (simp add: SplitString_def)

theorem split_string_roundtrip_witness:
  "\<exists>p ys h'. SplitString (example_heap []) [CHR ''a'', CHR 0x5C, CHR '','', CHR ''b'', CHR '','', CHR ''c'']
      CHR '','' = Some (p, h') \<and> item_list h' p ys \<and> map (name_at h') ys = [''a,b'', ''c'']"
proof -
  have "wf_heap (example_heap [])" by (simp add: wf_heap_def example_heap_def)
  from split_string_roundtrip [OF _ _ this, of "CHR '',''" "[''a,b'', ''c'']"] show ?thesis
    by (simp add: CF_BUFSIZE_def escape_item_def)
qed

end
