(* ===== verification/Value_List.thy ===== *)
theory Value_List
  imports Item_List
begin

text \<open>
  Right-hand-side values and their lists, \<open>libpromises/rlist.c\<close>. An \<open>Rlist\<close> is a HOL list of
  values, so ownership of memory is not modelled: the destructors have no counterpart, and a
  returned pointer to a cell is its position. Items are not \<open>NULL\<close>, except where a function
  takes a C string that may be (an option).

  The parser of lists printed by modules is the state machine of the code, with its fixed buffer;
  a write outside a buffer is \<open>None\<close>.
\<close>

datatype Rval =
  Scalar string
| ListVal "Rval list"
| FnCall string "Rval list"
| NoPromisee

datatype RvalType = RVAL_TYPE_SCALAR | RVAL_TYPE_LIST | RVAL_TYPE_FNCALL | RVAL_TYPE_NOPROMISEE

fun rval_type :: "Rval \<Rightarrow> RvalType" where
  "rval_type (Scalar s) = RVAL_TYPE_SCALAR"
| "rval_type (ListVal l) = RVAL_TYPE_LIST"
| "rval_type (FnCall f args) = RVAL_TYPE_FNCALL"
| "rval_type NoPromisee = RVAL_TYPE_NOPROMISEE"

text \<open>The accessors; \<open>None\<close> is the programming error of the code.\<close>

fun RvalScalarValue :: "Rval \<Rightarrow> string option" where
  "RvalScalarValue (Scalar s) = Some s"
| "RvalScalarValue _ = None"

fun RvalFnCallValue :: "Rval \<Rightarrow> (string \<times> Rval list) option" where
  "RvalFnCallValue (FnCall f args) = Some (f, args)"
| "RvalFnCallValue _ = None"

fun RvalRlistValue :: "Rval \<Rightarrow> Rval list option" where
  "RvalRlistValue (ListVal l) = Some l"
| "RvalRlistValue _ = None"

section \<open>Searching\<close>

definition RlistKeyIn :: "Rval list \<Rightarrow> string \<Rightarrow> nat option" where
  "RlistKeyIn list key = find_index (\<lambda>r. case r of Scalar s \<Rightarrow> strcmp s key = 0 | _ \<Rightarrow> False) list"

definition RlistIsStringIn :: "Rval list \<Rightarrow> string option \<Rightarrow> bool" where
  "RlistIsStringIn list s =
     (case s of
        None \<Rightarrow> False
      | Some t \<Rightarrow> list \<noteq> [] \<and>
          find_index (\<lambda>r. case r of Scalar u \<Rightarrow> strcmp t u = 0 | _ \<Rightarrow> False) list \<noteq> None)"

definition RlistIsIntIn :: "Rval list \<Rightarrow> int \<Rightarrow> bool" where
  "RlistIsIntIn list i \<longleftrightarrow> list \<noteq> [] \<and>
     find_index (\<lambda>r. case r of Scalar u \<Rightarrow> strcmp (show_int i) u = 0 | _ \<Rightarrow> False) list \<noteq> None"

definition RlistIsInListOfRegex :: "(string \<Rightarrow> string \<Rightarrow> bool) \<Rightarrow> Rval list \<Rightarrow> string option \<Rightarrow> bool"
where
  "RlistIsInListOfRegex matches list str =
     (case str of
        None \<Rightarrow> False
      | Some t \<Rightarrow> list \<noteq> [] \<and>
          find_index (\<lambda>r. case r of Scalar u \<Rightarrow> matches u t | _ \<Rightarrow> False) list \<noteq> None)"

definition RlistLen :: "Rval list \<Rightarrow> int" where
  "RlistLen start = fold (\<lambda>_ cnt. cnt + 1) start 0"

definition RlistLast :: "Rval list \<Rightarrow> nat option" where
  "RlistLast start = (if start = [] then None else Some (length start - 1))"

section \<open>Adding and copying\<close>

definition RvalCopyScalar :: "string option \<Rightarrow> Rval" where
  "RvalCopyScalar item = (case item of Some s \<Rightarrow> Scalar s | None \<Rightarrow> Scalar [])"

definition RlistAppendRval :: "Rval list \<Rightarrow> Rval \<Rightarrow> Rval list" where
  "RlistAppendRval start rval = start @ [rval]"

definition RlistPrependRval :: "Rval list \<Rightarrow> Rval \<Rightarrow> Rval list" where
  "RlistPrependRval start rval = rval # start"

definition RlistAppendScalar :: "Rval list \<Rightarrow> string option \<Rightarrow> Rval list" where
  "RlistAppendScalar start scalar = RlistAppendRval start (RvalCopyScalar scalar)"

definition RlistPrependScalar :: "Rval list \<Rightarrow> string option \<Rightarrow> Rval list" where
  "RlistPrependScalar start scalar = RlistPrependRval start (RvalCopyScalar scalar)"

definition RlistAppendScalarIdemp :: "Rval list \<Rightarrow> string \<Rightarrow> bool \<times> Rval list" where
  "RlistAppendScalarIdemp start scalar =
     (if RlistKeyIn start scalar = None then (True, RlistAppendScalar start (Some scalar))
      else (False, start))"

definition RlistPrependScalarIdemp :: "Rval list \<Rightarrow> string \<Rightarrow> bool \<times> Rval list" where
  "RlistPrependScalarIdemp start scalar =
     (if RlistKeyIn start scalar = None then (True, RlistPrependScalar start (Some scalar))
      else (False, start))"

text \<open>
  \<open>RlistAppend\<close> adds the elements of a list one by one; it copies function calls, whose
  arguments are copied by \<open>RlistCopy\<close>, that is, appended one by one to an empty list.
\<close>

fun RlistAppend :: "Rval list \<Rightarrow> Rval \<Rightarrow> Rval list" where
  "RlistAppend start (Scalar s) = RlistAppendScalar start (Some s)"
| "RlistAppend start (FnCall f args) = start @ [FnCall f (foldl RlistAppend [] args)]"
| "RlistAppend start (ListVal l) = foldl RlistAppend start l"
| "RlistAppend start NoPromisee = start"

definition RlistCopy :: "Rval list \<Rightarrow> Rval list" where
  "RlistCopy list = foldl RlistAppend [] list"

fun RvalCopy :: "Rval \<Rightarrow> Rval" where
  "RvalCopy (Scalar s) = RvalCopyScalar (Some s)"
| "RvalCopy (FnCall f args) = FnCall f (RlistCopy args)"
| "RvalCopy (ListVal l) = ListVal (foldl RlistAppend [] l)"
| "RvalCopy NoPromisee = NoPromisee"

fun RlistPrepend :: "Rval list \<Rightarrow> Rval \<Rightarrow> Rval list" where
  "RlistPrepend start (Scalar s) = RlistPrependScalar start (Some s)"
| "RlistPrepend start (ListVal l) = foldl RlistPrepend start l"
| "RlistPrepend start (FnCall f args) = RlistPrependRval start (RvalCopy (FnCall f args))"
| "RlistPrepend start NoPromisee = start"

text \<open>Only scalars and lists are added idempotently by the code's callers; a call compares its
  \<open>FnCall\<close> object as if it were a string, which is not modelled (\<open>None\<close>).\<close>

fun RlistAppendIdemp :: "Rval list \<Rightarrow> Rval \<Rightarrow> Rval list option" where
  "RlistAppendIdemp start (ListVal l) =
     foldl (\<lambda>acc r. case acc of None \<Rightarrow> None | Some st \<Rightarrow> RlistAppendIdemp st r) (Some start) l"
| "RlistAppendIdemp start (Scalar s) =
     Some (if RlistKeyIn start s = None then RlistAppend start (Scalar s) else start)"
| "RlistAppendIdemp start _ = None"

text \<open>\<open>RlistDestroyEntry\<close> for the entry at a position; \<open>RlistFilter\<close>; \<open>RlistReverse\<close>.\<close>

definition RlistDestroyEntry :: "Rval list \<Rightarrow> nat \<Rightarrow> Rval list" where
  "RlistDestroyEntry list entry = remove_at entry list"

fun filter_loop :: "(Rval \<Rightarrow> bool) \<Rightarrow> Rval list \<Rightarrow> Rval list \<Rightarrow> Rval list" where
  "filter_loop keep kept [] = kept"
| "filter_loop keep kept (r # rest) =
     (if \<not> keep r then filter_loop keep kept rest else filter_loop keep (kept @ [r]) rest)"

definition RlistFilter :: "(Rval \<Rightarrow> bool) \<Rightarrow> Rval list \<Rightarrow> Rval list" where
  "RlistFilter keep list = filter_loop keep [] list"

fun reverse_loop :: "Rval list \<Rightarrow> Rval list \<Rightarrow> Rval list" where
  "reverse_loop [] prev = prev"
| "reverse_loop (tmp # rest) prev = reverse_loop rest (tmp # prev)"

definition RlistReverse :: "Rval list \<Rightarrow> Rval list" where
  "RlistReverse list = reverse_loop list []"

section \<open>Splitting strings\<close>

text \<open>
  \<open>SubStrnCopyChr\<close> returns how many characters it wrote, and the characters. When it has written
  \<open>len\<close> of them there is no room for the terminating NUL.
\<close>

fun substrn_loop :: "char \<Rightarrow> nat \<Rightarrow> string \<Rightarrow> nat \<Rightarrow> string \<Rightarrow> nat \<times> string" where
  "substrn_loop sep len [] cnt to = (cnt, to)"
| "substrn_loop sep len [c] cnt to =
     (if len \<le> cnt then (cnt, to)
      else if c = sep then (cnt, to)
      else (Suc cnt, to @ [c]))"
| "substrn_loop sep len (c # d # cs) cnt to =
     (if len \<le> cnt then (cnt, to)
      else if c = CHR 0x5C \<and> d = sep then substrn_loop sep len cs (Suc cnt) (to @ [d])
      else if c = sep then (cnt, to)
      else substrn_loop sep len (d # cs) (Suc cnt) (to @ [c]))"

definition SubStrnCopyChr :: "string \<Rightarrow> nat \<Rightarrow> char \<Rightarrow> nat \<times> string" where
  "SubStrnCopyChr from len sep = substrn_loop sep len from 0 []"

text \<open>
  The code steps over as many characters as were written, and then over one more. An item that
  fills the buffer is not terminated.
\<close>

function split_string_loop :: "char \<Rightarrow> string \<Rightarrow> Rval list \<Rightarrow> Rval list option" where
  "split_string_loop sep s liststart =
     (if s = [] then Some liststart
      else
        (let (cnt, node) = SubStrnCopyChr s CF_MAXVARSIZE sep in
         if CF_MAXVARSIZE \<le> cnt then None
         else split_string_loop sep (drop 1 (drop cnt s)) (RlistAppendScalar liststart (Some node))))"
  by pat_completeness auto
termination
  by (relation "measure (\<lambda>(_, s, _). length s)") auto

declare split_string_loop.simps [simp del]

definition RlistFromSplitString :: "string option \<Rightarrow> char \<Rightarrow> Rval list option" where
  "RlistFromSplitString str sep =
     (case str of None \<Rightarrow> Some [] | Some s \<Rightarrow> split_string_loop sep s [])"

text \<open>
  \<open>RlistFromSplitRegex\<close>, given the offsets \<open>BlockTextMatch\<close> finds for the regular expression in
  the rest of the string. Offsets outside the string, and a piece that does not fit the buffer
  with its NUL, are \<open>None\<close>.
\<close>

function split_regex_loop ::
  "(string \<Rightarrow> (nat \<times> nat) option) \<Rightarrow> int \<Rightarrow> bool \<Rightarrow> string \<Rightarrow> int \<Rightarrow> Rval list \<Rightarrow>
   (string \<times> int \<times> Rval list) option" where
  "split_regex_loop find_match limit blanks sp cnt liststart =
     (if cnt < limit then
        (case find_match sp of
           None \<Rightarrow> Some (sp, cnt, liststart)
         | Some (start, stop) \<Rightarrow>
             if stop = 0 then Some (sp, cnt, liststart)
             else if length sp < stop \<or> stop < start \<or> CF_MAXVARSIZE \<le> start then None
             else if blanks \<or> start > 0
               then split_regex_loop find_match limit blanks (drop stop sp) (cnt + 1)
                      (RlistAppendScalar liststart (Some (take start sp)))
             else split_regex_loop find_match limit blanks (drop stop sp) cnt liststart)
      else Some (sp, cnt, liststart))"
  by pat_completeness auto
termination
  by (relation "measure (\<lambda>(_, _, _, sp, _, _). length sp)") auto

declare split_regex_loop.simps [simp del]

definition RlistFromSplitRegex ::
  "(string \<Rightarrow> (nat \<times> nat) option) \<Rightarrow> string option \<Rightarrow> int \<Rightarrow> bool \<Rightarrow> Rval list option" where
  "RlistFromSplitRegex find_match str limit blanks =
     (case str of
        None \<Rightarrow> Some []
      | Some s \<Rightarrow>
          do {
            (sp, cnt, liststart) \<leftarrow> split_regex_loop find_match limit blanks s 0 [];
            Some (if cnt < limit \<and> ((blanks \<and> length sp \<noteq> length s) \<or> sp \<noteq> [])
                  then RlistAppendScalar liststart (Some (take (CF_MAXVARSIZE - 1) sp))
                  else liststart)
          })"

section \<open>The parser of module lists\<close>

datatype state =
  ST_OPENED | ST_PRECLOSED | ST_CLOSED | ST_IO | ST_ELM1 | ST_ELM2 | ST_END1 | ST_END2 | ST_SEP | ST_ERROR

definition CLASS_BLANK :: "char \<Rightarrow> bool" where
  "CLASS_BLANK c \<longleftrightarrow> c = CHR '' '' \<or> c = CHR 0x09"

definition CLASS_START1 :: "char \<Rightarrow> bool" where
  "CLASS_START1 c \<longleftrightarrow> c = CHR 0x27"

definition CLASS_START2 :: "char \<Rightarrow> bool" where
  "CLASS_START2 c \<longleftrightarrow> c = CHR 0x22"

definition CLASS_BRA1 :: "char \<Rightarrow> bool" where
  "CLASS_BRA1 c \<longleftrightarrow> c = CHR ''{''"

definition CLASS_BRA2 :: "char \<Rightarrow> bool" where
  "CLASS_BRA2 c \<longleftrightarrow> c = CHR ''}''"

definition CLASS_SEP :: "char \<Rightarrow> bool" where
  "CLASS_SEP c \<longleftrightarrow> c = CHR '',''"

text \<open>
  The buffer \<open>snatched\<close> up to \<open>sn\<close>, or \<open>None\<close> when \<open>sn\<close> is \<open>NULL\<close>, which a write sets to the
  start of the buffer. The step reads a character that is not NUL.
\<close>

definition snatch :: "string option \<Rightarrow> string" where
  "snatch sn = (case sn of None \<Rightarrow> [] | Some s \<Rightarrow> s)"

type_synonym machine = "state \<times> string option \<times> Rval list"

definition in_element :: "state \<Rightarrow> state \<Rightarrow> bool \<Rightarrow> string option \<Rightarrow> Rval list \<Rightarrow> char \<Rightarrow> machine option" where
  "in_element elm fin is_end sn newlist c =
     (if CF_MAXVARSIZE \<le> length (snatch sn) then None
      else if is_end then Some (fin, None, RlistAppendScalar newlist (Some (snatch sn)))
      else Some (elm, Some (snatch sn @ [c]), newlist))"

definition after_element :: "state \<Rightarrow> string option \<Rightarrow> Rval list \<Rightarrow> char \<Rightarrow> machine option" where
  "after_element fin sn newlist c =
     Some (if CLASS_SEP c then ST_SEP
           else if CLASS_BRA2 c then ST_PRECLOSED
           else if CLASS_BLANK c then fin
           else ST_ERROR, sn, newlist)"

fun machine_step :: "state \<Rightarrow> string option \<Rightarrow> Rval list \<Rightarrow> char \<Rightarrow> machine option" where
  "machine_step ST_OPENED sn newlist c =
     Some (if CLASS_BLANK c then ST_OPENED else if CLASS_BRA1 c then ST_IO else ST_ERROR, sn, newlist)"
| "machine_step ST_IO sn newlist c =
     Some (if CLASS_BLANK c then (ST_IO, sn, newlist)
           else if CLASS_START1 c then (ST_ELM1, Some [], newlist)
           else if CLASS_START2 c then (ST_ELM2, Some [], newlist)
           else (ST_ERROR, sn, newlist))"
| "machine_step ST_ELM1 sn newlist c = in_element ST_ELM1 ST_END1 (CLASS_START1 c) sn newlist c"
| "machine_step ST_ELM2 sn newlist c = in_element ST_ELM2 ST_END2 (CLASS_START2 c) sn newlist c"
| "machine_step ST_END1 sn newlist c = after_element ST_END1 sn newlist c"
| "machine_step ST_END2 sn newlist c = after_element ST_END2 sn newlist c"
| "machine_step ST_SEP sn newlist c =
     Some (if CLASS_BLANK c then ST_SEP
           else if CLASS_START1 c then ST_ELM1
           else if CLASS_START2 c then ST_ELM2
           else ST_ERROR, sn, newlist)"
| "machine_step ST_PRECLOSED sn newlist c =
     Some (if CLASS_BLANK c then ST_PRECLOSED else ST_ERROR, sn, newlist)"
| "machine_step st sn newlist c = Some (st, sn, newlist)"

text \<open>The result is the error code, or the list.\<close>

fun machine_loop :: "state \<Rightarrow> string option \<Rightarrow> Rval list \<Rightarrow> string \<Rightarrow> (nat + Rval list) option" where
  "machine_loop st sn newlist [] =
     Some (if st \<noteq> ST_CLOSED \<and> st \<noteq> ST_PRECLOSED then Inl 3 else Inr newlist)"
| "machine_loop st sn newlist (c # cs) =
     (if st = ST_CLOSED then Some (Inr newlist)
      else if st = ST_ERROR then Some (Inl 1)
      else do {
        (st', sn', newlist') \<leftarrow> machine_step st sn newlist c;
        machine_loop st' sn' newlist' cs
      })"

definition LaunchParsingMachine :: "string \<Rightarrow> (nat + Rval list) option" where
  "LaunchParsingMachine str = machine_loop ST_OPENED None [] str"

definition RlistParseString :: "string \<Rightarrow> Rval list option" where
  "RlistParseString str =
     do {
       r \<leftarrow> LaunchParsingMachine str;
       Some (case r of Inr l \<Rightarrow> l | Inl _ \<Rightarrow> [])
     }"

section \<open>Writing\<close>

fun ScalarWrite :: "string \<Rightarrow> string" where
  "ScalarWrite [] = []"
| "ScalarWrite (c # cs) = (if c = CHR 0x27 then [CHR 0x5C] else []) @ [c] @ ScalarWrite cs"

fun FnCallWrite :: "string \<Rightarrow> Rval list \<Rightarrow> string" and arg_write :: "Rval \<Rightarrow> string" where
  "FnCallWrite f args = f @ ''('' @ join_with '','' (map arg_write args) @ '')''"
| "arg_write (Scalar s) = s"
| "arg_write (FnCall f args) = FnCallWrite f args"
| "arg_write _ = ''(** Unknown argument **)'' @ [CHR 0x0A]"

text \<open>The empty list is \<open>NULL\<close>, for which \<open>RvalWrite\<close> writes nothing.\<close>

fun RvalWrite :: "Rval \<Rightarrow> string" and RlistWrite :: "Rval list \<Rightarrow> string" where
  "RvalWrite (Scalar s) = ScalarWrite s"
| "RvalWrite (ListVal l) = (if l = [] then [] else RlistWrite l)"
| "RvalWrite (FnCall f args) = FnCallWrite f args"
| "RvalWrite NoPromisee = []"
| "RlistWrite list =
     '' {'' @ join_with '','' (map (\<lambda>r. [CHR 0x27] @ RvalWrite r @ [CHR 0x27]) list) @ ''}''"

section \<open>Copying flattens\<close>

fun flat :: "Rval \<Rightarrow> Rval list" where
  "flat (Scalar s) = [Scalar s]"
| "flat (FnCall f args) = [FnCall f (concat (map flat args))]"
| "flat (ListVal l) = concat (map flat l)"
| "flat NoPromisee = []"

lemma foldl_appends: "\<forall>x \<in> set l. \<forall>st. g st x = st @ h x \<Longrightarrow> foldl g st l = st @ concat (map h l)"
  by (induction l arbitrary: st) auto

lemma RlistAppend_flat: "RlistAppend start r = start @ flat r"
proof (induction r arbitrary: start)
  case (FnCall f args)
  then show ?case using foldl_appends [of args RlistAppend flat "[]"] by simp
next
  case (ListVal l)
  then show ?case using foldl_appends [of l RlistAppend flat start] by simp
qed (simp_all add: RlistAppendScalar_def RlistAppendRval_def RvalCopyScalar_def)

lemma RlistCopy_flat: "RlistCopy l = concat (map flat l)"
  unfolding RlistCopy_def using foldl_appends [of l RlistAppend flat "[]"] RlistAppend_flat by simp

lemma flat_flat: "concat (map flat (flat r)) = flat r"
proof (induction r)
  case (FnCall f args)
  then have "concat (map flat (concat (map flat args))) = concat (map flat args)"
    by (induction args) auto
  then show ?case by simp
next
  case (ListVal l)
  then show ?case by (induction l) auto
qed simp_all

text \<open>A value list without lists in it, the arguments of calls included.\<close>

fun flat_value :: "Rval \<Rightarrow> bool" where
  "flat_value (Scalar s) \<longleftrightarrow> True"
| "flat_value (FnCall f args) \<longleftrightarrow> list_all flat_value args"
| "flat_value (ListVal l) \<longleftrightarrow> False"
| "flat_value NoPromisee \<longleftrightarrow> False"

lemma flat_value_flat: "list_all flat_value (flat r)"
  by (induction r) (auto simp: list_all_iff)

lemma flat_id: "flat_value r \<Longrightarrow> flat r = [r]"
proof (induction r)
  case (FnCall f args)
  then have "\<forall>x \<in> set args. flat x = [x]" by (auto simp: list_all_iff)
  then have "concat (map flat args) = args" by (induction args) auto
  then show ?case by simp
qed simp_all

section \<open>Splitting without escapes\<close>

lemma substrn_takeWhile:
  assumes "CHR 0x5C \<notin> set s" "n + length (takeWhile (\<lambda>c. c \<noteq> sep) s) < len"
  shows "substrn_loop sep len s n to =
    (n + length (takeWhile (\<lambda>c. c \<noteq> sep) s), to @ takeWhile (\<lambda>c. c \<noteq> sep) s)"
  using assms
  by (induction sep len s n to rule: substrn_loop.induct) (auto split: if_splits)

definition drop_last_empty :: "string list \<Rightarrow> string list" where
  "drop_last_empty ts = (if ts \<noteq> [] \<and> last ts = [] then butlast ts else ts)"

lemma drop_last_empty_Cons: "ts \<noteq> [] \<Longrightarrow> drop_last_empty (t # ts) = t # drop_last_empty ts"
  by (simp add: drop_last_empty_def)

lemma split_string_tokens:
  assumes "CHR 0x5C \<notin> set s" "\<forall>t \<in> set (strsep_tokens sep s). length t < CF_MAXVARSIZE"
  shows "split_string_loop sep s l = Some (l @ map Scalar (drop_last_empty (strsep_tokens sep s)))"
  using assms
proof (induction s arbitrary: l rule: measure_induct_rule [of length])
  case (less s)
  let ?t = "takeWhile (\<lambda>c. c \<noteq> sep) s"
  have notin: "sep \<notin> set ?t" by (auto dest: set_takeWhileD)
  show ?case
  proof (cases "sep \<in> set s")
    case False
    then have "?t = s" by (auto simp: takeWhile_eq_all_conv)
    with less.prems False substrn_takeWhile [of s 0 sep CF_MAXVARSIZE "[]"] show ?thesis
      by (cases "s = []")
        (simp_all add: split_string_loop.simps [of sep s] split_string_loop.simps [of sep "[]"]
          SubStrnCopyChr_def drop_last_empty_def RlistAppendScalar_def RlistAppendRval_def RvalCopyScalar_def)
  next
    case True
    then obtain u r where "s = u @ sep # r" "sep \<notin> set u" by (auto dest: split_list_first)
    moreover have "sep \<notin> set u \<Longrightarrow> takeWhile (\<lambda>c. c \<noteq> sep) (u @ sep # r) = u"
      by (induction u) auto
    ultimately have s: "s = ?t @ sep # r" by simp
    have toks: "strsep_tokens sep s = ?t # strsep_tokens sep r"
      using strsep_tokens_cons [OF notin, of r] s by simp
    have "set r \<subseteq> set s" "length r < length s"
      by (subst s, force, subst s, simp)
    then have "CHR 0x5C \<notin> set r" "length r < length s" using less.prems(1) by auto
    then have IH: "split_string_loop sep r l' =
        Some (l' @ map Scalar (drop_last_empty (strsep_tokens sep r)))" for l'
      using less.IH [of r] less.prems(2) toks by simp
    have "SubStrnCopyChr s CF_MAXVARSIZE sep = (length ?t, ?t)" "length ?t < CF_MAXVARSIZE"
      using substrn_takeWhile [OF less.prems(1), of 0 sep CF_MAXVARSIZE "[]"] less.prems(2) toks
      by (simp_all add: SubStrnCopyChr_def)
    moreover have "drop (length ?t) (?t @ sep # r) = sep # r" by simp
    then have "drop 1 (drop (length ?t) s) = r" using s by (metis One_nat_def drop_Suc_Cons drop_0)
    moreover have "s \<noteq> []" using True by auto
    ultimately have "split_string_loop sep s l = split_string_loop sep r (RlistAppendScalar l (Some ?t))"
      by (subst split_string_loop.simps) (simp del: drop_drop)
    then show ?thesis
      using IH toks
      by (simp add: drop_last_empty_Cons RlistAppendScalar_def RlistAppendRval_def RvalCopyScalar_def)
  qed
qed

section \<open>What the module list parser accepts\<close>

definition blanks :: "string \<Rightarrow> bool" where
  "blanks s \<longleftrightarrow> list_all CLASS_BLANK s"

definition quoted :: "char \<Rightarrow> string \<Rightarrow> bool" where
  "quoted q v \<longleftrightarrow> (q = CHR 0x27 \<or> q = CHR 0x22) \<and> q \<notin> set v"

text \<open>What may follow an element, and a whole list.\<close>

inductive tail_text :: "string \<Rightarrow> string list \<Rightarrow> bool" where
  tail_close: "blanks b \<Longrightarrow> blanks b' \<Longrightarrow> tail_text (b @ ''}'' @ b') []"
| tail_more: "blanks b \<Longrightarrow> blanks b' \<Longrightarrow> quoted q v \<Longrightarrow> tail_text t vs \<Longrightarrow>
    tail_text (b @ '','' @ b' @ [q] @ v @ [q] @ t) (v # vs)"

definition list_text :: "string \<Rightarrow> string list \<Rightarrow> bool" where
  "list_text s vs \<longleftrightarrow>
     (\<exists>b b' q v t ws. s = b @ ''{'' @ b' @ [q] @ v @ [q] @ t \<and> vs = v # ws \<and>
        blanks b \<and> blanks b' \<and> quoted q v \<and> tail_text t ws)"

definition elm :: "char \<Rightarrow> state" where
  "elm q = (if q = CHR 0x27 then ST_ELM1 else ST_ELM2)"

definition fin :: "char \<Rightarrow> state" where
  "fin q = (if q = CHR 0x27 then ST_END1 else ST_END2)"

lemma machine_error [simp]: "machine_loop ST_ERROR sn l cs \<noteq> Some (Inr r)"
  by (cases cs) auto

lemmas char_classes = CLASS_BLANK_def CLASS_START1_def CLASS_START2_def CLASS_BRA1_def CLASS_BRA2_def
  CLASS_SEP_def

lemma machine_blanks:
  assumes "blanks b" "st \<in> {ST_OPENED, ST_IO, ST_END1, ST_END2, ST_SEP, ST_PRECLOSED}"
  shows "machine_loop st sn l (b @ t) = machine_loop st sn l t"
  using assms
  by (induction b) (auto simp: blanks_def after_element_def char_classes)

lemma machine_elm:
  assumes "quoted q v" "length (snatch sn @ v) < CF_MAXVARSIZE"
  shows "machine_loop (elm q) sn l (v @ [q] @ t) =
    machine_loop (fin q) None (l @ [Scalar (snatch sn @ v)]) t"
  using assms
proof (induction v arbitrary: sn)
  case Nil
  then show ?case
    by (auto simp: quoted_def elm_def fin_def in_element_def char_classes RlistAppendScalar_def
        RlistAppendRval_def RvalCopyScalar_def)
next
  case (Cons c v)
  then have "machine_loop (elm q) (Some (snatch sn @ [c])) l (v @ [q] @ t) =
      machine_loop (fin q) None (l @ [Scalar (snatch sn @ c # v)]) t"
    by (subst Cons.IH) (auto simp: quoted_def snatch_def)
  with Cons.prems show ?case
    by (auto simp: quoted_def elm_def in_element_def char_classes)
qed

lemma machine_tail:
  assumes "tail_text t vs" "\<forall>v \<in> set vs. length v < CF_MAXVARSIZE" "st = ST_END1 \<or> st = ST_END2"
  shows "machine_loop st None l t = Some (Inr (l @ map Scalar vs))"
  using assms
proof (induction arbitrary: l st rule: tail_text.induct)
  case (tail_close b b')
  then show ?case
    using machine_blanks [of b st None l "''}'' @ b'"] machine_blanks [of b' ST_PRECLOSED None l "[]"]
    by (auto simp: after_element_def char_classes)
next
  case (tail_more b b' q v t vs)
  have "machine_loop st None l (b @ '','' @ b' @ [q] @ v @ [q] @ t) =
      machine_loop ST_SEP None l (b' @ [q] @ v @ [q] @ t)"
    using machine_blanks [of b st None l "'','' @ b' @ [q] @ v @ [q] @ t"] tail_more
    by (auto simp: after_element_def char_classes)
  also have "\<dots> = machine_loop (elm q) None l (v @ [q] @ t)"
    using machine_blanks [of b' ST_SEP None l "[q] @ v @ [q] @ t"] tail_more
    by (auto simp: quoted_def elm_def char_classes)
  also have "\<dots> = machine_loop (fin q) None (l @ [Scalar v]) t"
    using machine_elm [of q v None l t] tail_more by (simp add: snatch_def)
  also have "\<dots> = Some (Inr (l @ map Scalar (v # vs)))"
    using tail_more.IH [of "fin q" "l @ [Scalar v]"] tail_more.prems by (simp add: fin_def)
  finally show ?case .
qed

lemma machine_accepts:
  assumes "list_text s vs" "\<forall>v \<in> set vs. length v < CF_MAXVARSIZE"
  shows "LaunchParsingMachine s = Some (Inr (map Scalar vs))"
proof -
  from assms(1) obtain b b' q v t ws where s: "s = b @ ''{'' @ b' @ [q] @ v @ [q] @ t"
    "vs = v # ws" "blanks b" "blanks b'" "quoted q v" "tail_text t ws"
    by (auto simp: list_text_def)
  have "LaunchParsingMachine s = machine_loop ST_IO None [] (b' @ [q] @ v @ [q] @ t)"
    using machine_blanks [OF s(3), of ST_OPENED None "[]" "''{'' @ b' @ [q] @ v @ [q] @ t"] s(1)
    by (simp add: LaunchParsingMachine_def char_classes)
  also have "\<dots> = machine_loop (elm q) (Some []) [] (v @ [q] @ t)"
    using machine_blanks [OF s(4), of ST_IO None "[]" "[q] @ v @ [q] @ t"] s(5)
    by (auto simp: quoted_def elm_def char_classes)
  also have "\<dots> = machine_loop (fin q) None [Scalar v] t"
    using machine_elm [OF s(5), of "Some []" "[]" t] assms(2) s(2) by (simp add: snatch_def)
  also have "\<dots> = Some (Inr (map Scalar vs))"
    using machine_tail [OF s(6), of "fin q" "[Scalar v]"] assms(2) s(2) by (simp add: fin_def)
  finally show ?thesis .
qed

lemma blanks_Cons: "blanks (c # cs) \<longleftrightarrow> CLASS_BLANK c \<and> blanks cs"
  by (simp add: blanks_def)

lemma blanks_Nil [simp]: "blanks []"
  by (simp add: blanks_def)

lemma machine_preclosed: "machine_loop ST_PRECLOSED sn l cs = Some (Inr r) \<Longrightarrow> blanks cs \<and> r = l"
  by (induction cs) (auto simp: blanks_Cons split: if_splits)

text \<open>An element and what follows it, as the states read them.\<close>

definition rest_text :: "char \<Rightarrow> string \<Rightarrow> string \<Rightarrow> Rval list \<Rightarrow> Rval list \<Rightarrow> bool" where
  "rest_text q pre cs l r \<longleftrightarrow>
     (\<exists>v t vs. cs = v @ [q] @ t \<and> quoted q v \<and> tail_text t vs \<and> r = l @ map Scalar ((pre @ v) # vs) \<and>
        (\<forall>u \<in> set ((pre @ v) # vs). length u < CF_MAXVARSIZE))"

definition end_text :: "string \<Rightarrow> Rval list \<Rightarrow> Rval list \<Rightarrow> bool" where
  "end_text cs l r \<longleftrightarrow>
     (\<exists>vs. tail_text cs vs \<and> r = l @ map Scalar vs \<and> (\<forall>u \<in> set vs. length u < CF_MAXVARSIZE))"

definition sep_text :: "string \<Rightarrow> Rval list \<Rightarrow> Rval list \<Rightarrow> bool" where
  "sep_text cs l r \<longleftrightarrow>
     (\<exists>b q cs'. cs = b @ [q] @ cs' \<and> blanks b \<and> (q = CHR 0x27 \<or> q = CHR 0x22) \<and> rest_text q [] cs' l r)"

lemma tail_blank: "CLASS_BLANK c \<Longrightarrow> tail_text cs vs \<Longrightarrow> tail_text (c # cs) vs"
  by (erule tail_text.cases)
    (auto simp: blanks_Cons intro: tail_close [of "c # b" for b, simplified]
      tail_more [of "c # b" for b, simplified])

lemma tail_close_now: "blanks cs \<Longrightarrow> tail_text (CHR ''}'' # cs) []"
  using tail_close [of "[]" cs] by simp

lemma rest_step:
  "quoted q [c] \<Longrightarrow> rest_text q (pre @ [c]) cs l r \<Longrightarrow> rest_text q pre (c # cs) l r"
  unfolding rest_text_def quoted_def
  by (elim exE conjE, rule_tac x = "c # v" in exI) auto

lemma end_sep: "sep_text cs l r \<Longrightarrow> end_text (CHR '','' # cs) l r"
proof -
  assume "sep_text cs l r"
  then obtain b q v t vs where *: "cs = b @ [q] @ v @ [q] @ t" "blanks b" "quoted q v" "tail_text t vs"
    "r = l @ map Scalar (v # vs)" "\<forall>u \<in> set (v # vs). length u < CF_MAXVARSIZE"
    by (auto simp: sep_text_def rest_text_def)
  from tail_more [of "[]" b q v t vs] * show ?thesis
    by (auto simp: end_text_def intro!: exI [of _ "v # vs"])
qed

lemma machine_sound:
  "(st = ST_END1 \<or> st = ST_END2 \<longrightarrow> machine_loop st None l cs = Some (Inr r) \<longrightarrow> end_text cs l r) \<and>
   (machine_loop ST_SEP None l cs = Some (Inr r) \<longrightarrow> sep_text cs l r) \<and>
   (\<forall>q sn. q = CHR 0x27 \<or> q = CHR 0x22 \<longrightarrow> machine_loop (elm q) sn l cs = Some (Inr r) \<longrightarrow>
      rest_text q (snatch sn) cs l r)"
proof (induction cs arbitrary: st l)
  case Nil
  then show ?case by (auto simp: elm_def split: if_splits)
next
  case (Cons c cs)
  note IH_end = Cons.IH [THEN conjunct1, rule_format]
    and IH_sep = Cons.IH [THEN conjunct2, THEN conjunct1, rule_format]
    and IH_elm = Cons.IH [THEN conjunct2, THEN conjunct2, rule_format]
  have fin: "end_text (c # cs) l r"
    if st: "st = ST_END1 \<or> st = ST_END2" and m: "machine_loop st None l (c # cs) = Some (Inr r)"
  proof -
    consider "c = CHR '',''" "machine_loop ST_SEP None l cs = Some (Inr r)"
      | "c = CHR ''}''" "machine_loop ST_PRECLOSED None l cs = Some (Inr r)"
      | "CLASS_BLANK c" "machine_loop st None l cs = Some (Inr r)"
      using st m by (auto simp: after_element_def CLASS_SEP_def CLASS_BRA2_def split: if_splits)
    then show ?thesis
    proof cases
      case 1
      with end_sep [OF IH_sep [OF 1(2)]] show ?thesis by simp
    next
      case 2
      with tail_close_now machine_preclosed [OF 2(2)] show ?thesis by (auto simp: end_text_def)
    next
      case 3
      from IH_end [OF st 3(2)] tail_blank [OF 3(1)] show ?thesis by (auto simp: end_text_def)
    qed
  qed
  have sep: "sep_text (c # cs) l r" if "machine_loop ST_SEP None l (c # cs) = Some (Inr r)"
  proof (cases "CLASS_BLANK c")
    case True
    with that have "sep_text cs l r" by (intro IH_sep) simp
    with True show ?thesis
      unfolding sep_text_def by (elim exE conjE, rule_tac x = "c # b" in exI) (auto simp: blanks_Cons)
  next
    case False
    with that have c: "c = CHR 0x27 \<or> c = CHR 0x22" and "machine_loop (elm c) None l cs = Some (Inr r)"
      by (auto simp: char_classes elm_def split: if_splits)
    with IH_elm [OF c, of None l] have "rest_text c [] cs l r" by (simp add: snatch_def)
    with c show ?thesis
      unfolding sep_text_def by (rule_tac exI [of _ "[]"], rule_tac exI [of _ c], rule_tac exI [of _ cs]) auto
  qed
  have elm: "rest_text q (snatch sn) (c # cs) l r"
    if q: "q = CHR 0x27 \<or> q = CHR 0x22" and m: "machine_loop (elm q) sn l (c # cs) = Some (Inr r)"
    for q sn
  proof (cases "c = q")
    case True
    with q m have len: "length (snatch sn) < CF_MAXVARSIZE"
      and "machine_loop (fin q) None (l @ [Scalar (snatch sn)]) cs = Some (Inr r)"
      by (auto simp: elm_def fin_def in_element_def char_classes RlistAppendScalar_def
          RlistAppendRval_def RvalCopyScalar_def split: if_splits)
    then have "end_text cs (l @ [Scalar (snatch sn)]) r"
      by (intro IH_end [of "fin q"]) (simp_all add: fin_def)
    with True q len show ?thesis
      unfolding end_text_def rest_text_def
      by (elim exE, rule_tac exI [of _ "[]"], rule_tac exI [of _ cs]) (auto simp: quoted_def)
  next
    case False
    with q m have "machine_loop (elm q) (Some (snatch sn @ [c])) l cs = Some (Inr r)"
      by (auto simp: elm_def in_element_def char_classes split: if_splits)
    from IH_elm [OF q this] have "rest_text q (snatch sn @ [c]) cs l r" by (simp add: snatch_def)
    with False q show ?thesis by (intro rest_step) (auto simp: quoted_def)
  qed
  from fin sep elm show ?case by blast
qed

lemma machine_io_sound:
  "machine_loop ST_IO None [] cs = Some (Inr r) \<Longrightarrow> sep_text cs [] r"
proof (induction cs)
  case (Cons c cs)
  show ?case
  proof (cases "CLASS_BLANK c")
    case True
    with Cons have "sep_text cs [] r" by auto
    with True show ?thesis
      unfolding sep_text_def by (elim exE conjE, rule_tac x = "c # b" in exI) (auto simp: blanks_Cons)
  next
    case False
    with Cons.prems have c: "c = CHR 0x27 \<or> c = CHR 0x22"
      and "machine_loop (elm c) (Some []) [] cs = Some (Inr r)"
      by (auto simp: char_classes elm_def split: if_splits)
    with machine_sound have "rest_text c [] cs [] r" unfolding snatch_def by (metis option.simps(5))
    with c show ?thesis
      unfolding sep_text_def by (rule_tac exI [of _ "[]"], rule_tac exI [of _ c], rule_tac exI [of _ cs]) auto
  qed
qed simp

lemma machine_opened_sound:
  "machine_loop ST_OPENED None [] cs = Some (Inr r) \<Longrightarrow>
   \<exists>b cs'. cs = b @ ''{'' @ cs' \<and> blanks b \<and> sep_text cs' [] r"
proof (induction cs)
  case (Cons c cs)
  show ?case
  proof (cases "CLASS_BLANK c")
    case True
    with Cons obtain b cs' where "cs = b @ ''{'' @ cs'" "blanks b" "sep_text cs' [] r" by auto
    with True show ?thesis by (rule_tac exI [of _ "c # b"]) (auto simp: blanks_Cons)
  next
    case False
    with Cons.prems have "c = CHR ''{''" "machine_loop ST_IO None [] cs = Some (Inr r)"
      by (auto simp: char_classes split: if_splits)
    with machine_io_sound show ?thesis by (rule_tac exI [of _ "[]"]) auto
  qed
qed simp

lemma machine_language:
  "LaunchParsingMachine s = Some (Inr r) \<longleftrightarrow>
   (\<exists>vs. list_text s vs \<and> r = map Scalar vs \<and> (\<forall>v \<in> set vs. length v < CF_MAXVARSIZE))"
proof
  assume "LaunchParsingMachine s = Some (Inr r)"
  from machine_opened_sound [OF this [unfolded LaunchParsingMachine_def]]
  show "\<exists>vs. list_text s vs \<and> r = map Scalar vs \<and> (\<forall>v \<in> set vs. length v < CF_MAXVARSIZE)"
    unfolding sep_text_def rest_text_def list_text_def by fastforce
qed (use machine_accepts in blast)

text \<open>The text of a written list of scalars is in that language.\<close>

lemma ScalarWrite_id: "CHR 0x27 \<notin> set s \<Longrightarrow> ScalarWrite s = s"
  by (induction s) auto

lemma tail_written:
  assumes "\<forall>v \<in> set vs. CHR 0x27 \<notin> set v"
  shows "tail_text (concat (map (\<lambda>v. '','' @ [CHR 0x27] @ v @ [CHR 0x27]) vs) @ ''}'') vs"
  using assms
proof (induction vs)
  case Nil
  then show ?case using tail_close [of "[]" "[]"] by simp
next
  case (Cons v vs)
  then show ?case
    using tail_more [of "[]" "[]" "CHR 0x27" v
        "concat (map (\<lambda>v. '','' @ [CHR 0x27] @ v @ [CHR 0x27]) vs) @ ''}''" vs]
    by (auto simp: quoted_def)
qed

lemma join_with_Cons: "join_with sep (s # ts) = s @ concat (map (\<lambda>t. sep @ t) ts)"
  by (induction ts arbitrary: s) auto

lemma list_text_written:
  assumes "vs \<noteq> []" "\<forall>v \<in> set vs. CHR 0x27 \<notin> set v"
  shows "list_text (RlistWrite (map Scalar vs)) vs"
proof -
  obtain v ws where vs: "vs = v # ws" using assms(1) by (cases vs) auto
  let ?t = "concat (map (\<lambda>v. '','' @ [CHR 0x27] @ v @ [CHR 0x27]) ws) @ ''}''"
  have "RlistWrite (map Scalar vs) = '' '' @ ''{'' @ [] @ [CHR 0x27] @ v @ [CHR 0x27] @ ?t"
    using assms(2) vs
    by (simp add: join_with_Cons ScalarWrite_id comp_def cong: map_cong)
  moreover have "tail_text ?t ws" using assms(2) vs by (intro tail_written) auto
  moreover have "blanks '' ''" "blanks []" "quoted (CHR 0x27) v"
    using assms(2) vs by (auto simp: blanks_Cons quoted_def CLASS_BLANK_def)
  ultimately show ?thesis unfolding list_text_def vs by blast
qed

section \<open>Properties\<close>

text \<open>C22. The parser of lists printed by modules accepts exactly the texts of non-empty bracketed
  lists of quoted strings (with blanks between the tokens and elements that fit the buffer), and
  returns their elements in order.\<close>

theorem module_list_language:
  "LaunchParsingMachine s = Some (Inr r) \<longleftrightarrow>
   (\<exists>vs. list_text s vs \<and> r = map Scalar vs \<and> (\<forall>v \<in> set vs. length v < CF_MAXVARSIZE))"
  by (rule machine_language)

theorem module_list_language_witness:
  "LaunchParsingMachine ('' {'' @ [CHR 0x27] @ ''a'' @ [CHR 0x27] @ ''}'') = Some (Inr [Scalar ''a''])"
  unfolding module_list_language
  using list_text_written [of "[''a'']"] by (auto simp: CF_MAXVARSIZE_def intro!: exI [of _ "[''a'']"])

text \<open>C23. What the program writes for a non-empty list of strings is read back by that parser,
  when the strings hold no single quote.\<close>

theorem rlist_write_parse:
  assumes "vs \<noteq> []" "\<forall>v \<in> set vs. CHR 0x27 \<notin> set v \<and> length v < CF_MAXVARSIZE"
  shows "RlistParseString (RlistWrite (map Scalar vs)) = Some (map Scalar vs)"
  using machine_accepts [of "RlistWrite (map Scalar vs)" vs] list_text_written [of vs] assms
  by (simp add: RlistParseString_def)

theorem rlist_write_parse_witness:
  "RlistParseString ('' {'' @ [CHR 0x27] @ ''a b'' @ [CHR 0x27] @ '','' @ [CHR 0x27] @ [CHR 0x27] @ ''}'')
    = Some [Scalar ''a b'', Scalar []]"
  using rlist_write_parse [of "[''a b'', []]"] by (simp add: CF_MAXVARSIZE_def)

text \<open>Copying a value list flattens it: no list is left inside, in the arguments of calls
  either, and a second copy is equal to the first. A list without lists in it is copied as it is.\<close>

theorem rlist_copy_flattens:
  "list_all flat_value (RlistCopy l) \<and> RlistCopy (RlistCopy l) = RlistCopy l \<and>
   RlistCopy (filter flat_value l) = filter flat_value l"
proof -
  have id: "RlistCopy l = l" if "list_all flat_value l" for l
    unfolding RlistCopy_flat using that by (induction l) (auto simp: flat_id)
  have "list_all flat_value (RlistCopy l)"
    unfolding RlistCopy_flat using flat_value_flat by (induction l) auto
  moreover have "list_all flat_value (filter flat_value l)" by (simp add: list_all_iff)
  ultimately show ?thesis using id by blast
qed

text \<open>A string without backslashes is split at every separator; an empty piece at the end is
  dropped.\<close>

theorem rlist_from_split_string:
  assumes "CHR 0x5C \<notin> set s" "\<forall>t \<in> set (strsep_tokens sep s). length t < CF_MAXVARSIZE"
  shows "RlistFromSplitString (Some s) sep = Some (map Scalar (drop_last_empty (strsep_tokens sep s)))"
  using split_string_tokens [OF assms, of "[]"] by (simp add: RlistFromSplitString_def)

theorem rlist_from_split_string_witness:
  "RlistFromSplitString (Some ''a,,bc,'') CHR '','' = Some [Scalar ''a'', Scalar [], Scalar ''bc'']"
proof -
  have "strsep_tokens CHR '','' ''a,,bc,'' = [''a'', [], ''bc'', []]"
    by (simp add: strsep_tokens.simps)
  then show ?thesis
    using rlist_from_split_string [of "''a,,bc,''" "CHR '',''"]
    by (simp add: CF_MAXVARSIZE_def drop_last_empty_def)
qed

text \<open>With an escaped separator the position goes wrong: the input \<open>a\,b,c\<close> should have two
  items, and splits into three.\<close>

theorem rlist_split_escaped:
  "RlistFromSplitString (Some [CHR ''a'', CHR 0x5C, CHR '','', CHR ''b'', CHR '','', CHR ''c'']) CHR '','' =
   Some [Scalar ''a,b'', Scalar [], Scalar ''c'']"
  by (simp add: RlistFromSplitString_def split_string_loop.simps SubStrnCopyChr_def CF_MAXVARSIZE_def
      RlistAppendScalar_def RlistAppendRval_def RvalCopyScalar_def)

end
