(* ===== verification/Scan.thy ===== *)
theory Scan
  imports Prelude "HOL-Library.Monad_Syntax"
begin

text \<open>
  What the sources use of \<open>ctype.h\<close>, \<open>strncmp\<close> and \<open>sscanf\<close>: character classes of the C locale,
  comparison of prefixes, and the conversions \<open>%ld\<close>, \<open>%d\<close> and \<open>%o\<close>. A conversion skips white
  space, reads an optional sign and as many digits as there are; it fails without digits.
  \<open>%ld\<close> stops at the ends of the range of a 64-bit \<open>long\<close>, as \<open>strtol\<close> does.
\<close>

abbreviation (input) code :: "char \<Rightarrow> nat" where
  "code c \<equiv> of_char c"

definition isspace :: "char \<Rightarrow> bool" where
  "isspace c \<longleftrightarrow> code c = 32 \<or> (9 \<le> code c \<and> code c \<le> 13)"

definition isdigit :: "char \<Rightarrow> bool" where
  "isdigit c \<longleftrightarrow> 48 \<le> code c \<and> code c \<le> 57"

definition isupper :: "char \<Rightarrow> bool" where
  "isupper c \<longleftrightarrow> 65 \<le> code c \<and> code c \<le> 90"

definition islower :: "char \<Rightarrow> bool" where
  "islower c \<longleftrightarrow> 97 \<le> code c \<and> code c \<le> 122"

definition isalpha :: "char \<Rightarrow> bool" where
  "isalpha c \<longleftrightarrow> isupper c \<or> islower c"

definition isalnum :: "char \<Rightarrow> bool" where
  "isalnum c \<longleftrightarrow> isalpha c \<or> isdigit c"

lemmas ctype_defs = isspace_def isdigit_def isupper_def islower_def isalpha_def isalnum_def

definition strncmp :: "string \<Rightarrow> string \<Rightarrow> nat \<Rightarrow> int" where
  "strncmp s t n = strcmp (take n s) (take n t)"

lemma strncmp_eq_0 [simp]: "strncmp s t n = 0 \<longleftrightarrow> take n s = take n t"
  by (simp add: strncmp_def)

text \<open>\<open>strlcpy\<close> into a buffer of \<open>n\<close> bytes: at most \<open>n - 1\<close> characters are kept.\<close>

definition strlcpy :: "string \<Rightarrow> nat \<Rightarrow> string" where
  "strlcpy s n = take (n - 1) s"

section \<open>Numbers\<close>

definition digit :: "char \<Rightarrow> nat" where
  "digit c = code c - 48"

definition number :: "int \<Rightarrow> string \<Rightarrow> int" where
  "number base ds = foldl (\<lambda>a c. a * base + int (digit c)) 0 ds"

definition scan_digits :: "nat \<Rightarrow> string \<Rightarrow> string" where
  "scan_digits base s = takeWhile (\<lambda>c. isdigit c \<and> digit c < base) s"

definition LONG_MAX :: int where
  "LONG_MAX = 2 ^ 63 - 1"

definition LONG_MIN :: int where
  "LONG_MIN = - (2 ^ 63)"

definition clamp_long :: "int \<Rightarrow> int" where
  "clamp_long i = max LONG_MIN (min LONG_MAX i)"

fun scan_sign :: "string \<Rightarrow> bool \<times> string" where
  "scan_sign [] = (False, [])"
| "scan_sign (c # cs) =
     (if c = CHR ''-'' then (True, cs) else if c = CHR ''+'' then (False, cs) else (False, c # cs))"

definition scan_ld :: "string \<Rightarrow> (int \<times> string) option" where
  "scan_ld s =
     (let (neg, t) = scan_sign (dropWhile isspace s);
          ds = scan_digits 10 t;
          v = number 10 ds
      in if ds = [] then None
         else Some (clamp_long (if neg then - v else v), drop (length ds) t))"

section \<open>Printed numbers are read back\<close>

lemma code_char_of: "n < 256 \<Longrightarrow> code (char_of n) = n"
  by simp

lemma digit_char [simp]: "d < 10 \<Longrightarrow> digit (char_of (48 + d)) = d"
  by (simp add: digit_def)

lemma isdigit_char [simp]: "(d::nat) < 10 \<Longrightarrow> isdigit (char_of (48 + d))"
  by (simp add: isdigit_def)

lemma number_snoc [simp]: "number b (ds @ [c]) = number b ds * b + int (digit c)"
  by (simp add: number_def)

lemma number_Nil [simp]: "number b [] = 0"
  by (simp add: number_def)

lemma number_show_nat [simp]: "number 10 (show_nat n) = int n"
proof (induction n rule: show_nat.induct)
  case (1 n)
  then show ?case by (subst show_nat.simps) (auto simp: of_nat_div of_nat_mod)
qed

lemma show_nat_digits: "c \<in> set (show_nat n) \<Longrightarrow> isdigit c \<and> digit c < 10"
proof (induction n rule: show_nat.induct)
  case (1 n)
  from 1(2) have "c \<in> set (if n < 10 then [] else show_nat (n div 10)) \<or> c = char_of (48 + n mod 10)"
    by (subst (asm) show_nat.simps) auto
  then show ?case
  proof
    assume "c \<in> set (if n < 10 then [] else show_nat (n div 10))"
    with 1(1) show ?thesis by (auto split: if_splits)
  qed simp
qed

lemma show_nat_nonempty [simp]: "show_nat n \<noteq> []"
  by (subst show_nat.simps) simp

definition no_digit :: "string \<Rightarrow> bool" where
  "no_digit s \<longleftrightarrow> (case s of [] \<Rightarrow> True | c # _ \<Rightarrow> \<not> isdigit c)"

lemma no_digit_simps [simp]: "no_digit []" "no_digit (c # cs) \<longleftrightarrow> \<not> isdigit c"
  by (simp_all add: no_digit_def)

lemma scan_digits_show_nat [simp]: "no_digit rest \<Longrightarrow> scan_digits 10 (show_nat n @ rest) = show_nat n"
  unfolding scan_digits_def
  by (cases rest) (auto simp: takeWhile_append dest: show_nat_digits)

lemma isdigit_not_sign: "isdigit c \<Longrightarrow> c \<noteq> CHR ''-'' \<and> c \<noteq> CHR ''+'' \<and> \<not> isspace c"
  by (auto simp: ctype_defs)

lemma show_nat_Cons: "\<exists>c cs. show_nat n = c # cs \<and> isdigit c"
  using show_nat_digits [of "hd (show_nat n)" n] by (cases "show_nat n") auto

lemma scan_ld_show_int:
  assumes "no_digit rest" "LONG_MIN \<le> i" "i \<le> LONG_MAX"
  shows "scan_ld (show_int i @ rest) = Some (i, rest)"
proof (cases "i < 0")
  case True
  with assms show ?thesis by (simp add: scan_ld_def show_int_def clamp_long_def isspace_def)
next
  case False
  obtain c cs where c: "show_nat (nat i) = c # cs" "isdigit c"
    using show_nat_Cons by blast
  note sg = isdigit_not_sign [OF c(2)]
  then have d: "dropWhile isspace (show_nat (nat i) @ rest) = show_nat (nat i) @ rest"
    "scan_sign (show_nat (nat i) @ rest) = (False, show_nat (nat i) @ rest)" by (simp_all add: c)
  from assms False show ?thesis
    unfolding scan_ld_def show_int_def if_not_P [OF False] d by (simp add: clamp_long_def)
qed

lemma scan_ld_range: "scan_ld s = Some (i, r) \<Longrightarrow> LONG_MIN \<le> i \<and> i \<le> LONG_MAX"
  by (auto simp: scan_ld_def clamp_long_def LONG_MIN_def LONG_MAX_def Let_def split: prod.splits if_splits)

end
