(* ===== verification/Conversion_Types.thy ===== *)
theory Conversion_Types
  imports Scan
begin

text \<open>
  Conversions between names in a policy and enumerations of the agent, \<open>libpromises/conversion.c\<close>.
  An array of names is a list of optional strings ended by \<open>NULL\<close>, and reading past its end is
  \<open>None\<close>. The enumerations are datatypes whose constructors stand in the order of the code;
  \<open>enum_at\<close> turns an index into a constructor.
\<close>

definition MapAddress :: "string \<Rightarrow> string" where
  "MapAddress unspec_address =
     (if strncmp unspec_address ''::ffff:'' 7 = 0 then drop 7 unspec_address else unspec_address)"

section \<open>Names of enumerations\<close>

fun find_type :: "string option list \<Rightarrow> string \<Rightarrow> int \<Rightarrow> int \<Rightarrow> int option" where
  "find_type [] needle default_value i = None"
| "find_type (None # hs) needle default_value i = Some default_value"
| "find_type (Some h # hs) needle default_value i =
     (if strcmp needle h = 0 then Some i else find_type hs needle default_value (i + 1))"

definition FindTypeInArray :: "string option list \<Rightarrow> string option \<Rightarrow> int \<Rightarrow> int \<Rightarrow> int option" where
  "FindTypeInArray haystack needle default_value null_value =
     (case needle of
        None \<Rightarrow> Some null_value
      | Some s \<Rightarrow> find_type haystack s default_value 0)"

definition enum_at :: "'e list \<Rightarrow> int \<Rightarrow> 'e" where
  "enum_at cs i = cs ! nat i"

definition names :: "string list \<Rightarrow> string option list" where
  "names ss = map Some ss @ [None]"

datatype MeasurePolicy = MEASURE_POLICY_AVERAGE | MEASURE_POLICY_SUM | MEASURE_POLICY_FIRST
  | MEASURE_POLICY_LAST | MEASURE_POLICY_NONE

definition MeasurePolicyFromString :: "string option \<Rightarrow> MeasurePolicy option" where
  "MeasurePolicyFromString s =
     map_option (enum_at [MEASURE_POLICY_AVERAGE, MEASURE_POLICY_SUM, MEASURE_POLICY_FIRST,
         MEASURE_POLICY_LAST, MEASURE_POLICY_NONE])
       (FindTypeInArray (names [''average'', ''sum'', ''first'', ''last'']) s 0 4)"

datatype EnvironmentState = ENVIRONMENT_STATE_CREATE | ENVIRONMENT_STATE_DELETE
  | ENVIRONMENT_STATE_RUNNING | ENVIRONMENT_STATE_SUSPENDED | ENVIRONMENT_STATE_DOWN
  | ENVIRONMENT_STATE_NONE

definition EnvironmentStateFromString :: "string option \<Rightarrow> EnvironmentState option" where
  "EnvironmentStateFromString s =
     map_option (enum_at [ENVIRONMENT_STATE_CREATE, ENVIRONMENT_STATE_DELETE,
         ENVIRONMENT_STATE_RUNNING, ENVIRONMENT_STATE_SUSPENDED, ENVIRONMENT_STATE_DOWN,
         ENVIRONMENT_STATE_NONE])
       (FindTypeInArray (names [''create'', ''delete'', ''running'', ''suspended'', ''down'']) s 5 0)"

datatype InsertMatchType = INSERT_MATCH_TYPE_IGNORE_LEADING | INSERT_MATCH_TYPE_IGNORE_TRAILING
  | INSERT_MATCH_TYPE_IGNORE_EMBEDDED | INSERT_MATCH_TYPE_EXACT

definition InsertMatchTypeFromString :: "string option \<Rightarrow> InsertMatchType option" where
  "InsertMatchTypeFromString s =
     map_option (enum_at [INSERT_MATCH_TYPE_IGNORE_LEADING, INSERT_MATCH_TYPE_IGNORE_TRAILING,
         INSERT_MATCH_TYPE_IGNORE_EMBEDDED, INSERT_MATCH_TYPE_EXACT])
       (FindTypeInArray
         (names [''ignore_leading'', ''ignore_trailing'', ''ignore_embedded'', ''exact_match'']) s 3 3)"

definition SyslogPriorityFromString :: "string option \<Rightarrow> int option" where
  "SyslogPriorityFromString s =
     FindTypeInArray (names [''emergency'', ''alert'', ''critical'', ''error'', ''warning'',
       ''notice'', ''info'', ''debug'']) s 3 3"

datatype DatabaseType = DATABASE_TYPE_MYSQL | DATABASE_TYPE_POSTGRES | DATABASE_TYPE_NONE

definition DatabaseTypeFromString :: "string option \<Rightarrow> DatabaseType option" where
  "DatabaseTypeFromString s =
     map_option (enum_at [DATABASE_TYPE_MYSQL, DATABASE_TYPE_POSTGRES, DATABASE_TYPE_NONE])
       (FindTypeInArray (names [''mysql'', ''postgres'']) s 2 2)"

datatype PackageAction = PACKAGE_ACTION_ADD | PACKAGE_ACTION_DELETE | PACKAGE_ACTION_REINSTALL
  | PACKAGE_ACTION_UPDATE | PACKAGE_ACTION_ADDUPDATE | PACKAGE_ACTION_PATCH
  | PACKAGE_ACTION_VERIFY | PACKAGE_ACTION_NONE

definition PackageActionFromString :: "string option \<Rightarrow> PackageAction option" where
  "PackageActionFromString s =
     map_option (enum_at [PACKAGE_ACTION_ADD, PACKAGE_ACTION_DELETE, PACKAGE_ACTION_REINSTALL,
         PACKAGE_ACTION_UPDATE, PACKAGE_ACTION_ADDUPDATE, PACKAGE_ACTION_PATCH,
         PACKAGE_ACTION_VERIFY, PACKAGE_ACTION_NONE])
       (FindTypeInArray (names [''add'', ''delete'', ''reinstall'', ''update'', ''addupdate'',
         ''patch'', ''verify'']) s 7 7)"

datatype PackageVersionComparator = PACKAGE_VERSION_COMPARATOR_EQ | PACKAGE_VERSION_COMPARATOR_NEQ
  | PACKAGE_VERSION_COMPARATOR_GT | PACKAGE_VERSION_COMPARATOR_LT | PACKAGE_VERSION_COMPARATOR_GE
  | PACKAGE_VERSION_COMPARATOR_LE | PACKAGE_VERSION_COMPARATOR_NONE

definition PackageVersionComparatorFromString :: "string option \<Rightarrow> PackageVersionComparator option" where
  "PackageVersionComparatorFromString s =
     map_option (enum_at [PACKAGE_VERSION_COMPARATOR_EQ, PACKAGE_VERSION_COMPARATOR_NEQ,
         PACKAGE_VERSION_COMPARATOR_GT, PACKAGE_VERSION_COMPARATOR_LT,
         PACKAGE_VERSION_COMPARATOR_GE, PACKAGE_VERSION_COMPARATOR_LE,
         PACKAGE_VERSION_COMPARATOR_NONE])
       (FindTypeInArray (names [''=='', ''!='', ''>'', ''<'', ''>='', ''<='']) s 6 6)"

datatype PackageActionPolicy = PACKAGE_ACTION_POLICY_INDIVIDUAL | PACKAGE_ACTION_POLICY_BULK
  | PACKAGE_ACTION_POLICY_NONE

definition PackageActionPolicyFromString :: "string option \<Rightarrow> PackageActionPolicy option" where
  "PackageActionPolicyFromString s =
     map_option (enum_at [PACKAGE_ACTION_POLICY_INDIVIDUAL, PACKAGE_ACTION_POLICY_BULK,
         PACKAGE_ACTION_POLICY_NONE])
       (FindTypeInArray (names [''individual'', ''bulk'']) s 2 2)"

datatype ContextScope = CONTEXT_SCOPE_NAMESPACE | CONTEXT_SCOPE_BUNDLE | CONTEXT_SCOPE_NONE

text \<open>The array of scopes has no terminator.\<close>

definition ContextScopeFromString :: "string option \<Rightarrow> ContextScope option" where
  "ContextScopeFromString scope_str =
     map_option (enum_at [CONTEXT_SCOPE_NAMESPACE, CONTEXT_SCOPE_BUNDLE, CONTEXT_SCOPE_NONE])
       (FindTypeInArray [Some ''namespace'', Some ''bundle''] scope_str 0 2)"

datatype FileLinkType = FILE_LINK_TYPE_SYMLINK | FILE_LINK_TYPE_HARDLINK | FILE_LINK_TYPE_RELATIVE
  | FILE_LINK_TYPE_ABSOLUTE | FILE_LINK_TYPE_NONE

definition FileLinkTypeFromString :: "string option \<Rightarrow> FileLinkType option" where
  "FileLinkTypeFromString s =
     map_option (enum_at [FILE_LINK_TYPE_SYMLINK, FILE_LINK_TYPE_HARDLINK, FILE_LINK_TYPE_RELATIVE,
         FILE_LINK_TYPE_ABSOLUTE, FILE_LINK_TYPE_NONE])
       (FindTypeInArray (names [''symlink'', ''hardlink'', ''relative'', ''absolute'']) s 0 0)"

datatype FileComparator = FILE_COMPARATOR_ATIME | FILE_COMPARATOR_MTIME | FILE_COMPARATOR_CTIME
  | FILE_COMPARATOR_CHECKSUM | FILE_COMPARATOR_HASH | FILE_COMPARATOR_BINARY
  | FILE_COMPARATOR_EXISTS | FILE_COMPARATOR_NONE

definition FileComparatorFromString :: "string option \<Rightarrow> FileComparator option" where
  "FileComparatorFromString s =
     map_option (enum_at [FILE_COMPARATOR_ATIME, FILE_COMPARATOR_MTIME, FILE_COMPARATOR_CTIME,
         FILE_COMPARATOR_CHECKSUM, FILE_COMPARATOR_HASH, FILE_COMPARATOR_BINARY,
         FILE_COMPARATOR_EXISTS, FILE_COMPARATOR_NONE])
       (FindTypeInArray (names [''atime'', ''mtime'', ''ctime'', ''digest'', ''hash'', ''binary'',
         ''exists'']) s 7 7)"

datatype IntervalType = INTERVAL_HOURLY | INTERVAL_DAILY | INTERVAL_NONE

definition IntervalFromString :: "string option \<Rightarrow> IntervalType option" where
  "IntervalFromString s =
     map_option (enum_at [INTERVAL_HOURLY, INTERVAL_DAILY, INTERVAL_NONE])
       (FindTypeInArray (names [''hourly'', ''daily'']) s 2 2)"

datatype AclMethod = ACL_METHOD_APPEND | ACL_METHOD_OVERWRITE | ACL_METHOD_NONE

definition AclMethodFromString :: "string option \<Rightarrow> AclMethod option" where
  "AclMethodFromString s =
     map_option (enum_at [ACL_METHOD_APPEND, ACL_METHOD_OVERWRITE, ACL_METHOD_NONE])
       (FindTypeInArray (names [''append'', ''overwrite'']) s 2 2)"

datatype AclType = ACL_TYPE_GENERIC | ACL_TYPE_POSIX | ACL_TYPE_NTFS | ACL_TYPE_NONE

definition AclTypeFromString :: "string option \<Rightarrow> AclType option" where
  "AclTypeFromString s =
     map_option (enum_at [ACL_TYPE_GENERIC, ACL_TYPE_POSIX, ACL_TYPE_NTFS, ACL_TYPE_NONE])
       (FindTypeInArray (names [''generic'', ''posix'', ''ntfs'']) s 3 3)"

datatype AclDefault = ACL_DEFAULT_NO_CHANGE | ACL_DEFAULT_SPECIFY | ACL_DEFAULT_ACCESS
  | ACL_DEFAULT_CLEAR | ACL_DEFAULT_NONE

definition acl_defaults :: "AclDefault list" where
  "acl_defaults =
     [ACL_DEFAULT_NO_CHANGE, ACL_DEFAULT_SPECIFY, ACL_DEFAULT_ACCESS, ACL_DEFAULT_CLEAR, ACL_DEFAULT_NONE]"

definition AclInheritanceFromString :: "string option \<Rightarrow> AclDefault option" where
  "AclInheritanceFromString s =
     map_option (enum_at acl_defaults)
       (FindTypeInArray (names [''nochange'', ''specify'', ''parent'', ''clear'']) s 4 4)"

definition AclDefaultFromString :: "string option \<Rightarrow> AclDefault option" where
  "AclDefaultFromString s =
     map_option (enum_at acl_defaults)
       (FindTypeInArray (names [''nochange'', ''specify'', ''access'', ''clear'']) s 4 4)"

datatype ServicePolicy = SERVICE_POLICY_START | SERVICE_POLICY_STOP | SERVICE_POLICY_DISABLE
  | SERVICE_POLICY_RESTART | SERVICE_POLICY_RELOAD | SERVICE_POLICY_NONE

definition ServicePolicyFromString :: "string option \<Rightarrow> ServicePolicy option" where
  "ServicePolicyFromString s =
     map_option (enum_at [SERVICE_POLICY_START, SERVICE_POLICY_STOP, SERVICE_POLICY_DISABLE,
         SERVICE_POLICY_RESTART, SERVICE_POLICY_RELOAD, SERVICE_POLICY_NONE])
       (FindTypeInArray (names [''start'', ''stop'', ''disable'', ''restart'', ''reload'']) s 0 0)"

section \<open>Data types\<close>

datatype DataType = DATA_TYPE_STRING | DATA_TYPE_INT | DATA_TYPE_REAL | DATA_TYPE_STRING_LIST
  | DATA_TYPE_INT_LIST | DATA_TYPE_REAL_LIST | DATA_TYPE_OPTION | DATA_TYPE_OPTION_LIST
  | DATA_TYPE_BODY | DATA_TYPE_BUNDLE | DATA_TYPE_CONTEXT | DATA_TYPE_CONTEXT_LIST
  | DATA_TYPE_INT_RANGE | DATA_TYPE_REAL_RANGE | DATA_TYPE_COUNTER | DATA_TYPE_NONE

definition datatype_strings :: "(DataType \<times> string) list" where
  "datatype_strings =
     [(DATA_TYPE_STRING, ''string''), (DATA_TYPE_INT, ''int''), (DATA_TYPE_REAL, ''real''),
      (DATA_TYPE_STRING_LIST, ''slist''), (DATA_TYPE_INT_LIST, ''ilist''),
      (DATA_TYPE_REAL_LIST, ''rlist''), (DATA_TYPE_OPTION, ''option''),
      (DATA_TYPE_OPTION_LIST, ''olist''), (DATA_TYPE_BODY, ''body''), (DATA_TYPE_BUNDLE, ''bundle''),
      (DATA_TYPE_CONTEXT, ''context''), (DATA_TYPE_CONTEXT_LIST, ''clist''),
      (DATA_TYPE_INT_RANGE, ''irange''), (DATA_TYPE_REAL_RANGE, ''rrange''),
      (DATA_TYPE_COUNTER, ''counter''), (DATA_TYPE_NONE, ''none'')]"

definition DataTypeFromString :: "string \<Rightarrow> DataType" where
  "DataTypeFromString nm =
     (case find_index (\<lambda>(t, s). strcmp s nm = 0) (butlast datatype_strings) of
        Some i \<Rightarrow> fst (datatype_strings ! i)
      | None \<Rightarrow> DATA_TYPE_NONE)"

definition DataTypeToString :: "DataType \<Rightarrow> string option" where
  "DataTypeToString t = (if t = DATA_TYPE_NONE then None else map_of datatype_strings t)"

definition ConstraintSyntaxGetDataType :: "(string \<times> DataType) list \<Rightarrow> string option \<Rightarrow> DataType" where
  "ConstraintSyntaxGetDataType body_syntax lval =
     (case find_index (\<lambda>(l, t). case lval of None \<Rightarrow> False | Some s \<Rightarrow> strcmp l s = 0) body_syntax of
        Some i \<Rightarrow> snd (body_syntax ! i)
      | None \<Rightarrow> DATA_TYPE_NONE)"

definition DataTypeShortToType :: "string \<Rightarrow> string" where
  "DataTypeShortToType short_type =
     (if strcmp short_type ''s'' = 0 then ''string''
      else if strcmp short_type ''i'' = 0 then ''int''
      else if strcmp short_type ''r'' = 0 then ''real''
      else if strcmp short_type ''m'' = 0 then ''menu''
      else if strcmp short_type ''sl'' = 0 then ''string list''
      else if strcmp short_type ''il'' = 0 then ''int list''
      else if strcmp short_type ''rl'' = 0 then ''real list''
      else if strcmp short_type ''ml'' = 0 then ''menu list''
      else ''unknown type'')"

end
