(* ===== verification/Conversion.thy ===== *)
theory Conversion
  imports Conversion_Types Value_List "HOL-Library.Signed_Division" "HOL-Library.Word"
begin

text \<open>
  Conversions between the strings of a policy and the values of the agent, \<open>libpromises/conversion.c\<close>:
  booleans, signals, numbers with units, dates, commands, users and groups. A read or write outside
  a buffer, the use of a variable that was not set and an overflow of a \<open>long\<close> (undefined in C) are
  \<open>None\<close>. The user and group databases and \<open>mktime\<close> are parameters, as are the global variables of
  the start time and the current date.
\<close>

section \<open>Options separated by commas\<close>

definition CF_BOOL :: string where
  "CF_BOOL = ''true,false,yes,no,on,off''"

definition CF_SIGNALRANGE :: string where
  "CF_SIGNALRANGE = ''hup,int,trap,kill,pipe,cont,abrt,stop,quit,term,child,usr1,usr2,bus,segv''"

text \<open>
  The loop of \<open>ShellTypeFromString\<close> and \<open>AclInheritFromString\<close> over the options: it leaves at the
  first option that is the string, and when no comma is left.
\<close>

function find_option :: "string \<Rightarrow> string \<Rightarrow> nat \<Rightarrow> nat option" where
  "find_option s start i =
     (case strchr start (CHR '','') of
        None \<Rightarrow> None
      | Some e \<Rightarrow>
          if length s = e \<and> strncmp s start e = 0 then Some i
          else find_option s (drop (Suc e) start) (Suc i))"
  by pat_completeness auto
termination
  by (relation "measure (\<lambda>(_, start, _). length start)") (auto dest: strchr_SomeD)

declare find_option.simps [simp del]

datatype ShellType = SHELL_TYPE_NONE | SHELL_TYPE_USE | SHELL_TYPE_POWERSHELL

definition ShellTypeFromString :: "string option \<Rightarrow> ShellType" where
  "ShellTypeFromString string =
     (case string of
        None \<Rightarrow> SHELL_TYPE_NONE
      | Some s \<Rightarrow>
          (case find_option s (''noshell,useshell,powershell,'' @ CF_BOOL) 0 of
             None \<Rightarrow> SHELL_TYPE_NONE
           | Some i \<Rightarrow>
               if i = 0 then SHELL_TYPE_NONE
               else if i = 1 then SHELL_TYPE_USE
               else if i = 2 then SHELL_TYPE_POWERSHELL
               else if odd (i - 3) then SHELL_TYPE_NONE else SHELL_TYPE_USE))"

datatype AclInherit = ACL_INHERIT_FALSE | ACL_INHERIT_TRUE | ACL_INHERIT_NOCHANGE

definition AclInheritFromString :: "string option \<Rightarrow> AclInherit" where
  "AclInheritFromString string =
     (case string of
        None \<Rightarrow> ACL_INHERIT_NOCHANGE
      | Some s \<Rightarrow>
          (case find_option s (CF_BOOL @ '',nochange'') 0 of
             None \<Rightarrow> ACL_INHERIT_NOCHANGE
           | Some i \<Rightarrow> if odd i then ACL_INHERIT_FALSE else ACL_INHERIT_TRUE))"

text \<open>\<open>BooleanFromString\<close> and \<open>SignalFromString\<close> count the items before the string.\<close>

definition count_before :: "ItemHeap \<Rightarrow> string \<Rightarrow> nat option \<Rightarrow> int option" where
  "count_before h s list =
     (case for_items h (\<lambda>a i n. do {
         t \<leftarrow> iname i;
         Some (if strcmp s t = 0 then Inr n else Inl (n + 1))
       }) list 0 of
        None \<Rightarrow> None
      | Some (Inl n) \<Rightarrow> Some n
      | Some (Inr n) \<Rightarrow> Some n)"

definition BooleanFromString :: "ItemHeap \<Rightarrow> string \<Rightarrow> bool option" where
  "BooleanFromString h s =
     do {
       (list, h') \<leftarrow> SplitString h CF_BOOL (CHR '','');
       n \<leftarrow> count_before h' s list;
       Some (if n smod 2 \<noteq> 0 then False else True)
     }"

datatype Signal = SIGHUP | SIGINT | SIGTRAP | SIGKILL | SIGPIPE | SIGCONT | SIGABRT | SIGSTOP
  | SIGQUIT | SIGTERM | SIGCHLD | SIGUSR1 | SIGUSR2 | SIGBUS | SIGSEGV

definition signals :: "Signal list" where
  "signals = [SIGHUP, SIGINT, SIGTRAP, SIGKILL, SIGPIPE, SIGCONT, SIGABRT, SIGSTOP,
     SIGQUIT, SIGTERM, SIGCHLD, SIGUSR1, SIGUSR2, SIGBUS, SIGSEGV]"

text \<open>The result \<open>Some None\<close> is the number \<open>-1\<close>.\<close>

definition SignalFromString :: "ItemHeap \<Rightarrow> string \<Rightarrow> Signal option option" where
  "SignalFromString h s =
     do {
       (list, h') \<leftarrow> SplitString h CF_SIGNALRANGE (CHR '','');
       n \<leftarrow> count_before h' s list;
       Some (if nat n < length signals then Some (signals ! nat n) else None)
     }"

definition Rlist2String :: "Rval list \<Rightarrow> string \<Rightarrow> string option" where
  "Rlist2String list sep =
     do {
       ss \<leftarrow> those (map RvalScalarValue list);
       (let line = join_with sep ss in if length line < CF_BUFSIZE then Some line else None)
     }"

section \<open>Numbers\<close>

definition CF_NOINT :: int where
  "CF_NOINT = - 678"

definition CF_INFINITY :: int where
  "CF_INFINITY = 999999999"

definition CF_HIGHINIT :: int where
  "CF_HIGHINIT = 99999"

definition CF_LOWINIT :: int where
  "CF_LOWINIT = - 999999"

definition IsSpace :: "string \<Rightarrow> bool" where
  "IsSpace remainder = list_all isspace remainder"

definition to_long :: "int \<Rightarrow> int option" where
  "to_long i = (if LONG_MIN \<le> i \<and> i \<le> LONG_MAX then Some i else None)"

definition apply_unit :: "char \<Rightarrow> int \<Rightarrow> int option" where
  "apply_unit c a =
     (if c = CHR ''k'' then to_long (1000 * a)
      else if c = CHR ''K'' then to_long (1024 * a)
      else if c = CHR ''m'' then to_long (1000 * 1000 * a)
      else if c = CHR ''M'' then to_long (1024 * 1024 * a)
      else if c = CHR ''g'' then to_long (1000 * 1000 * 1000 * a)
      else if c = CHR ''G'' then to_long (1024 * 1024 * 1024 * a)
      else if c = CHR ''%'' then (if a < 0 \<or> a > 100 then Some CF_NOINT else Some (- a))
      else Some a)"

text \<open>
  \<open>sscanf(s, "%ld%c%s", &a, &c, remainder)\<close>: the number, the character after it (by default
  \<open>X\<close>) and the next word, which must fit its buffer.
\<close>

definition scan_value :: "string \<Rightarrow> (int \<times> char \<times> string) option" where
  "scan_value s =
     (case scan_ld s of
        None \<Rightarrow> Some (CF_NOINT, CHR ''X'', [])
      | Some (a, []) \<Rightarrow> Some (a, CHR ''X'', [])
      | Some (a, c # t) \<Rightarrow>
          (let remainder = takeWhile (\<lambda>c. \<not> isspace c) (dropWhile isspace t)
           in if length remainder < CF_BUFSIZE then Some (a, c, remainder) else None))"

definition IntFromString :: "int \<Rightarrow> string option \<Rightarrow> int option" where
  "IntFromString now s =
     (case s of
        None \<Rightarrow> Some CF_NOINT
      | Some t \<Rightarrow>
          if strcmp t ''inf'' = 0 then Some CF_INFINITY
          else if strcmp t ''now'' = 0 then Some now
          else do {
            (a, c, remainder) \<leftarrow> scan_value t;
            if a = CF_NOINT \<or> \<not> IsSpace remainder then Some a else apply_unit c a
          })"

text \<open>
  \<open>IntegerRangeFromString\<close>: \<open>Some None\<close> is the result \<open>false\<close>. The first item and the one after it
  are read without a check that they exist.
\<close>

definition IntegerRangeFromString :: "ItemHeap \<Rightarrow> string option \<Rightarrow> (int \<times> int) option option" where
  "IntegerRangeFromString h intrange =
     (case intrange of
        None \<Rightarrow> Some (Some (CF_NOINT, CF_NOINT))
      | Some s \<Rightarrow> do {
          (split, h') \<leftarrow> SplitString h s (CHR '','');
          a \<leftarrow> split;
          i \<leftarrow> cells h' a;
          nm \<leftarrow> iname i;
          b \<leftarrow> inext i;
          j \<leftarrow> cells h' b;
          nm' \<leftarrow> iname j;
          (let lmin = (case scan_ld nm of Some (v, _) \<Rightarrow> v | None \<Rightarrow> CF_HIGHINIT);
               lmax = (if strcmp nm' ''inf'' = 0 then CF_INFINITY
                       else case scan_ld nm' of Some (v, _) \<Rightarrow> v | None \<Rightarrow> CF_LOWINIT)
           in Some (if lmin = CF_HIGHINIT \<or> lmax = CF_LOWINIT then None else Some (lmin, lmax)))
        })"

section \<open>Dates\<close>

definition DAYS :: "int list" where
  "DAYS = [31, 28, 31, 30, 31, 30, 31, 31, 30, 31, 30, 31]"

definition DAY_TEXT :: "string list" where
  "DAY_TEXT = [''Monday'', ''Tuesday'', ''Wednesday'', ''Thursday'', ''Friday'', ''Saturday'', ''Sunday'']"

definition MONTH_TEXT :: "string list" where
  "MONTH_TEXT = [''January'', ''February'', ''March'', ''April'', ''May'', ''June'', ''July'',
     ''August'', ''September'', ''October'', ''November'', ''December'']"

definition days_at :: "int \<Rightarrow> int option" where
  "days_at month = (if 0 \<le> month \<and> month < 12 then Some (DAYS ! nat month) else None)"

definition GetMonthLength :: "int \<Rightarrow> int \<Rightarrow> int option" where
  "GetMonthLength month year =
     (if month = 1 \<and> year smod 4 = 0
      then (if year smod 100 = 0 \<and> year smod 400 \<noteq> 0 then days_at month else Some 29)
      else days_at month)"

definition Day2Number :: "string \<Rightarrow> int" where
  "Day2Number datestring =
     (case find_index (\<lambda>d. strncmp datestring d 3 = 0) DAY_TEXT of Some i \<Rightarrow> int i | None \<Rightarrow> - 1)"

definition Month2Int :: "string option \<Rightarrow> int" where
  "Month2Int string =
     (case string of
        None \<Rightarrow> - 1
      | Some s \<Rightarrow>
          (case find_index (\<lambda>m. strncmp m s (length s) = 0) MONTH_TEXT of
             Some i \<Rightarrow> int i + 1
           | None \<Rightarrow> - 1))"

function fix_month :: "int \<Rightarrow> int \<Rightarrow> int \<times> int" where
  "fix_month month year = (if month < 0 then fix_month (month + 12) (year - 1) else (month, year))"
  by pat_completeness auto
termination by (relation "measure (\<lambda>(month, _). nat (- month))") auto

declare fix_month.simps [simp del]

fun month_loop :: "int \<Rightarrow> nat \<Rightarrow> int \<Rightarrow> int \<Rightarrow> int \<Rightarrow> int option" where
  "month_loop this_month 0 i year tot_days = Some tot_days"
| "month_loop this_month (Suc n) i year tot_days =
     (let (month, year') = fix_month ((this_month - i) smod 12) year in
      do {
        d \<leftarrow> GetMonthLength month year';
        month_loop this_month n (i + 1) year' (tot_days + d)
      })"

definition Months2Seconds :: "int \<Rightarrow> string \<Rightarrow> string \<Rightarrow> int \<Rightarrow> int option" where
  "Months2Seconds now VMONTH VYEAR m =
     (if m = 0 then Some 0
      else do {
        year \<leftarrow> IntFromString now (Some VYEAR);
        tot_days \<leftarrow> month_loop (Month2Int (Some VMONTH)) (nat m) 0 year 0;
        Some (tot_days * 3600 * 24)
      })"

record tm =
  tm_year :: int
  tm_mon :: int
  tm_mday :: int
  tm_hour :: int
  tm_min :: int

text \<open>\<open>%2[^:]\<close>: one or two characters that are not colons.\<close>

definition scan_field :: "nat \<Rightarrow> (char \<Rightarrow> bool) \<Rightarrow> string \<Rightarrow> (string \<times> string) option" where
  "scan_field width P s =
     (let f = take width (takeWhile P s) in if f = [] then None else Some (f, drop (length f) s))"

definition TimeAbs2Int ::
  "(tm \<Rightarrow> int) \<Rightarrow> int \<Rightarrow> string \<Rightarrow> string \<Rightarrow> string \<Rightarrow> string option \<Rightarrow> int option"
where
  "TimeAbs2Int mktime now VYEAR VMONTH VDAY s =
     (case s of
        None \<Rightarrow> Some CF_NOINT
      | Some t \<Rightarrow> do {
          year \<leftarrow> IntFromString now (Some VYEAR);
          (if strstr t '':'' then do {
             (h, r) \<leftarrow> scan_field 2 (\<lambda>c. c \<noteq> CHR '':'') t;
             (m, _) \<leftarrow> (case r of c # r' \<Rightarrow> if c = CHR '':'' then scan_field 2 (\<lambda>c. c \<noteq> CHR '':'') r' else None
                       | [] \<Rightarrow> None);
             day \<leftarrow> IntFromString now (Some VDAY);
             hour \<leftarrow> IntFromString now (Some h);
             min \<leftarrow> IntFromString now (Some m);
             Some (mktime \<lparr>tm_year = year - 1900, tm_mon = Month2Int (Some VMONTH) - 1,
               tm_mday = day, tm_hour = hour, tm_min = min\<rparr>)
           }
           else do {
             (mon, r) \<leftarrow> scan_field 3 isalpha t;
             (let day = (case scan_ld r of Some (d, _) \<Rightarrow> d | None \<Rightarrow> 0);
                  month = Month2Int (Some mon);
                  year' = (if Month2Int (Some VMONTH) < month then year - 1 else year)
              in Some (mktime \<lparr>tm_year = year' - 1900, tm_mon = month - 1, tm_mday = day,
                   tm_hour = 0, tm_min = 0\<rparr>))
           })
        })"

section \<open>Commands\<close>

definition CommandArg0 :: "string \<Rightarrow> string" where
  "CommandArg0 execstr =
     (let quoted = (execstr \<noteq> [] \<and> hd execstr = CHR 0x22);
          start = (if quoted then tl execstr else execstr);
          end_delimiter = (if quoted then CHR 0x22 else CHR '' '');
          arg = strlcpy start CF_BUFSIZE
      in case strchr arg end_delimiter of Some i \<Rightarrow> take i arg | None \<Rightarrow> arg)"

definition CommandPrefix :: "string \<Rightarrow> string" where
  "CommandPrefix execstr =
     (let sp = scan_while (\<lambda>c. c \<noteq> CHR '' '') execstr 0 (length execstr)
      in take 15 (drop (if 10 \<le> sp then sp - 10 else 0) execstr))"

section \<open>Users and groups\<close>

text \<open>
  \<open>uid_t\<close> and \<open>gid_t\<close> are 32-bit. \<open>getpwnam\<close> and \<open>getgrnam\<close> look a name up in the system's databases;
  \<open>netgroup\<close> is the list of the users of a net group (\<open>setnetgrent\<close> to \<open>endnetgrent\<close>, where an
  entry may have no user). \<open>usercopy\<close> is the caller's buffer of \<open>CF_MAXVARSIZE\<close> bytes.
\<close>

record IdList =
  idnum :: "32 word"
  idname :: "string option"

definition CF_SAME_OWNER :: "32 word" where
  "CF_SAME_OWNER = - 1"

definition CF_UNKNOWN_OWNER :: "32 word" where
  "CF_UNKNOWN_OWNER = - 2"

definition copy_name :: "string \<Rightarrow> string option" where
  "copy_name s = (if length s < CF_MAXVARSIZE then Some s else None)"

text \<open>\<open>sscanf(s, "%d", &tmp)\<close> of a string that starts with a digit.\<close>

definition scan_id :: "string \<Rightarrow> 32 word" where
  "scan_id s = (case scan_ld s of Some (v, _) \<Rightarrow> word_of_int v | None \<Rightarrow> - 2)"

fun netgroup_users ::
  "(string \<Rightarrow> 32 word option) \<Rightarrow> string list \<Rightarrow> 32 word \<Rightarrow> string \<Rightarrow> (32 word \<times> string) option"
where
  "netgroup_users getpwnam [] uid usercopy = Some (uid, usercopy)"
| "netgroup_users getpwnam (u # us) uid usercopy =
     (case getpwnam u of
        None \<Rightarrow> netgroup_users getpwnam us CF_UNKNOWN_OWNER usercopy
      | Some pw_uid \<Rightarrow> do {
          copy \<leftarrow> copy_name u;
          netgroup_users getpwnam us pw_uid copy
        })"

definition Str2Uid ::
  "(string \<Rightarrow> 32 word option) \<Rightarrow> (string \<Rightarrow> string option list) \<Rightarrow> string \<Rightarrow> string \<Rightarrow> (32 word \<times> string) option"
where
  "Str2Uid getpwnam netgroup uidbuff usercopy =
     (case uidbuff of
        CHR ''+'' # rest \<Rightarrow>
          netgroup_users getpwnam
            (List.map_filter id (netgroup (case rest of CHR ''@'' # r \<Rightarrow> r | _ \<Rightarrow> rest))) (- 2) usercopy
      | _ \<Rightarrow>
          if uidbuff \<noteq> [] \<and> isdigit (hd uidbuff) then Some (scan_id uidbuff, usercopy)
          else if strcmp uidbuff ''*'' = 0 then Some (CF_SAME_OWNER, usercopy)
          else (case getpwnam uidbuff of
                  None \<Rightarrow> do { copy \<leftarrow> copy_name uidbuff; Some (CF_UNKNOWN_OWNER, copy) }
                | Some pw_uid \<Rightarrow> Some (pw_uid, usercopy)))"

definition Str2Gid :: "(string \<Rightarrow> 32 word option) \<Rightarrow> string \<Rightarrow> string \<Rightarrow> (32 word \<times> string) option" where
  "Str2Gid getgrnam gidbuff groupcopy =
     (if gidbuff \<noteq> [] \<and> isdigit (hd gidbuff) then Some (scan_id gidbuff, groupcopy)
      else if strcmp gidbuff ''*'' = 0 then Some (CF_SAME_OWNER, groupcopy)
      else (case getgrnam gidbuff of
              None \<Rightarrow> Some (CF_UNKNOWN_OWNER, groupcopy)
            | Some gr_gid \<Rightarrow> do { copy \<leftarrow> copy_name gidbuff; Some (gr_gid, copy) }))"

definition AddSimpleUidItem :: "IdList list \<Rightarrow> 32 word \<Rightarrow> string option \<Rightarrow> IdList list" where
  "AddSimpleUidItem uidlist uid uidname =
     uidlist @ [\<lparr>idnum = uid, idname = (if uid = CF_UNKNOWN_OWNER then uidname else None)\<rparr>]"

fun id_list_loop ::
  "(string \<Rightarrow> string \<Rightarrow> (32 word \<times> string) option) \<Rightarrow> Rval list \<Rightarrow> IdList list \<Rightarrow> IdList list option"
where
  "id_list_loop str2id [] ids =
     Some (if ids = [] then AddSimpleUidItem [] CF_SAME_OWNER None else ids)"
| "id_list_loop str2id (rp # rps) ids =
     do {
       s \<leftarrow> RvalScalarValue rp;
       (uid, username) \<leftarrow> str2id s [];
       id_list_loop str2id rps (AddSimpleUidItem ids uid (Some username))
     }"

definition Rlist2UidList ::
  "(string \<Rightarrow> 32 word option) \<Rightarrow> (string \<Rightarrow> string option list) \<Rightarrow> Rval list \<Rightarrow> IdList list option"
where
  "Rlist2UidList getpwnam netgroup uidnames = id_list_loop (Str2Uid getpwnam netgroup) uidnames []"

definition Rlist2GidList :: "(string \<Rightarrow> 32 word option) \<Rightarrow> Rval list \<Rightarrow> IdList list option" where
  "Rlist2GidList getgrnam gidnames = id_list_loop (Str2Gid getgrnam) gidnames []"

section \<open>Names\<close>

lemma find_type_names:
  "find_type (map Some hs @ [None]) s d i =
     Some (case find_index (\<lambda>h. s = h) hs of Some j \<Rightarrow> i + int j | None \<Rightarrow> d)"
  by (induction hs arbitrary: i) (auto split: option.split)

text \<open>An array that ends with \<open>NULL\<close> is searched inside its bounds.\<close>

lemma FindTypeInArray_names:
  "FindTypeInArray (names hs) (Some s) d n =
     Some (case find_index (\<lambda>h. s = h) hs of Some j \<Rightarrow> int j | None \<Rightarrow> d)"
  by (simp add: FindTypeInArray_def names_def find_type_names split: option.split)

lemma count_before_list:
  assumes "item_list h p xs" "map (\<lambda>a. iname (the (cells h a))) xs = map Some ss"
  shows "count_before h s p =
    Some (int (case find_index (\<lambda>t. s = t) ss of Some j \<Rightarrow> j | None \<Rightarrow> length ss))"
proof -
  define body where "body = (\<lambda>a n :: int. do {
    t \<leftarrow> iname (the (cells h a)); Some (if strcmp s t = 0 then Inr n else Inl (n + 1)) })"
  have "fold_list body xs n = Some (case find_index (\<lambda>t. s = t) ss of
      Some j \<Rightarrow> Inr (n + int j) | None \<Rightarrow> Inl (n + int (length ss)))" for n
    using assms(2)
  proof (induction xs arbitrary: ss n)
    case (Cons a xs)
    then obtain t ts where ss: "ss = t # ts" "iname (the (cells h a)) = Some t"
      "map (\<lambda>a. iname (the (cells h a))) xs = map Some ts" by auto
    from Cons.IH [OF ss(3)] show ?case
      by (auto simp: ss body_def split: option.split)
  qed simp
  from this [of 0] show ?thesis
    by (simp add: count_before_def for_items_list [OF assms(1)] body_def split: option.split)
qed

lemma name_at_named: "cells h a \<noteq> None \<Longrightarrow> name_at h a \<noteq> [] \<Longrightarrow> iname (the (cells h a)) = Some (name_at h a)"
  by (auto simp: name_at_def content_def string_of_def split: option.splits)

lemma count_in_split:
  assumes "wf_heap h" "sep \<noteq> CHR 0x5C" "items \<noteq> []"
    and "\<forall>s \<in> set items. CHR 0x5C \<notin> set s \<and> length s < CF_BUFSIZE \<and> s \<noteq> []"
  shows "\<exists>p h'. SplitString h (join_items sep items) sep = Some (p, h') \<and>
    count_before h' s p = Some (int (case find_index (\<lambda>t. s = t) items of Some j \<Rightarrow> j | None \<Rightarrow> length items))"
proof -
  have i: "\<forall>s \<in> set items. CHR 0x5C \<notin> set s \<and> length s < CF_BUFSIZE" using assms(4) by blast
  from split_loop_names [OF assms(2,3) i assms(1), of None "[]" None] obtain p ys h' where
    h': "SplitString h (join_items sep items) sep = Some (p, h')" "item_list h' p ys"
    "map (name_at h') ys = items" by (auto simp: SplitString_def)
  have "map (\<lambda>a. iname (the (cells h' a))) ys = map Some items"
    unfolding h'(3) [symmetric] map_map
  proof (rule map_cong [OF refl])
    fix a assume a: "a \<in> set ys"
    with h'(3) assms(4) have "name_at h' a \<noteq> []" by auto
    with name_at_named list_cells [OF h'(2) a]
    show "iname (the (cells h' a)) = (Some \<circ> name_at h') a" by force
  qed
  from count_before_list [OF h'(2) this] h'(1) show ?thesis by blast
qed

lemma CF_BOOL_items:
  "CF_BOOL = join_items (CHR '','') [''true'', ''false'', ''yes'', ''no'', ''on'', ''off'']"
  by (simp add: CF_BOOL_def escape_item_def)

lemma CF_SIGNALRANGE_items:
  "CF_SIGNALRANGE = join_items (CHR '','')
    [''hup'', ''int'', ''trap'', ''kill'', ''pipe'', ''cont'', ''abrt'', ''stop'', ''quit'', ''term'',
     ''child'', ''usr1'', ''usr2'', ''bus'', ''segv'']"
  by (simp add: CF_SIGNALRANGE_def escape_item_def)

text \<open>A search followed by an indexed choice is a lookup.\<close>

lemma find_index_map_of:
  "length vs = length ss \<Longrightarrow> \<forall>j < length vs. vs ! j = f j \<Longrightarrow>
   map_option f (find_index (\<lambda>t. s = t) ss) = map_of (zip ss vs) s"
proof (induction ss arbitrary: vs f)
  case (Cons t ts)
  then obtain v ws where vs: "vs = v # ws" by (cases vs) auto
  with Cons.prems have "length ws = length ts" "\<forall>j < length ws. ws ! j = f (Suc j)" "v = f 0"
    by fastforce+
  with Cons.IH [of ws "\<lambda>j. f (Suc j)"] show ?case
    by (simp add: vs option.map_comp comp_def)
qed simp

lemma find_index_length: "find_index P xs = Some i \<Longrightarrow> i < length xs"
  by (auto dest: find_index_SomeD)

lemma smod_pos: "0 \<le> n \<Longrightarrow> 0 < k \<Longrightarrow> n smod k = n mod (k :: int)"
  by (simp add: signed_modulo_int_def sgn_if)

definition booleans :: "(string \<times> bool) list" where
  "booleans = zip [''true'', ''false'', ''yes'', ''no'', ''on'', ''off''] [True, False, True, False, True, False]"

text \<open>A string that is no boolean is true.\<close>

lemma BooleanFromString_value:
  assumes "wf_heap h"
  shows "BooleanFromString h s = Some (case map_of booleans s of Some b \<Rightarrow> b | None \<Rightarrow> True)"
proof -
  define ns where "ns = [''true'', ''false'', ''yes'', ''no'', ''on'', ''off'']"
  define r where "r = find_index (\<lambda>t. s = t) ns"
  have i: "\<forall>s \<in> set ns. CHR 0x5C \<notin> set s \<and> length s < CF_BUFSIZE \<and> s \<noteq> []"
    by (simp add: CF_BUFSIZE_def ns_def)
  have "\<exists>p h'. SplitString h CF_BOOL (CHR '','') = Some (p, h') \<and>
      count_before h' s p = Some (int (case r of Some j \<Rightarrow> j | None \<Rightarrow> length ns))"
    unfolding CF_BOOL_items r_def ns_def [symmetric]
    by (rule count_in_split [OF assms _ _ i]) (simp_all add: ns_def)
  then obtain p h' where h': "SplitString h CF_BOOL (CHR '','') = Some (p, h')"
    "count_before h' s p = Some (int (case r of Some j \<Rightarrow> j | None \<Rightarrow> length ns))" by blast
  have m: "map_of booleans s = map_option even r" unfolding booleans_def ns_def [symmetric] r_def
    by (rule find_index_map_of [symmetric]) (simp_all add: ns_def less_Suc_eq)
  show ?thesis unfolding BooleanFromString_def m
    by (cases r) (simp_all add: h' smod_pos ns_def even_iff_mod_2_eq_zero, presburger)
qed

definition signal_names :: "string list" where
  "signal_names = [''hup'', ''int'', ''trap'', ''kill'', ''pipe'', ''cont'', ''abrt'', ''stop'',
     ''quit'', ''term'', ''child'', ''usr1'', ''usr2'', ''bus'', ''segv'']"

lemma SignalFromString_value:
  assumes "wf_heap h"
  shows "SignalFromString h s = Some (map_of (zip signal_names signals) s)"
proof -
  define r where "r = find_index (\<lambda>t. s = t) signal_names"
  have i: "\<forall>s \<in> set signal_names. CHR 0x5C \<notin> set s \<and> length s < CF_BUFSIZE \<and> s \<noteq> []"
    by (simp add: CF_BUFSIZE_def signal_names_def)
  have l: "length signal_names = length signals" by (simp add: signal_names_def signals_def)
  have "\<exists>p h'. SplitString h CF_SIGNALRANGE (CHR '','') = Some (p, h') \<and>
      count_before h' s p = Some (int (case r of Some j \<Rightarrow> j | None \<Rightarrow> length signal_names))"
    unfolding CF_SIGNALRANGE_items r_def signal_names_def [symmetric]
    by (rule count_in_split [OF assms _ _ i]) (simp_all add: signal_names_def)
  then obtain p h' where h': "SplitString h CF_SIGNALRANGE (CHR '','') = Some (p, h')"
    "count_before h' s p = Some (int (case r of Some j \<Rightarrow> j | None \<Rightarrow> length signal_names))" by blast
  have m: "map_of (zip signal_names signals) s = map_option (\<lambda>j. signals ! j) r" unfolding r_def
    by (rule find_index_map_of [symmetric]) (simp_all add: l)
  have "r = Some j \<Longrightarrow> j < length signals" for j
    unfolding r_def l [symmetric] by (rule find_index_length)
  then show ?thesis unfolding SignalFromString_def m
    by (cases r) (simp_all add: h' l)
qed

section \<open>Numbers with units\<close>

lemma scan_value_unit:
  assumes "\<not> isdigit c" "LONG_MIN \<le> i" "i \<le> LONG_MAX"
  shows "scan_value (show_int i @ [c]) = Some (i, c, [])"
  using scan_ld_show_int [OF _ assms(2,3), of "[c]"] assms(1)
  by (simp add: scan_value_def CF_BUFSIZE_def)

lemma scan_value_plain:
  assumes "LONG_MIN \<le> i" "i \<le> LONG_MAX"
  shows "scan_value (show_int i) = Some (i, CHR ''X'', [])"
  using scan_ld_show_int [OF _ assms, of "[]"] by (simp add: scan_value_def)

lemma show_int_head: "\<exists>c cs. show_int i = c # cs \<and> (isdigit c \<or> c = CHR ''-'')"
  using show_nat_Cons by (fastforce simp: show_int_def)

lemma show_int_no_word: "\<not> isdigit c \<Longrightarrow> c \<noteq> CHR ''-'' \<Longrightarrow> show_int i @ s \<noteq> c # cs"
  using show_int_head [of i] by auto

definition unit_value :: "char \<Rightarrow> int" where
  "unit_value c =
     (if c = CHR ''k'' then 1000 else if c = CHR ''K'' then 1024
      else if c = CHR ''m'' then 1000 ^ 2 else if c = CHR ''M'' then 1024 ^ 2
      else if c = CHR ''g'' then 1000 ^ 3 else if c = CHR ''G'' then 1024 ^ 3 else 1)"

text \<open>
  Numbers with units: a printed number is read back, a unit multiplies it, unless the product
  overflows, and a percentage is kept as its negation, or rejected outside of 0 to 100. The
  number -678, which stands for no number, is excluded.
\<close>

theorem int_from_string_units:
  assumes "LONG_MIN \<le> i" "i \<le> LONG_MAX" "i \<noteq> CF_NOINT"
  shows "IntFromString now (Some (show_int i)) = Some i \<and>
    (c \<in> set ''kKmMgG'' \<longrightarrow>
      IntFromString now (Some (show_int i @ [c])) = to_long (unit_value c * i)) \<and>
    IntFromString now (Some (show_int i @ ''%'')) =
      Some (if 0 \<le> i \<and> i \<le> 100 then - i else CF_NOINT)"
proof (intro conjI impI)
  have words: "\<not> isdigit (CHR ''i'')" "\<not> isdigit (CHR ''n'')" by (simp_all add: isdigit_def)
  note nw = show_int_no_word [OF words(1)] show_int_no_word [OF words(2)]
  show "IntFromString now (Some (show_int i)) = Some i"
    using nw [where s = "[]"] assms(3)
    by (simp add: IntFromString_def scan_value_plain [OF assms(1,2)] IsSpace_def apply_unit_def)
  show "IntFromString now (Some (show_int i @ ''%'')) = Some (if 0 \<le> i \<and> i \<le> 100 then - i else CF_NOINT)"
    using assms(3) scan_value_unit [OF _ assms(1,2), of "CHR ''%''"]
    by (simp add: IntFromString_def nw IsSpace_def apply_unit_def isdigit_def)
  assume c: "c \<in> set ''kKmMgG''"
  then have "\<not> isdigit c" by (auto simp: isdigit_def)
  with c assms(3) scan_value_unit [OF this assms(1,2)]
  show "IntFromString now (Some (show_int i @ [c])) = to_long (unit_value c * i)"
    by (auto simp: IntFromString_def nw IsSpace_def apply_unit_def unit_value_def)
qed

theorem int_from_string_units_witness:
  "IntFromString 0 (Some ''12k'') = Some 12000"
proof -
  have "show_int 12 = ''12''" by code_simp
  with int_from_string_units [of 12 0 "CHR ''k''"] show ?thesis
    by (simp add: LONG_MIN_def LONG_MAX_def CF_NOINT_def to_long_def unit_value_def)
qed

section \<open>Months\<close>

lemma fix_month_step: "- 12 < k \<Longrightarrow> k < 12 \<Longrightarrow> 0 \<le> fst (fix_month k y) \<and> fst (fix_month k y) < 12"
  by (auto simp: fix_month.simps [of k] fix_month.simps [of "k + 12"])

lemma smod_12: "\<bar>k smod 12\<bar> < (12 :: int)"
  by (simp add: signed_modulo_int_def abs_mult sgn_if)

lemma days_at_bounds: "0 \<le> month \<Longrightarrow> month < 12 \<Longrightarrow> \<exists>d. days_at month = Some d \<and> 28 \<le> d \<and> d \<le> 31"
proof -
  assume m: "0 \<le> month" "month < 12"
  then have "DAYS ! nat month \<in> set DAYS" by (intro nth_mem) (simp add: DAYS_def)
  with m show ?thesis by (auto simp: days_at_def DAYS_def)
qed

lemma GetMonthLength_bounds:
  "0 \<le> month \<Longrightarrow> month < 12 \<Longrightarrow> \<exists>d. GetMonthLength month year = Some d \<and> 28 \<le> d \<and> d \<le> 31"
  using days_at_bounds by (auto simp: GetMonthLength_def)

lemma month_loop_bounds:
  "\<exists>t. month_loop tm n i y tot = Some t \<and> 28 * int n + tot \<le> t \<and> t \<le> 31 * int n + tot"
proof (induction n arbitrary: i y tot)
  case (Suc n)
  obtain month y' where f: "fix_month ((tm - i) smod 12) y = (month, y')" by force
  with fix_month_step [of "(tm - i) smod 12" y] smod_12 [of "tm - i"]
  have "0 \<le> month" "month < 12" by auto
  with GetMonthLength_bounds obtain d where
    d: "GetMonthLength month y' = Some d" "28 \<le> d" "d \<le> 31" by blast
  from Suc [of "i + 1" y' "tot + d"] d f show ?case by fastforce
qed simp

text \<open>
  For any value of the month and every year that can be read, \<open>Months2Seconds\<close> stays inside
  the table of month lengths, and counts 28 to 31 days for each month.
\<close>

theorem months2seconds_bounds:
  assumes "IntFromString now (Some VYEAR) = Some y" "0 \<le> m"
  shows "\<exists>t. Months2Seconds now VMONTH VYEAR m = Some t \<and>
    28 * m * 86400 \<le> t \<and> t \<le> 31 * m * 86400"
  using month_loop_bounds [of "Month2Int (Some VMONTH)" "nat m" 0 y 0] assms
  by (auto simp: Months2Seconds_def)

theorem months2seconds_bounds_witness:
  "\<exists>t. Months2Seconds 0 ''Jun'' ''2014'' 3 = Some t \<and> 28 * 3 * 86400 \<le> t \<and> t \<le> 31 * 3 * 86400"
proof -
  have "IntFromString 0 (Some ''2014'') = Some 2014" by code_simp
  from months2seconds_bounds [OF this, of 3] show ?thesis by simp
qed

text \<open>
  The table starts with January at index 0, and the months are counted from 1: a promise made in
  January takes one month back to be the length of February.
\<close>

lemma months2seconds_in_january:
  "Months2Seconds 0 ''Jan'' ''2014'' 1 = Some (28 * 86400)"
  by code_simp

section \<open>Users and groups that do not exist\<close>

text \<open>
  The name of an unknown user is kept with its entry, for the messages about it; that of an unknown
  group is lost.
\<close>

lemma unknown_user_named:
  "Rlist2UidList (\<lambda>_. None) (\<lambda>_. []) [Scalar ''ann''] = Some [\<lparr>idnum = - 2, idname = Some ''ann''\<rparr>]"
  by (simp add: Rlist2UidList_def Str2Uid_def isdigit_def copy_name_def CF_MAXVARSIZE_def
      AddSimpleUidItem_def CF_UNKNOWN_OWNER_def)

lemma unknown_group_nameless:
  "Rlist2GidList (\<lambda>_. None) [Scalar ''staff''] = Some [\<lparr>idnum = - 2, idname = Some []\<rparr>]"
  by (simp add: Rlist2GidList_def Str2Gid_def isdigit_def AddSimpleUidItem_def CF_UNKNOWN_OWNER_def)

end
