(* ===== verification/Modes.thy ===== *)
theory Modes
  imports Scan "HOL-Library.Word"
begin

unbundle bit_operations_syntax

text \<open>
  File modes, \<open>libpromises/modes.c\<close>: the parser of \<open>u+rw,g-x\<close> and \<open>0644\<close>, which yields the bits to
  set and the bits to clear. \<open>int\<close> and \<open>mode_t\<close> are 32-bit words, and \<open>value > 07777\<close> compares
  signed. The octal constants of the code are written in hexadecimal: 07777 is \<open>0xFFF\<close>.
\<close>

datatype modestate = wild | who | which

datatype modesort = unknown | numeric | symbolic

definition CheckModeState :: "modestate \<Rightarrow> modestate \<Rightarrow> modesort \<Rightarrow> modesort \<Rightarrow> bool" where
  "CheckModeState stateA stateB sortA sortB =
     (if stateA \<noteq> wild \<and> stateB \<noteq> wild \<and> stateA \<noteq> stateB then False
      else if sortA \<noteq> unknown \<and> sortB \<noteq> unknown \<and> sortA \<noteq> sortB then False
      else True)"

definition SetModeMask ::
  "char \<Rightarrow> 32 word \<Rightarrow> 32 word \<Rightarrow> 32 word \<times> 32 word \<Rightarrow> bool \<times> 32 word \<times> 32 word"
where
  "SetModeMask action val affected pm =
     (case pm of (p, m) \<Rightarrow>
        if action = CHR ''+'' then (True, p OR val, m)
        else if action = CHR ''-'' then (True, p, m OR val)
        else if action = CHR ''='' then (True, p OR val, m OR (NOT val AND 0xFFF AND affected))
        else (False, p, m))"

text \<open>The local variables of \<open>ParseModeString\<close> and its two results.\<close>

record mode_vars =
  affected :: "32 word"
  val :: "32 word"
  gotaction :: bool
  no_error :: bool
  action :: char
  state :: modestate
  found_sort :: modesort
  sort :: modesort
  masks :: "32 word \<times> 32 word"

definition mode_start :: mode_vars where
  "mode_start = \<lparr>affected = 0, val = 0, gotaction = False, no_error = True, action = CHR ''='',
     state = wild, found_sort = unknown, sort = unknown, masks = (0, 0)\<rparr>"

text \<open>The letters of \<open>who\<close> with the bits they reach, and those of permissions with their bits.\<close>

definition who_bits :: "char \<Rightarrow> 32 word option" where
  "who_bits c =
     (if c = CHR ''a'' then Some 0xFFF else if c = CHR ''u'' then Some 0x9C0
      else if c = CHR ''g'' then Some 0x438 else if c = CHR ''o'' then Some 7 else None)"

definition perm_bits :: "char \<Rightarrow> 32 word \<Rightarrow> 32 word option" where
  "perm_bits c who_mask =
     (if c = CHR ''r'' then Some (0x124 AND who_mask) else if c = CHR ''w'' then Some (0x92 AND who_mask)
      else if c = CHR ''x'' then Some (0x49 AND who_mask) else if c = CHR ''s'' then Some (0xC00 AND who_mask)
      else if c = CHR ''t'' then Some 0x200 else None)"

text \<open>\<open>sscanf(sp, "%o", &value)\<close> at a digit: \<open>strtoul\<close> stops at the largest \<open>unsigned long\<close>.\<close>

definition scan_octal :: "string \<Rightarrow> 32 word" where
  "scan_octal s = word_of_int (min (2 ^ 64 - 1) (number 8 (scan_digits 8 s)))"

text \<open>\<open>Inl\<close>: the loop goes on at the rest of the string. \<open>Inr\<close>: the function returns.\<close>

definition mode_step ::
  "string \<Rightarrow> char \<Rightarrow> string \<Rightarrow> mode_vars \<Rightarrow> string \<times> mode_vars + bool \<times> 32 word \<times> 32 word"
where
  "mode_step modestring c cs v =
     (case who_bits c of
        Some bits \<Rightarrow> Inl (cs, v\<lparr>no_error := CheckModeState who (state v) symbolic (sort v),
            affected := affected v OR bits, sort := symbolic\<rparr>)
      | None \<Rightarrow>
      if c = CHR ''+'' \<or> c = CHR ''-'' \<or> c = CHR ''='' then
        (if gotaction v then Inr (False, masks v)
         else Inl (cs, v\<lparr>no_error := CheckModeState who (state v) symbolic (sort v),
            action := c, state := which, gotaction := True, sort := unknown\<rparr>))
      else
      (case perm_bits c (affected v) of
        Some bits \<Rightarrow> Inl (cs, v\<lparr>no_error := CheckModeState which (state v) symbolic (sort v),
            val := val v OR bits, sort := symbolic\<rparr>)
      | None \<Rightarrow>
      if isdigit c \<and> digit c < 8 then
        (let w = scan_octal (c # cs) in
         if 0xFFF < sint w then Inr (False, masks v)
         else Inl (dropWhile isdigit cs, v\<lparr>no_error := CheckModeState which (state v) numeric (sort v),
            sort := numeric, gotaction := True, state := which, affected := 0xFFF, val := w\<rparr>))
      else if c = CHR '','' then
        (case SetModeMask (action v) (val v) (affected v) (masks v) of
           (False, pm) \<Rightarrow> Inr (False, pm)
         | (True, pm) \<Rightarrow> Inl (cs, v\<lparr>masks := pm, found_sort := sort v, sort := unknown, action := CHR ''='',
             affected := 0, val := 0, gotaction := False, state := who\<rparr>))
      else Inr (False, masks v)))"

definition mode_end :: "string \<Rightarrow> mode_vars \<Rightarrow> bool \<times> 32 word \<times> 32 word" where
  "mode_end modestring v =
     (if (state v = who \<or> val v = 0) \<and> strcmp modestring ''0000'' \<noteq> 0 \<and> strcmp modestring ''000'' \<noteq> 0
      then (False, masks v)
      else SetModeMask (action v) (val v) (affected v) (masks v))"

lemma mode_step_shorter: "mode_step ms c cs v = Inl (rest, v') \<Longrightarrow> length rest \<le> length cs"
  by (auto simp: mode_step_def Let_def length_dropWhile_le split: option.splits if_splits prod.splits bool.splits)

function mode_loop :: "string \<Rightarrow> string \<Rightarrow> mode_vars \<Rightarrow> bool \<times> 32 word \<times> 32 word" where
  "mode_loop modestring [] v = mode_end modestring v"
| "mode_loop modestring (c # cs) v =
     (case mode_step modestring c cs v of
        Inl (rest, v') \<Rightarrow> mode_loop modestring rest v'
      | Inr r \<Rightarrow> r)"
  by pat_completeness auto

termination
  by (relation "measure (\<lambda>(_, s, _). length s)") (auto dest!: mode_step_shorter)

text \<open>The result, \<open>*plusmask\<close> and \<open>*minusmask\<close>.\<close>

definition ParseModeString :: "string option \<Rightarrow> bool \<times> 32 word \<times> 32 word" where
  "ParseModeString modestring =
     (case modestring of
        None \<Rightarrow> (True, 0, 0)
      | Some s \<Rightarrow> mode_loop s s mode_start)"

section \<open>The state that matters\<close>

text \<open>
  The loop always leaves by a return, so \<open>no_error\<close> is never read: the result depends neither on
  it nor on the sorts of the modes.
\<close>

abbreviation mode_core where
  "mode_core a x g c st pm \<equiv> \<lparr>affected = a, val = x, gotaction = g, no_error = True, action = c,
     state = st, found_sort = unknown, sort = unknown, masks = pm\<rparr>"

definition core :: "mode_vars \<Rightarrow> mode_vars" where
  "core v = v\<lparr>no_error := True, found_sort := unknown, sort := unknown\<rparr>"

lemma core_simps [simp]:
  "core (v\<lparr>no_error := e\<rparr>) = core v" "core (v\<lparr>found_sort := s\<rparr>) = core v"
  "core (v\<lparr>sort := s\<rparr>) = core v" "core (v\<lparr>affected := a\<rparr>) = core v\<lparr>affected := a\<rparr>"
  "core (v\<lparr>val := x\<rparr>) = core v\<lparr>val := x\<rparr>" "core (v\<lparr>gotaction := g\<rparr>) = core v\<lparr>gotaction := g\<rparr>"
  "core (v\<lparr>action := c\<rparr>) = core v\<lparr>action := c\<rparr>" "core (v\<lparr>state := st\<rparr>) = core v\<lparr>state := st\<rparr>"
  "core (v\<lparr>masks := pm\<rparr>) = core v\<lparr>masks := pm\<rparr>" "core (core v) = core v"
  "affected (core v) = affected v" "val (core v) = val v" "gotaction (core v) = gotaction v"
  "action (core v) = action v" "state (core v) = state v" "masks (core v) = masks v"
  by (simp_all add: core_def)

lemma core_fields:
  "core v = core w \<Longrightarrow> affected v = affected w \<and> val v = val w \<and> gotaction v = gotaction w \<and>
     action v = action w \<and> state v = state w \<and> masks v = masks w"
  by (metis core_simps(11-16))

definition same_step where
  "same_step = rel_sum (\<lambda>(rest, v) (rest', w). rest = rest' \<and> core v = core w) (=)"

lemma mode_step_core:
  assumes "core v = core w"
  shows "same_step (mode_step ms c cs v) (mode_step ms c cs w)"
proof -
  have eqs: "affected v = affected w" "val v = val w" "gotaction v = gotaction w"
    "action v = action w" "state v = state w" "masks v = masks w"
    using core_fields [OF assms] by auto
  obtain b p m where s: "SetModeMask (action w) (val w) (affected w) (masks w) = (b, p, m)"
    by (cases "SetModeMask (action w) (val w) (affected w) (masks w)") auto
  show ?thesis
  proof (cases "who_bits c")
    case None
    then show ?thesis
      by (cases "perm_bits c (affected w)"; cases b)
        (auto simp: mode_step_def same_step_def eqs assms s Let_def)
  qed (simp add: mode_step_def same_step_def eqs assms)
qed

lemma mode_loop_core: "core v = core w \<Longrightarrow> mode_loop ms s v = mode_loop ms s w"
proof (induction ms s v arbitrary: w rule: mode_loop.induct)
  case (1 ms v)
  then show ?case using core_fields [of v w] by (simp add: mode_end_def)
next
  case (2 ms c cs v)
  have same: "same_step (mode_step ms c cs v) (mode_step ms c cs w)"
    by (rule mode_step_core [OF 2(2)])
  show ?case
  proof (cases "mode_step ms c cs v")
    case (Inl a)
    with same obtain rest v' w' where a: "a = (rest, v')" "mode_step ms c cs w = Inl (rest, w')"
      "core v' = core w'" by (cases a) (auto simp: same_step_def rel_sum_simps elim!: rel_sum.cases)
    with 2(1) [OF Inl] Inl show ?thesis by simp
  next
    case (Inr r)
    with same have "mode_step ms c cs w = Inr r" by (auto simp: same_step_def elim!: rel_sum.cases)
    with Inr show ?thesis by simp
  qed
qed

section \<open>One clause\<close>

lemma loop_step:
  "mode_step ms ch cs v = Inl (rest, w) \<Longrightarrow> core w = core w' \<Longrightarrow>
   mode_loop ms (ch # cs) v = mode_loop ms rest w'"
  by (simp add: mode_loop_core [of w w'])

lemma step_who: "who_bits ch = Some b \<Longrightarrow>
  mode_loop ms (ch # cs) (mode_core a x g c st pm) = mode_loop ms cs (mode_core (a OR b) x g c st pm)"
  by (rule loop_step, simp add: mode_step_def, simp add: core_def)

lemma step_action: "ch = CHR ''+'' \<or> ch = CHR ''-'' \<or> ch = CHR ''='' \<Longrightarrow>
  mode_loop ms (ch # cs) (mode_core a x False c st pm) = mode_loop ms cs (mode_core a x True ch which pm)"
  by (elim disjE; hypsubst; rule loop_step, simp add: mode_step_def who_bits_def, simp add: core_def)

lemma perm_bits_letter: "perm_bits ch a = Some b \<Longrightarrow>
  who_bits ch = None \<and> ch \<noteq> CHR ''+'' \<and> ch \<noteq> CHR ''-'' \<and> ch \<noteq> CHR ''=''"
  by (auto simp: perm_bits_def who_bits_def split: if_splits)

lemma step_perm: "perm_bits ch a = Some b \<Longrightarrow>
  mode_loop ms (ch # cs) (mode_core a x g c st pm) = mode_loop ms cs (mode_core a (x OR b) g c st pm)"
  by (frule perm_bits_letter, rule loop_step, simp add: mode_step_def, simp add: core_def)

lemma SetModeMask_ok: "c = CHR ''+'' \<or> c = CHR ''-'' \<or> c = CHR ''='' \<Longrightarrow> fst (SetModeMask c x a pm)"
  by (auto simp: SetModeMask_def split: prod.split)

lemma step_comma:
  assumes "c = CHR ''+'' \<or> c = CHR ''-'' \<or> c = CHR ''=''"
  shows "mode_loop ms (CHR '','' # cs) (mode_core a x g c st pm) =
    mode_loop ms cs (mode_core 0 0 False (CHR ''='') who (snd (SetModeMask c x a pm)))"
proof -
  obtain p m where "SetModeMask c x a pm = (True, p, m)"
    using SetModeMask_ok [OF assms, of x a pm] by (cases "SetModeMask c x a pm") auto
  then show ?thesis
    by (intro loop_step, simp add: mode_step_def who_bits_def perm_bits_def isdigit_def)
      (simp add: core_def)
qed

text \<open>A clause \<open>ugo=rw\<close> by its letters, and what it does to the two masks.\<close>

type_synonym clause = "string \<times> char \<times> string"

definition who_mask :: "string \<Rightarrow> 32 word" where
  "who_mask ws = foldr (\<lambda>c m. the (who_bits c) OR m) ws 0"

definition perm_mask :: "string \<Rightarrow> 32 word \<Rightarrow> 32 word" where
  "perm_mask ps a = foldr (\<lambda>c m. the (perm_bits c a) OR m) ps 0"

definition clause_text :: "clause \<Rightarrow> string" where
  "clause_text cl = (case cl of (ws, c, ps) \<Rightarrow> ws @ c # ps)"

definition clause_ok :: "clause \<Rightarrow> bool" where
  "clause_ok cl \<longleftrightarrow> (case cl of (ws, c, ps) \<Rightarrow>
     set ws \<subseteq> set ''augo'' \<and> c \<in> set ''+-='' \<and> set ps \<subseteq> set ''rwxst'')"

definition clause_value :: "clause \<Rightarrow> 32 word" where
  "clause_value cl = (case cl of (ws, c, ps) \<Rightarrow> perm_mask ps (who_mask ws))"

definition clause_plus :: "clause \<Rightarrow> 32 word" where
  "clause_plus cl = (if fst (snd cl) = CHR ''-'' then 0 else clause_value cl)"

definition clause_minus :: "clause \<Rightarrow> 32 word" where
  "clause_minus cl =
     (if fst (snd cl) = CHR ''-'' then clause_value cl
      else if fst (snd cl) = CHR ''='' then NOT (clause_value cl) AND 0xFFF AND who_mask (fst cl)
      else 0)"

lemma run_who: "set ws \<subseteq> set ''augo'' \<Longrightarrow>
  mode_loop ms (ws @ rest) (mode_core a x g c st pm) = mode_loop ms rest (mode_core (a OR who_mask ws) x g c st pm)"
proof (induction ws arbitrary: a)
  case (Cons w ws)
  then have "w = CHR ''a'' \<or> w = CHR ''u'' \<or> w = CHR ''g'' \<or> w = CHR ''o''" by simp
  then obtain b where "who_bits w = Some b" unfolding who_bits_def by (elim disjE) simp_all
  with Cons show ?case by (simp add: step_who who_mask_def or.assoc del: mode_loop.simps)
qed (simp add: who_mask_def)

lemma run_perm: "set ps \<subseteq> set ''rwxst'' \<Longrightarrow>
  mode_loop ms (ps @ rest) (mode_core a x g c st pm) = mode_loop ms rest (mode_core a (x OR perm_mask ps a) g c st pm)"
proof (induction ps arbitrary: x)
  case (Cons w ps)
  then have "w = CHR ''r'' \<or> w = CHR ''w'' \<or> w = CHR ''x'' \<or> w = CHR ''s'' \<or> w = CHR ''t''" by simp
  then obtain b where "perm_bits w a = Some b" unfolding perm_bits_def by (elim disjE) simp_all
  with Cons show ?case by (simp add: step_perm perm_mask_def or.assoc del: mode_loop.simps)
qed (simp add: perm_mask_def)

lemma clause_action: "c \<in> set ''+-='' \<Longrightarrow> c = CHR ''+'' \<or> c = CHR ''-'' \<or> c = CHR ''=''"
  by simp

lemma run_clause:
  assumes "clause_ok (ws, c, ps)"
  shows "mode_loop ms (clause_text (ws, c, ps) @ rest) (mode_core 0 0 False (CHR ''='') st pm) =
    mode_loop ms rest (mode_core (who_mask ws) (perm_mask ps (who_mask ws)) True c which pm)"
proof -
  from assms have c: "set ws \<subseteq> set ''augo''" "c \<in> set ''+-=''" "set ps \<subseteq> set ''rwxst''"
    by (simp_all only: clause_ok_def prod.case)
  show ?thesis
    by (simp add: clause_text_def run_who [OF c(1)] step_action [OF clause_action [OF c(2)]] run_perm [OF c(3)]
        del: mode_loop.simps)
qed

lemma clause_masks:
  assumes "c \<in> set ''+-=''"
  shows "SetModeMask c (perm_mask ps (who_mask ws)) (who_mask ws) (p, m) =
    (True, p OR clause_plus (ws, c, ps), m OR clause_minus (ws, c, ps))"
  using clause_action [OF assms]
  by (elim disjE) (simp_all add: SetModeMask_def clause_plus_def clause_minus_def clause_value_def)

text \<open>Masks of a list of clauses.\<close>

definition union_masks :: "32 word list \<Rightarrow> 32 word" where
  "union_masks ms = foldr (OR) ms 0"

lemma run_clauses:
  assumes "\<forall>cl \<in> set cls. clause_ok cl" "cls \<noteq> []" "clause_value (last cls) \<noteq> 0"
  shows "mode_loop ms (join_with '','' (map clause_text cls)) (mode_core 0 0 False (CHR ''='') st (p, m)) =
    (True, p OR union_masks (map clause_plus cls), m OR union_masks (map clause_minus cls))"
  using assms
proof (induction cls arbitrary: st p m)
  case (Cons cl cls)
  obtain ws c ps where cl: "cl = (ws, c, ps)" by (cases cl) auto
  with Cons(2) have ok: "clause_ok (ws, c, ps)" by simp
  then have c: "c \<in> set ''+-=''" by (simp only: clause_ok_def prod.case)
  show ?case
  proof (cases cls)
    case Nil
    with Cons(4) have "perm_mask ps (who_mask ws) \<noteq> 0" by (simp add: cl clause_value_def)
    then show ?thesis
      using run_clause [OF ok, of ms "[]"]
      by (simp add: Nil cl mode_end_def clause_masks [OF c] union_masks_def)
  next
    case (Cons d ds)
    then have "join_with '','' (map clause_text (cl # cls)) =
        clause_text (ws, c, ps) @ CHR '','' # join_with '','' (map clause_text cls)"
      by (simp add: cl)
    moreover have "clause_value (last cls) \<noteq> 0" using Cons.prems(3) Cons by simp
    ultimately show ?thesis
      using Cons.IH Cons.prems(1) Cons
      by (simp add: run_clause [OF ok] step_comma [OF clause_action [OF c]] clause_masks [OF c] cl
          union_masks_def or.assoc del: mode_loop.simps)
  qed
qed simp

section \<open>Numbers\<close>

fun show_octal :: "nat \<Rightarrow> string" where
  "show_octal n = (if n < 8 then [] else show_octal (n div 8)) @ [char_of (48 + n mod 8)]"

declare show_octal.simps [simp del]

lemma octal_digits:
  "c \<in> set (show_octal n) \<Longrightarrow> isdigit c \<and> digit c < 8"
proof (induction n rule: show_octal.induct)
  case (1 n)
  from 1(2) have "c \<in> set (if n < 8 then [] else show_octal (n div 8)) \<or> c = char_of (48 + n mod 8)"
    by (subst (asm) show_octal.simps) auto
  then show ?case
  proof
    assume "c \<in> set (if n < 8 then [] else show_octal (n div 8))"
    with 1(1) show ?thesis by (auto split: if_splits)
  next
    have "n mod 8 < 10" by (rule order.strict_trans [of _ 8]) simp_all
    then show "c = char_of (48 + n mod 8) \<Longrightarrow> ?thesis" by simp
  qed
qed

lemma number_octal [simp]: "number 8 (show_octal n) = int n"
proof (induction n rule: show_octal.induct)
  case (1 n)
  have "n mod 8 < 10" by (rule order.strict_trans [of _ 8]) simp_all
  with 1 show ?case by (subst show_octal.simps) (auto simp: of_nat_div of_nat_mod)
qed

lemma octal_Cons: "\<exists>c cs. show_octal n = c # cs"
  by (subst show_octal.simps) (cases "if n < 8 then [] else show_octal (n div 8)", auto)

lemma scan_octal_text:
  "n \<le> 0xFFF \<Longrightarrow> scan_octal (show_octal n) = word_of_nat n"
proof -
  assume "n \<le> 0xFFF"
  have "scan_digits 8 (show_octal n) = show_octal n"
    unfolding scan_digits_def using octal_digits by (auto simp: takeWhile_eq_all_conv)
  moreover have "min (2 ^ 64 - 1) (int n) = int n" using \<open>n \<le> 0xFFF\<close> by simp
  ultimately show ?thesis by (simp add: scan_octal_def)
qed

lemma sint_small: "n \<le> 0xFFF \<Longrightarrow> sint (word_of_nat n :: 32 word) = int n"
  by (simp add: signed_of_nat signed_take_bit_int_eq_self)

lemma digit_letters: "isdigit c \<Longrightarrow> digit c < 8 \<Longrightarrow>
  who_bits c = None \<and> perm_bits c a = None \<and> c \<noteq> CHR ''+'' \<and> c \<noteq> CHR ''-'' \<and> c \<noteq> CHR ''=''"
proof -
  assume "isdigit c"
  moreover have "\<forall>l \<in> set ''augo+-=rwxst''. \<not> isdigit l" by (simp add: isdigit_def)
  ultimately have "c \<notin> set ''augo+-=rwxst''" by blast
  then show ?thesis by (simp add: who_bits_def perm_bits_def)
qed

lemma run_octal:
  assumes "n \<le> 0xFFF"
  shows "mode_loop ms (show_octal n) (mode_core a x g c st pm) =
    mode_loop ms [] (mode_core 0xFFF (word_of_nat n) True c which pm)"
proof -
  obtain d ds where d: "show_octal n = d # ds" using octal_Cons by blast
  with octal_digits [of _ n] have dd: "isdigit d" "digit d < 8" "dropWhile isdigit ds = []"
    by (auto simp: dropWhile_eq_Nil_conv)
  have s: "scan_octal (d # ds) = word_of_nat n" using scan_octal_text [OF assms] d by simp
  have "mode_step ms d ds (mode_core a x g c st pm) =
      Inl ([], \<lparr>affected = 0xFFF, val = word_of_nat n, gotaction = True,
        no_error = CheckModeState which st numeric unknown, action = c, state = which,
        found_sort = unknown, sort = numeric, masks = pm\<rparr>)"
    using digit_letters [OF dd(1,2), of a] dd sint_small [OF assms] assms
    by (simp add: mode_step_def s)
  then show ?thesis unfolding d by (rule loop_step) (simp add: core_def)
qed

section \<open>Bits outside of the mode\<close>

definition small :: "32 word \<Rightarrow> bool" where
  "small w \<longleftrightarrow> w AND NOT 0xFFF = 0"

lemma small_or: "small x \<Longrightarrow> small y \<Longrightarrow> small (x OR y)"
  by (simp add: small_def bit.conj_disj_distrib2)

lemma small_and: "small x \<Longrightarrow> small (y AND x)"
  by (simp add: small_def and.assoc)

lemma small_or_zero [simp]: "small 0"
  by (simp add: small_def)

definition small_masks :: "mode_vars \<Rightarrow> bool" where
  "small_masks v \<longleftrightarrow> small (affected v) \<and> small (val v) \<and> small (fst (masks v)) \<and> small (snd (masks v))"

lemma SetModeMask_small:
  assumes "small x" "small a" "small p" "small m" "SetModeMask c x a (p, m) = (b, p', m')"
  shows "small p' \<and> small m'"
  using assms by (auto simp: SetModeMask_def small_or small_and split: if_splits)

lemma who_small: "who_bits c = Some b \<Longrightarrow> small b"
  by (auto simp: who_bits_def small_def split: if_splits)

lemma perm_small: "perm_bits c a = Some b \<Longrightarrow> small a \<Longrightarrow> small b"
  by (auto simp: perm_bits_def small_and split: if_splits) (simp add: small_def)

lemma mask_step_small:
  assumes "small_masks v" "SetModeMask (action v) (val v) (affected v) (masks v) = (b, p, m)"
  shows "small p \<and> small m"
  by (rule SetModeMask_small [of "val v" "affected v" "fst (masks v)" "snd (masks v)" "action v" b])
    (use assms in \<open>simp_all add: small_masks_def\<close>)

lemma mode_step_small:
  assumes "\<not> isdigit c" "small_masks v" "mode_step ms c cs v = Inl (rest, v')"
  shows "rest = cs \<and> small_masks v'"
proof (cases "who_bits c")
  case (Some b)
  with assms who_small [OF Some] show ?thesis
    by (auto simp: mode_step_def small_masks_def small_or)
next
  case None
  note w = None
  show ?thesis
  proof (cases "perm_bits c (affected v)")
    case (Some b)
    from perm_small [OF Some] assms w perm_bits_letter [OF Some] show ?thesis
      by (auto simp: mode_step_def small_masks_def small_or Some)
  next
    case None
    obtain b p m where pm: "SetModeMask (action v) (val v) (affected v) (masks v) = (b, p, m)"
      by (cases "SetModeMask (action v) (val v) (affected v) (masks v)") auto
    with assms(1,2,3) mask_step_small [OF assms(2) pm] None w show ?thesis
      by (cases b) (auto simp: mode_step_def small_masks_def split: if_splits)
  qed
qed

lemma mode_step_small_result:
  assumes "small_masks v" "mode_step ms c cs v = Inr (b, p, m)"
  shows "small p \<and> small m"
proof -
  obtain b' p' m' where pm: "SetModeMask (action v) (val v) (affected v) (masks v) = (b', p', m')"
    by (cases "SetModeMask (action v) (val v) (affected v) (masks v)") auto
  with assms mask_step_small [OF assms(1) pm] show ?thesis
    by (cases b')
      (auto simp: mode_step_def small_masks_def Let_def split: if_splits option.splits)
qed

lemma mode_loop_small:
  "\<forall>c \<in> set s. \<not> isdigit c \<Longrightarrow> small_masks v \<Longrightarrow> mode_loop ms s v = (b, p, m) \<Longrightarrow> small p \<and> small m"
proof (induction ms s v rule: mode_loop.induct)
  case (1 ms v)
  obtain b' p' m' where pm: "SetModeMask (action v) (val v) (affected v) (masks v) = (b', p', m')"
    by (cases "SetModeMask (action v) (val v) (affected v) (masks v)") auto
  with 1 mask_step_small [OF 1(2) pm] show ?case
    by (auto simp: mode_end_def small_masks_def split: if_splits)
next
  case (2 ms c cs v)
  show ?case
  proof (cases "mode_step ms c cs v")
    case (Inl a)
    obtain rest v' where a: "a = (rest, v')" by force
    with Inl 2(2,3) mode_step_small [of c v ms cs rest v'] have "rest = cs" "small_masks v'" by auto
    with 2 Inl a show ?thesis by auto
  next
    case (Inr r)
    with 2 mode_step_small_result [OF 2(3)] show ?thesis by auto
  qed
qed

lemma set_mode: "w AND m = w \<Longrightarrow> ((st AND m) OR w) AND NOT (NOT w AND m) = (w :: 32 word)"
proof (rule bit_word_eqI)
  fix i
  assume "w AND m = w" "i < LENGTH(32)"
  then have "bit (w AND m) i = bit w i" by simp
  with \<open>i < LENGTH(32)\<close> show "bit (((st AND m) OR w) AND NOT (NOT w AND m)) i = bit w i"
    by (auto simp: bit_and_iff bit_or_iff bit_not_iff)
qed

section \<open>Properties\<close>

text \<open>
  C40. A symbolic mode is a list of clauses such as \<open>u=rw,go-w\<close>. Unless its last clause asks for
  no permission, it is accepted; the bits to set are those that some clause with \<open>+\<close> or \<open>=\<close> asks
  for, the bits to clear those that a clause with \<open>-\<close> asks for and, for \<open>=\<close>, those in reach of
  the clause that it does not ask for.
\<close>

theorem symbolic_mode:
  assumes "\<forall>cl \<in> set cls. clause_ok cl" "cls \<noteq> []" "clause_value (last cls) \<noteq> 0"
  shows "ParseModeString (Some (join_with '','' (map clause_text cls))) =
    (True, union_masks (map clause_plus cls), union_masks (map clause_minus cls))"
  using run_clauses [OF assms, of _ wild 0 0] by (simp add: ParseModeString_def mode_start_def)

theorem symbolic_mode_witness:
  "ParseModeString (Some ''u=rw,go-w'') = (True, 0x180, 0x852)"
proof -
  have "\<forall>cl \<in> set [(''u'', CHR ''='', ''rw''), (''go'', CHR ''-'', ''w'')]. clause_ok cl"
    by (simp add: clause_ok_def)
  from symbolic_mode [OF this] show ?thesis
    by (simp add: clause_text_def clause_value_def clause_plus_def clause_minus_def union_masks_def
        who_mask_def perm_mask_def who_bits_def perm_bits_def)
qed

text \<open>
  A positive number up to 07777, written in octal, gives masks that turn every file mode into
  that number, when they are applied as the agent does.
\<close>

theorem numeric_mode:
  assumes "0 < n" "n \<le> 0xFFF"
  shows "\<exists>plusmask minusmask. ParseModeString (Some (show_octal n)) = (True, plusmask, minusmask) \<and>
    ((st_mode AND 0xFFF) OR plusmask) AND NOT minusmask = word_of_nat n"
proof -
  let ?w = "word_of_nat n :: 32 word"
  have w: "?w \<noteq> 0" "?w AND 0xFFF = ?w"
  proof -
    have "uint ?w = int n" using assms by (simp add: unsigned_of_nat take_bit_nat_eq_self)
    then show "?w \<noteq> 0" using assms(1) by auto
    have "uint (take_bit 12 ?w) = uint ?w"
      using assms(2) \<open>uint ?w = int n\<close> by (simp add: unsigned_take_bit_eq take_bit_int_eq_self)
    then have "take_bit 12 ?w = ?w" by (simp only: word_uint_eq_iff)
    then show "?w AND 0xFFF = ?w" by (simp add: take_bit_eq_mask mask_numeral)
  qed
  have "ParseModeString (Some (show_octal n)) = (True, ?w, NOT ?w AND 0xFFF)"
    using run_octal [OF assms(2), of "show_octal n" 0 0 False "CHR ''=''" wild "(0, 0)"] w
    by (simp add: ParseModeString_def mode_start_def mode_end_def SetModeMask_def)
  moreover have "((st_mode AND 0xFFF) OR ?w) AND NOT (NOT ?w AND 0xFFF) = ?w"
    by (rule set_mode [OF w(2)])
  ultimately show ?thesis by blast
qed

theorem numeric_mode_witness:
  "\<exists>plusmask minusmask. ParseModeString (Some ''644'') = (True, plusmask, minusmask) \<and>
    ((0x1ED AND 0xFFF) OR plusmask) AND NOT minusmask = 0x1A4"
proof -
  have "show_octal 0x1A4 = ''644''" by code_simp
  with numeric_mode [of "0x1A4" "0x1ED"] show ?thesis by simp
qed

text \<open>
  Without digits, the parser never asks for a bit outside of 07777, whatever the string and
  whether it is accepted or not.
\<close>

theorem symbolic_masks_small:
  assumes "\<forall>c \<in> set s. \<not> isdigit c" "ParseModeString (Some s) = (b, plusmask, minusmask)"
  shows "plusmask AND NOT 0xFFF = 0 \<and> minusmask AND NOT 0xFFF = 0"
proof -
  have "small_masks mode_start" by (simp add: small_masks_def mode_start_def)
  with mode_loop_small [OF assms(1) this] assms(2) show ?thesis
    by (simp add: ParseModeString_def small_def)
qed

theorem symbolic_masks_small_witness:
  "(0x40 :: 32 word) AND NOT 0xFFF = 0 \<and> (0 :: 32 word) AND NOT 0xFFF = 0"
proof -
  have "\<forall>c \<in> set ''u+xg''. \<not> isdigit c" by (simp add: isdigit_def)
  moreover have "ParseModeString (Some ''u+xg'') = (True, 0x40, 0)" by code_simp
  ultimately show ?thesis by (rule symbolic_masks_small)
qed

text \<open>
  The checks of the parser have no effect, as their result is never read: a letter of \<open>who\<close> among
  the permissions and a number after letters are accepted. A number that exceeds an \<open>int\<close> passes
  the test for numbers that are too large.
\<close>

lemma checks_are_ignored:
  "\<not> CheckModeState who which symbolic symbolic \<and>
   ParseModeString (Some ''u+xg'') = (True, 0x40, 0) \<and>
   ParseModeString (Some ''u+w7'') = (True, 7, 0) \<and>
   ParseModeString (Some ''37777777777'') = (True, - 1, 0)"
  by code_simp

end
