(* ===== verification/Vars.thy ===== *)
theory Vars
  imports Scan Value_List
begin

text \<open>
  The text of variable references \<open>$(name)\<close>, \<open>${name}\<close>, and the same with \<open>@\<close>: the recognizers and
  extractors of \<open>libpromises/vars.c\<close> and the lexical tools of \<open>libpromises/expand.c\<close>. A write outside
  of a buffer is \<open>None\<close>. The messages about broken syntax are left out.
\<close>

section \<open>Recognizing references\<close>

record var_scan =
  vs_left :: char
  vs_right :: char
  vs_dollar :: bool
  vs_bracks :: int
  vs_vars :: int

definition opener :: "char \<Rightarrow> bool" where
  "opener c \<longleftrightarrow> c = CHR ''('' \<or> c = CHR ''{''"

definition closer :: "char \<Rightarrow> bool" where
  "closer c \<longleftrightarrow> c = CHR '')'' \<or> c = CHR ''}''"

definition opens :: "string \<Rightarrow> bool" where
  "opens s \<longleftrightarrow> (case s of c # _ \<Rightarrow> opener c | [] \<Rightarrow> False)"

definition vs_start :: var_scan where
  "vs_start = \<lparr>vs_left = CHR ''x'', vs_right = CHR ''x'', vs_dollar = False, vs_bracks = 0, vs_vars = 0\<rparr>"

text \<open>The switch of the loops of \<open>IsCf3VarString\<close>, \<open>IsCf3Scalar\<close> and \<open>IsExpandable\<close>, and their two tests.\<close>

definition vs_mark :: "(char \<Rightarrow> bool) \<Rightarrow> char \<Rightarrow> string \<Rightarrow> var_scan \<Rightarrow> var_scan" where
  "vs_mark sigil c cs v =
     (if sigil c then (if opens cs then v\<lparr>vs_dollar := True\<rparr> else v)
      else if opener c then
        (if vs_dollar v then v\<lparr>vs_left := c, vs_bracks := vs_bracks v + 1\<rparr> else v)
      else if closer c then
        (if vs_dollar v then v\<lparr>vs_bracks := vs_bracks v - 1, vs_right := c\<rparr> else v)
      else v)"

definition vs_close :: "var_scan \<Rightarrow> var_scan" where
  "vs_close v =
     (let v1 = (if vs_left v = CHR ''('' \<and> vs_right v = CHR '')'' \<and> vs_dollar v \<and> vs_bracks v = 0
                then v\<lparr>vs_vars := vs_vars v + 1, vs_dollar := False\<rparr> else v)
      in if vs_left v1 = CHR ''{'' \<and> vs_right v1 = CHR ''}'' \<and> vs_dollar v1 \<and> vs_bracks v1 = 0
         then v1\<lparr>vs_vars := vs_vars v1 + 1, vs_dollar := False\<rparr> else v1)"

text \<open>\<open>None\<close>: a slash inside brackets makes the function return false.\<close>

fun vs_loop :: "(char \<Rightarrow> bool) \<Rightarrow> bool \<Rightarrow> string \<Rightarrow> var_scan \<Rightarrow> var_scan option" where
  "vs_loop sigil slash [] v = Some v"
| "vs_loop sigil slash (c # cs) v =
     (let v1 = vs_mark sigil c cs v in
      if slash \<and> 0 < vs_bracks v1 \<and> c = CHR ''/'' then None
      else vs_loop sigil slash cs (vs_close v1))"

definition IsCf3VarString :: "string option \<Rightarrow> bool" where
  "IsCf3VarString str =
     (case str of
        None \<Rightarrow> False
      | Some s \<Rightarrow>
          (case vs_loop (\<lambda>c. c = CHR ''$'' \<or> c = CHR ''@'') True s vs_start of
             None \<Rightarrow> False
           | Some v \<Rightarrow> if vs_dollar v \<and> vs_bracks v \<noteq> 0 then False else vs_vars v \<noteq> 0))"

definition IsCf3Scalar :: "string option \<Rightarrow> int" where
  "IsCf3Scalar str =
     (case str of
        None \<Rightarrow> 0
      | Some s \<Rightarrow>
          (case vs_loop (\<lambda>c. c = CHR ''$'') True s vs_start of
             None \<Rightarrow> 0
           | Some v \<Rightarrow> if vs_dollar v \<and> vs_bracks v \<noteq> 0 then 0 else vs_vars v))"

definition IsExpandable :: "string \<Rightarrow> bool" where
  "IsExpandable str =
     (case vs_loop (\<lambda>c. c = CHR ''$'') False str vs_start of
        None \<Rightarrow> False
      | Some v \<Rightarrow> if vs_bracks v \<noteq> 0 then False else 0 < vs_vars v)"

definition UnresolvedArgs :: "Rval list \<Rightarrow> bool" where
  "UnresolvedArgs args =
     (find_index (\<lambda>r. case r of
        Scalar s \<Rightarrow> IsCf3Scalar (Some s) \<noteq> 0 \<and>
          \<not> (strstr s ''$(this)'' \<or> strstr s ''${this}'' \<or> strstr s ''$(this.k)'' \<or>
             strstr s ''${this.k}'' \<or> strstr s ''$(this.v)'' \<or> strstr s ''${this.v}'')
      | _ \<Rightarrow> True) args \<noteq> None)"

text \<open>\<open>StringContainsVar\<close>: the loop from one \<open>$\<close> or \<open>@\<close> to the next.\<close>

definition sigil :: "char \<Rightarrow> bool" where
  "sigil c \<longleftrightarrow> c = CHR ''$'' \<or> c = CHR ''@''"

definition closed_by :: "char \<Rightarrow> string \<Rightarrow> nat \<Rightarrow> bool" where
  "closed_by b u n \<longleftrightarrow> n < length u \<and>
     (b = CHR ''('' \<and> u ! n = CHR '')'' \<or> b = CHR ''{'' \<and> u ! n = CHR ''}'')"

lemma dropWhile_shorter: "dropWhile P s = c # t \<Longrightarrow> length t < length s"
  by (metis Suc_le_eq length_Cons length_dropWhile_le)

function contains_var :: "string \<Rightarrow> string \<Rightarrow> bool" where
  "contains_var v s =
     (case dropWhile (\<lambda>c. \<not> sigil c) s of
        [] \<Rightarrow> False
      | _ # t \<Rightarrow>
          (case t of
             [] \<Rightarrow> False
           | b # u \<Rightarrow>
               if \<not> opener b then contains_var v t
               else if strncmp u v (length v) \<noteq> 0 then contains_var v t
               else if closed_by b u (length v) then True
               else contains_var v t))"
  by pat_completeness auto

termination
  by (relation "measure (\<lambda>(_, s). length s)") (auto dest!: dropWhile_shorter)

declare contains_var.simps [simp del]

definition StringContainsVar :: "string option \<Rightarrow> string \<Rightarrow> bool" where
  "StringContainsVar s v = (case s of None \<Rightarrow> False | Some t \<Rightarrow> contains_var v t)"

fun qualified_loop :: "string \<Rightarrow> bool" where
  "qualified_loop [] = False"
| "qualified_loop (c # cs) =
     (if c = CHR ''['' then False else if c = CHR ''.'' then True else qualified_loop cs)"

definition IsQualifiedVariable :: "string \<Rightarrow> bool" where
  "IsQualifiedVariable var = qualified_loop var"

section \<open>Extracting references\<close>

text \<open>The pointer that is returned: \<open>NULL\<close>, \<open>str\<close> itself, or the buffer \<open>substr\<close>.\<close>

datatype extracted = ExNull | ExStr | ExSubstr

fun inner_loop :: "string \<Rightarrow> nat \<Rightarrow> string \<Rightarrow> int \<Rightarrow> (extracted \<times> string) option" where
  "inner_loop str i [] bracks = Some (ExNull, [])"
| "inner_loop str i (c # cs) bracks =
     (let b = (if opener c then bracks + 1 else if closer c then bracks - 1 else bracks) in
      if b = 0 then
        (let sub = take (i - 2) (drop 2 str) in
         if CF_BUFSIZE \<le> i - 2 then None
         else if sub = [] then Some (ExNull, [])
         else Some (ExSubstr, sub))
      else inner_loop str (Suc i) cs b)"

text \<open>\<open>buf\<close> is the content of the buffer before the call, kept when \<open>str\<close> is empty.\<close>

definition ExtractInnerCf3VarString :: "string option \<Rightarrow> string \<Rightarrow> (extracted \<times> string) option" where
  "ExtractInnerCf3VarString str buf =
     (case str of
        None \<Rightarrow> Some (ExNull, buf)
      | Some s \<Rightarrow>
          if s = [] then Some (ExNull, buf)
          else if \<not> opens (tl s) then Some (ExNull, [])
          else inner_loop s 2 (drop 2 s) 1)"

fun outer_loop :: "string \<Rightarrow> nat \<Rightarrow> string \<Rightarrow> bool \<Rightarrow> int \<Rightarrow> bool \<Rightarrow> (extracted \<times> string) option" where
  "outer_loop str i [] dollar bracks onebrack =
     (if \<not> dollar then Some (ExStr, [])
      else if bracks \<noteq> 0 then Some (ExNull, [])
      else Some (ExStr, []))"
| "outer_loop str i (c # cs) dollar bracks onebrack =
     (if c = CHR ''$'' \<and> \<not> opens cs then Some (ExNull, [])
      else
        (let d = (dollar \<or> c = CHR ''$'');
             b = (if opener c then bracks + 1 else if closer c then bracks - 1 else bracks);
             o1 = (onebrack \<or> opener c)
         in if d \<and> b = 0 \<and> o1 then
              (if CF_BUFSIZE \<le> i + 1 then None else Some (ExSubstr, take (i + 1) str))
            else outer_loop str (Suc i) cs d b o1))"

definition ExtractOuterCf3VarString :: "string \<Rightarrow> (extracted \<times> string) option" where
  "ExtractOuterCf3VarString str = outer_loop str 0 str False 0 False"

section \<open>Naked references\<close>

fun naked_loop :: "string \<Rightarrow> int \<Rightarrow> int option" where
  "naked_loop [] n = Some n"
| "naked_loop (c # cs) n =
     (if c \<in> set ''({['' then naked_loop cs (n + 1)
      else if c \<in> set '')}]'' then
        (if n - 1 = 0 \<and> cs \<noteq> [] then None else naked_loop cs (n - 1))
      else naked_loop cs n)"

definition IsNakedVar :: "string option \<Rightarrow> char \<Rightarrow> bool" where
  "IsNakedVar str vtype =
     (case str of
        None \<Rightarrow> False
      | Some s \<Rightarrow>
          if s = [] then False
          else if length s < 3 then False
          else if hd s \<noteq> vtype then False
          else if s ! 1 = CHR ''('' \<and> List.last s \<noteq> CHR '')'' then False
          else if s ! 1 = CHR ''{'' \<and> List.last s \<noteq> CHR ''}'' then False
          else if s ! 1 \<noteq> CHR ''('' \<and> s ! 1 \<noteq> CHR ''{'' then False
          else (case naked_loop s 0 of None \<Rightarrow> False | Some n \<Rightarrow> n = 0))"

text \<open>The buffer has \<open>CF_MAXVARSIZE\<close> bytes.\<close>

definition GetNaked :: "string \<Rightarrow> string option" where
  "GetNaked s1 =
     (if length s1 < 4 then Some (take (CF_MAXVARSIZE - 1) s1)
      else if CF_MAXVARSIZE \<le> length s1 - 3 then None
      else Some (take (length s1 - 3) (drop 2 s1)))"

definition IsVarList :: "string \<Rightarrow> bool" where
  "IsVarList var =
     (if var = [] \<or> hd var \<noteq> CHR ''@'' then False else if length var < 4 then False else True)"

section \<open>What the recognizers recognize\<close>

lemma opener_simps [simp]: "opener (CHR ''('')" "opener (CHR ''{'')" "\<not> opener (CHR '')'')" "\<not> opener (CHR ''}'')"
  "\<not> opener (CHR ''$'')" "\<not> opener (CHR ''@'')" "\<not> closer (CHR ''('')" "\<not> closer (CHR ''{'')"
  "closer (CHR '')'')" "closer (CHR ''}'')" "\<not> closer (CHR ''$'')" "\<not> closer (CHR ''@'')"
  by (simp_all add: opener_def closer_def)

lemma opens_simps [simp]: "opens (c # cs) = opener c" "\<not> opens []"
  by (simp_all add: opens_def)

definition closer_of :: "char \<Rightarrow> char" where
  "closer_of b = (if b = CHR ''('' then CHR '')'' else CHR ''}'')"

text \<open>A reference to \<open>v\<close> occurs in a string.\<close>

definition has_ref :: "string \<Rightarrow> string \<Rightarrow> bool" where
  "has_ref v s \<longleftrightarrow>
     (\<exists>pre c b post. s = pre @ c # b # v @ closer_of b # post \<and> sigil c \<and> opener b)"

lemma has_ref_Nil [simp]: "\<not> has_ref v []"
  by (simp add: has_ref_def)

lemma has_ref_Cons:
  "has_ref v (c # s) \<longleftrightarrow> has_ref v s \<or>
     sigil c \<and> (\<exists>b post. s = b # v @ closer_of b # post \<and> opener b)"
proof
  assume "has_ref v (c # s)"
  then obtain pre d b post where "c # s = pre @ d # b # v @ closer_of b # post" "sigil d" "opener b"
    by (auto simp: has_ref_def)
  then show "has_ref v s \<or> sigil c \<and> (\<exists>b post. s = b # v @ closer_of b # post \<and> opener b)"
    by (cases pre) (simp_all, use has_ref_def in blast)
next
  assume r: "has_ref v s \<or> sigil c \<and> (\<exists>b post. s = b # v @ closer_of b # post \<and> opener b)"
  then show "has_ref v (c # s)"
  proof
    assume "has_ref v s"
    then obtain pre d b post where "s = pre @ d # b # v @ closer_of b # post" "sigil d" "opener b"
      by (auto simp: has_ref_def)
    then have "c # s = (c # pre) @ d # b # v @ closer_of b # post \<and> sigil d \<and> opener b" by simp
    then show ?thesis unfolding has_ref_def by blast
  next
    assume "sigil c \<and> (\<exists>b post. s = b # v @ closer_of b # post \<and> opener b)"
    then obtain b post where "s = b # v @ closer_of b # post" "opener b" "sigil c" by blast
    then have "c # s = [] @ c # b # v @ closer_of b # post \<and> sigil c \<and> opener b" by simp
    then show ?thesis unfolding has_ref_def by blast
  qed
qed

lemma has_ref_skip: "has_ref v (dropWhile (\<lambda>c. \<not> sigil c) s) = has_ref v s"
  by (induction s) (auto simp: has_ref_Cons)

lemma closed_by_iff:
  assumes "opener b" "take (length v) u = v"
  shows "closed_by b u (length v) \<longleftrightarrow> (\<exists>post. u = v @ closer_of b # post)"
proof -
  have u: "u = v @ drop (length v) u" using assms(2) append_take_drop_id [of "length v" u] by simp
  show ?thesis
  proof (cases "drop (length v) u")
    case Nil
    with u assms(2) have "u = v" by simp
    then show ?thesis by (auto simp: closed_by_def)
  next
    case (Cons x xs)
    with u have "u = v @ x # xs" by simp
    with assms(1) show ?thesis by (auto simp: closed_by_def closer_of_def opener_def nth_append)
  qed
qed

lemma contains_var_iff: "contains_var v s \<longleftrightarrow> has_ref v s"
proof (induction v s rule: contains_var.induct)
  case (1 v s)
  show ?case
  proof (cases "dropWhile (\<lambda>c. \<not> sigil c) s")
    case Nil
    then have "\<not> has_ref v s" using has_ref_skip [of v s] by (metis has_ref_Nil)
    then show ?thesis by (subst contains_var.simps) (simp only: Nil list.case)
  next
    case (Cons c t)
    then have c: "sigil c" using hd_dropWhile [of "\<lambda>c. \<not> sigil c" s] by auto
    have s: "has_ref v s = has_ref v (c # t)" using has_ref_skip [of v s] Cons by simp
    show ?thesis
    proof (cases t)
      case Nil
      then show ?thesis unfolding s using Cons by (subst contains_var.simps) (simp add: has_ref_Cons)
    next
      case (Cons b u)
      note t = Cons
      note IH = 1 [OF \<open>dropWhile (\<lambda>c. \<not> sigil c) s = c # t\<close> t]
      have eq: "contains_var v s = (if \<not> opener b then contains_var v t
           else if strncmp u v (length v) \<noteq> 0 then contains_var v t
           else if closed_by b u (length v) then True else contains_var v t)"
        by (subst contains_var.simps) (simp add: \<open>dropWhile (\<lambda>c. \<not> sigil c) s = c # t\<close> t)
      have r: "has_ref v (c # t) \<longleftrightarrow> has_ref v t \<or> opener b \<and> (\<exists>post. u = v @ closer_of b # post)"
        using c by (auto simp: has_ref_Cons [of v c] t)
      show ?thesis
      proof (cases "opener b \<and> strncmp u v (length v) = 0")
        case True
        then have tk: "take (length v) u = v" by simp
        with True eq r closed_by_iff [OF conjunct1 [OF True] tk] IH(3) show ?thesis
          unfolding s by auto
      next
        case False
        then have "\<not> (opener b \<and> (\<exists>post. u = v @ closer_of b # post))" by auto
        with False eq r IH(1,2) show ?thesis unfolding s by auto
      qed
    qed
  qed
qed

text \<open>
  \<open>StringContainsVar\<close>, the test that keeps a variable from containing itself, finds a reference
  to the variable exactly when one of the four forms \<open>$(v)\<close>, \<open>${v}\<close> and the same two with \<open>@\<close> occurs in
  the string.
\<close>

theorem string_contains_var:
  "StringContainsVar (Some s) v \<longleftrightarrow>
     (\<exists>pre post. s \<in> {pre @ ''$('' @ v @ '')'' @ post, pre @ ''${'' @ v @ ''}'' @ post,
       pre @ ''@'' @ ''('' @ v @ '')'' @ post, pre @ ''@'' @ ''{'' @ v @ ''}'' @ post})"
  (is "?l = ?r")
proof
  assume ?l
  then obtain pre c b post where "s = pre @ c # b # v @ closer_of b # post" "sigil c" "opener b"
    by (auto simp: StringContainsVar_def contains_var_iff has_ref_def)
  then show ?r
    by (rule_tac exI [of _ pre], rule_tac exI [of _ post]) (auto simp: sigil_def opener_def closer_of_def)
next
  have r: "sigil c \<Longrightarrow> opener b \<Longrightarrow> has_ref v (pre @ c # b # v @ closer_of b # post)" for pre c b post
    unfolding has_ref_def by blast
  have k: "closer_of (CHR ''('') = CHR '')''" "closer_of (CHR ''{'') = CHR ''}''" by (simp_all add: closer_of_def)
  assume ?r
  then show ?l
    using r [where b = "CHR ''(''"] r [where b = "CHR ''{''"]
    by (auto simp: StringContainsVar_def contains_var_iff sigil_def k)
qed

text \<open>
  Two oddities of the recognizer. A reference that is complete leaves its brackets behind, so that
  no later one is checked; and a reference with the other brackets inside is not recognized.
\<close>

lemma broken_reference_after_another:
  "\<not> IsCf3VarString (Some ''$(b'') \<and> IsCf3VarString (Some ''$(a)$(b'') \<and>
   \<not> IsCf3VarString (Some ''$(a${b})'')"
  by code_simp

end
