(* ===== verification/Scope.thy ===== *)
theory Scope
  imports Assoc Vars Conversion_Types
begin

text \<open>
  Scopes, \<open>libpromises/scope.c\<close>: the tables of variables of bundles, bodies and promises, and the
  stack of the scopes called \<open>this\<close>. Scopes live at addresses, because the stack and the global
  \<open>SCOPE_MATCH\<close> point to them; \<open>VSCOPE\<close> is the list of addresses in the order of its links.
  \<open>None\<close> is a failed assertion, a programming error or a use of \<open>NULL\<close> or of memory that is gone.
  The lock is always taken.

  \<open>ScopePushThis\<close> frees the name space of a scope that stays in the list, and later searches read
  it: \<open>stale\<close> is what the freed memory then holds, any string.
\<close>

type_synonym VariableTable = "(Rval, DataType) AssocHashTable"

record Scope =
  sc_ns :: string
  sc_scope :: string
  sc_table :: VariableTable

record Scopes =
  VSCOPE :: "nat list"
  scope_at :: "nat \<Rightarrow> Scope option"
  SCOPE_MATCH :: "nat option"
  CF_STCK :: "nat list"
  scope_brk :: nat
  stale :: string

definition ns_or_default :: "string option \<Rightarrow> string" where
  "ns_or_default ns = (case ns of None \<Rightarrow> ''default'' | Some n \<Rightarrow> n)"

section \<open>Replacing a value in place\<close>

text \<open>The code keeps the pointer that \<open>HashLookupElement\<close> returned and assigns to the entry.\<close>

fun huge_position :: "('r, 'd) buckets \<Rightarrow> string \<Rightarrow> nat list \<Rightarrow> nat option" where
  "huge_position bs element [] = None"
| "huge_position bs element (i # is) =
     (case bs i of
        Null \<Rightarrow> None
      | Deleted \<Rightarrow> huge_position bs element is
      | Entry a \<Rightarrow> if element = lval a then Some i else huge_position bs element is)"

definition assign_entry ::
  "('r, 'd) AssocHashTable \<Rightarrow> string \<Rightarrow> 'r \<Rightarrow> 'd \<Rightarrow> ('r, 'd) AssocHashTable"
where
  "assign_entry t element rv dt =
     (case t of
        Tiny vals \<Rightarrow>
          (case find_index (\<lambda>a. lval a = element) vals of
             None \<Rightarrow> Tiny vals
           | Some i \<Rightarrow> Tiny (vals[i := NewAssoc element rv dt]))
      | Huge bs \<Rightarrow>
          (case huge_position bs element (probes (bucket_of element)) of
             None \<Rightarrow> Huge bs
           | Some i \<Rightarrow> Huge (bs(i := Entry (NewAssoc element rv dt)))))"

section \<open>The list of scopes\<close>

fun find_scope :: "(nat \<Rightarrow> Scope option) \<Rightarrow> nat list \<Rightarrow> string \<Rightarrow> string \<Rightarrow> nat option option" where
  "find_scope m [] ns scope = Some None"
| "find_scope m (a # as) ns scope =
     do {
       s \<leftarrow> m a;
       (if strcmp (sc_ns s) ns = 0 \<and> strcmp (sc_scope s) scope = 0 then Some (Some a)
        else find_scope m as ns scope)
     }"

definition put_scope :: "Scopes \<Rightarrow> nat \<Rightarrow> Scope \<Rightarrow> Scopes" where
  "put_scope st a s = st\<lparr>scope_at := (scope_at st)(a := Some s)\<rparr>"

definition ScopeNew :: "string option \<Rightarrow> string \<Rightarrow> Scopes \<Rightarrow> (nat option \<times> Scopes) option" where
  "ScopeNew ns scope st =
     (let n = ns_or_default ns in
      do {
        p \<leftarrow> find_scope (scope_at st) (VSCOPE st) n scope;
        (case p of
           Some _ \<Rightarrow> Some (None, st)
         | None \<Rightarrow>
             (let a = scope_brk st in
              Some (Some a, st\<lparr>VSCOPE := a # VSCOPE st,
                scope_at := (scope_at st)(a \<mapsto> \<lparr>sc_ns = n, sc_scope = scope, sc_table = HashInit\<rparr>),
                scope_brk := Suc a\<rparr>)))
      })"

definition ScopeGet :: "string option \<Rightarrow> string option \<Rightarrow> Scopes \<Rightarrow> nat option option" where
  "ScopeGet ns scope st =
     (case scope of
        None \<Rightarrow> Some None
      | Some sc \<Rightarrow>
          if strcmp ''match'' sc = 0 then Some (SCOPE_MATCH st)
          else find_scope (scope_at st) (VSCOPE st) (ns_or_default ns) sc)"

definition ScopeExists :: "string option \<Rightarrow> string option \<Rightarrow> Scopes \<Rightarrow> bool option" where
  "ScopeExists ns nm st = map_option (\<lambda>p. p \<noteq> None) (ScopeGet ns nm st)"

definition ScopeIsReserved :: "string \<Rightarrow> bool" where
  "ScopeIsReserved scope \<longleftrightarrow>
     strcmp ''const'' scope = 0 \<or> strcmp ''edit'' scope = 0 \<or> strcmp ''match'' scope = 0 \<or>
     strcmp ''mon'' scope = 0 \<or> strcmp ''sys'' scope = 0 \<or> strcmp ''this'' scope = 0"

definition ScopeDelete :: "nat \<Rightarrow> Scopes \<Rightarrow> Scopes" where
  "ScopeDelete scope st =
     (case find_index (\<lambda>a. a = scope) (VSCOPE st) of
        None \<Rightarrow> st
      | Some i \<Rightarrow> st\<lparr>VSCOPE := remove_at i (VSCOPE st), scope_at := (scope_at st)(scope := None)\<rparr>)"

definition ScopeDeleteAll :: "Scopes \<Rightarrow> Scopes" where
  "ScopeDeleteAll st =
     st\<lparr>VSCOPE := [], scope_at := (\<lambda>a. if a \<in> set (VSCOPE st) then None else scope_at st a)\<rparr>"

text \<open>Emptying the table of a scope, and applying a function to it.\<close>

definition clear_table :: "nat \<Rightarrow> Scopes \<Rightarrow> Scopes option" where
  "clear_table a st = do { s \<leftarrow> scope_at st a; Some (put_scope st a (s\<lparr>sc_table := HashInit\<rparr>)) }"

definition ScopeClear :: "string option \<Rightarrow> string \<Rightarrow> Scopes \<Rightarrow> Scopes option" where
  "ScopeClear ns nm st =
     (if ScopeIsReserved nm then None
      else do {
        p \<leftarrow> ScopeGet (Some (ns_or_default ns)) (Some nm) st;
        (case p of None \<Rightarrow> Some st | Some a \<Rightarrow> clear_table a st)
      })"

datatype SpecialScope = SPECIAL_SCOPE_CONST | SPECIAL_SCOPE_EDIT | SPECIAL_SCOPE_MATCH
  | SPECIAL_SCOPE_MON | SPECIAL_SCOPE_SYS | SPECIAL_SCOPE_THIS

fun SpecialScopeToString :: "SpecialScope \<Rightarrow> string" where
  "SpecialScopeToString SPECIAL_SCOPE_CONST = ''const''"
| "SpecialScopeToString SPECIAL_SCOPE_EDIT = ''edit''"
| "SpecialScopeToString SPECIAL_SCOPE_MATCH = ''match''"
| "SpecialScopeToString SPECIAL_SCOPE_MON = ''mon''"
| "SpecialScopeToString SPECIAL_SCOPE_SYS = ''sys''"
| "SpecialScopeToString SPECIAL_SCOPE_THIS = ''this''"

definition ScopeClearSpecial :: "SpecialScope \<Rightarrow> Scopes \<Rightarrow> Scopes option" where
  "ScopeClearSpecial scope st =
     do {
       p \<leftarrow> ScopeGet None (Some (SpecialScopeToString scope)) st;
       (case p of None \<Rightarrow> Some st | Some a \<Rightarrow> clear_table a st)
     }"

definition ScopeCopy :: "string option \<Rightarrow> string \<Rightarrow> Scope option \<Rightarrow> Scopes \<Rightarrow> Scopes option" where
  "ScopeCopy new_ns new_scopename old_scope st =
     do {
       (_, st1) \<leftarrow> ScopeNew new_ns new_scopename st;
       (case old_scope of
          None \<Rightarrow> Some st1
        | Some old \<Rightarrow> do {
            p \<leftarrow> ScopeGet new_ns (Some new_scopename) st1;
            a \<leftarrow> p;
            np \<leftarrow> scope_at st1 a;
            Some (put_scope st1 a (np\<lparr>sc_table := HashCopy (sc_table np) (sc_table old)\<rparr>))
          })
     }"

section \<open>The stack of the scopes called this\<close>

definition pushed_name :: "Scopes \<Rightarrow> string" where
  "pushed_name st = take (CF_MAXVARSIZE - 1) (''this_'' @ show_nat (length (CF_STCK st) + 1))"

definition ScopePushThis :: "Scopes \<Rightarrow> Scopes option" where
  "ScopePushThis st =
     do {
       p \<leftarrow> ScopeGet None (Some ''this'') st;
       (case p of
          None \<Rightarrow> Some st
        | Some op \<Rightarrow> do {
            s \<leftarrow> scope_at st op;
            (let st1 = put_scope st op (s\<lparr>sc_ns := stale st, sc_scope := pushed_name st\<rparr>)
             in do {
               (_, st2) \<leftarrow> ScopeNew None ''this'' (st1\<lparr>CF_STCK := op # CF_STCK st\<rparr>);
               Some st2
             })
          })
     }"

definition ScopePopThis :: "Scopes \<Rightarrow> Scopes option" where
  "ScopePopThis st =
     (case CF_STCK st of
        [] \<Rightarrow> None
      | new_this # rest \<Rightarrow> do {
          p \<leftarrow> ScopeGet None (Some ''this'') st;
          (let st1 = (case p of None \<Rightarrow> st | Some a \<Rightarrow> ScopeDelete a st)\<lparr>CF_STCK := rest\<rparr>
           in do {
             s \<leftarrow> scope_at st1 new_this;
             Some (put_scope st1 new_this (s\<lparr>sc_ns := ''default'', sc_scope := ''this''\<rparr>))
           })
        })"

section \<open>Variables of a scope\<close>

definition delete_in :: "nat \<Rightarrow> string \<Rightarrow> Scopes \<Rightarrow> Scopes option" where
  "delete_in a lv st =
     do { s \<leftarrow> scope_at st a; Some (put_scope st a (s\<lparr>sc_table := snd (HashDeleteElement (sc_table s) lv)\<rparr>)) }"

definition ScopeDeleteScalar :: "string option \<Rightarrow> string \<Rightarrow> string \<Rightarrow> Scopes \<Rightarrow> Scopes option" where
  "ScopeDeleteScalar ns scope lv st =
     (if ScopeIsReserved scope then None
      else do {
        p \<leftarrow> ScopeGet ns (Some scope) st;
        (case p of None \<Rightarrow> Some st | Some a \<Rightarrow> delete_in a lv st)
      })"

definition ScopeDeleteSpecial :: "SpecialScope \<Rightarrow> string \<Rightarrow> Scopes \<Rightarrow> Scopes option" where
  "ScopeDeleteSpecial scope lv st =
     do {
       p \<leftarrow> ScopeGet None (Some (SpecialScopeToString scope)) st;
       (case p of None \<Rightarrow> Some st | Some a \<Rightarrow> delete_in a lv st)
     }"

definition ScopeDeleteVariable :: "string option \<Rightarrow> string option \<Rightarrow> string \<Rightarrow> Scopes \<Rightarrow> Scopes option" where
  "ScopeDeleteVariable ns scope i st =
     do {
       p \<leftarrow> ScopeGet ns scope st;
       (case p of None \<Rightarrow> Some st | Some a \<Rightarrow> delete_in a i st)
     }"

text \<open>
  \<open>CompareVariableValue\<close>. An empty list is the \<open>NULL\<close> pointer. A list or a function call taken
  for a string is \<open>None\<close>.
\<close>

definition null_item :: "Rval \<Rightarrow> bool" where
  "null_item r \<longleftrightarrow> r = NoPromisee \<or> r = ListVal []"

fun CompareVariableValue :: "Rval \<Rightarrow> Rval \<Rightarrow> int option" and compare_elements :: "Rval list \<Rightarrow> Rval \<Rightarrow> int option"
where
  "CompareVariableValue (Scalar s) b =
     (if null_item b then Some 1
      else case b of Scalar t \<Rightarrow> Some (strcmp t s) | _ \<Rightarrow> None)"
| "CompareVariableValue (ListVal l) b =
     (if l = [] \<or> null_item b then Some 1 else compare_elements l b)"
| "CompareVariableValue (FnCall f args) b = (if null_item b then Some 1 else Some 0)"
| "CompareVariableValue NoPromisee b = Some 1"
| "compare_elements [] b = Some 0"
| "compare_elements (r # rs) b =
     do { c \<leftarrow> CompareVariableValue r b; (if c = 0 then Some (- 1) else compare_elements rs b) }"

text \<open>
  \<open>UnresolvedVariables\<close> is called on the old value with the type of the new one: \<open>None\<close> is a value that is
  not of that type.
\<close>

fun unresolved_list :: "Rval list \<Rightarrow> bool option" where
  "unresolved_list [] = Some False"
| "unresolved_list (r # rs) =
     (case r of
        Scalar s \<Rightarrow> if IsCf3VarString (Some s) then Some True else unresolved_list rs
      | _ \<Rightarrow> None)"

definition UnresolvedVariables :: "Rval \<Rightarrow> RvalType \<Rightarrow> bool option" where
  "UnresolvedVariables r rtype =
     (case rtype of
        RVAL_TYPE_SCALAR \<Rightarrow>
          if null_item r then Some (IsCf3VarString None)
          else (case r of Scalar s \<Rightarrow> Some (IsCf3VarString (Some s)) | _ \<Rightarrow> None)
      | RVAL_TYPE_LIST \<Rightarrow>
          if null_item r then Some False
          else (case r of ListVal l \<Rightarrow> unresolved_list l | _ \<Rightarrow> None)
      | _ \<Rightarrow> Some False)"

text \<open>Storing a value under a name, as \<open>ScopePutMatch\<close> and \<open>EvalContextVariablePut\<close> do.\<close>

definition store_value :: "VariableTable \<Rightarrow> string \<Rightarrow> Rval \<Rightarrow> DataType \<Rightarrow> VariableTable option" where
  "store_value t lv rv dt =
     (case HashLookupElement t lv of
        Some assoc \<Rightarrow> do {
          c \<leftarrow> CompareVariableValue rv (rval assoc);
          (if c = 0 then Some t
           else do {
             _ \<leftarrow> UnresolvedVariables (rval assoc) (rval_type rv);
             Some (assign_entry t lv (RvalCopy rv) dt)
           })
        }
      | None \<Rightarrow>
          (case HashInsertElement t lv (RvalCopy rv) dt of
             (True, t') \<Rightarrow> Some t'
           | (False, _) \<Rightarrow> None))"

definition ScopePutMatch :: "int \<Rightarrow> string \<Rightarrow> Scopes \<Rightarrow> Scopes option" where
  "ScopePutMatch index v st =
     do {
       st1 \<leftarrow> (case SCOPE_MATCH st of
                 Some _ \<Rightarrow> Some st
               | None \<Rightarrow> do { (p, st') \<leftarrow> ScopeNew None ''match'' st; Some (st'\<lparr>SCOPE_MATCH := p\<rparr>) });
       a \<leftarrow> SCOPE_MATCH st1;
       s \<leftarrow> scope_at st1 a;
       t \<leftarrow> store_value (sc_table s) (take 2 (show_int index)) (Scalar v) DATA_TYPE_STRING;
       Some (put_scope st1 a (s\<lparr>sc_table := t\<rparr>))
     }"

section \<open>Tables\<close>

lemma huge_position_lookup:
  "huge_lookup_loop bs k is = Some a \<longleftrightarrow> (\<exists>i. huge_position bs k is = Some i \<and> bs i = Entry a)"
  by (induction "is") (auto split: slot.split)

lemma huge_position_entry:
  "huge_position bs k is = Some i \<Longrightarrow> i \<in> set is \<and> (\<exists>a. bs i = Entry a \<and> lval a = k)"
  by (induction "is") (auto split: slot.splits if_splits)

lemma huge_position_None: "huge_position bs k is = None \<longleftrightarrow> huge_lookup_loop bs k is = None"
  by (induction "is") (auto split: slot.split)

text \<open>Replacing an entry by one of the same name moves nothing.\<close>

lemma lookup_loop_replace:
  assumes "bs i = Entry a" "lval b = lval a"
  shows "huge_lookup_loop (bs(i := Entry b)) k is =
    (if huge_position bs k is = Some i then Some b else huge_lookup_loop bs k is)"
  using assms by (induction "is") (auto split: slot.split)

lemma reached_replace:
  assumes "bs i = Entry a" "lval b = lval a" "reached bs k j"
  shows "reached (bs(i := Entry b)) k j"
  using assms unfolding reached_def by (metis fun_upd_apply slot.inject)

lemma probe_inv_replace:
  assumes "probe_inv bs" "bs i = Entry a" "lval b = lval a"
  shows "probe_inv (bs(i := Entry b))"
  using assms reached_replace [where bs = bs and i = i and a = a and b = b, OF assms(2,3)]
  unfolding probe_inv_def by (metis fun_upd_apply slot.distinct(5) slot.inject)

lemma occupied_replace: "bs i = Entry a \<Longrightarrow> occupied (bs(i := Entry b)) = occupied bs"
  unfolding occupied_def by (rule arg_cong [where f = card]) auto

lemma assign_entry_laws:
  assumes "table_room n t" "HashLookupElement t k \<noteq> None"
  shows "table_room n (assign_entry t k rv dt) \<and>
    HashLookupElement (assign_entry t k rv dt) k' =
      (if k' = k then Some (NewAssoc k rv dt) else HashLookupElement t k')"
proof (cases t)
  case (Tiny vals)
  with assms(2) obtain i where i: "find_index (\<lambda>a. lval a = k) vals = Some i"
    by (auto simp: HashLookupElement_def TinyHashLookupElement_def)
  from find_index_split [OF i] obtain us a vs where v: "vals = us @ a # vs" "i = length us"
    "lval a = k" "\<forall>u \<in> set us. lval u \<noteq> k" by metis
  let ?b = "NewAssoc k rv dt"
  have find: "HashLookupElement (Tiny xs) k'' = List.find (\<lambda>a. lval a = k'') xs"
    for k'' and xs :: "('a, 'b) CfAssoc list"
    by (simp add: HashLookupElement_def TinyHashLookupElement_def map_find_index)
  have "List.find (\<lambda>a. lval a = k) us = None" using v(4) by (auto simp: find_None_iff)
  then have "HashLookupElement (Tiny (us @ ?b # vs)) k' =
      (if k' = k then Some ?b else HashLookupElement (Tiny (us @ a # vs)) k')"
    using v(3) unfolding find by (simp add: find_append split: option.split)
  moreover have "table_room n (Tiny (us @ ?b # vs))"
    using assms(1) v by (simp add: Tiny table_room_def)
  moreover have "assign_entry t k rv dt = Tiny (us @ ?b # vs)"
    using i by (simp add: Tiny assign_entry_def v(1,2))
  ultimately show ?thesis by (simp add: Tiny v(1))
next
  case (Huge bs)
  let ?ps = "probes (bucket_of k)"
  from assms(2) obtain i a where i: "huge_position bs k ?ps = Some i" "bs i = Entry a"
    using huge_position_lookup [of bs k ?ps] by (auto simp: Huge HashLookupElement_def HugeHashLookupElement_def)
  with huge_position_entry [OF i(1)] have a: "lval a = k" by simp
  have inv: "probe_inv bs" using assms(1) by (simp add: Huge table_room_def)
  let ?b = "NewAssoc k rv dt"
  have b: "lval ?b = lval a" by (simp add: a)
  have "huge_position bs k' (probes (bucket_of k')) = Some i \<longleftrightarrow> k' = k"
    using i a huge_position_entry [of bs k' "probes (bucket_of k')" i] by auto
  then have "HashLookupElement (Huge (bs(i := Entry ?b))) k' =
      (if k' = k then Some ?b else HashLookupElement (Huge bs) k')"
    using lookup_loop_replace [where bs = bs and i = i and a = a and b = ?b, OF i(2) b] by (simp add: HashLookupElement_def HugeHashLookupElement_def)
  moreover have "table_room n (Huge (bs(i := Entry ?b)))"
    using assms(1) probe_inv_replace [where bs = bs and i = i and a = a and b = ?b, OF inv i(2) b]
      occupied_replace [where bs = bs and i = i and a = a and b = ?b, OF i(2)]
    by (simp add: Huge table_room_def)
  ultimately show ?thesis by (simp add: Huge assign_entry_def i(1))
qed

text \<open>Every variable of a table holds a string.\<close>

definition all_scalars :: "VariableTable \<Rightarrow> bool" where
  "all_scalars t \<longleftrightarrow> (\<forall>k a. HashLookupElement t k = Some a \<longrightarrow> (\<exists>s. rval a = Scalar s))"

lemma store_scalar:
  assumes "table_room (Suc n) t" "all_scalars t"
  shows "\<exists>t'. store_value t k (Scalar v) dt = Some t' \<and> table_room n t' \<and> all_scalars t' \<and>
    map_option rval (HashLookupElement t' k) = Some (Scalar v) \<and>
    (\<forall>k'. k' \<noteq> k \<longrightarrow> HashLookupElement t' k' = HashLookupElement t k')"
proof (cases "HashLookupElement t k")
  case None
  note ins = HashInsertElement_laws [OF assms(1), of k "Scalar v" dt]
  then have "HashInsertElement t k (Scalar v) dt = (True, snd (HashInsertElement t k (Scalar v) dt))"
    using None by (metis prod.collapse)
  then have "store_value t k (Scalar v) dt = Some (snd (HashInsertElement t k (Scalar v) dt))"
    using None by (cases "HashInsertElement t k (Scalar v) dt") (simp add: store_value_def RvalCopyScalar_def)
  with ins None assms(2) show ?thesis by (auto simp: all_scalars_def NewAssoc_def)
next
  case (Some a)
  with assms(2) obtain s where s: "rval a = Scalar s" by (auto simp: all_scalars_def)
  have room: "table_room n t" using assms(1) by (auto simp: table_room_def split: AssocHashTable.splits)
  note laws = assign_entry_laws [OF room, of k "Scalar v" dt]
  show ?thesis
  proof (cases "s = v")
    case True
    with Some s room assms(2) show ?thesis
      by (simp add: store_value_def null_item_def)
  next
    case False
    have "store_value t k (Scalar v) dt = Some (assign_entry t k (Scalar v) dt)"
      using False Some s by (simp add: store_value_def null_item_def RvalCopyScalar_def UnresolvedVariables_def)
    with laws Some assms(2) show ?thesis by (auto simp: all_scalars_def NewAssoc_def)
  qed
qed

section \<open>Searching the scopes\<close>

definition wf_scopes :: "Scopes \<Rightarrow> bool" where
  "wf_scopes st \<longleftrightarrow> distinct (VSCOPE st) \<and> (\<forall>a \<in> set (VSCOPE st). scope_at st a \<noteq> None) \<and>
     (\<forall>a. scope_at st a \<noteq> None \<longrightarrow> a < scope_brk st)"

definition is_scope :: "Scopes \<Rightarrow> string \<Rightarrow> string \<Rightarrow> nat \<Rightarrow> bool" where
  "is_scope st ns nm a \<longleftrightarrow> (\<exists>s. scope_at st a = Some s \<and> sc_ns s = ns \<and> sc_scope s = nm)"

lemma find_scope_eq:
  "\<forall>a \<in> set as. scope_at st a \<noteq> None \<Longrightarrow>
   find_scope (scope_at st) as ns nm = Some (List.find (is_scope st ns nm) as)"
  by (induction as) (auto simp: is_scope_def)

lemma ScopeGet_eq:
  "wf_scopes st \<Longrightarrow> nm \<noteq> ''match'' \<Longrightarrow>
   ScopeGet ns (Some nm) st = Some (List.find (is_scope st (ns_or_default ns) nm) (VSCOPE st))"
  by (auto simp: ScopeGet_def find_scope_eq wf_scopes_def)

text \<open>The only scope of a name space with a given name.\<close>

definition only_scope :: "Scopes \<Rightarrow> string \<Rightarrow> string \<Rightarrow> nat \<Rightarrow> bool" where
  "only_scope st ns nm a \<longleftrightarrow> a \<in> set (VSCOPE st) \<and> is_scope st ns nm a \<and>
     (\<forall>b \<in> set (VSCOPE st). is_scope st ns nm b \<longrightarrow> b = a)"

lemma find_only: "only_scope st ns nm a \<Longrightarrow> List.find (is_scope st ns nm) (VSCOPE st) = Some a"
proof -
  assume o: "only_scope st ns nm a"
  then have "\<exists>x \<in> set (VSCOPE st). is_scope st ns nm x" by (auto simp: only_scope_def)
  then obtain b where b: "List.find (is_scope st ns nm) (VSCOPE st) = Some b"
    by (metis find_None_iff option.exhaust)
  then have "b \<in> set (VSCOPE st)" "is_scope st ns nm b" by (metis find_Some_iff nth_mem)+
  with o have "b = a" by (simp add: only_scope_def)
  with b show ?thesis by simp
qed

lemma is_scope_put:
  "is_scope (put_scope st a s) ns nm b \<longleftrightarrow>
     (if b = a then sc_ns s = ns \<and> sc_scope s = nm else is_scope st ns nm b)"
  by (simp add: is_scope_def put_scope_def)

lemma pushed_name_neq: "pushed_name st \<noteq> ''this''"
  by (simp add: pushed_name_def CF_MAXVARSIZE_def)

text \<open>The state after a push.\<close>

definition pushed :: "Scopes \<Rightarrow> nat \<Rightarrow> Scope \<Rightarrow> Scopes" where
  "pushed st a s =
     (let b = scope_brk st in
      st\<lparr>VSCOPE := b # VSCOPE st,
         scope_at := (scope_at st)(a \<mapsto> s\<lparr>sc_ns := stale st, sc_scope := pushed_name st\<rparr>,
           b \<mapsto> \<lparr>sc_ns = ''default'', sc_scope = ''this'', sc_table = HashInit\<rparr>),
         CF_STCK := a # CF_STCK st, scope_brk := Suc b\<rparr>)"

lemma ScopePushThis_pushed:
  assumes "wf_scopes st" "only_scope st ''default'' ''this'' a" "scope_at st a = Some s"
  shows "ScopePushThis st = Some (pushed st a s)"
proof -
  have get: "ScopeGet None (Some ''this'') st = Some (Some a)"
    using ScopeGet_eq [OF assms(1), of "''this''" None] find_only [OF assms(2)]
    by (simp add: ns_or_default_def)
  define st1 where "st1 = (put_scope st a (s\<lparr>sc_ns := stale st, sc_scope := pushed_name st\<rparr>))
    \<lparr>CF_STCK := a # CF_STCK st\<rparr>"
  have "\<not> is_scope st1 ''default'' ''this'' b" if "b \<in> set (VSCOPE st1)" for b
    using that assms(2) pushed_name_neq
    by (auto simp: st1_def is_scope_def put_scope_def only_scope_def)
  then have none: "List.find (is_scope st1 ''default'' ''this'') (VSCOPE st1) = None"
    by (auto simp: find_None_iff)
  have "\<forall>b \<in> set (VSCOPE st1). scope_at st1 b \<noteq> None"
    using assms(1) by (auto simp: st1_def put_scope_def wf_scopes_def)
  then have "ScopeNew None ''this'' st1 =
      Some (Some (scope_brk st), pushed st a s)"
    unfolding ScopeNew_def
    by (simp add: ns_or_default_def find_scope_eq none Let_def)
      (simp add: st1_def pushed_def put_scope_def Let_def)
  then show ?thesis
    by (simp add: ScopePushThis_def get assms(3) st1_def Let_def)
qed

lemma fresh_brk: "wf_scopes st \<Longrightarrow> scope_at st (scope_brk st) = None \<and> scope_brk st \<notin> set (VSCOPE st)"
  unfolding wf_scopes_def by (metis less_irrefl)

lemma wf_pushed:
  assumes "wf_scopes st" "a \<in> set (VSCOPE st)"
  shows "wf_scopes (pushed st a s)"
proof -
  have w: "distinct (VSCOPE st)" "\<forall>b \<in> set (VSCOPE st). scope_at st b \<noteq> None"
    "\<And>b. scope_at st b \<noteq> None \<Longrightarrow> b < scope_brk st"
    using assms(1) by (auto simp: wf_scopes_def)
  from w(2) assms(2) w(3) have "a < scope_brk st" by blast
  have "b < Suc (scope_brk st)" if "scope_at (pushed st a s) b \<noteq> None" for b
  proof (cases "b = a \<or> b = scope_brk st")
    case True
    with \<open>a < scope_brk st\<close> show ?thesis by auto
  next
    case False
    with that have "scope_at st b \<noteq> None" by (simp add: pushed_def Let_def)
    from w(3) [OF this] show ?thesis by simp
  qed
  with w(1,2) fresh_brk [OF assms(1)] show ?thesis
    by (auto simp: wf_scopes_def pushed_def Let_def)
qed

text \<open>
  A promise pushes the scope \<open>this\<close> of its caller away and works on an empty one; popping it
  brings back the scope of the caller with its variables, and changes nothing else. This holds
  whatever the memory of the freed name space holds in between.
\<close>

theorem scope_push_pop_this:
  assumes "wf_scopes st" "only_scope st ''default'' ''this'' a"
  shows "\<exists>st1 b. ScopePushThis st = Some st1 \<and>
    ScopeGet None (Some ''this'') st1 = Some (Some b) \<and> b \<noteq> a \<and>
    map_option sc_table (scope_at st1 b) = Some HashInit \<and>
    ScopePopThis st1 = Some (st\<lparr>scope_brk := Suc (scope_brk st)\<rparr>)"
proof -
  from assms(2) obtain s where s: "scope_at st a = Some s" "sc_ns s = ''default''" "sc_scope s = ''this''"
    and a: "a \<in> set (VSCOPE st)"
    unfolding only_scope_def is_scope_def by blast
  define b where "b = scope_brk st"
  define s1 where "s1 = s\<lparr>sc_ns := stale st, sc_scope := pushed_name st\<rparr>"
  define st1 where "st1 = pushed st a s"
  have fresh: "scope_at st b = None" "b \<notin> set (VSCOPE st)"
    using fresh_brk [OF assms(1)] by (simp_all add: b_def)
  have ab: "b \<noteq> a" using fresh(1) s(1) by force
  have st1: "VSCOPE st1 = b # VSCOPE st" "CF_STCK st1 = a # CF_STCK st"
    "scope_at st1 = (scope_at st)(a \<mapsto> s1,
       b \<mapsto> \<lparr>sc_ns = ''default'', sc_scope = ''this'', sc_table = HashInit\<rparr>)"
    by (simp_all add: st1_def pushed_def b_def s1_def Let_def)
  have "is_scope st1 ''default'' ''this'' b" by (simp add: is_scope_def st1)
  then have "List.find (is_scope st1 ''default'' ''this'') (VSCOPE st1) = Some b" by (simp add: st1)
  moreover have "wf_scopes st1" unfolding st1_def by (rule wf_pushed [OF assms(1) a])
  ultimately have get: "ScopeGet None (Some ''this'') st1 = Some (Some b)"
    using ScopeGet_eq [of st1 "''this''" None] by (simp add: ns_or_default_def)
  have table: "map_option sc_table (scope_at st1 b) = Some HashInit" by (simp add: st1)
  have mem: "(scope_at st1)(b := None) = (scope_at st)(a \<mapsto> s1)"
    using fresh ab by (auto simp: st1 fun_eq_iff)
  have del: "ScopeDelete b st1 = st1\<lparr>VSCOPE := VSCOPE st, scope_at := (scope_at st)(a \<mapsto> s1)\<rparr>"
    unfolding ScopeDelete_def mem by (simp add: st1)
  have s': "s1\<lparr>sc_ns := ''default'', sc_scope := ''this''\<rparr> = s" using s by (simp add: s1_def)
  have m: "(scope_at st)(a \<mapsto> s) = scope_at st" using s(1) by auto
  have "ScopePopThis st1 = Some (st1\<lparr>VSCOPE := VSCOPE st, scope_at := scope_at st, CF_STCK := CF_STCK st\<rparr>)"
    unfolding ScopePopThis_def st1(2) get by (simp add: del put_scope_def s' m Let_def)
  also have "st1\<lparr>VSCOPE := VSCOPE st, scope_at := scope_at st, CF_STCK := CF_STCK st\<rparr> =
      st\<lparr>scope_brk := Suc (scope_brk st)\<rparr>"
    by (simp add: st1_def pushed_def Let_def)
  finally show ?thesis
    using ScopePushThis_pushed [OF assms s(1), folded st1_def] get ab table by blast
qed

theorem scope_push_pop_this_witness:
  "\<exists>st1 b.
     (let st = \<lparr>VSCOPE = [0], scope_at = [0 \<mapsto> \<lparr>sc_ns = ''default'', sc_scope = ''this'', sc_table = HashInit\<rparr>],
        SCOPE_MATCH = None, CF_STCK = [], scope_brk = 1, stale = ''xyz''\<rparr> in
      ScopePushThis st = Some st1 \<and> ScopeGet None (Some ''this'') st1 = Some (Some b) \<and> b \<noteq> 0 \<and>
      ScopePopThis st1 = Some (st\<lparr>scope_brk := 2\<rparr>))"
proof -
  define st where "st = \<lparr>VSCOPE = [0 :: nat],
    scope_at = [0 :: nat \<mapsto> \<lparr>sc_ns = ''default'', sc_scope = ''this'', sc_table = HashInit\<rparr>],
    SCOPE_MATCH = None, CF_STCK = [], scope_brk = 1, stale = ''xyz''\<rparr>"
  have w: "wf_scopes st" "only_scope st ''default'' ''this'' 0"
    by (auto simp: st_def wf_scopes_def only_scope_def is_scope_def split: if_splits)
  from scope_push_pop_this [OF w] show ?thesis
    unfolding st_def [symmetric] Let_def by (auto simp: st_def numeral_2_eq_2)
qed

end
