(* ===== verification/Matching.thy ===== *)
theory Matching
  imports Scope Conversion
begin

text \<open>
  Matching against regular expressions, \<open>libpromises/matching.c\<close>. PCRE is a parameter:
  \<open>pcre_compile\<close> gives a compiled expression or fails, and a compiled expression applied to a text
  (\<open>pcre_exec\<close>) fails or returns its code and the vector of the offsets of the groups, group 0
  first; the offsets of a group that took no part in the match are -1. A successful match in the
  agent leaves its groups in the scope \<open>match\<close>. A read or write outside of a buffer is \<open>None\<close>.
\<close>

type_synonym pcre = "string \<Rightarrow> (nat \<times> (int \<times> int) list) option"

text \<open>What the code relies on: the offsets of the groups it reads lie in order inside the text.\<close>

definition pcre_ok :: "(string \<Rightarrow> pcre option) \<Rightarrow> bool" where
  "pcre_ok pcre_compile \<longleftrightarrow>
     (\<forall>r rx t rc ov. pcre_compile r = Some rx \<longrightarrow> rx t = Some (rc, ov) \<longrightarrow>
        ov \<noteq> [] \<and> rc \<le> length ov \<and> rc < 100 \<and>
        (\<forall>(a, b) \<in> set ov. (a, b) = (- 1, - 1) \<or> 0 \<le> a \<and> a \<le> b \<and> b \<le> int (length t)))"

section \<open>Matches\<close>

definition CompileRegExp :: "(string \<Rightarrow> pcre option) \<Rightarrow> string \<Rightarrow> pcre option" where
  "CompileRegExp pcre_compile regexp = pcre_compile regexp"

text \<open>The group \<open>i\<close> of a match; a length below zero cannot be copied.\<close>

definition group_text :: "string \<Rightarrow> int \<times> int \<Rightarrow> string" where
  "group_text teststring ab = (case ab of (a, b) \<Rightarrow> take (nat (b - a)) (drop (nat a) teststring))"

fun put_groups :: "bool \<Rightarrow> string \<Rightarrow> nat \<Rightarrow> (int \<times> int) list \<Rightarrow> Scopes \<Rightarrow> Scopes option" where
  "put_groups agent teststring i [] st = Some st"
| "put_groups agent teststring i (ab # ov) st =
     do {
       st1 \<leftarrow> (if snd ab - fst ab < int CF_MAXVARSIZE \<and> agent
               then ScopePutMatch (int i) (group_text teststring ab) st else Some st);
       put_groups agent teststring (Suc i) ov st1
     }"

text \<open>The result, \<open>*start\<close> and \<open>*end\<close>.\<close>

definition RegExMatchSubString ::
  "bool \<Rightarrow> pcre \<Rightarrow> string \<Rightarrow> Scopes \<Rightarrow> ((bool \<times> int \<times> int) \<times> Scopes) option"
where
  "RegExMatchSubString agent rx teststring st =
     (case rx teststring of
        None \<Rightarrow> Some ((False, 0, 0), st)
      | Some (rc, ov) \<Rightarrow> do {
          st1 \<leftarrow> ScopeClearSpecial SPECIAL_SCOPE_MATCH st;
          st2 \<leftarrow> put_groups agent teststring 0 (take rc ov) st1;
          Some ((True, fst (hd ov), snd (hd ov)), st2)
        })"

definition RegExMatchFullString :: "bool \<Rightarrow> pcre \<Rightarrow> string \<Rightarrow> Scopes \<Rightarrow> (bool \<times> Scopes) option" where
  "RegExMatchFullString agent rx teststring st =
     do {
       ((b, match_start, match_len), st1) \<leftarrow> RegExMatchSubString agent rx teststring st;
       Some (if b then match_start = 0 \<and> match_len = int (length teststring) else False, st1)
     }"

definition FirstBackReference :: "pcre \<Rightarrow> string \<Rightarrow> string" where
  "FirstBackReference rx teststring =
     (case rx teststring of
        None \<Rightarrow> []
      | Some (rc, ov) \<Rightarrow>
          if 1 < rc \<and> snd (ov ! 1) - fst (ov ! 1) < int CF_MAXVARSIZE
          then group_text teststring (ov ! 1) else [])"

definition ValidateRegEx :: "(string \<Rightarrow> pcre option) \<Rightarrow> string \<Rightarrow> bool" where
  "ValidateRegEx pcre_compile regex \<longleftrightarrow> CompileRegExp pcre_compile regex \<noteq> None"

definition FullTextMatch ::
  "(string \<Rightarrow> pcre option) \<Rightarrow> bool \<Rightarrow> string \<Rightarrow> string \<Rightarrow> Scopes \<Rightarrow> (bool \<times> Scopes) option"
where
  "FullTextMatch pcre_compile agent regexp teststring st =
     (if strcmp regexp teststring = 0 then Some (True, st)
      else (case CompileRegExp pcre_compile regexp of
              None \<Rightarrow> Some (False, st)
            | Some rx \<Rightarrow> RegExMatchFullString agent rx teststring st))"

definition ExtractFirstReference ::
  "(string \<Rightarrow> pcre option) \<Rightarrow> string option \<Rightarrow> string option \<Rightarrow> string"
where
  "ExtractFirstReference pcre_compile regexp teststring =
     (case (regexp, teststring) of
        (Some r, Some t) \<Rightarrow>
          (case CompileRegExp pcre_compile r of
             None \<Rightarrow> []
           | Some rx \<Rightarrow>
               (let backreference = FirstBackReference rx t
                in if backreference = [] then ''CF_NOMATCH'' else backreference))
      | _ \<Rightarrow> [])"

definition BlockTextMatch ::
  "(string \<Rightarrow> pcre option) \<Rightarrow> bool \<Rightarrow> string \<Rightarrow> string \<Rightarrow> Scopes \<Rightarrow> ((bool \<times> (int \<times> int) option) \<times> Scopes) option"
where
  "BlockTextMatch pcre_compile agent regexp teststring st =
     (case CompileRegExp pcre_compile regexp of
        None \<Rightarrow> Some ((False, None), st)
      | Some rx \<Rightarrow> do {
          ((b, s, e), st1) \<leftarrow> RegExMatchSubString agent rx teststring st;
          Some ((b, Some (s, e)), st1)
        })"

fun MatchRlistItem ::
  "(string \<Rightarrow> pcre option) \<Rightarrow> bool \<Rightarrow> Rval list \<Rightarrow> string \<Rightarrow> Scopes \<Rightarrow> (bool \<times> Scopes) option"
where
  "MatchRlistItem pcre_compile agent [] teststring st = Some (False, st)"
| "MatchRlistItem pcre_compile agent (rp # rps) teststring st =
     do {
       r \<leftarrow> RvalScalarValue rp;
       (if strcmp teststring r = 0 then Some (True, st)
        else do {
          (b, st1) \<leftarrow> FullTextMatch pcre_compile agent r teststring st;
          (if b then Some (True, st1) else MatchRlistItem pcre_compile agent rps teststring st1)
        })
     }"

section \<open>Is a string meant as a regular expression?\<close>

datatype special = r_norm | r_norepeat | r_literal

record regex_scan =
  ret :: bool
  special :: special
  bracket :: int
  paren :: int

definition regex_step :: "bool \<Rightarrow> char \<Rightarrow> regex_scan \<Rightarrow> regex_scan option" where
  "regex_step first c v =
     (if special v = r_literal then Some (v\<lparr>special := r_norm\<rparr>)
      else if c = CHR 0x5C then Some (v\<lparr>special := r_literal\<rparr>)
      else if bracket v \<noteq> 0 \<and> c \<noteq> CHR '']'' then (if c = CHR ''['' then None else Some v)
      else if c = CHR ''^'' then Some (v\<lparr>special := (if first then r_norepeat else r_norm)\<rparr>)
      else if c = CHR ''*'' \<or> c = CHR ''+'' then
        (if special v = r_norepeat then None else Some (v\<lparr>special := r_norepeat, ret := True\<rparr>))
      else if c = CHR ''['' then Some (v\<lparr>special := r_norm, bracket := bracket v + 1, ret := True\<rparr>)
      else if c = CHR '']'' then
        (if bracket v = 0 then None else Some (v\<lparr>bracket := 0, special := r_norm\<rparr>))
      else if c = CHR ''('' then Some (v\<lparr>special := r_norepeat, paren := paren v + 1\<rparr>)
      else if c = CHR '')'' then
        (if paren v - 1 < 0 then None else Some (v\<lparr>special := r_norm, paren := paren v - 1\<rparr>))
      else if c = CHR ''|'' then
        Some (v\<lparr>special := r_norepeat, ret := ret v \<or> 0 < paren v\<rparr>)
      else Some (v\<lparr>special := r_norm\<rparr>))"

fun regex_loop :: "bool \<Rightarrow> string \<Rightarrow> regex_scan \<Rightarrow> regex_scan option" where
  "regex_loop first [] v = Some v"
| "regex_loop first (c # cs) v = do { v' \<leftarrow> regex_step first c v; regex_loop False cs v' }"

definition IsRegex :: "string \<Rightarrow> bool" where
  "IsRegex str =
     (case regex_loop True str \<lparr>ret = False, special = r_norepeat, bracket = 0, paren = 0\<rparr> of
        None \<Rightarrow> False
      | Some v \<Rightarrow>
          if bracket v \<noteq> 0 \<or> paren v \<noteq> 0 \<or> special v = r_literal then False else ret v)"

text \<open>\<open>s % 2 == 0\<close> of a negative \<open>int\<close> is that of its absolute value.\<close>

fun path_loop :: "string \<Rightarrow> int \<Rightarrow> int \<Rightarrow> int \<Rightarrow> int" where
  "path_loop [] result s r = result"
| "path_loop (c # cs) result s r =
     (if c = CHR ''['' then path_loop cs result (s + 1) r
      else if c = CHR '']'' then
        path_loop cs (if (s - 1) smod 2 = 0 then result + 1 else result) (s - 1) r
      else if c = CHR ''('' then path_loop cs result s (r + 1)
      else if c = CHR '')'' then
        path_loop cs (if (r - 1) smod 2 = 0 then result + 1 else result) s (r - 1)
      else if c = CHR ''/'' \<and> (r \<noteq> 0 \<or> s \<noteq> 0) then 0
      else path_loop cs result s r)"

definition IsPathRegex :: "string \<Rightarrow> int" where
  "IsPathRegex str = (if IsRegex str then path_loop str 1 0 0 else 0)"

section \<open>Escaping\<close>

text \<open>
  \<open>EscapeSpecialChars\<close>: \<open>out\<close> is what the buffer of \<open>sz\<close> bytes holds before \<open>strEscPos\<close>. After
  \<open>noEscSeq\<close> the loop takes one more character without looking whether the string has ended:
  the terminator is then copied and the loop goes on behind it (\<open>None\<close>).
\<close>

definition put_chars :: "nat \<Rightarrow> string \<Rightarrow> string \<Rightarrow> string option" where
  "put_chars sz out cs = (if length (out @ cs) \<le> sz then Some (out @ cs) else None)"

definition escaped_char :: "string \<Rightarrow> char \<Rightarrow> string" where
  "escaped_char noEscList c = (if c \<notin> set noEscList \<and> \<not> isalnum c then [CHR 0x5C, c] else [c])"

function special_loop :: "string \<Rightarrow> string \<Rightarrow> int \<Rightarrow> string \<Rightarrow> string \<Rightarrow> string option" where
  "special_loop seq noEscList sz s out =
     (if s = [] \<or> \<not> int (length out) < sz - 2 then Some out
      else if strncmp s seq (length seq) = 0 then
        (if sz \<le> int (length out + length seq) then Some out
         else
           (case drop (length seq) s of
              [] \<Rightarrow> None
            | c # cs \<Rightarrow> do {
                out' \<leftarrow> put_chars (nat sz) (out @ seq) (escaped_char noEscList c);
                special_loop seq noEscList sz cs out'
              }))
      else do {
        out' \<leftarrow> put_chars (nat sz) out (escaped_char noEscList (hd s));
        special_loop seq noEscList sz (tl s) out'
      })"
  by pat_completeness auto
termination
  by (relation "measure (\<lambda>(_, _, _, s, _). length s)")
    (auto dest!: arg_cong [where f = length])

declare special_loop.simps [simp del]

definition EscapeSpecialChars ::
  "string \<Rightarrow> int \<Rightarrow> string option \<Rightarrow> string option \<Rightarrow> string option"
where
  "EscapeSpecialChars str strEscSz noEscSeq noEscList =
     special_loop (case noEscSeq of None \<Rightarrow> [] | Some q \<Rightarrow> q)
       (case noEscList of None \<Rightarrow> [] | Some l \<Rightarrow> l) strEscSz str []"

fun regex_chars_loop :: "int \<Rightarrow> string \<Rightarrow> string \<Rightarrow> string option" where
  "regex_chars_loop sz [] out = Some out"
| "regex_chars_loop sz (c # cs) out =
     (if \<not> int (length out) < sz - 2 then Some out
      else do {
        out' \<leftarrow> put_chars (nat sz) out (if c = CHR ''.'' \<or> c = CHR ''*'' then [CHR 0x5C, c] else [c]);
        regex_chars_loop sz cs out'
      })"

definition EscapeRegexChars :: "string \<Rightarrow> int \<Rightarrow> string option" where
  "EscapeRegexChars str strEscSz = regex_chars_loop strEscSz str []"

text \<open>
  \<open>EscapeChar\<close> runs to \<open>strSz - 2\<close>, copying the zero bytes behind the end of the string; \<open>n\<close> counts
  the bytes written, a character may be written at \<open>strSz - 2\<close> after its backslash.
\<close>

fun escape_loop :: "char \<Rightarrow> nat \<Rightarrow> string \<Rightarrow> string \<Rightarrow> string" where
  "escape_loop esc limit [] out = out"
| "escape_loop esc limit (c # cs) out =
     (if \<not> length out < limit then out
      else escape_loop esc limit cs (out @ (if c = esc then [CHR 0x5C, c] else [c])))"

definition EscapeChar :: "string \<Rightarrow> nat \<Rightarrow> char \<Rightarrow> string option" where
  "EscapeChar str strSz esc =
     (if CF_BUFSIZE < strSz then None
      else Some (escape_loop esc (strSz - 2) (take (CF_BUFSIZE - 1) str) []))"

definition AnchorRegex :: "string option \<Rightarrow> nat \<Rightarrow> string" where
  "AnchorRegex regex outSz =
     (case regex of
        None \<Rightarrow> []
      | Some r \<Rightarrow> if r = [] then [] else take (outSz - 1) (''^('' @ r @ '')$''))"

section \<open>Matching lines up to white space\<close>

text \<open>
  \<open>MatchPolicy\<close>, the comparison of the lines to be inserted with a line of the file. The buffers
  \<open>work\<close> and \<open>final\<close> have \<open>CF_BUFSIZE\<close> bytes.
\<close>

function embed_loop :: "int \<Rightarrow> int \<Rightarrow> int \<Rightarrow> string \<Rightarrow> string \<Rightarrow> string" where
  "embed_loop firstchar lastchar i [] out = out"
| "embed_loop firstchar lastchar i (c # cs) out =
     (if firstchar < i \<and> i < lastchar \<and> isspace c then
        (let n = length (takeWhile isspace cs) in
         embed_loop firstchar lastchar (i + int n + 1) (drop n cs) (out @ [CHR 0x5C, CHR ''s'', CHR ''+'']))
      else embed_loop firstchar lastchar (i + 1) cs (out @ [c]))"
  by pat_completeness auto
termination by (relation "measure (\<lambda>(_, _, _, s, _). length s)") auto

function last_nonspace :: "string \<Rightarrow> int \<Rightarrow> int \<Rightarrow> int" where
  "last_nonspace s firstchar i =
     (if firstchar < i \<and> 0 \<le> i \<and> nat i < length s \<and> isspace (s ! nat i)
      then last_nonspace s firstchar (i - 1) else i)"
  by pat_completeness auto
termination by (relation "measure (\<lambda>(_, _, i). nat (i + 1))") auto

declare last_nonspace.simps [simp del]

definition ignore_embedded :: "string \<Rightarrow> string option" where
  "ignore_embedded final =
     (let firstchar = int (length (takeWhile isspace final));
          lastchar = last_nonspace final firstchar (int (length final) - 1);
          work = embed_loop firstchar lastchar 0 final []
      in if length work < CF_BUFSIZE then Some work else None)"

definition any_space :: string where
  "any_space = [CHR 0x5C, CHR ''s'', CHR ''*'']"

definition ignore_leading :: "string \<Rightarrow> string" where
  "ignore_leading final =
     (if strncmp final any_space 3 \<noteq> 0
      then take (CF_BUFSIZE - 1) (any_space @ dropWhile isspace final) else final)"

text \<open>The comparison starts four bytes before the end, in front of the buffer when the line is shorter.\<close>

definition ignore_trailing :: "string \<Rightarrow> string option" where
  "ignore_trailing final =
     (if length final < 4 then None
      else if strncmp (drop (length final - 4) final) any_space 3 \<noteq> 0
      then Some (take (CF_BUFSIZE - 1) (final @ any_space)) else Some final)"

type_synonym policy_state = "string \<times> bool \<times> bool \<times> Scopes"

fun policy_loop ::
  "(string \<Rightarrow> pcre option) \<Rightarrow> bool \<Rightarrow> string \<Rightarrow> string \<Rightarrow> bool \<Rightarrow> Rval list \<Rightarrow> policy_state \<Rightarrow> (bool \<times> bool \<times> Scopes) option"
where
  "policy_loop pcre_compile agent nm haystack direct_cmp [] (final, ok, escaped, st) = Some (ok, escaped, st)"
| "policy_loop pcre_compile agent nm haystack direct_cmp (rp # rps) (final, ok, escaped, st) =
     do {
       item \<leftarrow> RvalScalarValue rp;
       opt \<leftarrow> InsertMatchTypeFromString (Some item);
       (if opt = INSERT_MATCH_TYPE_EXACT then Some (ok \<or> direct_cmp, escaped, st)
        else do {
          final1 \<leftarrow> (if escaped then Some final else EscapeRegexChars nm (int CF_BUFSIZE - 1));
          final2 \<leftarrow> (case opt of
             INSERT_MATCH_TYPE_IGNORE_EMBEDDED \<Rightarrow> ignore_embedded final1
           | INSERT_MATCH_TYPE_IGNORE_LEADING \<Rightarrow> Some (ignore_leading final1)
           | _ \<Rightarrow> ignore_trailing final1);
          (b, st1) \<leftarrow> (if ok then Some (True, st) else FullTextMatch pcre_compile agent final2 haystack st);
          policy_loop pcre_compile agent nm haystack direct_cmp rps (final2, b, True, st1)
        })
     }"

definition policy_line ::
  "(string \<Rightarrow> pcre option) \<Rightarrow> bool \<Rightarrow> string \<Rightarrow> string \<Rightarrow> Rval list \<Rightarrow> Item \<Rightarrow>
   bool \<times> bool \<times> Scopes \<Rightarrow> (bool \<times> bool \<times> Scopes + bool \<times> Scopes) option"
where
  "policy_line pcre_compile agent camel haystack insert_match ip s =
     (case s of (_, escaped, st) \<Rightarrow>
        (let direct_cmp = (strcmp camel haystack = 0) in
         if insert_match = [] then Some (Inr (direct_cmp, st))
         else do {
           nm \<leftarrow> iname ip;
           (ok, escaped', st1) \<leftarrow> policy_loop pcre_compile agent nm haystack direct_cmp insert_match
             (take (CF_BUFSIZE - 1) nm, False, escaped, st);
           Some (if ok then Inl (ok, escaped', st1) else Inr (False, st1))
         }))"

definition MatchPolicy ::
  "(string \<Rightarrow> pcre option) \<Rightarrow> bool \<Rightarrow> ItemHeap \<Rightarrow> string \<Rightarrow> string \<Rightarrow> Rval list \<Rightarrow> Scopes \<Rightarrow> (bool \<times> Scopes) option"
where
  "MatchPolicy pcre_compile agent h camel haystack insert_match st =
     do {
       (list, h') \<leftarrow> SplitString h camel (CHR 0x0A);
       r \<leftarrow> for_items h' (\<lambda>a ip s. policy_line pcre_compile agent camel haystack insert_match ip s)
              list (False, False, st);
       Some (case r of Inl (ok, _, st1) \<Rightarrow> (ok, st1) | Inr v \<Rightarrow> v)
     }"

section \<open>Escaped text\<close>

definition escape_text :: "string \<Rightarrow> string" where
  "escape_text s = concat (map (escaped_char []) s)"

lemma escaped_char_length: "length (escaped_char l c) \<le> 2"
  by (simp add: escaped_char_def)

lemma special_loop_plain:
  "int (length out) + 2 * int (length s) + 2 \<le> sz \<Longrightarrow>
   special_loop [] [] sz s out = Some (out @ escape_text s)"
proof (induction s arbitrary: out)
  case Nil
  then show ?case by (simp add: special_loop.simps escape_text_def)
next
  case (Cons c cs)
  have l: "length (escaped_char [] c) \<le> 2" by (rule escaped_char_length)
  with Cons.prems have "put_chars (nat sz) out (escaped_char [] c) = Some (out @ escaped_char [] c)"
    by (simp add: put_chars_def)
  moreover have "int (length (out @ escaped_char [] c)) + 2 * int (length cs) + 2 \<le> sz"
    using Cons.prems l by simp
  ultimately show ?case using Cons.prems Cons.IH
    by (subst special_loop.simps) (simp add: escape_text_def)
qed

text \<open>Removing the backslashes.\<close>

fun unescape :: "string \<Rightarrow> string" where
  "unescape [] = []"
| "unescape [c] = [c]"
| "unescape (c # d # cs) = (if c = CHR 0x5C then d # unescape cs else c # unescape (d # cs))"

lemma unescape_char: "unescape (escaped_char [] c @ s) = c # unescape s"
proof (cases "isalnum c")
  case True
  then have "c \<noteq> CHR 0x5C" by (auto simp: ctype_defs)
  with True show ?thesis by (cases s) (simp_all add: escaped_char_def)
qed (simp add: escaped_char_def)

lemma unescape_text: "unescape (escape_text s) = s"
  by (induction s) (simp_all add: escape_text_def unescape_char)

lemma regex_loop_char:
  assumes "special v \<noteq> r_literal" "bracket v = 0" "paren v = 0"
  shows "\<exists>v'. regex_loop first (escaped_char [] c @ s) v = regex_loop False s v' \<and>
    ret v' = ret v \<and> special v' \<noteq> r_literal \<and> bracket v' = 0 \<and> paren v' = 0"
proof (cases "isalnum c")
  case True
  have "\<forall>d \<in> {CHR 0x5C, CHR ''^'', CHR ''*'', CHR ''+'', CHR ''['', CHR '']'', CHR ''('', CHR '')'', CHR ''|''}.
      \<not> isalnum d" by (simp add: ctype_defs)
  with True have "c \<notin> {CHR 0x5C, CHR ''^'', CHR ''*'', CHR ''+'', CHR ''['', CHR '']'', CHR ''('', CHR '')'', CHR ''|''}"
    by blast
  with True assms show ?thesis
    by (intro exI [of _ "v\<lparr>special := r_norm\<rparr>"]) (simp add: escaped_char_def regex_step_def)
next
  case False
  with assms show ?thesis
    by (intro exI [of _ "v\<lparr>special := r_norm\<rparr>"]) (simp add: escaped_char_def regex_step_def)
qed

lemma regex_loop_text:
  "special v \<noteq> r_literal \<Longrightarrow> bracket v = 0 \<Longrightarrow> paren v = 0 \<Longrightarrow>
   \<exists>v'. regex_loop first (escape_text s) v = Some v' \<and> ret v' = ret v"
proof (induction s arbitrary: first v)
  case Nil
  then show ?case by (simp add: escape_text_def)
next
  case (Cons c cs)
  from regex_loop_char [OF Cons.prems, of first c "escape_text cs"] obtain v' where
    v': "regex_loop first (escape_text (c # cs)) v = regex_loop False (escape_text cs) v'"
    "ret v' = ret v" "special v' \<noteq> r_literal" "bracket v' = 0" "paren v' = 0"
    by (auto simp: escape_text_def)
  from Cons.IH [OF v'(3-5)] v'(1,2) show ?case by auto
qed

text \<open>
  Escaping a string for use inside a regular expression, when the buffer has twice its size: no
  byte outside of the buffer is written, removing the backslashes gives the string back, and the
  result is not taken for a regular expression.
\<close>

theorem escape_special_chars:
  assumes "2 * int (length s) + 2 \<le> sz"
  shows "\<exists>e. EscapeSpecialChars s sz None None = Some e \<and> unescape e = s \<and> \<not> IsRegex e"
proof -
  have "EscapeSpecialChars s sz None None = Some (escape_text s)"
    using special_loop_plain [of "[]" s sz] assms by (simp add: EscapeSpecialChars_def)
  moreover obtain v where "regex_loop True (escape_text s)
      \<lparr>ret = False, special = r_norepeat, bracket = 0, paren = 0\<rparr> = Some v" "\<not> ret v"
    using regex_loop_text [of "\<lparr>ret = False, special = r_norepeat, bracket = 0, paren = 0\<rparr>" True s] by auto
  then have "\<not> IsRegex (escape_text s)" by (simp add: IsRegex_def)
  ultimately show ?thesis using unescape_text by blast
qed

theorem escape_special_chars_witness:
  "\<exists>e. EscapeSpecialChars ''a(b)*'' 12 None None = Some e \<and> unescape e = ''a(b)*'' \<and> \<not> IsRegex e"
  by (rule escape_special_chars) simp

text \<open>
  A string that ends with the sequence kept as it is runs past its end; and a sequence kept near the
  end of the buffer leaves no room for the two bytes that follow it.
\<close>

lemma escape_past_the_end:
  "EscapeSpecialChars ''a(.*)'' 100 (Some ''(.*)'') None = None \<and>
   EscapeSpecialChars ''(.*)-'' 5 (Some ''(.*)'') None = None"
  by code_simp

section \<open>The variables of a match\<close>

definition match_table :: "Scopes \<Rightarrow> VariableTable option" where
  "match_table st =
     (case SCOPE_MATCH st of
        Some a \<Rightarrow> map_option sc_table (scope_at st a)
      | None \<Rightarrow>
          if find_scope (scope_at st) (VSCOPE st) ''default'' ''match'' = Some None then Some HashInit
          else None)"

text \<open>The value of \<open>$(match.k)\<close>.\<close>

definition match_var :: "Scopes \<Rightarrow> string \<Rightarrow> Rval option" where
  "match_var st k = Option.bind (match_table st) (\<lambda>t. map_option rval (HashLookupElement t k))"

definition match_key :: "nat \<Rightarrow> string" where
  "match_key i = take 2 (show_int (int i))"

lemma show_nat_digit: "i < 10 \<Longrightarrow> length (show_nat i) = 1"
  by (subst show_nat.simps) simp

lemma show_nat_short: "i < 100 \<Longrightarrow> length (show_nat i) \<le> 2"
  by (subst show_nat.simps) (simp add: show_nat_digit)

lemma number_match_key: "i < 100 \<Longrightarrow> number 10 (match_key i) = int i"
proof -
  assume "i < 100"
  then have "take 2 (show_nat i) = show_nat i" by (intro take_all show_nat_short)
  moreover have "match_key i = take 2 (show_nat i)" by (simp add: match_key_def show_int_def)
  ultimately show ?thesis by (simp only: number_show_nat)
qed

lemma match_key_inj: "i < 100 \<Longrightarrow> j < 100 \<Longrightarrow> match_key i = match_key j \<Longrightarrow> i = j"
  by (metis number_match_key of_nat_eq_iff)

lemma ScopePutMatch_store:
  assumes "match_table st = Some t" "store_value t (match_key i) (Scalar v) DATA_TYPE_STRING = Some t'"
  shows "\<exists>st'. ScopePutMatch (int i) v st = Some st' \<and> match_table st' = Some t'"
proof (cases "SCOPE_MATCH st")
  case None
  with assms(1) have "find_scope (scope_at st) (VSCOPE st) ''default'' ''match'' = Some None" "t = HashInit"
    by (auto simp: match_table_def split: if_splits)
  with None assms(2) show ?thesis
    by (auto simp: ScopePutMatch_def ScopeNew_def ns_or_default_def match_key_def match_table_def
        put_scope_def Let_def)
next
  case (Some a)
  with assms show ?thesis
    by (auto simp: ScopePutMatch_def match_table_def match_key_def put_scope_def)
qed

lemma ScopeClearSpecial_match:
  "match_table st = Some t \<Longrightarrow>
   \<exists>st'. ScopeClearSpecial SPECIAL_SCOPE_MATCH st = Some st' \<and> match_table st' = Some HashInit"
  by (cases "SCOPE_MATCH st")
    (auto simp: match_table_def ScopeClearSpecial_def ScopeGet_def clear_table_def put_scope_def
      split: if_splits)

definition kept_group :: "int \<times> int \<Rightarrow> bool" where
  "kept_group ab \<longleftrightarrow> snd ab - fst ab < int CF_MAXVARSIZE"

fun group_var :: "string \<Rightarrow> nat \<Rightarrow> (int \<times> int) list \<Rightarrow> string \<Rightarrow> Rval option" where
  "group_var text i [] k = None"
| "group_var text i (ab # ov) k =
     (case group_var text (Suc i) ov k of
        Some r \<Rightarrow> Some r
      | None \<Rightarrow> if k = match_key i \<and> kept_group ab then Some (Scalar (group_text text ab)) else None)"

lemma put_groups_vars:
  assumes "match_table st = Some t" "table_room (length ov) t" "all_scalars t"
  shows "\<exists>st' t'. put_groups True text i ov st = Some st' \<and> match_table st' = Some t' \<and>
    (\<forall>k. map_option rval (HashLookupElement t' k) =
      (case group_var text i ov k of Some r \<Rightarrow> Some r | None \<Rightarrow> map_option rval (HashLookupElement t k)))"
  using assms
proof (induction ov arbitrary: i st t)
  case (Cons ab ov)
  from Cons.prems(2) have room: "table_room (Suc (length ov)) t" by simp
  show ?case
  proof (cases "kept_group ab")
    case True
    let ?v = "group_text text ab"
    from store_scalar [OF room Cons.prems(3), of "match_key i" ?v DATA_TYPE_STRING] obtain t1 where
      t1: "store_value t (match_key i) (Scalar ?v) DATA_TYPE_STRING = Some t1" "table_room (length ov) t1"
      "all_scalars t1" "map_option rval (HashLookupElement t1 (match_key i)) = Some (Scalar ?v)"
      "\<forall>k'. k' \<noteq> match_key i \<longrightarrow> HashLookupElement t1 k' = HashLookupElement t k'" by blast
    from ScopePutMatch_store [OF Cons.prems(1) t1(1)] obtain st1 where
      st1: "ScopePutMatch (int i) ?v st = Some st1" "match_table st1 = Some t1" by blast
    from Cons.IH [OF st1(2) t1(2,3), of "Suc i"] obtain st' t' where
      st': "put_groups True text (Suc i) ov st1 = Some st'" "match_table st' = Some t'"
      "\<forall>k. map_option rval (HashLookupElement t' k) =
        (case group_var text (Suc i) ov k of Some r \<Rightarrow> Some r | None \<Rightarrow> map_option rval (HashLookupElement t1 k))"
      by blast
    have "map_option rval (HashLookupElement t' k) =
      (case group_var text i (ab # ov) k of Some r \<Rightarrow> Some r | None \<Rightarrow> map_option rval (HashLookupElement t k))" for k
      using st'(3) t1(4,5) True by (cases "k = match_key i") (simp_all split: option.split)
    with st' st1(1) True show ?thesis by (auto simp: kept_group_def)
  next
    case False
    have "table_room (length ov) t" using room by (auto simp: table_room_def split: AssocHashTable.splits)
    from Cons.IH [OF Cons.prems(1) this Cons.prems(3), of "Suc i"] obtain st' t' where
      st': "put_groups True text (Suc i) ov st = Some st'" "match_table st' = Some t'"
      "\<forall>k. map_option rval (HashLookupElement t' k) =
        (case group_var text (Suc i) ov k of Some r \<Rightarrow> Some r | None \<Rightarrow> map_option rval (HashLookupElement t k))"
      by blast
    have "map_option rval (HashLookupElement t' k) =
      (case group_var text i (ab # ov) k of Some r \<Rightarrow> Some r | None \<Rightarrow> map_option rval (HashLookupElement t k))" for k
      using st'(3) False by (cases "group_var text (Suc i) ov k") simp_all
    with st' False show ?thesis by (auto simp: kept_group_def)
  qed
qed simp

lemma group_var_at:
  "i + length ov \<le> 100 \<Longrightarrow> i \<le> j \<Longrightarrow> j < i + length ov \<Longrightarrow>
   group_var text i ov (match_key j) =
     (if kept_group (ov ! (j - i)) then Some (Scalar (group_text text (ov ! (j - i)))) else None)"
proof (induction ov arbitrary: i)
  case (Cons ab ov)
  have none: "group_var text n ov' (match_key j) = None" if "j < n" "n + length ov' \<le> 100" for n ov'
    using that
  proof (induction ov' arbitrary: n)
    case (Cons cd ov')
    then show ?case using match_key_inj [of j n] by auto
  qed simp
  show ?case
  proof (cases "j = i")
    case True
    with none [of "Suc i" ov] Cons.prems show ?thesis by simp
  next
    case False
    with Cons.prems Cons.IH [of "Suc i"] match_key_inj [of j i] show ?thesis
      by (auto simp: Suc_diff_Suc nth_Cons' split: option.split)
  qed
qed simp

lemma group_var_other:
  "\<forall>j. i \<le> j \<and> j < i + length ov \<longrightarrow> k \<noteq> match_key j \<Longrightarrow> group_var text i ov k = None"
proof (induction ov arbitrary: i)
  case (Cons ab ov)
  have "k \<noteq> match_key i" "\<forall>j. Suc i \<le> j \<and> j < Suc i + length ov \<longrightarrow> k \<noteq> match_key j"
    using Cons.prems by auto
  with Cons.IH [of "Suc i"] show ?case by simp
qed simp

lemma HashInit_facts: "table_room n HashInit \<longleftrightarrow> n \<le> CF_HASHTABLESIZE" "all_scalars HashInit"
  by (simp_all add: table_room_def HashInit_def all_scalars_def HashInit_lookup [unfolded HashInit_def])


definition example_pcre :: "string \<Rightarrow> pcre option" where
  "example_pcre r =
     (if r = ''a(b)'' then Some (\<lambda>t. if t = ''xaby'' then Some (2, [(1, 3), (2, 3)]) else None) else None)"

lemma example_pcre_ok: "pcre_ok example_pcre"
  by (simp add: pcre_ok_def example_pcre_def)

definition no_scopes :: Scopes where
  "no_scopes = \<lparr>VSCOPE = [], scope_at = (\<lambda>_. None), SCOPE_MATCH = None, CF_STCK = [], scope_brk = 0, stale = []\<rparr>"


section \<open>The result of a match without its variables\<close>

definition full_match :: "(string \<Rightarrow> pcre option) \<Rightarrow> string \<Rightarrow> string \<Rightarrow> bool" where
  "full_match pcre_compile regexp text \<longleftrightarrow>
     regexp = text \<or>
     (\<exists>rx rc ov. pcre_compile regexp = Some rx \<and> rx text = Some (rc, ov) \<and> hd ov = (0, int (length text)))"

lemma put_groups_total:
  "match_table st = Some t \<Longrightarrow> table_room (length ov) t \<Longrightarrow> all_scalars t \<Longrightarrow>
   \<exists>st'. put_groups agent text i ov st = Some st' \<and> match_table st' \<noteq> None"
proof (cases agent)
  case False
  assume "match_table st = Some t"
  moreover have "put_groups False text i ov st = Some st" by (induction ov arbitrary: i) simp_all
  ultimately show ?thesis using False by simp
next
  case True
  assume "match_table st = Some t" "table_room (length ov) t" "all_scalars t"
  from put_groups_vars [OF this, of "text" i] True show ?thesis by auto
qed

text \<open>
  \<open>FullTextMatch\<close> accepts a text when it is the expression itself or when the first match of the
  expression is the whole text; it always returns, and can be called again.
\<close>

theorem full_text_match:
  assumes "pcre_ok pcre_compile" "match_table st \<noteq> None"
  shows "\<exists>st'. FullTextMatch pcre_compile agent regexp text st = Some (full_match pcre_compile regexp text, st') \<and>
    match_table st' \<noteq> None"
proof (cases "regexp = text")
  case True
  with assms(2) show ?thesis by (simp add: FullTextMatch_def full_match_def)
next
  case False
  show ?thesis
  proof (cases "pcre_compile regexp")
    case None
    with False assms(2) show ?thesis by (simp add: FullTextMatch_def full_match_def CompileRegExp_def)
  next
    case (Some rx)
    note rx = Some
    show ?thesis
    proof (cases "rx text")
      case None
      with False rx assms(2) show ?thesis
        by (simp add: FullTextMatch_def full_match_def CompileRegExp_def RegExMatchFullString_def
            RegExMatchSubString_def)
    next
      case (Some r)
      obtain rc ov where r: "r = (rc, ov)" by force
      have rc: "rc < 100" "ov \<noteq> []" using assms(1) rx Some r unfolding pcre_ok_def by blast+
      from assms(2) obtain t where "match_table st = Some t" by blast
      from ScopeClearSpecial_match [OF this] obtain st1 where
        st1: "ScopeClearSpecial SPECIAL_SCOPE_MATCH st = Some st1" "match_table st1 = Some HashInit" by blast
      have "table_room (length (take rc ov)) HashInit" using rc by (simp add: HashInit_facts CF_HASHTABLESIZE_def)
      from put_groups_total [OF st1(2) this HashInit_facts(2), of agent "text" 0] obtain st' where
        st': "put_groups agent text 0 (take rc ov) st1 = Some st'" "match_table st' \<noteq> None" by blast
      obtain a b ov' where ov: "ov = (a, b) # ov'" using rc(2) by (cases ov) auto
      from False rx Some r st1(1) st' show ?thesis
        by (auto simp: FullTextMatch_def full_match_def CompileRegExp_def RegExMatchFullString_def
            RegExMatchSubString_def ov)
    qed
  qed
qed

theorem full_text_match_witness:
  "\<exists>st'. FullTextMatch example_pcre True ''a(b)'' ''xaby'' no_scopes = Some (False, st')"
proof -
  have "match_table no_scopes \<noteq> None" by (simp add: match_table_def no_scopes_def)
  from full_text_match [OF example_pcre_ok this, of True "''a(b)''" "''xaby''"] show ?thesis
    by (auto simp: full_match_def example_pcre_def)
qed

section \<open>Exact comparison of lines\<close>

lemma MatchPolicy_no_policy:
  assumes "wf_heap h" "items \<noteq> []" "camel = join_items (CHR 0x0A) items"
    and "\<forall>s \<in> set items. CHR 0x5C \<notin> set s \<and> length s < CF_BUFSIZE"
  shows "MatchPolicy pcre_compile agent h camel haystack [] st = Some (camel = haystack, st)"
proof -
  have "CHR 0x0A \<noteq> CHR 0x5C" by simp
  from split_loop_names [OF this assms(2,4,1), of None "[]" None] assms(3) obtain p ys h' where
    h': "SplitString h camel (CHR 0x0A) = Some (p, h')" "item_list h' p ys" "map (name_at h') ys = items"
    by (auto simp: SplitString_def)
  with assms(2) obtain y ys' where "ys = y # ys'" by (cases ys) auto
  then show ?thesis
    by (simp add: MatchPolicy_def h'(1) for_items_list [OF h'(2)] policy_line_def)
qed

end
