(* ===== verification/Key_Store.thy ===== *)
theory Key_Store
  imports Prelude
begin

text \<open>
  The key-value databases behind \<open>libpromises/dbm_api.h\<close>. The backends are libraries; a database is the
  list of its entries in the order of a cursor, with unique keys. Reading is \<open>map_of\<close>.
\<close>

type_synonym 'v DB = "(string \<times> 'v) list"

fun WriteDB :: "'v DB \<Rightarrow> string \<Rightarrow> 'v \<Rightarrow> 'v DB" where
  "WriteDB [] k v = [(k, v)]"
| "WriteDB ((k', v') # db) k v = (if k' = k then (k, v) # db else (k', v') # WriteDB db k v)"

definition DeleteDB :: "'v DB \<Rightarrow> string \<Rightarrow> 'v DB" where
  "DeleteDB db k = filter (\<lambda>(k', _). k' \<noteq> k) db"

definition HasKeyDB :: "'v DB \<Rightarrow> string \<Rightarrow> bool" where
  "HasKeyDB db k \<longleftrightarrow> map_of db k \<noteq> None"

definition unique_keys :: "'v DB \<Rightarrow> bool" where
  "unique_keys db \<longleftrightarrow> distinct (map fst db)"

lemma map_of_WriteDB [simp]: "map_of (WriteDB db k v) k' = (if k' = k then Some v else map_of db k')"
  by (induction db) auto

lemma map_of_DeleteDB [simp]: "map_of (DeleteDB db k) k' = (if k' = k then None else map_of db k')"
  by (induction db) (auto simp: DeleteDB_def)

lemma keys_WriteDB: "fst ` set (WriteDB db k v) = insert k (fst ` set db)"
proof (induction db)
  case (Cons e db)
  then show ?case by (cases e) (simp add: insert_commute)
qed simp

lemma distinct_WriteDB: "distinct (map fst db) \<Longrightarrow> distinct (map fst (WriteDB db k v))"
proof (induction db)
  case (Cons e db)
  then show ?case using keys_WriteDB [of db k v] by (cases e) auto
qed simp

lemma unique_keys_ops:
  "unique_keys []" "unique_keys db \<Longrightarrow> unique_keys (WriteDB db k v)" "unique_keys db \<Longrightarrow> unique_keys (DeleteDB db k)"
  by (simp_all add: unique_keys_def distinct_WriteDB DeleteDB_def distinct_map_filter)

end
