(* ===== verification/String_Lib.thy ===== *)
theory String_Lib
  imports Scan "HOL-Library.Sublist"
begin

text \<open>
  The string helpers of \<open>libutils/string_lib.c\<close>. A text that is changed in place is the argument and the
  result of its function; \<open>None\<close> is a failed assertion or a write behind the memory that was allocated. A loop that may run
  for ever is a partial function. The compiled regular expressions of PCRE are a parameter.
\<close>

section \<open>Characters\<close>

definition ispunct :: "char \<Rightarrow> bool" where
  "ispunct c \<longleftrightarrow> 33 \<le> code c \<and> code c \<le> 126 \<and> \<not> isalnum c"

definition ToLower :: "char \<Rightarrow> char" where
  "ToLower ch = (if isupper ch then char_of (code ch + 32) else ch)"

text \<open>Everything that is no digit, no punctuation and no capital is moved down by 32.\<close>

definition ToUpper :: "char \<Rightarrow> char" where
  "ToUpper ch =
     (if isdigit ch \<or> ispunct ch then ch
      else if isupper ch then ch
      else char_of ((code ch + 256 - 32) mod 256))"

text \<open>The text that is left ends at the first \<open>NUL\<close> that was written.\<close>

definition ToUpperStrInplace :: "string \<Rightarrow> string" where
  "ToUpperStrInplace str = takeWhile (\<lambda>c. c \<noteq> CHR 0x00) (map ToUpper str)"

definition ToLowerStrInplace :: "string \<Rightarrow> string" where
  "ToLowerStrInplace str = map ToLower str"

section \<open>Strings that may be missing\<close>

definition SafeStringLength :: "string option \<Rightarrow> nat" where
  "SafeStringLength str = (case str of None \<Rightarrow> 0 | Some s \<Rightarrow> length s)"

definition StringSafeCompare :: "string option \<Rightarrow> string option \<Rightarrow> int" where
  "StringSafeCompare a b =
     (case (a, b) of (None, None) \<Rightarrow> 0 | (Some s, Some t) \<Rightarrow> strcmp s t | _ \<Rightarrow> - 1)"

definition StringSafeEqual :: "string option \<Rightarrow> string option \<Rightarrow> bool" where
  "StringSafeEqual a b =
     (case (a, b) of (None, None) \<Rightarrow> True | (Some s, Some t) \<Rightarrow> strcmp s t = 0 | _ \<Rightarrow> False)"

definition NULLStringToEmpty :: "string option \<Rightarrow> string" where
  "NULLStringToEmpty str = (case str of None \<Rightarrow> [] | Some s \<Rightarrow> s)"

text \<open>The arguments that follow the first one are given as a list; \<open>count\<close> is how many there are said to be.\<close>

definition StringConcatenate :: "nat \<Rightarrow> string option list \<Rightarrow> string option" where
  "StringConcatenate n args = (if n < 1 then None else Some (concat (map NULLStringToEmpty (take n args))))"

section \<open>Parts of strings\<close>

definition SIZE_MAX :: int where
  "SIZE_MAX = 2 ^ 64 - 1"

definition size_t :: "int \<Rightarrow> int" where
  "size_t i = i mod 2 ^ 64"

text \<open>
  The ends are unsigned. Of the empty string the call reads behind the end or asks for all the memory there is (\<open>None\<close>);
  \<open>Some None\<close> is \<open>NULL\<close>.
\<close>

definition StringSubstring :: "string \<Rightarrow> int \<Rightarrow> int \<Rightarrow> string option option" where
  "StringSubstring source start len =
     (if len = 0 then Some (Some [])
      else
        (let source_len = int (length source);
             end0 = (if len < 0 then size_t (source_len + len - 1) else size_t (start + len - 1));
             end = min end0 (size_t (source_len - 1));
             start' = (if start < 0 then source_len + start else start)
         in if size_t start' \<ge> end then Some None
            else if source = [] \<and> (len < 0 \<or> start' > 0) then None
            else Some (Some (take (nat (end - start' + 1)) (drop (nat start') source)))))"

definition IsNumber :: "string \<Rightarrow> bool" where
  "IsNumber s = list_all isdigit s"

definition EmptyString :: "string \<Rightarrow> bool" where
  "EmptyString s = list_all isspace s"

definition StringToLong :: "string \<Rightarrow> int option" where
  "StringToLong str =
     (case scan_ld str of
        None \<Rightarrow> (if str = [] then Some 0 else None)
      | Some (i, rest) \<Rightarrow> (if rest = [] then Some i else None))"

definition StringFromLong :: "int \<Rightarrow> string" where
  "StringFromLong i = show_int i"

definition StringEndsWith :: "string \<Rightarrow> string \<Rightarrow> bool" where
  "StringEndsWith str suff \<longleftrightarrow>
     length suff \<le> length str \<and>
     list_all (\<lambda>i. str ! (length str - i - 1) = suff ! (length suff - i - 1)) [0..<length suff]"

definition StringStartsWith :: "string \<Rightarrow> string \<Rightarrow> bool" where
  "StringStartsWith str pref \<longleftrightarrow>
     length pref \<le> length str \<and> list_all (\<lambda>i. str ! i = pref ! i) [0..<length pref]"

text \<open>The distance of the result from \<open>mem\<close>.\<close>

definition MemSpan :: "string \<Rightarrow> char \<Rightarrow> nat \<Rightarrow> nat" where
  "MemSpan mem c n = length (takeWhile (\<lambda>x. x = c) (take n mem))"

definition MemSpanInverse :: "string \<Rightarrow> char \<Rightarrow> nat \<Rightarrow> nat" where
  "MemSpanInverse mem c n = length (takeWhile (\<lambda>x. x \<noteq> c) (take n mem))"

definition ScanPastChars :: "string \<Rightarrow> string \<Rightarrow> string" where
  "ScanPastChars scanpast input = dropWhile (\<lambda>c. strchr scanpast c \<noteq> None) input"

text \<open>The result of the call, and the text.\<close>

definition StripTrailingNewline :: "string \<Rightarrow> nat \<Rightarrow> int \<times> string" where
  "StripTrailingNewline str max_length =
     (if length str > max_length then (- 1, str)
      else (0, rev (dropWhile (\<lambda>c. c = CHR ''\<newline>'') (rev str))))"

definition Chop :: "string \<Rightarrow> string" where
  "Chop str = rev (dropWhile isspace (rev str))"

definition ChopAtMost :: "string \<Rightarrow> nat \<Rightarrow> int \<times> string" where
  "ChopAtMost str max_length =
     (if length str = 0 then (0, str) else if length str > max_length then (- 1, str) else (0, Chop str))"

definition ReplaceTrailingChar :: "string \<Rightarrow> char \<Rightarrow> char \<Rightarrow> string" where
  "ReplaceTrailingChar str from to =
     (if length str = 0 then str
      else if str ! (length str - 1) = from then str[length str - 1 := to] else str)"

section \<open>Lists of strings\<close>

definition IsStrIn :: "string \<Rightarrow> string list \<Rightarrow> bool" where
  "IsStrIn str strs \<longleftrightarrow> find_index (\<lambda>s. strcmp str s = 0) strs \<noteq> None"

definition IsStrCaseIn :: "string \<Rightarrow> string list \<Rightarrow> bool" where
  "IsStrCaseIn str strs \<longleftrightarrow> find_index (\<lambda>s. strcmp (map ToLower str) (map ToLower s) = 0) strs \<noteq> None"

definition StringInArray :: "string list \<Rightarrow> string \<Rightarrow> bool" where
  "StringInArray array str \<longleftrightarrow> find_index (\<lambda>s. strcmp str s = 0) array \<noteq> None"

text \<open>The array has room for one string more than there are separators.\<close>

definition String2StringArray :: "string option \<Rightarrow> char \<Rightarrow> string list option" where
  "String2StringArray str separator =
     (case str of
        None \<Rightarrow> Some []
      | Some s \<Rightarrow>
          (let arr = strsep_tokens separator s; i = length (filter (\<lambda>c. c = separator) s)
           in if length arr + 1 > i + 2 then None else Some arr))"

section \<open>Replacing\<close>

text \<open>\<open>strstr\<close>: the index of the first occurrence.\<close>

fun strstr_at :: "string \<Rightarrow> string \<Rightarrow> nat option" where
  "strstr_at [] t = (if t = [] then Some 0 else None)"
| "strstr_at (c # cs) t = (if take (length t) (c # cs) = t then Some 0 else map_option Suc (strstr_at cs t))"

function replace_all :: "string \<Rightarrow> string \<Rightarrow> string \<Rightarrow> string" where
  "replace_all source search replace =
     (if search = [] then source
      else case strstr_at source search of
          None \<Rightarrow> source
        | Some i \<Rightarrow> take i source @ replace @ replace_all (drop (i + length search) source) search replace)"
  by pat_completeness auto
termination
proof (relation "measure (\<lambda>(source, _, _). length source)")
  fix source search :: string and replace :: string and i
  assume "search \<noteq> []" "strstr_at source search = Some i"
  then show "((drop (i + length search) source, search, replace), source, search, replace) \<in> measure (\<lambda>(source, _, _). length source)"
    by (cases source; cases search) (auto simp: less_Suc_eq_le)
qed simp

declare replace_all.simps [simp del]

definition SearchAndReplace :: "string \<Rightarrow> string \<Rightarrow> string \<Rightarrow> string" where
  "SearchAndReplace source search replace =
     (if strcmp search [] = 0 then source else replace_all source search replace)"

definition ReplaceChar :: "string \<Rightarrow> nat \<Rightarrow> char \<Rightarrow> char \<Rightarrow> string" where
  "ReplaceChar str outSz from to = map (\<lambda>c. if c = from then to else c) (take (outSz - 1) str)"

text \<open>
  The loop of \<open>ReplaceStr\<close> on the rest of the input and the bytes in \<open>out\<close>. It ends without a
  \<open>NUL\<close> in \<open>out\<close> when these fill the memory.
\<close>

partial_function (option) replace_str_loop :: "nat \<Rightarrow> string \<Rightarrow> string \<Rightarrow> string \<Rightarrow> string \<Rightarrow> (bool \<times> string) option" where
  "replace_str_loop outSz from to rest out =
     (if rest = [] \<or> length out \<ge> outSz then Some (True, out)
      else if strncmp rest from (length from) = 0 then
        (if length out + length to \<ge> outSz then Some (False, out)
         else replace_str_loop outSz from to (drop (length from) rest) (out @ to))
      else replace_str_loop outSz from to (tl rest) (out @ [hd rest]))"

definition ReplaceStr :: "string \<Rightarrow> nat \<Rightarrow> string \<Rightarrow> string \<Rightarrow> (bool \<times> string) option" where
  "ReplaceStr str outSz from to = replace_str_loop outSz from to str []"

text \<open>An occurrence behind a backslash does not count, and is skipped.\<close>

fun CountChar :: "string \<Rightarrow> char \<Rightarrow> nat" where
  "CountChar [] sep = 0"
| "CountChar [c] sep = (if c = sep then 1 else 0)"
| "CountChar (c # d # cs) sep =
     (if c = CHR 0x5C \<and> d = sep then CountChar cs sep
      else (if c = sep then 1 else 0) + CountChar (d # cs) sep)"

text \<open>The memory has room for the text, one character for each that was counted, and the \<open>NUL\<close>.\<close>

definition EscapeCharCopy :: "string \<Rightarrow> char \<Rightarrow> char \<Rightarrow> string option" where
  "EscapeCharCopy str to_escape escape_with =
     (let out_size = length str + CountChar str to_escape + 1;
          out = concat (map (\<lambda>c. if c = to_escape then [escape_with, c] else [c]) str)
      in if length out + 1 > out_size then None else Some out)"

section \<open>Matching\<close>

text \<open>
  \<open>search\<close> is what PCRE does with an expression: nothing when it does not compile, else the result of a search and
  the ends of the match.
\<close>

definition StringMatchInternal ::
  "(string \<Rightarrow> (string \<Rightarrow> int \<times> int \<times> int) option) \<Rightarrow> string \<Rightarrow> string \<Rightarrow> (bool \<times> int \<times> int) option"
where
  "StringMatchInternal search regex str =
     (if strcmp regex str = 0 then Some (True, 0, int (length str))
      else case search regex of
          None \<Rightarrow> None
        | Some exec \<Rightarrow>
            (case exec str of (result, from, to) \<Rightarrow>
               Some (result \<ge> 0, if result \<noteq> 0 then (from, to) else (0, 0))))"

definition StringMatchFull ::
  "(string \<Rightarrow> (string \<Rightarrow> int \<times> int \<times> int) option) \<Rightarrow> string \<Rightarrow> string \<Rightarrow> bool option"
where
  "StringMatchFull search regex str =
     map_option (\<lambda>(ok, from, to). ok \<and> from = 0 \<and> to = int (length str)) (StringMatchInternal search regex str)"

definition CompareStringOrRegex ::
  "(string \<Rightarrow> (string \<Rightarrow> int \<times> int \<times> int) option) \<Rightarrow> string \<Rightarrow> string option \<Rightarrow> bool \<Rightarrow> bool option"
where
  "CompareStringOrRegex search text compareTo regex =
     (case compareTo of
        None \<Rightarrow> Some True
      | Some c \<Rightarrow>
          (if c = [] then Some True
           else if regex then StringMatchFull search c text
           else Some (strcmp c text = 0)))"


section \<open>Replacing every occurrence\<close>

lemma take_append_iff: "take (length t) s = t \<longleftrightarrow> (\<exists>v. s = t @ v)"
  by (metis append_eq_conv_conj append_take_drop_id)

text \<open>A piece of the source before an occurrence: the text does not start in it.\<close>

definition free_of :: "string \<Rightarrow> string \<Rightarrow> string \<Rightarrow> bool" where
  "free_of search p rest \<longleftrightarrow> (\<forall>i < length p. take (length search) (drop i p @ rest) \<noteq> search)"

lemma free_of_Cons [simp]:
  "free_of search (c # p) rest \<longleftrightarrow> take (length search) (c # p @ rest) \<noteq> search \<and> free_of search p rest"
  by (simp add: free_of_def All_less_Suc2 del: take_append)

lemma free_of_Nil [simp]: "free_of search [] rest"
  by (simp add: free_of_def)

lemma strstr_at_Some:
  "strstr_at s t = Some i \<Longrightarrow> t \<noteq> [] \<Longrightarrow> \<exists>v. s = take i s @ t @ v \<and> i \<le> length s \<and> free_of t (take i s) (t @ v)"
proof (induction s arbitrary: i)
  case (Cons c cs)
  show ?case
  proof (cases "take (length t) (c # cs) = t")
    case True
    then obtain v where "c # cs = t @ v" using take_append_iff by blast
    moreover have "i = 0" using True Cons.prems by simp
    ultimately show ?thesis by auto
  next
    case False
    with Cons.prems obtain j where j: "strstr_at cs t = Some j" "i = Suc j" by auto
    with Cons obtain v where v: "cs = take j cs @ t @ v" "j \<le> length cs" "free_of t (take j cs) (t @ v)" by blast
    then have "free_of t (take i (c # cs)) (t @ v)" using False j by simp
    then show ?thesis using v j by (intro exI [of _ v]) simp
  qed
qed (auto split: if_splits)

lemma strstr_at_None: "strstr_at s t = None \<Longrightarrow> t \<noteq> [] \<Longrightarrow> free_of t s []"
  by (induction s) (auto split: if_splits)

text \<open>
  The reference: the source cut at the leftmost occurrences that do not overlap. \<open>pieces_of\<close> says that \<open>ps\<close> are the
  pieces between them.
\<close>

fun pieces_of :: "string \<Rightarrow> string list \<Rightarrow> bool" where
  "pieces_of search [] \<longleftrightarrow> False"
| "pieces_of search [p] \<longleftrightarrow> free_of search p []"
| "pieces_of search (p # q # ps) \<longleftrightarrow> free_of search p (search @ join_with search (q # ps)) \<and> pieces_of search (q # ps)"

lemma replace_all_pieces:
  assumes "search \<noteq> []"
  shows "\<exists>ps. source = join_with search ps \<and> replace_all source search replace = join_with replace ps \<and> pieces_of search ps"
proof (induction source rule: length_induct)
  case (1 source)
  show ?case
  proof (cases "strstr_at source search")
    case None
    with assms show ?thesis
      by (intro exI [of _ "[source]"]) (simp add: replace_all.simps strstr_at_None)
  next
    case (Some i)
    then obtain v where v: "source = take i source @ search @ v" "i \<le> length source"
      "free_of search (take i source) (search @ v)" using strstr_at_Some assms by blast
    then have drop: "drop (i + length search) source = v"
      by (metis append.assoc append_eq_conv_conj length_append length_take min.absorb2)
    have "length v < length source" using assms by (subst v(1)) simp
    with "1.IH" obtain ps where ps: "v = join_with search ps" "replace_all v search replace = join_with replace ps"
      "pieces_of search ps" by blast
    then obtain q qs where q: "ps = q # qs" by (cases ps) auto
    have "replace_all source search replace = take i source @ replace @ replace_all v search replace"
      using assms Some drop by (subst replace_all.simps) simp
    with ps v q show ?thesis by (intro exI [of _ "take i source # ps"]) auto
  qed
qed

lemma replace_all_skip:
  "search \<noteq> [] \<Longrightarrow> take (length search) (c # cs) \<noteq> search \<Longrightarrow> replace_all (c # cs) search replace = c # replace_all cs search replace"
  by (subst (1 2) replace_all.simps) (auto split: option.splits)

lemma replace_all_hit:
  assumes "search \<noteq> []"
  shows "replace_all (search @ v) search replace = replace @ replace_all v search replace"
proof -
  have "strstr_at (search @ v) search = Some 0" using assms by (cases search) auto
  with assms show ?thesis by (subst replace_all.simps) simp
qed

lemma replace_all_Nil [simp]: "replace_all [] search replace = []"
  by (subst replace_all.simps) simp

text \<open>
  \<open>SearchAndReplace\<close> replaces exactly the leftmost occurrences that do not overlap: the source is pieces with the search text
  between them, in none of which it starts, and the result the same pieces with the replacement between them.
\<close>

theorem search_and_replace:
  assumes "search \<noteq> []"
  shows "\<exists>ps. source = join_with search ps \<and> SearchAndReplace source search replace = join_with replace ps \<and> pieces_of search ps"
  using replace_all_pieces [OF assms] assms by (simp add: SearchAndReplace_def)

theorem search_and_replace_witness:
  "\<exists>ps. ''aXbXc'' = join_with ''X'' ps \<and> SearchAndReplace ''aXbXc'' ''X'' ''--'' = join_with ''--'' ps \<and> pieces_of ''X'' ps"
  by (rule search_and_replace) simp

text \<open>The result of the loop against the full text.\<close>

definition loop_result :: "nat \<Rightarrow> string \<Rightarrow> (bool \<times> string) option \<Rightarrow> bool" where
  "loop_result outSz full r \<longleftrightarrow>
     (\<exists>ok out more. r = Some (ok, out) \<and> full = out @ more \<and> length out \<le> outSz \<and>
        (ok \<longrightarrow> length out < outSz \<longrightarrow> more = []) \<and> (\<not> ok \<longrightarrow> length full \<ge> outSz))"

lemma replace_str_loop_agrees:
  assumes "from \<noteq> []" "length out \<le> outSz"
  shows "loop_result outSz (out @ replace_all rest from to) (replace_str_loop outSz from to rest out)"
  using assms(2)
proof (induction rest arbitrary: out rule: length_induct)
  case (1 rest)
  show ?case
  proof (cases "rest = [] \<or> length out \<ge> outSz")
    case True
    then have "replace_str_loop outSz from to rest out = Some (True, out)" by (subst replace_str_loop.simps) simp
    with True "1.prems" show ?thesis
      unfolding loop_result_def
      by (intro exI [of _ True] exI [of _ out] exI [of _ "replace_all rest from to"]) auto
  next
    case run: False
    show ?thesis
    proof (cases "take (length from) rest = from")
      case True
      then obtain v where v: "rest = from @ v" using take_append_iff by blast
      have shorter: "length v < length rest" using v assms(1) by simp
      show ?thesis
      proof (cases "length out + length to \<ge> outSz")
        case True
        with run v assms(1) have "replace_str_loop outSz from to rest out = Some (False, out)"
          by (subst replace_str_loop.simps) simp
        with True run v show ?thesis
          unfolding loop_result_def
          by (intro exI [of _ False] exI [of _ out] exI [of _ "to @ replace_all v from to"])
            (simp add: replace_all_hit [OF assms(1)])
      next
        case False
        then have step: "replace_str_loop outSz from to rest out = replace_str_loop outSz from to v (out @ to)"
          using run v assms(1) by (subst replace_str_loop.simps) simp
        show ?thesis
          unfolding step using "1.IH" [rule_format, OF shorter, of "out @ to"] False
          by (simp add: v replace_all_hit [OF assms(1)])
      qed
    next
      case False
      from run obtain c cs where c: "rest = c # cs" by (cases rest) auto
      have step: "replace_str_loop outSz from to rest out = replace_str_loop outSz from to cs (out @ [c])"
        using run False c by (subst replace_str_loop.simps) simp
      show ?thesis
        unfolding step using "1.IH" [rule_format, of cs "out @ [c]"] run False
        by (simp add: c replace_all_skip [OF assms(1)])
    qed
  qed
qed

text \<open>
  \<open>ReplaceStr\<close> returns for every text that is not empty. When the replaced text fits the memory it
  succeeds with it, and otherwise it fails or fills all the memory with its start, without the byte that ends it.
\<close>

theorem replace_str:
  assumes "from \<noteq> []"
  shows "case ReplaceStr str outSz from to of
      None \<Rightarrow> False
    | Some (ok, out) \<Rightarrow>
        (if length (SearchAndReplace str from to) < outSz then ok \<and> out = SearchAndReplace str from to
         else (\<not> ok \<or> length out = outSz) \<and> out = take (length out) (SearchAndReplace str from to))"
proof -
  have r: "SearchAndReplace str from to = replace_all str from to" using assms by (simp add: SearchAndReplace_def)
  obtain ok out more where "ReplaceStr str outSz from to = Some (ok, out)" "replace_all str from to = out @ more"
    "length out \<le> outSz" "ok \<longrightarrow> length out < outSz \<longrightarrow> more = []" "\<not> ok \<longrightarrow> length (replace_all str from to) \<ge> outSz"
    using replace_str_loop_agrees [OF assms, of "[]" outSz str to] by (auto simp: ReplaceStr_def loop_result_def)
  then show ?thesis by (cases ok) (auto simp: r)
qed

theorem replace_str_witness:
  "case ReplaceStr ''a%b'' 16 ''%'' ''%%'' of None \<Rightarrow> False | Some (ok, out) \<Rightarrow> ok \<and> out = ''a%%b''"
proof -
  have "SearchAndReplace ''a%b'' ''%'' ''%%'' = ''a%%b''"
    by (simp add: SearchAndReplace_def replace_all.simps)
  with replace_str [of "''%''" "''a%b''" "''%%''" 16] show ?thesis by (auto split: option.splits prod.splits)
qed

section \<open>Escaping\<close>

lemma CountChar_le: "CountChar str c \<le> length (filter (\<lambda>x. x = c) str)"
  by (induction str c rule: CountChar.induct) auto

definition escaped :: "char \<Rightarrow> char \<Rightarrow> string \<Rightarrow> string" where
  "escaped to_escape escape_with str = concat (map (\<lambda>c. if c = to_escape then [escape_with, c] else [c]) str)"

lemma length_escaped: "length (escaped c e str) = length str + length (filter (\<lambda>x. x = c) str)"
  by (induction str) (auto simp: escaped_def)

lemma EscapeCharCopy_eq:
  "EscapeCharCopy str c e = (if CountChar str c < length (filter (\<lambda>x. x = c) str) then None else Some (escaped c e str))"
  by (simp add: EscapeCharCopy_def Let_def length_escaped flip: escaped_def)

lemma CountChar_plain:
  "\<forall>u v. str \<noteq> u @ CHR 0x5C # c # v \<Longrightarrow> CountChar str c = length (filter (\<lambda>x. x = c) str)"
proof (induction str c rule: CountChar.induct)
  case (3 a b cs sep)
  have tail: "\<forall>u v. b # cs \<noteq> u @ CHR 0x5C # sep # v" if "\<forall>u v. a # b # cs \<noteq> u @ CHR 0x5C # sep # v"
    using that by (metis append_Cons)
  have "\<not> (a = CHR 0x5C \<and> b = sep)" using "3.prems" by (metis append_Nil)
  moreover from this have "CountChar (b # cs) sep = length (filter (\<lambda>x. x = sep) (b # cs))"
    using "3.IH"(2) tail [OF "3.prems"] by blast
  ultimately show ?case by auto
qed auto

lemma CountChar_append_escaped: "CountChar (u @ CHR 0x5C # c # v) c < length (filter (\<lambda>x. x = c) (u @ CHR 0x5C # c # v))"
proof (induction u rule: length_induct)
  case (1 u)
  show ?case
  proof (cases u)
    case Nil
    then show ?thesis using CountChar_le [of v c] by simp
  next
    case (Cons a u')
    show ?thesis
    proof (cases u')
      case Nil
      with Cons show ?thesis using CountChar_le [of v c] CountChar_le [of "c # v" c] by (auto simp: less_Suc_eq_le)
    next
      case (Cons b u'')
      with \<open>u = a # u'\<close> "1.IH" [rule_format, of u'] "1.IH" [rule_format, of u''] show ?thesis
        by (auto simp: less_Suc_eq_le)
    qed
  qed
qed

text \<open>
  \<open>EscapeCharCopy\<close> stays inside of the memory it allocates, and is then right, exactly for the texts in which no character to be
  escaped stands behind a backslash.
\<close>

theorem escape_char_copy:
  "(EscapeCharCopy str to_escape escape_with \<noteq> None) \<longleftrightarrow> (\<forall>u v. str \<noteq> u @ CHR 0x5C # to_escape # v)"
proof
  assume "EscapeCharCopy str to_escape escape_with \<noteq> None"
  then show "\<forall>u v. str \<noteq> u @ CHR 0x5C # to_escape # v"
    using CountChar_append_escaped [of _ to_escape] by (auto simp: EscapeCharCopy_eq simp del: filter_append)
next
  assume "\<forall>u v. str \<noteq> u @ CHR 0x5C # to_escape # v"
  from CountChar_plain [OF this] show "EscapeCharCopy str to_escape escape_with \<noteq> None" by (simp add: EscapeCharCopy_eq)
qed

section \<open>Arrays, numbers and ends\<close>

lemma string_array_fits: "String2StringArray (Some s) c = Some (strsep_tokens c s)"
proof -
  have "length (strsep_tokens c s) = length (filter (\<lambda>x. x = c) s) + 1"
  proof (induction c s rule: strsep_tokens.induct)
    case (1 d s)
    show ?case
    proof (cases "strchr s d")
      case None
      then show ?thesis by (auto simp: strchr_None strsep_tokens_none filter_empty_conv)
    next
      case (Some i)
      note f = strchr_SomeD [OF Some]
      then have "s = take i s @ d # drop (Suc i) s" using id_take_nth_drop [of i s] by simp
      then have "filter (\<lambda>x. x = d) s = filter (\<lambda>x. x = d) (take i s) @ d # filter (\<lambda>x. x = d) (drop (Suc i) s)"
        by (metis (mono_tags, lifting) filter.simps(2) filter_append)
      moreover have "filter (\<lambda>x. x = d) (take i s) = []" using f by (auto simp: filter_empty_conv)
      ultimately show ?thesis using 1 Some by (subst strsep_tokens.simps) simp
    qed
  qed
  then show ?thesis by (simp add: String2StringArray_def Let_def)
qed

lemma long_roundtrip:
  assumes "LONG_MIN \<le> i" "i \<le> LONG_MAX"
  shows "StringToLong (StringFromLong i) = Some i"
  using scan_ld_show_int [where i = i and rest = "[]"] assms by (simp add: StringToLong_def StringFromLong_def)

lemma StringStartsWith_prefix: "StringStartsWith str p \<longleftrightarrow> prefix p str"
proof -
  have "take (length p) str = p \<longleftrightarrow> length p \<le> length str \<and> (\<forall>i < length p. str ! i = p ! i)"
    by (metis length_take min.absorb2 min.cobounded1 nth_equalityI nth_take)
  then have "StringStartsWith str p \<longleftrightarrow> take (length p) str = p"
    by (simp add: StringStartsWith_def list_all_iff Ball_def)
  then show ?thesis by (auto simp: take_append_iff prefix_def)
qed

lemma StringEndsWith_suffix: "StringEndsWith str p \<longleftrightarrow> suffix p str"
proof -
  have "StringEndsWith str p \<longleftrightarrow> StringStartsWith (rev str) (rev p)"
    by (auto simp: StringEndsWith_def StringStartsWith_def list_all_iff rev_nth)
  then show ?thesis by (simp add: StringStartsWith_prefix suffix_to_prefix)
qed

text \<open>Of a substring of one character there is nothing, and a space becomes the end of the text.\<close>

lemma one_character_is_missing:
  assumes "0 \<le> start" "start < int (length s)" "length s < 2 ^ 63"
  shows "StringSubstring s start 1 = Some None"
  using assms by (simp add: StringSubstring_def Let_def size_t_def)

lemma upper_space: "ToUpperStrInplace ''a b'' = ''A''"
  by code_simp

end
