(* ===== verification/Eval_Context.thy ===== *)
theory Eval_Context
  imports Matching Logic_Expr Map_Impl Key_Store String_Lib
begin

text \<open>
  The evaluation context, \<open>libpromises/env_context.c\<close>: the sets of classes that hold everywhere (on
  the heap) or in a bundle (on the stack), and the stack of frames. The sets are the string sets of
  \<open>Map_Impl\<close>, class expressions are parsed and evaluated as in \<open>Logic_Expr\<close>. Whether an expression
  matches a text is a parameter \<open>matches\<close>, for which \<open>Matching\<close> gives \<open>full_match\<close>; the variables a
  match leaves in the scope \<open>match\<close> are not part of this state.

  The two lists of classes that abort are HOL lists of names and classes (their heap form is in
  \<open>Item_List\<close>). The global \<open>ABORTBUNDLE\<close> is a field of the context. An operation may end the
  program by \<open>exit(1)\<close>, or fault: a failed assertion, a programming error, a null pointer, or a
  string that does not fit a buffer which the code fills without a check.
\<close>

datatype 'a outcome = Fault | Exit1 | Done 'a

record Bundle =
  bundle_ns :: string
  bundle_name :: string
  bundle_type :: string

record Promise =
  promise_id :: nat
  promise_ns :: string
  promise_type :: string
  promiser :: string

datatype frame_data =
  BundleFrame Bundle StringSet StringSet
| BodyFrame string
| PromiseFrame Promise
| PromiseIterationFrame Promise

record StackFrame =
  inherits_previous :: bool
  data :: frame_data

record EvalContext =
  heap_soft :: StringSet
  heap_hard :: StringSet
  heap_negated :: StringSet
  heap_abort :: "(string \<times> string option) list"
  heap_abort_current_bundle :: "(string \<times> string option) list"
  stack :: "StackFrame list"
  dependency_handles :: StringSet
  promises_done :: "nat set"
  ABORTBUNDLE :: bool

definition EvalContextNew :: EvalContext where
  "EvalContextNew = \<lparr>heap_soft = SetNew, heap_hard = SetNew, heap_negated = SetNew, heap_abort = [],
     heap_abort_current_bundle = [], stack = [], dependency_handles = SetNew, promises_done = {},
     ABORTBUNDLE = False\<rparr>"

section \<open>Frames\<close>

text \<open>The stack grows at the end of the list.\<close>

definition is_bundle_frame :: "StackFrame \<Rightarrow> bool" where
  "is_bundle_frame f = (case data f of BundleFrame _ _ _ \<Rightarrow> True | _ \<Rightarrow> False)"

definition is_promise_frame :: "StackFrame \<Rightarrow> bool" where
  "is_promise_frame f = (case data f of PromiseFrame _ \<Rightarrow> True | _ \<Rightarrow> False)"

definition is_iteration_frame :: "StackFrame \<Rightarrow> bool" where
  "is_iteration_frame f = (case data f of PromiseIterationFrame _ \<Rightarrow> True | _ \<Rightarrow> False)"

definition StackFrameOwnerName :: "StackFrame \<Rightarrow> string" where
  "StackFrameOwnerName frame =
     (case data frame of
        BundleFrame b _ _ \<Rightarrow> bundle_name b
      | BodyFrame n \<Rightarrow> n
      | PromiseFrame _ \<Rightarrow> ''this''
      | PromiseIterationFrame _ \<Rightarrow> ''this'')"

text \<open>The position of a frame counted from the top; \<open>None\<close> is \<open>NULL\<close>.\<close>

definition LastStackFrame :: "EvalContext \<Rightarrow> nat \<Rightarrow> nat option" where
  "LastStackFrame ctx offset =
     (if length (stack ctx) \<le> offset then None else Some (length (stack ctx) - 1 - offset))"

definition frame_at :: "EvalContext \<Rightarrow> nat option \<Rightarrow> StackFrame option" where
  "frame_at ctx p = map_option (\<lambda>i. stack ctx ! i) p"

text \<open>The outer \<open>None\<close> is a failed assertion (or \<open>NULL\<close> dereferenced), the inner one the result \<open>NULL\<close>.\<close>

definition asserted_bundle :: "EvalContext \<Rightarrow> nat \<Rightarrow> nat option option" where
  "asserted_bundle ctx offset =
     do {
       f \<leftarrow> frame_at ctx (LastStackFrame ctx offset);
       (if is_bundle_frame f then Some (LastStackFrame ctx offset) else None)
     }"

definition LastStackFrameBundle :: "EvalContext \<Rightarrow> nat option option" where
  "LastStackFrameBundle ctx =
     do {
       last_frame \<leftarrow> frame_at ctx (LastStackFrame ctx 0);
       (case data last_frame of
          BundleFrame _ _ _ \<Rightarrow> Some (LastStackFrame ctx 0)
        | BodyFrame _ \<Rightarrow> do {
            f \<leftarrow> frame_at ctx (LastStackFrame ctx 1);
            (if \<not> is_promise_frame f then None
             else if LastStackFrame ctx 2 = None then Some None
             else asserted_bundle ctx 2)
          }
        | PromiseFrame _ \<Rightarrow> asserted_bundle ctx 1
        | PromiseIterationFrame _ \<Rightarrow> asserted_bundle ctx 2)
     }"

definition StackFrameNewBundle :: "Bundle \<Rightarrow> bool \<Rightarrow> StackFrame" where
  "StackFrameNewBundle owner inherit_previous =
     \<lparr>inherits_previous = inherit_previous, data = BundleFrame owner SetNew SetNew\<rparr>"

definition StackFrameNewBody :: "string \<Rightarrow> StackFrame" where
  "StackFrameNewBody owner = \<lparr>inherits_previous = False, data = BodyFrame owner\<rparr>"

definition StackFrameNewPromise :: "Promise \<Rightarrow> StackFrame" where
  "StackFrameNewPromise owner = \<lparr>inherits_previous = True, data = PromiseFrame owner\<rparr>"

definition StackFrameNewPromiseIteration :: "Promise \<Rightarrow> StackFrame" where
  "StackFrameNewPromiseIteration owner = \<lparr>inherits_previous = True, data = PromiseIterationFrame owner\<rparr>"

definition EvalContextStackPushFrame :: "EvalContext \<Rightarrow> StackFrame \<Rightarrow> EvalContext" where
  "EvalContextStackPushFrame ctx frame = ctx\<lparr>stack := stack ctx @ [frame]\<rparr>"

section \<open>Which classes hold\<close>

definition EvalContextHeapContainsSoft :: "EvalContext \<Rightarrow> string \<Rightarrow> bool" where
  "EvalContextHeapContainsSoft ctx context = StringSetContains (heap_soft ctx) context"

definition EvalContextHeapContainsHard :: "EvalContext \<Rightarrow> string \<Rightarrow> bool" where
  "EvalContextHeapContainsHard ctx context = StringSetContains (heap_hard ctx) context"

definition EvalContextHeapContainsNegated :: "EvalContext \<Rightarrow> string \<Rightarrow> bool" where
  "EvalContextHeapContainsNegated ctx context = StringSetContains (heap_negated ctx) context"

definition frame_contexts :: "StackFrame \<Rightarrow> string \<Rightarrow> bool" where
  "frame_contexts f c = (case data f of BundleFrame _ contexts _ \<Rightarrow> StringSetContains contexts c | _ \<Rightarrow> False)"

definition frame_negated :: "StackFrame \<Rightarrow> string \<Rightarrow> bool" where
  "frame_negated f c = (case data f of BundleFrame _ _ neg \<Rightarrow> StringSetContains neg c | _ \<Rightarrow> False)"

fun StackFrameContainsSoftRecursive :: "EvalContext \<Rightarrow> string \<Rightarrow> nat \<Rightarrow> bool" where
  "StackFrameContainsSoftRecursive ctx context 0 = frame_contexts (stack ctx ! 0) context"
| "StackFrameContainsSoftRecursive ctx context (Suc i) =
     (if frame_contexts (stack ctx ! Suc i) context then True
      else if inherits_previous (stack ctx ! Suc i) then StackFrameContainsSoftRecursive ctx context i
      else False)"

definition EvalContextStackFrameContainsSoft :: "EvalContext \<Rightarrow> string \<Rightarrow> bool" where
  "EvalContextStackFrameContainsSoft ctx context =
     (if length (stack ctx) = 0 then False
      else StackFrameContainsSoftRecursive ctx context (length (stack ctx) - 1))"

fun StackFrameContainsNegatedRecursive :: "EvalContext \<Rightarrow> string \<Rightarrow> nat \<Rightarrow> bool" where
  "StackFrameContainsNegatedRecursive ctx context 0 = frame_negated (stack ctx ! 0) context"
| "StackFrameContainsNegatedRecursive ctx context (Suc i) =
     (if frame_negated (stack ctx ! Suc i) context then True
      else if inherits_previous (stack ctx ! Suc i) then StackFrameContainsNegatedRecursive ctx context i
      else False)"

definition EvalContextStackFrameContainsNegated :: "EvalContext \<Rightarrow> string \<Rightarrow> bool" where
  "EvalContextStackFrameContainsNegated ctx context =
     (if length (stack ctx) = 0 then False
      else StackFrameContainsNegatedRecursive ctx context (length (stack ctx) - 1))"

text \<open>\<open>snprintf\<close> into a buffer of \<open>CF_MAXVARSIZE\<close> bytes.\<close>

definition capped :: "string \<Rightarrow> string" where
  "capped s = take (CF_MAXVARSIZE - 1) s"

definition qualified_class :: "string option \<Rightarrow> string \<Rightarrow> string" where
  "qualified_class ns classname =
     (if strchr classname (CHR '':'') \<noteq> None then
        (if strncmp classname ''default:'' 8 = 0 then capped (drop 8 classname) else capped classname)
      else
        (case ns of
           Some n \<Rightarrow> if strcmp n ''default'' \<noteq> 0 then capped (n @ '':'' @ classname) else capped classname
         | None \<Rightarrow> capped classname))"

definition EvalTokenAsClass :: "EvalContext \<Rightarrow> string option \<Rightarrow> string \<Rightarrow> ExpressionValue" where
  "EvalTokenAsClass ctx ns classname =
     (let qc = qualified_class ns classname in
      exp_bool
       (if strcmp classname ''any'' = 0 then True
        else if EvalContextHeapContainsNegated ctx qc then False
        else if EvalContextStackFrameContainsNegated ctx qc then False
        else if EvalContextHeapContainsHard ctx classname then True
        else if EvalContextHeapContainsSoft ctx qc then True
        else if EvalContextStackFrameContainsSoft ctx qc then True
        else False))"

definition EvalVarRef :: VarRefEvaluator where
  "EvalVarRef varname type = None"

definition IsDefinedClass :: "EvalContext \<Rightarrow> string option \<Rightarrow> string option \<Rightarrow> bool" where
  "IsDefinedClass ctx context ns =
     (case context of
        None \<Rightarrow> True
      | Some c \<Rightarrow>
          (case result (ParseExpression c 0 (length c)) of
             None \<Rightarrow> False
           | Some e \<Rightarrow> EvalExpression (EvalTokenAsClass ctx ns) EvalVarRef e = EXP_TRUE))"

definition EvalTokenFromList :: "StringSet \<Rightarrow> string \<Rightarrow> ExpressionValue" where
  "EvalTokenFromList token_set token = exp_bool (StringSetContains token_set token)"

definition EvalWithTokenFromList :: "string \<Rightarrow> StringSet \<Rightarrow> bool" where
  "EvalWithTokenFromList expr token_set =
     (case result (ParseExpression expr 0 (length expr)) of
        None \<Rightarrow> False
      | Some e \<Rightarrow> EvalExpression (EvalTokenFromList token_set) EvalVarRef e = EXP_TRUE)"

definition EvalProcessResult :: "string \<Rightarrow> StringSet \<Rightarrow> bool" where
  "EvalProcessResult process_result proc_attr = EvalWithTokenFromList process_result proc_attr"

definition EvalFileResult :: "string \<Rightarrow> StringSet \<Rightarrow> bool" where
  "EvalFileResult file_result leaf_attr = EvalWithTokenFromList file_result leaf_attr"

text \<open>\<open>IsRegexItemIn\<close> of \<open>matching.c\<close>, on the lists of classes that abort.\<close>

definition IsRegexItemIn ::
  "(string \<Rightarrow> string \<Rightarrow> bool) \<Rightarrow> EvalContext \<Rightarrow> (string \<times> string option) list \<Rightarrow> string \<Rightarrow> bool"
where
  "IsRegexItemIn matches ctx list regex =
     (find_index (\<lambda>(nm, classes).
        (if classes \<noteq> None \<and> \<not> IsDefinedClass ctx classes None then False
         else if strcmp regex nm = 0 then True
         else matches regex nm \<or> matches nm regex)) list \<noteq> None)"

section \<open>Adding classes\<close>

text \<open>\<open>CanonifyNameInPlace\<close> of \<open>files_names.c\<close>. The strings that are chopped are shorter than the limit of \<open>Chop\<close>.\<close>

definition CanonifyNameInPlace :: "string \<Rightarrow> string" where
  "CanonifyNameInPlace s = map (\<lambda>c. if \<not> isalnum c \<or> c = CHR ''.'' then CHR ''_'' else c) s"

text \<open>Some class expression of an abort list holds.\<close>

definition abort_defined :: "EvalContext \<Rightarrow> (string \<times> string option) list \<Rightarrow> string option \<Rightarrow> bool" where
  "abort_defined ctx list ns = (find_index (\<lambda>(nm, _). IsDefinedClass ctx (Some nm) ns) list \<noteq> None)"

text \<open>
  The common part of the three operations that add a class: the tests before and after the class
  \<open>c\<close> is added by \<open>add\<close>, unless it is there already (\<open>present\<close>). When a class aborts the agent
  after the addition, the message names the owner of the last frame (\<open>owner\<close>: \<open>None\<close> is \<open>NULL\<close>).
\<close>

definition guarded_add ::
  "(string \<Rightarrow> string \<Rightarrow> bool) \<Rightarrow> string option \<Rightarrow> string option \<Rightarrow> bool \<Rightarrow> (EvalContext \<Rightarrow> EvalContext) \<Rightarrow>
   EvalContext \<Rightarrow> string \<Rightarrow> EvalContext outcome"
where
  "guarded_add matches ns owner present add ctx c =
     (let ctx1 = (if IsRegexItemIn matches ctx (heap_abort_current_bundle ctx) c
                  then ctx\<lparr>ABORTBUNDLE := True\<rparr> else ctx) in
      if IsRegexItemIn matches ctx1 (heap_abort ctx1) c then Exit1
      else if present then Done ctx1
      else
        (let ctx2 = add ctx1 in
         if abort_defined ctx2 (heap_abort ctx2) ns then (if owner = None then Fault else Exit1)
         else if \<not> ABORTBUNDLE ctx2 \<and> abort_defined ctx2 (heap_abort_current_bundle ctx2) ns
         then Done (ctx2\<lparr>ABORTBUNDLE := True\<rparr>)
         else Done ctx2))"

definition last_owner :: "EvalContext \<Rightarrow> string option" where
  "last_owner ctx = map_option StackFrameOwnerName (frame_at ctx (LastStackFrame ctx 0))"

definition EvalContextHeapAddSoft ::
  "(string \<Rightarrow> string \<Rightarrow> bool) \<Rightarrow> EvalContext \<Rightarrow> string \<Rightarrow> string option \<Rightarrow> EvalContext outcome"
where
  "EvalContextHeapAddSoft matches ctx context ns =
     (if CF_MAXVARSIZE \<le> length context then Fault
      else
        (let canonified_context = CanonifyNameInPlace (Chop context);
             context_copy =
               (case ns of
                  Some n \<Rightarrow> if strcmp n ''default'' \<noteq> 0 then capped (n @ '':'' @ canonified_context)
                            else canonified_context
                | None \<Rightarrow> canonified_context)
         in if length context_copy = 0 then Done ctx
            else guarded_add matches ns (last_owner ctx) (EvalContextHeapContainsSoft ctx context_copy)
              (\<lambda>ctx1. ctx1\<lparr>heap_soft := StringSetAdd (heap_soft ctx1) context_copy\<rparr>) ctx context_copy))"

definition EvalContextHeapAddHard ::
  "(string \<Rightarrow> string \<Rightarrow> bool) \<Rightarrow> EvalContext \<Rightarrow> string \<Rightarrow> EvalContext outcome"
where
  "EvalContextHeapAddHard matches ctx context =
     (if CF_MAXVARSIZE \<le> length context then Fault
      else
        (let context_copy = CanonifyNameInPlace (Chop context) in
         if length context_copy = 0 then Done ctx
         else guarded_add matches None (last_owner ctx) (EvalContextHeapContainsHard ctx context_copy)
           (\<lambda>ctx1. ctx1\<lparr>heap_hard := StringSetAdd (heap_hard ctx1) context_copy\<rparr>) ctx context_copy))"

text \<open>Changing the sets of the bundle frame at a position of the stack.\<close>

definition update_bundle ::
  "EvalContext \<Rightarrow> nat \<Rightarrow> (StringSet \<Rightarrow> StringSet) \<Rightarrow> (StringSet \<Rightarrow> StringSet) \<Rightarrow> EvalContext"
where
  "update_bundle ctx i f g =
     (let fr = stack ctx ! i in
      case data fr of
        BundleFrame b contexts neg \<Rightarrow>
          ctx\<lparr>stack := (stack ctx)[i := fr\<lparr>data := BundleFrame b (f contexts) (g neg)\<rparr>]\<rparr>
      | _ \<Rightarrow> ctx)"

definition frame_bundle :: "EvalContext \<Rightarrow> nat \<Rightarrow> Bundle option" where
  "frame_bundle ctx i = (case data (stack ctx ! i) of BundleFrame b _ _ \<Rightarrow> Some b | _ \<Rightarrow> None)"

definition EvalContextStackFrameAddSoft ::
  "(string \<Rightarrow> string \<Rightarrow> bool) \<Rightarrow> EvalContext \<Rightarrow> string \<Rightarrow> EvalContext outcome"
where
  "EvalContextStackFrameAddSoft matches ctx context =
     (case LastStackFrameBundle ctx of
        Some (Some i) \<Rightarrow>
          (case frame_bundle ctx i of
             None \<Rightarrow> Fault
           | Some owner \<Rightarrow>
               if strcmp (bundle_ns owner) ''default'' = 0 \<and> CF_MAXVARSIZE \<le> length context then Fault
               else
                 (let copy = Chop (if strcmp (bundle_ns owner) ''default'' \<noteq> 0
                                   then capped (bundle_ns owner @ '':'' @ context) else context)
                  in if length copy = 0 then Done ctx
                     else guarded_add matches (Some (bundle_ns owner)) (Some (bundle_name owner))
                       (EvalContextStackFrameContainsSoft ctx copy)
                       (\<lambda>ctx1. update_bundle ctx1 i (\<lambda>s. StringSetAdd s copy) id) ctx copy))
      | _ \<Rightarrow> Fault)"

definition EvalContextHeapAddNegated :: "EvalContext \<Rightarrow> string \<Rightarrow> EvalContext" where
  "EvalContextHeapAddNegated ctx context = ctx\<lparr>heap_negated := StringSetAdd (heap_negated ctx) context\<rparr>"

definition EvalContextStackFrameAddNegated :: "EvalContext \<Rightarrow> string \<Rightarrow> EvalContext outcome" where
  "EvalContextStackFrameAddNegated ctx context =
     (case LastStackFrameBundle ctx of
        Some (Some i) \<Rightarrow> Done (update_bundle ctx i id (\<lambda>s. StringSetAdd s context))
      | _ \<Rightarrow> Fault)"

text \<open>\<open>IsItemIn\<close> holds of an empty name.\<close>

definition name_in :: "(string \<times> string option) list \<Rightarrow> string \<Rightarrow> bool" where
  "name_in list nm = (nm = [] \<or> find_index (\<lambda>(n, _). strcmp n nm = 0) list \<noteq> None)"

definition EvalContextHeapAddAbort :: "EvalContext \<Rightarrow> string \<Rightarrow> string option \<Rightarrow> EvalContext" where
  "EvalContextHeapAddAbort ctx context activated_on_context =
     (if name_in (heap_abort ctx) context then ctx
      else ctx\<lparr>heap_abort := heap_abort ctx @ [(context, activated_on_context)]\<rparr>)"

definition EvalContextHeapAddAbortCurrentBundle :: "EvalContext \<Rightarrow> string \<Rightarrow> string option \<Rightarrow> EvalContext" where
  "EvalContextHeapAddAbortCurrentBundle ctx context activated_on_context =
     (if name_in (heap_abort_current_bundle ctx) context then ctx
      else ctx\<lparr>heap_abort_current_bundle :=
        heap_abort_current_bundle ctx @ [(context, activated_on_context)]\<rparr>)"

section \<open>Removing classes\<close>

definition EvalContextHeapRemoveSoft :: "EvalContext \<Rightarrow> string \<Rightarrow> bool \<times> EvalContext" where
  "EvalContextHeapRemoveSoft ctx context =
     (let (b, s) = StringSetRemove (heap_soft ctx) context in (b, ctx\<lparr>heap_soft := s\<rparr>))"

definition EvalContextHeapRemoveHard :: "EvalContext \<Rightarrow> string \<Rightarrow> bool \<times> EvalContext" where
  "EvalContextHeapRemoveHard ctx context =
     (let (b, s) = StringSetRemove (heap_hard ctx) context in (b, ctx\<lparr>heap_hard := s\<rparr>))"

definition EvalContextStackFrameRemoveSoft :: "EvalContext \<Rightarrow> string \<Rightarrow> EvalContext outcome" where
  "EvalContextStackFrameRemoveSoft ctx context =
     (case LastStackFrameBundle ctx of
        Some (Some i) \<Rightarrow> Done (update_bundle ctx i (\<lambda>s. snd (StringSetRemove s context)) id)
      | _ \<Rightarrow> Fault)"

definition EvalContextHeapClear :: "EvalContext \<Rightarrow> EvalContext" where
  "EvalContextHeapClear ctx =
     ctx\<lparr>heap_soft := SetClear (heap_soft ctx), heap_hard := SetClear (heap_hard ctx),
        heap_negated := SetClear (heap_negated ctx)\<rparr>"

definition Abort :: "EvalContext \<Rightarrow> bool \<times> EvalContext" where
  "Abort ctx = (if ABORTBUNDLE ctx then (True, ctx\<lparr>ABORTBUNDLE := False\<rparr>) else (False, ctx))"

section \<open>The promise at the top, and the path\<close>

fun top_promise :: "StackFrame list \<Rightarrow> Promise option" where
  "top_promise [] = None"
| "top_promise (f # fs) =
     (case data f of
        PromiseFrame p \<Rightarrow> Some p
      | PromiseIterationFrame p \<Rightarrow> Some p
      | _ \<Rightarrow> top_promise fs)"

definition EvalContextStackGetTopPromise :: "EvalContext \<Rightarrow> Promise option" where
  "EvalContextStackGetTopPromise ctx = top_promise (rev (stack ctx))"

definition frame_path :: "StackFrame \<Rightarrow> string" where
  "frame_path f =
     (case data f of
        BodyFrame n \<Rightarrow> ''/'' @ n
      | BundleFrame b _ _ \<Rightarrow> ''/'' @ bundle_name b
      | PromiseIterationFrame p \<Rightarrow>
          ''/'' @ promise_type p @ ''/'' @ [CHR 0x27] @ promiser p @ [CHR 0x27]
      | PromiseFrame _ \<Rightarrow> [])"

definition EvalContextStackPath :: "EvalContext \<Rightarrow> string" where
  "EvalContextStackPath ctx = concat (map frame_path (stack ctx))"

section \<open>Promises that are done\<close>

definition EvalContextPromiseIsDone :: "EvalContext \<Rightarrow> nat \<Rightarrow> bool" where
  "EvalContextPromiseIsDone ctx pp \<longleftrightarrow> pp \<in> promises_done ctx"

definition EvalContextMarkPromiseDone :: "EvalContext \<Rightarrow> nat \<Rightarrow> EvalContext" where
  "EvalContextMarkPromiseDone ctx org_pp = ctx\<lparr>promises_done := insert org_pp (promises_done ctx)\<rparr>"

definition EvalContextMarkPromiseNotDone :: "EvalContext \<Rightarrow> nat \<Rightarrow> EvalContext" where
  "EvalContextMarkPromiseNotDone ctx org_pp = ctx\<lparr>promises_done := promises_done ctx - {org_pp}\<rparr>"

text \<open>\<open>handle\<close> is the handle of the promise, if it has one; names are cut to \<open>CF_BUFSIZE - 1\<close> bytes.\<close>

definition MarkPromiseHandleDone :: "EvalContext \<Rightarrow> Promise \<Rightarrow> string option \<Rightarrow> EvalContext" where
  "MarkPromiseHandleDone ctx pp handle =
     (case handle of
        None \<Rightarrow> ctx
      | Some hn \<Rightarrow> ctx\<lparr>dependency_handles := StringSetAdd (dependency_handles ctx)
          (take (CF_BUFSIZE - 1) (promise_ns pp @ '':'' @ hn))\<rparr>)"

definition MissingDependencies :: "EvalContext \<Rightarrow> Promise option \<Rightarrow> string list \<Rightarrow> bool" where
  "MissingDependencies ctx pp deps =
     (case pp of
        None \<Rightarrow> False
      | Some p \<Rightarrow>
          find_index (\<lambda>item.
            (let d = (if strchr item (CHR '':'') \<noteq> None then item
                      else take (CF_BUFSIZE - 1) (promise_ns p @ '':'' @ item))
             in \<not> StringSetContains (dependency_handles ctx) d)) deps \<noteq> None)"

section \<open>Persistent classes\<close>

text \<open>
  \<open>time_t\<close> is an integer; the time of expiry is an unsigned number of 32 bits, to which the
  sum is cut, and the comparisons read it back as a \<open>time_t\<close>.
\<close>

datatype ContextStatePolicy = CONTEXT_STATE_POLICY_RESET | CONTEXT_STATE_POLICY_PRESERVE

record CfState =
  expires :: "32 word"
  policy :: ContextStatePolicy

type_synonym StateDB = "CfState DB"

definition EvalContextHeapPersistentSave ::
  "int \<Rightarrow> StateDB \<Rightarrow> string \<Rightarrow> string \<Rightarrow> 32 word \<Rightarrow> ContextStatePolicy \<Rightarrow> StateDB"
where
  "EvalContextHeapPersistentSave now db context ns ttl_minutes pol =
     (let nm = take (CF_BUFSIZE - 1) (ns @ '':'' @ context);
          preserved = (case map_of db nm of
                         Some st \<Rightarrow> policy st = CONTEXT_STATE_POLICY_PRESERVE \<and> now < uint (expires st)
                       | None \<Rightarrow> False)
      in if preserved then db
         else WriteDB db nm \<lparr>expires = word_of_int now + ttl_minutes * 60, policy = pol\<rparr>)"

definition EvalContextHeapPersistentRemove :: "StateDB \<Rightarrow> string \<Rightarrow> StateDB" where
  "EvalContextHeapPersistentRemove db context = DeleteDB db context"

text \<open>\<open>sscanf(key, "%[^:]:%[^\<newline>]", ns, name)\<close> with empty buffers to start from.\<close>

definition scan_state_key :: "string \<Rightarrow> string \<times> string" where
  "scan_state_key key =
     (let ns = takeWhile (\<lambda>c. c \<noteq> CHR '':'') key in
      if ns = [] then ([], [])
      else (ns, takeWhile (\<lambda>c. c \<noteq> CHR 0x0A) (drop (length ns + 1) key)))"

definition load_class ::
  "(string \<Rightarrow> string \<Rightarrow> bool) \<Rightarrow> EvalContext \<Rightarrow> string \<Rightarrow> EvalContext outcome"
where
  "load_class matches ctx key =
     (if strchr key (CHR '':'') \<noteq> None then
        (let (ns, nm) = scan_state_key key in
         if CF_MAXVARSIZE \<le> length ns \<or> CF_MAXVARSIZE \<le> length nm then Fault
         else EvalContextHeapAddSoft matches ctx nm (Some ns))
      else EvalContextHeapAddSoft matches ctx key None)"

fun load_all ::
  "(string \<Rightarrow> string \<Rightarrow> bool) \<Rightarrow> int \<Rightarrow> EvalContext \<Rightarrow> StateDB \<Rightarrow> (EvalContext \<times> StateDB) outcome"
where
  "load_all matches now ctx [] = Done (ctx, [])"
| "load_all matches now ctx ((key, q) # db) =
     (if now > uint (expires q) then load_all matches now ctx db
      else
        (case load_class matches ctx key of
           Done ctx1 \<Rightarrow>
             (case load_all matches now ctx1 db of
                Done (ctx2, db2) \<Rightarrow> Done (ctx2, (key, q) # db2)
              | Fault \<Rightarrow> Fault
              | Exit1 \<Rightarrow> Exit1)
         | Fault \<Rightarrow> Fault
         | Exit1 \<Rightarrow> Exit1))"

definition EvalContextHeapPersistentLoadAll ::
  "(string \<Rightarrow> string \<Rightarrow> bool) \<Rightarrow> bool \<Rightarrow> int \<Rightarrow> EvalContext \<Rightarrow> StateDB \<Rightarrow> (EvalContext \<times> StateDB) outcome"
where
  "EvalContextHeapPersistentLoadAll matches LOOKUP now ctx db =
     (if LOOKUP then Done (ctx, db) else load_all matches now ctx db)"

section \<open>The classes a promise defines when it is kept, repaired or not\<close>

text \<open>\<open>CanonifyName\<close> copies into a static buffer, which a text of its size leaves without a terminator (\<open>None\<close>).\<close>

definition CanonifyName :: "string \<Rightarrow> string option" where
  "CanonifyName str = (if length str < CF_BUFSIZE then Some (CanonifyNameInPlace str) else None)"

fun AddAllClasses ::
  "(string \<Rightarrow> string \<Rightarrow> bool) \<Rightarrow> int \<Rightarrow> string \<Rightarrow> bool \<Rightarrow> ContextStatePolicy \<Rightarrow> ContextScope \<Rightarrow>
   string list \<Rightarrow> EvalContext \<times> StateDB \<Rightarrow> (EvalContext \<times> StateDB) outcome"
where
  "AddAllClasses matches now ns persist pol scope [] s = Done s"
| "AddAllClasses matches now ns persist pol scope (item # rest) (ctx, db) =
     (let classname = CanonifyNameInPlace item in
      if persist then
        (case CanonifyName item of
           None \<Rightarrow> Fault
         | Some c \<Rightarrow>
             (let db1 = EvalContextHeapPersistentSave now db c ns (of_bool persist) pol in
              case EvalContextHeapAddSoft matches ctx classname (Some ns) of
                Done ctx1 \<Rightarrow> AddAllClasses matches now ns persist pol scope rest (ctx1, db1)
              | Fault \<Rightarrow> Fault
              | Exit1 \<Rightarrow> Exit1))
      else
        (case (if scope = CONTEXT_SCOPE_BUNDLE then EvalContextStackFrameAddSoft matches ctx classname
               else EvalContextHeapAddSoft matches ctx classname (Some ns)) of
           Done ctx1 \<Rightarrow> AddAllClasses matches now ns persist pol scope rest (ctx1, db)
         | Fault \<Rightarrow> Fault
         | Exit1 \<Rightarrow> Exit1))"

definition CF_IDRANGE :: string where
  "CF_IDRANGE = ''[a-zA-Z0-9_$(){}'' @ [CHR 0x5C, CHR ''['', CHR 0x5C, CHR '']''] @ ''.:]+''"

fun DeleteAllClasses ::
  "(string \<Rightarrow> string \<Rightarrow> bool) \<Rightarrow> string list \<Rightarrow> EvalContext \<times> StateDB \<Rightarrow> (EvalContext \<times> StateDB) outcome"
where
  "DeleteAllClasses matches [] s = Done s"
| "DeleteAllClasses matches (item # rest) (ctx, db) =
     (if \<not> matches CF_IDRANGE item then Done (ctx, db)
      else
        (case CanonifyName item of
           None \<Rightarrow> Fault
         | Some c \<Rightarrow>
             (let db1 = EvalContextHeapPersistentRemove db item;
                  ctx1 = snd (EvalContextHeapRemoveSoft ctx c)
              in case EvalContextStackFrameAddNegated ctx1 c of
                   Done ctx2 \<Rightarrow> DeleteAllClasses matches rest (ctx2, db1)
                 | Fault \<Rightarrow> Fault
                 | Exit1 \<Rightarrow> Exit1)))"

datatype PromiseResult = PROMISE_RESULT_NOOP | PROMISE_RESULT_CHANGE | PROMISE_RESULT_WARN
  | PROMISE_RESULT_FAIL | PROMISE_RESULT_DENIED | PROMISE_RESULT_TIMEOUT | PROMISE_RESULT_INTERRUPTED

record DefineClasses =
  dc_scope :: ContextScope
  dc_change :: "string list"
  dc_failure :: "string list"
  dc_denied :: "string list"
  dc_timeout :: "string list"
  dc_kept :: "string list"
  dc_interrupt :: "string list"
  dc_persist :: int
  dc_timer :: ContextStatePolicy
  dc_del_change :: "string list"
  dc_del_kept :: "string list"
  dc_del_notkept :: "string list"

fun outcome_classes :: "PromiseResult \<Rightarrow> DefineClasses \<Rightarrow> string list \<times> string list" where
  "outcome_classes PROMISE_RESULT_CHANGE dc = (dc_change dc, dc_del_change dc)"
| "outcome_classes PROMISE_RESULT_TIMEOUT dc = (dc_timeout dc, dc_del_notkept dc)"
| "outcome_classes PROMISE_RESULT_WARN dc = (dc_failure dc, dc_del_notkept dc)"
| "outcome_classes PROMISE_RESULT_FAIL dc = (dc_failure dc, dc_del_notkept dc)"
| "outcome_classes PROMISE_RESULT_DENIED dc = (dc_denied dc, dc_del_notkept dc)"
| "outcome_classes PROMISE_RESULT_INTERRUPTED dc = (dc_interrupt dc, dc_del_notkept dc)"
| "outcome_classes PROMISE_RESULT_NOOP dc = (dc_kept dc, dc_del_kept dc)"

definition SetPromiseOutcomeClasses ::
  "(string \<Rightarrow> string \<Rightarrow> bool) \<Rightarrow> int \<Rightarrow> PromiseResult \<Rightarrow> Promise \<Rightarrow> DefineClasses \<Rightarrow>
   EvalContext \<times> StateDB \<Rightarrow> (EvalContext \<times> StateDB) outcome"
where
  "SetPromiseOutcomeClasses matches now status pp dc s =
     (let (add_classes, del_classes) = outcome_classes status dc in
      case AddAllClasses matches now (promise_ns pp) (dc_persist dc \<noteq> 0) (dc_timer dc) (dc_scope dc) add_classes s of
        Done s1 \<Rightarrow> DeleteAllClasses matches del_classes s1
      | Fault \<Rightarrow> Fault
      | Exit1 \<Rightarrow> Exit1)"

definition NotifyDependantPromises :: "PromiseResult \<Rightarrow> EvalContext \<Rightarrow> Promise \<Rightarrow> string option \<Rightarrow> EvalContext" where
  "NotifyDependantPromises status ctx pp handle =
     (if status = PROMISE_RESULT_CHANGE \<or> status = PROMISE_RESULT_NOOP
      then MarkPromiseHandleDone ctx pp handle else ctx)"

end
