(* ===== verification/Variables.thy ===== *)
theory Variables
  imports Eval_Context Var_Expr
begin

text \<open>
  Variables in the evaluation context: \<open>EvalContextVariablePut\<close> and \<open>EvalContextVariableGet\<close> of
  \<open>libpromises/env_context.c\<close>, and what \<open>libpromises/scope.c\<close> builds on them. A variable is named by a
  \<open>VarRef\<close> and lives in the table of a scope. \<open>None\<close> is a failed assertion, a \<open>NULL\<close> or a value read
  as one of another type. The program is not \<open>cf-promises\<close>, for which the code also looks for lists
  in the new value.
\<close>

fun lists_itself :: "Rval list \<Rightarrow> string \<Rightarrow> bool option" where
  "lists_itself [] lv = Some False"
| "lists_itself (r # rs) lv =
     (case r of
        Scalar s \<Rightarrow> if StringContainsVar (Some s) lv then Some True else lists_itself rs lv
      | _ \<Rightarrow> None)"

definition contains_itself :: "Rval \<Rightarrow> string \<Rightarrow> bool option" where
  "contains_itself rv lv =
     (case rv of
        Scalar s \<Rightarrow> Some (StringContainsVar (Some s) lv)
      | ListVal l \<Rightarrow> lists_itself l lv
      | _ \<Rightarrow> Some False)"

text \<open>The assertions on the frame: \<open>this\<close> and \<open>body\<close> are unqualified and belong to the last frame.\<close>

definition is_body_frame :: "StackFrame \<Rightarrow> bool" where
  "is_body_frame f = (case data f of BodyFrame _ \<Rightarrow> True | _ \<Rightarrow> False)"

definition frame_allows :: "EvalContext \<Rightarrow> string option \<Rightarrow> string \<Rightarrow> bool" where
  "frame_allows ctx nsp sc =
     (if strcmp ''this'' sc = 0 then
        nsp = None \<and> (case frame_at ctx (LastStackFrame ctx 0) of
                        Some f \<Rightarrow> is_iteration_frame f | None \<Rightarrow> False)
      else if strcmp ''body'' sc = 0 then
        nsp = None \<and> (case frame_at ctx (LastStackFrame ctx 0) of
                        Some f \<Rightarrow> is_body_frame f | None \<Rightarrow> False)
      else True)"

definition EvalContextVariablePut ::
  "EvalContext \<Rightarrow> VarRef \<Rightarrow> Rval \<Rightarrow> DataType \<Rightarrow> Scopes \<Rightarrow> (bool \<times> Scopes) option"
where
  "EvalContextVariablePut ctx ref rv dt st =
     (if dt = DATA_TYPE_NONE then None
      else if null_item rv then Some (False, st)
      else if CF_MAXVARSIZE < length (vlval ref) then Some (False, st)
      else do {
        sc \<leftarrow> scope ref;
        recursive \<leftarrow> (if strcmp sc ''body'' \<noteq> 0 then contains_itself rv (vlval ref) else Some False);
        (if recursive then Some (False, st)
         else if \<not> frame_allows ctx (ns ref) sc then None
         else do {
           found \<leftarrow> ScopeGet (ns ref) (Some sc) st;
           (p, st1) \<leftarrow> (case found of Some a \<Rightarrow> Some (Some a, st) | None \<Rightarrow> ScopeNew (ns ref) sc st);
           (case p of
              None \<Rightarrow> Some (False, st1)
            | Some a \<Rightarrow> do {
                s \<leftarrow> scope_at st1 a;
                t \<leftarrow> store_value (sc_table s) (VarRefToString ref False) rv dt;
                Some (True, put_scope st1 a (s\<lparr>sc_table := t\<rparr>))
              })
         })
      })"

text \<open>The scope that is searched, \<open>Some None\<close> for none.\<close>

definition lookup_scope :: "EvalContext \<Rightarrow> VarRef \<Rightarrow> Scopes \<Rightarrow> nat option option" where
  "lookup_scope ctx ref st =
     (if VarRefIsQualified ref then ScopeGet (ns ref) (scope ref) st
      else do {
        last_frame \<leftarrow> frame_at ctx (LastStackFrame ctx 0);
        (case data last_frame of
           BodyFrame _ \<Rightarrow> ScopeGet None (Some ''body'') st
         | BundleFrame b _ _ \<Rightarrow> ScopeGet (Some (bundle_ns b)) (Some (bundle_name b)) st
         | PromiseFrame _ \<Rightarrow> ScopeGet None (Some ''this'') st
         | PromiseIterationFrame _ \<Rightarrow> ScopeGet None (Some ''this'') st)
      })"

text \<open>The result, \<open>rval_out\<close> and \<open>type_out\<close>; \<open>typed\<close> tells whether the caller asks for the type.\<close>

definition EvalContextVariableGet ::
  "EvalContext \<Rightarrow> VarRef \<Rightarrow> bool \<Rightarrow> Scopes \<Rightarrow> (bool \<times> Rval \<times> DataType) option"
where
  "EvalContextVariableGet ctx ref typed st =
     do {
       get_scope \<leftarrow> lookup_scope ctx ref st;
       (case get_scope of
          None \<Rightarrow> Some (False, Scalar (vlval ref), DATA_TYPE_NONE)
        | Some a \<Rightarrow>
            if IsQualifiedVariable (vlval ref) then None
            else do {
              s \<leftarrow> scope_at st a;
              (case HashLookupElement (sc_table s) (VarRefToString ref False) of
                 None \<Rightarrow> Some (False, Scalar (vlval ref), DATA_TYPE_NONE)
               | Some assoc \<Rightarrow>
                   if typed \<and> dtype assoc = DATA_TYPE_NONE then None
                   else Some (True, rval assoc, dtype assoc))
            })
     }"

text \<open>\<open>ScopeNewSpecial\<close> and \<open>JoinScopeName\<close> of \<open>scope.c\<close>; \<open>rv\<close> has the type that \<open>dt\<close> stands for.\<close>

definition ScopeNewSpecial ::
  "EvalContext \<Rightarrow> SpecialScope \<Rightarrow> string \<Rightarrow> Rval \<Rightarrow> DataType \<Rightarrow> Scopes \<Rightarrow> Scopes option"
where
  "ScopeNewSpecial ctx sp lv rv dt st =
     do {
       ref \<leftarrow> VarRefParseFromScope lv (Some (SpecialScopeToString sp));
       (found, _, _) \<leftarrow> EvalContextVariableGet ctx ref False st;
       st1 \<leftarrow> (if found then ScopeDeleteSpecial sp lv st else Some st);
       (_, st2) \<leftarrow> EvalContextVariablePut ctx ref rv dt st1;
       Some st2
     }"

definition JoinScopeName :: "string option \<Rightarrow> string \<Rightarrow> string" where
  "JoinScopeName nsp bundle =
     (case nsp of
        Some n \<Rightarrow> take (CF_MAXVARSIZE - 1) (n @ [CF_NS] @ bundle)
      | None \<Rightarrow> take (CF_MAXVARSIZE - 1) bundle)"

section \<open>The variables as a map\<close>

text \<open>What a name of a scope stands for.\<close>

definition variable_at :: "Scopes \<Rightarrow> string \<Rightarrow> string \<Rightarrow> string \<Rightarrow> (Rval, DataType) CfAssoc option" where
  "variable_at st n sc k =
     (case List.find (is_scope st n sc) (VSCOPE st) of
        None \<Rightarrow> None
      | Some a \<Rightarrow> (case scope_at st a of None \<Rightarrow> None | Some s \<Rightarrow> HashLookupElement (sc_table s) k))"

lemma find_is_scope:
  "List.find (is_scope st n sc) l = Some a \<Longrightarrow>
   a \<in> set l \<and> (\<exists>s. scope_at st a = Some s \<and> sc_ns s = n \<and> sc_scope s = sc)"
  by (metis find_Some_iff is_scope_def nth_mem)

lemma VariableGet_eq:
  assumes "wf_scopes st" "scope ref = Some sc" "sc \<noteq> ''match''" "\<not> IsQualifiedVariable (vlval ref)"
  shows "EvalContextVariableGet ctx ref False st =
    Some (case variable_at st (ns_or_default (ns ref)) sc (VarRefToString ref False) of
            None \<Rightarrow> (False, Scalar (vlval ref), DATA_TYPE_NONE)
          | Some assoc \<Rightarrow> (True, rval assoc, dtype assoc))"
proof (cases "List.find (is_scope st (ns_or_default (ns ref)) sc) (VSCOPE st)")
  case None
  then show ?thesis
    using assms by (simp add: EvalContextVariableGet_def lookup_scope_def VarRefIsQualified_def
        ScopeGet_eq variable_at_def)
next
  case (Some a)
  then obtain s where "scope_at st a = Some s" using find_is_scope by blast
  with Some show ?thesis
    using assms by (auto simp: EvalContextVariableGet_def lookup_scope_def VarRefIsQualified_def
        ScopeGet_eq variable_at_def split: option.split)
qed

lemma variable_at_put:
  assumes a: "List.find (is_scope st n sc) (VSCOPE st) = Some a" and s: "scope_at st a = Some s"
  shows "variable_at (put_scope st a (s\<lparr>sc_table := t\<rparr>)) n' sc' k =
    (if n' = n \<and> sc' = sc then HashLookupElement t k else variable_at st n' sc' k)"
proof -
  let ?st = "put_scope st a (s\<lparr>sc_table := t\<rparr>)"
  have names: "sc_ns s = n" "sc_scope s = sc" using find_is_scope [OF a] s by auto
  have is_sc: "is_scope ?st n' sc' = is_scope st n' sc'" for n' sc'
    using s by (simp add: fun_eq_iff is_scope_put) (simp add: is_scope_def)
  have l: "VSCOPE ?st = VSCOPE st" by (simp add: put_scope_def)
  show ?thesis
  proof (cases "n' = n \<and> sc' = sc")
    case True
    with a show ?thesis by (simp add: variable_at_def is_sc l) (simp add: put_scope_def)
  next
    case False
    then have "List.find (is_scope st n' sc') (VSCOPE st) \<noteq> Some a"
      using find_is_scope names s by fastforce
    then show ?thesis
      using False unfolding variable_at_def is_sc l
      by (auto simp: put_scope_def split: option.split)
  qed
qed

lemma wf_scopes_put: "wf_scopes st \<Longrightarrow> scope_at st a \<noteq> None \<Longrightarrow> wf_scopes (put_scope st a s)"
  by (auto simp: wf_scopes_def put_scope_def)

text \<open>A scope that is made when it is missing changes no variable.\<close>

lemma get_or_new:
  assumes wf: "wf_scopes st" and sc: "sc \<noteq> ''match''"
  obtains a st1 where
    "(case List.find (is_scope st (ns_or_default nsp) sc) (VSCOPE st) of
        Some a \<Rightarrow> Some (Some a, st) | None \<Rightarrow> ScopeNew nsp sc st) = Some (Some a, st1)"
    "wf_scopes st1" "List.find (is_scope st1 (ns_or_default nsp) sc) (VSCOPE st1) = Some a"
    "variable_at st1 = variable_at st"
    "a \<noteq> scope_brk st \<Longrightarrow> scope_at st1 a = scope_at st a"
    "a = scope_brk st \<Longrightarrow> map_option sc_table (scope_at st1 a) = Some HashInit"
proof (cases "List.find (is_scope st (ns_or_default nsp) sc) (VSCOPE st)")
  case (Some a)
  then have "a \<noteq> scope_brk st" using find_is_scope fresh_brk [OF wf] by fastforce
  with Some wf show ?thesis using that [of a st] by auto
next
  case None
  let ?b = "scope_brk st"
  let ?s = "\<lparr>sc_ns = ns_or_default nsp, sc_scope = sc, sc_table = HashInit :: VariableTable\<rparr>"
  let ?st = "st\<lparr>VSCOPE := ?b # VSCOPE st, scope_at := (scope_at st)(?b \<mapsto> ?s), scope_brk := Suc ?b\<rparr>"
  have fresh: "scope_at st ?b = None" "?b \<notin> set (VSCOPE st)" using fresh_brk [OF wf] by auto
  have new: "ScopeNew nsp sc st = Some (Some ?b, ?st)"
    using wf None by (simp add: ScopeNew_def find_scope_eq wf_scopes_def Let_def)
  have wf': "wf_scopes ?st"
    using wf fresh by (auto simp: wf_scopes_def less_Suc_eq)
  have found: "List.find (is_scope ?st (ns_or_default nsp) sc) (VSCOPE ?st) = Some ?b"
    by (simp add: is_scope_def)
  have old: "is_scope ?st n m a \<longleftrightarrow> is_scope st n m a" if "a \<in> set (VSCOPE st)" for n m a
    using that fresh(2) by (auto simp: is_scope_def)
  then have old_find: "List.find (is_scope ?st n m) (VSCOPE st) = List.find (is_scope st n m) (VSCOPE st)" for n m
    by (intro find_cong) auto
  have "variable_at ?st n m k = variable_at st n m k" for n m k
  proof (cases "n = ns_or_default nsp \<and> m = sc")
    case True
    with None show ?thesis by (simp add: variable_at_def is_scope_def HashInit_lookup)
  next
    case False
    then have "\<not> is_scope ?st n m ?b" by (auto simp: is_scope_def)
    then have f: "List.find (is_scope ?st n m) (VSCOPE ?st) = List.find (is_scope st n m) (VSCOPE st)"
      using old_find [of n m] by simp
    have "List.find (is_scope st n m) (VSCOPE st) \<noteq> Some ?b" using find_is_scope fresh by fastforce
    then show ?thesis unfolding variable_at_def f by (auto split: option.split)
  qed
  then have "variable_at ?st = variable_at st" by (simp add: fun_eq_iff)
  with new wf' found None show ?thesis using that [of ?b ?st] by simp
qed




text \<open>A list that is put over a string is taken for the same value, and dropped, when no element is that string.\<close>

lemma list_over_string_is_dropped:
  assumes "HashLookupElement t k = Some as" "rval as = Scalar s" "l \<noteq> []" "\<forall>r \<in> set l. \<exists>u. r = Scalar u \<and> u \<noteq> s"
  shows "store_value t k (ListVal l) dt = Some t"
proof -
  have "compare_elements l (Scalar s) = Some 0"
    using assms(4) by (induction l) (auto simp: null_item_def)
  with assms(1-3) show ?thesis by (simp add: store_value_def null_item_def)
qed

end
