(* ===== verification/Expand.thy ===== *)
theory Expand
  imports Variables
begin

text \<open>
  Expansion of references, \<open>libpromises/expand.c\<close> and \<open>ExpandFnCall\<close> of \<open>libpromises/fncall.c\<close>. A string is
  scanned for \<open>$(...)\<close> and \<open>${...}\<close>; the name inside is expanded first when it has references itself, then
  looked up and replaced by its value, or left as it is. \<open>FatalError\<close> ends the program (\<open>Exit1\<close>).
\<close>

definition CF_EXPANDSIZE :: nat where
  "CF_EXPANDSIZE = 8192"

definition CF_BUFFERMARGIN :: nat where
  "CF_BUFFERMARGIN = 128"

text \<open>\<open>StringNotMatchingSetCapped\<close> of \<open>string_lib.c\<close> for one character, and \<open>strlcat\<close>.\<close>

definition StringNotMatchingSetCapped :: "string \<Rightarrow> nat \<Rightarrow> char \<Rightarrow> string" where
  "StringNotMatchingSetCapped isp limit exclude =
     (let l = length (takeWhile (\<lambda>c. c \<noteq> exclude) isp) in
      if l < limit - 1 then take l isp else take (limit - 1) isp)"

definition strlcat :: "string \<Rightarrow> string \<Rightarrow> nat \<Rightarrow> string" where
  "strlcat dst src n = (if n \<le> length dst then dst else take (n - 1) (dst @ src))"

definition ExpandOverflow :: "string \<Rightarrow> string \<Rightarrow> bool" where
  "ExpandOverflow str1 str2 \<longleftrightarrow> CF_EXPANDSIZE - CF_BUFFERMARGIN < length str1 + length str2"

text \<open>A reference as it is written.\<close>

definition reference :: "char \<Rightarrow> string \<Rightarrow> string" where
  "reference b nm = [CHR ''$'', b] @ nm @ [closer_of b]"

text \<open>
  The end of a round of the loop: \<open>b\<close> is the bracket, \<open>found\<close>, \<open>rv\<close> and \<open>ty\<close> the answer of
  \<open>EvalContextVariableGet\<close>. The result is the buffer and \<open>returnval\<close>, or, for a type that cannot be
  expanded, the end of the function (\<open>True\<close>).
\<close>

definition insert_value ::
  "char \<Rightarrow> string \<Rightarrow> bool \<times> Rval \<times> DataType \<Rightarrow> string \<Rightarrow> bool \<Rightarrow> (bool \<times> string \<times> bool) outcome"
where
  "insert_value b currentitem answer buffer returnval =
     (case answer of (found, rv, ty) \<Rightarrow>
        let unknown = Done (False, strlcat buffer (take (CF_MAXVARSIZE - 1) (reference b currentitem)) CF_EXPANDSIZE, False) in
        if \<not> found then unknown
        else if ty \<in> {DATA_TYPE_STRING, DATA_TYPE_INT, DATA_TYPE_REAL} then
          (case rv of
             Scalar v \<Rightarrow>
               if ExpandOverflow buffer v then Exit1
               else Done (False, strlcat buffer v CF_EXPANDSIZE, returnval)
           | _ \<Rightarrow> Fault)
        else if ty \<in> {DATA_TYPE_STRING_LIST, DATA_TYPE_INT_LIST, DATA_TYPE_REAL_LIST, DATA_TYPE_NONE} then unknown
        else Done (True, buffer, False))"

lemma inner_loop_length: "inner_loop str i cs b = Some (e, t) \<Longrightarrow> length t \<le> length str - 2"
  by (induction cs arbitrary: i b) (auto simp: Let_def split: if_splits)

lemma ExtractInner_length:
  "ExtractInnerCf3VarString (Some s) [] = Some (e, t) \<Longrightarrow> s \<noteq> [] \<Longrightarrow> length t < length s"
  by (cases s) (auto simp: ExtractInnerCf3VarString_def split: if_splits dest!: inner_loop_length)

text \<open>
  The loop of \<open>ExpandScalar\<close> at \<open>sp\<close>. \<open>get\<close> is the lookup of a name. After the copy of the plain text \<open>sp\<close>
  stands at a dollar sign, because a text cut by its limit overflows. The inner name is shorter than
  \<open>CF_BUFSIZE - 1\<close>, as the outer extraction fits its buffer.
\<close>

function expand_loop ::
  "(string \<Rightarrow> (bool \<times> Rval \<times> DataType) option) \<Rightarrow> string \<Rightarrow> string \<Rightarrow> bool \<Rightarrow> (bool \<times> string) outcome"
where
  "expand_loop get sp buffer returnval =
     (if sp = [] then Done (returnval, buffer)
      else
        let currentitem = StringNotMatchingSetCapped sp CF_EXPANDSIZE (CHR ''$'');
            sp1 = drop (length currentitem) sp;
            buffer1 = strlcat buffer currentitem CF_EXPANDSIZE
        in
        if ExpandOverflow buffer currentitem then Exit1
        else if sp1 = [] then Done (returnval, buffer1)
        else if \<not> opens (tl sp1) then expand_loop get (tl sp1) (strlcat buffer1 ''$'' CF_EXPANDSIZE) returnval
        else
          (case ExtractOuterCf3VarString sp1 of
             None \<Rightarrow> Fault
           | Some (_, var) \<Rightarrow>
               if var = [] then expand_loop get (tl sp1) (strlcat buffer1 ''$'' CF_EXPANDSIZE) returnval
               else
                 (case ExtractInnerCf3VarString (Some sp1) [] of
                    None \<Rightarrow> Fault
                  | Some (_, temp) \<Rightarrow>
                      (case (if IsCf3VarString (Some temp) then expand_loop get temp [] True else Done (True, temp)) of
                         Fault \<Rightarrow> Fault
                       | Exit1 \<Rightarrow> Exit1
                       | Done (_, item) \<Rightarrow>
                           if IsExpandable item then expand_loop get (drop (length var) sp1) buffer1 returnval
                           else
                             (case get item of
                                None \<Rightarrow> Fault
                              | Some answer \<Rightarrow>
                                  (case insert_value (sp1 ! 1) item answer buffer1 returnval of
                                     Fault \<Rightarrow> Fault
                                   | Exit1 \<Rightarrow> Exit1
                                   | Done (stop, buffer2, returnval2) \<Rightarrow>
                                       if stop then Done (returnval2, buffer2)
                                       else expand_loop get (drop (length var) sp1) buffer2 returnval2))))))"
  by pat_completeness auto

termination
proof (relation "measure (\<lambda>(get, sp, buffer, returnval). length sp)", goal_cases)
  case 1
  show ?case by simp
qed (auto simp: Let_def dest: ExtractInner_length)

declare expand_loop.simps [simp del]

definition lookup_name ::
  "EvalContext \<Rightarrow> string option \<Rightarrow> string option \<Rightarrow> Scopes \<Rightarrow> string \<Rightarrow> (bool \<times> Rval \<times> DataType) option"
where
  "lookup_name ctx nsp sc st nm =
     do {
       ref \<leftarrow> VarRefParseFromNamespaceAndScope nm nsp sc CF_NS (CHR ''.'');
       EvalContextVariableGet ctx ref True st
     }"

definition ExpandScalar ::
  "EvalContext \<Rightarrow> string option \<Rightarrow> string option \<Rightarrow> Scopes \<Rightarrow> string \<Rightarrow> (bool \<times> string) outcome"
where
  "ExpandScalar ctx nsp sc st str =
     (if str = [] then Done (False, []) else expand_loop (lookup_name ctx nsp sc st) str [] True)"


section \<open>Values\<close>

text \<open>
  \<open>ExpandPrivateRval\<close>, \<open>ExpandList\<close> and \<open>ExpandFnCall\<close>. A naked reference to a list is replaced by the
  value of the variable, expanded again; lists that refer to each other never end, so the functions
  take a bound on the depth of the nesting, and \<open>None\<close> is that it was not enough.
\<close>

definition naked_value ::
  "EvalContext \<Rightarrow> string option \<Rightarrow> Scopes \<Rightarrow> string \<Rightarrow> Rval \<Rightarrow> Rval outcome"
where
  "naked_value ctx sc st s r =
     (case GetNaked s of
        None \<Rightarrow> Fault
      | Some naked \<Rightarrow>
          if IsExpandable naked then Done r
          else
            (case VarRefParseFromScope naked sc of
               None \<Rightarrow> Fault
             | Some ref \<Rightarrow>
                 (case EvalContextVariableGet ctx ref False st of
                    None \<Rightarrow> Fault
                  | Some (found, rv, _) \<Rightarrow> Done (if found then rv else r))))"

function (sequential)
  ExpandPrivateRval :: "nat \<Rightarrow> EvalContext \<Rightarrow> string option \<Rightarrow> string option \<Rightarrow> Scopes \<Rightarrow> Rval \<Rightarrow> Rval outcome option" and
  ExpandList :: "nat \<Rightarrow> EvalContext \<Rightarrow> string option \<Rightarrow> string option \<Rightarrow> Scopes \<Rightarrow> Rval list \<Rightarrow> bool \<Rightarrow> Rval list outcome option"
where
  "ExpandPrivateRval 0 ctx nsp sc st r = None"
| "ExpandPrivateRval (Suc d) ctx nsp sc st (Scalar s) =
     Some (case ExpandScalar ctx nsp sc st s of
             Fault \<Rightarrow> Fault | Exit1 \<Rightarrow> Exit1 | Done (_, buffer) \<Rightarrow> Done (Scalar buffer))"
| "ExpandPrivateRval (Suc d) ctx nsp sc st (ListVal l) =
     map_option (\<lambda>res. case res of Fault \<Rightarrow> Fault | Exit1 \<Rightarrow> Exit1 | Done l' \<Rightarrow> Done (ListVal l'))
       (ExpandList d ctx nsp sc st l True)"
| "ExpandPrivateRval (Suc d) ctx nsp sc st (FnCall f args) =
     map_option (\<lambda>res. case res of Fault \<Rightarrow> Fault | Exit1 \<Rightarrow> Exit1 | Done l' \<Rightarrow> Done (FnCall f l'))
       (ExpandList d ctx nsp sc st args False)"
| "ExpandPrivateRval (Suc d) ctx nsp sc st NoPromisee = Some (Done NoPromisee)"
| "ExpandList d ctx nsp sc st [] expandnaked = Some (Done [])"
| "ExpandList d ctx nsp sc st (r # rs) expandnaked =
     (case (case r of
              Scalar s \<Rightarrow>
                if IsNakedVar (Some s) (CHR ''@'') then
                  (if \<not> expandnaked then Some (Done r)
                   else
                     (case naked_value ctx sc st s r of
                        Fault \<Rightarrow> Some Fault
                      | Exit1 \<Rightarrow> Some Exit1
                      | Done v \<Rightarrow> ExpandPrivateRval d ctx nsp sc st v))
                else ExpandPrivateRval d ctx nsp sc st r
            | _ \<Rightarrow> ExpandPrivateRval d ctx nsp sc st r) of
        None \<Rightarrow> None
      | Some Fault \<Rightarrow> Some Fault
      | Some Exit1 \<Rightarrow> Some Exit1
      | Some (Done v) \<Rightarrow>
          map_option (\<lambda>res. case res of Fault \<Rightarrow> Fault | Exit1 \<Rightarrow> Exit1 | Done rest \<Rightarrow> Done (RlistAppend [] v @ rest))
            (ExpandList d ctx nsp sc st rs expandnaked))"
  by pat_completeness auto

termination
  by (relation "measures [\<lambda>x. case x of Inl (d, _) \<Rightarrow> 2 * d | Inr (d, _) \<Rightarrow> 2 * d + 1,
      \<lambda>x. case x of Inl _ \<Rightarrow> 0 | Inr (d, ctx, nsp, sc, st, l, b) \<Rightarrow> length l]") auto

definition ExpandFnCall ::
  "nat \<Rightarrow> EvalContext \<Rightarrow> string option \<Rightarrow> string option \<Rightarrow> Scopes \<Rightarrow> string \<Rightarrow> Rval list \<Rightarrow> Rval outcome option"
where
  "ExpandFnCall d ctx nsp sc st f args =
     map_option (\<lambda>res. case res of Fault \<Rightarrow> Fault | Exit1 \<Rightarrow> Exit1 | Done l' \<Rightarrow> Done (FnCall f l'))
       (ExpandList d ctx nsp sc st args False)"

definition ExpandBundleReference ::
  "nat \<Rightarrow> EvalContext \<Rightarrow> string option \<Rightarrow> string option \<Rightarrow> Scopes \<Rightarrow> Rval \<Rightarrow> Rval outcome option"
where
  "ExpandBundleReference d ctx nsp sc st r =
     (case r of
        Scalar s \<Rightarrow>
          Some (case ExpandScalar ctx nsp sc st s of
                  Fault \<Rightarrow> Fault | Exit1 \<Rightarrow> Exit1 | Done (_, buffer) \<Rightarrow> Done (Scalar buffer))
      | FnCall f args \<Rightarrow> ExpandFnCall d ctx nsp sc st f args
      | _ \<Rightarrow> Some (Done NoPromisee))"

section \<open>Templates\<close>

text \<open>
  What a string with references means: plain text and references whose names are templates again.
  The bracket is \<open>(\<close> or \<open>{\<close>.
\<close>

datatype piece = Lit string | Ref char "piece list"

fun show_piece :: "piece \<Rightarrow> string" where
  "show_piece (Lit s) = s"
| "show_piece (Ref b ps) = reference b (concat (map show_piece ps))"

abbreviation show_pieces :: "piece list \<Rightarrow> string" where
  "show_pieces ps \<equiv> concat (map show_piece ps)"

text \<open>The value of a name, if it is that of a scalar variable.\<close>

definition scalar_answer :: "bool \<times> Rval \<times> DataType \<Rightarrow> string option" where
  "scalar_answer answer =
     (case answer of
        (True, Scalar v, ty) \<Rightarrow>
          if ty \<in> {DATA_TYPE_STRING, DATA_TYPE_INT, DATA_TYPE_REAL} then Some v else None
      | _ \<Rightarrow> None)"

text \<open>
  The meaning of a template and whether every reference was replaced. A name that still has a
  reference in it after its own expansion is dropped.
\<close>

function (sequential) eval_pieces :: "(string \<Rightarrow> string option) \<Rightarrow> piece list \<Rightarrow> bool \<times> string" where
  "eval_pieces val [] = (True, [])"
| "eval_pieces val (Lit s # ps) = (case eval_pieces val ps of (ok, t) \<Rightarrow> (ok, s @ t))"
| "eval_pieces val (Ref b qs # ps) =
     (case eval_pieces val ps of
        (ok, t) \<Rightarrow>
          let nm = snd (eval_pieces val qs) in
          if IsExpandable nm then (ok, t)
          else (case val nm of Some v \<Rightarrow> (ok, v @ t) | None \<Rightarrow> (False, reference b nm @ t)))"
  by pat_completeness auto

termination
  by (relation "measure (\<lambda>(val, ps). size_list size ps)") auto

text \<open>Plain text has no dollar sign; in a name it has no sigil, bracket or slash, and brackets are of one kind.\<close>

definition name_char :: "char \<Rightarrow> bool" where
  "name_char c \<longleftrightarrow> \<not> sigil c \<and> \<not> opener c \<and> \<not> closer c \<and> c \<noteq> CHR ''/''"

fun wf_name_piece :: "char \<Rightarrow> piece \<Rightarrow> bool" where
  "wf_name_piece b (Lit s) = list_all name_char s"
| "wf_name_piece b (Ref b' ps) = (b' = b \<and> list_all (wf_name_piece b) ps)"

fun wf_piece :: "piece \<Rightarrow> bool" where
  "wf_piece (Lit s) = (CHR ''$'' \<notin> set s)"
| "wf_piece (Ref b ps) = (opener b \<and> list_all (wf_name_piece b) ps)"

lemma wf_name_piece_top: "opener b \<Longrightarrow> wf_name_piece b p \<Longrightarrow> wf_piece p"
  by (cases p) (auto simp: list_all_iff name_char_def sigil_def)

section \<open>Scanning a reference\<close>

lemma closer_closer_of: "opener b \<Longrightarrow> closer (closer_of b) \<and> \<not> opener (closer_of b) \<and> closer_of b \<noteq> CHR ''$'' \<and>
   \<not> sigil (closer_of b) \<and> b \<noteq> CHR ''$'' \<and> \<not> closer b \<and> \<not> sigil b"
  by (auto simp: opener_def closer_def closer_of_def sigil_def)

lemma inner_loop_names:
  assumes "opener b" "0 < n"
  shows "list_all (wf_name_piece b) ps \<Longrightarrow>
    inner_loop str i (show_pieces ps @ cs) n = inner_loop str (i + length (show_pieces ps)) cs n"
  using assms(2)
proof (induction ps arbitrary: i n cs rule: measure_induct_rule [where f = "size_list size"])
  case (less ps)
  show ?case
  proof (cases ps)
    case (Cons p qs)
    have IHq: "inner_loop str i (show_pieces qs @ cs) n = inner_loop str (i + length (show_pieces qs)) cs n" for i
      using less.prems less.IH [of qs n i cs] Cons by simp
    show ?thesis
    proof (cases p)
      case (Lit s)
      have "list_all name_char s \<Longrightarrow> inner_loop str i (s @ cs') n = inner_loop str (i + length s) cs' n" for i cs'
        using less.prems(2) by (induction s arbitrary: i) (auto simp: name_char_def)
      with less.prems Cons Lit IHq show ?thesis by (simp add: add.assoc)
    next
      case (Ref b' rs)
      have b': "b' = b" "list_all (wf_name_piece b) rs" using less.prems(1) Cons Ref by auto
      have sz: "size_list size rs < size_list size ps" by (simp add: Cons Ref)
      have IHr: "inner_loop str i (show_pieces rs @ cs') (n + 1) = inner_loop str (i + length (show_pieces rs)) cs' (n + 1)"
        for i cs'
        using less.IH [OF sz b'(2), of "n + 1" i cs'] less.prems(2) by simp
      show ?thesis
        using less.prems(2) assms(1) closer_closer_of [OF assms(1)] IHr IHq b'
        by (simp add: Cons Ref reference_def add.assoc)
    qed
  qed simp
qed


lemma outer_loop_names:
  assumes "opener b" "0 < n"
  shows "list_all (wf_name_piece b) ps \<Longrightarrow>
    outer_loop str i (show_pieces ps @ cs) True n True = outer_loop str (i + length (show_pieces ps)) cs True n True"
  using assms(2)
proof (induction ps arbitrary: i n cs rule: measure_induct_rule [where f = "size_list size"])
  case (less ps)
  show ?case
  proof (cases ps)
    case (Cons p qs)
    have IHq: "outer_loop str i (show_pieces qs @ cs) True n True = outer_loop str (i + length (show_pieces qs)) cs True n True" for i
      using less.prems less.IH [of qs n i cs] Cons by simp
    show ?thesis
    proof (cases p)
      case (Lit s)
      have "list_all name_char s \<Longrightarrow> outer_loop str i (s @ cs') True n True = outer_loop str (i + length s) cs' True n True"
        for i cs'
        using less.prems(2) by (induction s arbitrary: i) (auto simp: name_char_def sigil_def)
      with less.prems Cons Lit IHq show ?thesis by (simp add: add.assoc)
    next
      case (Ref b' rs)
      have b': "b' = b" "list_all (wf_name_piece b) rs" using less.prems(1) Cons Ref by auto
      have sz: "size_list size rs < size_list size ps" by (simp add: Cons Ref)
      have IHr: "outer_loop str i (show_pieces rs @ cs') True (n + 1) True =
          outer_loop str (i + length (show_pieces rs)) cs' True (n + 1) True" for i cs'
        using less.IH [OF sz b'(2), of "n + 1" i cs'] less.prems(2) by simp
      show ?thesis
        using less.prems(2) assms(1) closer_closer_of [OF assms(1)] IHr IHq b'
        by (simp add: Cons Ref reference_def add.assoc)
    qed
  qed simp
qed

lemma extract_outer_reference:
  assumes "opener b" "list_all (wf_name_piece b) ps" "length (reference b (show_pieces ps)) < CF_BUFSIZE"
  shows "ExtractOuterCf3VarString (reference b (show_pieces ps) @ rest) =
    Some (ExSubstr, reference b (show_pieces ps))"
proof -
  let ?str = "reference b (show_pieces ps) @ rest"
  have "ExtractOuterCf3VarString ?str = outer_loop ?str 2 (show_pieces ps @ closer_of b # rest) True 1 True"
    using closer_closer_of [OF assms(1)] assms(1)
    by (simp add: ExtractOuterCf3VarString_def reference_def numeral_2_eq_2)
  also have "\<dots> = outer_loop ?str (2 + length (show_pieces ps)) (closer_of b # rest) True 1 True"
    by (rule outer_loop_names) (use assms in simp_all)
  also have "\<dots> = Some (ExSubstr, take (3 + length (show_pieces ps)) ?str)"
    using closer_closer_of [OF assms(1)] assms(3) by (simp add: reference_def eval_nat_numeral)
  also have "take (3 + length (show_pieces ps)) ?str = reference b (show_pieces ps)"
    by (simp add: reference_def eval_nat_numeral)
  finally show ?thesis .
qed

lemma extract_inner_reference:
  assumes "opener b" "list_all (wf_name_piece b) ps" "length (reference b (show_pieces ps)) < CF_BUFSIZE"
  shows "\<exists>e. ExtractInnerCf3VarString (Some (reference b (show_pieces ps) @ rest)) [] = Some (e, show_pieces ps)"
proof -
  let ?str = "reference b (show_pieces ps) @ rest"
  have "ExtractInnerCf3VarString (Some ?str) [] = inner_loop ?str 2 (show_pieces ps @ closer_of b # rest) 1"
    using assms(1) by (simp add: ExtractInnerCf3VarString_def reference_def)
  also have "\<dots> = inner_loop ?str (2 + length (show_pieces ps)) (closer_of b # rest) 1"
    by (rule inner_loop_names) (use assms in simp_all)
  finally show ?thesis
    using closer_closer_of [OF assms(1)] assms(3)
    by (auto simp: reference_def Let_def)
qed

section \<open>Recognizing a name with references\<close>

definition has_reference :: "piece list \<Rightarrow> bool" where
  "has_reference ps \<longleftrightarrow> (\<exists>p \<in> set ps. case p of Ref _ _ \<Rightarrow> True | Lit _ \<Rightarrow> False)"

abbreviation var_loop :: "string \<Rightarrow> var_scan \<Rightarrow> var_scan option" where
  "var_loop \<equiv> vs_loop (\<lambda>c. c = CHR ''$'' \<or> c = CHR ''@'') True"

lemma var_loop_text:
  assumes "list_all name_char s"
    and "vs_dollar v \<longrightarrow> 0 < vs_bracks v" "\<not> vs_dollar v \<longrightarrow> vs_bracks v = 0"
  shows "var_loop (s @ cs) v = var_loop cs v"
  using assms(1)
proof (induction s)
  case (Cons c s)
  then have c: "name_char c" by simp
  then have "vs_mark (\<lambda>c. c = CHR ''$'' \<or> c = CHR ''@'') c (s @ cs) v = v" "c \<noteq> CHR ''/''"
    by (auto simp: vs_mark_def name_char_def sigil_def)
  moreover have "vs_close v = v" using assms(2,3) by (auto simp: vs_close_def)
  ultimately show ?case using Cons by simp
qed simp

text \<open>Inside a reference: nested references of the same bracket leave the count as it was.\<close>

abbreviation inside :: "char \<Rightarrow> char \<Rightarrow> int \<Rightarrow> int \<Rightarrow> var_scan" where
  "inside b r n k \<equiv> \<lparr>vs_left = b, vs_right = r, vs_dollar = True, vs_bracks = n, vs_vars = k\<rparr>"

declare vs_loop.simps(2) [simp del]

lemma vs_close_inside: "0 < n \<Longrightarrow> vs_close (inside b r n k) = inside b r n k"
  by (simp add: vs_close_def)

lemma vs_mark_inside:
  "opener b \<Longrightarrow> vs_mark (\<lambda>c. c = CHR ''$'' \<or> c = CHR ''@'') (CHR ''$'') (b # cs) (inside b r n k) = inside b r n k"
  "opener b \<Longrightarrow> vs_mark (\<lambda>c. c = CHR ''$'' \<or> c = CHR ''@'') b cs (inside b r n k) = inside b r (n + 1) k"
  "opener b \<Longrightarrow> vs_mark (\<lambda>c. c = CHR ''$'' \<or> c = CHR ''@'') (closer_of b) cs (inside b r n k) =
     inside b (closer_of b) (n - 1) k"
  using closer_closer_of [of b] by (auto simp: vs_mark_def sigil_def)

lemma slash_not_bracket: "opener b \<Longrightarrow> b \<noteq> CHR ''/'' \<and> closer_of b \<noteq> CHR ''/''"
  by (auto simp: opener_def closer_of_def)

lemma var_loop_open:
  "opener b \<Longrightarrow> 0 < n \<Longrightarrow> var_loop (CHR ''$'' # b # cs) (inside b r n k) = var_loop cs (inside b r (n + 1) k)"
  using slash_not_bracket [of b] by (simp add: vs_loop.simps(2) vs_mark_inside vs_close_inside)

lemma var_loop_close:
  "opener b \<Longrightarrow> 0 < n \<Longrightarrow> var_loop (closer_of b # cs) (inside b r (n + 1) k) = var_loop cs (inside b (closer_of b) n k)"
  using slash_not_bracket [of b] by (simp add: vs_loop.simps(2) vs_mark_inside vs_close_inside)

lemma var_loop_nested:
  assumes "opener b"
  shows "list_all (wf_name_piece b) ps \<Longrightarrow> 0 < n \<Longrightarrow>
    \<exists>r'. var_loop (show_pieces ps @ cs) (inside b r n k) = var_loop cs (inside b r' n k)"
proof (induction ps arbitrary: r n cs rule: measure_induct_rule [where f = "size_list size"])
  case (less ps)
  show ?case
  proof (cases ps)
    case Nil
    then show ?thesis by auto
  next
    case (Cons p qs)
    have wq: "list_all (wf_name_piece b) qs" "size_list size qs < size_list size ps"
      using less.prems(1) by (simp_all add: Cons)
    show ?thesis
    proof (cases p)
      case (Lit s)
      have "list_all name_char s" using less.prems(1) Cons Lit by simp
      with var_loop_text [of s "inside b r n k" "show_pieces qs @ cs"] less.prems(2)
      have "var_loop (show_pieces ps @ cs) (inside b r n k) = var_loop (show_pieces qs @ cs) (inside b r n k)"
        by (simp add: Cons Lit)
      with less.IH [OF wq(2,1) less.prems(2), of cs r] show ?thesis by simp
    next
      case (Ref b' rs)
      have b': "b' = b" and wr: "list_all (wf_name_piece b) rs" using less.prems(1) Cons Ref by auto
      have sz: "size_list size rs < size_list size ps" by (simp add: Cons Ref)
      let ?rest = "closer_of b # show_pieces qs @ cs"
      have "var_loop (show_pieces ps @ cs) (inside b r n k) = var_loop (show_pieces rs @ ?rest) (inside b r (n + 1) k)"
        using var_loop_open [OF assms less.prems(2)] by (simp add: Cons Ref b' reference_def)
      moreover obtain r1 where "var_loop (show_pieces rs @ ?rest) (inside b r (n + 1) k) = var_loop ?rest (inside b r1 (n + 1) k)"
        using less.IH [OF sz wr, of "n + 1" ?rest r] less.prems(2) by auto
      moreover note var_loop_close [OF assms less.prems(2)]
      moreover obtain r2 where "var_loop (show_pieces qs @ cs) (inside b (closer_of b) n k) = var_loop cs (inside b r2 n k)"
        using less.IH [OF wq(2,1) less.prems(2), of cs "closer_of b"] by auto
      ultimately have "var_loop (show_pieces ps @ cs) (inside b r n k) = var_loop cs (inside b r2 n k)"
        by (simp only:)
      then show ?thesis by (rule exI)
    qed
  qed
qed

text \<open>After a complete reference its brackets stay behind, and the rest of the text only adds to the count.\<close>

abbreviation after :: "char \<Rightarrow> int \<Rightarrow> var_scan" where
  "after b k \<equiv> \<lparr>vs_left = b, vs_right = closer_of b, vs_dollar = False, vs_bracks = 0, vs_vars = k\<rparr>"

lemma vs_close_after: "vs_close (after b k) = after b k"
  by (simp add: vs_close_def)

lemma vs_close_matched: "opener b \<Longrightarrow> vs_close (inside b (closer_of b) 0 k) = after b (k + 1)"
  by (cases "b = CHR ''(''") (simp_all add: vs_close_def closer_of_def opener_def)

lemma vs_mark_after:
  "vs_mark sg c s (after b k) = (if sg c \<and> opens s then inside b (closer_of b) 0 k else after b k)"
  by (simp add: vs_mark_def)

lemma var_loop_done: "opener b \<Longrightarrow> 0 < k \<Longrightarrow> \<exists>k' > 0. var_loop s (after b k) = Some (after b k')"
proof (induction s arbitrary: k)
  case (Cons c s)
  then show ?case
    by (simp add: vs_loop.simps(2) vs_mark_after vs_close_after vs_close_matched)
qed auto

lemma var_loop_first:
  assumes "opener b" "list_all (wf_name_piece b) ps"
  shows "var_loop (reference b (show_pieces ps) @ cs) vs_start = var_loop cs (after b 1)"
proof -
  let ?rest = "closer_of b # cs"
  note bc = closer_closer_of [OF assms(1)] slash_not_bracket [OF assms(1)]
  have 1: "vs_mark (\<lambda>c. c = CHR ''$'' \<or> c = CHR ''@'') (CHR ''$'') (b # s) vs_start = inside (CHR ''x'') (CHR ''x'') 0 0" for s
    using assms(1) by (simp add: vs_mark_def vs_start_def)
  have 2: "vs_close (inside (CHR ''x'') (CHR ''x'') 0 0) = inside (CHR ''x'') (CHR ''x'') 0 0"
    by (simp add: vs_close_def)
  have 3: "vs_mark (\<lambda>c. c = CHR ''$'' \<or> c = CHR ''@'') b s (inside (CHR ''x'') (CHR ''x'') 0 0) = inside b (CHR ''x'') 1 0" for s
    using assms(1) bc by (simp add: vs_mark_def sigil_def)
  have "var_loop (reference b (show_pieces ps) @ cs) vs_start = var_loop (show_pieces ps @ ?rest) (inside b (CHR ''x'') 1 0)"
    using bc by (simp add: reference_def vs_loop.simps(2) 1 2 3 vs_close_inside)
  also obtain r where "var_loop (show_pieces ps @ ?rest) (inside b (CHR ''x'') 1 0) = var_loop ?rest (inside b r 1 0)"
    using var_loop_nested [OF assms, of 1 ?rest] by auto
  also have "var_loop ?rest (inside b r 1 0) = var_loop cs (after b 1)"
    using bc by (simp add: vs_loop.simps(2) vs_mark_inside [OF assms(1)] vs_close_matched [OF assms(1)])
  finally show ?thesis .
qed

lemma var_loop_pieces:
  assumes "opener b"
  shows "list_all (wf_name_piece b) ps \<Longrightarrow>
    (has_reference ps \<and> (\<exists>k > 0. var_loop (show_pieces ps) vs_start = Some (after b k))) \<or>
    (\<not> has_reference ps \<and> var_loop (show_pieces ps) vs_start = Some vs_start)"
proof (induction ps)
  case Nil
  then show ?case by (simp add: has_reference_def)
next
  case (Cons p qs)
  show ?case
  proof (cases p)
    case (Lit s)
    then have "var_loop (show_pieces (p # qs)) vs_start = var_loop (show_pieces qs) vs_start"
      using Cons.prems by (simp add: var_loop_text vs_start_def)
    with Cons Lit show ?thesis by (simp add: has_reference_def)
  next
    case (Ref b' rs)
    with Cons.prems have "b' = b" "list_all (wf_name_piece b) rs" by auto
    with Ref var_loop_first [OF assms, of rs "show_pieces qs"] var_loop_done [OF assms, of 1 "show_pieces qs"]
    show ?thesis by (simp add: has_reference_def)
  qed
qed

lemma IsCf3VarString_pieces:
  assumes "opener b" "list_all (wf_name_piece b) ps"
  shows "IsCf3VarString (Some (show_pieces ps)) \<longleftrightarrow> has_reference ps"
  using var_loop_pieces [OF assms]
proof (elim disjE conjE exE)
  fix k assume "has_reference ps" "0 < k" "var_loop (show_pieces ps) vs_start = Some (after b k)"
  then show ?thesis by (simp add: IsCf3VarString_def)
next
  assume "\<not> has_reference ps" "var_loop (show_pieces ps) vs_start = Some vs_start"
  then show ?thesis by (simp add: IsCf3VarString_def) (simp add: vs_start_def)
qed


section \<open>The loop on templates\<close>

text \<open>The loop after the copy of plain text.\<close>

definition expand_at ::
  "(string \<Rightarrow> (bool \<times> Rval \<times> DataType) option) \<Rightarrow> string \<Rightarrow> string \<Rightarrow> bool \<Rightarrow> (bool \<times> string) outcome"
where
  "expand_at get sp1 buffer1 returnval =
     (if sp1 = [] then Done (returnval, buffer1)
      else if \<not> opens (tl sp1) then expand_loop get (tl sp1) (strlcat buffer1 ''$'' CF_EXPANDSIZE) returnval
      else
        (case ExtractOuterCf3VarString sp1 of
           None \<Rightarrow> Fault
         | Some (_, var) \<Rightarrow>
             if var = [] then expand_loop get (tl sp1) (strlcat buffer1 ''$'' CF_EXPANDSIZE) returnval
             else
               (case ExtractInnerCf3VarString (Some sp1) [] of
                  None \<Rightarrow> Fault
                | Some (_, temp) \<Rightarrow>
                    (case (if IsCf3VarString (Some temp) then expand_loop get temp [] True else Done (True, temp)) of
                       Fault \<Rightarrow> Fault
                     | Exit1 \<Rightarrow> Exit1
                     | Done (_, item) \<Rightarrow>
                         if IsExpandable item then expand_loop get (drop (length var) sp1) buffer1 returnval
                         else
                           (case get item of
                              None \<Rightarrow> Fault
                            | Some answer \<Rightarrow>
                                (case insert_value (sp1 ! 1) item answer buffer1 returnval of
                                   Fault \<Rightarrow> Fault
                                 | Exit1 \<Rightarrow> Exit1
                                 | Done (stop, buffer2, returnval2) \<Rightarrow>
                                     if stop then Done (returnval2, buffer2)
                                     else expand_loop get (drop (length var) sp1) buffer2 returnval2))))))"

lemma expand_loop_at:
  "expand_loop get sp buffer returnval =
     (if sp = [] then Done (returnval, buffer)
      else
        let currentitem = StringNotMatchingSetCapped sp CF_EXPANDSIZE (CHR ''$'') in
        if ExpandOverflow buffer currentitem then Exit1
        else expand_at get (drop (length currentitem) sp) (strlcat buffer currentitem CF_EXPANDSIZE) returnval)"
  by (subst expand_loop.simps) (simp only: expand_at_def Let_def)

lemma capped_item:
  "StringNotMatchingSetCapped sp CF_EXPANDSIZE c = take (CF_EXPANDSIZE - 1) (takeWhile (\<lambda>x. x \<noteq> c) sp)"
proof -
  define t u where "t = takeWhile (\<lambda>x. x \<noteq> c) sp" and "u = dropWhile (\<lambda>x. x \<noteq> c) sp"
  then have sp: "sp = t @ u" by simp
  show ?thesis
    unfolding StringNotMatchingSetCapped_def Let_def t_def [symmetric] by (auto simp: sp)
qed

text \<open>The most the buffer is filled with.\<close>

definition room :: nat where
  "room = CF_EXPANDSIZE - CF_BUFFERMARGIN"

lemma room_less: "room < CF_EXPANDSIZE - 1" "ExpandOverflow s t \<longleftrightarrow> room < length s + length t"
  by (simp_all add: room_def CF_EXPANDSIZE_def CF_BUFFERMARGIN_def ExpandOverflow_def)

lemma strlcat_fits: "length dst + length src \<le> room \<Longrightarrow> strlcat dst src CF_EXPANDSIZE = dst @ src"
  using room_less(1) by (auto simp: strlcat_def)

lemma expand_text:
  assumes s: "CHR ''$'' \<notin> set s" and fits: "length buf + length s \<le> room"
  shows "expand_loop get (s @ rest) buf returnval = expand_loop get rest (buf @ s) returnval"
proof (cases "s = []")
  case False
  let ?t = "takeWhile (\<lambda>x. x \<noteq> CHR ''$'') rest"
  have tw: "takeWhile (\<lambda>x. x \<noteq> CHR ''$'') (s @ rest) = s @ ?t" using s by (auto simp: takeWhile_append)
  show ?thesis
  proof (cases "length buf + length s + length ?t \<le> room")
    case True
    then have c: "take (CF_EXPANDSIZE - 1) (s @ ?t) = s @ ?t" "take (CF_EXPANDSIZE - 1) ?t = ?t"
      using room_less(1) by simp_all
    have l: "expand_loop get (s @ rest) buf returnval = expand_at get (drop (length ?t) rest) (buf @ s @ ?t) returnval"
      using False True c(1)
      by (subst expand_loop_at) (simp add: capped_item tw room_less(2) strlcat_fits Let_def)
    show ?thesis
    proof (cases "rest = []")
      case True
      then show ?thesis unfolding l by (simp add: expand_at_def expand_loop_at)
    next
      case False
      have "expand_loop get rest (buf @ s) returnval = expand_at get (drop (length ?t) rest) (buf @ s @ ?t) returnval"
        using False True c(2)
        by (subst expand_loop_at) (simp add: capped_item room_less(2) strlcat_fits Let_def)
      with l show ?thesis by simp
    qed
  next
    case False
    then have ne: "rest \<noteq> []" using fits by auto
    have "room < length buf + length (take (CF_EXPANDSIZE - 1) (s @ ?t))"
      "room < length (buf @ s) + length (take (CF_EXPANDSIZE - 1) ?t)"
      using False room_less(1) by (auto simp: min_def)
    then have "ExpandOverflow buf (take (CF_EXPANDSIZE - 1) (s @ ?t))"
      "ExpandOverflow (buf @ s) (take (CF_EXPANDSIZE - 1) ?t)"
      by (simp_all only: room_less(2))
    then show ?thesis
      using ne \<open>s \<noteq> []\<close> expand_loop_at [of get "s @ rest" buf] expand_loop_at [of get rest "buf @ s"]
      by (simp add: capped_item tw Let_def)
  qed
qed simp


text \<open>What the lookup answers: nothing, a scalar as text, or a list.\<close>

definition plain_answer :: "bool \<times> Rval \<times> DataType \<Rightarrow> bool" where
  "plain_answer a \<longleftrightarrow>
     (case a of (found, rv, ty) \<Rightarrow>
        found \<longrightarrow>
          (ty \<in> {DATA_TYPE_STRING, DATA_TYPE_INT, DATA_TYPE_REAL} \<and> (\<exists>v. rv = Scalar v)) \<or>
          ty \<in> {DATA_TYPE_STRING_LIST, DATA_TYPE_INT_LIST, DATA_TYPE_REAL_LIST, DATA_TYPE_NONE})"

definition answers ::
  "(string \<Rightarrow> (bool \<times> Rval \<times> DataType) option) \<Rightarrow> (string \<Rightarrow> string option) \<Rightarrow> string set \<Rightarrow> bool"
where
  "answers get val N \<longleftrightarrow> (\<forall>n \<in> N. \<exists>a. get n = Some a \<and> plain_answer a \<and> val n = scalar_answer a)"

text \<open>The names that are looked up.\<close>

fun names_of :: "(string \<Rightarrow> string option) \<Rightarrow> piece \<Rightarrow> string set" where
  "names_of val (Lit s) = {}"
| "names_of val (Ref b ps) = insert (snd (eval_pieces val ps)) (\<Union>p \<in> set ps. names_of val p)"

lemma insert_plain:
  assumes "plain_answer a"
  shows "insert_value b nm a buf ok =
    (case scalar_answer a of
       Some v \<Rightarrow> if ExpandOverflow buf v then Exit1 else Done (False, strlcat buf v CF_EXPANDSIZE, ok)
     | None \<Rightarrow> Done (False, strlcat buf (take (CF_MAXVARSIZE - 1) (reference b nm)) CF_EXPANDSIZE, False))"
proof -
  obtain found rv ty where a: "a = (found, rv, ty)" by (cases a)
  show ?thesis
    using assms by (cases found; cases rv) (auto simp: a plain_answer_def insert_value_def scalar_answer_def Let_def)
qed

text \<open>The bounds: a reference fits \<open>CF_BUFSIZE\<close> bytes and its name, expanded, \<open>CF_MAXVARSIZE\<close>.\<close>

fun fits :: "(string \<Rightarrow> string option) \<Rightarrow> piece \<Rightarrow> bool" where
  "fits val (Lit s) = True"
| "fits val (Ref b ps) =
     (list_all (fits val) ps \<and> length (reference b (show_pieces ps)) < CF_BUFSIZE \<and>
      length (snd (eval_pieces val ps)) + 3 < CF_MAXVARSIZE)"

lemma eval_no_reference: "\<not> has_reference ps \<Longrightarrow> eval_pieces val ps = (True, show_pieces ps)"
proof (induction ps)
  case (Cons p ps)
  then show ?case by (cases p) (auto simp: has_reference_def)
qed simp

lemma length_reference [simp]: "length (reference b nm) = length nm + 3"
  by (simp add: reference_def)

lemma expand_reference:
  assumes b: "opener b" "list_all (wf_name_piece b) qs" "length (reference b (show_pieces qs)) < CF_BUFSIZE"
    and nested: "has_reference qs \<Longrightarrow> \<exists>ok. expand_loop get (show_pieces qs) [] True = Done (ok, snd (eval_pieces val qs))"
    and buf: "length buf \<le> room"
  shows "expand_loop get (reference b (show_pieces qs) @ rest) buf ok =
    (let nm = snd (eval_pieces val qs) in
     if IsExpandable nm then expand_loop get rest buf ok
     else (case get nm of
             None \<Rightarrow> Fault
           | Some answer \<Rightarrow>
               (case insert_value b nm answer buf ok of
                  Fault \<Rightarrow> Fault
                | Exit1 \<Rightarrow> Exit1
                | Done (stop, buf2, ok2) \<Rightarrow> if stop then Done (ok2, buf2) else expand_loop get rest buf2 ok2)))"
proof -
  let ?r = "reference b (show_pieces qs)"
  have tw: "takeWhile (\<lambda>x. x \<noteq> CHR ''$'') (?r @ rest) = []" by (simp add: reference_def)
  have at: "expand_loop get (?r @ rest) buf ok = expand_at get (?r @ rest) buf ok"
    using buf by (subst expand_loop_at) (simp add: capped_item tw room_less(2) strlcat_fits reference_def Let_def)
  have open_: "opens (tl (?r @ rest))" "(?r @ rest) ! 1 = b" "?r \<noteq> []" "drop (length ?r) (?r @ rest) = rest"
    using b(1) by (simp_all add: reference_def)
  obtain e where inner: "ExtractInnerCf3VarString (Some (?r @ rest)) [] = Some (e, show_pieces qs)"
    using extract_inner_reference [OF b] by blast
  obtain ok' where name: "(if IsCf3VarString (Some (show_pieces qs)) then expand_loop get (show_pieces qs) [] True
      else Done (True, show_pieces qs)) = Done (ok', snd (eval_pieces val qs))"
    using nested IsCf3VarString_pieces [OF b(1,2)] eval_no_reference [of qs val]
    by (cases "has_reference qs") auto
  show ?thesis
    unfolding at expand_at_def Let_def extract_outer_reference [OF b] inner option.case prod.case name
      outcome.case open_(2,4)
    using open_(1,3) by simp
qed

lemma expand_loop_pieces:
  assumes get: "answers get val N"
  shows "(\<Union>p \<in> set ps. names_of val p) \<subseteq> N \<Longrightarrow> list_all wf_piece ps \<Longrightarrow>
    list_all (fits val) ps \<Longrightarrow> length buf + length (snd (eval_pieces val ps)) \<le> room \<Longrightarrow>
    expand_loop get (show_pieces ps) buf ok = Done (ok \<and> fst (eval_pieces val ps), buf @ snd (eval_pieces val ps))"
proof (induction ps arbitrary: buf ok rule: measure_induct_rule [where f = "size_list size"])
  case (less ps)
  show ?case
  proof (cases ps)
    case Nil
    then show ?thesis by (subst expand_loop_at) simp
  next
    case (Cons p rs)
    obtain b t where ev: "eval_pieces val rs = (b, t)" by fastforce
    have rest: "expand_loop get (show_pieces rs) buf' ok' = Done (ok' \<and> b, buf' @ t)"
      if "length buf' + length t \<le> room" for buf' ok'
      using less.IH [of rs buf' ok'] less.prems that by (simp add: Cons ev)
    show ?thesis
    proof (cases p)
      case (Lit s)
      then have "CHR ''$'' \<notin> set s" "length buf + length s \<le> room" "length (buf @ s) + length t \<le> room"
        using less.prems by (simp_all add: Cons ev)
      with rest [of "buf @ s" ok] show ?thesis by (simp add: Cons Lit ev expand_text)
    next
      case (Ref k qs)
      have k: "opener k" "list_all (wf_name_piece k) qs" "length (reference k (show_pieces qs)) < CF_BUFSIZE"
        "list_all (fits val) qs" "length (snd (eval_pieces val qs)) + 3 < CF_MAXVARSIZE"
        using less.prems by (simp_all add: Cons Ref)
      let ?nm = "snd (eval_pieces val qs)"
      have "list_all wf_piece qs" using k(1,2) wf_name_piece_top by (auto simp: list_all_iff)
      moreover have "length ?nm \<le> room" using k(5) by (simp add: CF_MAXVARSIZE_def room_def CF_EXPANDSIZE_def CF_BUFFERMARGIN_def)
      ultimately have nested: "expand_loop get (show_pieces qs) [] True = Done (fst (eval_pieces val qs), ?nm)"
        using less.IH [of qs "[]" True] k(4) less.prems(1) by (simp add: Cons Ref)
      have buf: "length buf \<le> room" using less.prems(4) by simp
      have "\<exists>ok. expand_loop get (show_pieces qs) [] True = Done (ok, ?nm)" using nested by blast
      note step = expand_reference [OF k(1-3) this buf, of "show_pieces rs" ok]
      obtain a where a: "get ?nm = Some a" "plain_answer a" "val ?nm = scalar_answer a"
        using get less.prems(1) unfolding answers_def by (fastforce simp: Cons Ref)
      have cut: "take (CF_MAXVARSIZE - 1) (reference k ?nm) = reference k ?nm" using k(5) by simp
      show ?thesis
      proof (cases "IsExpandable ?nm")
        case True
        with step rest [of buf ok] less.prems(4) show ?thesis by (simp add: Cons Ref ev)
      next
        case False
        show ?thesis
        proof (cases "scalar_answer a")
          case (Some v)
          then have "length (buf @ v) + length t \<le> room" "length buf + length v \<le> room"
            using less.prems(4) False a(3) by (simp_all add: Cons Ref ev)
          with step rest [of "buf @ v" ok] False a Some show ?thesis
            by (simp add: Cons Ref ev insert_plain room_less(2) strlcat_fits)
        next
          case None
          then have "length (buf @ reference k ?nm) + length t \<le> room" "length buf + length (reference k ?nm) \<le> room"
            using less.prems(4) False a(3) by (simp_all add: Cons Ref ev)
          with step rest [of "buf @ reference k ?nm" False] False a None cut show ?thesis
            by (simp add: Cons Ref ev insert_plain strlcat_fits del: length_reference)
        qed
      qed
    qed
  qed
qed

text \<open>C35. \<open>ExpandScalar\<close> replaces references as the template says: nested names are expanded first, a scalar
  variable gives its value, a name that is unknown or a list stays as it is written and makes the
  result false, and a name that still has a reference in it is dropped. This holds for any text
  whose references are closed by the bracket they open and fit the buffers.\<close>

theorem expand_scalar_template:
  assumes "answers (lookup_name ctx nsp sc st) val (\<Union>p \<in> set ps. names_of val p)"
    and "list_all wf_piece ps" "list_all (fits val) ps" "length (snd (eval_pieces val ps)) \<le> room"
    and "show_pieces ps \<noteq> []"
  shows "ExpandScalar ctx nsp sc st (show_pieces ps) = Done (eval_pieces val ps)"
  using expand_loop_pieces [OF assms(1) order_refl assms(2,3), of "[]" True] assms(4)
  unfolding ExpandScalar_def if_not_P [OF assms(5)] by simp

theorem expand_scalar_template_witness:
  "(let t = Tiny [NewAssoc ''n'' (Scalar ''1'') DATA_TYPE_INT, NewAssoc ''d1'' (Scalar ''/tmp'') DATA_TYPE_STRING];
        st = \<lparr>VSCOPE = [0], scope_at = [0 \<mapsto> \<lparr>sc_ns = ''default'', sc_scope = ''main'', sc_table = t\<rparr>],
          SCOPE_MATCH = None, CF_STCK = [], scope_brk = 1, stale = []\<rparr>
    in ExpandScalar EvalContextNew None (Some ''main'') st ''in $(d$(n))/${x}'' = Done (False, ''in /tmp/${x}''))"
proof -
  define t :: VariableTable where "t = Tiny [NewAssoc ''n'' (Scalar ''1'') DATA_TYPE_INT,
    NewAssoc ''d1'' (Scalar ''/tmp'') DATA_TYPE_STRING]"
  define st :: Scopes where "st = \<lparr>VSCOPE = [0 :: nat], scope_at = [0 :: nat \<mapsto> \<lparr>sc_ns = ''default'', sc_scope = ''main'', sc_table = t\<rparr>],
    SCOPE_MATCH = None, CF_STCK = [], scope_brk = 1, stale = []\<rparr>"
  let ?val = "map_of [(''n'', ''1''), (''d1'', ''/tmp'')]"
  let ?ps = "[Lit ''in '', Ref (CHR ''('') [Lit ''d'', Ref (CHR ''('') [Lit ''n'']], Lit ''/'', Ref (CHR ''{'') [Lit ''x'']]"
  have x: "\<not> IsExpandable ''n''" "\<not> IsExpandable ''d1''" "\<not> IsExpandable ''x''" by code_simp+
  have ev: "eval_pieces ?val ?ps = (False, ''in /tmp/${x}'')" "show_pieces ?ps = ''in $(d$(n))/${x}''"
    using x by (simp_all add: reference_def closer_of_def)
  have get: "lookup_name EvalContextNew None (Some ''main'') st ''n'' = Some (True, Scalar ''1'', DATA_TYPE_INT)"
    "lookup_name EvalContextNew None (Some ''main'') st ''d1'' = Some (True, Scalar ''/tmp'', DATA_TYPE_STRING)"
    "lookup_name EvalContextNew None (Some ''main'') st ''x'' = Some (False, Scalar ''x'', DATA_TYPE_NONE)"
    unfolding st_def t_def by code_simp+
  have names: "(\<Union>p \<in> set ?ps. names_of ?val p) = {''x'', ''d1'', ''n''}"
    using x by simp
  have "answers (lookup_name EvalContextNew None (Some ''main'') st) ?val (\<Union>p \<in> set ?ps. names_of ?val p)"
    unfolding names answers_def by (simp add: get plain_answer_def scalar_answer_def del: split_paired_Ex)
  from expand_scalar_template [OF this] ev show ?thesis
    using x unfolding t_def [symmetric] st_def [symmetric] Let_def
    by (simp add: name_char_def sigil_def opener_def closer_def room_def CF_BUFSIZE_def CF_MAXVARSIZE_def
        CF_EXPANDSIZE_def CF_BUFFERMARGIN_def)
qed

text \<open>A reference whose name needs a variable that is not known disappears, and the result is still true.\<close>

lemma unknown_inner_name_vanishes:
  "eval_pieces (\<lambda>_. None) [Lit ''a'', Ref (CHR ''('') [Lit ''d'', Ref (CHR ''('') [Lit ''n'']], Lit ''b''] = (True, ''ab'')"
proof -
  have "\<not> IsExpandable ''n''" "IsExpandable ''d$(n)''" by code_simp+
  then show ?thesis by (simp add: reference_def closer_of_def)
qed

end
