(* ===== verification/Eval_Classes.thy ===== *)
theory Eval_Classes
  imports Eval_Context
begin

text \<open>
  What the operations of \<open>Eval_Context\<close> do to the classes: every string set keeps the invariant of
  the hash maps, a class expression has the boolean value of its classes, adding a class defines it
  and nothing else, the classes of a bundle end with its frame, a class that aborts ends the agent,
  and a persistent class comes back until it expires.
\<close>

named_theorems ctx_laws

section \<open>The sets are well formed\<close>

definition frame_wf :: "StackFrame \<Rightarrow> bool" where
  "frame_wf f =
     (case data f of
        BundleFrame _ contexts neg \<Rightarrow> str_keys.map_inv contexts \<and> str_keys.map_inv neg
      | _ \<Rightarrow> True)"

definition ctx_wf :: "EvalContext \<Rightarrow> bool" where
  "ctx_wf ctx \<longleftrightarrow>
     str_keys.map_inv (heap_soft ctx) \<and> str_keys.map_inv (heap_hard ctx) \<and>
     str_keys.map_inv (heap_negated ctx) \<and> str_keys.map_inv (dependency_handles ctx) \<and>
     list_all frame_wf (stack ctx)"

lemma ctx_wf_new: "ctx_wf EvalContextNew"
  by (simp add: ctx_wf_def EvalContextNew_def str_set.invar_new)

lemma ctx_wf_flag [simp]: "ctx_wf (ctx\<lparr>ABORTBUNDLE := b\<rparr>) = ctx_wf ctx"
  by (simp add: ctx_wf_def)

lemma ctx_wf_soft: "ctx_wf ctx \<Longrightarrow> str_keys.map_inv s \<Longrightarrow> ctx_wf (ctx\<lparr>heap_soft := s\<rparr>)"
  by (simp add: ctx_wf_def)

lemma ctx_wf_hard: "ctx_wf ctx \<Longrightarrow> str_keys.map_inv s \<Longrightarrow> ctx_wf (ctx\<lparr>heap_hard := s\<rparr>)"
  by (simp add: ctx_wf_def)

lemma ctx_wf_sets:
  assumes "ctx_wf ctx"
  shows "str_keys.map_inv (heap_soft ctx)" "str_keys.map_inv (heap_hard ctx)"
    "str_keys.map_inv (heap_negated ctx)" "str_keys.map_inv (dependency_handles ctx)"
    "list_all frame_wf (stack ctx)"
  using assms by (simp_all add: ctx_wf_def)

lemma ctx_wf_update_bundle:
  assumes wf: "ctx_wf ctx"
    and f: "\<And>s. str_keys.map_inv s \<Longrightarrow> str_keys.map_inv (f s)"
    and g: "\<And>s. str_keys.map_inv s \<Longrightarrow> str_keys.map_inv (g s)"
  shows "ctx_wf (update_bundle ctx i f g)"
proof (cases "i < length (stack ctx)")
  case True
  then have "frame_wf (stack ctx ! i)"
    using wf by (simp add: ctx_wf_def list_all_length)
  with wf f g show ?thesis
    by (auto simp: update_bundle_def Let_def ctx_wf_def frame_wf_def list_all_iff
        dest!: set_update_subset_insert [THEN subsetD] split: frame_data.splits)
next
  case False
  with wf show ?thesis
    by (simp add: update_bundle_def Let_def ctx_wf_def not_less list_update_beyond split: frame_data.split)
qed

lemma guarded_add_cases:
  assumes "guarded_add matches ns owner present add ctx c = Done ctx'"
  obtains b where "present" "ctx' = ctx\<lparr>ABORTBUNDLE := b\<rparr>"
    | b b' where "\<not> present" "ctx' = add (ctx\<lparr>ABORTBUNDLE := b\<rparr>)\<lparr>ABORTBUNDLE := b'\<rparr>"
proof -
  have same: "x = x\<lparr>ABORTBUNDLE := ABORTBUNDLE x\<rparr>" for x :: EvalContext
    by simp
  let ?m = "IsRegexItemIn matches ctx (heap_abort_current_bundle ctx) c"
  have 1: "(if ?m then ctx\<lparr>ABORTBUNDLE := True\<rparr> else ctx) = ctx\<lparr>ABORTBUNDLE := ?m \<or> ABORTBUNDLE ctx\<rparr>"
    by simp
  show thesis
  proof (cases present)
    case True
    with assms have "ctx' = ctx\<lparr>ABORTBUNDLE := ?m \<or> ABORTBUNDLE ctx\<rparr>"
      by (simp add: guarded_add_def Let_def split: if_splits)
    with True show ?thesis by (rule that(1))
  next
    case False
    with assms have "ctx' = add (ctx\<lparr>ABORTBUNDLE := ?m \<or> ABORTBUNDLE ctx\<rparr>) \<or>
        ctx' = add (ctx\<lparr>ABORTBUNDLE := ?m \<or> ABORTBUNDLE ctx\<rparr>)\<lparr>ABORTBUNDLE := True\<rparr>"
      unfolding guarded_add_def Let_def 1 by (auto split: if_splits)
    with False same show ?thesis by (metis that(2))
  qed
qed

lemma ctx_wf_guarded_add:
  assumes "guarded_add matches ns owner present add ctx c = Done ctx'" "ctx_wf ctx"
    and "\<And>x. ctx_wf x \<Longrightarrow> ctx_wf (add x)"
  shows "ctx_wf ctx'"
  using assms(1) by (rule guarded_add_cases) (use assms(2,3) in auto)

lemma ctx_wf_HeapAddSoft [ctx_laws]:
  "EvalContextHeapAddSoft matches ctx c ns = Done ctx' \<Longrightarrow> ctx_wf ctx \<Longrightarrow> ctx_wf ctx'"
  by (auto simp: EvalContextHeapAddSoft_def Let_def ctx_wf_soft ctx_wf_sets str_set.invar_add
      elim!: ctx_wf_guarded_add split: if_splits)

lemma ctx_wf_HeapAddHard [ctx_laws]:
  "EvalContextHeapAddHard matches ctx c = Done ctx' \<Longrightarrow> ctx_wf ctx \<Longrightarrow> ctx_wf ctx'"
  by (auto simp: EvalContextHeapAddHard_def Let_def ctx_wf_hard ctx_wf_sets str_set.invar_add
      elim!: ctx_wf_guarded_add split: if_splits)

lemma ctx_wf_StackFrameAddSoft [ctx_laws]:
  "EvalContextStackFrameAddSoft matches ctx c = Done ctx' \<Longrightarrow> ctx_wf ctx \<Longrightarrow> ctx_wf ctx'"
  by (auto simp: EvalContextStackFrameAddSoft_def Let_def str_set.invar_add
      intro!: ctx_wf_update_bundle elim!: ctx_wf_guarded_add split: if_splits option.splits)

lemma ctx_wf_HeapAddNegated [ctx_laws]: "ctx_wf ctx \<Longrightarrow> ctx_wf (EvalContextHeapAddNegated ctx c)"
  by (simp add: EvalContextHeapAddNegated_def ctx_wf_def str_set.invar_add)

lemma ctx_wf_StackFrameAddNegated [ctx_laws]:
  "EvalContextStackFrameAddNegated ctx c = Done ctx' \<Longrightarrow> ctx_wf ctx \<Longrightarrow> ctx_wf ctx'"
  by (auto simp: EvalContextStackFrameAddNegated_def str_set.invar_add
      intro!: ctx_wf_update_bundle split: option.splits)

lemma ctx_wf_HeapRemoveSoft [ctx_laws]: "ctx_wf ctx \<Longrightarrow> ctx_wf (snd (EvalContextHeapRemoveSoft ctx c))"
  using str_set.invar_remove [of "heap_soft ctx" c]
  by (simp add: EvalContextHeapRemoveSoft_def ctx_wf_def case_prod_beta)

lemma ctx_wf_HeapRemoveHard [ctx_laws]: "ctx_wf ctx \<Longrightarrow> ctx_wf (snd (EvalContextHeapRemoveHard ctx c))"
  using str_set.invar_remove [of "heap_hard ctx" c]
  by (simp add: EvalContextHeapRemoveHard_def ctx_wf_def case_prod_beta)

lemma ctx_wf_StackFrameRemoveSoft [ctx_laws]:
  "EvalContextStackFrameRemoveSoft ctx c = Done ctx' \<Longrightarrow> ctx_wf ctx \<Longrightarrow> ctx_wf ctx'"
  by (auto simp: EvalContextStackFrameRemoveSoft_def str_set.invar_remove
      intro!: ctx_wf_update_bundle split: option.splits)

lemma ctx_wf_HeapClear [ctx_laws]: "ctx_wf ctx \<Longrightarrow> ctx_wf (EvalContextHeapClear ctx)"
  by (simp add: EvalContextHeapClear_def ctx_wf_def SetClear_def MapClear_inv)

lemma ctx_wf_Abort [ctx_laws]: "ctx_wf ctx \<Longrightarrow> ctx_wf (snd (Abort ctx))"
  by (simp add: Abort_def)

lemma ctx_wf_AddAbort [ctx_laws]:
  "ctx_wf ctx \<Longrightarrow> ctx_wf (EvalContextHeapAddAbort ctx c a)"
  "ctx_wf ctx \<Longrightarrow> ctx_wf (EvalContextHeapAddAbortCurrentBundle ctx c a)"
  by (simp_all add: EvalContextHeapAddAbort_def EvalContextHeapAddAbortCurrentBundle_def ctx_wf_def)

lemma ctx_wf_MarkPromiseHandleDone [ctx_laws]: "ctx_wf ctx \<Longrightarrow> ctx_wf (MarkPromiseHandleDone ctx pp h)"
  by (auto simp: MarkPromiseHandleDone_def ctx_wf_def str_set.invar_add split: option.split)

lemma ctx_wf_NotifyDependantPromises [ctx_laws]:
  "ctx_wf ctx \<Longrightarrow> ctx_wf (NotifyDependantPromises r ctx pp h)"
  by (simp add: NotifyDependantPromises_def ctx_wf_MarkPromiseHandleDone)

lemma ctx_wf_promises_done [ctx_laws]:
  "ctx_wf ctx \<Longrightarrow> ctx_wf (EvalContextMarkPromiseDone ctx p)"
  "ctx_wf ctx \<Longrightarrow> ctx_wf (EvalContextMarkPromiseNotDone ctx p)"
  by (simp_all add: EvalContextMarkPromiseDone_def EvalContextMarkPromiseNotDone_def ctx_wf_def)

lemma ctx_wf_AddAllClasses [ctx_laws]:
  "AddAllClasses matches now ns persist pol sc items (ctx, db) = Done (ctx', db') \<Longrightarrow> ctx_wf ctx \<Longrightarrow> ctx_wf ctx'"
proof (induction items arbitrary: ctx db)
  case (Cons item items)
  then show ?case
    by (auto simp: Let_def split: if_splits option.splits outcome.splits
        intro: ctx_wf_HeapAddSoft ctx_wf_StackFrameAddSoft)
qed simp

lemma ctx_wf_DeleteAllClasses [ctx_laws]:
  "DeleteAllClasses matches items (ctx, db) = Done (ctx', db') \<Longrightarrow> ctx_wf ctx \<Longrightarrow> ctx_wf ctx'"
proof (induction items arbitrary: ctx db)
  case (Cons item items)
  then show ?case
    by (auto simp: Let_def split: if_splits option.splits outcome.splits)
      (metis ctx_wf_StackFrameAddNegated ctx_wf_HeapRemoveSoft)
qed simp

lemma ctx_wf_SetPromiseOutcomeClasses [ctx_laws]:
  "SetPromiseOutcomeClasses matches now status pp dc (ctx, db) = Done (ctx', db') \<Longrightarrow> ctx_wf ctx \<Longrightarrow> ctx_wf ctx'"
  by (auto simp: SetPromiseOutcomeClasses_def split: prod.splits outcome.splits
      intro: ctx_wf_AddAllClasses ctx_wf_DeleteAllClasses)

lemma ctx_wf_load_class:
  "load_class matches ctx key = Done ctx' \<Longrightarrow> ctx_wf ctx \<Longrightarrow> ctx_wf ctx'"
  by (auto simp: load_class_def split: if_splits prod.splits intro: ctx_wf_HeapAddSoft)

lemma ctx_wf_load_all:
  "load_all matches now ctx db = Done (ctx', db') \<Longrightarrow> ctx_wf ctx \<Longrightarrow> ctx_wf ctx'"
proof (induction matches now ctx db arbitrary: db' rule: load_all.induct)
  case (2 matches now ctx key q db)
  then show ?case
    by (auto split: if_splits outcome.splits dest: ctx_wf_load_class)
qed simp

lemma ctx_wf_PersistentLoadAll [ctx_laws]:
  "EvalContextHeapPersistentLoadAll matches l now ctx db = Done (ctx', db') \<Longrightarrow> ctx_wf ctx \<Longrightarrow> ctx_wf ctx'"
  by (auto simp: EvalContextHeapPersistentLoadAll_def split: if_splits dest: ctx_wf_load_all)

section \<open>The value of a class expression\<close>

text \<open>An expression without references to variables.\<close>

primrec ground :: "Expression \<Rightarrow> bool" where
  "ground (OR l r) = (ground l \<and> ground r)"
| "ground (AND l r) = (ground l \<and> ground r)"
| "ground (NOT e) = ground e"
| "ground (EVAL n) = (case n of LITERAL _ \<Rightarrow> True | _ \<Rightarrow> False)"

definition literal :: "StringExpression \<Rightarrow> string" where
  "literal n = (case n of LITERAL s \<Rightarrow> s | _ \<Rightarrow> [])"

text \<open>A class holds: the reading of \<open>EvalTokenAsClass\<close> as a set.\<close>

definition class_holds :: "EvalContext \<Rightarrow> string option \<Rightarrow> string \<Rightarrow> bool" where
  "class_holds ctx ns c \<longleftrightarrow>
     c = ''any'' \<or>
     (let q = qualified_class ns c in
      \<not> EvalContextHeapContainsNegated ctx q \<and> \<not> EvalContextStackFrameContainsNegated ctx q \<and>
      (EvalContextHeapContainsHard ctx c \<or> EvalContextHeapContainsSoft ctx q \<or>
       EvalContextStackFrameContainsSoft ctx q))"

lemma EvalTokenAsClass_holds: "EvalTokenAsClass ctx ns c = exp_bool (class_holds ctx ns c)"
  by (auto simp: EvalTokenAsClass_def class_holds_def Let_def intro!: arg_cong [of _ _ exp_bool])

lemma EvalExpression_ground:
  "ground e \<Longrightarrow>
   EvalExpression (EvalTokenAsClass ctx ns) EvalVarRef e = exp_bool (holds (\<lambda>n. class_holds ctx ns (literal n)) e)"
proof (induction e)
  case (EVAL n)
  then show ?case
    by (cases n) (auto simp: literal_def EvalTokenAsClass_holds)
qed (auto simp: Let_def exp_bool_def)

lemma IsDefinedClass_expression:
  assumes "wf_expression e" "ground e"
  shows "IsDefinedClass ctx (Some (show_expression e)) ns = holds (\<lambda>n. class_holds ctx ns (literal n)) e"
  using assms by (simp add: IsDefinedClass_def ParseExpression_show EvalExpression_ground)

lemma IsDefinedClass_name:
  assumes "c \<noteq> []" "list_all ValidTokenCharacter c"
  shows "IsDefinedClass ctx (Some c) ns = class_holds ctx ns c"
  using IsDefinedClass_expression [of "EVAL (LITERAL c)" ctx ns] assms by (simp add: literal_def)

section \<open>Adding a class\<close>

lemma canonified_token: "list_all ValidTokenCharacter (CanonifyNameInPlace s)"
proof -
  have "ValidTokenCharacter (if \<not> isalnum c \<or> c = CHR ''.'' then CHR ''_'' else c)" for c
    by (auto simp: ValidTokenCharacter_def ctype_defs less_eq_char_def)
  then show ?thesis unfolding CanonifyNameInPlace_def list_all_iff set_map by blast
qed


lemma canonified_no_colon: "strchr (CanonifyNameInPlace s) (CHR '':'') = None"
proof -
  define f where "f = (\<lambda>c. if \<not> isalnum c \<or> c = CHR ''.'' then CHR ''_'' else c)"
  have "f c \<noteq> CHR '':''" for c
    by (auto simp: ctype_defs f_def)
  then have "CHR '':'' \<notin> f ` set s" by (metis imageE)
  then show ?thesis by (simp add: strchr_None CanonifyNameInPlace_def f_def)
qed

lemma length_canonified [simp]: "length (CanonifyNameInPlace s) = length s"
  by (simp add: CanonifyNameInPlace_def)

lemma length_Chop: "length (Chop s) \<le> length s"
  by (metis Chop_def length_dropWhile_le length_rev)

text \<open>The name under which \<open>EvalContextHeapAddSoft\<close> adds a class.\<close>

definition heap_key :: "string option \<Rightarrow> string \<Rightarrow> string" where
  "heap_key ns context =
     (case ns of
        Some n \<Rightarrow> if strcmp n ''default'' \<noteq> 0 then capped (n @ '':'' @ CanonifyNameInPlace (Chop context))
                  else CanonifyNameInPlace (Chop context)
      | None \<Rightarrow> CanonifyNameInPlace (Chop context))"

lemma HeapAddSoft_heap_key:
  "EvalContextHeapAddSoft matches ctx context ns =
     (if CF_MAXVARSIZE \<le> length context then Fault
      else if heap_key ns context = [] then Done ctx
      else guarded_add matches ns (last_owner ctx) (EvalContextHeapContainsSoft ctx (heap_key ns context))
        (\<lambda>ctx1. ctx1\<lparr>heap_soft := StringSetAdd (heap_soft ctx1) (heap_key ns context)\<rparr>) ctx (heap_key ns context))"
  unfolding EvalContextHeapAddSoft_def Let_def heap_key_def length_0_conv ..

lemma qualified_canonified:
  assumes "length context < CF_MAXVARSIZE"
  shows "qualified_class ns (CanonifyNameInPlace (Chop context)) = heap_key ns context"
proof -
  have "length (CanonifyNameInPlace (Chop context)) \<le> CF_MAXVARSIZE - 1"
    using assms length_Chop [of "context"] by simp
  then show ?thesis
    by (simp add: qualified_class_def canonified_no_colon capped_def heap_key_def split: option.split)
qed

lemma qualified_nonempty: "c \<noteq> [] \<Longrightarrow> strchr c (CHR '':'') = None \<Longrightarrow> qualified_class ns c \<noteq> []"
  by (auto simp: qualified_class_def capped_def CF_MAXVARSIZE_def split: option.split)

text \<open>What is added, and that nothing else changes but the request to abort the bundle.\<close>

lemma HeapAddSoft_effect:
  assumes "EvalContextHeapAddSoft matches ctx context ns = Done ctx'" "ctx_wf ctx"
    and "CanonifyNameInPlace (Chop context) \<noteq> []"
  obtains b s where "ctx' = ctx\<lparr>heap_soft := s, ABORTBUNDLE := b\<rparr>" "str_keys.map_inv s"
    "\<And>c. StringSetContains s c \<longleftrightarrow>
       c = qualified_class ns (CanonifyNameInPlace (Chop context)) \<or> EvalContextHeapContainsSoft ctx c"
proof -
  let ?n = "CanonifyNameInPlace (Chop context)"
  let ?q = "qualified_class ns ?n"
  have len: "length context < CF_MAXVARSIZE"
    using assms(1) by (simp add: EvalContextHeapAddSoft_def split: if_splits)
  have "?q \<noteq> []"
    using assms(3) by (simp add: qualified_nonempty canonified_no_colon)
  with assms(1) len have
    "guarded_add matches ns (last_owner ctx) (EvalContextHeapContainsSoft ctx ?q)
       (\<lambda>ctx1. ctx1\<lparr>heap_soft := StringSetAdd (heap_soft ctx1) ?q\<rparr>) ctx ?q = Done ctx'"
    by (simp add: HeapAddSoft_heap_key qualified_canonified)
  then show thesis
  proof (cases rule: guarded_add_cases)
    case (1 b)
    with assms(2) show thesis
      by (intro that [of b "heap_soft ctx"]) (auto simp: ctx_wf_sets EvalContextHeapContainsSoft_def)
  next
    case (2 b b')
    with assms(2) show thesis
      by (intro that [of b' "StringSetAdd (heap_soft ctx) ?q"])
        (auto simp: ctx_wf_sets EvalContextHeapContainsSoft_def str_set.invar_add str_set.contains_add)
  qed
qed

text \<open>C28. Adding a class to the heap defines it: when \<open>EvalContextHeapAddSoft\<close> returns, the soft classes are
  those of before and the canonified name in its namespace; hard and cancelled classes, the stack
  and the lists of aborting classes are unchanged; and a class expression that names the class, read
  in the same namespace, is true unless the class has been cancelled.\<close>

theorem added_class_holds:
  assumes "EvalContextHeapAddSoft matches ctx context ns = Done ctx'" "ctx_wf ctx"
    and n: "n = CanonifyNameInPlace (Chop context)" "n \<noteq> []"
  shows "(\<forall>c. EvalContextHeapContainsSoft ctx' c = (c = qualified_class ns n \<or> EvalContextHeapContainsSoft ctx c)) \<and>
     (\<forall>c. EvalContextHeapContainsHard ctx' c = EvalContextHeapContainsHard ctx c) \<and>
     (\<forall>c. EvalContextHeapContainsNegated ctx' c = EvalContextHeapContainsNegated ctx c) \<and>
     stack ctx' = stack ctx \<and> heap_abort ctx' = heap_abort ctx \<and>
     heap_abort_current_bundle ctx' = heap_abort_current_bundle ctx \<and>
     IsDefinedClass ctx' (Some n) ns =
       (n = ''any'' \<or> \<not> (EvalContextHeapContainsNegated ctx (qualified_class ns n) \<or>
                        EvalContextStackFrameContainsNegated ctx (qualified_class ns n)))"
proof -
  obtain b s where e: "ctx' = ctx\<lparr>heap_soft := s, ABORTBUNDLE := b\<rparr>"
    and s: "\<And>c. StringSetContains s c \<longleftrightarrow> c = qualified_class ns n \<or> EvalContextHeapContainsSoft ctx c"
    using HeapAddSoft_effect [OF assms(1,2)] n by blast
  have "StackFrameContainsNegatedRecursive ctx' c i = StackFrameContainsNegatedRecursive ctx c i" for c i
    by (induction i) (simp_all add: e)
  then have "EvalContextStackFrameContainsNegated ctx' c = EvalContextStackFrameContainsNegated ctx c" for c
    by (simp add: EvalContextStackFrameContainsNegated_def e)
  then show ?thesis
    using n canonified_token [of "Chop context"]
    by (auto simp: e s IsDefinedClass_name class_holds_def Let_def EvalContextHeapContainsSoft_def
        EvalContextHeapContainsHard_def EvalContextHeapContainsNegated_def)
qed


lemma no_aborts [simp]:
  "\<not> IsRegexItemIn matches ctx [] c" "\<not> abort_defined ctx [] ns"
  by (simp_all add: IsRegexItemIn_def abort_defined_def)

lemma guarded_add_no_aborts:
  assumes "heap_abort ctx = []" "heap_abort_current_bundle ctx = []"
    and "\<And>x. heap_abort (add x) = heap_abort x" 
    and "\<And>x. heap_abort_current_bundle (add x) = heap_abort_current_bundle x"
  shows "guarded_add matches ns owner present add ctx c = Done (if present then ctx else add ctx)"
  using assms by (simp add: guarded_add_def Let_def)

lemma HeapAddSoft_no_aborts:
  assumes "heap_abort ctx = []" "heap_abort_current_bundle ctx = []" "length context < CF_MAXVARSIZE"
  shows "\<exists>s. EvalContextHeapAddSoft matches ctx context ns = Done (ctx\<lparr>heap_soft := s\<rparr>)"
proof -
  let ?q = "heap_key ns context"
  define r where "r = (if ?q = [] \<or> EvalContextHeapContainsSoft ctx ?q then ctx
    else ctx\<lparr>heap_soft := StringSetAdd (heap_soft ctx) ?q\<rparr>)"
  have 1: "EvalContextHeapAddSoft matches ctx context ns = Done r"
    using assms by (simp add: HeapAddSoft_heap_key guarded_add_no_aborts r_def)
  have 2: "r = ctx\<lparr>heap_soft := heap_soft r\<rparr>" by (simp add: r_def)
  show ?thesis by (rule exI, rule trans [OF 1 arg_cong [OF 2, of Done]])
qed

theorem added_class_holds_witness:
  "\<exists>ctx'. EvalContextHeapAddSoft (\<lambda>regex str. regex = str) EvalContextNew ''my-class '' (Some ''mine'') = Done ctx' \<and>
     EvalContextHeapContainsSoft ctx' ''mine:my_class'' \<and> IsDefinedClass ctx' (Some ''my_class'') (Some ''mine'')"
proof -
  let ?n = "CanonifyNameInPlace (Chop ''my-class '')"
  have n: "?n = ''my_class''" by code_simp
  have q: "qualified_class (Some ''mine'') ''my_class'' = ''mine:my_class''"
    by (simp add: qualified_class_def capped_def CF_MAXVARSIZE_def strchr_None strcmp_eq_0)
  have neg: "\<not> EvalContextHeapContainsNegated EvalContextNew c"
    "\<not> EvalContextStackFrameContainsNegated EvalContextNew c" for c
    by (simp_all add: EvalContextHeapContainsNegated_def EvalContextNew_def str_set.contains_new
        EvalContextStackFrameContainsNegated_def)
  obtain ctx' where add: "EvalContextHeapAddSoft (\<lambda>regex str. regex = str) EvalContextNew ''my-class '' (Some ''mine'') = Done ctx'"
    using HeapAddSoft_no_aborts [of EvalContextNew "''my-class ''"]
    by (fastforce simp: EvalContextNew_def CF_MAXVARSIZE_def)
  from added_class_holds [OF add ctx_wf_new n [symmetric]] add neg show ?thesis
    by (simp add: q)
qed

section \<open>Classes that abort\<close>

lemma IsDefinedClass_cong:
  assumes "\<And>c. class_holds ctx ns c = class_holds ctx' ns c"
  shows "IsDefinedClass ctx e ns = IsDefinedClass ctx' e ns"
proof -
  have "EvalTokenAsClass ctx ns = EvalTokenAsClass ctx' ns"
    by (simp add: fun_eq_iff EvalTokenAsClass_holds assms)
  then show ?thesis by (simp add: IsDefinedClass_def split: option.split)
qed

lemma negated_recursive_cong:
  "stack ctx' = stack ctx \<Longrightarrow>
   StackFrameContainsNegatedRecursive ctx' c i = StackFrameContainsNegatedRecursive ctx c i"
  by (induction i) simp_all

lemma soft_recursive_cong:
  "stack ctx' = stack ctx \<Longrightarrow>
   StackFrameContainsSoftRecursive ctx' c i = StackFrameContainsSoftRecursive ctx c i"
  by (induction i) simp_all

lemma class_holds_cong:
  assumes "stack ctx' = stack ctx"
    and "\<And>c. EvalContextHeapContainsSoft ctx' c = EvalContextHeapContainsSoft ctx c"
    and "heap_hard ctx' = heap_hard ctx" "heap_negated ctx' = heap_negated ctx"
  shows "class_holds ctx' ns c = class_holds ctx ns c"
  using assms soft_recursive_cong [OF assms(1)] negated_recursive_cong [OF assms(1)]
  by (simp add: class_holds_def Let_def EvalContextStackFrameContainsSoft_def
      EvalContextStackFrameContainsNegated_def EvalContextHeapContainsHard_def
      EvalContextHeapContainsNegated_def)

lemma IsDefinedClass_flag [simp]: "IsDefinedClass (ctx\<lparr>ABORTBUNDLE := b\<rparr>) e ns = IsDefinedClass ctx e ns"
  by (rule IsDefinedClass_cong, rule class_holds_cong) (simp_all add: EvalContextHeapContainsSoft_def)

lemma abort_flag [simp]:
  "IsRegexItemIn matches (ctx\<lparr>ABORTBUNDLE := b\<rparr>) l c = IsRegexItemIn matches ctx l c"
  "abort_defined (ctx\<lparr>ABORTBUNDLE := b\<rparr>) l ns = abort_defined ctx l ns"
  by (simp_all add: IsRegexItemIn_def abort_defined_def cong: if_cong)

lemma abort_defined_flag_soft [simp]:
  "abort_defined (ctx\<lparr>ABORTBUNDLE := b, heap_soft := s\<rparr>) l ns = abort_defined (ctx\<lparr>heap_soft := s\<rparr>) l ns"
proof -
  have "ctx\<lparr>ABORTBUNDLE := b, heap_soft := s\<rparr> = ctx\<lparr>heap_soft := s, ABORTBUNDLE := b\<rparr>"
    by (cases ctx) simp
  then show ?thesis by (simp only: abort_flag)
qed

lemma abort_defined_present:
  assumes "ctx_wf ctx" "EvalContextHeapContainsSoft ctx q"
  shows "abort_defined (ctx\<lparr>heap_soft := StringSetAdd (heap_soft ctx) q\<rparr>) l ns = abort_defined ctx l ns"
proof -
  have "IsDefinedClass (ctx\<lparr>heap_soft := StringSetAdd (heap_soft ctx) q\<rparr>) e ns = IsDefinedClass ctx e ns" for e
    by (rule IsDefinedClass_cong, rule class_holds_cong)
      (use assms in \<open>auto simp: EvalContextHeapContainsSoft_def str_set.contains_add ctx_wf_sets\<close>)
  then show ?thesis by (simp add: abort_defined_def)
qed

text \<open>C29. The agent stops exactly when a class that aborts it becomes true: from a state where no class
  expression of \<open>abortclasses\<close> holds, adding a class ends the program with status 1 when the class
  matches an entry of the list, or when with it one of the expressions holds; otherwise it returns, and in
  the new state still none holds.\<close>

theorem abort_classes_stop:
  assumes "ctx_wf ctx" "\<not> abort_defined ctx (heap_abort ctx) ns" "stack ctx \<noteq> []"
    and "length context < CF_MAXVARSIZE" "CanonifyNameInPlace (Chop context) \<noteq> []"
    and q: "q = qualified_class ns (CanonifyNameInPlace (Chop context))"
  shows "if IsRegexItemIn matches ctx (heap_abort ctx) q \<or>
            abort_defined (ctx\<lparr>heap_soft := StringSetAdd (heap_soft ctx) q\<rparr>) (heap_abort ctx) ns
         then EvalContextHeapAddSoft matches ctx context ns = Exit1
         else \<exists>ctx'. EvalContextHeapAddSoft matches ctx context ns = Done ctx' \<and>
                \<not> abort_defined ctx' (heap_abort ctx') ns"
proof -
  have owner: "last_owner ctx \<noteq> None"
    using assms(3) by (simp add: last_owner_def frame_at_def LastStackFrame_def)
  have q0: "q \<noteq> []"
    using assms(5) by (simp add: q qualified_nonempty canonified_no_colon)
  then have "EvalContextHeapAddSoft matches ctx context ns =
      guarded_add matches ns (last_owner ctx) (EvalContextHeapContainsSoft ctx q)
        (\<lambda>ctx1. ctx1\<lparr>heap_soft := StringSetAdd (heap_soft ctx1) q\<rparr>) ctx q"
    using assms(4) by (simp add: HeapAddSoft_heap_key qualified_canonified q)
  then show ?thesis
    using assms(2) owner abort_defined_present [OF assms(1)]
    by (auto simp: guarded_add_def Let_def)
qed


theorem abort_classes_stop_witness:
  "EvalContextHeapAddSoft (\<lambda>regex str. regex = str)
     (EvalContextStackPushFrame (EvalContextHeapAddAbort EvalContextNew ''off|stop'' None)
        (StackFrameNewBundle \<lparr>bundle_ns = ''default'', bundle_name = ''main'', bundle_type = ''agent''\<rparr> False))
     ''stop'' None = Exit1"
proof -
  let ?ctx = "EvalContextStackPushFrame (EvalContextHeapAddAbort EvalContextNew ''off|stop'' None)
     (StackFrameNewBundle \<lparr>bundle_ns = ''default'', bundle_name = ''main'', bundle_type = ''agent''\<rparr> False)"
  let ?ctx1 = "?ctx\<lparr>heap_soft := StringSetAdd (heap_soft ?ctx) ''stop''\<rparr>"
  let ?e = "OR (EVAL (LITERAL ''off'')) (EVAL (LITERAL ''stop''))"
  have wf: "ctx_wf ?ctx"
    by (simp add: ctx_wf_def EvalContextStackPushFrame_def EvalContextHeapAddAbort_def name_in_def
        EvalContextNew_def str_set.invar_new frame_wf_def StackFrameNewBundle_def)
  have list: "heap_abort ?ctx = [(''off|stop'', None)]"
    by (simp add: EvalContextStackPushFrame_def EvalContextHeapAddAbort_def name_in_def EvalContextNew_def)
  have n: "CanonifyNameInPlace (Chop ''stop'') = ''stop''" by code_simp
  have e: "show_expression ?e = ''off|stop''" "wf_expression ?e" "ground ?e"
    by (simp_all add: parens_def) code_simp
  have sets: "heap_soft ?ctx = SetNew" "heap_hard ?ctx = SetNew" "heap_negated ?ctx = SetNew"
    by (simp_all add: EvalContextStackPushFrame_def EvalContextHeapAddAbort_def name_in_def EvalContextNew_def)
  have stack: "stack ?ctx = [\<lparr>inherits_previous = False,
      data = BundleFrame \<lparr>bundle_ns = ''default'', bundle_name = ''main'', bundle_type = ''agent''\<rparr> SetNew SetNew\<rparr>]"
    by (simp add: EvalContextStackPushFrame_def EvalContextHeapAddAbort_def name_in_def EvalContextNew_def
        StackFrameNewBundle_def)
  have q: "qualified_class None ''stop'' = ''stop''" "qualified_class None ''off'' = ''off''"
    by (simp_all add: qualified_class_def capped_def CF_MAXVARSIZE_def strchr_None)
  note holds_simps = class_holds_def EvalContextHeapContainsSoft_def EvalContextHeapContainsHard_def
    EvalContextHeapContainsNegated_def EvalContextStackFrameContainsSoft_def
    EvalContextStackFrameContainsNegated_def frame_contexts_def frame_negated_def
  have before: "\<not> abort_defined ?ctx (heap_abort ?ctx) None"
    using IsDefinedClass_expression [OF e(2,3), of ?ctx None]
    unfolding e(1) list abort_defined_def
    by (simp add: holds_simps q sets stack literal_def str_set.contains_new)
  have after: "abort_defined ?ctx1 (heap_abort ?ctx) None"
    using IsDefinedClass_expression [OF e(2,3), of ?ctx1 None]
    unfolding e(1) list abort_defined_def
    by (simp add: holds_simps q sets stack literal_def str_set.contains_new str_set.contains_add str_set.invar_new)
  from abort_classes_stop [OF wf before, of "''stop''" "''stop''" "\<lambda>regex str. regex = str"] after
  show ?thesis
    by (simp add: n q stack CF_MAXVARSIZE_def)
qed

section \<open>Persistent classes\<close>

lemma scan_state_key_show:
  assumes "ns \<noteq> []" "CHR '':'' \<notin> set ns" "CHR 0x0A \<notin> set c"
  shows "scan_state_key (ns @ '':'' @ c) = (ns, c)"
proof -
  have "takeWhile (\<lambda>x. x \<noteq> CHR '':'') (ns @ '':'' @ c) = ns"
    using assms(2) by (induction ns) auto
  moreover have "takeWhile (\<lambda>x. x \<noteq> CHR 0x0A) c = c"
    using assms(3) by (induction c) auto
  ultimately show ?thesis using assms(1) by (simp add: scan_state_key_def)
qed

definition loads :: "string \<Rightarrow> bool" where
  "loads key \<longleftrightarrow> length key < CF_MAXVARSIZE"

lemma load_class_no_aborts:
  assumes "heap_abort ctx = []" "heap_abort_current_bundle ctx = []" "loads key"
  shows "\<exists>s. load_class matches ctx key = Done (ctx\<lparr>heap_soft := s\<rparr>)"
proof (cases "strchr key (CHR '':'') = None")
  case True
  with assms show ?thesis by (simp add: load_class_def loads_def HeapAddSoft_no_aborts)
next
  case False
  obtain ns nm where k: "scan_state_key key = (ns, nm)" by fastforce
  then have "length ns \<le> length key" "length nm \<le> length key"
    using length_takeWhile_le [of "\<lambda>c. c \<noteq> CHR '':''" key]
      length_takeWhile_le [of "\<lambda>c. c \<noteq> CHR 0x0A" "drop (length ns + 1) key"]
    by (auto simp: scan_state_key_def Let_def split: if_splits)
  with False k assms show ?thesis
    by (simp add: load_class_def loads_def HeapAddSoft_no_aborts)
qed


text \<open>A name of a class as it stands in a key: canonified and without white space at its end.\<close>

definition plain_class :: "string \<Rightarrow> bool" where
  "plain_class c \<longleftrightarrow> c \<noteq> [] \<and> CanonifyNameInPlace (Chop c) = c"

lemma plain_class_no_newline: "plain_class c \<Longrightarrow> CHR 0x0A \<notin> set c"
proof -
  assume p: "plain_class c"
  have "\<not> ValidTokenCharacter CHR 0x0A" by code_simp
  with canonified_token [of "Chop c"] p show ?thesis
    unfolding plain_class_def list_all_iff by metis
qed

lemma HeapAddSoft_soft:
  assumes "EvalContextHeapAddSoft matches ctx context ns = Done ctx'" "ctx_wf ctx"
    and "EvalContextHeapContainsSoft ctx c"
  shows "EvalContextHeapContainsSoft ctx' c"
proof (cases "heap_key ns context = []")
  case True
  with assms show ?thesis by (simp add: HeapAddSoft_heap_key split: if_splits)
next
  case False
  with assms(1) have "guarded_add matches ns (last_owner ctx) (EvalContextHeapContainsSoft ctx (heap_key ns context))
      (\<lambda>ctx1. ctx1\<lparr>heap_soft := StringSetAdd (heap_soft ctx1) (heap_key ns context)\<rparr>) ctx (heap_key ns context) = Done ctx'"
    by (simp add: HeapAddSoft_heap_key split: if_splits)
  then show ?thesis
    by (rule guarded_add_cases)
      (use assms(2,3) in \<open>simp_all add: EvalContextHeapContainsSoft_def str_set.contains_add ctx_wf_sets\<close>)
qed

lemma load_class_add:
  assumes "load_class matches ctx key = Done ctx'"
  obtains nm ns where "EvalContextHeapAddSoft matches ctx nm ns = Done ctx'"
  using assms that by (simp add: load_class_def case_prod_beta Let_def split: if_splits)

lemma load_class_grows:
  assumes "load_class matches ctx key = Done (ctx\<lparr>heap_soft := s\<rparr>)" "EvalContextHeapContainsSoft ctx c" "ctx_wf ctx"
  shows "StringSetContains s c"
proof -
  obtain nm ns where "EvalContextHeapAddSoft matches ctx nm ns = Done (ctx\<lparr>heap_soft := s\<rparr>)"
    using assms(1) by (rule load_class_add)
  from HeapAddSoft_soft [OF this assms(3,2)] show ?thesis
    by (simp add: EvalContextHeapContainsSoft_def)
qed

lemma load_class_adds:
  assumes "load_class matches ctx (ns @ '':'' @ c) = Done (ctx\<lparr>heap_soft := s\<rparr>)" "ctx_wf ctx"
    and "ns \<noteq> []" "CHR '':'' \<notin> set ns" "plain_class c"
  shows "StringSetContains s (qualified_class (Some ns) c)"
proof -
  have "strchr (ns @ '':'' @ c) (CHR '':'') \<noteq> None" by (simp add: strchr_None)
  then have add: "EvalContextHeapAddSoft matches ctx c (Some ns) = Done (ctx\<lparr>heap_soft := s\<rparr>)"
    using assms(1) scan_state_key_show [OF assms(3,4) plain_class_no_newline [OF assms(5)]]
    unfolding load_class_def by (simp split: if_splits)
  have c: "CanonifyNameInPlace (Chop c) = c" "c \<noteq> []" using assms(5) by (auto simp: plain_class_def)
  then have ne: "CanonifyNameInPlace (Chop c) \<noteq> []" by simp
  obtain b s' where e: "ctx\<lparr>heap_soft := s\<rparr> = ctx\<lparr>heap_soft := s', ABORTBUNDLE := b\<rparr>"
    and s': "\<And>x. StringSetContains s' x \<longleftrightarrow> x = qualified_class (Some ns) (CanonifyNameInPlace (Chop c)) \<or>
      EvalContextHeapContainsSoft ctx x"
    using HeapAddSoft_effect [OF add assms(2) ne] by metis
  have "s = s'" using arg_cong [OF e, of heap_soft] by simp
  with s' c show ?thesis by simp
qed

text \<open>What \<open>load_all\<close> makes of a context: the set \<open>s\<close> of soft classes keeps those of before and has the
  class of every entry that has not expired.\<close>

definition loaded :: "int \<Rightarrow> EvalContext \<Rightarrow> StateDB \<Rightarrow> StringSet \<Rightarrow> bool" where
  "loaded now ctx db s \<longleftrightarrow>
     (\<forall>c. EvalContextHeapContainsSoft ctx c \<longrightarrow> StringSetContains s c) \<and>
     (\<forall>ns c q. (ns @ '':'' @ c, q) \<in> set db \<longrightarrow> now \<le> uint (expires q) \<longrightarrow>
        ns \<noteq> [] \<longrightarrow> CHR '':'' \<notin> set ns \<longrightarrow> plain_class c \<longrightarrow>
        StringSetContains s (qualified_class (Some ns) c))"

lemma loadedD:
  "loaded now ctx db s \<Longrightarrow> (ns @ '':'' @ c, q) \<in> set db \<Longrightarrow> now \<le> uint (expires q) \<Longrightarrow>
   ns \<noteq> [] \<Longrightarrow> CHR '':'' \<notin> set ns \<Longrightarrow> plain_class c \<Longrightarrow> StringSetContains s (qualified_class (Some ns) c)"
  unfolding loaded_def by blast

lemma in_fst_filter:
  "k \<in> fst ` set (filter (\<lambda>(k, q). P q) db) \<longleftrightarrow> (\<exists>q. (k, q) \<in> set db \<and> P q)"
  by force

lemma loaded_expired: "loaded now ctx db s \<Longrightarrow> uint (expires q) < now \<Longrightarrow> loaded now ctx ((key, q) # db) s"
  unfolding loaded_def by fastforce

lemma loaded_step:
  assumes load: "load_class matches ctx key = Done (ctx\<lparr>heap_soft := s\<rparr>)" and wf: "ctx_wf ctx"
    and rest: "loaded now (ctx\<lparr>heap_soft := s\<rparr>) db s'"
  shows "loaded now ctx ((key, q) # db) s'"
proof -
  have s: "StringSetContains s' c" if "StringSetContains s c" for c
    using rest that by (simp add: loaded_def EvalContextHeapContainsSoft_def)
  have old: "StringSetContains s' c" if "EvalContextHeapContainsSoft ctx c" for c
    by (rule s, rule load_class_grows [OF load that wf])
  have "StringSetContains s' (qualified_class (Some ns) c)"
    if "key = ns @ '':'' @ c" "ns \<noteq> []" "CHR '':'' \<notin> set ns" "plain_class c" for ns c
    by (rule s, rule load_class_adds [OF load [unfolded that(1)] wf that(2-4)])
  with old rest show ?thesis by (simp add: loaded_def)
qed

lemma load_all_effect:
  assumes "ctx_wf ctx" "heap_abort ctx = []" "heap_abort_current_bundle ctx = []"
    and "\<forall>(k, q) \<in> set db. loads k"
  shows "\<exists>s. load_all matches now ctx db =
       Done (ctx\<lparr>heap_soft := s\<rparr>, filter (\<lambda>(k, q). now \<le> uint (expires q)) db) \<and> loaded now ctx db s"
  using assms
proof (induction db arbitrary: ctx)
  case Nil
  show ?case by (rule exI [of _ "heap_soft ctx"]) (simp add: loaded_def EvalContextHeapContainsSoft_def)
next
  case (Cons e db)
  obtain key q where e: "e = (key, q)" by fastforce
  have rest: "\<forall>(k, q) \<in> set db. loads k" using Cons.prems(4) by simp
  show ?case
  proof (cases "uint (expires q) < now")
    case True
    obtain s where s: "load_all matches now ctx db =
         Done (ctx\<lparr>heap_soft := s\<rparr>, filter (\<lambda>(k, q). now \<le> uint (expires q)) db)" "loaded now ctx db s"
      using Cons.IH [OF Cons.prems(1-3) rest] by blast
    show ?thesis
      by (rule exI [of _ s]) (use True s loaded_expired in \<open>simp add: e\<close>)
  next
    case False
    have "loads key" using Cons.prems(4) e by simp
    then obtain s where load: "load_class matches ctx key = Done (ctx\<lparr>heap_soft := s\<rparr>)"
      using load_class_no_aborts [OF Cons.prems(2,3)] by blast
    let ?ctx = "ctx\<lparr>heap_soft := s\<rparr>"
    have "ctx_wf ?ctx" using ctx_wf_load_class [OF load Cons.prems(1)] .
    from Cons.IH [OF this _ _ rest] Cons.prems(2,3) obtain s' where s': "load_all matches now ?ctx db =
         Done (?ctx\<lparr>heap_soft := s'\<rparr>, filter (\<lambda>(k, q). now \<le> uint (expires q)) db)" "loaded now ?ctx db s'"
      by auto
    show ?thesis
      by (rule exI [of _ s']) (use False load s'(1) loaded_step [OF load Cons.prems(1) s'(2)] in \<open>simp add: e\<close>)
  qed
qed

text \<open>C30. A persistent class comes back until it expires: after \<open>EvalContextHeapPersistentSave\<close> of a class for
  some minutes, loading the database at a later time into a context without aborting classes always
  returns; up to the time of expiry the class is then a soft class of its namespace and its entry is
  kept, and after it the entry is gone.\<close>

theorem persistent_class_returns:
  assumes "ctx_wf ctx" "heap_abort ctx = []" "heap_abort_current_bundle ctx = []"
    and db: "distinct (map fst db)" "\<forall>(k, q) \<in> set db. loads k"
    and key: "ns \<noteq> []" "CHR '':'' \<notin> set ns" "plain_class c" "loads (ns @ '':'' @ c)"
    and fresh: "\<forall>q. map_of db (ns @ '':'' @ c) = Some q \<longrightarrow> policy q = CONTEXT_STATE_POLICY_RESET"
    and time: "0 \<le> now" "now + 60 * uint ttl < 2 ^ 32"
    and saved: "db' = EvalContextHeapPersistentSave now db c ns ttl pol"
  shows "\<exists>ctx' db''. EvalContextHeapPersistentLoadAll matches False later ctx db' = Done (ctx', db'') \<and>
     (later \<le> now + 60 * uint ttl \<longrightarrow>
        EvalContextHeapContainsSoft ctx' (qualified_class (Some ns) c) \<and> ns @ '':'' @ c \<in> fst ` set db'') \<and>
     (now + 60 * uint ttl < later \<longrightarrow> ns @ '':'' @ c \<notin> fst ` set db'')"
proof -
  let ?k = "ns @ '':'' @ c"
  let ?st = "\<lparr>expires = word_of_int now + ttl * 60, policy = pol\<rparr>"
  have len: "take (CF_BUFSIZE - 1) ?k = ?k"
    using key(4) by (simp add: loads_def CF_BUFSIZE_def CF_MAXVARSIZE_def)
  have db': "db' = WriteDB db ?k ?st"
    using fresh unfolding saved EvalContextHeapPersistentSave_def Let_def len
    by (auto split: option.split)
  have exp: "uint (expires ?st) = now + 60 * uint ttl"
    using time by (simp add: uint_word_ariths uint_word_of_int mod_simps mult.commute)
  have dist: "distinct (map fst db')" by (simp add: db' db(1) distinct_WriteDB)
  have mem: "(?k, q) \<in> set db' \<longleftrightarrow> q = ?st" for q
    using map_of_eq_Some_iff [OF dist, of ?k q] by (auto simp: db' map_of_WriteDB)
  have "\<forall>x \<in> fst ` set db'. loads x"
    using db(2) key(4) keys_WriteDB [of db ?k ?st] by (auto simp: db')
  then have "\<forall>(k, q) \<in> set db'. loads k" by fastforce
  from load_all_effect [OF assms(1-3) this] obtain s where s:
    "load_all matches later ctx db' = Done (ctx\<lparr>heap_soft := s\<rparr>, filter (\<lambda>(k, q). later \<le> uint (expires q)) db')"
    "loaded later ctx db' s"
    by blast
  have kept: "?k \<in> fst ` set (filter (\<lambda>(k, q). later \<le> uint (expires q)) db') \<longleftrightarrow> later \<le> now + 60 * uint ttl"
    unfolding in_fst_filter mem using exp by simp
  have "StringSetContains s (qualified_class (Some ns) c)" if "later \<le> now + 60 * uint ttl"
    by (rule loadedD [OF s(2), of ns c ?st]) (use mem [of ?st] exp that key in simp_all)
  with s(1) kept show ?thesis
    by (simp add: EvalContextHeapPersistentLoadAll_def EvalContextHeapContainsSoft_def)
qed


theorem persistent_class_returns_witness:
  "\<exists>ctx' db''. EvalContextHeapPersistentLoadAll (\<lambda>regex str. regex = str) False 1200 EvalContextNew
       (EvalContextHeapPersistentSave 1000 [] ''seen'' ''mine'' 5 CONTEXT_STATE_POLICY_PRESERVE) = Done (ctx', db'') \<and>
     EvalContextHeapContainsSoft ctx' ''mine:seen''"
proof -
  have plain: "plain_class ''seen''" by code_simp
  have len: "loads (''mine'' @ '':'' @ ''seen'')" by (simp add: loads_def CF_MAXVARSIZE_def)
  have q: "qualified_class (Some ''mine'') ''seen'' = ''mine:seen''"
    by (simp add: qualified_class_def capped_def CF_MAXVARSIZE_def strchr_None)
  have empty: "heap_abort EvalContextNew = []" "heap_abort_current_bundle EvalContextNew = []"
    by (simp_all add: EvalContextNew_def)
  show ?thesis
    using persistent_class_returns [OF ctx_wf_new empty _ _ _ _ plain len _ _ _ refl,
      of "[]" 1000 5 "\<lambda>regex str. regex = str" 1200 CONTEXT_STATE_POLICY_PRESERVE]
    by (auto simp: q)
qed

section \<open>What the namespace does to the removal of classes\<close>

text \<open>\<open>DeleteAllClasses\<close> removes the name as it stands in the policy from the database, where the key of a
  saved class always starts with its namespace: the entry stays.\<close>

lemma unqualified_removal_keeps_entry:
  assumes "CHR '':'' \<notin> set c" "length (ns @ '':'' @ c') < CF_BUFSIZE"
  shows "map_of (EvalContextHeapPersistentRemove (EvalContextHeapPersistentSave now [] c' ns ttl pol) c)
           (ns @ '':'' @ c') \<noteq> None"
proof -
  have "take (CF_BUFSIZE - 1) (ns @ '':'' @ c') = ns @ '':'' @ c'" using assms(2) by simp
  moreover have "ns @ '':'' @ c' \<noteq> c" using assms(1) by auto
  ultimately show ?thesis
    unfolding EvalContextHeapPersistentRemove_def DeleteDB_def EvalContextHeapPersistentSave_def Let_def
    by simp
qed

section \<open>The classes a bundle sees\<close>

lemma frame_soft_recursive:
  "StackFrameContainsSoftRecursive ctx c i \<longleftrightarrow>
     (\<exists>k \<le> i. frame_contexts (stack ctx ! k) c \<and> (\<forall>j. k < j \<and> j \<le> i \<longrightarrow> inherits_previous (stack ctx ! j)))"
proof (induction i)
  case (Suc i)
  have "(\<forall>j. k < j \<and> j \<le> Suc i \<longrightarrow> inherits_previous (stack ctx ! j)) \<longleftrightarrow>
      (\<forall>j. k < j \<and> j \<le> i \<longrightarrow> inherits_previous (stack ctx ! j)) \<and> inherits_previous (stack ctx ! Suc i)"
    if "k \<le> i" for k
    using that by (metis le_Suc_eq le_imp_less_Suc)
  then show ?case
    unfolding StackFrameContainsSoftRecursive.simps Suc.IH by (auto simp: le_Suc_eq)
qed auto

text \<open>A class is seen from the frame of a bundle at or below the last frame, with only inheriting frames above.\<close>

lemma StackFrameContainsSoft_iff:
  "EvalContextStackFrameContainsSoft ctx c \<longleftrightarrow>
     (\<exists>k < length (stack ctx). frame_contexts (stack ctx ! k) c \<and>
        (\<forall>j. k < j \<and> j < length (stack ctx) \<longrightarrow> inherits_previous (stack ctx ! j)))"
proof (cases "length (stack ctx)")
  case (Suc n)
  then show ?thesis
    by (simp add: EvalContextStackFrameContainsSoft_def frame_soft_recursive less_Suc_eq_le)
qed (simp add: EvalContextStackFrameContainsSoft_def)

end
