(* ===== verification/Frames.thy ===== *)
theory Frames
  imports Expand Eval_Classes
begin

text \<open>
  The stack of frames of \<open>libpromises/env_context.c\<close>: pushing the frame of a bundle, a body, a promise and
  a round of a promise, with the scopes and arguments that come with it (\<open>ScopeAugment\<close> and
  \<open>ScopeMapBodyArgs\<close> of \<open>scope.c\<close>, \<open>StringDataType\<close> of \<open>syntax.c\<close>), popping, and the matching of classes.
  Calling a function is a parameter \<open>call\<close>: whether it succeeds and its value; the bundle of a promise
  is a parameter too. Values are expanded to a depth as in \<open>Expand\<close>.
\<close>

section \<open>Failing computations\<close>

fun and_then :: "'a outcome \<Rightarrow> ('a \<Rightarrow> 'b outcome) \<Rightarrow> 'b outcome" where
  "and_then Fault k = Fault"
| "and_then Exit1 k = Exit1"
| "and_then (Done x) k = k x"

definition checked :: "'a option \<Rightarrow> 'a outcome" where
  "checked x = (case x of None \<Rightarrow> Fault | Some y \<Rightarrow> Done y)"

lemma and_then_Done: "and_then x k = Done y \<longleftrightarrow> (\<exists>z. x = Done z \<and> k z = Done y)"
  by (cases x) auto

lemma checked_Done: "checked x = Done y \<longleftrightarrow> x = Some y"
  by (simp add: checked_def split: option.split)

section \<open>Arguments\<close>

type_synonym fncall = "string \<Rightarrow> Rval list \<Rightarrow> bool \<times> Rval"

definition bundle_ref :: "string \<Rightarrow> Bundle \<Rightarrow> VarRef option" where
  "bundle_ref s b = VarRefParseFromBundle s (Some (Some (bundle_ns b), Some (bundle_name b)))"

definition put_ref ::
  "EvalContext \<Rightarrow> VarRef option \<Rightarrow> Rval \<Rightarrow> DataType \<Rightarrow> Scopes \<Rightarrow> Scopes outcome"
where
  "put_ref ctx ref rv dt st =
     and_then (checked ref) (\<lambda>r. and_then (checked (EvalContextVariablePut ctx r rv dt st)) (\<lambda>(_, st'). Done st'))"

text \<open>An argument that is a function call does not look like a reference.\<close>

definition augment_arg ::
  "fncall \<Rightarrow> EvalContext \<Rightarrow> Bundle \<Rightarrow> Bundle option \<Rightarrow> string \<Rightarrow> Rval \<Rightarrow> Scopes \<Rightarrow> Scopes outcome"
where
  "augment_arg call ctx bp pbp lv r st =
     (let put = put_ref ctx (bundle_ref lv bp) in
      case r of
        Scalar s \<Rightarrow>
          if IsNakedVar (Some s) (CHR ''@'') then
            and_then (checked (GetNaked s)) (\<lambda>naked.
            and_then (checked (bundle_ref naked (case pbp of Some b \<Rightarrow> b | None \<Rightarrow> bp))) (\<lambda>ref.
            and_then (checked (EvalContextVariableGet ctx ref True st)) (\<lambda>(_, rv, vtype).
              if vtype \<in> {DATA_TYPE_STRING_LIST, DATA_TYPE_INT_LIST, DATA_TYPE_REAL_LIST} then
                (case rv of ListVal _ \<Rightarrow> put rv DATA_TYPE_STRING_LIST st | _ \<Rightarrow> Fault)
              else put r DATA_TYPE_STRING st)))
          else put r DATA_TYPE_STRING st
      | FnCall f args \<Rightarrow>
          (case snd (call f args) of Scalar v \<Rightarrow> put (Scalar v) DATA_TYPE_STRING st | _ \<Rightarrow> Done st)
      | _ \<Rightarrow> Fault)"

fun augment_args ::
  "fncall \<Rightarrow> EvalContext \<Rightarrow> Bundle \<Rightarrow> Bundle option \<Rightarrow> string list \<Rightarrow> Rval list \<Rightarrow> Scopes \<Rightarrow> Scopes outcome"
where
  "augment_args call ctx bp pbp [] rs st = Done st"
| "augment_args call ctx bp pbp (lv # lvs) [] st = Fault"
| "augment_args call ctx bp pbp (lv # lvs) (r # rs) st =
     and_then (augment_arg call ctx bp pbp lv r st) (augment_args call ctx bp pbp lvs rs)"

definition ScopeAugment ::
  "fncall \<Rightarrow> (Promise \<Rightarrow> Bundle) \<Rightarrow> EvalContext \<Rightarrow> Bundle \<Rightarrow> string list \<Rightarrow> Promise option \<Rightarrow> Rval list \<Rightarrow>
   Scopes \<Rightarrow> Scopes outcome"
where
  "ScopeAugment call PromiseGetBundle ctx bp formals pp arguments st =
     (if length formals \<noteq> length arguments then Exit1
      else augment_args call ctx bp (map_option PromiseGetBundle pp) formals arguments st)"

text \<open>
  \<open>StringDataType\<close>. The type of the variable is only used when its name is as long as the whole string.
\<close>

definition StringDataType :: "EvalContext \<Rightarrow> string \<Rightarrow> Scopes \<Rightarrow> DataType outcome" where
  "StringDataType ctx str st =
     (if str \<noteq> [] \<and> hd str = CHR ''$'' then
        and_then (checked (ExtractInnerCf3VarString (Some str) [])) (\<lambda>(e, var).
          if e = ExNull then Done DATA_TYPE_STRING
          else if IsExpandable var then
            (if length var = length str then Fault else Done DATA_TYPE_STRING)
          else
            and_then (checked (VarRefParse var)) (\<lambda>ref.
            and_then (checked (EvalContextVariableGet ctx ref True st)) (\<lambda>(_, _, dt).
              if length var = length str then Done dt else Done DATA_TYPE_STRING)))
      else Done DATA_TYPE_STRING)"

definition item_type :: "EvalContext \<Rightarrow> Rval \<Rightarrow> Scopes \<Rightarrow> DataType outcome" where
  "item_type ctx r st =
     (case r of Scalar s \<Rightarrow> StringDataType ctx s st | _ \<Rightarrow> Done DATA_TYPE_STRING)"

text \<open>
  \<open>ScopeMapBodyArgs\<close>: the result and the given list, where calls are replaced by their values. A failed
  call leaves its variable undefined; \<open>call_type\<close> is the type of a function, \<open>DATA_TYPE_NONE\<close> when it is
  not known.
\<close>

definition map_body_arg ::
  "fncall \<Rightarrow> (string \<Rightarrow> DataType) \<Rightarrow> EvalContext \<Rightarrow> string option \<Rightarrow> string \<Rightarrow> Rval \<Rightarrow> string \<Rightarrow>
   Scopes \<Rightarrow> (Rval \<times> Scopes) outcome"
where
  "map_body_arg call call_type ctx nsp sc g t st =
     (let put = (\<lambda>rv dt. and_then
           (put_ref ctx (VarRefParseFromNamespaceAndScope t nsp (Some sc) CF_NS (CHR ''.'')) rv dt st)
           (\<lambda>st'. Done (rv, st')))
      in
      and_then (item_type ctx g st) (\<lambda>dtg. and_then (StringDataType ctx t st) (\<lambda>dtt.
        case g of
          Scalar s \<Rightarrow> put g dtg
        | ListVal l \<Rightarrow> put g dtg
        | FnCall f args \<Rightarrow>
            (case call f args of
               (False, _) \<Rightarrow> Done (g, st)
             | (True, Scalar v) \<Rightarrow> put (Scalar v) (call_type f)
             | (True, _) \<Rightarrow> Fault)
        | NoPromisee \<Rightarrow> Fault)))"

fun map_body_args ::
  "fncall \<Rightarrow> (string \<Rightarrow> DataType) \<Rightarrow> EvalContext \<Rightarrow> string option \<Rightarrow> string \<Rightarrow> Rval list \<Rightarrow> string list \<Rightarrow>
   Scopes \<Rightarrow> (Rval list \<times> Scopes) outcome"
where
  "map_body_args call call_type ctx nsp sc (g # gs) (t # ts) st =
     and_then (map_body_arg call call_type ctx nsp sc g t st) (\<lambda>(g', st').
     and_then (map_body_args call call_type ctx nsp sc gs ts st') (\<lambda>(gs', st'').
       Done (g' # gs', st'')))"
| "map_body_args call call_type ctx nsp sc gs ts st = Done (gs, st)"

definition ScopeMapBodyArgs ::
  "fncall \<Rightarrow> (string \<Rightarrow> DataType) \<Rightarrow> EvalContext \<Rightarrow> string option \<Rightarrow> string \<Rightarrow> Rval list \<Rightarrow> string list \<Rightarrow>
   Scopes \<Rightarrow> (bool \<times> Rval list \<times> Scopes) outcome"
where
  "ScopeMapBodyArgs call call_type ctx nsp sc give take_list st =
     (if length give \<noteq> length take_list then Done (False, give, st)
      else and_then (map_body_args call call_type ctx nsp sc give take_list st)
        (\<lambda>(give', st'). Done (True, give', st')))"

section \<open>Pushing frames\<close>

text \<open>The scope is made when it is missing.\<close>

definition ensure_scope :: "string option \<Rightarrow> string \<Rightarrow> Scopes \<Rightarrow> Scopes outcome" where
  "ensure_scope nsp nm st =
     and_then (checked (ScopeGet nsp (Some nm) st)) (\<lambda>p.
       if p = None then and_then (checked (ScopeNew nsp nm st)) (\<lambda>(_, st'). Done st') else Done st)"

definition is_edit_bundle :: "Bundle \<Rightarrow> bool" where
  "is_edit_bundle b \<longleftrightarrow> strcmp (bundle_type b) ''edit_line'' = 0 \<or> strcmp (bundle_type b) ''edit_xml'' = 0"

text \<open>The values of a new bundle's variables are expanded in place, one after the other.\<close>

fun expand_entries ::
  "nat \<Rightarrow> EvalContext \<Rightarrow> string \<Rightarrow> string \<Rightarrow> nat \<Rightarrow> (Rval, DataType) CfAssoc list \<Rightarrow> Scopes \<Rightarrow> Scopes outcome option"
where
  "expand_entries d ctx nsp nm a [] st = Some (Done st)"
| "expand_entries d ctx nsp nm a (e # es) st =
     (case ExpandPrivateRval d ctx (Some nsp) (Some nm) st (rval e) of
        None \<Rightarrow> None
      | Some Fault \<Rightarrow> Some Fault
      | Some Exit1 \<Rightarrow> Some Exit1
      | Some (Done v) \<Rightarrow>
          (case scope_at st a of
             None \<Rightarrow> Some Fault
           | Some s \<Rightarrow>
               expand_entries d ctx nsp nm a es
                 (put_scope st a (s\<lparr>sc_table := assign_entry (sc_table s) (lval e) v (dtype e)\<rparr>))))"

definition expand_scope :: "nat \<Rightarrow> EvalContext \<Rightarrow> string \<Rightarrow> string \<Rightarrow> Scopes \<Rightarrow> Scopes outcome option" where
  "expand_scope d ctx nsp nm st =
     (case ScopeGet (Some nsp) (Some nm) st of
        Some (Some a) \<Rightarrow>
          (case scope_at st a of
             None \<Rightarrow> Some Fault
           | Some s \<Rightarrow> expand_entries d ctx nsp nm a (entries_from (sc_table s) 0) st)
      | _ \<Rightarrow> Some Fault)"

definition top_frame :: "EvalContext \<Rightarrow> StackFrame option" where
  "top_frame ctx = frame_at ctx (LastStackFrame ctx 0)"

definition EvalContextStackPushBundleFrame ::
  "nat \<Rightarrow> fncall \<Rightarrow> (Promise \<Rightarrow> Bundle) \<Rightarrow> EvalContext \<Rightarrow> Bundle \<Rightarrow> string list \<Rightarrow> Rval list \<Rightarrow> bool \<Rightarrow> Scopes \<Rightarrow>
   (EvalContext \<times> Scopes) outcome option"
where
  "EvalContextStackPushBundleFrame d call PromiseGetBundle ctx owner formals args inherits st =
     (if case top_frame ctx of None \<Rightarrow> False | Some f \<Rightarrow> \<not> is_iteration_frame f then Some Fault
      else
        (let ctx1 = EvalContextStackPushFrame ctx (StackFrameNewBundle owner inherits);
             bns = bundle_ns owner; bname = bundle_name owner;
             caller = EvalContextStackGetTopPromise ctx1;
             st3 =
               and_then (ensure_scope (Some bns) bname st) (\<lambda>st1.
               and_then (if is_edit_bundle owner then ensure_scope None ''edit'' st1 else Done st1) (\<lambda>st2.
               if args = [] then Done st2
               else
                 and_then (if caller = None then Done st2 else checked (ScopeClear (Some bns) bname st2))
                   (ScopeAugment call PromiseGetBundle ctx1 owner formals caller args)))
         in case st3 of
              Fault \<Rightarrow> Some Fault
            | Exit1 \<Rightarrow> Some Exit1
            | Done st4 \<Rightarrow>
                map_option (\<lambda>r. and_then r (\<lambda>st5. Done (ctx1, st5))) (expand_scope d ctx1 bns bname st4)))"

text \<open>
  A body is pushed on a promise, or is a control body on the empty stack. The message about a wrong
  number of arguments asks for the promise that refers to the body.
\<close>

definition EvalContextStackPushBodyFrame ::
  "fncall \<Rightarrow> (string \<Rightarrow> DataType) \<Rightarrow> EvalContext \<Rightarrow> string \<Rightarrow> string list \<Rightarrow> Rval list \<Rightarrow> Scopes \<Rightarrow>
   (EvalContext \<times> Rval list \<times> Scopes) outcome"
where
  "EvalContextStackPushBodyFrame call call_type ctx owner formals args st =
     (if case top_frame ctx of None \<Rightarrow> strcmp ''control'' owner \<noteq> 0 | Some f \<Rightarrow> \<not> is_promise_frame f then Fault
      else
        (let ctx1 = EvalContextStackPushFrame ctx (StackFrameNewBody owner) in
         and_then (ensure_scope None ''body'' st) (\<lambda>st1.
         and_then (ScopeMapBodyArgs call call_type ctx1 None ''body'' args formals st1) (\<lambda>(ok, args', st2).
           if \<not> ok \<and> EvalContextStackGetTopPromise ctx1 = None then Fault else Done (ctx1, args', st2)))))"

definition EvalContextStackPushPromiseFrame ::
  "EvalContext \<Rightarrow> Promise \<Rightarrow> Scopes \<Rightarrow> (EvalContext \<times> Scopes) outcome"
where
  "EvalContextStackPushPromiseFrame ctx owner st =
     (if case top_frame ctx of None \<Rightarrow> True | Some f \<Rightarrow> \<not> is_bundle_frame f then Fault
      else
        and_then (ensure_scope None ''this'' st) (\<lambda>st1.
        and_then (checked (ScopePushThis st1)) (\<lambda>st2.
          Done (EvalContextStackPushFrame ctx (StackFrameNewPromise owner), st2))))"

definition EvalContextStackPushPromiseIterationFrame ::
  "EvalContext \<Rightarrow> Promise \<Rightarrow> Scopes \<Rightarrow> (EvalContext \<times> Scopes) outcome"
where
  "EvalContextStackPushPromiseIterationFrame ctx owner st =
     (if case top_frame ctx of None \<Rightarrow> True | Some f \<Rightarrow> \<not> is_promise_frame f then Fault
      else
        and_then (ensure_scope None ''this'' st) (\<lambda>st1.
          Done (EvalContextStackPushFrame ctx (StackFrameNewPromiseIteration owner), st1)))"

definition EvalContextStackPopFrame :: "EvalContext \<Rightarrow> Scopes \<Rightarrow> (EvalContext \<times> Scopes) outcome" where
  "EvalContextStackPopFrame ctx st =
     and_then (checked (top_frame ctx)) (\<lambda>last_frame.
     and_then
       (case data last_frame of
          BundleFrame bp _ _ \<Rightarrow>
            if is_edit_bundle bp then
              and_then (checked (ScopeClearSpecial SPECIAL_SCOPE_EDIT st)) (\<lambda>st1.
                checked (ScopeClear (Some (bundle_ns bp)) (bundle_name bp) st1))
            else Done st
        | PromiseFrame _ \<Rightarrow> checked (ScopePopThis st)
        | _ \<Rightarrow> Done st)
       (\<lambda>st'. Done (ctx\<lparr>stack := butlast (stack ctx)\<rparr>, st')))"

section \<open>Matching classes\<close>

text \<open>
  The elements an iterator over a set returns, in its order. \<open>matches\<close> is a match of the whole text as in
  \<open>FullTextMatch\<close>, \<open>finds\<close> a match somewhere in it as in \<open>StringMatch\<close>.
\<close>

definition SetElements :: "StringSet \<Rightarrow> string list" where
  "SetElements s =
     (case s of
        Array_Map m \<Rightarrow> map fst (am_values m)
      | Hash_Map h \<Rightarrow> map fst (hash_rest h (HashMapIteratorInit h)))"

definition StringSetMatchCount :: "(string \<Rightarrow> string \<Rightarrow> bool) \<Rightarrow> StringSet \<Rightarrow> string \<Rightarrow> nat" where
  "StringSetMatchCount matches s regex = length (filter (matches regex) (SetElements s))"

definition EvalContextHeapMatchCountSoft :: "(string \<Rightarrow> string \<Rightarrow> bool) \<Rightarrow> EvalContext \<Rightarrow> string \<Rightarrow> nat" where
  "EvalContextHeapMatchCountSoft matches ctx regex = StringSetMatchCount matches (heap_soft ctx) regex"

definition EvalContextHeapMatchCountHard :: "(string \<Rightarrow> string \<Rightarrow> bool) \<Rightarrow> EvalContext \<Rightarrow> string \<Rightarrow> nat" where
  "EvalContextHeapMatchCountHard matches ctx regex = StringSetMatchCount matches (heap_hard ctx) regex"

text \<open>The classes of the last bundle.\<close>

definition last_contexts :: "EvalContext \<Rightarrow> StringSet outcome" where
  "last_contexts ctx =
     (case LastStackFrameBundle ctx of
        Some (Some i) \<Rightarrow> (case data (stack ctx ! i) of BundleFrame _ contexts _ \<Rightarrow> Done contexts | _ \<Rightarrow> Fault)
      | _ \<Rightarrow> Fault)"

definition EvalContextStackFrameMatchCountSoft ::
  "(string \<Rightarrow> string \<Rightarrow> bool) \<Rightarrow> EvalContext \<Rightarrow> string \<Rightarrow> nat outcome"
where
  "EvalContextStackFrameMatchCountSoft matches ctx regex =
     (if stack ctx = [] then Done 0
      else and_then (last_contexts ctx) (\<lambda>s. Done (StringSetMatchCount matches s regex)))"

definition StringSetAddAllMatching ::
  "(string \<Rightarrow> string \<Rightarrow> bool) \<Rightarrow> StringSet \<Rightarrow> StringSet \<Rightarrow> string \<Rightarrow> StringSet"
where
  "StringSetAddAllMatching finds base filtered regex =
     foldl StringSetAdd base (filter (finds regex) (SetElements filtered))"

definition EvalContextHeapAddMatchingSoft ::
  "(string \<Rightarrow> string \<Rightarrow> bool) \<Rightarrow> EvalContext \<Rightarrow> StringSet \<Rightarrow> string \<Rightarrow> StringSet"
where
  "EvalContextHeapAddMatchingSoft finds ctx base regex = StringSetAddAllMatching finds base (heap_soft ctx) regex"

definition EvalContextHeapAddMatchingHard ::
  "(string \<Rightarrow> string \<Rightarrow> bool) \<Rightarrow> EvalContext \<Rightarrow> StringSet \<Rightarrow> string \<Rightarrow> StringSet"
where
  "EvalContextHeapAddMatchingHard finds ctx base regex = StringSetAddAllMatching finds base (heap_hard ctx) regex"

definition EvalContextStackFrameAddMatchingSoft ::
  "(string \<Rightarrow> string \<Rightarrow> bool) \<Rightarrow> EvalContext \<Rightarrow> StringSet \<Rightarrow> string \<Rightarrow> StringSet outcome"
where
  "EvalContextStackFrameAddMatchingSoft finds ctx base regex =
     (if stack ctx = [] then Done base
      else and_then (last_contexts ctx) (\<lambda>s. Done (StringSetAddAllMatching finds base s regex)))"

section \<open>The shape of the stack\<close>

datatype StackFrameType = STACK_FRAME_TYPE_BUNDLE | STACK_FRAME_TYPE_PROMISE
  | STACK_FRAME_TYPE_PROMISE_ITERATION | STACK_FRAME_TYPE_BODY

definition frame_type :: "StackFrame \<Rightarrow> StackFrameType" where
  "frame_type f =
     (case data f of
        BundleFrame _ _ _ \<Rightarrow> STACK_FRAME_TYPE_BUNDLE
      | PromiseFrame _ \<Rightarrow> STACK_FRAME_TYPE_PROMISE
      | PromiseIterationFrame _ \<Rightarrow> STACK_FRAME_TYPE_PROMISE_ITERATION
      | BodyFrame _ \<Rightarrow> STACK_FRAME_TYPE_BODY)"

definition types :: "EvalContext \<Rightarrow> StackFrameType list" where
  "types ctx = map frame_type (stack ctx)"

text \<open>Which frame may be pushed on which, and which may be the first.\<close>

definition may_follow :: "StackFrameType \<Rightarrow> StackFrameType \<Rightarrow> bool" where
  "may_follow a b \<longleftrightarrow>
     (a, b) \<in> {(STACK_FRAME_TYPE_BUNDLE, STACK_FRAME_TYPE_PROMISE),
       (STACK_FRAME_TYPE_PROMISE, STACK_FRAME_TYPE_PROMISE_ITERATION),
       (STACK_FRAME_TYPE_PROMISE, STACK_FRAME_TYPE_BODY),
       (STACK_FRAME_TYPE_PROMISE_ITERATION, STACK_FRAME_TYPE_BUNDLE)}"

definition stack_ok :: "StackFrameType list \<Rightarrow> bool" where
  "stack_ok ts \<longleftrightarrow>
     (ts \<noteq> [] \<longrightarrow> hd ts \<in> {STACK_FRAME_TYPE_BUNDLE, STACK_FRAME_TYPE_BODY}) \<and> successively may_follow ts"

lemma stack_ok_Nil [simp]: "stack_ok []"
  by (simp add: stack_ok_def)

lemma stack_ok_snoc:
  "stack_ok (ts @ [t]) \<longleftrightarrow>
     stack_ok ts \<and> (if ts = [] then t \<in> {STACK_FRAME_TYPE_BUNDLE, STACK_FRAME_TYPE_BODY} else may_follow (last ts) t)"
  by (auto simp: stack_ok_def successively_append_iff hd_append)

lemma stack_ok_butlast: "stack_ok ts \<Longrightarrow> stack_ok (butlast ts)"
  by (cases ts rule: rev_cases) (auto simp: stack_ok_snoc)

text \<open>The frames of a well-formed stack, read from the top.\<close>

lemma stack_ok_top:
  assumes "stack_ok ts" "ts \<noteq> []" "ts \<noteq> [STACK_FRAME_TYPE_BODY]"
  obtains (1) us where "ts = us @ [STACK_FRAME_TYPE_BUNDLE]"
    | (2) us where "ts = us @ [STACK_FRAME_TYPE_BUNDLE, STACK_FRAME_TYPE_PROMISE]"
    | (3) us where "ts = us @ [STACK_FRAME_TYPE_BUNDLE, STACK_FRAME_TYPE_PROMISE, STACK_FRAME_TYPE_PROMISE_ITERATION]"
    | (4) us where "ts = us @ [STACK_FRAME_TYPE_BUNDLE, STACK_FRAME_TYPE_PROMISE, STACK_FRAME_TYPE_BODY]"
proof -
  have below: "\<exists>vs. us = vs @ [STACK_FRAME_TYPE_BUNDLE]" if "stack_ok (us @ [STACK_FRAME_TYPE_PROMISE])" for us
  proof -
    from that have "if us = [] then False else last us = STACK_FRAME_TYPE_BUNDLE"
      unfolding stack_ok_snoc by (auto simp: may_follow_def split: if_splits)
    then show ?thesis by (metis append_butlast_last_id)
  qed
  obtain us t where ts: "ts = us @ [t]" using assms(2) by (cases ts rule: rev_cases) auto
  have us: "stack_ok us" using assms(1) by (simp add: ts stack_ok_snoc)
  show thesis
  proof (cases t)
    case STACK_FRAME_TYPE_BUNDLE
    with ts that(1) show ?thesis by blast
  next
    case STACK_FRAME_TYPE_PROMISE
    with ts assms(1) below that(2) show ?thesis by fastforce
  next
    case STACK_FRAME_TYPE_PROMISE_ITERATION
    with ts assms(1) have "us \<noteq> []" "last us = STACK_FRAME_TYPE_PROMISE"
      by (auto simp: stack_ok_snoc may_follow_def split: if_splits)
    then have "us = butlast us @ [STACK_FRAME_TYPE_PROMISE]" by (metis append_butlast_last_id)
    with us below obtain vs where "us = vs @ [STACK_FRAME_TYPE_BUNDLE, STACK_FRAME_TYPE_PROMISE]"
      by (metis append.assoc append_Cons append_Nil)
    with ts STACK_FRAME_TYPE_PROMISE_ITERATION that(3) show ?thesis by simp
  next
    case STACK_FRAME_TYPE_BODY
    with ts assms(1,3) have "us \<noteq> []" "last us = STACK_FRAME_TYPE_PROMISE"
      by (auto simp: stack_ok_snoc may_follow_def split: if_splits)
    then have "us = butlast us @ [STACK_FRAME_TYPE_PROMISE]" by (metis append_butlast_last_id)
    with us below obtain vs where "us = vs @ [STACK_FRAME_TYPE_BUNDLE, STACK_FRAME_TYPE_PROMISE]"
      by (metis append.assoc append_Cons append_Nil)
    with ts STACK_FRAME_TYPE_BODY that(4) show ?thesis by simp
  qed
qed

text \<open>The last bundle frame, found by counting from the top.\<close>

definition is_last_bundle :: "StackFrameType list \<Rightarrow> nat \<Rightarrow> bool" where
  "is_last_bundle ts i \<longleftrightarrow>
     i < length ts \<and> ts ! i = STACK_FRAME_TYPE_BUNDLE \<and> STACK_FRAME_TYPE_BUNDLE \<notin> set (drop (Suc i) ts)"

lemma frame_type_iff:
  "frame_type f = STACK_FRAME_TYPE_BUNDLE \<longleftrightarrow> (\<exists>b x y. data f = BundleFrame b x y)"
  "frame_type f = STACK_FRAME_TYPE_PROMISE \<longleftrightarrow> (\<exists>p. data f = PromiseFrame p)"
  "frame_type f = STACK_FRAME_TYPE_PROMISE_ITERATION \<longleftrightarrow> (\<exists>p. data f = PromiseIterationFrame p)"
  "frame_type f = STACK_FRAME_TYPE_BODY \<longleftrightarrow> (\<exists>n. data f = BodyFrame n)"
  by (simp_all add: frame_type_def split: frame_data.split)

lemma LastStackFrameBundle_found:
  assumes "stack_ok (types ctx)" "stack ctx \<noteq> []" "types ctx \<noteq> [STACK_FRAME_TYPE_BODY]"
  shows "\<exists>i. LastStackFrameBundle ctx = Some (Some i) \<and> is_last_bundle (types ctx) i"
proof -
  from assms(2) have "types ctx \<noteq> []" by (simp add: types_def)
  note top = stack_ok_top [OF assms(1) this assms(3)]
  show ?thesis
  proof (cases rule: top)
    case (1 us)
    then obtain fs f where s: "stack ctx = fs @ [f]" "frame_type f = STACK_FRAME_TYPE_BUNDLE"
      by (auto simp: types_def map_eq_append_conv)
    then have "LastStackFrameBundle ctx = Some (Some (length fs))"
      by (auto simp: frame_type_iff LastStackFrameBundle_def frame_at_def LastStackFrame_def)
    with s show ?thesis by (auto simp: is_last_bundle_def types_def nth_append)
  next
    case (2 us)
    then obtain fs f g where s: "stack ctx = fs @ [f, g]" "frame_type f = STACK_FRAME_TYPE_BUNDLE"
        "frame_type g = STACK_FRAME_TYPE_PROMISE"
      by (auto simp: types_def map_eq_append_conv)
    then have "LastStackFrameBundle ctx = Some (Some (length fs))"
      by (auto simp: frame_type_iff LastStackFrameBundle_def frame_at_def LastStackFrame_def
          asserted_bundle_def is_bundle_frame_def nth_append)
    with s show ?thesis by (auto simp: is_last_bundle_def types_def nth_append)
  next
    case (3 us)
    then obtain fs f g h where s: "stack ctx = fs @ [f, g, h]" "frame_type f = STACK_FRAME_TYPE_BUNDLE"
        "frame_type g = STACK_FRAME_TYPE_PROMISE" "frame_type h = STACK_FRAME_TYPE_PROMISE_ITERATION"
      by (auto simp: types_def map_eq_append_conv)
    then have "LastStackFrameBundle ctx = Some (Some (length fs))"
      by (auto simp: frame_type_iff LastStackFrameBundle_def frame_at_def LastStackFrame_def
          asserted_bundle_def is_bundle_frame_def nth_append)
    with s show ?thesis by (auto simp: is_last_bundle_def types_def nth_append)
  next
    case (4 us)
    then obtain fs f g h where s: "stack ctx = fs @ [f, g, h]" "frame_type f = STACK_FRAME_TYPE_BUNDLE"
        "frame_type g = STACK_FRAME_TYPE_PROMISE" "frame_type h = STACK_FRAME_TYPE_BODY"
      by (auto simp: types_def map_eq_append_conv)
    then have "LastStackFrameBundle ctx = Some (Some (length fs))"
      by (auto simp: frame_type_iff LastStackFrameBundle_def frame_at_def LastStackFrame_def
          asserted_bundle_def is_bundle_frame_def is_promise_frame_def nth_append)
    with s show ?thesis by (auto simp: is_last_bundle_def types_def nth_append)
  qed
qed

section \<open>Operations on classes keep the stack\<close>

named_theorems same_types

lemma types_flag [simp]: "types (ctx\<lparr>ABORTBUNDLE := b\<rparr>) = types ctx"
  "types (ctx\<lparr>heap_soft := s\<rparr>) = types ctx" "types (ctx\<lparr>heap_hard := s\<rparr>) = types ctx"
  "types (ctx\<lparr>heap_negated := s\<rparr>) = types ctx" "types (ctx\<lparr>dependency_handles := s\<rparr>) = types ctx"
  "types (ctx\<lparr>promises_done := d\<rparr>) = types ctx" "types (ctx\<lparr>heap_abort := a\<rparr>) = types ctx"
  "types (ctx\<lparr>heap_abort_current_bundle := a\<rparr>) = types ctx"
  by (simp_all add: types_def)

lemma types_update_bundle [simp]: "types (update_bundle ctx i f g) = types ctx"
  by (cases "i < length (stack ctx)")
    (auto simp: update_bundle_def Let_def types_def map_update frame_type_def list_update_beyond
      intro!: nth_equalityI simp: nth_list_update split: frame_data.split)

lemma types_guarded_add:
  assumes "guarded_add matches n owner present add ctx c = Done ctx'" "\<And>x. types (add x) = types x"
  shows "types ctx' = types ctx"
  using assms(1) by (rule guarded_add_cases) (use assms(2) in auto)

lemma types_HeapAddSoft [same_types]:
  "EvalContextHeapAddSoft matches ctx c n = Done ctx' \<Longrightarrow> types ctx' = types ctx"
  by (auto simp: EvalContextHeapAddSoft_def Let_def dest!: types_guarded_add split: if_splits)

lemma types_HeapAddHard [same_types]:
  "EvalContextHeapAddHard matches ctx c = Done ctx' \<Longrightarrow> types ctx' = types ctx"
  by (auto simp: EvalContextHeapAddHard_def Let_def dest!: types_guarded_add split: if_splits)

lemma types_StackFrameAddSoft [same_types]:
  "EvalContextStackFrameAddSoft matches ctx c = Done ctx' \<Longrightarrow> types ctx' = types ctx"
  by (auto simp: EvalContextStackFrameAddSoft_def Let_def dest!: types_guarded_add split: if_splits option.splits)

lemma types_StackFrameAddNegated [same_types]:
  "EvalContextStackFrameAddNegated ctx c = Done ctx' \<Longrightarrow> types ctx' = types ctx"
  by (auto simp: EvalContextStackFrameAddNegated_def split: option.splits)

lemma types_StackFrameRemoveSoft [same_types]:
  "EvalContextStackFrameRemoveSoft ctx c = Done ctx' \<Longrightarrow> types ctx' = types ctx"
  by (auto simp: EvalContextStackFrameRemoveSoft_def split: option.splits)

lemma types_AddAllClasses [same_types]:
  "AddAllClasses matches now n persist pol sc items (ctx, db) = Done (ctx', db') \<Longrightarrow> types ctx' = types ctx"
proof (induction items arbitrary: ctx db)
  case (Cons item items)
  then show ?case
    by (auto simp: Let_def split: if_splits option.splits outcome.splits
        dest!: types_HeapAddSoft types_StackFrameAddSoft)
qed simp

lemma types_HeapRemove [simp]:
  "types (snd (EvalContextHeapRemoveSoft ctx c)) = types ctx"
  "types (snd (EvalContextHeapRemoveHard ctx c)) = types ctx"
  by (simp_all add: EvalContextHeapRemoveSoft_def EvalContextHeapRemoveHard_def case_prod_beta)

lemma types_DeleteAllClasses [same_types]:
  "DeleteAllClasses matches items (ctx, db) = Done (ctx', db') \<Longrightarrow> types ctx' = types ctx"
proof (induction items arbitrary: ctx db)
  case (Cons item items)
  then show ?case
    by (auto simp: Let_def split: if_splits option.splits outcome.splits dest!: types_StackFrameAddNegated)
qed simp

lemma types_SetPromiseOutcomeClasses [same_types]:
  "SetPromiseOutcomeClasses matches now status pp dc (ctx, db) = Done (ctx', db') \<Longrightarrow> types ctx' = types ctx"
  by (auto simp: SetPromiseOutcomeClasses_def split: prod.splits outcome.splits
      dest!: types_AddAllClasses types_DeleteAllClasses)

lemma types_load_all:
  "load_all matches now ctx db = Done (ctx', db') \<Longrightarrow> types ctx' = types ctx"
proof (induction matches now ctx db arbitrary: db' rule: load_all.induct)
  case (2 matches now ctx key q db)
  have "load_class matches ctx key = Done ctx1 \<Longrightarrow> types ctx1 = types ctx" for ctx1
    by (auto simp: load_class_def split: if_splits prod.splits dest: types_HeapAddSoft)
  with 2 show ?case
    by (auto split: if_splits outcome.splits)
qed simp

lemma types_PersistentLoadAll [same_types]:
  "EvalContextHeapPersistentLoadAll matches l now ctx db = Done (ctx', db') \<Longrightarrow> types ctx' = types ctx"
  by (auto simp: EvalContextHeapPersistentLoadAll_def split: if_splits dest: types_load_all)

text \<open>One operation of the context that is not a push or a pop.\<close>

inductive class_step :: "EvalContext \<Rightarrow> EvalContext \<Rightarrow> bool" where
  heap_soft: "EvalContextHeapAddSoft m ctx c n = Done ctx' \<Longrightarrow> class_step ctx ctx'"
| heap_hard: "EvalContextHeapAddHard m ctx c = Done ctx' \<Longrightarrow> class_step ctx ctx'"
| heap_negated: "class_step ctx (EvalContextHeapAddNegated ctx c)"
| frame_soft: "EvalContextStackFrameAddSoft m ctx c = Done ctx' \<Longrightarrow> class_step ctx ctx'"
| frame_negated: "EvalContextStackFrameAddNegated ctx c = Done ctx' \<Longrightarrow> class_step ctx ctx'"
| remove_soft: "class_step ctx (snd (EvalContextHeapRemoveSoft ctx c))"
| remove_hard: "class_step ctx (snd (EvalContextHeapRemoveHard ctx c))"
| remove_frame_soft: "EvalContextStackFrameRemoveSoft ctx c = Done ctx' \<Longrightarrow> class_step ctx ctx'"
| clear: "class_step ctx (EvalContextHeapClear ctx)"
| abort: "class_step ctx (snd (Abort ctx))"
| add_abort: "class_step ctx (EvalContextHeapAddAbort ctx c a)"
| add_abort_bundle: "class_step ctx (EvalContextHeapAddAbortCurrentBundle ctx c a)"
| promise_done: "class_step ctx (EvalContextMarkPromiseDone ctx p)"
| promise_not_done: "class_step ctx (EvalContextMarkPromiseNotDone ctx p)"
| notify: "class_step ctx (NotifyDependantPromises r ctx pp h)"
| outcome: "SetPromiseOutcomeClasses m now r pp dc (ctx, db) = Done (ctx', db') \<Longrightarrow> class_step ctx ctx'"
| load: "EvalContextHeapPersistentLoadAll m l now ctx db = Done (ctx', db') \<Longrightarrow> class_step ctx ctx'"

lemma class_step_types: "class_step ctx ctx' \<Longrightarrow> types ctx' = types ctx"
  by (induction rule: class_step.induct)
    (auto simp: same_types EvalContextHeapAddNegated_def EvalContextHeapClear_def Abort_def
      EvalContextHeapAddAbort_def EvalContextHeapAddAbortCurrentBundle_def EvalContextMarkPromiseDone_def
      EvalContextMarkPromiseNotDone_def NotifyDependantPromises_def MarkPromiseHandleDone_def
      split: option.split)

lemma class_step_wf: "class_step ctx ctx' \<Longrightarrow> ctx_wf ctx \<Longrightarrow> ctx_wf ctx'"
  by (induction rule: class_step.induct) (auto intro: ctx_laws)

section \<open>Reachable contexts\<close>

inductive frame_step :: "EvalContext \<times> Scopes \<Rightarrow> EvalContext \<times> Scopes \<Rightarrow> bool" where
  push_bundle:
    "EvalContextStackPushBundleFrame d call pb ctx owner formals args inh st = Some (Done (ctx', st')) \<Longrightarrow>
     frame_step (ctx, st) (ctx', st')"
| push_body:
    "EvalContextStackPushBodyFrame call call_type ctx owner formals args st = Done (ctx', args', st') \<Longrightarrow>
     frame_step (ctx, st) (ctx', st')"
| push_promise:
    "EvalContextStackPushPromiseFrame ctx pp st = Done (ctx', st') \<Longrightarrow> frame_step (ctx, st) (ctx', st')"
| push_iteration:
    "EvalContextStackPushPromiseIterationFrame ctx pp st = Done (ctx', st') \<Longrightarrow>
     frame_step (ctx, st) (ctx', st')"
| pop: "EvalContextStackPopFrame ctx st = Done (ctx', st') \<Longrightarrow> frame_step (ctx, st) (ctx', st')"
| classes: "class_step ctx ctx' \<Longrightarrow> frame_step (ctx, st) (ctx', st)"
| variables: "frame_step (ctx, st) (ctx, st')"

inductive reachable :: "EvalContext \<times> Scopes \<Rightarrow> bool" where
  start: "reachable (EvalContextNew, st)"
| step: "reachable s \<Longrightarrow> frame_step s s' \<Longrightarrow> reachable s'"

lemma PushBundle_ctx:
  "EvalContextStackPushBundleFrame d call pb ctx owner formals args inh st = Some (Done (ctx', st')) \<Longrightarrow>
   ctx' = EvalContextStackPushFrame ctx (StackFrameNewBundle owner inh) \<and>
   (\<forall>f. top_frame ctx = Some f \<longrightarrow> is_iteration_frame f)"
  by (auto simp: EvalContextStackPushBundleFrame_def Let_def and_then_Done
      split: if_splits option.splits outcome.splits)

lemma PushBody_ctx:
  "EvalContextStackPushBodyFrame call call_type ctx owner formals args st = Done (ctx', args', st') \<Longrightarrow>
   ctx' = EvalContextStackPushFrame ctx (StackFrameNewBody owner) \<and>
   (\<forall>f. top_frame ctx = Some f \<longrightarrow> is_promise_frame f)"
  by (auto simp: EvalContextStackPushBodyFrame_def Let_def and_then_Done split: if_splits option.splits)

lemma PushPromise_ctx:
  "EvalContextStackPushPromiseFrame ctx pp st = Done (ctx', st') \<Longrightarrow>
   ctx' = EvalContextStackPushFrame ctx (StackFrameNewPromise pp) \<and>
   (\<exists>f. top_frame ctx = Some f \<and> is_bundle_frame f)"
  by (auto simp: EvalContextStackPushPromiseFrame_def and_then_Done split: if_splits option.splits)

lemma PushIteration_ctx:
  "EvalContextStackPushPromiseIterationFrame ctx pp st = Done (ctx', st') \<Longrightarrow>
   ctx' = EvalContextStackPushFrame ctx (StackFrameNewPromiseIteration pp) \<and>
   (\<exists>f. top_frame ctx = Some f \<and> is_promise_frame f)"
  by (auto simp: EvalContextStackPushPromiseIterationFrame_def and_then_Done split: if_splits option.splits)

lemma PopFrame_ctx:
  "EvalContextStackPopFrame ctx st = Done (ctx', st') \<Longrightarrow> ctx' = ctx\<lparr>stack := butlast (stack ctx)\<rparr>"
  by (auto simp: EvalContextStackPopFrame_def and_then_Done)

lemma top_frame_last:
  "top_frame ctx = Some f \<longleftrightarrow> stack ctx \<noteq> [] \<and> last (stack ctx) = f"
  by (auto simp: top_frame_def frame_at_def LastStackFrame_def last_conv_nth)

lemma types_push: "types (EvalContextStackPushFrame ctx f) = types ctx @ [frame_type f]"
  by (simp add: types_def EvalContextStackPushFrame_def)

lemma wf_push: "ctx_wf ctx \<Longrightarrow> frame_wf f \<Longrightarrow> ctx_wf (EvalContextStackPushFrame ctx f)"
  by (simp add: ctx_wf_def EvalContextStackPushFrame_def)

lemma new_frames:
  "frame_wf (StackFrameNewBundle b i)" "frame_wf (StackFrameNewBody n)"
  "frame_wf (StackFrameNewPromise p)" "frame_wf (StackFrameNewPromiseIteration p)"
  "frame_type (StackFrameNewBundle b i) = STACK_FRAME_TYPE_BUNDLE"
  "frame_type (StackFrameNewBody n) = STACK_FRAME_TYPE_BODY"
  "frame_type (StackFrameNewPromise p) = STACK_FRAME_TYPE_PROMISE"
  "frame_type (StackFrameNewPromiseIteration p) = STACK_FRAME_TYPE_PROMISE_ITERATION"
  by (simp_all add: frame_wf_def frame_type_def StackFrameNewBundle_def StackFrameNewBody_def
      StackFrameNewPromise_def StackFrameNewPromiseIteration_def str_set.invar_new)

lemma frame_kinds:
  "is_bundle_frame f \<longleftrightarrow> frame_type f = STACK_FRAME_TYPE_BUNDLE"
  "is_promise_frame f \<longleftrightarrow> frame_type f = STACK_FRAME_TYPE_PROMISE"
  "is_iteration_frame f \<longleftrightarrow> frame_type f = STACK_FRAME_TYPE_PROMISE_ITERATION"
  by (simp_all add: is_bundle_frame_def is_promise_frame_def is_iteration_frame_def frame_type_def
      split: frame_data.split)

lemma push_ok:
  assumes "stack_ok (types ctx)"
    and "if stack ctx = [] then frame_type f \<in> {STACK_FRAME_TYPE_BUNDLE, STACK_FRAME_TYPE_BODY}
      else may_follow (frame_type (last (stack ctx))) (frame_type f)"
  shows "stack_ok (types (EvalContextStackPushFrame ctx f))"
  unfolding types_push stack_ok_snoc using assms by (auto simp: types_def last_map)

lemma frame_step_ok:
  assumes "frame_step s s'" "stack_ok (types (fst s))" "ctx_wf (fst s)"
  shows "stack_ok (types (fst s')) \<and> ctx_wf (fst s')"
  using assms
proof (induction rule: frame_step.induct)
  case (push_bundle d call pb ctx owner formals args inh st ctx' st')
  with PushBundle_ctx [OF push_bundle(1)] show ?case
    by (auto simp: top_frame_last frame_kinds new_frames may_follow_def intro!: push_ok wf_push)
next
  case (push_body call call_type ctx owner formals args st ctx' args' st')
  with PushBody_ctx [OF push_body(1)] show ?case
    by (auto simp: top_frame_last frame_kinds new_frames may_follow_def intro!: push_ok wf_push)
next
  case (push_promise ctx pp st ctx' st')
  with PushPromise_ctx [OF push_promise(1)] show ?case
    by (auto simp: top_frame_last frame_kinds new_frames may_follow_def intro!: push_ok wf_push)
next
  case (push_iteration ctx pp st ctx' st')
  with PushIteration_ctx [OF push_iteration(1)] show ?case
    by (auto simp: top_frame_last frame_kinds new_frames may_follow_def intro!: push_ok wf_push)
next
  case (pop ctx st ctx' st')
  with PopFrame_ctx [OF pop(1)] show ?case
    by (auto simp: types_def map_butlast ctx_wf_def list_all_iff intro: stack_ok_butlast in_set_butlastD)
qed (auto dest: class_step_types class_step_wf)

text \<open>
  C24. Whatever is pushed, popped, defined, cancelled or loaded: the stack is a nest of bundles,
  promises, rounds and bodies, with a control body only alone; all class sets stay well formed; and
  the local classes of the running bundle are found: unless the stack is empty or a lone control
  body, \<open>LastStackFrameBundle\<close> meets no failing assertion and returns the last bundle frame.
\<close>

theorem frames_nest:
  assumes "reachable (ctx, st)"
  shows "ctx_wf ctx \<and> stack_ok (types ctx) \<and>
    (stack ctx \<noteq> [] \<and> types ctx \<noteq> [STACK_FRAME_TYPE_BODY] \<longrightarrow>
      (\<exists>i. LastStackFrameBundle ctx = Some (Some i) \<and> is_last_bundle (types ctx) i))"
proof -
  have "ctx_wf (fst s) \<and> stack_ok (types (fst s))" if "reachable s" for s
    using that
  proof (induction rule: reachable.induct)
    case (start st)
    show ?case using ctx_wf_new by (simp add: types_def EvalContextNew_def)
  next
    case (step s s')
    then show ?case using frame_step_ok by blast
  qed
  from this [OF assms] show ?thesis using LastStackFrameBundle_found by auto
qed

lemma outcome_pair: "x \<noteq> Fault \<Longrightarrow> x \<noteq> Exit1 \<Longrightarrow> \<exists>a b. x = Done (a, b)"
  by (cases x) auto

theorem frames_nest_witness:
  "\<exists>ctx st. types ctx = [STACK_FRAME_TYPE_BUNDLE, STACK_FRAME_TYPE_PROMISE] \<and> reachable (ctx, st) \<and>
     LastStackFrameBundle ctx = Some (Some 0)"
proof -
  define b where "b = \<lparr>bundle_ns = ''default'', bundle_name = ''main'', bundle_type = ''agent''\<rparr>"
  define p where "p = \<lparr>promise_id = 1, promise_ns = ''default'', promise_type = ''files'', promiser = ''/tmp''\<rparr>"
  let ?c1 = "EvalContextStackPushFrame EvalContextNew (StackFrameNewBundle b False)"
  let ?c2 = "EvalContextStackPushFrame ?c1 (StackFrameNewPromise p)"
  have "case EvalContextStackPushBundleFrame 1 (\<lambda>f args. (False, NoPromisee)) (\<lambda>_. b)
      EvalContextNew b [] [] False no_scopes of
        Some (Done (c, st1)) \<Rightarrow> (case EvalContextStackPushPromiseFrame c p st1 of Done _ \<Rightarrow> True | _ \<Rightarrow> False)
      | _ \<Rightarrow> False"
    unfolding b_def p_def by code_simp
  then obtain c1 st1 c2 st2 where
    push: "EvalContextStackPushBundleFrame 1 (\<lambda>f args. (False, NoPromisee)) (\<lambda>_. b)
      EvalContextNew b [] [] False no_scopes = Some (Done (c1, st1))"
      "EvalContextStackPushPromiseFrame c1 p st1 = Done (c2, st2)"
    by (auto split: option.splits) (auto split: outcome.splits dest: outcome_pair)
  have c: "c1 = ?c1" "c2 = ?c2"
    using PushBundle_ctx [OF push(1)] PushPromise_ctx [OF push(2)] by simp_all
  have "reachable (?c2, st2)"
    using reachable.step [OF reachable.step [OF reachable.start push_bundle [OF push(1)]] push_promise [OF push(2)]] c by simp
  moreover have t: "types ?c2 = [STACK_FRAME_TYPE_BUNDLE, STACK_FRAME_TYPE_PROMISE]"
    by (simp add: types_push new_frames) (simp add: types_def EvalContextNew_def)
  moreover have "LastStackFrameBundle ?c2 = Some (Some 0)"
    using frames_nest [OF calculation(1)] t
    by (auto simp: is_last_bundle_def types_def less_Suc_eq_0_disj)
  ultimately show ?thesis by blast
qed

text \<open>
  \<open>StringDataType\<close> never uses the type of a variable: the name is always shorter than the string with
  its brackets. So list arguments of bodies are stored as strings.
\<close>

lemma StringDataType_is_string: "StringDataType ctx s st = Done dt \<Longrightarrow> dt = DATA_TYPE_STRING"
  by (auto simp: StringDataType_def and_then_Done checked_Done split: if_splits dest: ExtractInner_length)

end
