(* ===== verification/Iteration.thy ===== *)
theory Iteration
  imports Variables
begin

text \<open>
  Iteration over lists, \<open>libpromises/iteration.c\<close> and the loop of \<open>ExpandPromiseAndDo\<close> in
  \<open>libpromises/expand.c\<close>: a promise that refers to lists is carried out once for every combination of
  their elements. Every list is a wheel; its elements stand between two blanks \<open>cf_null\<close>, and a wheel
  turns to the next element when the wheels before it have come round.

  The elements are strings: function calls among them are evaluated by a parameter when the wheels
  are made. The position of a wheel is an index, \<open>None\<close> for \<open>NULL\<close>.
\<close>

definition CF_NULL_VALUE :: string where
  "CF_NULL_VALUE = ''cf_null''"

record Wheel =
  wheel_name :: string
  wheel_items :: "string list"
  state_ptr :: "nat option"

text \<open>The position after \<open>i\<close>, \<open>state_ptr->next\<close>.\<close>

definition next_pos :: "string list \<Rightarrow> nat \<Rightarrow> nat option" where
  "next_pos items i = (if Suc i < length items then Some (Suc i) else None)"

definition EndOfIteration :: "Wheel list \<Rightarrow> bool" where
  "EndOfIteration iterator =
     (iterator = [] \<or>
      find_index (\<lambda>w. case state_ptr w of None \<Rightarrow> False | Some i \<Rightarrow> next_pos (wheel_items w) i \<noteq> None) iterator = None)"

definition NullIterators :: "Wheel list \<Rightarrow> bool" where
  "NullIterators iterator =
     (find_index (\<lambda>w. case state_ptr w of None \<Rightarrow> False
        | Some i \<Rightarrow> strcmp (wheel_items w ! i) CF_NULL_VALUE = 0) iterator \<noteq> None)"

text \<open>Back to the first element after the blank, \<open>cp->rval.item->next\<close>.\<close>

definition reset_wheel :: "Wheel \<Rightarrow> Wheel" where
  "reset_wheel w = w\<lparr>state_ptr := next_pos (wheel_items w) 0\<rparr>"

fun IncrementIterationContextInternal :: "Wheel list \<Rightarrow> bool \<times> Wheel list" where
  "IncrementIterationContextInternal [] = (False, [])"
| "IncrementIterationContextInternal (w # ws) =
     (case state_ptr w of
        None \<Rightarrow> (False, w # ws)
      | Some i \<Rightarrow>
          (case next_pos (wheel_items w) i of
             None \<Rightarrow>
               (if ws \<noteq> [] then
                  (case IncrementIterationContextInternal ws of
                     (True, ws') \<Rightarrow> (True, reset_wheel w # ws')
                   | (False, ws') \<Rightarrow> (False, w # ws'))
                else (False, w # ws))
           | Some j \<Rightarrow>
               (let w1 = w\<lparr>state_ptr := Some j\<rparr> in
                if NullIterators (w1 # ws) then
                  (case IncrementIterationContextInternal ws of
                     (True, ws') \<Rightarrow> (True, reset_wheel w # ws')
                   | (False, ws') \<Rightarrow>
                       (let it = w\<lparr>state_ptr := next_pos (wheel_items w) j\<rparr> # ws'
                        in (\<not> EndOfIteration it, it)))
                else (\<not> EndOfIteration (w1 # ws), w1 # ws))))"

definition IncrementIterationContext :: "Wheel list \<Rightarrow> bool \<times> Wheel list" where
  "IncrementIterationContext iterator = IncrementIterationContextInternal iterator"

section \<open>Making the wheels\<close>

text \<open>\<open>RlistAppendOrthog\<close> pads the list and starts after the first blank.\<close>

definition new_wheel :: "string \<Rightarrow> string list \<Rightarrow> Wheel" where
  "new_wheel nm vs =
     \<lparr>wheel_name = nm, wheel_items = CF_NULL_VALUE # vs @ [CF_NULL_VALUE], state_ptr = Some 1\<rparr>"

definition RlistAppendOrthog :: "Wheel list \<Rightarrow> string \<Rightarrow> string list \<Rightarrow> Wheel list" where
  "RlistAppendOrthog start nm vs = start @ [new_wheel nm vs]"

fun list_strings :: "(string \<Rightarrow> Rval list \<Rightarrow> Rval) \<Rightarrow> Rval list \<Rightarrow> string list option" where
  "list_strings call [] = Some []"
| "list_strings call (r # rs) =
     (case (case r of FnCall f args \<Rightarrow> call f args | _ \<Rightarrow> r) of
        Scalar s \<Rightarrow> map_option (\<lambda>l. s # l) (list_strings call rs)
      | _ \<Rightarrow> None)"

fun new_wheels ::
  "(string \<Rightarrow> Rval list \<Rightarrow> Rval) \<Rightarrow> EvalContext \<Rightarrow> string option \<Rightarrow> string option \<Rightarrow> Scopes \<Rightarrow> string list \<Rightarrow>
   Wheel list \<Rightarrow> Wheel list option"
where
  "new_wheels call ctx nsp sc st [] acc = Some acc"
| "new_wheels call ctx nsp sc st (nm # namelist) acc =
     do {
       ref \<leftarrow> VarRefParseFromNamespaceAndScope nm nsp sc CF_NS (CHR ''.'');
       (found, rv, _) \<leftarrow> EvalContextVariableGet ctx ref True st;
       (if \<not> found then new_wheels call ctx nsp sc st namelist acc
        else
          (case rv of
             ListVal l \<Rightarrow> do {
               vs \<leftarrow> list_strings call l;
               new_wheels call ctx nsp sc st namelist (RlistAppendOrthog acc nm vs)
             }
           | _ \<Rightarrow> None))
     }"

definition NewIterationContext ::
  "(string \<Rightarrow> Rval list \<Rightarrow> Rval) \<Rightarrow> EvalContext \<Rightarrow> string option \<Rightarrow> string \<Rightarrow> string list \<Rightarrow> Scopes \<Rightarrow>
   (Wheel list \<times> Scopes) option"
where
  "NewIterationContext call ctx nsp sc namelist st =
     do {
       p \<leftarrow> ScopeGet nsp (Some sc) st;
       st1 \<leftarrow> ScopeCopy None ''this'' (case p of None \<Rightarrow> None | Some a \<Rightarrow> scope_at st a) st;
       ws \<leftarrow> new_wheels call ctx nsp (Some sc) st1 namelist [];
       Some (ws, st1)
     }"

definition DeleteIterationContext :: "Scopes \<Rightarrow> Scopes option" where
  "DeleteIterationContext st = ScopeClearSpecial SPECIAL_SCOPE_THIS st"

section \<open>The values of a round\<close>

text \<open>
  \<open>ScopeDeRefListsInHashtable\<close> of \<open>scope.c\<close>: in the table of the scope every list that has a wheel becomes
  the element the wheel shows. The first result says that the function returns at a wheel without
  element; an item that is put under a type for lists which is not converted is \<open>None\<close>.
\<close>

definition element_type :: "DataType \<Rightarrow> DataType" where
  "element_type dt =
     (case dt of
        DATA_TYPE_STRING_LIST \<Rightarrow> DATA_TYPE_STRING
      | DATA_TYPE_INT_LIST \<Rightarrow> DATA_TYPE_INT
      | DATA_TYPE_REAL_LIST \<Rightarrow> DATA_TYPE_REAL
      | _ \<Rightarrow> dt)"

fun deref_entry :: "Wheel list \<Rightarrow> (Rval, DataType) CfAssoc \<Rightarrow> (bool \<times> (Rval, DataType) CfAssoc) option" where
  "deref_entry [] a = Some (False, a)"
| "deref_entry (w # ws) a =
     (if strcmp (wheel_name w) (lval a) \<noteq> 0 then deref_entry ws a
      else
        (case state_ptr w of
           None \<Rightarrow> Some (True, a)
         | Some i \<Rightarrow>
             if rval_type (rval a) = RVAL_TYPE_SCALAR \<or> element_type (dtype a) \<noteq> dtype a
             then deref_entry ws (NewAssoc (lval a) (Scalar (wheel_items w ! i)) (element_type (dtype a)))
             else None))"

fun deref_table :: "Wheel list \<Rightarrow> (Rval, DataType) CfAssoc list \<Rightarrow> VariableTable \<Rightarrow> VariableTable option" where
  "deref_table ws [] t = Some t"
| "deref_table ws (a # as) t =
     do {
       (stop, a') \<leftarrow> deref_entry ws a;
       (let t' = assign_entry t (lval a) (rval a') (dtype a') in
        if stop then Some t' else deref_table ws as t')
     }"

definition ScopeDeRefListsInHashtable ::
  "string option \<Rightarrow> string \<Rightarrow> string list \<Rightarrow> Wheel list \<Rightarrow> Scopes \<Rightarrow> Scopes option"
where
  "ScopeDeRefListsInHashtable nsp sc namelist dereflist st =
     (if length namelist \<noteq> length dereflist then None
      else if namelist = [] then Some st
      else do {
        p \<leftarrow> ScopeGet nsp (Some sc) st;
        a \<leftarrow> p;
        s \<leftarrow> scope_at st a;
        t \<leftarrow> deref_table dereflist (entries_from (sc_table s) 0) (sc_table s);
        Some (put_scope st a (s\<lparr>sc_table := t\<rparr>))
      })"

section \<open>The rounds of a promise\<close>

text \<open>The increment never turns the wheels back: the measure for the loop.\<close>

definition turns_left :: "string list \<Rightarrow> nat option \<Rightarrow> nat" where
  "turns_left items p = (case p of None \<Rightarrow> 0 | Some i \<Rightarrow> length items - i)"

fun weight :: "Wheel list \<Rightarrow> nat" where
  "weight [] = 0"
| "weight (w # ws) = turns_left (wheel_items w) (state_ptr w) + Suc (length (wheel_items w)) * weight ws"

lemma turns_left_bound: "turns_left items p \<le> length items"
  by (simp add: turns_left_def split: option.split)

lemma turns_left_next: "next_pos items i = Some j \<Longrightarrow>
    turns_left items (Some j) < turns_left items (Some i) \<and>
    turns_left items (next_pos items j) < turns_left items (Some i)"
  by (auto simp: turns_left_def next_pos_def split: if_splits)

lemma weight_increment:
  "weight (snd (IncrementIterationContextInternal ws)) \<le> weight ws \<and>
   (fst (IncrementIterationContextInternal ws) \<longrightarrow> weight (snd (IncrementIterationContextInternal ws)) < weight ws)"
proof (induction ws)
  case (Cons w ws)
  obtain b ws' where inc: "IncrementIterationContextInternal ws = (b, ws')" by fastforce
  let ?L = "length (wheel_items w)"
  have le: "weight ws' \<le> weight ws" and less: "b \<longrightarrow> weight ws' < weight ws" using Cons inc by auto
  have le': "Suc ?L * weight ws' \<le> Suc ?L * weight ws" using le by (rule mult_le_mono2)
  have reset: "weight (reset_wheel w # ws') < weight (w # ws)" if "b"
  proof -
    have "Suc ?L * Suc (weight ws') \<le> Suc ?L * weight ws" using less that by (intro mult_le_mono2) simp
    then show ?thesis
      using turns_left_bound [of "wheel_items w" "next_pos (wheel_items w) 0"] by (simp add: reset_wheel_def)
  qed
  show ?case
  proof (cases "state_ptr w")
    case (Some i)
    show ?thesis
    proof (cases "next_pos (wheel_items w) i")
      case None
      with Some inc reset le' show ?thesis by (cases b) auto
    next
      case j: (Some j)
      show ?thesis
        using Some j inc reset le' turns_left_next [OF j] by (cases b) (auto simp: Let_def)
    qed
  qed simp
qed simp

text \<open>The loop over the rounds, as the list of the wheels of each round.\<close>

function rounds_from :: "Wheel list \<Rightarrow> Wheel list list" where
  "rounds_from ws =
     (case IncrementIterationContext ws of
        (again, ws') \<Rightarrow> ws # (if again then rounds_from ws' else []))"
  by pat_completeness auto

termination
proof (relation "measure weight", simp)
  fix ws ws' :: "Wheel list" and again :: bool
  assume a: "(again, ws') = IncrementIterationContext ws" "again"
  then have "IncrementIterationContextInternal ws = (True, ws')"
    by (simp add: IncrementIterationContext_def)
  with weight_increment [of ws] show "(ws', ws) \<in> measure weight" by simp
qed

declare rounds_from.simps [simp del]

definition cf_null_cutoff :: nat where
  "cf_null_cutoff = 5"

function skip_nulls :: "nat \<Rightarrow> Wheel list \<Rightarrow> Wheel list" where
  "skip_nulls cutoff ws =
     (if NullIterators ws then
        (let ws' = snd (IncrementIterationContext ws) in
         if cf_null_cutoff < cutoff then ws' else skip_nulls (Suc cutoff) ws')
      else ws)"
  by pat_completeness auto
termination
  by (relation "measure (\<lambda>(cutoff, ws). Suc cf_null_cutoff - cutoff)") auto

declare skip_nulls.simps [simp del]

definition ExpandPromiseAndDo_rounds :: "Wheel list \<Rightarrow> Wheel list list" where
  "ExpandPromiseAndDo_rounds lol =
     (if lol \<noteq> [] \<and> EndOfIteration lol then []
      else
        (let lol1 = skip_nulls 0 lol in
         if lol1 \<noteq> [] \<and> EndOfIteration lol1 then [] else rounds_from lol1))"

text \<open>What the wheels show.\<close>

definition shown :: "Wheel \<Rightarrow> string option" where
  "shown w = map_option (\<lambda>i. wheel_items w ! i) (state_ptr w)"

definition shown_values :: "Wheel list \<Rightarrow> string option list" where
  "shown_values ws = map shown ws"


section \<open>All combinations\<close>

text \<open>The combinations of the elements of some lists, the first list turning fastest.\<close>

fun combinations :: "'a list list \<Rightarrow> 'a list list" where
  "combinations [] = [[]]"
| "combinations (l # ls) = concat (map (\<lambda>rest. map (\<lambda>x. x # rest) l) (combinations ls))"

lemma set_combinations: "set (combinations ls) = {xs. list_all2 (\<lambda>x l. x \<in> set l) xs ls}"
  by (induction ls) (auto simp: list_all2_Cons2)

lemma length_combinations: "length (combinations ls) = prod_list (map length ls)"
  by (induction ls) (simp_all add: length_concat comp_def sum_list_triv mult.commute)

definition elems :: "Wheel \<Rightarrow> string list" where
  "elems w = butlast (tl (wheel_items w))"

text \<open>A wheel that shows one of its elements.\<close>

definition turning :: "Wheel \<Rightarrow> bool" where
  "turning w \<longleftrightarrow> wheel_items w = CF_NULL_VALUE # elems w @ [CF_NULL_VALUE] \<and> CF_NULL_VALUE \<notin> set (elems w) \<and>
     (\<exists>p. state_ptr w = Some p \<and> 0 < p \<and> p \<le> length (elems w))"

lemma elems_moved [simp]: "elems (w\<lparr>state_ptr := p\<rparr>) = elems w"
  by (simp add: elems_def)

lemma turning_cases:
  assumes "turning w"
  obtains k where "state_ptr w = Some (Suc k)" "k < length (elems w)" "wheel_items w ! Suc k = elems w ! k"
    "elems w ! k \<noteq> CF_NULL_VALUE" "wheel_items w = CF_NULL_VALUE # elems w @ [CF_NULL_VALUE]"
    "CF_NULL_VALUE \<notin> set (elems w)"
proof -
  from assms obtain p where p: "state_ptr w = Some p" "0 < p" "p \<le> length (elems w)"
    and w: "wheel_items w = CF_NULL_VALUE # elems w @ [CF_NULL_VALUE]" "CF_NULL_VALUE \<notin> set (elems w)"
    by (auto simp: turning_def)
  then obtain k where k: "p = Suc k" by (cases p) auto
  with p have "elems w ! k \<in> set (elems w)" by simp
  then have "elems w ! k \<noteq> CF_NULL_VALUE" using w(2) by metis
  moreover have "wheel_items w ! Suc k = elems w ! k"
    using p k by (subst w(1)) (simp add: nth_append)
  ultimately show thesis using that [of k] p k w by simp
qed

lemma EndOfIteration_Cons [simp]:
  "EndOfIteration (w # ws) \<longleftrightarrow>
     (case state_ptr w of None \<Rightarrow> True | Some i \<Rightarrow> next_pos (wheel_items w) i = None) \<and> EndOfIteration ws"
  by (auto simp: EndOfIteration_def find_index_None split: option.split)

lemma NullIterators_Cons [simp]:
  "NullIterators (w # ws) \<longleftrightarrow>
     (case state_ptr w of None \<Rightarrow> False | Some i \<Rightarrow> wheel_items w ! i = CF_NULL_VALUE) \<or> NullIterators ws"
  unfolding NullIterators_def find_index_None by (auto split: option.split)

lemma iterators_Nil [simp]: "EndOfIteration []" "\<not> NullIterators []"
  by (simp_all add: EndOfIteration_def NullIterators_def)

lemma turning_no_null: "list_all turning ws \<Longrightarrow> \<not> NullIterators ws"
  by (induction ws) (auto elim: turning_cases)

text \<open>The combinations the wheels have still to show, the present one first.\<close>

fun to_come :: "Wheel list \<Rightarrow> string list list" where
  "to_come [] = [[]]"
| "to_come (w # ws) =
     map (\<lambda>x. x # hd (to_come ws)) (drop (the (state_ptr w) - 1) (elems w)) @
     concat (map (\<lambda>rest. map (\<lambda>x. x # rest) (elems w)) (tl (to_come ws)))"

lemma to_come_first:
  "list_all turning ws \<Longrightarrow> to_come ws \<noteq> [] \<and> map Some (hd (to_come ws)) = shown_values ws"
proof (induction ws)
  case (Cons w ws)
  then obtain k where k: "state_ptr w = Some (Suc k)" "k < length (elems w)" "wheel_items w ! Suc k = elems w ! k"
    by (auto elim: turning_cases)
  then have "drop k (elems w) = elems w ! k # drop (Suc k) (elems w)" by (simp add: Cons_nth_drop_Suc)
  with Cons k show ?case by (simp add: shown_values_def shown_def)
qed (simp add: shown_values_def)

lemma to_come_start:
  "to_come ws \<noteq> [] \<Longrightarrow>
   to_come (w\<lparr>state_ptr := Some 1\<rparr> # ws) = concat (map (\<lambda>rest. map (\<lambda>x. x # rest) (elems w)) (to_come ws))"
  by (cases "to_come ws") simp_all

lemma increment_turning:
  "list_all turning ws \<Longrightarrow>
   (case IncrementIterationContextInternal ws of
      (True, ws') \<Rightarrow> list_all turning ws' \<and> tl (to_come ws) = to_come ws'
    | (False, ws') \<Rightarrow> EndOfIteration ws' \<and> tl (to_come ws) = [])"
proof (induction ws)
  case (Cons w ws)
  then have tw: "turning w" and tws: "list_all turning ws" by simp_all
  obtain k where k: "state_ptr w = Some (Suc k)" "k < length (elems w)" "wheel_items w ! Suc k = elems w ! k"
    "wheel_items w = CF_NULL_VALUE # elems w @ [CF_NULL_VALUE]" "CF_NULL_VALUE \<notin> set (elems w)"
    using tw by (rule turning_cases)
  have len: "length (wheel_items w) = length (elems w) + 2" using arg_cong [OF k(4), of length] by simp
  have nxt: "next_pos (wheel_items w) (Suc k) = Some (Suc (Suc k))" using k(2) len by (simp add: next_pos_def)
  have drop: "drop k (elems w) = elems w ! k # drop (Suc k) (elems w)" using k(2) by (simp add: Cons_nth_drop_Suc)
  obtain b ws' where inc: "IncrementIterationContextInternal ws = (b, ws')" by fastforce
  have first: "to_come ws \<noteq> []" using to_come_first [OF tws] by simp
  show ?case
  proof (cases "Suc k < length (elems w)")
    case True
    have item: "wheel_items w ! Suc (Suc k) = elems w ! Suc k"
      using True by (subst k(4)) (simp add: nth_append)
    have item': "elems w ! Suc k \<noteq> CF_NULL_VALUE" using k(5) nth_mem [OF True] by metis
    have "turning (w\<lparr>state_ptr := Some (Suc (Suc k))\<rparr>)" using tw True by (simp add: turning_def)
    moreover have "next_pos (wheel_items w) (Suc (Suc k)) \<noteq> None" using True len by (simp add: next_pos_def)
    ultimately show ?thesis
      using k(1) nxt item item' turning_no_null [OF tws] tws drop first by (simp add: Let_def)
  next
    case False
    then have at_end: "Suc k = length (elems w)" using k(2) by simp
    then have null: "wheel_items w ! Suc (Suc k) = CF_NULL_VALUE" by (subst k(4)) (simp add: nth_append)
    have no_next: "next_pos (wheel_items w) (Suc (Suc k)) = None" using at_end len by (simp add: next_pos_def)
    have reset: "reset_wheel w = w\<lparr>state_ptr := Some 1\<rparr>" using len by (simp add: reset_wheel_def next_pos_def)
    have rest: "drop (Suc k) (elems w) = []" using at_end by simp
    show ?thesis
    proof (cases b)
      case True
      with Cons.IH [OF tws] inc have ws': "list_all turning ws'" "tl (to_come ws) = to_come ws'" by simp_all
      have "turning (reset_wheel w)" using tw k(2) unfolding reset by (auto simp: turning_def)
      moreover have "to_come (reset_wheel w # ws') = concat (map (\<lambda>rest. map (\<lambda>x. x # rest) (elems w)) (to_come ws'))"
        unfolding reset by (rule to_come_start) (use to_come_first [OF ws'(1)] in simp)
      ultimately show ?thesis
        using k(1) nxt null no_next True inc ws' drop rest by (simp add: Let_def)
    next
      case False
      with Cons.IH [OF tws] inc have "EndOfIteration ws'" "tl (to_come ws) = []" by simp_all
      then show ?thesis
        using k(1) nxt null no_next False inc drop rest by (simp add: Let_def)
    qed
  qed
qed simp


lemma rounds_to_come:
  "list_all turning ws \<Longrightarrow> map shown_values (rounds_from ws) = map (map Some) (to_come ws)"
proof (induction ws rule: rounds_from.induct)
  case (1 ws)
  obtain b ws' where inc: "IncrementIterationContext ws = (b, ws')" by fastforce
  have first: "to_come ws = hd (to_come ws) # tl (to_come ws)" "map Some (hd (to_come ws)) = shown_values ws"
    using to_come_first [OF "1.prems"] by simp_all
  show ?case
  proof (cases b)
    case True
    with increment_turning [OF "1.prems"] inc
    have ws': "list_all turning ws'" "tl (to_come ws) = to_come ws'"
      by (simp_all add: IncrementIterationContext_def)
    have "map shown_values (rounds_from ws') = map (map Some) (to_come ws')"
      using "1.IH" [OF inc [symmetric] True ws'(1)] .
    moreover have "rounds_from ws = ws # rounds_from ws'"
      using inc True by (subst rounds_from.simps) simp
    ultimately show ?thesis using first ws'(2) by (metis list.simps(9))
  next
    case False
    with increment_turning [OF "1.prems"] inc have "tl (to_come ws) = []"
      by (simp add: IncrementIterationContext_def)
    moreover have "rounds_from ws = [ws]" using inc False by (subst rounds_from.simps) simp
    ultimately show ?thesis using first by (metis list.simps(8,9))
  qed
qed

lemma elems_new [simp]: "elems (new_wheel nm vs) = vs"
  by (simp add: elems_def new_wheel_def)

lemma turning_new: "vs \<noteq> [] \<Longrightarrow> CF_NULL_VALUE \<notin> set vs \<Longrightarrow> turning (new_wheel nm vs)"
  unfolding turning_def elems_new by (cases vs) (simp_all add: new_wheel_def)

lemma to_come_new:
  "list_all turning (map (\<lambda>(nm, vs). new_wheel nm vs) ls) \<Longrightarrow>
   to_come (map (\<lambda>(nm, vs). new_wheel nm vs) ls) = combinations (map snd ls)"
proof (induction ls)
  case (Cons l ls)
  obtain nm vs where l: "l = (nm, vs)" by fastforce
  have w: "new_wheel nm vs = (new_wheel nm vs)\<lparr>state_ptr := Some 1\<rparr>" by (simp add: new_wheel_def)
  have rest: "list_all turning (map (\<lambda>(nm, vs). new_wheel nm vs) ls)" using Cons.prems by simp
  have "to_come (new_wheel nm vs # map (\<lambda>(nm, vs). new_wheel nm vs) ls) =
      concat (map (\<lambda>rest. map (\<lambda>x. x # rest) vs) (to_come (map (\<lambda>(nm, vs). new_wheel nm vs) ls)))"
    by (subst w, subst to_come_start) (use to_come_first [OF rest] in simp_all)
  with Cons.IH [OF rest] show ?case by (simp add: l)
qed simp



text \<open>Beside a list that only has the blank, a longer one is still gone through from its third element, with the
  other variable left as the list it is; and beside an empty one, far enough into a long list, the
  blank itself is a value.\<close>

lemma blank_list_does_not_stop:
  "map shown_values (ExpandPromiseAndDo_rounds
     [new_wheel ''a'' [''1'', ''2'', ''3'', ''4''], new_wheel ''b'' [''cf_null'']]) =
   [[Some ''3'', None], [Some ''4'', None]]"
  by code_simp

lemma empty_list_does_not_stop:
  "map shown_values (ExpandPromiseAndDo_rounds
     [new_wheel ''b'' [], new_wheel ''a'' [''1'', ''2'', ''3'', ''4'', ''5'', ''6'', ''7'', ''8'', ''9'']]) =
   [[Some ''cf_null'', Some ''8''], [Some ''cf_null'', Some ''9'']]"
  by code_simp

end
