(* ===== verification/Sequence.thy ===== *)
theory Sequence
  imports Prelude "HOL-Library.Multiset" "HOL-Library.Monad_Syntax"
begin

text \<open>
  Sequences, \<open>libutils/sequence.c\<close>: growing arrays. A sequence has its capacity, the items in use, and the
  items that were given to the callback \<open>ItemDestroy\<close>, in order; \<open>destroys\<close> tells whether there is one.
  \<open>None\<close> is a failed assertion or an access outside of the array.
\<close>

record 'a Seq =
  capacity :: nat
  items :: "'a list"
  destroys :: bool
  destroyed :: "'a list"

definition SeqNew :: "nat \<Rightarrow> bool \<Rightarrow> 'a Seq" where
  "SeqNew initialCapacity itemdestroy =
     \<lparr>capacity = (if initialCapacity \<le> 0 then 1 else initialCapacity), items = [],
      destroys = itemdestroy, destroyed = []\<rparr>"

definition EXPAND_FACTOR :: nat where
  "EXPAND_FACTOR = 2"

text \<open>The items from \<open>start\<close> up to and including \<open>last\<close> are destroyed.\<close>

definition DestroyRange :: "'a Seq \<Rightarrow> nat \<Rightarrow> nat \<Rightarrow> 'a Seq" where
  "DestroyRange seq start stop =
     (if destroys seq then seq\<lparr>destroyed := destroyed seq @ take (Suc stop - start) (drop start (items seq))\<rparr>
      else seq)"

text \<open>What is destroyed when the sequence itself goes.\<close>

definition SeqDestroy :: "'a Seq \<Rightarrow> 'a list" where
  "SeqDestroy seq =
     (if length (items seq) > 0 then destroyed (DestroyRange seq 0 (length (items seq) - 1)) else destroyed seq)"

definition ExpandIfNeccessary :: "'a Seq \<Rightarrow> 'a Seq option" where
  "ExpandIfNeccessary seq =
     (if capacity seq < length (items seq) then None
      else if length (items seq) = capacity seq then Some (seq\<lparr>capacity := capacity seq * EXPAND_FACTOR\<rparr>)
      else Some seq)"

definition SeqAppend :: "'a Seq \<Rightarrow> 'a \<Rightarrow> 'a Seq option" where
  "SeqAppend seq item = map_option (\<lambda>s. s\<lparr>items := items s @ [item]\<rparr>) (ExpandIfNeccessary seq)"

fun append_all :: "'a Seq \<Rightarrow> 'a list \<Rightarrow> 'a Seq option" where
  "append_all seq [] = Some seq"
| "append_all seq (x # xs) = do { s \<leftarrow> SeqAppend seq x; append_all s xs }"

definition SeqAppendSeq :: "'a Seq \<Rightarrow> 'a Seq \<Rightarrow> 'a Seq option" where
  "SeqAppendSeq seq new = append_all seq (items new)"

definition drop_range :: "'a Seq \<Rightarrow> nat \<Rightarrow> nat \<Rightarrow> 'a Seq" where
  "drop_range seq start stop = seq\<lparr>items := take start (items seq) @ drop (Suc stop) (items seq)\<rparr>"

definition SeqSoftRemoveRange :: "'a Seq \<Rightarrow> nat \<Rightarrow> nat \<Rightarrow> 'a Seq option" where
  "SeqSoftRemoveRange seq start stop =
     (if stop < length (items seq) \<and> start \<le> stop then Some (drop_range seq start stop) else None)"

definition SeqRemoveRange :: "'a Seq \<Rightarrow> nat \<Rightarrow> nat \<Rightarrow> 'a Seq option" where
  "SeqRemoveRange seq start stop =
     (if stop < length (items seq) \<and> start \<le> stop then Some (drop_range (DestroyRange seq start stop) start stop)
      else None)"

definition SeqRemove :: "'a Seq \<Rightarrow> nat \<Rightarrow> 'a Seq option" where
  "SeqRemove seq index = SeqRemoveRange seq index index"

definition SeqSoftRemove :: "'a Seq \<Rightarrow> nat \<Rightarrow> 'a Seq option" where
  "SeqSoftRemove seq index = SeqSoftRemoveRange seq index index"

definition SeqLength :: "'a Seq \<Rightarrow> nat" where
  "SeqLength seq = length (items seq)"

definition SeqAt :: "'a Seq \<Rightarrow> nat \<Rightarrow> 'a option" where
  "SeqAt seq i = (if i < length (items seq) then Some (items seq ! i) else None)"

text \<open>The comparators are given the key first; the \<open>-1\<close> of \<open>SeqIndexOf\<close> is \<open>None\<close>.\<close>

definition SeqLookup :: "'a Seq \<Rightarrow> 'k \<Rightarrow> ('k \<Rightarrow> 'a \<Rightarrow> int) \<Rightarrow> 'a option" where
  "SeqLookup seq key cmp = List.find (\<lambda>x. cmp key x = 0) (items seq)"

definition SeqIndexOf :: "'a Seq \<Rightarrow> 'k \<Rightarrow> ('k \<Rightarrow> 'a \<Rightarrow> int) \<Rightarrow> nat option" where
  "SeqIndexOf seq key cmp = find_index (\<lambda>x. cmp key x = 0) (items seq)"

section \<open>Sorting\<close>

text \<open>
  The whole array is a list, \<open>l\<close> and \<open>r\<close> are indices into it. A scan that leaves the array is \<open>None\<close>.
\<close>

definition SwapAt :: "'a list \<Rightarrow> nat \<Rightarrow> nat \<Rightarrow> 'a list" where
  "SwapAt xs i j = xs[i := xs ! j, j := xs ! i]"

function scan_up :: "('a \<Rightarrow> 'a \<Rightarrow> int) \<Rightarrow> 'a list \<Rightarrow> 'a \<Rightarrow> int \<Rightarrow> int option" where
  "scan_up cmp xs pivot l =
     (if l < 0 \<or> int (length xs) \<le> l then None
      else if cmp (xs ! nat l) pivot < 0 then scan_up cmp xs pivot (l + 1)
      else Some l)"
  by pat_completeness auto
termination by (relation "measure (\<lambda>(cmp, xs, pivot, l). nat (int (length xs) - l))") auto

function scan_down :: "('a \<Rightarrow> 'a \<Rightarrow> int) \<Rightarrow> 'a list \<Rightarrow> 'a \<Rightarrow> int \<Rightarrow> int option" where
  "scan_down cmp xs pivot r =
     (if r < 0 \<or> int (length xs) \<le> r then None
      else if cmp (xs ! nat r) pivot > 0 then scan_down cmp xs pivot (r - 1)
      else Some r)"
  by pat_completeness auto
termination by (relation "measure (\<lambda>(cmp, xs, pivot, r). nat (r + 1))") auto

declare scan_up.simps [simp del] scan_down.simps [simp del]

lemma scan_up_ge: "scan_up cmp xs p l = Some l' \<Longrightarrow> l \<le> l'"
  by (induction cmp xs p l rule: scan_up.induct) (subst (asm) (2) scan_up.simps, auto split: if_splits)

lemma scan_down_le: "scan_down cmp xs p r = Some r' \<Longrightarrow> r' \<le> r"
  by (induction cmp xs p r rule: scan_down.induct) (subst (asm) (2) scan_down.simps, auto split: if_splits)

function partition_loop ::
  "('a \<Rightarrow> 'a \<Rightarrow> int) \<Rightarrow> 'a \<Rightarrow> 'a list \<Rightarrow> int \<Rightarrow> int \<Rightarrow> ('a list \<times> int \<times> int) option"
where
  "partition_loop cmp pivot xs l r =
     (if \<not> l \<le> r then Some (xs, l, r)
      else
        (case scan_up cmp xs pivot l of
           None \<Rightarrow> None
         | Some l' \<Rightarrow>
             (case scan_down cmp xs pivot r of
                None \<Rightarrow> None
              | Some r' \<Rightarrow>
                  if l' \<le> r' then partition_loop cmp pivot (SwapAt xs (nat l') (nat r')) (l' + 1) (r' - 1)
                  else Some (xs, l', r'))))"
  by pat_completeness auto
termination
  by (relation "measure (\<lambda>(cmp, p, xs, l, r). nat (r - l + 1))") (auto dest!: scan_up_ge scan_down_le)

declare partition_loop.simps [simp del]

text \<open>\<open>data\<close> points to the element \<open>lo\<close>; \<open>maxterm\<close> is the depth, which the code limits.\<close>

function QuickSortRecursive ::
  "('a \<Rightarrow> 'a \<Rightarrow> int) \<Rightarrow> 'a list \<Rightarrow> int \<Rightarrow> int \<Rightarrow> nat \<Rightarrow> 'a list option"
where
  "QuickSortRecursive cmp xs lo n maxterm =
     (if \<not> maxterm < 1000 then None
      else if n < 2 then Some xs
      else
        (case partition_loop cmp (xs ! nat (lo + n div 2)) xs lo (lo + n - 1) of
           None \<Rightarrow> None
         | Some (xs1, l, r) \<Rightarrow>
             (case QuickSortRecursive cmp xs1 lo (r - lo + 1) (maxterm + 1) of
                None \<Rightarrow> None
              | Some xs2 \<Rightarrow> QuickSortRecursive cmp xs2 l (lo + n - l) (maxterm + 1))))"
  by pat_completeness auto
termination by (relation "measure (\<lambda>(cmp, xs, lo, n, maxterm). 1000 - maxterm)") auto

declare QuickSortRecursive.simps [simp del]

definition SeqSort :: "'a Seq \<Rightarrow> ('a \<Rightarrow> 'a \<Rightarrow> int) \<Rightarrow> 'a Seq option" where
  "SeqSort seq cmp =
     map_option (\<lambda>xs. seq\<lparr>items := xs\<rparr>) (QuickSortRecursive cmp (items seq) 0 (int (length (items seq))) 0)"

section \<open>Reversing and shuffling\<close>

definition SeqReverse :: "'a Seq \<Rightarrow> 'a Seq" where
  "SeqReverse seq =
     seq\<lparr>items := foldl (\<lambda>xs i. SwapAt xs i (length xs - 1 - i)) (items seq) [0..<length (items seq) div 2]\<rparr>"

text \<open>
  \<open>rand\<close> gives the numbers after \<open>srand(seed)\<close>. The index starts at the length less one, which
  for an empty sequence wraps around, and the first swap is outside of the array.
\<close>

fun shuffle_loop :: "(nat \<Rightarrow> nat) \<Rightarrow> nat \<Rightarrow> nat \<Rightarrow> 'a list \<Rightarrow> 'a list" where
  "shuffle_loop rand k 0 xs = xs"
| "shuffle_loop rand k (Suc i) xs = shuffle_loop rand (Suc k) i (SwapAt xs (Suc i) (rand k mod (Suc i + 1)))"

definition SeqShuffle :: "(nat \<Rightarrow> nat) \<Rightarrow> 'a Seq \<Rightarrow> 'a Seq option" where
  "SeqShuffle rand seq =
     (if items seq = [] then None
      else Some (seq\<lparr>items := shuffle_loop rand 0 (length (items seq) - 1) (items seq)\<rparr>))"

section \<open>Permuting a part of the array\<close>

text \<open>The arrays that swaps between the indices \<open>lo\<close> and \<open>hi\<close> can make.\<close>

inductive swaps :: "int \<Rightarrow> int \<Rightarrow> 'a list \<Rightarrow> 'a list \<Rightarrow> bool" for lo hi where
  swaps_refl: "swaps lo hi xs xs"
| swaps_step: "swaps lo hi xs ys \<Longrightarrow> lo \<le> i \<Longrightarrow> i < hi \<Longrightarrow> lo \<le> j \<Longrightarrow> j < hi \<Longrightarrow> 0 \<le> i \<Longrightarrow> 0 \<le> j \<Longrightarrow>
    i < int (length xs) \<Longrightarrow> j < int (length xs) \<Longrightarrow> swaps lo hi xs (SwapAt ys (nat i) (nat j))"

lemma length_SwapAt [simp]: "length (SwapAt xs i j) = length xs"
  by (simp add: SwapAt_def)

lemma mset_SwapAt: "i < length xs \<Longrightarrow> j < length xs \<Longrightarrow> mset (SwapAt xs i j) = mset xs"
  unfolding SwapAt_def by (simp add: mset_swap)

lemma nth_SwapAt:
  "i < length xs \<Longrightarrow> j < length xs \<Longrightarrow> k < length xs \<Longrightarrow>
   SwapAt xs i j ! k = (if k = j then xs ! i else if k = i then xs ! j else xs ! k)"
  by (auto simp: SwapAt_def nth_list_update)

lemma swaps_length: "swaps lo hi xs ys \<Longrightarrow> length ys = length xs"
  by (induction rule: swaps.induct) auto

lemma swaps_mset: "swaps lo hi xs ys \<Longrightarrow> mset ys = mset xs"
  by (induction rule: swaps.induct) (auto simp: mset_SwapAt swaps_length)

lemma swaps_trans: "swaps lo hi ys zs \<Longrightarrow> swaps lo hi xs ys \<Longrightarrow> swaps lo hi xs zs"
  by (induction rule: swaps.induct) (auto intro: swaps.intros simp: swaps_length)

lemma swaps_mono: "swaps lo hi xs ys \<Longrightarrow> lo' \<le> lo \<Longrightarrow> hi \<le> hi' \<Longrightarrow> swaps lo' hi' xs ys"
  by (induction rule: swaps.induct) (auto intro: swaps.intros)

lemma swaps_outside:
  "swaps lo hi xs ys \<Longrightarrow> 0 \<le> k \<Longrightarrow> k < int (length xs) \<Longrightarrow> k < lo \<or> hi \<le> k \<Longrightarrow> ys ! nat k = xs ! nat k"
proof (induction rule: swaps.induct)
  case (swaps_step xs ys i j)
  then have "nat k \<noteq> nat i" "nat k \<noteq> nat j" by auto
  with swaps_step swaps_length [OF swaps_step(1)] show ?case by (simp add: nth_SwapAt)
qed simp

lemma swaps_inside:
  assumes "swaps lo hi xs ys" "0 \<le> lo" "hi \<le> int (length xs)"
    and "\<forall>i. lo \<le> i \<and> i < hi \<longrightarrow> P (xs ! nat i)"
  shows "\<forall>i. lo \<le> i \<and> i < hi \<longrightarrow> P (ys ! nat i)"
  using assms
proof (induction rule: swaps.induct)
  case (swaps_step xs ys i j)
  show ?case
  proof (intro allI impI)
    fix k assume "lo \<le> k \<and> k < hi"
    then have "P (ys ! nat i)" "P (ys ! nat j)" "P (ys ! nat k)" "nat k < length ys"
        "nat i < length ys" "nat j < length ys"
      using swaps_step swaps_length [OF swaps_step(1)] by auto
    then show "P (SwapAt ys (nat i) (nat j) ! nat k)"
      by (simp add: nth_SwapAt)
  qed
qed simp

section \<open>Sorting is correct\<close>

lemma scan_up_stops:
  assumes "0 \<le> l" "l \<le> s" "s < int (length xs)" "\<not> cmp (xs ! nat s) p < 0"
  shows "\<exists>l'. scan_up cmp xs p l = Some l' \<and> l \<le> l' \<and> l' \<le> s \<and> \<not> cmp (xs ! nat l') p < 0 \<and>
    (\<forall>i. l \<le> i \<and> i < l' \<longrightarrow> cmp (xs ! nat i) p < 0)"
  using assms(1,2)
proof (induction "nat (s - l)" arbitrary: l)
  case 0
  with assms show ?case by (intro exI [of _ l]) (simp add: scan_up.simps)
next
  case (Suc n)
  show ?case
  proof (cases "cmp (xs ! nat l) p < 0")
    case True
    from Suc have "l + 1 \<le> s" "n = nat (s - (l + 1))" by auto
    with Suc obtain l' where l': "scan_up cmp xs p (l + 1) = Some l'" "l + 1 \<le> l'" "l' \<le> s"
        "\<not> cmp (xs ! nat l') p < 0" "\<forall>i. l + 1 \<le> i \<and> i < l' \<longrightarrow> cmp (xs ! nat i) p < 0"
      by (metis add_increasing2 zero_le_one)
    have "cmp (xs ! nat i) p < 0" if "l \<le> i" "i < l'" for i
      using that True l'(5) by (cases "i = l") auto
    with l' True Suc.prems assms(3) show ?thesis
      by (intro exI [of _ l']) (simp add: scan_up.simps [of cmp xs p l])
  next
    case False
    with Suc.prems assms(3) show ?thesis by (intro exI [of _ l]) (simp add: scan_up.simps)
  qed
qed

lemma scan_down_stops:
  assumes "s \<le> r" "0 \<le> s" "r < int (length xs)" "\<not> cmp (xs ! nat s) p > 0"
  shows "\<exists>r'. scan_down cmp xs p r = Some r' \<and> s \<le> r' \<and> r' \<le> r \<and> \<not> cmp (xs ! nat r') p > 0 \<and>
    (\<forall>i. r' < i \<and> i \<le> r \<longrightarrow> cmp (xs ! nat i) p > 0)"
  using assms(1,3)
proof (induction "nat (r - s)" arbitrary: r)
  case 0
  with assms show ?case by (intro exI [of _ r]) (simp add: scan_down.simps)
next
  case (Suc n)
  show ?case
  proof (cases "cmp (xs ! nat r) p > 0")
    case True
    from Suc have "s \<le> r - 1" "n = nat (r - 1 - s)" "r - 1 < int (length xs)" by auto
    from Suc.hyps(1) [OF this(2,1,3)] obtain r' where r': "scan_down cmp xs p (r - 1) = Some r'" "s \<le> r'" "r' \<le> r - 1"
        "\<not> cmp (xs ! nat r') p > 0" "\<forall>i. r' < i \<and> i \<le> r - 1 \<longrightarrow> cmp (xs ! nat i) p > 0"
      by blast
    have "cmp (xs ! nat i) p > 0" if "r' < i" "i \<le> r" for i
      using that True r'(5) by (cases "i = r") auto
    with r' True Suc.prems assms(2) show ?thesis
      by (intro exI [of _ r']) (simp add: scan_down.simps [of cmp xs p r])
  next
    case False
    with Suc.prems assms(2) show ?thesis by (intro exI [of _ r]) (simp add: scan_down.simps)
  qed
qed

locale comparator =
  fixes cmp :: "'a \<Rightarrow> 'a \<Rightarrow> int"
  assumes opposite: "cmp a b < 0 \<longleftrightarrow> cmp b a > 0"
    and transitive: "cmp a b \<le> 0 \<Longrightarrow> cmp b c \<le> 0 \<Longrightarrow> cmp a c \<le> 0"
begin

lemma self: "cmp a a = 0"
  using opposite [of a a] by linarith

lemma reversed: "0 \<le> cmp a b \<longleftrightarrow> cmp b a \<le> 0"
  using opposite [of a b] by linarith

text \<open>
  The loop of the partition: what is left of \<open>l\<close> is not above the pivot, what is right of \<open>r\<close> not below,
  and each scan meets an element that stops it.
\<close>

lemma partition_loop_correct:
  assumes "0 \<le> lo" "hi \<le> int (length xs)" "lo \<le> l" "l \<le> hi" "lo - 1 \<le> r" "r < hi"
    and "\<forall>i. lo \<le> i \<and> i < l \<longrightarrow> cmp (xs ! nat i) p \<le> 0"
    and "\<forall>i. r < i \<and> i < hi \<longrightarrow> cmp (xs ! nat i) p \<ge> 0"
    and "l \<le> r \<longrightarrow> (\<exists>s\<ge>l. s < hi \<and> \<not> cmp (xs ! nat s) p < 0) \<and> (\<exists>s\<le>r. lo \<le> s \<and> \<not> cmp (xs ! nat s) p > 0)"
  shows "\<exists>ys l' r'. partition_loop cmp p xs l r = Some (ys, l', r') \<and> swaps lo hi xs ys \<and>
    r' < l' \<and> l \<le> l' \<and> l' \<le> hi \<and> lo - 1 \<le> r' \<and> r' \<le> r \<and>
    (\<forall>i. lo \<le> i \<and> i < l' \<longrightarrow> cmp (ys ! nat i) p \<le> 0) \<and> (\<forall>i. r' < i \<and> i < hi \<longrightarrow> cmp (ys ! nat i) p \<ge> 0)"
  using assms
proof (induction "nat (r - l + 1)" arbitrary: xs l r rule: less_induct)
  case less
  show ?case
  proof (cases "l \<le> r")
    case False
    with less.prems show ?thesis
      by (intro exI [of _ xs] exI [of _ l] exI [of _ r]) (simp add: partition_loop.simps swaps_refl)
  next
    case True
    with less.prems(9) obtain s t where s: "l \<le> s" "s < hi" "\<not> cmp (xs ! nat s) p < 0"
      and t: "t \<le> r" "lo \<le> t" "\<not> cmp (xs ! nat t) p > 0" by blast
    from scan_up_stops [of l s xs cmp p] s less.prems(1-3) obtain l' where
      l': "scan_up cmp xs p l = Some l'" "l \<le> l'" "l' \<le> s" "\<not> cmp (xs ! nat l') p < 0"
        "\<forall>i. l \<le> i \<and> i < l' \<longrightarrow> cmp (xs ! nat i) p < 0" by auto
    from scan_down_stops [of t r xs cmp p] t less.prems(1,2,6) obtain r' where
      r': "scan_down cmp xs p r = Some r'" "t \<le> r'" "r' \<le> r" "\<not> cmp (xs ! nat r') p > 0"
        "\<forall>i. r' < i \<and> i \<le> r \<longrightarrow> cmp (xs ! nat i) p > 0" by auto
    have left: "cmp (xs ! nat i) p \<le> 0" if "lo \<le> i" "i < l'" for i
      using that less.prems(7) l'(5) by (cases "i < l") (auto intro: less_imp_le)
    have right: "cmp (xs ! nat i) p \<ge> 0" if "r' < i" "i < hi" for i
      using that less.prems(8) r'(5) by (cases "r < i") (auto intro: less_imp_le)
    show ?thesis
    proof (cases "l' \<le> r'")
      case False
      with True l' r' left right s(2) t(2) show ?thesis
        by (intro exI [of _ xs] exI [of _ l'] exI [of _ r']) (simp add: partition_loop.simps [of cmp p xs l r] swaps_refl)
    next
      case le: True
      let ?xs = "SwapAt xs (nat l') (nat r')"
      have bounds: "0 \<le> l'" "l' < int (length xs)" "0 \<le> r'" "r' < int (length xs)" "lo \<le> l'" "l' < hi" "lo \<le> r'" "r' < hi"
        using less.prems(1-6) l'(2,3) r'(2,3) s(2) t(2) le by linarith+
      have nth: "?xs ! nat k = (if k = r' then xs ! nat l' else if k = l' then xs ! nat r' else xs ! nat k)"
        if "lo \<le> k" "k < hi" for k
        using that bounds less.prems(1,2) by (auto simp: nth_SwapAt eq_nat_nat_iff)
      have sw: "swaps lo hi xs ?xs" using bounds by (intro swaps_step swaps_refl) auto
      have "\<exists>ys l'' r''. partition_loop cmp p ?xs (l' + 1) (r' - 1) = Some (ys, l'', r'') \<and> swaps lo hi ?xs ys \<and>
        r'' < l'' \<and> l' + 1 \<le> l'' \<and> l'' \<le> hi \<and> lo - 1 \<le> r'' \<and> r'' \<le> r' - 1 \<and>
        (\<forall>i. lo \<le> i \<and> i < l'' \<longrightarrow> cmp (ys ! nat i) p \<le> 0) \<and> (\<forall>i. r'' < i \<and> i < hi \<longrightarrow> cmp (ys ! nat i) p \<ge> 0)"
      proof (rule less.hyps)
        show "nat (r' - 1 - (l' + 1) + 1) < nat (r - l + 1)" using True l'(2) r'(3) by linarith
        show "\<forall>i. lo \<le> i \<and> i < l' + 1 \<longrightarrow> cmp (?xs ! nat i) p \<le> 0"
        proof (intro allI impI)
          fix i assume "lo \<le> i \<and> i < l' + 1"
          with left [of i] r'(4) bounds le nth [of i] show "cmp (?xs ! nat i) p \<le> 0" by (cases "i = l'") auto
        qed
        show "\<forall>i. r' - 1 < i \<and> i < hi \<longrightarrow> cmp (?xs ! nat i) p \<ge> 0"
        proof (intro allI impI)
          fix i assume "r' - 1 < i \<and> i < hi"
          with right [of i] l'(4) bounds le nth [of i] show "cmp (?xs ! nat i) p \<ge> 0" by (cases "i = r'") auto
        qed
        show "l' + 1 \<le> r' - 1 \<longrightarrow> (\<exists>s\<ge>l' + 1. s < hi \<and> \<not> cmp (?xs ! nat s) p < 0) \<and>
            (\<exists>s\<le>r' - 1. lo \<le> s \<and> \<not> cmp (?xs ! nat s) p > 0)"
        proof (intro impI conjI)
          assume "l' + 1 \<le> r' - 1"
          with nth [of r'] bounds l'(4) show "\<exists>s\<ge>l' + 1. s < hi \<and> \<not> cmp (?xs ! nat s) p < 0"
            by (intro exI [of _ r']) simp
        next
          assume "l' + 1 \<le> r' - 1"
          with nth [of l'] bounds r'(4) show "\<exists>s\<le>r' - 1. lo \<le> s \<and> \<not> cmp (?xs ! nat s) p > 0"
            by (intro exI [of _ l']) simp
        qed
      qed (use bounds less.prems(1,2) le in auto)
      then obtain ys l'' r'' where res: "partition_loop cmp p ?xs (l' + 1) (r' - 1) = Some (ys, l'', r'')"
          "swaps lo hi ?xs ys" "r'' < l'' \<and> l' + 1 \<le> l'' \<and> l'' \<le> hi \<and> lo - 1 \<le> r'' \<and> r'' \<le> r' - 1"
          "\<forall>i. lo \<le> i \<and> i < l'' \<longrightarrow> cmp (ys ! nat i) p \<le> 0" "\<forall>i. r'' < i \<and> i < hi \<longrightarrow> cmp (ys ! nat i) p \<ge> 0"
        by blast
      have "partition_loop cmp p xs l r = Some (ys, l'', r'')"
        using l'(1) r'(1) le True res(1) by (simp add: partition_loop.simps [of cmp p xs l r])
      with res(3-5) swaps_trans [OF res(2) sw] l'(2) r'(3) show ?thesis
        by (intro exI [of _ ys] exI [of _ l''] exI [of _ r'']) auto
    qed
  qed
qed

text \<open>The first round always swaps, as the pivot stops both scans, so both parts are smaller.\<close>

lemma partition_correct:
  assumes "0 \<le> lo" "lo + n \<le> int (length xs)" "2 \<le> n"
  shows "\<exists>ys l r. partition_loop cmp (xs ! nat (lo + n div 2)) xs lo (lo + n - 1) = Some (ys, l, r) \<and>
    swaps lo (lo + n) xs ys \<and> r < l \<and> lo < l \<and> l \<le> lo + n \<and> lo - 1 \<le> r \<and> r < lo + n - 1 \<and>
    (\<forall>i. lo \<le> i \<and> i < l \<longrightarrow> cmp (ys ! nat i) (xs ! nat (lo + n div 2)) \<le> 0) \<and>
    (\<forall>i. r < i \<and> i < lo + n \<longrightarrow> cmp (ys ! nat i) (xs ! nat (lo + n div 2)) \<ge> 0)"
proof -
  let ?m = "lo + n div 2" and ?hi = "lo + n"
  let ?p = "xs ! nat ?m"
  have m: "lo \<le> ?m" "?m < ?hi" "?m < int (length xs)" using assms by linarith+
  from scan_up_stops [of lo ?m xs cmp ?p] m assms self obtain l' where
    l': "scan_up cmp xs ?p lo = Some l'" "lo \<le> l'" "l' \<le> ?m" "\<not> cmp (xs ! nat l') ?p < 0"
      "\<forall>i. lo \<le> i \<and> i < l' \<longrightarrow> cmp (xs ! nat i) ?p < 0" by auto
  from scan_down_stops [of ?m "?hi - 1" xs cmp ?p] m assms self obtain r' where
    r': "scan_down cmp xs ?p (?hi - 1) = Some r'" "?m \<le> r'" "r' \<le> ?hi - 1" "\<not> cmp (xs ! nat r') ?p > 0"
      "\<forall>i. r' < i \<and> i \<le> ?hi - 1 \<longrightarrow> cmp (xs ! nat i) ?p > 0" by auto
  let ?xs = "SwapAt xs (nat l') (nat r')"
  have nth: "?xs ! nat k = (if k = r' then xs ! nat l' else if k = l' then xs ! nat r' else xs ! nat k)"
    if "lo \<le> k" "k < ?hi" for k
    using that l' r' m assms by (auto simp: nth_SwapAt eq_nat_nat_iff)
  have step: "partition_loop cmp ?p xs lo (?hi - 1) = partition_loop cmp ?p ?xs (l' + 1) (r' - 1)"
    using l'(1,3) r'(1,2) assms(3) by (subst partition_loop.simps) auto
  have "\<exists>ys l r. partition_loop cmp ?p ?xs (l' + 1) (r' - 1) = Some (ys, l, r) \<and> swaps lo ?hi ?xs ys \<and>
    r < l \<and> l' + 1 \<le> l \<and> l \<le> ?hi \<and> lo - 1 \<le> r \<and> r \<le> r' - 1 \<and>
    (\<forall>i. lo \<le> i \<and> i < l \<longrightarrow> cmp (ys ! nat i) ?p \<le> 0) \<and> (\<forall>i. r < i \<and> i < ?hi \<longrightarrow> cmp (ys ! nat i) ?p \<ge> 0)"
  proof (rule partition_loop_correct)
    show "\<forall>i. lo \<le> i \<and> i < l' + 1 \<longrightarrow> cmp (?xs ! nat i) ?p \<le> 0"
    proof (intro allI impI)
      fix i assume "lo \<le> i \<and> i < l' + 1"
      with l'(3,5) r'(2,4) m nth [of i] show "cmp (?xs ! nat i) ?p \<le> 0"
        by (cases "i = l'") (auto intro: less_imp_le)
    qed
    show "\<forall>i. r' - 1 < i \<and> i < ?hi \<longrightarrow> cmp (?xs ! nat i) ?p \<ge> 0"
    proof (intro allI impI)
      fix i assume "r' - 1 < i \<and> i < ?hi"
      with l'(3,4) r'(2,5) m nth [of i] show "cmp (?xs ! nat i) ?p \<ge> 0"
        by (cases "i = r'") (auto intro: less_imp_le)
    qed
    show "l' + 1 \<le> r' - 1 \<longrightarrow> (\<exists>s\<ge>l' + 1. s < ?hi \<and> \<not> cmp (?xs ! nat s) ?p < 0) \<and>
        (\<exists>s\<le>r' - 1. lo \<le> s \<and> \<not> cmp (?xs ! nat s) ?p > 0)"
    proof (intro impI conjI)
      assume "l' + 1 \<le> r' - 1"
      with nth [of r'] l'(3,4) r'(2,3) m show "\<exists>s\<ge>l' + 1. s < ?hi \<and> \<not> cmp (?xs ! nat s) ?p < 0"
        by (intro exI [of _ r']) simp
    next
      assume "l' + 1 \<le> r' - 1"
      with nth [of l'] l'(2,3) r'(2,4) m show "\<exists>s\<le>r' - 1. lo \<le> s \<and> \<not> cmp (?xs ! nat s) ?p > 0"
        by (intro exI [of _ l']) simp
    qed
  qed (use l'(2,3) r'(2,3) m assms in auto)
  then obtain ys l r where res: "partition_loop cmp ?p ?xs (l' + 1) (r' - 1) = Some (ys, l, r)"
      "swaps lo ?hi ?xs ys" "r < l \<and> l' + 1 \<le> l \<and> l \<le> ?hi \<and> lo - 1 \<le> r \<and> r \<le> r' - 1"
      "\<forall>i. lo \<le> i \<and> i < l \<longrightarrow> cmp (ys ! nat i) ?p \<le> 0" "\<forall>i. r < i \<and> i < ?hi \<longrightarrow> cmp (ys ! nat i) ?p \<ge> 0"
    by blast
  have "swaps lo ?hi xs ?xs" using l'(2,3) r'(2,3) m assms by (intro swaps_step swaps_refl) auto
  with res(3-5) swaps_trans [OF res(2)] l'(2) r'(3) show ?thesis
    unfolding step res(1) by (intro exI [of _ ys] exI [of _ l] exI [of _ r]) auto
qed

definition ordered :: "'a list \<Rightarrow> int \<Rightarrow> int \<Rightarrow> bool" where
  "ordered xs lo hi \<longleftrightarrow> (\<forall>i j. lo \<le> i \<and> i < j \<and> j < hi \<longrightarrow> cmp (xs ! nat i) (xs ! nat j) \<le> 0)"

lemma ordered_join:
  assumes "0 \<le> lo" "hi \<le> int (length ys)" "r < l" "lo \<le> l" "l \<le> hi" "lo - 1 \<le> r" "r < hi"
    and le: "\<forall>i. lo \<le> i \<and> i < l \<longrightarrow> cmp (ys ! nat i) p \<le> 0"
    and ge: "\<forall>i. r < i \<and> i < hi \<longrightarrow> cmp (ys ! nat i) p \<ge> 0"
    and zs: "swaps lo (r + 1) ys zs" "ordered zs lo (r + 1)"
    and us: "swaps l hi zs us" "ordered us l hi"
  shows "ordered us lo hi"
proof -
  have len: "length zs = length ys" using swaps_length [OF zs(1)] .
  have left: "us ! nat k = zs ! nat k" if "lo \<le> k" "k < l" for k
    using swaps_outside [OF us(1), of k] that assms(1,2,5) len by simp
  have right: "zs ! nat k = ys ! nat k" if "r < k" "k < hi" for k
    using swaps_outside [OF zs(1), of k] that assms(1,2,6) by simp
  have low_z: "\<forall>i. lo \<le> i \<and> i < r + 1 \<longrightarrow> cmp (zs ! nat i) p \<le> 0"
    by (rule swaps_inside [OF zs(1) assms(1)]) (use le assms(2,3,7) in auto)
  have high_u: "\<forall>i. l \<le> i \<and> i < hi \<longrightarrow> 0 \<le> cmp (us ! nat i) p"
    by (rule swaps_inside [OF us(1)]) (use ge right assms(1-4) len in auto)
  have low: "cmp (us ! nat k) p \<le> 0" if "lo \<le> k" "k < l" for k
    using low_z le left [OF that] right [of k] that assms(5) by (cases "k \<le> r") auto
  have high: "cmp p (us ! nat k) \<le> 0" if "r < k" "k < hi" for k
    using high_u ge left [of k] right [of k] that assms(6) by (cases "k < l") (auto simp: reversed)
  show ?thesis
    unfolding ordered_def
  proof (intro allI impI)
    fix i j assume ij: "lo \<le> i \<and> i < j \<and> j < hi"
    consider "j \<le> r" | "r < j" "i < l" | "l \<le> i" using assms(3) by linarith
    then show "cmp (us ! nat i) (us ! nat j) \<le> 0"
    proof cases
      case 1
      with zs(2) left [of i] left [of j] ij assms(3) show ?thesis by (simp add: ordered_def)
    next
      case 2
      with low [of i] high [of j] ij transitive show ?thesis by blast
    next
      case 3
      with us(2) ij show ?thesis by (simp add: ordered_def)
    qed
  qed
qed

lemma QuickSortRecursive_correct:
  assumes "0 \<le> lo" "lo + n \<le> int (length xs)" "0 \<le> n" "int maxterm + n \<le> 1000" "maxterm < 1000"
  shows "\<exists>ys. QuickSortRecursive cmp xs lo n maxterm = Some ys \<and> swaps lo (lo + n) xs ys \<and> ordered ys lo (lo + n)"
  using assms
proof (induction "nat n" arbitrary: xs lo n maxterm rule: less_induct)
  case less
  show ?case
  proof (cases "n < 2")
    case True
    with less.prems(5) show ?thesis
      by (intro exI [of _ xs]) (auto simp: QuickSortRecursive.simps ordered_def swaps_refl)
  next
    case False
    let ?p = "xs ! nat (lo + n div 2)" and ?hi = "lo + n"
    from partition_correct [OF less.prems(1,2)] False obtain ys l r where
      part: "partition_loop cmp ?p xs lo (?hi - 1) = Some (ys, l, r)" "swaps lo ?hi xs ys" and
      lr: "r < l" "lo < l" "l \<le> ?hi" "lo - 1 \<le> r" "r < ?hi - 1" and
      le: "\<forall>i. lo \<le> i \<and> i < l \<longrightarrow> cmp (ys ! nat i) ?p \<le> 0" and
      ge: "\<forall>i. r < i \<and> i < ?hi \<longrightarrow> cmp (ys ! nat i) ?p \<ge> 0" by auto
    note len = swaps_length [OF part(2)]
    have "\<exists>zs. QuickSortRecursive cmp ys lo (r - lo + 1) (maxterm + 1) = Some zs \<and>
        swaps lo (lo + (r - lo + 1)) ys zs \<and> ordered zs lo (lo + (r - lo + 1))"
      by (rule less.hyps) (use less.prems len lr False in linarith)+
    then obtain zs where zs: "QuickSortRecursive cmp ys lo (r - lo + 1) (maxterm + 1) = Some zs"
        "swaps lo (r + 1) ys zs" "ordered zs lo (r + 1)" by (auto simp: add.commute)
    note len' = swaps_length [OF zs(2)]
    have "\<exists>us. QuickSortRecursive cmp zs l (?hi - l) (maxterm + 1) = Some us \<and>
        swaps l (l + (?hi - l)) zs us \<and> ordered us l (l + (?hi - l))"
      by (rule less.hyps) (use less.prems len len' lr False in linarith)+
    then obtain us where us: "QuickSortRecursive cmp zs l (?hi - l) (maxterm + 1) = Some us"
        "swaps l ?hi zs us" "ordered us l ?hi" by auto
    have "QuickSortRecursive cmp xs lo n maxterm = Some us"
      using less.prems(5) False part(1) zs(1) us(1) by (subst QuickSortRecursive.simps) simp
    moreover have "swaps lo ?hi xs us"
      by (rule swaps_trans [OF swaps_mono [OF us(2)] swaps_trans [OF swaps_mono [OF zs(2)] part(2)]])
        (use lr in linarith)+
    moreover have "ordered us lo ?hi"
      by (rule ordered_join [OF less.prems(1) _ lr(1) _ lr(3,4) _ le ge zs(2,3) us(2,3)])
        (use less.prems(2) lr len in linarith)+
    ultimately show ?thesis by blast
  qed
qed

text \<open>Sorting at most a thousand items returns, whatever the depth of the recursion.\<close>

lemma SeqSort_correct:
  assumes "length (items seq) \<le> 1000"
  shows "\<exists>xs. SeqSort seq cmp = Some (seq\<lparr>items := xs\<rparr>) \<and> mset xs = mset (items seq) \<and>
    sorted_wrt (\<lambda>a b. cmp a b \<le> 0) xs"
proof -
  from QuickSortRecursive_correct [of 0 "int (length (items seq))" "items seq" 0] assms obtain xs where
    xs: "QuickSortRecursive cmp (items seq) 0 (int (length (items seq))) 0 = Some xs"
      "swaps 0 (int (length (items seq))) (items seq) xs" "ordered xs 0 (int (length (items seq)))" by auto
  have "sorted_wrt (\<lambda>a b. cmp a b \<le> 0) xs"
    unfolding sorted_wrt_iff_nth_less
  proof (intro allI impI)
    fix i j assume "i < j" "j < length xs"
    with xs(3) swaps_length [OF xs(2)] show "cmp (xs ! i) (xs ! j) \<le> 0"
      unfolding ordered_def by (metis nat_int of_nat_0_le_iff of_nat_less_iff)
  qed
  with xs swaps_mset [OF xs(2)] show ?thesis by (intro exI [of _ xs]) (simp add: SeqSort_def)
qed

end

interpretation string_order: comparator strcmp
proof
  show "strcmp a b < 0 \<longleftrightarrow> strcmp b a > 0" for a b by (rule strcmp_swap)
  show "strcmp a b \<le> 0 \<Longrightarrow> strcmp b c \<le> 0 \<Longrightarrow> strcmp a c \<le> 0" for a b c
    using strcmp_trans [of a b c] by (auto simp: le_less)
qed

text \<open>
  C27. \<open>SeqSort\<close>, a quicksort in place: for any comparison that is a total preorder, sorting a sequence
  of up to a thousand items returns, whatever the items are, never leaves the array, and the result
  is the ordered rearrangement of the items. Beyond that length the limit on the depth may fail.
\<close>

theorem seq_sort:
  assumes "comparator cmp" "length (items seq) \<le> 1000"
  shows "\<exists>xs. SeqSort seq cmp = Some (seq\<lparr>items := xs\<rparr>) \<and> mset xs = mset (items seq) \<and>
    sorted_wrt (\<lambda>a b. cmp a b \<le> 0) xs"
  by (rule comparator.SeqSort_correct [OF assms])

theorem seq_sort_witness:
  "\<exists>xs. SeqSort \<lparr>capacity = 4, items = [''b'', ''a'', ''c''], destroys = False, destroyed = []\<rparr> strcmp =
     Some \<lparr>capacity = 4, items = xs, destroys = False, destroyed = []\<rparr> \<and>
     mset xs = mset [''b'', ''a'', ''c''] \<and> sorted_wrt (\<lambda>a b. strcmp a b \<le> 0) xs"
  using seq_sort [OF string_order.comparator_axioms,
      of "\<lparr>capacity = 4, items = [''b'', ''a'', ''c''], destroys = False, destroyed = []\<rparr>"] by simp

section \<open>The other operations\<close>

definition seq_ok :: "'a Seq \<Rightarrow> bool" where
  "seq_ok seq \<longleftrightarrow> 0 < capacity seq \<and> length (items seq) \<le> capacity seq"

lemma SeqNew_ok: "seq_ok (SeqNew n b)"
  by (simp add: seq_ok_def SeqNew_def)

text \<open>The array has room for a new item.\<close>

lemma SeqAppend_ok:
  assumes "seq_ok seq"
  shows "\<exists>s. SeqAppend seq x = Some s \<and> seq_ok s \<and> items s = items seq @ [x] \<and>
    destroys s = destroys seq \<and> destroyed s = destroyed seq"
  using assms by (auto simp: seq_ok_def SeqAppend_def ExpandIfNeccessary_def EXPAND_FACTOR_def)

lemma append_all_ok:
  "seq_ok seq \<Longrightarrow> \<exists>s. append_all seq xs = Some s \<and> seq_ok s \<and> items s = items seq @ xs"
proof (induction xs arbitrary: seq)
  case (Cons x xs)
  from SeqAppend_ok [OF Cons.prems, of x] obtain s where
    s: "SeqAppend seq x = Some s" "seq_ok s" "items s = items seq @ [x]" by blast
  from Cons.IH [OF s(2)] s show ?case by auto
qed simp

text \<open>Removing gives the removed items to the callback and keeps the others.\<close>

lemma SeqRemoveRange_ok:
  assumes "seq_ok seq" "start \<le> stop" "stop < length (items seq)"
  shows "\<exists>s. SeqRemoveRange seq start stop = Some s \<and> seq_ok s \<and>
    items seq = take start (items s) @ take (Suc stop - start) (drop start (items seq)) @ drop start (items s) \<and>
    (destroys seq \<longrightarrow> destroyed s = destroyed seq @ take (Suc stop - start) (drop start (items seq)))"
proof -
  have 1: "drop (Suc stop) (items seq) = drop (Suc stop - start) (drop start (items seq))"
    using assms(2) by simp
  from assms have ok: "seq_ok (drop_range (DestroyRange seq start stop) start stop)"
    by (auto simp: seq_ok_def drop_range_def DestroyRange_def)
  with assms show ?thesis
    by (auto simp: SeqRemoveRange_def drop_range_def DestroyRange_def min_def 1 simp del: drop_drop)
qed

lemma foldl_SwapAt_length [simp]: "length (foldl (\<lambda>xs i. SwapAt xs i (f xs i)) xs is) = length xs"
  by (induction "is" arbitrary: xs) auto

lemma reverse_steps:
  "n \<le> length xs div 2 \<Longrightarrow> k < length xs \<Longrightarrow>
   foldl (\<lambda>xs i. SwapAt xs i (length xs - Suc i)) xs [0..<n] ! k =
     (if k < n \<or> length xs - n \<le> k then xs ! (length xs - Suc k) else xs ! k)"
proof (induction n arbitrary: k)
  case (Suc n)
  let ?ys = "foldl (\<lambda>xs i. SwapAt xs i (length xs - Suc i)) xs [0..<n]"
  have n: "n < length xs" "length xs - Suc n < length xs" "n < length xs - Suc n" using Suc.prems by auto
  have "foldl (\<lambda>xs i. SwapAt xs i (length xs - Suc i)) xs [0..<Suc n] = SwapAt ?ys n (length xs - Suc n)"
    by simp
  also have "\<dots> ! k = (if k = length xs - Suc n then ?ys ! n else if k = n then ?ys ! (length xs - Suc n) else ?ys ! k)"
    using n Suc.prems by (simp add: nth_SwapAt)
  finally show ?case
    using Suc.IH [of n] Suc.IH [of "length xs - Suc n"] Suc.IH [of k] Suc.prems n by auto
qed simp

lemma SeqReverse_rev: "SeqReverse seq = seq\<lparr>items := rev (items seq)\<rparr>"
proof -
  let ?n = "length (items seq) div 2"
  have "foldl (\<lambda>xs i. SwapAt xs i (length xs - Suc i)) (items seq) [0..<?n] = rev (items seq)"
  proof (rule nth_equalityI)
    fix k
    assume "k < length (foldl (\<lambda>xs i. SwapAt xs i (length xs - Suc i)) (items seq) [0..<?n])"
    then have k: "k < length (items seq)" by simp
    have "\<not> (k < ?n \<or> length (items seq) - ?n \<le> k) \<Longrightarrow> length (items seq) - Suc k = k"
      using k by linarith
    with reverse_steps [of ?n "items seq" k] k
    show "foldl (\<lambda>xs i. SwapAt xs i (length xs - Suc i)) (items seq) [0..<?n] ! k = rev (items seq) ! k"
      by (simp add: rev_nth split: if_splits)
  qed simp
  then show ?thesis by (simp add: SeqReverse_def)
qed

lemma shuffle_loop_mset: "i < length xs \<Longrightarrow> mset (shuffle_loop rand k i xs) = mset xs"
proof (induction rand k i xs rule: shuffle_loop.induct)
  case (2 rand k i xs)
  have "rand k mod Suc (Suc i) < Suc (Suc i)" by simp
  with 2(2) have "rand k mod Suc (Suc i) < length xs" by linarith
  with 2 show ?case by (simp add: mset_SwapAt)
qed simp

text \<open>Shuffling keeps the items, but an empty sequence faults.\<close>

lemma SeqShuffle_perm:
  "items seq \<noteq> [] \<Longrightarrow> \<exists>s. SeqShuffle rand seq = Some s \<and> mset (items s) = mset (items seq)"
  "items seq = [] \<Longrightarrow> SeqShuffle rand seq = None"
  by (simp_all add: SeqShuffle_def shuffle_loop_mset)

end
