(* ===== verification/Json.thy ===== *)
theory Json
  imports Sequence Scan
begin

text \<open>
  JSON, \<open>libutils/json.c\<close>: elements, objects and arrays, the printer and the parser. An element owns its
  children, so an operation returns the changed element; a sequence of children is a list, as
  appending to a sequence never fails. The name of a property is kept in the element. \<open>None\<close> is a
  failed assertion.

  The value of a string is kept with its escapes. \<open>sm\<close> is \<open>StringMatch\<close>, a match of a pattern
  somewhere in a text. The position in the data is the rest of the text from there.
\<close>

datatype JsonContainerType = JSON_CONTAINER_TYPE_OBJECT | JSON_CONTAINER_TYPE_ARRAY

datatype JsonPrimitiveType = JSON_PRIMITIVE_TYPE_STRING | JSON_PRIMITIVE_TYPE_INTEGER
  | JSON_PRIMITIVE_TYPE_REAL | JSON_PRIMITIVE_TYPE_BOOL | JSON_PRIMITIVE_TYPE_NULL

datatype JsonElement =
  JsonContainer (propertyName: "string option") JsonContainerType "JsonElement list"
| JsonPrimitive (propertyName: "string option") JsonPrimitiveType string

definition JSON_TRUE :: string where
  "JSON_TRUE = ''true''"

definition JSON_FALSE :: string where
  "JSON_FALSE = ''false''"

definition JSON_NULL :: string where
  "JSON_NULL = ''null''"

section \<open>Elements\<close>

fun JsonElementSetPropertyName :: "JsonElement \<Rightarrow> string option \<Rightarrow> JsonElement" where
  "JsonElementSetPropertyName (JsonContainer _ t cs) nm = JsonContainer nm t cs"
| "JsonElementSetPropertyName (JsonPrimitive _ t v) nm = JsonPrimitive nm t v"

definition JsonElementCreateContainer :: "JsonContainerType \<Rightarrow> string option \<Rightarrow> JsonElement" where
  "JsonElementCreateContainer containerType nm = JsonContainer nm containerType []"

definition JsonElementCreatePrimitive :: "JsonPrimitiveType \<Rightarrow> string \<Rightarrow> JsonElement" where
  "JsonElementCreatePrimitive primitiveType v = JsonPrimitive None primitiveType v"

fun JsonElementLength :: "JsonElement \<Rightarrow> nat" where
  "JsonElementLength (JsonContainer _ _ cs) = length cs"
| "JsonElementLength (JsonPrimitive _ _ v) = length v"

fun children :: "JsonElement \<Rightarrow> JsonElement list option" where
  "children (JsonContainer _ _ cs) = Some cs"
| "children (JsonPrimitive _ _ _) = None"

text \<open>The children of an object or of an array, and an update of them.\<close>

fun children_of :: "JsonContainerType \<Rightarrow> JsonElement \<Rightarrow> JsonElement list option" where
  "children_of t (JsonContainer _ t' cs) = (if t' = t then Some cs else None)"
| "children_of t (JsonPrimitive _ _ _) = None"

fun set_children :: "JsonElement \<Rightarrow> JsonElement list \<Rightarrow> JsonElement" where
  "set_children (JsonContainer nm t _) cs = JsonContainer nm t cs"
| "set_children (JsonPrimitive nm t v) cs = JsonPrimitive nm t v"

text \<open>Iterators: a container and an index.\<close>

definition JsonIteratorInit :: "JsonElement \<Rightarrow> (JsonElement \<times> nat) option" where
  "JsonIteratorInit e = (case children e of None \<Rightarrow> None | Some _ \<Rightarrow> Some (e, 0))"

definition JsonIteratorNextValue :: "JsonElement \<times> nat \<Rightarrow> (JsonElement option \<times> JsonElement \<times> nat) option" where
  "JsonIteratorNextValue iter =
     (case iter of (e, i) \<Rightarrow>
        do {
          cs \<leftarrow> children e;
          (if length cs \<le> i then Some (None, e, i) else Some (Some (cs ! i), e, Suc i))
        })"

definition JsonIteratorNextKey :: "JsonElement \<times> nat \<Rightarrow> (string option \<times> JsonElement \<times> nat) option" where
  "JsonIteratorNextKey iter =
     do {
       _ \<leftarrow> children_of JSON_CONTAINER_TYPE_OBJECT (fst iter);
       (child, iter') \<leftarrow> JsonIteratorNextValue iter;
       Some (Option.bind child propertyName, iter')
     }"

text \<open>Before the first call of \<open>Next\<close>, the current value is read before the array.\<close>

definition JsonIteratorCurrentValue :: "JsonElement \<times> nat \<Rightarrow> JsonElement option option" where
  "JsonIteratorCurrentValue iter =
     (case iter of (e, i) \<Rightarrow>
        do {
          cs \<leftarrow> children e;
          (if length cs < i then Some None else if i = 0 then None else Some (Some (cs ! (i - 1))))
        })"

definition JsonIteratorCurrentKey :: "JsonElement \<times> nat \<Rightarrow> string option option" where
  "JsonIteratorCurrentKey iter =
     do {
       _ \<leftarrow> children_of JSON_CONTAINER_TYPE_OBJECT (fst iter);
       child \<leftarrow> JsonIteratorCurrentValue iter;
       Some (Option.bind child propertyName)
     }"

fun JsonGetContrainerType :: "JsonElement \<Rightarrow> JsonContainerType option" where
  "JsonGetContrainerType (JsonContainer _ t _) = Some t"
| "JsonGetContrainerType (JsonPrimitive _ _ _) = None"

fun JsonGetPrimitiveType :: "JsonElement \<Rightarrow> JsonPrimitiveType option" where
  "JsonGetPrimitiveType (JsonPrimitive _ t _) = Some t"
| "JsonGetPrimitiveType (JsonContainer _ _ _) = None"

fun JsonPrimitiveGetAsString :: "JsonElement \<Rightarrow> string option" where
  "JsonPrimitiveGetAsString (JsonPrimitive _ _ v) = Some v"
| "JsonPrimitiveGetAsString (JsonContainer _ _ _) = None"

fun JsonPrimitiveGetAsBool :: "JsonElement \<Rightarrow> bool option" where
  "JsonPrimitiveGetAsBool (JsonPrimitive _ t v) =
     (if t = JSON_PRIMITIVE_TYPE_BOOL then Some (strcmp JSON_TRUE v = 0) else None)"
| "JsonPrimitiveGetAsBool (JsonContainer _ _ _) = None"

text \<open>\<open>StringToLong\<close>: \<open>strtol\<close>, which must reach the end of the text.\<close>

definition StringToLong :: "string \<Rightarrow> int option" where
  "StringToLong s =
     (case scan_ld s of
        None \<Rightarrow> if s = [] then Some 0 else None
      | Some (i, rest) \<Rightarrow> if rest = [] then Some i else None)"

fun JsonPrimitiveGetAsInteger :: "JsonElement \<Rightarrow> int option" where
  "JsonPrimitiveGetAsInteger (JsonPrimitive _ t v) =
     (if t = JSON_PRIMITIVE_TYPE_INTEGER then StringToLong v else None)"
| "JsonPrimitiveGetAsInteger (JsonContainer _ _ _) = None"

definition JsonSort :: "JsonElement \<Rightarrow> (JsonElement \<Rightarrow> JsonElement \<Rightarrow> int) \<Rightarrow> JsonElement option" where
  "JsonSort e cmp =
     do {
       cs \<leftarrow> children e;
       s \<leftarrow> SeqSort \<lparr>capacity = length cs, items = cs, destroys = True, destroyed = []\<rparr> cmp;
       Some (set_children e (items s))
     }"

definition JsonAt :: "JsonElement \<Rightarrow> nat \<Rightarrow> JsonElement option" where
  "JsonAt e i = do { cs \<leftarrow> children e; (if i < length cs then Some (cs ! i) else None) }"

section \<open>Primitives\<close>

fun escape_char :: "char \<Rightarrow> string" where
  "escape_char c =
     (if c = CHR 0x22 \<or> c = CHR 0x5C then [CHR 0x5C, c]
      else if c = CHR 0x08 then [CHR 0x5C, CHR ''b'']
      else if c = CHR 0x0C then [CHR 0x5C, CHR ''f'']
      else if c = CHR 0x0A then [CHR 0x5C, CHR ''n'']
      else if c = CHR 0x0D then [CHR 0x5C, CHR ''r'']
      else if c = CHR 0x09 then [CHR 0x5C, CHR ''t'']
      else [c])"

definition EscapeJsonString :: "string \<Rightarrow> string" where
  "EscapeJsonString s = concat (map escape_char s)"

definition JsonStringCreate :: "string \<Rightarrow> JsonElement" where
  "JsonStringCreate v = JsonElementCreatePrimitive JSON_PRIMITIVE_TYPE_STRING (EscapeJsonString v)"

definition JsonIntegerCreate :: "int \<Rightarrow> JsonElement" where
  "JsonIntegerCreate v = JsonElementCreatePrimitive JSON_PRIMITIVE_TYPE_INTEGER (show_int v)"

text \<open>\<open>JsonRealCreate\<close> with the text that \<open>printf\<close> makes of the number.\<close>

definition JsonRealCreate :: "string \<Rightarrow> JsonElement" where
  "JsonRealCreate formatted = JsonElementCreatePrimitive JSON_PRIMITIVE_TYPE_REAL formatted"

definition JsonBoolCreate :: "bool \<Rightarrow> JsonElement" where
  "JsonBoolCreate v = JsonElementCreatePrimitive JSON_PRIMITIVE_TYPE_BOOL (if v then JSON_TRUE else JSON_FALSE)"

definition JsonNullCreate :: JsonElement where
  "JsonNullCreate = JsonElementCreatePrimitive JSON_PRIMITIVE_TYPE_NULL JSON_NULL"

section \<open>Objects\<close>

definition JsonObjectCreate :: JsonElement where
  "JsonObjectCreate = JsonElementCreateContainer JSON_CONTAINER_TYPE_OBJECT None"

definition JsonObjectAppendElement :: "JsonElement \<Rightarrow> string \<Rightarrow> JsonElement \<Rightarrow> JsonElement option" where
  "JsonObjectAppendElement obj key e =
     do {
       cs \<leftarrow> children_of JSON_CONTAINER_TYPE_OBJECT obj;
       Some (set_children obj (cs @ [JsonElementSetPropertyName e (Some key)]))
     }"

definition JsonObjectAppendString :: "JsonElement \<Rightarrow> string \<Rightarrow> string \<Rightarrow> JsonElement option" where
  "JsonObjectAppendString obj key v = JsonObjectAppendElement obj key (JsonStringCreate v)"

definition JsonObjectAppendInteger :: "JsonElement \<Rightarrow> string \<Rightarrow> int \<Rightarrow> JsonElement option" where
  "JsonObjectAppendInteger obj key v = JsonObjectAppendElement obj key (JsonIntegerCreate v)"

definition JsonObjectAppendBool :: "JsonElement \<Rightarrow> string \<Rightarrow> bool \<Rightarrow> JsonElement option" where
  "JsonObjectAppendBool obj key v = JsonObjectAppendElement obj key (JsonBoolCreate v)"

definition JsonObjectAppendNull :: "JsonElement \<Rightarrow> string \<Rightarrow> JsonElement option" where
  "JsonObjectAppendNull obj key = JsonObjectAppendElement obj key JsonNullCreate"

definition JsonObjectAppendArray :: "JsonElement \<Rightarrow> string \<Rightarrow> JsonElement \<Rightarrow> JsonElement option" where
  "JsonObjectAppendArray obj key e =
     do { _ \<leftarrow> children_of JSON_CONTAINER_TYPE_ARRAY e; JsonObjectAppendElement obj key e }"

definition JsonObjectAppendObject :: "JsonElement \<Rightarrow> string \<Rightarrow> JsonElement \<Rightarrow> JsonElement option" where
  "JsonObjectAppendObject obj key e =
     do { _ \<leftarrow> children_of JSON_CONTAINER_TYPE_OBJECT e; JsonObjectAppendElement obj key e }"

text \<open>A child without a name fails an assertion of the first comparison; the second takes it for the least.\<close>

fun lookup_child :: "string \<Rightarrow> JsonElement list \<Rightarrow> JsonElement option option" where
  "lookup_child key [] = Some None"
| "lookup_child key (c # cs) =
     do { nm \<leftarrow> propertyName c; (if strcmp key nm = 0 then Some (Some c) else lookup_child key cs) }"

definition JsonElementIndexInParentObject :: "JsonElement \<Rightarrow> string \<Rightarrow> nat option option" where
  "JsonElementIndexInParentObject parent key =
     do {
       cs \<leftarrow> children_of JSON_CONTAINER_TYPE_OBJECT parent;
       Some (find_index (\<lambda>c. propertyName c = Some key) cs)
     }"

definition JsonObjectRemoveKey :: "JsonElement \<Rightarrow> string \<Rightarrow> JsonElement option" where
  "JsonObjectRemoveKey obj key =
     do {
       p \<leftarrow> JsonElementIndexInParentObject obj key;
       cs \<leftarrow> children obj;
       (case p of
          None \<Rightarrow> Some obj
        | Some i \<Rightarrow> Some (set_children obj (take i cs @ drop (Suc i) cs)))
     }"

definition JsonObjectDetachKey :: "JsonElement \<Rightarrow> string \<Rightarrow> (JsonElement option \<times> JsonElement) option" where
  "JsonObjectDetachKey obj key =
     do {
       p \<leftarrow> JsonElementIndexInParentObject obj key;
       cs \<leftarrow> children obj;
       (case p of
          None \<Rightarrow> Some (None, obj)
        | Some i \<Rightarrow> do {
            detached \<leftarrow> lookup_child key cs;
            Some (detached, set_children obj (take i cs @ drop (Suc i) cs))
          })
     }"

definition JsonObjectGet :: "JsonElement \<Rightarrow> string \<Rightarrow> JsonElement option option" where
  "JsonObjectGet obj key = do { cs \<leftarrow> children_of JSON_CONTAINER_TYPE_OBJECT obj; lookup_child key cs }"

definition JsonObjectGetAsString :: "JsonElement \<Rightarrow> string \<Rightarrow> string option option" where
  "JsonObjectGetAsString obj key =
     do {
       child \<leftarrow> JsonObjectGet obj key;
       (case child of
          None \<Rightarrow> Some None
        | Some (JsonPrimitive _ t v) \<Rightarrow> if t = JSON_PRIMITIVE_TYPE_STRING then Some (Some v) else None
        | Some (JsonContainer _ _ _) \<Rightarrow> None)
     }"

definition get_container :: "JsonContainerType \<Rightarrow> JsonElement option \<Rightarrow> JsonElement option option" where
  "get_container t child =
     (case child of
        None \<Rightarrow> Some None
      | Some e \<Rightarrow> if children_of t e = None then None else Some (Some e))"

definition JsonObjectGetAsObject :: "JsonElement \<Rightarrow> string \<Rightarrow> JsonElement option option" where
  "JsonObjectGetAsObject obj key =
     do { child \<leftarrow> JsonObjectGet obj key; get_container JSON_CONTAINER_TYPE_OBJECT child }"

definition JsonObjectGetAsArray :: "JsonElement \<Rightarrow> string \<Rightarrow> JsonElement option option" where
  "JsonObjectGetAsArray obj key =
     do { child \<leftarrow> JsonObjectGet obj key; get_container JSON_CONTAINER_TYPE_ARRAY child }"

section \<open>Arrays\<close>

definition JsonArrayCreate :: JsonElement where
  "JsonArrayCreate = JsonElementCreateContainer JSON_CONTAINER_TYPE_ARRAY None"

definition JsonArrayAppendElement :: "JsonElement \<Rightarrow> JsonElement \<Rightarrow> JsonElement option" where
  "JsonArrayAppendElement arr e =
     do { cs \<leftarrow> children_of JSON_CONTAINER_TYPE_ARRAY arr; Some (set_children arr (cs @ [e])) }"

definition JsonArrayAppendString :: "JsonElement \<Rightarrow> string \<Rightarrow> JsonElement option" where
  "JsonArrayAppendString arr v = JsonArrayAppendElement arr (JsonStringCreate v)"

definition JsonArrayAppendBool :: "JsonElement \<Rightarrow> bool \<Rightarrow> JsonElement option" where
  "JsonArrayAppendBool arr v = JsonArrayAppendElement arr (JsonBoolCreate v)"

definition JsonArrayAppendInteger :: "JsonElement \<Rightarrow> int \<Rightarrow> JsonElement option" where
  "JsonArrayAppendInteger arr v = JsonArrayAppendElement arr (JsonIntegerCreate v)"

definition JsonArrayAppendNull :: "JsonElement \<Rightarrow> JsonElement option" where
  "JsonArrayAppendNull arr = JsonArrayAppendElement arr JsonNullCreate"

definition JsonArrayAppendArray :: "JsonElement \<Rightarrow> JsonElement \<Rightarrow> JsonElement option" where
  "JsonArrayAppendArray arr e =
     do { _ \<leftarrow> children_of JSON_CONTAINER_TYPE_ARRAY e; JsonArrayAppendElement arr e }"

definition JsonArrayAppendObject :: "JsonElement \<Rightarrow> JsonElement \<Rightarrow> JsonElement option" where
  "JsonArrayAppendObject arr e =
     do { _ \<leftarrow> children_of JSON_CONTAINER_TYPE_OBJECT e; JsonArrayAppendElement arr e }"

definition JsonArrayRemoveRange :: "JsonElement \<Rightarrow> nat \<Rightarrow> nat \<Rightarrow> JsonElement option" where
  "JsonArrayRemoveRange arr start stop =
     do {
       cs \<leftarrow> children_of JSON_CONTAINER_TYPE_ARRAY arr;
       (if stop < length cs \<and> start \<le> stop then Some (set_children arr (take start cs @ drop (Suc stop) cs))
        else None)
     }"

definition JsonArrayGetAsString :: "JsonElement \<Rightarrow> nat \<Rightarrow> string option" where
  "JsonArrayGetAsString arr i =
     do {
       cs \<leftarrow> children_of JSON_CONTAINER_TYPE_ARRAY arr;
       (if i < length cs then
          (case cs ! i of
             JsonPrimitive _ t v \<Rightarrow> if t = JSON_PRIMITIVE_TYPE_STRING then Some v else None
           | JsonContainer _ _ _ \<Rightarrow> None)
        else None)
     }"

definition JsonArrayGetAsObject :: "JsonElement \<Rightarrow> nat \<Rightarrow> JsonElement option" where
  "JsonArrayGetAsObject arr i =
     do {
       cs \<leftarrow> children_of JSON_CONTAINER_TYPE_ARRAY arr;
       (if i < length cs \<and> children_of JSON_CONTAINER_TYPE_OBJECT (cs ! i) \<noteq> None then Some (cs ! i) else None)
     }"

definition JsonContainerReverse :: "JsonElement \<Rightarrow> JsonElement option" where
  "JsonContainerReverse arr =
     do {
       cs \<leftarrow> children_of JSON_CONTAINER_TYPE_ARRAY arr;
       Some (set_children arr (items (SeqReverse \<lparr>capacity = length cs, items = cs, destroys = True, destroyed = []\<rparr>)))
     }"

end
