(* ===== verification/Json_Text.thy ===== *)
theory Json_Text
  imports Json
begin

text \<open>
  The text of JSON, \<open>libutils/json.c\<close>: the printer with its indentation and the parser. A writer is the
  text written so far. The mutual recursion of the parser is closed by fuel, one unit for each
  turn of a loop; the length of the data is enough, so that \<open>JsonParse\<close> gives it.
  A result is an error or a value and the data from the last character that was read.
\<close>

section \<open>Printing\<close>

definition SPACES_PER_INDENT :: nat where
  "SPACES_PER_INDENT = 2"

definition IsWhitespace :: "char \<Rightarrow> bool" where
  "IsWhitespace ch \<longleftrightarrow> ch = CHR '' '' \<or> ch = CHR 0x09 \<or> ch = CHR 0x0A \<or> ch = CHR 0x0D"

definition IsSeparator :: "char \<Rightarrow> bool" where
  "IsSeparator ch \<longleftrightarrow> IsWhitespace ch \<or> ch = CHR '','' \<or> ch = CHR '']'' \<or> ch = CHR ''}''"

text \<open>\<open>IsDigit\<close> leaves out the zero.\<close>

definition IsDigit :: "char \<Rightarrow> bool" where
  "IsDigit ch \<longleftrightarrow> 49 \<le> (of_char ch :: nat) \<and> (of_char ch :: nat) \<le> 57"

definition PrintIndent :: "nat \<Rightarrow> string" where
  "PrintIndent num = replicate (num * SPACES_PER_INDENT) (CHR '' '')"

definition quote :: string where
  "quote = [CHR 0x22]"

definition newline :: string where
  "newline = [CHR 0x0A]"

fun JsonPrimitivePrint :: "JsonElement \<Rightarrow> nat \<Rightarrow> string option" where
  "JsonPrimitivePrint (JsonPrimitive _ t v) indent_level =
     Some (PrintIndent indent_level @ (if t = JSON_PRIMITIVE_TYPE_STRING then quote @ v @ quote else v))"
| "JsonPrimitivePrint (JsonContainer _ _ _) indent_level = None"

fun is_primitive :: "JsonElement \<Rightarrow> bool" where
  "is_primitive (JsonPrimitive _ _ _) = True"
| "is_primitive (JsonContainer _ _ _) = False"

fun
  JsonContainerPrint :: "JsonElement \<Rightarrow> nat \<Rightarrow> string option" and
  array_items :: "JsonElement list \<Rightarrow> nat \<Rightarrow> string option" and
  object_items :: "JsonElement list \<Rightarrow> nat \<Rightarrow> string option"
where
  "JsonContainerPrint (JsonPrimitive _ _ _) indent_level = None"
| "JsonContainerPrint (JsonContainer _ t cs) indent_level =
     (case t of
        JSON_CONTAINER_TYPE_ARRAY \<Rightarrow>
          if cs = [] then Some ''[]''
          else do {
            body \<leftarrow> array_items cs indent_level;
            Some (''['' @ newline @ body @ PrintIndent indent_level @ '']'')
          }
      | JSON_CONTAINER_TYPE_OBJECT \<Rightarrow> do {
            body \<leftarrow> object_items cs indent_level;
            Some (''{'' @ newline @ body @ PrintIndent indent_level @ ''}'')
          })"
| "array_items [] indent_level = Some []"
| "array_items (c # cs) indent_level =
     do {
       item \<leftarrow> (if is_primitive c then JsonPrimitivePrint c (indent_level + 1)
                else do {
                  s \<leftarrow> JsonContainerPrint c (indent_level + 1);
                  Some (PrintIndent (indent_level + 1) @ s)
                });
       rest \<leftarrow> array_items cs indent_level;
       Some (item @ (if cs \<noteq> [] then '','' @ newline else newline) @ rest)
     }"
| "object_items [] indent_level = Some []"
| "object_items (c # cs) indent_level =
     do {
       nm \<leftarrow> propertyName c;
       item \<leftarrow> (if is_primitive c then JsonPrimitivePrint c 0 else JsonContainerPrint c (indent_level + 1));
       rest \<leftarrow> object_items cs indent_level;
       Some (PrintIndent (indent_level + 1) @ quote @ nm @ quote @ '': '' @ item @
         (if cs \<noteq> [] then '','' else []) @ newline @ rest)
     }"

definition JsonElementPrint :: "JsonElement \<Rightarrow> nat \<Rightarrow> string option" where
  "JsonElementPrint e indent_level =
     (if is_primitive e then JsonPrimitivePrint e indent_level else JsonContainerPrint e indent_level)"

section \<open>Parsing words, strings and numbers\<close>

datatype JsonParseError =
  JSON_PARSE_ERROR_STRING_NO_DOUBLEQUOTE_START | JSON_PARSE_ERROR_STRING_NO_DOUBLEQUOTE_END
| JSON_PARSE_ERROR_NUMBER_EXPONENT_NEGATIVE | JSON_PARSE_ERROR_NUMBER_EXPONENT_POSITIVE
| JSON_PARSE_ERROR_NUMBER_DUPLICATE_ZERO | JSON_PARSE_ERROR_NUMBER_NO_DIGIT
| JSON_PARSE_ERROR_NUMBER_EXPONENT_DUPLICATE | JSON_PARSE_ERROR_NUMBER_EXPONENT_DIGIT
| JSON_PARSE_ERROR_NUMBER_EXPONENT_FOLLOW_LEADING_ZERO | JSON_PARSE_ERROR_NUMBER_BAD_SYMBOL
| JSON_PARSE_ERROR_NUMBER_DIGIT_END | JSON_PARSE_ERROR_ARRAY_START | JSON_PARSE_ERROR_ARRAY_END
| JSON_PARSE_ERROR_OBJECT_BAD_SYMBOL | JSON_PARSE_ERROR_OBJECT_START | JSON_PARSE_ERROR_OBJECT_END
| JSON_PARSE_ERROR_OBJECT_COLON | JSON_PARSE_ERROR_OBJECT_COMMA | JSON_PARSE_ERROR_OBJECT_ARRAY_LVAL
| JSON_PARSE_ERROR_OBJECT_OBJECT_LVAL | JSON_PARSE_ERROR_OBJECT_OPEN_LVAL
| JSON_PARSE_ERROR_INVALID_START | JSON_PARSE_ERROR_NO_DATA

definition word_ends :: "string \<Rightarrow> nat \<Rightarrow> bool" where
  "word_ends data n = (case drop n data of [] \<Rightarrow> True | c # _ \<Rightarrow> IsSeparator c)"

definition JsonParseAsBoolean :: "(string \<Rightarrow> string \<Rightarrow> bool) \<Rightarrow> string \<Rightarrow> (JsonElement \<times> string) option" where
  "JsonParseAsBoolean sm data =
     (if sm ''^true'' data then
        (if word_ends data 4 then Some (JsonBoolCreate True, drop 3 data) else None)
      else if sm ''^false'' data then
        (if word_ends data 5 then Some (JsonBoolCreate False, drop 4 data) else None)
      else None)"

definition JsonParseAsNull :: "(string \<Rightarrow> string \<Rightarrow> bool) \<Rightarrow> string \<Rightarrow> (JsonElement \<times> string) option" where
  "JsonParseAsNull sm data =
     (if sm ''^null'' data \<and> word_ends data 4 then Some (JsonNullCreate, drop 3 data) else None)"

text \<open>\<open>prev\<close> is the character before the data.\<close>

definition escapable :: "string \<Rightarrow> bool" where
  "escapable data =
     (case data of
        [] \<Rightarrow> False
      | d # _ \<Rightarrow> d = CHR 0x22 \<or> d = CHR 0x5C \<or> d = CHR 0x08 \<or> d = CHR 0x0C \<or> d = CHR 0x0A \<or> d = CHR 0x0D \<or>
                d = CHR 0x09)"

fun string_loop :: "char \<Rightarrow> string \<Rightarrow> string \<Rightarrow> JsonParseError + string \<times> string" where
  "string_loop prev [] writer = Inl JSON_PARSE_ERROR_STRING_NO_DOUBLEQUOTE_END"
| "string_loop prev (c # cs) writer =
     (if c = CHR 0x22 \<and> prev \<noteq> CHR 0x5C then Inr (writer, c # cs)
      else if c = CHR 0x5C \<and> escapable cs then string_loop c cs writer
      else string_loop c cs (writer @ [c]))"

definition JsonParseAsString :: "string \<Rightarrow> JsonParseError + string \<times> string" where
  "JsonParseAsString data =
     (case data of
        [] \<Rightarrow> Inl JSON_PARSE_ERROR_STRING_NO_DOUBLEQUOTE_START
      | c # cs \<Rightarrow>
          if c \<noteq> CHR 0x22 then Inl JSON_PARSE_ERROR_STRING_NO_DOUBLEQUOTE_START else string_loop c cs [])"

record number_scan =
  zero_started :: bool
  seen_dot :: bool
  seen_exponent :: bool
  prev_char :: "char option"

definition is_exponent :: "char option \<Rightarrow> bool" where
  "is_exponent p \<longleftrightarrow> p = Some (CHR ''e'') \<or> p = Some (CHR ''E'')"

definition is_digit :: "char option \<Rightarrow> bool" where
  "is_digit p = (case p of None \<Rightarrow> False | Some c \<Rightarrow> IsDigit c \<or> c = CHR ''0'')"

definition number_step :: "char \<Rightarrow> number_scan \<Rightarrow> JsonParseError + number_scan" where
  "number_step c v =
     (if c = CHR ''-'' then
        (if prev_char v \<noteq> None \<and> \<not> is_exponent (prev_char v) then Inl JSON_PARSE_ERROR_NUMBER_EXPONENT_NEGATIVE
         else Inr v)
      else if c = CHR ''+'' then
        (if \<not> is_exponent (prev_char v) then Inl JSON_PARSE_ERROR_NUMBER_EXPONENT_POSITIVE else Inr v)
      else if c = CHR ''0'' then
        (if zero_started v \<and> \<not> seen_dot v \<and> \<not> seen_exponent v then Inl JSON_PARSE_ERROR_NUMBER_DUPLICATE_ZERO
         else Inr (if prev_char v = None then v\<lparr>zero_started := True\<rparr> else v))
      else if c = CHR ''.'' then
        (if \<not> is_digit (prev_char v) then Inl JSON_PARSE_ERROR_NUMBER_NO_DIGIT else Inr (v\<lparr>seen_dot := True\<rparr>))
      else if c = CHR ''e'' \<or> c = CHR ''E'' then
        (if seen_exponent v then Inl JSON_PARSE_ERROR_NUMBER_EXPONENT_DUPLICATE
         else if \<not> is_digit (prev_char v) then Inl JSON_PARSE_ERROR_NUMBER_EXPONENT_DIGIT
         else Inr (v\<lparr>seen_exponent := True\<rparr>))
      else
        (if zero_started v \<and> \<not> seen_dot v \<and> \<not> seen_exponent v
         then Inl JSON_PARSE_ERROR_NUMBER_EXPONENT_FOLLOW_LEADING_ZERO
         else if \<not> IsDigit c then Inl JSON_PARSE_ERROR_NUMBER_BAD_SYMBOL
         else Inr v))"

fun number_loop :: "number_scan \<Rightarrow> string \<Rightarrow> string \<Rightarrow> JsonParseError + number_scan \<times> string \<times> string" where
  "number_loop v [] writer = Inr (v, writer, [])"
| "number_loop v (c # cs) writer =
     (if IsSeparator c then Inr (v, writer, c # cs)
      else
        (case number_step c v of
           Inl e \<Rightarrow> Inl e
         | Inr v' \<Rightarrow> number_loop (v'\<lparr>prev_char := Some c\<rparr>) cs (writer @ [c])))"

text \<open>At the end the data goes back by one character, the last one of the number.\<close>

definition JsonParseAsNumber :: "string \<Rightarrow> JsonParseError + JsonElement \<times> string" where
  "JsonParseAsNumber data =
     (case number_loop \<lparr>zero_started = False, seen_dot = False, seen_exponent = False, prev_char = None\<rparr> data [] of
        Inl e \<Rightarrow> Inl e
      | Inr (v, writer, rest) \<Rightarrow>
          (case prev_char v of
             None \<Rightarrow> Inl JSON_PARSE_ERROR_NUMBER_DIGIT_END
           | Some p \<Rightarrow>
               if \<not> is_digit (Some p) then Inl JSON_PARSE_ERROR_NUMBER_DIGIT_END
               else Inr (JsonElementCreatePrimitive
                 (if seen_dot v then JSON_PRIMITIVE_TYPE_REAL else JSON_PRIMITIVE_TYPE_INTEGER) writer,
                 p # rest)))"

section \<open>Parsing containers\<close>

text \<open>The next value of a container that is neither a string nor a container.\<close>

definition parse_word :: "(string \<Rightarrow> string \<Rightarrow> bool) \<Rightarrow> string \<Rightarrow> JsonParseError + JsonElement \<times> string" where
  "parse_word sm data =
     (if data \<noteq> [] \<and> (hd data = CHR ''-'' \<or> hd data = CHR ''0'' \<or> IsDigit (hd data)) then JsonParseAsNumber data
      else
        (case JsonParseAsBoolean sm data of
           Some r \<Rightarrow> Inr r
         | None \<Rightarrow>
             (case JsonParseAsNull sm data of
                Some r \<Rightarrow> Inr r
              | None \<Rightarrow> Inl JSON_PARSE_ERROR_OBJECT_BAD_SYMBOL)))"

text \<open>The loop goes on behind the value that was read.\<close>

definition after_value ::
  "(JsonParseError + 'a \<times> string) option \<Rightarrow> ('a \<Rightarrow> string \<Rightarrow> (JsonParseError + 'b) option) \<Rightarrow> (JsonParseError + 'b) option"
where
  "after_value r k =
     (case r of None \<Rightarrow> None | Some (Inl e) \<Rightarrow> Some (Inl e) | Some (Inr (x, data)) \<Rightarrow> k x (tl data))"

fun
  array_loop :: "(string \<Rightarrow> string \<Rightarrow> bool) \<Rightarrow> nat \<Rightarrow> string \<Rightarrow> JsonElement list \<Rightarrow>
    (JsonParseError + JsonElement \<times> string) option" and
  object_loop :: "(string \<Rightarrow> string \<Rightarrow> bool) \<Rightarrow> nat \<Rightarrow> string \<Rightarrow> JsonElement list \<Rightarrow> string option \<Rightarrow>
    (JsonParseError + JsonElement \<times> string) option"
where
  "array_loop sm 0 data acc = None"
| "array_loop sm (Suc n) [] acc = Some (Inl JSON_PARSE_ERROR_ARRAY_END)"
| "array_loop sm (Suc n) (c # cs) acc =
     (if IsWhitespace c then array_loop sm n cs acc
      else if c = CHR 0x22 then
        after_value (Some (JsonParseAsString (c # cs))) (\<lambda>v rest. array_loop sm n rest (acc @ [JsonStringCreate v]))
      else if c = CHR ''['' then
        after_value (array_loop sm n cs []) (\<lambda>child rest. array_loop sm n rest (acc @ [child]))
      else if c = CHR ''{'' then
        after_value (object_loop sm n cs [] None) (\<lambda>child rest. array_loop sm n rest (acc @ [child]))
      else if c = CHR '','' then array_loop sm n cs acc
      else if c = CHR '']'' then Some (Inr (JsonContainer None JSON_CONTAINER_TYPE_ARRAY acc, c # cs))
      else after_value (Some (parse_word sm (c # cs))) (\<lambda>child rest. array_loop sm n rest (acc @ [child])))"
| "object_loop sm 0 data acc nm = None"
| "object_loop sm (Suc n) [] acc nm = Some (Inl JSON_PARSE_ERROR_OBJECT_END)"
| "object_loop sm (Suc n) (c # cs) acc nm =
     (let add = (\<lambda>key child rest. object_loop sm n rest (acc @ [JsonElementSetPropertyName child (Some key)]) None) in
      if IsWhitespace c then object_loop sm n cs acc nm
      else if c = CHR 0x22 then
        (case nm of
           Some key \<Rightarrow> after_value (Some (JsonParseAsString (c # cs))) (\<lambda>v. add key (JsonStringCreate v))
         | None \<Rightarrow> after_value (Some (JsonParseAsString (c # cs))) (\<lambda>v rest. object_loop sm n rest acc (Some v)))
      else if c = CHR '':'' then
        (case nm of None \<Rightarrow> Some (Inl JSON_PARSE_ERROR_OBJECT_COLON) | Some _ \<Rightarrow> object_loop sm n cs acc nm)
      else if c = CHR '','' then
        (case nm of Some _ \<Rightarrow> Some (Inl JSON_PARSE_ERROR_OBJECT_COMMA) | None \<Rightarrow> object_loop sm n cs acc nm)
      else if c = CHR ''['' then
        (case nm of
           Some key \<Rightarrow> after_value (array_loop sm n cs []) (add key)
         | None \<Rightarrow> Some (Inl JSON_PARSE_ERROR_OBJECT_ARRAY_LVAL))
      else if c = CHR ''{'' then
        (case nm of
           Some key \<Rightarrow> after_value (object_loop sm n cs [] None) (add key)
         | None \<Rightarrow> Some (Inl JSON_PARSE_ERROR_OBJECT_OBJECT_LVAL))
      else if c = CHR ''}'' then
        (case nm of
           Some _ \<Rightarrow> Some (Inl JSON_PARSE_ERROR_OBJECT_OPEN_LVAL)
         | None \<Rightarrow> Some (Inr (JsonContainer None JSON_CONTAINER_TYPE_OBJECT acc, c # cs)))
      else
        (case nm of
           Some key \<Rightarrow> after_value (Some (parse_word sm (c # cs))) (add key)
         | None \<Rightarrow> Some (Inl JSON_PARSE_ERROR_OBJECT_BAD_SYMBOL)))"

definition JsonParseAsArray :: "(string \<Rightarrow> string \<Rightarrow> bool) \<Rightarrow> nat \<Rightarrow> string \<Rightarrow> (JsonParseError + JsonElement \<times> string) option" where
  "JsonParseAsArray sm n data =
     (if data = [] \<or> hd data \<noteq> CHR ''['' then Some (Inl JSON_PARSE_ERROR_ARRAY_START) else array_loop sm n (tl data) [])"

definition JsonParseAsObject :: "(string \<Rightarrow> string \<Rightarrow> bool) \<Rightarrow> nat \<Rightarrow> string \<Rightarrow> (JsonParseError + JsonElement \<times> string) option" where
  "JsonParseAsObject sm n data =
     (if data = [] \<or> hd data \<noteq> CHR ''{'' then Some (Inl JSON_PARSE_ERROR_ARRAY_START)
      else object_loop sm n (tl data) [] None)"

fun parse_start :: "(string \<Rightarrow> string \<Rightarrow> bool) \<Rightarrow> nat \<Rightarrow> string \<Rightarrow> (JsonParseError + JsonElement \<times> string) option" where
  "parse_start sm n [] = Some (Inl JSON_PARSE_ERROR_NO_DATA)"
| "parse_start sm n (c # cs) =
     (if c = CHR ''{'' then JsonParseAsObject sm n (c # cs)
      else if c = CHR ''['' then JsonParseAsArray sm n (c # cs)
      else if IsWhitespace c then parse_start sm n cs
      else Some (Inl JSON_PARSE_ERROR_INVALID_START))"

definition JsonParse :: "(string \<Rightarrow> string \<Rightarrow> bool) \<Rightarrow> string \<Rightarrow> (JsonParseError + JsonElement \<times> string) option" where
  "JsonParse sm data = parse_start sm (length data) data"

section \<open>The parser always ends\<close>

lemma string_loop_shorter:
  "string_loop prev data w = Inr (v, rest) \<Longrightarrow> rest \<noteq> [] \<and> length rest \<le> length data"
  by (induction prev data w rule: string_loop.induct) (auto split: if_splits)

lemma number_loop_shorter:
  "number_loop v data w = Inr (v', w', rest) \<Longrightarrow>
   length rest \<le> length data \<and> (prev_char v' \<noteq> prev_char v \<longrightarrow> length rest < length data)"
proof (induction v data w rule: number_loop.induct)
  case (2 v c cs w)
  then show ?case by (fastforce split: if_splits sum.splits)
qed auto

lemma parse_word_shorter: "parse_word sm data = Inr (e, rest) \<Longrightarrow> length rest \<le> length data"
  by (auto simp: parse_word_def JsonParseAsNumber_def JsonParseAsBoolean_def JsonParseAsNull_def
      split: if_splits sum.splits option.splits dest!: number_loop_shorter)

lemma JsonParseAsString_shorter:
  "JsonParseAsString data = Inr (v, rest) \<Longrightarrow> rest \<noteq> [] \<and> length rest < length data"
  by (auto simp: JsonParseAsString_def split: list.splits if_splits dest: string_loop_shorter)

definition ends :: "string \<Rightarrow> (JsonParseError + JsonElement \<times> string) option \<Rightarrow> bool" where
  "ends data r \<longleftrightarrow>
     (case r of None \<Rightarrow> False | Some (Inl e) \<Rightarrow> True | Some (Inr (e, rest)) \<Rightarrow> length rest \<le> length data)"

definition shorter :: "string \<Rightarrow> (JsonParseError + 'a \<times> string) option \<Rightarrow> bool" where
  "shorter data r \<longleftrightarrow>
     (case r of None \<Rightarrow> False | Some (Inl e) \<Rightarrow> True | Some (Inr (x, rest)) \<Rightarrow> length rest \<le> length data)"

lemma ends_mono: "ends d r \<Longrightarrow> length d \<le> length data \<Longrightarrow> ends data r"
  by (auto simp: ends_def split: option.splits sum.splits)

lemma ends_after:
  assumes "shorter data r" "data \<noteq> []"
    and "\<And>x rest. length rest < length data \<Longrightarrow> ends rest (k x rest)"
  shows "ends data (after_value r k)"
proof (cases r)
  case None
  with assms(1) show ?thesis by (simp add: shorter_def)
next
  case (Some res)
  show ?thesis
  proof (cases res)
    case (Inl e)
    with Some show ?thesis by (simp add: after_value_def ends_def)
  next
    case (Inr p)
    obtain x rest where p: "p = (x, rest)" by fastforce
    with assms(1) Some Inr have "length rest \<le> length data" by (simp add: shorter_def)
    moreover have "length (tl rest) < length data" using calculation assms(2) by (cases data) auto
    ultimately show ?thesis
      using ends_mono [OF assms(3) [of "tl rest" x]] Some Inr p by (simp add: after_value_def)
  qed
qed

lemma ends_if: "(P \<Longrightarrow> ends d a) \<Longrightarrow> (\<not> P \<Longrightarrow> ends d b) \<Longrightarrow> ends d (if P then a else b)"
  by simp

lemma ends_error: "ends d (Some (Inl e))" "ends d (Some (Inr (e', d)))"
  by (simp_all add: ends_def)

lemma ends_option:
  "(nm = None \<Longrightarrow> ends d a) \<Longrightarrow> (\<And>key. nm = Some key \<Longrightarrow> ends d (b key)) \<Longrightarrow>
   ends d (case nm of None \<Rightarrow> a | Some key \<Rightarrow> b key)"
  by (simp split: option.split)

lemma shorter_parts:
  "shorter data (Some (JsonParseAsString data))" "shorter data (Some (parse_word sm data))"
  by (auto simp: shorter_def split: sum.splits dest: JsonParseAsString_shorter parse_word_shorter)

lemma shorter_ends: "ends d r \<Longrightarrow> shorter (c # d) r"
  by (auto simp: ends_def shorter_def split: option.splits sum.splits)

lemma ends_Cons: "ends cs r \<Longrightarrow> ends (c # cs) r"
  by (rule ends_mono) auto

lemma loops_end:
  "length data < n \<Longrightarrow> ends data (array_loop sm n data acc)"
  "length data < n \<Longrightarrow> ends data (object_loop sm n data acc nm)"
proof (induction n arbitrary: data acc nm)
  case (Suc n)
  {
    case 1
    then show ?case
    proof (cases data)
      case (Cons c cs)
      have cs: "length cs < n" using 1 Cons by simp
      have next_loop: "length rest < length (c # cs) \<Longrightarrow> ends rest (array_loop sm n rest acc')" for rest acc'
        by (rule Suc.IH) (use cs in simp)
      show ?thesis
        unfolding Cons array_loop.simps
        by (intro ends_if ends_after shorter_parts ends_error ends_Cons shorter_ends next_loop Suc.IH cs) simp_all
    qed (simp add: ends_def)
  next
    case 2
    then show ?case
    proof (cases data)
      case (Cons c cs)
      have cs: "length cs < n" using 2 Cons by simp
      have next_loop: "length rest < length (c # cs) \<Longrightarrow> ends rest (object_loop sm n rest acc' nm')" for rest acc' nm'
        by (rule Suc.IH) (use cs in simp)
      show ?thesis
        unfolding Cons object_loop.simps Let_def
        by (intro ends_if ends_after ends_option shorter_parts ends_error ends_Cons shorter_ends next_loop Suc.IH cs) simp_all
    qed (simp add: ends_def)
  }
qed simp_all

lemma parse_start_ends: "length data \<le> n \<Longrightarrow> data \<noteq> [] \<longrightarrow> 0 < n \<Longrightarrow> ends data (parse_start sm n data)"
proof (induction sm n data rule: parse_start.induct)
  case (2 sm n c cs)
  then have n: "length cs < n" by simp
  show ?case
    using 2 loops_end(1) [OF n, of sm "[]"] loops_end(2) [OF n, of sm "[]" None]
    by (auto simp: JsonParseAsObject_def JsonParseAsArray_def ends_error intro: ends_Cons)
qed (simp add: ends_def)


section \<open>What the loops return with enough fuel\<close>

definition arr_gives where
  "arr_gives sm d acc r \<longleftrightarrow> (\<forall>m. length d < m \<longrightarrow> array_loop sm m d acc = Some r)"

definition obj_gives where
  "obj_gives sm d acc nm r \<longleftrightarrow> (\<forall>m. length d < m \<longrightarrow> object_loop sm m d acc nm = Some r)"

lemma gives_Suc:
  "arr_gives sm (c # cs) acc r \<longleftrightarrow> (\<forall>m. length cs < m \<longrightarrow> array_loop sm (Suc m) (c # cs) acc = Some r)"
  "obj_gives sm (c # cs) acc' nm r \<longleftrightarrow> (\<forall>m. length cs < m \<longrightarrow> object_loop sm (Suc m) (c # cs) acc' nm = Some r)"
  unfolding arr_gives_def obj_gives_def by (metis Suc_less_eq2 length_Cons)+

lemma arr_white: "IsWhitespace c \<Longrightarrow> arr_gives sm cs acc r \<Longrightarrow> arr_gives sm (c # cs) acc r"
  by (simp add: gives_Suc) (simp add: arr_gives_def)

lemma obj_white: "IsWhitespace c \<Longrightarrow> obj_gives sm cs acc nm r \<Longrightarrow> obj_gives sm (c # cs) acc nm r"
  by (simp add: gives_Suc) (simp add: obj_gives_def)

lemma not_white [simp]:
  "\<not> IsWhitespace (CHR '','')" "\<not> IsWhitespace (CHR '']'')" "\<not> IsWhitespace (CHR ''}'')"
  "\<not> IsWhitespace (CHR ''['')" "\<not> IsWhitespace (CHR ''{'')" "\<not> IsWhitespace (CHR 0x22)" "\<not> IsWhitespace (CHR '':'')"
  by (simp_all add: IsWhitespace_def)

lemma arr_comma: "arr_gives sm cs acc r \<Longrightarrow> arr_gives sm (CHR '','' # cs) acc r"
  by (simp add: gives_Suc) (simp add: arr_gives_def)

lemma arr_close:
  "arr_gives sm (CHR '']'' # cs) acc (Inr (JsonContainer None JSON_CONTAINER_TYPE_ARRAY acc, CHR '']'' # cs))"
  by (simp add: gives_Suc)

lemma obj_comma: "obj_gives sm cs acc None r \<Longrightarrow> obj_gives sm (CHR '','' # cs) acc None r"
  by (simp add: gives_Suc) (simp add: obj_gives_def)

lemma obj_colon: "obj_gives sm cs acc (Some k) r \<Longrightarrow> obj_gives sm (CHR '':'' # cs) acc (Some k) r"
  by (simp add: gives_Suc) (simp add: obj_gives_def)

lemma obj_close:
  "obj_gives sm (CHR ''}'' # cs) acc None (Inr (JsonContainer None JSON_CONTAINER_TYPE_OBJECT acc, CHR ''}'' # cs))"
  by (simp add: gives_Suc Let_def)

lemma arr_string:
  assumes "JsonParseAsString (CHR 0x22 # cs) = Inr (v, q # rest)" "arr_gives sm rest (acc @ [JsonStringCreate v]) r"
  shows "arr_gives sm (CHR 0x22 # cs) acc r"
  using assms JsonParseAsString_shorter [OF assms(1)]
  by (simp add: gives_Suc after_value_def) (simp add: arr_gives_def)

lemma obj_key:
  assumes "JsonParseAsString (CHR 0x22 # cs) = Inr (v, q # rest)" "obj_gives sm rest acc (Some v) r"
  shows "obj_gives sm (CHR 0x22 # cs) acc None r"
  using assms JsonParseAsString_shorter [OF assms(1)]
  by (simp add: gives_Suc after_value_def Let_def) (simp add: obj_gives_def)

lemma obj_string:
  assumes "JsonParseAsString (CHR 0x22 # cs) = Inr (v, q # rest)"
    and "obj_gives sm rest (acc @ [JsonElementSetPropertyName (JsonStringCreate v) (Some key)]) None r"
  shows "obj_gives sm (CHR 0x22 # cs) acc (Some key) r"
  using assms JsonParseAsString_shorter [OF assms(1)]
  by (simp add: gives_Suc after_value_def Let_def) (simp add: obj_gives_def)

definition word_start :: "char \<Rightarrow> bool" where
  "word_start c \<longleftrightarrow> c \<in> set ''tfn-'' \<or> isdigit c"

lemma word_start_other:
  assumes "word_start c"
  shows "\<not> IsWhitespace c" "c \<noteq> CHR 0x22" "c \<noteq> CHR ''[''" "c \<noteq> CHR ''{''" "c \<noteq> CHR '',''" "c \<noteq> CHR '']''"
    "c \<noteq> CHR ''}''" "c \<noteq> CHR '':''"
  using assms by (auto simp: word_start_def IsWhitespace_def isdigit_def)

lemma arr_word:
  assumes "parse_word sm (c # cs) = Inr (e, q # rest)" "word_start c" "arr_gives sm rest (acc @ [e]) r"
  shows "arr_gives sm (c # cs) acc r"
  using assms parse_word_shorter [OF assms(1)]
  by (simp add: gives_Suc after_value_def word_start_other) (simp add: arr_gives_def)

lemma obj_word:
  assumes "parse_word sm (c # cs) = Inr (e, q # rest)" "word_start c"
    and "obj_gives sm rest (acc @ [JsonElementSetPropertyName e (Some key)]) None r"
  shows "obj_gives sm (c # cs) acc (Some key) r"
  using assms parse_word_shorter [OF assms(1)]
  by (simp add: gives_Suc after_value_def word_start_other Let_def) (simp add: obj_gives_def)

lemma arr_array:
  assumes "arr_gives sm cs [] (Inr (e, q # rest))" "length rest < length cs" "arr_gives sm rest (acc @ [e]) r"
  shows "arr_gives sm (CHR ''['' # cs) acc r"
  using assms by (simp add: gives_Suc after_value_def) (simp add: arr_gives_def after_value_def)

lemma arr_object:
  assumes "obj_gives sm cs [] None (Inr (e, q # rest))" "length rest < length cs" "arr_gives sm rest (acc @ [e]) r"
  shows "arr_gives sm (CHR ''{'' # cs) acc r"
  using assms by (simp add: gives_Suc after_value_def) (simp add: arr_gives_def obj_gives_def after_value_def)

lemma obj_array:
  assumes "arr_gives sm cs [] (Inr (e, q # rest))" "length rest < length cs"
    and "obj_gives sm rest (acc @ [JsonElementSetPropertyName e (Some key)]) None r"
  shows "obj_gives sm (CHR ''['' # cs) acc (Some key) r"
  using assms by (simp add: gives_Suc Let_def) (simp add: arr_gives_def obj_gives_def after_value_def)

lemma obj_object:
  assumes "obj_gives sm cs [] None (Inr (e, q # rest))" "length rest < length cs"
    and "obj_gives sm rest (acc @ [JsonElementSetPropertyName e (Some key)]) None r"
  shows "obj_gives sm (CHR ''{'' # cs) acc (Some key) r"
  using assms by (simp add: gives_Suc Let_def) (simp add: obj_gives_def after_value_def)

section \<open>Reading back strings and numbers\<close>

definition plain :: "string \<Rightarrow> bool" where
  "plain u \<longleftrightarrow> list_all (\<lambda>c. c \<notin> {CHR 0x5C, CHR 0x08, CHR 0x0C, CHR 0x0A, CHR 0x0D, CHR 0x09}) u"

definition plain_key :: "string \<Rightarrow> bool" where
  "plain_key k \<longleftrightarrow> list_all (\<lambda>c. c \<noteq> CHR 0x22 \<and> c \<noteq> CHR 0x5C) k"

lemma string_loop_escaped:
  "plain u \<Longrightarrow> prev \<noteq> CHR 0x5C \<Longrightarrow>
   string_loop prev (EscapeJsonString u @ CHR 0x22 # rest) w = Inr (w @ u, CHR 0x22 # rest)"
  by (induction u arbitrary: prev w) (auto simp: EscapeJsonString_def plain_def escapable_def)

lemma string_loop_key:
  "plain_key k \<Longrightarrow> prev \<noteq> CHR 0x5C \<Longrightarrow> string_loop prev (k @ CHR 0x22 # rest) w = Inr (w @ k, CHR 0x22 # rest)"
  by (induction k arbitrary: prev w) (auto simp: plain_key_def)

lemma parse_escaped:
  "plain u \<Longrightarrow> JsonParseAsString (CHR 0x22 # EscapeJsonString u @ CHR 0x22 # rest) = Inr (u, CHR 0x22 # rest)"
  by (simp add: JsonParseAsString_def string_loop_escaped)

lemma parse_key: "plain_key k \<Longrightarrow> JsonParseAsString (CHR 0x22 # k @ CHR 0x22 # rest) = Inr (k, CHR 0x22 # rest)"
  by (simp add: JsonParseAsString_def string_loop_key)

lemma is_digit_iff: "is_digit (Some c) \<longleftrightarrow> isdigit c"
  using of_char_eq_iff [of c "CHR ''0''", where 'a = nat] by (auto simp: is_digit_def IsDigit_def isdigit_def)

lemma digit_other:
  assumes "isdigit c"
  shows "c \<noteq> CHR ''-''" "c \<noteq> CHR ''+''" "c \<noteq> CHR ''.''" "c \<noteq> CHR ''e''" "c \<noteq> CHR ''E''"
    "c \<noteq> CHR ''0'' \<Longrightarrow> IsDigit c"
  using assms is_digit_iff [of c] by (auto simp: isdigit_def is_digit_def)

lemma digit_separates: "isdigit c \<Longrightarrow> \<not> IsSeparator c"
  by (auto simp: isdigit_def IsSeparator_def IsWhitespace_def)

lemma show_nat_zero: "show_nat n = CHR ''0'' # cs \<Longrightarrow> cs = []"
proof (induction n arbitrary: cs rule: show_nat.induct)
  case (1 n)
  show ?case
  proof (cases "n < 10")
    case True
    with 1(2) show ?thesis by (simp add: show_nat.simps [of n])
  next
    case False
    obtain c ds where h: "show_nat (n div 10) = c # ds" using show_nat_Cons by blast
    from False 1(2) h have "c = CHR ''0''" by (simp add: show_nat.simps [of n])
    with 1(1) [OF False] h have "show_nat (n div 10) = ''0''" by blast
    then have "number 10 (show_nat (n div 10)) = 0" by (simp only:) code_simp
    with False show ?thesis by simp
  qed
qed

definition loose :: "number_scan \<Rightarrow> bool" where
  "loose v \<longleftrightarrow> \<not> (zero_started v \<and> \<not> seen_dot v \<and> \<not> seen_exponent v) \<and> prev_char v \<noteq> None"

lemma number_step_digit: "isdigit c \<Longrightarrow> loose v \<Longrightarrow> number_step c v = Inr v"
  using digit_other [of c] by (cases "c = CHR ''0''") (auto simp: number_step_def loose_def)

lemma number_loop_digits:
  "list_all isdigit ds \<Longrightarrow> loose v \<Longrightarrow> ds \<noteq> [] \<Longrightarrow>
   number_loop v (ds @ rest) w = number_loop (v\<lparr>prev_char := Some (last ds)\<rparr>) rest (w @ ds)"
proof (induction ds arbitrary: v w)
  case (Cons d ds)
  then have "loose (v\<lparr>prev_char := Some d\<rparr>)" by (simp add: loose_def)
  with Cons show ?case
    by (cases "ds = []") (auto simp: number_step_digit digit_separates)
qed simp

definition number_text :: "bool \<Rightarrow> nat \<Rightarrow> string option \<Rightarrow> string" where
  "number_text neg n frac =
     (if neg then ''-'' else []) @ show_nat n @ (case frac of None \<Rightarrow> [] | Some ds \<Rightarrow> CHR ''.'' # ds)"

definition fraction_ok :: "string option \<Rightarrow> bool" where
  "fraction_ok frac = (case frac of None \<Rightarrow> True | Some ds \<Rightarrow> ds \<noteq> [] \<and> list_all isdigit ds)"

lemma show_nat_isdigit: "list_all isdigit (show_nat n)"
  using show_nat_digits by (auto simp: list_all_iff)

text \<open>The integer part, from the start.\<close>

lemma number_loop_integer:
  "\<exists>v. number_loop \<lparr>zero_started = False, seen_dot = False, seen_exponent = False, prev_char = None\<rparr>
      ((if neg then ''-'' else []) @ show_nat n @ rest) [] = number_loop v rest ((if neg then ''-'' else []) @ show_nat n) \<and>
    prev_char v = Some (last (show_nat n)) \<and> \<not> seen_dot v \<and> \<not> seen_exponent v"
proof -
  let ?v = "\<lparr>zero_started = False, seen_dot = False, seen_exponent = False, prev_char = None\<rparr>"
  show ?thesis
  proof (cases neg)
    case True
    have "number_loop ?v (CHR ''-'' # show_nat n @ rest) [] =
        number_loop (?v\<lparr>prev_char := Some (CHR ''-'')\<rparr>) (show_nat n @ rest) ''-''"
      by (simp add: number_step_def IsSeparator_def IsWhitespace_def)
    also have "\<dots> = number_loop (?v\<lparr>prev_char := Some (last (show_nat n))\<rparr>) rest (''-'' @ show_nat n)"
      using number_loop_digits [OF show_nat_isdigit, of "?v\<lparr>prev_char := Some (CHR ''-'')\<rparr>" n rest "''-''"]
      by (simp add: loose_def)
    finally show ?thesis using True
      by (intro exI [of _ "?v\<lparr>prev_char := Some (last (show_nat n))\<rparr>"]) simp
  next
    case False
    obtain c cs where c: "show_nat n = c # cs" "isdigit c" using show_nat_Cons by blast
    show ?thesis
    proof (cases "c = CHR ''0''")
      case True
      with c show_nat_zero have "show_nat n = ''0''" by blast
      with False show ?thesis
        by (intro exI [of _ "?v\<lparr>zero_started := True, prev_char := Some (CHR ''0'')\<rparr>"])
          (simp add: number_step_def IsSeparator_def IsWhitespace_def)
    next
      case nz: False
      then have "number_step c ?v = Inr ?v"
        using digit_other [OF c(2)] by (simp add: number_step_def)
      then have 1: "number_loop ?v (c # cs @ rest) [] = number_loop (?v\<lparr>prev_char := Some c\<rparr>) (cs @ rest) [c]"
        using c(2) by (simp add: digit_separates)
      have "list_all isdigit cs" using show_nat_isdigit [of n] c(1) by simp
      with number_loop_digits [of cs "?v\<lparr>prev_char := Some c\<rparr>" rest "[c]"] 1 c False show ?thesis
        by (intro exI [of _ "?v\<lparr>prev_char := Some (last (c # cs))\<rparr>"]) (auto simp: loose_def)
    qed
  qed
qed

lemma parse_number:
  assumes "fraction_ok frac" "IsSeparator sep"
  shows "\<exists>p. JsonParseAsNumber (number_text neg n frac @ sep # rest) =
    Inr (JsonPrimitive None (if frac = None then JSON_PRIMITIVE_TYPE_INTEGER else JSON_PRIMITIVE_TYPE_REAL)
      (number_text neg n frac), p # sep # rest)"
proof -
  let ?sg = "if neg then ''-'' else []"
  have last: "isdigit (last (show_nat n))" using show_nat_isdigit [of n] by (simp add: list_all_iff)
  show ?thesis
  proof (cases frac)
    case None
    from number_loop_integer [of neg n "sep # rest"] obtain v where
      "number_loop \<lparr>zero_started = False, seen_dot = False, seen_exponent = False, prev_char = None\<rparr>
        (?sg @ show_nat n @ sep # rest) [] = Inr (v, ?sg @ show_nat n, sep # rest)"
      "prev_char v = Some (last (show_nat n))" "\<not> seen_dot v" using assms(2) by auto
    with None last show ?thesis
      by (simp add: JsonParseAsNumber_def number_text_def is_digit_iff JsonElementCreatePrimitive_def)
  next
    case (Some ds)
    then have ds: "ds \<noteq> []" "list_all isdigit ds" using assms(1) by (simp_all add: fraction_ok_def)
    then have ld: "isdigit (last ds)" by (simp add: list_all_iff)
    from number_loop_integer [of neg n "CHR ''.'' # ds @ sep # rest"] obtain v where
      v: "number_loop \<lparr>zero_started = False, seen_dot = False, seen_exponent = False, prev_char = None\<rparr>
        (?sg @ show_nat n @ CHR ''.'' # ds @ sep # rest) [] =
        number_loop v (CHR ''.'' # ds @ sep # rest) (?sg @ show_nat n)"
      "prev_char v = Some (last (show_nat n))" by blast
    have "number_loop v (CHR ''.'' # ds @ sep # rest) (?sg @ show_nat n) =
        number_loop (v\<lparr>seen_dot := True, prev_char := Some (CHR ''.'')\<rparr>) (ds @ sep # rest) (?sg @ show_nat n @ ''.'')"
      using v(2) last by (simp add: number_step_def is_digit_iff IsSeparator_def IsWhitespace_def)
    also have "\<dots> = Inr (v\<lparr>seen_dot := True, prev_char := Some (last ds)\<rparr>, ?sg @ show_nat n @ CHR ''.'' # ds, sep # rest)"
      using number_loop_digits [OF ds(2) _ ds(1), of "v\<lparr>seen_dot := True, prev_char := Some (CHR ''.'')\<rparr>"] assms(2)
      by (simp add: loose_def)
    finally show ?thesis using v Some ld
      by (simp add: JsonParseAsNumber_def number_text_def is_digit_iff JsonElementCreatePrimitive_def)
  qed
qed

section \<open>Reading back what was printed\<close>

text \<open>
  The documented behaviour of \<open>StringMatch\<close> for the three patterns, which are anchored words.
\<close>

definition literal_match :: "(string \<Rightarrow> string \<Rightarrow> bool) \<Rightarrow> bool" where
  "literal_match sm \<longleftrightarrow>
     (\<forall>w \<in> {JSON_TRUE, JSON_FALSE, JSON_NULL}. \<forall>d. sm (CHR ''^'' # w) d \<longleftrightarrow> take (length w) d = w)"

fun primitive_ok :: "JsonPrimitiveType \<Rightarrow> string \<Rightarrow> bool" where
  "primitive_ok JSON_PRIMITIVE_TYPE_STRING v = (\<exists>u. plain u \<and> v = EscapeJsonString u)"
| "primitive_ok JSON_PRIMITIVE_TYPE_INTEGER v = (\<exists>neg n. v = number_text neg n None)"
| "primitive_ok JSON_PRIMITIVE_TYPE_REAL v = (\<exists>neg n ds. fraction_ok (Some ds) \<and> v = number_text neg n (Some ds))"
| "primitive_ok JSON_PRIMITIVE_TYPE_BOOL v = (v \<in> {JSON_TRUE, JSON_FALSE})"
| "primitive_ok JSON_PRIMITIVE_TYPE_NULL v = (v = JSON_NULL)"

fun name_ok :: "JsonContainerType \<Rightarrow> string option \<Rightarrow> bool" where
  "name_ok JSON_CONTAINER_TYPE_ARRAY nm = (nm = None)"
| "name_ok JSON_CONTAINER_TYPE_OBJECT nm = (\<exists>k. nm = Some k \<and> plain_key k)"

fun json_ok :: "JsonElement \<Rightarrow> bool" where
  "json_ok (JsonPrimitive _ t v) = primitive_ok t v"
| "json_ok (JsonContainer _ t cs) = list_all (\<lambda>c. json_ok c \<and> name_ok t (propertyName c)) cs"

lemma parse_word_value:
  assumes "literal_match sm" "primitive_ok t v" "t \<noteq> JSON_PRIMITIVE_TYPE_STRING" "IsSeparator sep"
  shows "\<exists>c cs p. v = c # cs \<and> word_start c \<and>
    parse_word sm (v @ sep # rest) = Inr (JsonPrimitive None t v, p # sep # rest)"
proof -
  have words: "sm ''^true'' d \<longleftrightarrow> take 4 d = ''true''" "sm ''^false'' d \<longleftrightarrow> take 5 d = ''false''"
    "sm ''^null'' d \<longleftrightarrow> take 4 d = ''null''" for d
    using assms(1) by (simp_all add: literal_match_def JSON_TRUE_def JSON_FALSE_def JSON_NULL_def eval_nat_numeral)
  have sep: "word_ends (''true'' @ sep # rest) 4" "word_ends (''false'' @ sep # rest) 5"
      "word_ends (''null'' @ sep # rest) 4"
    using assms(4) by (simp_all add: word_ends_def)
  have created: "JsonBoolCreate True = JsonPrimitive None JSON_PRIMITIVE_TYPE_BOOL ''true''"
      "JsonBoolCreate False = JsonPrimitive None JSON_PRIMITIVE_TYPE_BOOL ''false''"
      "JsonNullCreate = JsonPrimitive None JSON_PRIMITIVE_TYPE_NULL ''null''"
    by (simp_all add: JsonBoolCreate_def JsonNullCreate_def JsonElementCreatePrimitive_def JSON_TRUE_def JSON_FALSE_def
        JSON_NULL_def)
  have number: "\<exists>c cs p. v = c # cs \<and> word_start c \<and> parse_word sm (v @ sep # rest) = Inr (JsonPrimitive None t v, p # sep # rest)"
    if "v = number_text neg n frac" "fraction_ok frac"
      "t = (if frac = None then JSON_PRIMITIVE_TYPE_INTEGER else JSON_PRIMITIVE_TYPE_REAL)" for neg n frac
  proof -
    note shape = that
    obtain c cs where c: "v = c # cs" "c = CHR ''-'' \<or> isdigit c"
      using shape(1) show_nat_Cons [of n] by (cases neg) (auto simp: number_text_def)
    then have "c = CHR ''-'' \<or> c = CHR ''0'' \<or> IsDigit c" using digit_other(6) by blast
    then have "parse_word sm (v @ sep # rest) = JsonParseAsNumber (v @ sep # rest)"
      by (simp add: parse_word_def c(1))
    moreover obtain p where "JsonParseAsNumber (v @ sep # rest) = Inr (JsonPrimitive None t v, p # sep # rest)"
      using parse_number [OF shape(2) assms(4), of neg n rest] shape(1,3) by blast
    moreover have "word_start c" using c(2) by (auto simp: word_start_def)
    ultimately show ?thesis using c(1) by simp
  qed
  show ?thesis
  proof (cases t)
    case JSON_PRIMITIVE_TYPE_INTEGER
    with assms(2) obtain neg n where "v = number_text neg n None" by auto
    with JSON_PRIMITIVE_TYPE_INTEGER show ?thesis by (intro number) (simp_all add: fraction_ok_def)
  next
    case JSON_PRIMITIVE_TYPE_REAL
    with assms(2) obtain neg n ds where "v = number_text neg n (Some ds)" "fraction_ok (Some ds)" by auto
    with JSON_PRIMITIVE_TYPE_REAL show ?thesis by (intro number [of neg n "Some ds"]) simp_all
  next
    case JSON_PRIMITIVE_TYPE_BOOL
    with assms(2) consider "v = ''true''" | "v = ''false''" by (auto simp: JSON_TRUE_def JSON_FALSE_def)
    then show ?thesis
    proof cases
      case 1
      have "parse_word sm (v @ sep # rest) = Inr (JsonPrimitive None t v, CHR ''e'' # sep # rest)"
        using JSON_PRIMITIVE_TYPE_BOOL sep(1) unfolding 1
        by (simp add: parse_word_def words JsonParseAsBoolean_def IsDigit_def created)
      with 1 show ?thesis by (simp add: word_start_def)
    next
      case 2
      have "parse_word sm (v @ sep # rest) = Inr (JsonPrimitive None t v, CHR ''e'' # sep # rest)"
        using JSON_PRIMITIVE_TYPE_BOOL sep(2) unfolding 2
        by (simp add: parse_word_def words JsonParseAsBoolean_def IsDigit_def created)
      with 2 show ?thesis by (simp add: word_start_def)
    qed
  next
    case JSON_PRIMITIVE_TYPE_NULL
    with assms(2) have v: "v = ''null''" by (simp add: JSON_NULL_def)
    have "parse_word sm (v @ sep # rest) = Inr (JsonPrimitive None t v, CHR ''l'' # sep # rest)"
      using JSON_PRIMITIVE_TYPE_NULL sep(3) unfolding v
      by (simp add: parse_word_def words JsonParseAsBoolean_def JsonParseAsNull_def IsDigit_def created)
    with v show ?thesis by (simp add: word_start_def)
  qed (use assms(3) in simp)
qed

text \<open>What the parser makes of the text of a container, behind its first bracket.\<close>

definition reads_back :: "(string \<Rightarrow> string \<Rightarrow> bool) \<Rightarrow> JsonElement \<Rightarrow> string \<Rightarrow> bool" where
  "reads_back sm e s \<longleftrightarrow>
     (\<exists>nm cs s'. e = JsonContainer nm JSON_CONTAINER_TYPE_ARRAY cs \<and> s = CHR ''['' # s' \<and> s' \<noteq> [] \<and>
       (\<forall>rest. arr_gives sm (s' @ rest) [] (Inr (JsonContainer None JSON_CONTAINER_TYPE_ARRAY cs, CHR '']'' # rest)))) \<or>
     (\<exists>nm cs s'. e = JsonContainer nm JSON_CONTAINER_TYPE_OBJECT cs \<and> s = CHR ''{'' # s' \<and> s' \<noteq> [] \<and>
       (\<forall>rest. obj_gives sm (s' @ rest) [] None (Inr (JsonContainer None JSON_CONTAINER_TYPE_OBJECT cs, CHR ''}'' # rest))))"

lemma arr_whites: "list_all IsWhitespace ws \<Longrightarrow> arr_gives sm d acc r \<Longrightarrow> arr_gives sm (ws @ d) acc r"
  by (induction ws) (simp_all add: arr_white)

lemma obj_whites: "list_all IsWhitespace ws \<Longrightarrow> obj_gives sm d acc nm r \<Longrightarrow> obj_gives sm (ws @ d) acc nm r"
  by (induction ws) (simp_all add: obj_white)

lemma whites [simp]: "list_all IsWhitespace (PrintIndent n)" "list_all IsWhitespace newline" "IsWhitespace (CHR '' '')"
  by (simp_all add: PrintIndent_def newline_def IsWhitespace_def list_all_iff)

lemma quoted:
  assumes "plain u"
  shows "arr_gives sm d (acc @ [JsonPrimitive None JSON_PRIMITIVE_TYPE_STRING (EscapeJsonString u)]) r \<Longrightarrow>
      arr_gives sm (PrintIndent k @ CHR 0x22 # EscapeJsonString u @ CHR 0x22 # d) acc r"
    "obj_gives sm d (acc @ [JsonPrimitive (Some key) JSON_PRIMITIVE_TYPE_STRING (EscapeJsonString u)]) None r \<Longrightarrow>
      obj_gives sm (PrintIndent k @ CHR 0x22 # EscapeJsonString u @ CHR 0x22 # d) acc (Some key) r"
  by (rule arr_whites [OF whites(1)], rule arr_string [OF parse_escaped [OF assms]],
      simp add: JsonStringCreate_def JsonElementCreatePrimitive_def)
    (rule obj_whites [OF whites(1)], rule obj_string [OF parse_escaped [OF assms]],
      simp add: JsonStringCreate_def JsonElementCreatePrimitive_def)

lemma worded:
  assumes "parse_word sm (x # xs @ rest) = Inr (e, p # rest)" "word_start x"
  shows "arr_gives sm rest (acc @ [e]) r \<Longrightarrow> arr_gives sm (PrintIndent k @ x # xs @ rest) acc r"
    "obj_gives sm rest (acc @ [JsonElementSetPropertyName e (Some key)]) None r \<Longrightarrow>
      obj_gives sm (PrintIndent k @ x # xs @ rest) acc (Some key) r"
  by (rule arr_whites [OF whites(1)], erule arr_word [OF assms])
    (rule obj_whites [OF whites(1)], erule obj_word [OF assms])

lemma arr_value:
  assumes "literal_match sm" "json_ok c" "propertyName c = None" "IsSeparator sep"
    and "\<not> is_primitive c \<Longrightarrow> JsonContainerPrint c n = Some s \<Longrightarrow> reads_back sm c s"
    and "(if is_primitive c then JsonPrimitivePrint c k else JsonContainerPrint c n) = Some s"
    and "arr_gives sm (sep # d) (acc @ [c]) r"
  shows "arr_gives sm (s @ sep # d) acc r"
proof (cases c)
  case (JsonPrimitive nm t v)
  show ?thesis
  proof (cases "t = JSON_PRIMITIVE_TYPE_STRING")
    case True
    with assms(2) JsonPrimitive obtain u where "plain u" "v = EscapeJsonString u" by auto
    with JsonPrimitive True assms(3,6,7) show ?thesis
      by (auto simp: quote_def quoted)
  next
    case False
    with JsonPrimitive parse_word_value [OF assms(1) _ False assms(4), of v d] assms(2) obtain x xs p where
      "v = x # xs" "word_start x" "parse_word sm (v @ sep # d) = Inr (JsonPrimitive None t v, p # sep # d)" by auto
    with JsonPrimitive False assms(3,6,7) show ?thesis
      by (auto intro!: worded(1))
  qed
next
  case (JsonContainer nm t cs)
  with assms(5,6) have "reads_back sm c s" by simp
  then consider (a) cs s' where "c = JsonContainer nm JSON_CONTAINER_TYPE_ARRAY cs" "s = CHR ''['' # s'" "s' \<noteq> []"
        "\<And>rest. arr_gives sm (s' @ rest) [] (Inr (JsonContainer None JSON_CONTAINER_TYPE_ARRAY cs, CHR '']'' # rest))"
    | (o) cs s' where "c = JsonContainer nm JSON_CONTAINER_TYPE_OBJECT cs" "s = CHR ''{'' # s'" "s' \<noteq> []"
        "\<And>rest. obj_gives sm (s' @ rest) [] None (Inr (JsonContainer None JSON_CONTAINER_TYPE_OBJECT cs, CHR ''}'' # rest))"
    using JsonContainer unfolding reads_back_def by blast
  then show ?thesis
  proof cases
    case a
    show ?thesis
      unfolding a(2) append_Cons by (rule arr_array [OF a(4)]) (use a(1,3) assms(3,7) in \<open>simp_all add: append_eq_Cons_conv\<close>)
  next
    case o
    show ?thesis
      unfolding o(2) append_Cons by (rule arr_object [OF o(4)]) (use o(1,3) assms(3,7) in \<open>simp_all add: append_eq_Cons_conv\<close>)
  qed
qed

lemma obj_value:
  assumes "literal_match sm" "json_ok c" "propertyName c = Some key" "IsSeparator sep"
    and "\<not> is_primitive c \<Longrightarrow> JsonContainerPrint c n = Some s \<Longrightarrow> reads_back sm c s"
    and "(if is_primitive c then JsonPrimitivePrint c k else JsonContainerPrint c n) = Some s"
    and "obj_gives sm (sep # d) (acc @ [c]) None r"
  shows "obj_gives sm (s @ sep # d) acc (Some key) r"
proof (cases c)
  case (JsonPrimitive nm t v)
  show ?thesis
  proof (cases "t = JSON_PRIMITIVE_TYPE_STRING")
    case True
    with assms(2) JsonPrimitive obtain u where "plain u" "v = EscapeJsonString u" by auto
    with JsonPrimitive True assms(3,6,7) show ?thesis
      by (auto simp: quote_def quoted)
  next
    case False
    with JsonPrimitive parse_word_value [OF assms(1) _ False assms(4), of v d] assms(2) obtain x xs p where
      "v = x # xs" "word_start x" "parse_word sm (v @ sep # d) = Inr (JsonPrimitive None t v, p # sep # d)" by auto
    with JsonPrimitive False assms(3,6,7) show ?thesis
      by (auto intro!: worded(2))
  qed
next
  case (JsonContainer nm t cs)
  with assms(5,6) have "reads_back sm c s" by simp
  then consider (a) cs s' where "c = JsonContainer nm JSON_CONTAINER_TYPE_ARRAY cs" "s = CHR ''['' # s'" "s' \<noteq> []"
        "\<And>rest. arr_gives sm (s' @ rest) [] (Inr (JsonContainer None JSON_CONTAINER_TYPE_ARRAY cs, CHR '']'' # rest))"
    | (o) cs s' where "c = JsonContainer nm JSON_CONTAINER_TYPE_OBJECT cs" "s = CHR ''{'' # s'" "s' \<noteq> []"
        "\<And>rest. obj_gives sm (s' @ rest) [] None (Inr (JsonContainer None JSON_CONTAINER_TYPE_OBJECT cs, CHR ''}'' # rest))"
    using JsonContainer unfolding reads_back_def by blast
  then show ?thesis
  proof cases
    case a
    show ?thesis
      unfolding a(2) append_Cons by (rule obj_array [OF a(4)]) (use a(1,3) assms(3,7) in \<open>simp_all add: append_eq_Cons_conv\<close>)
  next
    case o
    show ?thesis
      unfolding o(2) append_Cons by (rule obj_object [OF o(4)]) (use o(1,3) assms(3,7) in \<open>simp_all add: append_eq_Cons_conv\<close>)
  qed
qed

lemma separators [simp]: "IsSeparator (CHR '','')" "IsSeparator (CHR 0x0A)"
  by (simp_all add: IsSeparator_def IsWhitespace_def)

lemma print_reads_back:
  assumes "literal_match sm"
  shows "JsonContainerPrint e n = Some s \<Longrightarrow> json_ok e \<Longrightarrow> reads_back sm e s"
    and "array_items cs n = Some s \<Longrightarrow> list_all (\<lambda>c. json_ok c \<and> propertyName c = None) cs \<Longrightarrow>
      arr_gives sm (s @ PrintIndent n @ CHR '']'' # rest) acc
        (Inr (JsonContainer None JSON_CONTAINER_TYPE_ARRAY (acc @ cs), CHR '']'' # rest))"
    and "object_items cs n = Some s \<Longrightarrow> list_all (\<lambda>c. json_ok c \<and> name_ok JSON_CONTAINER_TYPE_OBJECT (propertyName c)) cs \<Longrightarrow>
      obj_gives sm (s @ PrintIndent n @ CHR ''}'' # rest) acc None
        (Inr (JsonContainer None JSON_CONTAINER_TYPE_OBJECT (acc @ cs), CHR ''}'' # rest))"
proof (induction e n and cs n and cs n arbitrary: s and s acc rest and s acc rest
    rule: JsonContainerPrint_array_items_object_items.induct)
  case (2 nm t cs n)
  show ?case
  proof (cases t)
    case JSON_CONTAINER_TYPE_ARRAY
    show ?thesis
    proof (cases "cs = []")
      case True
      with 2(3) JSON_CONTAINER_TYPE_ARRAY have "s = ''[]''" by simp
      with True JSON_CONTAINER_TYPE_ARRAY arr_close [of sm _ "[]"] show ?thesis by (simp add: reads_back_def)
    next
      case False
      with 2(3) JSON_CONTAINER_TYPE_ARRAY obtain body where
        body: "array_items cs n = Some body" "s = CHR ''['' # newline @ body @ PrintIndent n @ '']''"
        by (auto simp: bind_eq_Some_conv)
      have "arr_gives sm (newline @ body @ PrintIndent n @ CHR '']'' # rest) []
          (Inr (JsonContainer None JSON_CONTAINER_TYPE_ARRAY cs, CHR '']'' # rest))" for rest
        using arr_whites [OF whites(2) 2(2) [OF JSON_CONTAINER_TYPE_ARRAY False body(1), of rest "[]"]] 2(4)
          JSON_CONTAINER_TYPE_ARRAY by simp
      with body JSON_CONTAINER_TYPE_ARRAY show ?thesis by (simp add: reads_back_def)
    qed
  next
    case JSON_CONTAINER_TYPE_OBJECT
    with 2(3) obtain body where
      body: "object_items cs n = Some body" "s = CHR ''{'' # newline @ body @ PrintIndent n @ ''}''"
      by (auto simp: bind_eq_Some_conv)
    have "obj_gives sm (newline @ body @ PrintIndent n @ CHR ''}'' # rest) [] None
        (Inr (JsonContainer None JSON_CONTAINER_TYPE_OBJECT cs, CHR ''}'' # rest))" for rest
      using obj_whites [OF whites(2) 2(1) [OF JSON_CONTAINER_TYPE_OBJECT body(1), of rest "[]"]] 2(4)
        JSON_CONTAINER_TYPE_OBJECT by simp
    with body JSON_CONTAINER_TYPE_OBJECT show ?thesis by (simp add: reads_back_def)
  qed
next
  case (4 c cs n)
  let ?r = "Inr (JsonContainer None JSON_CONTAINER_TYPE_ARRAY (acc @ c # cs), CHR '']'' # rest)"
  let ?sep = "if cs \<noteq> [] then CHR '','' else CHR 0x0A"
  let ?d = "\<lambda>t. (if cs \<noteq> [] then newline else []) @ t @ PrintIndent n @ CHR '']'' # rest"
  from 4(3) obtain item s1 t where
    item: "(if is_primitive c then JsonPrimitivePrint c (n + 1) else JsonContainerPrint c (n + 1)) = Some s1"
      "item = (if is_primitive c then [] else PrintIndent (n + 1)) @ s1"
    and made: "(if is_primitive c then JsonPrimitivePrint c (n + 1)
        else do { s \<leftarrow> JsonContainerPrint c (n + 1); Some (PrintIndent (n + 1) @ s) }) = Some item"
    and t: "array_items cs n = Some t" and s: "s @ PrintIndent n @ CHR '']'' # rest = item @ ?sep # ?d t"
    by (auto simp: newline_def bind_eq_Some_conv split: if_splits)
  have "arr_gives sm (t @ PrintIndent n @ CHR '']'' # rest) (acc @ [c]) ?r"
    using 4(2) [OF made t, of rest "acc @ [c]"] 4(4) by simp
  then have "arr_gives sm (?sep # ?d t) (acc @ [c]) ?r"
    by (auto intro!: arr_comma arr_whites arr_white simp: IsWhitespace_def)
  then have "arr_gives sm (s1 @ ?sep # ?d t) acc ?r"
    using arr_value [OF assms _ _ _ _ item(1)] 4(1,4) by simp
  then show ?case
    unfolding s item(2) by (auto intro: arr_whites)
next
  case (6 c cs n)
  let ?r = "Inr (JsonContainer None JSON_CONTAINER_TYPE_OBJECT (acc @ c # cs), CHR ''}'' # rest)"
  let ?sep = "if cs \<noteq> [] then CHR '','' else CHR 0x0A"
  let ?d = "\<lambda>t. (if cs \<noteq> [] then newline else []) @ t @ PrintIndent n @ CHR ''}'' # rest"
  from 6(4) obtain k where k: "propertyName c = Some k" "plain_key k" by auto
  from 6(3) k obtain s1 t where
    item: "(if is_primitive c then JsonPrimitivePrint c 0 else JsonContainerPrint c (n + 1)) = Some s1"
    and t: "object_items cs n = Some t"
    and s: "s @ PrintIndent n @ CHR ''}'' # rest =
      PrintIndent (n + 1) @ CHR 0x22 # k @ CHR 0x22 # CHR '':'' # CHR '' '' # s1 @ ?sep # ?d t"
    by (auto simp: newline_def quote_def bind_eq_Some_conv split: if_splits)
  have "obj_gives sm (t @ PrintIndent n @ CHR ''}'' # rest) (acc @ [c]) None ?r"
    using 6(2) [OF k(1) item t, of rest "acc @ [c]"] 6(4) by simp
  then have "obj_gives sm (?sep # ?d t) (acc @ [c]) None ?r"
    by (auto intro!: obj_comma obj_whites obj_white simp: IsWhitespace_def)
  then have "obj_gives sm (s1 @ ?sep # ?d t) acc (Some k) ?r"
    by (rule obj_value [OF assms _ k(1) _ 6(1) [OF k(1)] item, rotated -1]) (use 6(4) k in simp_all)
  then show ?case
    unfolding s
    by - (rule obj_whites [OF whites(1)], rule obj_key [OF parse_key [OF k(2)]], rule obj_colon,
        rule obj_white [OF whites(3)])
qed (auto intro: arr_whites arr_close obj_whites obj_close)


fun bracket :: "JsonContainerType \<Rightarrow> char" where
  "bracket JSON_CONTAINER_TYPE_ARRAY = CHR '']''"
| "bracket JSON_CONTAINER_TYPE_OBJECT = CHR ''}''"


definition sample_object :: JsonElement where
  "sample_object = JsonContainer None JSON_CONTAINER_TYPE_OBJECT
     [JsonPrimitive (Some ''name'') JSON_PRIMITIVE_TYPE_STRING ''a'',
      JsonContainer (Some ''list'') JSON_CONTAINER_TYPE_ARRAY
        [JsonPrimitive None JSON_PRIMITIVE_TYPE_BOOL ''true'', JsonPrimitive None JSON_PRIMITIVE_TYPE_INTEGER ''-0'']]"

definition words_only :: "string \<Rightarrow> string \<Rightarrow> bool" where
  "words_only re d \<longleftrightarrow> take (length re - 1) d = tl re"



text \<open>
  Two strings that the round trip leaves out. A string that ends with a backslash is printed with two of
  them; the closing quote follows a backslash and does not close. A newline is printed as a backslash
  and the letter n, which the parser reads as these two characters.
\<close>

definition print_and_parse :: "string \<Rightarrow> (JsonParseError + JsonElement \<times> string) option" where
  "print_and_parse v =
     (case JsonElementPrint (JsonContainer None JSON_CONTAINER_TYPE_ARRAY [JsonStringCreate v]) 0 of
        None \<Rightarrow> None
      | Some s \<Rightarrow> JsonParse words_only s)"

lemma escapes_not_read_back:
  "print_and_parse [CHR 0x5C] = Some (Inl JSON_PARSE_ERROR_STRING_NO_DOUBLEQUOTE_END)"
  "print_and_parse [CHR 0x0A] =
     Some (Inr (JsonContainer None JSON_CONTAINER_TYPE_ARRAY [JsonStringCreate [CHR 0x5C, CHR ''n'']], '']''))"
  by code_simp+

end
