(* ===== verification/Lastseen.thy ===== *)
theory Lastseen
  imports Complex_Main Key_Store Conversion_Types Item_List
begin

text \<open>
  Digests as \<open>libpromises/files_hashes.c\<close> prints them, and the record of the hosts that were seen,
  \<open>libpromises/lastseen.c\<close> with \<open>libutils/statistics.c\<close>. The database holds under \<open>k<host key>\<close> the address,
  under \<open>a<address>\<close> the host key and under \<open>qi\<close> and \<open>qo\<close> the quality of the connections. A database
  that cannot be opened is \<open>None\<close>. Numbers of type \<open>double\<close> are rationals, without rounding. The lists of items in
  \<open>IsLastSeenCoherent\<close> are lists of names; texts in the database are shorter than the buffers.
\<close>

section \<open>Digests\<close>

datatype HashMethod =
  HASH_METHOD_MD5 | HASH_METHOD_SHA224 | HASH_METHOD_SHA256 | HASH_METHOD_SHA384 | HASH_METHOD_SHA512
| HASH_METHOD_SHA1 | HASH_METHOD_SHA | HASH_METHOD_BEST | HASH_METHOD_CRYPT | HASH_METHOD_NONE

fun CF_DIGEST_SIZES :: "HashMethod \<Rightarrow> nat" where
  "CF_DIGEST_SIZES HASH_METHOD_MD5 = 16"
| "CF_DIGEST_SIZES HASH_METHOD_SHA224 = 28"
| "CF_DIGEST_SIZES HASH_METHOD_SHA256 = 32"
| "CF_DIGEST_SIZES HASH_METHOD_SHA384 = 48"
| "CF_DIGEST_SIZES HASH_METHOD_SHA512 = 64"
| "CF_DIGEST_SIZES HASH_METHOD_SHA1 = 20"
| "CF_DIGEST_SIZES HASH_METHOD_SHA = 20"
| "CF_DIGEST_SIZES HASH_METHOD_BEST = 0"
| "CF_DIGEST_SIZES HASH_METHOD_CRYPT = 64"
| "CF_DIGEST_SIZES HASH_METHOD_NONE = 0"

text \<open>The names of the methods, in their order; the last one has none.\<close>

definition CF_DIGEST_TYPES :: "(HashMethod \<times> string) list" where
  "CF_DIGEST_TYPES =
     [(HASH_METHOD_MD5, ''md5''), (HASH_METHOD_SHA224, ''sha224''), (HASH_METHOD_SHA256, ''sha256''),
      (HASH_METHOD_SHA384, ''sha384''), (HASH_METHOD_SHA512, ''sha512''), (HASH_METHOD_SHA1, ''sha1''),
      (HASH_METHOD_SHA, ''sha''), (HASH_METHOD_BEST, ''best''), (HASH_METHOD_CRYPT, ''crypt'')]"

definition FileHashName :: "HashMethod \<Rightarrow> string option" where
  "FileHashName method = map_of CF_DIGEST_TYPES method"

definition FileHashSize :: "HashMethod \<Rightarrow> nat" where
  "FileHashSize method = CF_DIGEST_SIZES method"

definition HashMethodFromString :: "string option \<Rightarrow> HashMethod" where
  "HashMethodFromString typestr =
     (case List.find (\<lambda>(m, nm). case typestr of None \<Rightarrow> False | Some s \<Rightarrow> strcmp s nm = 0) CF_DIGEST_TYPES of
        Some (m, _) \<Rightarrow> m
      | None \<Rightarrow> HASH_METHOD_NONE)"

text \<open>A digest is a buffer of bytes that is longer than every digest.\<close>

definition HashesMatch :: "nat list \<Rightarrow> nat list \<Rightarrow> HashMethod \<Rightarrow> bool" where
  "HashesMatch digest1 digest2 type \<longleftrightarrow>
     list_all (\<lambda>i. digest1 ! i = digest2 ! i) [0..<FileHashSize type]"

definition hex_digit :: "nat \<Rightarrow> char" where
  "hex_digit n = (if n < 10 then char_of (48 + n) else char_of (87 + n))"

definition hex_byte :: "nat \<Rightarrow> string" where
  "hex_byte b = [hex_digit (b div 16), hex_digit (b mod 16)]"

definition HashPrintSafe :: "HashMethod \<Rightarrow> nat list \<Rightarrow> string" where
  "HashPrintSafe type digest =
     (case type of HASH_METHOD_MD5 \<Rightarrow> ''MD5='' | _ \<Rightarrow> ''SHA='') @
     concat (map (\<lambda>i. hex_byte (digest ! i)) [0..<CF_DIGEST_SIZES type])"

definition SkipHashType :: "string \<Rightarrow> string" where
  "SkipHashType hash =
     (if strncmp hash ''MD5='' 4 = 0 \<or> strncmp hash ''SHA='' 4 = 0 then drop 4 hash else hash)"

section \<open>Averages\<close>

record QPoint =
  q_last :: rat
  expect :: rat
  var :: rat
  dq :: rat

definition GAverage :: "rat \<Rightarrow> rat \<Rightarrow> rat \<Rightarrow> rat" where
  "GAverage anew aold p = p * anew + (1 - p) * aold"

definition QAverage :: "QPoint \<Rightarrow> rat \<Rightarrow> rat \<Rightarrow> QPoint" where
  "QAverage old new_q p =
     (let devsquare = (new_q - expect old) * (new_q - expect old) in
      \<lparr>q_last = new_q, expect = GAverage new_q (expect old) p, var = GAverage devsquare (var old) p,
       dq = new_q - q_last old\<rparr>)"

definition QDefinite :: "rat \<Rightarrow> QPoint" where
  "QDefinite q = \<lparr>q_last = q, expect = q, var = 0, dq = 0\<rparr>"

section \<open>Hosts that were seen\<close>

record KeyHostSeen =
  lastseen :: int
  Q :: QPoint

datatype LastSeenRole = LAST_SEEN_ROLE_CONNECT | LAST_SEEN_ROLE_ACCEPT

datatype SeenValue = Seen KeyHostSeen | Text string

type_synonym SeenDB = "SeenValue DB"

fun as_text :: "SeenValue option \<Rightarrow> string option" where
  "as_text (Some (Text t)) = Some t"
| "as_text _ = None"

fun as_seen :: "SeenValue option \<Rightarrow> KeyHostSeen option" where
  "as_seen (Some (Seen q)) = Some q"
| "as_seen _ = None"

text \<open>A key in a buffer.\<close>

definition seen_key :: "string \<Rightarrow> string \<Rightarrow> string" where
  "seen_key kind s = strlcpy (kind @ s) CF_BUFSIZE"

definition quality_kind :: "bool \<Rightarrow> string" where
  "quality_kind incoming = (if incoming then ''qi'' else ''qo'')"

definition update_entries :: "string \<Rightarrow> string \<Rightarrow> bool \<Rightarrow> int \<Rightarrow> SeenDB \<Rightarrow> SeenDB" where
  "update_entries hostkey address incoming timestamp db =
     (let quality_key = seen_key (quality_kind incoming) hostkey;
          newq = (case as_seen (map_of db quality_key) of
                    Some q \<Rightarrow> \<lparr>lastseen = timestamp, Q = QAverage (Q q) (of_int (timestamp - lastseen q)) (4 / 10)\<rparr>
                  | None \<Rightarrow> \<lparr>lastseen = timestamp, Q = QDefinite 0\<rparr>);
          db1 = WriteDB db quality_key (Seen newq);
          db2 = WriteDB db1 (seen_key ''k'' hostkey) (Text address)
      in WriteDB db2 (seen_key ''a'' address) (Text hostkey))"

definition UpdateLastSawHost :: "string \<Rightarrow> string \<Rightarrow> bool \<Rightarrow> int \<Rightarrow> SeenDB option \<Rightarrow> SeenDB option" where
  "UpdateLastSawHost hostkey address incoming timestamp db =
     map_option (update_entries hostkey address incoming timestamp) db"

definition LastSaw :: "HashMethod \<Rightarrow> int \<Rightarrow> string \<Rightarrow> nat list \<Rightarrow> LastSeenRole \<Rightarrow> SeenDB option \<Rightarrow> SeenDB option" where
  "LastSaw default_digest now ipaddress digest role db =
     (if length ipaddress = 0 then db
      else UpdateLastSawHost (HashPrintSafe default_digest digest) (MapAddress ipaddress)
        (role = LAST_SEEN_ROLE_ACCEPT) now db)"

text \<open>The answer, and the database without a mapping that does not lead back.\<close>

definition Address2HostkeyInDB :: "SeenDB \<Rightarrow> string \<Rightarrow> string option \<times> SeenDB" where
  "Address2HostkeyInDB db address =
     (let address_key = seen_key ''a'' address in
      (case as_text (map_of db address_key) of
         None \<Rightarrow> (None, db)
       | Some hostkey \<Rightarrow>
           (case as_text (map_of db (seen_key ''k'' hostkey)) of
              None \<Rightarrow> (None, DeleteDB db address_key)
            | Some back_address \<Rightarrow>
                if strcmp address back_address \<noteq> 0 then (None, DeleteDB db address_key)
                else (Some (strlcpy hostkey CF_BUFSIZE), db))))"

text \<open>\<open>own\<close> is the digest of \<open>PUBKEY\<close>, when there is one.\<close>

definition Address2Hostkey ::
  "string \<Rightarrow> HashMethod \<Rightarrow> nat list option \<Rightarrow> string \<Rightarrow> SeenDB option \<Rightarrow> string option \<times> SeenDB option"
where
  "Address2Hostkey vipaddress default_digest own address db =
     (if strcmp address ''127.0.0.1'' = 0 \<or> strcmp address ''::1'' = 0 \<or> strcmp address vipaddress = 0
      then (map_option (HashPrintSafe default_digest) own, db)
      else
        (case db of
           None \<Rightarrow> (None, None)
         | Some d \<Rightarrow> (let (r, d') = Address2HostkeyInDB d address in (r, Some d'))))"

definition IsDigestOrHost :: "string \<Rightarrow> bool" where
  "IsDigestOrHost input \<longleftrightarrow> strncmp input ''SHA='' 3 = 0 \<or> strncmp input ''MD5='' 3 = 0"

section \<open>Coherence\<close>

text \<open>\<open>IsItemIn\<close> holds of an empty name, so that it is never added.\<close>

definition is_name_in :: "string list \<Rightarrow> string \<Rightarrow> bool" where
  "is_name_in xs s \<longleftrightarrow> s = [] \<or> s \<in> set xs"

definition add_name :: "string list \<Rightarrow> string \<Rightarrow> string list" where
  "add_name xs s = (if is_name_in xs s then xs else s # xs)"

definition names_compare :: "string list \<Rightarrow> string list \<Rightarrow> bool" where
  "names_compare l1 l2 \<longleftrightarrow> length l1 = length l2 \<and> list_all (is_name_in l2) l1"

record coherence =
  akeys :: "string list"
  kkeys :: "string list"
  ahosts :: "string list"
  khosts :: "string list"

definition coherence_step :: "coherence \<Rightarrow> string \<times> SeenValue \<Rightarrow> coherence" where
  "coherence_step s e =
     (case e of (key, v) \<Rightarrow>
        (case key of
           [] \<Rightarrow> s
         | c # cs \<Rightarrow>
             if c = CHR ''k'' then
               (if strncmp key ''kSHA='' 4 = 0 \<or> strncmp key ''kMD5='' 4 = 0 then
                  (let s1 = s\<lparr>kkeys := add_name (kkeys s) cs\<rparr> in
                   (case as_text (Some v) of None \<Rightarrow> s1 | Some val \<Rightarrow> s1\<lparr>khosts := add_name (khosts s1) val\<rparr>))
                else s)
             else if c = CHR ''a'' then
               (let s1 = s\<lparr>ahosts := add_name (ahosts s) cs\<rparr> in
                (case as_text (Some v) of None \<Rightarrow> s1 | Some val \<Rightarrow> s1\<lparr>akeys := add_name (akeys s1) val\<rparr>))
             else s))"

definition IsLastSeenCoherent :: "SeenDB option \<Rightarrow> bool" where
  "IsLastSeenCoherent db =
     (case db of
        None \<Rightarrow> False
      | Some d \<Rightarrow>
          (let s = foldl coherence_step \<lparr>akeys = [], kkeys = [], ahosts = [], khosts = []\<rparr> d in
           names_compare (ahosts s) (khosts s) \<and> names_compare (akeys s) (kkeys s)))"

section \<open>Removing hosts\<close>

definition delete_qualities :: "SeenDB \<Rightarrow> string \<Rightarrow> SeenDB" where
  "delete_qualities db key = DeleteDB (DeleteDB db (seen_key ''qi'' key)) (seen_key ''qo'' key)"

text \<open>
  The results are whether an entry was deleted, what is copied for the caller, and the
  database. The digest of an address is copied with the letter of its key in the database.
\<close>

definition DeleteIpFromLastSeen :: "string \<Rightarrow> SeenDB option \<Rightarrow> bool \<times> string option \<times> SeenDB option" where
  "DeleteIpFromLastSeen ip db =
     (case db of
        None \<Rightarrow> (False, None, None)
      | Some d \<Rightarrow>
          (let bufhost = seen_key ''a'' ip in
           (case as_text (map_of d bufhost) of
              None \<Rightarrow> (False, None, db)
            | Some key \<Rightarrow>
                (let bufkey = seen_key ''k'' key in
                 if \<not> HasKeyDB d bufkey then (False, None, db)
                 else (True, Some bufkey, Some (delete_qualities (DeleteDB (DeleteDB d bufkey) bufhost) key))))))"

definition DeleteDigestFromLastSeen :: "string \<Rightarrow> SeenDB option \<Rightarrow> bool \<times> string option \<times> SeenDB option" where
  "DeleteDigestFromLastSeen key db =
     (case db of
        None \<Rightarrow> (False, None, None)
      | Some d \<Rightarrow>
          (let bufkey = seen_key ''k'' key in
           (case as_text (map_of d bufkey) of
              None \<Rightarrow> (False, None, db)
            | Some host \<Rightarrow>
                (let bufhost = seen_key ''a'' host in
                 if \<not> HasKeyDB d bufhost then (False, None, db)
                 else (True, Some host, Some (delete_qualities (DeleteDB (DeleteDB d bufhost) bufkey) key))))))"

definition RemoveKeysFromLastSeen :: "string \<Rightarrow> bool \<Rightarrow> SeenDB option \<Rightarrow> int \<times> string option \<times> SeenDB option" where
  "RemoveKeysFromLastSeen input must_be_coherent db =
     (if must_be_coherent \<and> \<not> IsLastSeenCoherent db then (254, None, db)
      else if IsDigestOrHost input then
        (case DeleteDigestFromLastSeen input db of
           (False, eq, db') \<Rightarrow> (252, eq, db')
         | (True, eq, db') \<Rightarrow> (0, eq, db'))
      else
        (case DeleteIpFromLastSeen input db of
           (False, eq, db') \<Rightarrow> (253, eq, db')
         | (True, eq, db') \<Rightarrow> (0, eq, db')))"

section \<open>Scanning\<close>

text \<open>The callback has a state and answers whether to go on.\<close>

definition call_quality ::
  "(string \<Rightarrow> string \<Rightarrow> bool \<Rightarrow> KeyHostSeen \<Rightarrow> 's \<Rightarrow> bool \<times> 's) \<Rightarrow> SeenDB \<Rightarrow> bool \<Rightarrow> string \<Rightarrow> string \<Rightarrow> 's \<Rightarrow>
   bool \<times> 's"
where
  "call_quality callback db incoming hostkey address s =
     (case as_seen (map_of db (seen_key (quality_kind incoming) hostkey)) of
        None \<Rightarrow> (True, s)
      | Some q \<Rightarrow> callback hostkey address incoming q s)"

fun scan_loop ::
  "(string \<Rightarrow> string \<Rightarrow> bool \<Rightarrow> KeyHostSeen \<Rightarrow> 's \<Rightarrow> bool \<times> 's) \<Rightarrow> SeenDB \<Rightarrow> SeenDB \<Rightarrow> 's \<Rightarrow> 's"
where
  "scan_loop callback db [] s = s"
| "scan_loop callback db ((key, v) # es) s =
     (case (key, v) of
        (CHR ''k'' # hostkey, Text address) \<Rightarrow>
          (case call_quality callback db True hostkey address s of
             (False, s1) \<Rightarrow> s1
           | (True, s1) \<Rightarrow>
               (case call_quality callback db False hostkey address s1 of
                  (False, s2) \<Rightarrow> s2
                | (True, s2) \<Rightarrow> scan_loop callback db es s2))
      | _ \<Rightarrow> scan_loop callback db es s)"

definition ScanLastSeenQuality ::
  "(string \<Rightarrow> string \<Rightarrow> bool \<Rightarrow> KeyHostSeen \<Rightarrow> 's \<Rightarrow> bool \<times> 's) \<Rightarrow> SeenDB option \<Rightarrow> 's \<Rightarrow> bool \<times> 's"
where
  "ScanLastSeenQuality callback db s =
     (case db of None \<Rightarrow> (False, s) | Some d \<Rightarrow> (True, scan_loop callback d d s))"

definition LastSeenHostKeyCount :: "SeenDB option \<Rightarrow> nat" where
  "LastSeenHostKeyCount db =
     (case db of
        None \<Rightarrow> 0
      | Some d \<Rightarrow> length (filter (\<lambda>(key, _). key \<noteq> [] \<and> hd key = CHR ''k'') d))"


section \<open>Who answers for an address\<close>

definition short :: "string \<Rightarrow> bool" where
  "short s \<longleftrightarrow> length s + 2 < CF_BUFSIZE"

lemma CF_BUFSIZE_large: "2 < CF_BUFSIZE"
  by (simp add: CF_BUFSIZE_def)

lemma seen_key_short: "short s \<Longrightarrow> seen_key [c] s = c # s" "short s \<Longrightarrow> seen_key [c, d] s = c # d # s"
  by (simp_all add: seen_key_def strlcpy_def short_def)

lemma strlcpy_short: "short s \<Longrightarrow> strlcpy s CF_BUFSIZE = s"
  by (simp add: strlcpy_def short_def)

definition address_of :: "SeenDB \<Rightarrow> string \<Rightarrow> string option" where
  "address_of db h = as_text (map_of db (CHR ''k'' # h))"

definition host_of :: "SeenDB \<Rightarrow> string \<Rightarrow> string option" where
  "host_of db a = as_text (map_of db (CHR ''a'' # a))"

definition quality_of :: "SeenDB \<Rightarrow> bool \<Rightarrow> string \<Rightarrow> KeyHostSeen option" where
  "quality_of db incoming h = as_seen (map_of db (quality_kind incoming @ h))"

lemmas seen_of_defs = address_of_def host_of_def quality_of_def quality_kind_def

text \<open>All texts in the database are short.\<close>

definition seen_ok :: "SeenDB \<Rightarrow> bool" where
  "seen_ok db \<longleftrightarrow> unique_keys db \<and> (\<forall>k t. map_of db k = Some (Text t) \<longrightarrow> short t)"

lemma short_of: "seen_ok db \<Longrightarrow> address_of db h = Some a \<Longrightarrow> short a" "seen_ok db \<Longrightarrow> host_of db a = Some h \<Longrightarrow> short h"
  unfolding seen_ok_def address_of_def host_of_def by (auto elim!: as_text.elims)

lemma update_entries_of:
  assumes "short h" "short a"
  shows "address_of (update_entries h a inc time db) = (address_of db)(h \<mapsto> a)"
    "host_of (update_entries h a inc time db) = (host_of db)(a \<mapsto> h)"
    "quality_of (update_entries h a inc time db) = (quality_of db)(inc := (quality_of db inc)(h \<mapsto>
       (case quality_of db inc h of
          None \<Rightarrow> \<lparr>lastseen = time, Q = QDefinite 0\<rparr>
        | Some q \<Rightarrow> \<lparr>lastseen = time, Q = QAverage (Q q) (of_int (time - lastseen q)) (4 / 10)\<rparr>)))"
  using assms
  by (auto simp: update_entries_def seen_of_defs Let_def seen_key_short fun_eq_iff split: option.split)

lemma update_entries_ok: "seen_ok db \<Longrightarrow> short h \<Longrightarrow> short a \<Longrightarrow> seen_ok (update_entries h a inc time db)"
  by (auto simp: seen_ok_def update_entries_def Let_def unique_keys_ops)

lemma Address2HostkeyInDB_of:
  assumes "seen_ok db" "short a"
  shows "fst (Address2HostkeyInDB db a) =
      (case host_of db a of None \<Rightarrow> None | Some h \<Rightarrow> if address_of db h = Some a then Some h else None)"
    "address_of (snd (Address2HostkeyInDB db a)) = address_of db"
    "quality_of (snd (Address2HostkeyInDB db a)) = quality_of db"
    "host_of (snd (Address2HostkeyInDB db a)) = (host_of db)(a := fst (Address2HostkeyInDB db a))"
    "seen_ok (snd (Address2HostkeyInDB db a))"
proof -
  have *: "as_text (map_of db (seen_key ''k'' h)) = address_of db h" if "host_of db a = Some h" for h
    using seen_key_short(1) [OF short_of(2) [OF assms(1) that]] by (simp add: address_of_def)
  have a: "seen_key ''a'' a = CHR ''a'' # a" by (rule seen_key_short(1) [OF assms(2)])
  show ok: "seen_ok (snd (Address2HostkeyInDB db a))"
    using assms(1) unfolding Address2HostkeyInDB_def Let_def
    by (auto simp: seen_ok_def unique_keys_ops split: option.split)
  show "fst (Address2HostkeyInDB db a) =
      (case host_of db a of None \<Rightarrow> None | Some h \<Rightarrow> if address_of db h = Some a then Some h else None)"
    using * strlcpy_short [OF short_of(2) [OF assms(1)]] unfolding Address2HostkeyInDB_def Let_def a
    by (auto simp: host_of_def split: option.split)
  show "address_of (snd (Address2HostkeyInDB db a)) = address_of db"
      "quality_of (snd (Address2HostkeyInDB db a)) = quality_of db"
    unfolding Address2HostkeyInDB_def Let_def a
    by (auto simp: address_of_def quality_of_def quality_kind_def fun_eq_iff split: option.split)
  show "host_of (snd (Address2HostkeyInDB db a)) = (host_of db)(a := fst (Address2HostkeyInDB db a))"
    using strlcpy_short [OF short_of(2) [OF assms(1)]] unfolding Address2HostkeyInDB_def Let_def a
    by (auto simp: host_of_def fun_eq_iff split: option.split)
qed

datatype seen_event = Sighted string string bool int | Asked string

fun seen_step :: "SeenDB \<Rightarrow> seen_event \<Rightarrow> SeenDB" where
  "seen_step db (Sighted h a incoming time) = update_entries h a incoming time db"
| "seen_step db (Asked a) = snd (Address2HostkeyInDB db a)"

fun event_ok :: "seen_event \<Rightarrow> bool" where
  "event_ok (Sighted h a _ _) = (short h \<and> short a)"
| "event_ok (Asked a) = short a"

fun sightings :: "seen_event list \<Rightarrow> (string \<times> string) list" where
  "sightings [] = []"
| "sightings (Sighted h a _ _ # es) = (h, a) # sightings es"
| "sightings (Asked _ # es) = sightings es"

definition last_address :: "(string \<times> string) list \<Rightarrow> string \<Rightarrow> string option" where
  "last_address s h = map_of (rev s) h"

definition last_host :: "(string \<times> string) list \<Rightarrow> string \<Rightarrow> string option" where
  "last_host s a = map_of (rev (map prod.swap s)) a"

text \<open>
  What the database keeps of the history: the last address of every host; of an address, the
  last host that was seen there or nothing, and that host surely when it was not seen elsewhere since.
\<close>

definition remembers :: "SeenDB \<Rightarrow> (string \<times> string) list \<Rightarrow> bool" where
  "remembers db s \<longleftrightarrow>
     seen_ok db \<and> address_of db = last_address s \<and>
     (\<forall>a h. host_of db a = Some h \<longrightarrow> last_host s a = Some h) \<and>
     (\<forall>a h. last_host s a = Some h \<and> last_address s h = Some a \<longrightarrow> host_of db a = Some h)"

lemma sightings_snoc:
  "sightings (es @ [Sighted h a i t]) = sightings es @ [(h, a)]" "sightings (es @ [Asked a]) = sightings es"
  by (induction es rule: sightings.induct) simp_all

lemma last_snoc:
  "last_address (s @ [(h, a)]) = (last_address s)(h \<mapsto> a)" "last_host (s @ [(h, a)]) = (last_host s)(a \<mapsto> h)"
  by (auto simp: last_address_def last_host_def fun_eq_iff)

lemma remembersD:
  assumes "remembers db s"
  shows "seen_ok db" "address_of db = last_address s" "host_of db a = Some h \<Longrightarrow> last_host s a = Some h"
    "last_host s a = Some h \<Longrightarrow> last_address s h = Some a \<Longrightarrow> host_of db a = Some h"
  using assms unfolding remembers_def by blast+

lemma answer_iff:
  assumes "remembers db s" "short a"
  shows "fst (Address2HostkeyInDB db a) = Some h \<longleftrightarrow> last_host s a = Some h \<and> last_address s h = Some a"
proof -
  have "fst (Address2HostkeyInDB db a) = Some h \<longleftrightarrow> host_of db a = Some h \<and> address_of db h = Some a"
    unfolding Address2HostkeyInDB_of(1) [OF remembersD(1) [OF assms(1)] assms(2)] by (auto split: option.split)
  also have "\<dots> \<longleftrightarrow> last_host s a = Some h \<and> last_address s h = Some a"
    using remembersD(3,4) [OF assms(1), of a h] unfolding remembersD(2) [OF assms(1)] by blast
  finally show ?thesis .
qed

lemma remembers_asked:
  assumes "remembers db s" "short a"
  shows "remembers (snd (Address2HostkeyInDB db a)) s"
  unfolding remembers_def
proof (intro conjI allI impI)
  note of = Address2HostkeyInDB_of [OF remembersD(1) [OF assms(1)] assms(2)]
  show "seen_ok (snd (Address2HostkeyInDB db a))" "address_of (snd (Address2HostkeyInDB db a)) = last_address s"
    using of remembersD(2) [OF assms(1)] by simp_all
  show "last_host s a' = Some h" if "host_of (snd (Address2HostkeyInDB db a)) a' = Some h" for a' h
    using that answer_iff [OF assms, of h] remembersD(3) [OF assms(1)] unfolding of(4) by (cases "a' = a") simp_all
  show "host_of (snd (Address2HostkeyInDB db a)) a' = Some h"
    if "last_host s a' = Some h \<and> last_address s h = Some a'" for a' h
    using that answer_iff [OF assms, of h] remembersD(4) [OF assms(1)] unfolding of(4) by (cases "a' = a") simp_all
qed

lemma remembers_sighted:
  assumes "remembers db s" "short h" "short a"
  shows "remembers (update_entries h a i t db) (s @ [(h, a)])"
  unfolding remembers_def
proof (intro conjI allI impI)
  note of = update_entries_of [OF assms(2,3)]
  show "seen_ok (update_entries h a i t db)" "address_of (update_entries h a i t db) = last_address (s @ [(h, a)])"
    using of assms remembersD(1,2) [OF assms(1)] by (simp_all add: update_entries_ok last_snoc)
  show "last_host (s @ [(h, a)]) a' = Some h'" if "host_of (update_entries h a i t db) a' = Some h'" for a' h'
    using that remembersD(3) [OF assms(1)] unfolding of(2) last_snoc by (cases "a' = a") simp_all
  show "host_of (update_entries h a i t db) a' = Some h'"
    if "last_host (s @ [(h, a)]) a' = Some h' \<and> last_address (s @ [(h, a)]) h' = Some a'" for a' h'
    using that remembersD(4) [OF assms(1), of a' h'] unfolding of(2) last_snoc
    by (cases "a' = a"; cases "h' = h") simp_all
qed

lemma remembers_run: "list_all event_ok es \<Longrightarrow> remembers (foldl seen_step [] es) (sightings es)"
proof (induction es rule: rev_induct)
  case Nil
  show ?case
    by (simp add: remembers_def seen_ok_def unique_keys_ops address_of_def host_of_def last_address_def
        last_host_def fun_eq_iff)
next
  case (snoc e es)
  then show ?case
    by (cases e) (simp_all add: sightings_snoc remembers_asked remembers_sighted)
qed

text \<open>
  C32. Whatever hosts were seen at whatever addresses, in any order and with any questions in
  between, an address leads to a host key exactly when that host was the last one seen at the address
  and was not seen at another address since.
\<close>

theorem lastseen_answers:
  assumes "list_all event_ok es" "short a"
  shows "fst (Address2HostkeyInDB (foldl seen_step [] es) a) = Some h \<longleftrightarrow>
    last_host (sightings es) a = Some h \<and> last_address (sightings es) h = Some a"
  by (rule answer_iff [OF remembers_run [OF assms(1)] assms(2)])


theorem lastseen_answers_witness:
  "fst (Address2HostkeyInDB (foldl seen_step [] [Sighted ''SHA=1'' ''10.0.0.1'' True 5, Asked ''10.0.0.2'',
     Sighted ''SHA=2'' ''10.0.0.1'' False 6, Sighted ''SHA=1'' ''10.0.0.2'' True 9]) ''10.0.0.1'') = Some ''SHA=2''"
  by (subst lastseen_answers) (simp_all add: short_def CF_BUFSIZE_def last_host_def last_address_def)

section \<open>Removing\<close>

text \<open>
  Removing a digest that is there removes its address and its qualities, leaves those of the other hosts,
  and no address leads to it any more.
\<close>

lemma delete_digest_forgets:
  assumes "seen_ok db" "short key" "DeleteDigestFromLastSeen key (Some db) = (True, eq, Some db')"
  shows "address_of db' = (address_of db)(key := None)"
    "quality_of db' = (\<lambda>i. (quality_of db i)(key := None))"
    "eq = address_of db key" "host_of db' = (host_of db)(the eq := None)"
proof -
  obtain host where host: "address_of db key = Some host" "short host"
      "db' = delete_qualities (DeleteDB (DeleteDB db (CHR ''a'' # host)) (CHR ''k'' # key)) key" "eq = Some host"
    using assms(3) seen_key_short(1) [OF assms(2)] short_of(1) [OF assms(1)]
      seen_key_short(1) [OF short_of(1) [OF assms(1)]]
    by (auto simp: DeleteDigestFromLastSeen_def Let_def address_of_def split: option.splits if_splits)
  show "address_of db' = (address_of db)(key := None)" "quality_of db' = (\<lambda>i. (quality_of db i)(key := None))"
    "eq = address_of db key" "host_of db' = (host_of db)(the eq := None)"
    using assms(2) host
    by (auto simp: delete_qualities_def seen_of_defs seen_key_short fun_eq_iff)
qed

text \<open>
  Removing by address copies the digest with the letter of its key; a host that moved is removed with its
  new address when the old one is named; and removing a host takes away the mapping of another that
  has its last address now.
\<close>

definition two_at_one :: SeenDB where
  "two_at_one = foldl seen_step [] [Sighted ''SHA=1'' ''10.0.0.1'' True 5, Sighted ''SHA=2'' ''10.0.0.1'' True 6]"

definition moved :: SeenDB where
  "moved = foldl seen_step [] [Sighted ''SHA=1'' ''10.0.0.1'' True 5, Sighted ''SHA=1'' ''10.0.0.2'' False 6]"

lemmas seen_example = two_at_one_def moved_def update_entries_def Let_def seen_key_def quality_kind_def strlcpy_def
  CF_BUFSIZE_def DeleteIpFromLastSeen_def DeleteDigestFromLastSeen_def HasKeyDB_def DeleteDB_def delete_qualities_def
  Address2HostkeyInDB_def

lemma removal_by_address_copies_key:
  "fst (snd (DeleteIpFromLastSeen ''10.0.0.1'' (Some two_at_one))) = Some ''kSHA=2''"
  by (simp add: seen_example)

lemma removal_by_old_address:
  "map_option (\<lambda>db. fst (Address2HostkeyInDB db ''10.0.0.2'')) (snd (snd (DeleteIpFromLastSeen ''10.0.0.1'' (Some moved)))) =
   Some None"
  by (simp add: seen_example)

lemma removal_hides_another:
  "fst (Address2HostkeyInDB two_at_one ''10.0.0.1'') = Some ''SHA=2''"
  "map_option (\<lambda>db. fst (Address2HostkeyInDB db ''10.0.0.1'')) (snd (snd (DeleteDigestFromLastSeen ''SHA=1'' (Some two_at_one)))) =
   Some None"
  by (simp_all add: seen_example)

text \<open>A host that changes its address makes the database incoherent, and nothing can be removed carefully.\<close>

lemma moving_is_incoherent:
  "\<not> IsLastSeenCoherent (Some moved)" "RemoveKeysFromLastSeen s True (Some moved) = (254, None, Some moved)"
proof -
  show *: "\<not> IsLastSeenCoherent (Some moved)" by (simp add: seen_example IsLastSeenCoherent_def coherence_step_def add_name_def
        is_name_in_def names_compare_def)
  show "RemoveKeysFromLastSeen s True (Some moved) = (254, None, Some moved)"
    by (simp add: RemoveKeysFromLastSeen_def *)
qed

section \<open>Counting and printing\<close>

lemma count_names:
  assumes "unique_keys db"
  shows "LastSeenHostKeyCount (Some db) = card {h. CHR ''k'' # h \<in> fst ` set db}"
proof -
  let ?f = "filter (\<lambda>(key, _). key \<noteq> [] \<and> hd key = CHR ''k'') db"
  have "distinct (map fst ?f)" using assms by (simp add: unique_keys_def distinct_map_filter)
  then have "length ?f = card (fst ` set ?f)"
    using distinct_card [of "map fst ?f"] by simp
  also have "fst ` set ?f = (#) (CHR ''k'') ` {h. CHR ''k'' # h \<in> fst ` set db}"
  proof (intro set_eqI iffI)
    fix k assume "k \<in> fst ` set ?f"
    then show "k \<in> (#) (CHR ''k'') ` {h. CHR ''k'' # h \<in> fst ` set db}"
      by (cases k) (auto simp: rev_image_eqI)
  qed (force simp: image_iff)
  also have "card \<dots> = card {h. CHR ''k'' # h \<in> fst ` set db}"
    by (rule card_image) (simp add: inj_on_def)
  finally show ?thesis by (simp add: LastSeenHostKeyCount_def)
qed

lemma hex_digit_code:
  assumes "n < 16"
  shows "(of_char (hex_digit n) :: nat) = (if n < 10 then 48 + n else 87 + n)"
  using assms by (cases "n < 10") (simp_all add: hex_digit_def)

lemma hex_digit_inj:
  assumes "x < 16" "y < 16" "hex_digit x = hex_digit y"
  shows "x = y"
proof -
  have "(if x < 10 then 48 + x else 87 + x) = (if y < 10 then 48 + y else 87 + y)"
    using hex_digit_code [OF assms(1)] hex_digit_code [OF assms(2)] assms(3) by simp
  with assms(1,2) show ?thesis by (simp split: if_splits)
qed

lemma hex_byte_inj:
  assumes "b < 256" "c < 256" "hex_byte b = hex_byte c"
  shows "b = c"
proof -
  have "hex_digit (b div 16) = hex_digit (c div 16)" "hex_digit (b mod 16) = hex_digit (c mod 16)"
    using assms(3) unfolding hex_byte_def by blast+
  then have "b div 16 = c div 16" "b mod 16 = c mod 16"
    using hex_digit_inj assms(1,2) by (simp_all add: less_mult_imp_div_less)
  then show ?thesis by (metis div_mod_decomp)
qed

text \<open>Digests with the same printed form are the same.\<close>

lemma HashPrintSafe_inj:
  assumes "HashPrintSafe type d1 = HashPrintSafe type d2" "CF_DIGEST_SIZES type \<le> length d1"
    and "CF_DIGEST_SIZES type \<le> length d2" "list_all (\<lambda>b. b < 256) d1" "list_all (\<lambda>b. b < 256) d2"
  shows "HashesMatch d1 d2 type"
proof -
  have "concat (map (\<lambda>i. hex_byte (d1 ! i)) [0..<n]) = concat (map (\<lambda>i. hex_byte (d2 ! i)) [0..<n]) \<Longrightarrow>
      list_all (\<lambda>i. d1 ! i = d2 ! i) [0..<n]" if "n \<le> CF_DIGEST_SIZES type" for n
    using that
  proof (induction n)
    case (Suc n)
    then have bytes: "d1 ! n < 256" "d2 ! n < 256"
      using assms(2-5) by (auto simp: list_all_length)
    have "concat (map (\<lambda>i. hex_byte (d1 ! i)) [0..<n]) @ hex_byte (d1 ! n) =
        concat (map (\<lambda>i. hex_byte (d2 ! i)) [0..<n]) @ hex_byte (d2 ! n)"
      using Suc(2) by simp
    then have "concat (map (\<lambda>i. hex_byte (d1 ! i)) [0..<n]) = concat (map (\<lambda>i. hex_byte (d2 ! i)) [0..<n])"
        "hex_byte (d1 ! n) = hex_byte (d2 ! n)"
      by (simp_all add: append_eq_append_conv hex_byte_def)
    with Suc(1,3) hex_byte_inj [OF bytes] show ?case by simp
  qed simp
  from this [of "CF_DIGEST_SIZES type"] assms(1) show ?thesis
    by (simp add: HashPrintSafe_def HashesMatch_def FileHashSize_def)
qed

end
