(* ===== verification/Ip_Address.thy ===== *)
theory Ip_Address
  imports Scan
begin

text \<open>
  Addresses, \<open>libutils/ip_address.c\<close>: the state machines that read IPv4 and IPv6 addresses with ports,
  printing and comparing. A step of a machine returns \<open>None\<close> where the code returns -1. The numbers of an
  address are kept as numbers; the checks of the machines bound them to 8 and 16 bits.
  The code prints the fields in the order of a big-endian machine, since \<open>BIG_ENDIAN\<close> is
  a macro that the header of the C library always defines.
\<close>

section \<open>IPv4\<close>

definition Char2Dec :: "int \<Rightarrow> char \<Rightarrow> int" where
  "Char2Dec n c = n * 10 + int (code c) - 48"

definition isxdigit :: "char \<Rightarrow> bool" where
  "isxdigit c \<longleftrightarrow> isdigit c \<or> (97 \<le> code c \<and> code c \<le> 102) \<or> (65 \<le> code c \<and> code c \<le> 70)"

definition Char2Hex :: "int \<Rightarrow> char \<Rightarrow> int" where
  "Char2Hex beginning increment =
     (let number = beginning * 16; c = int (code increment) in
      if 97 \<le> c \<and> c \<le> 102 then number + (c - 97 + 10)
      else if 65 \<le> c \<and> c \<le> 70 then number + (c - 65 + 10)
      else number + (c - 48))"

record ip4_scan =
  state4 :: nat
  octet :: int
  port4 :: int
  period_counter :: nat
  port_counter :: nat
  char_counter4 :: nat
  has_digit :: bool
  change4 :: bool
  octets :: "int list"

definition ip4_start :: ip4_scan where
  "ip4_start = \<lparr>state4 = 0, octet = 0, port4 = 0, period_counter = 0, port_counter = 0, char_counter4 = 0,
     has_digit = False, change4 = False, octets = [0, 0, 0, 0]\<rparr>"

definition store_octet :: "ip4_scan \<Rightarrow> ip4_scan" where
  "store_octet s = s\<lparr>octets := (octets s)[state4 s := octet s]\<rparr>"

definition ip4_to :: "nat \<Rightarrow> ip4_scan \<Rightarrow> ip4_scan" where
  "ip4_to n s = s\<lparr>state4 := n, change4 := True\<rparr>"

definition ip4_digit :: "char \<Rightarrow> ip4_scan \<Rightarrow> ip4_scan" where
  "ip4_digit c s = s\<lparr>octet := Char2Dec (octet s) c, has_digit := True\<rparr>"

text \<open>The switch on the state, the counting, and what follows a change of state.\<close>

definition ip4_switch :: "char \<Rightarrow> ip4_scan \<Rightarrow> ip4_scan option" where
  "ip4_switch c s =
     (if state4 s \<le> 2 then
        Some (if isdigit c then ip4_digit c s
              else if c = CHR ''.'' then ip4_to (state4 s + 1) (store_octet s)
              else ip4_to 7 s)
      else if state4 s = 3 then
        Some (if isdigit c then ip4_digit c s
              else if c = CHR '':'' then ip4_to 5 (store_octet s)
              else ip4_to 7 s)
      else if state4 s = 4 then Some s
      else if state4 s = 5 then
        Some (if isdigit c then s\<lparr>port4 := Char2Dec (port4 s) c\<rparr> else ip4_to 7 s)
      else None)"

definition ip4_reset :: "ip4_scan \<Rightarrow> ip4_scan" where
  "ip4_reset s = s\<lparr>char_counter4 := 0, octet := 0, port4 := 0, period_counter := 0, port_counter := 0,
     has_digit := False, change4 := False\<rparr>"

definition ip4_step :: "char \<Rightarrow> ip4_scan \<Rightarrow> ip4_scan option" where
  "ip4_step c s =
     (case ip4_switch c (s\<lparr>period_counter := period_counter s + (if c = CHR ''.'' then 1 else 0),
         port_counter := port_counter s + (if c = CHR '':'' then 1 else 0)\<rparr>) of
        None \<Rightarrow> None
      | Some s1 \<Rightarrow>
          (let s2 = s1\<lparr>char_counter4 := char_counter4 s1 + 1\<rparr> in
           if octet s2 > 255 \<or> port4 s2 > 65535 \<or> period_counter s2 > 1 \<or> port_counter s2 > 1 then None
           else if change4 s2 then (if has_digit s2 then Some (ip4_reset s2) else None)
           else Some s2))"

fun ip4_loop :: "ip4_scan \<Rightarrow> string \<Rightarrow> ip4_scan option" where
  "ip4_loop s [] = Some s"
| "ip4_loop s (c # cs) = (case ip4_step c s of None \<Rightarrow> None | Some s' \<Rightarrow> ip4_loop s' cs)"

text \<open>The octets and the port. State 7 is no reason to fail here.\<close>

definition ip4_finish :: "ip4_scan \<Rightarrow> (int list \<times> int) option" where
  "ip4_finish s =
     (if state4 s \<le> 2 then None
      else if state4 s = 3 then (if char_counter4 s = 0 then None else Some ((octets s)[3 := octet s], 0))
      else if state4 s = 5 then (if char_counter4 s = 0 then None else Some (octets s, port4 s))
      else if state4 s = 6 then None
      else Some (octets s, 0))"

definition IPV4_parser :: "string \<Rightarrow> (int list \<times> int) option" where
  "IPV4_parser source = (case ip4_loop ip4_start source of None \<Rightarrow> None | Some s \<Rightarrow> ip4_finish s)"

section \<open>IPv6\<close>

record ip6_scan =
  state6 :: nat
  sixteen :: int
  unsorted :: "int list"
  bracket_expected :: bool
  port6 :: int
  char_counter6 :: nat
  is_upper :: bool
  zero_compression :: bool
  change6 :: bool
  groups :: "int list"

definition ip6_start :: ip6_scan where
  "ip6_start = \<lparr>state6 = 0, sixteen = 0, unsorted = [], bracket_expected = False, port6 = 0, char_counter6 = 0,
     is_upper = False, zero_compression = False, change6 = False, groups = replicate 8 0\<rparr>"

definition ip6_to :: "nat \<Rightarrow> ip6_scan \<Rightarrow> ip6_scan" where
  "ip6_to n s = s\<lparr>state6 := n, change6 := True\<rparr>"

definition ip6_hex :: "char \<Rightarrow> ip6_scan \<Rightarrow> ip6_scan" where
  "ip6_hex c s = (if is_upper s then ip6_to 11 s else s\<lparr>sixteen := Char2Hex (sixteen s) c\<rparr>)"

definition store_field :: "ip6_scan \<Rightarrow> ip6_scan" where
  "store_field s = s\<lparr>groups := (groups s)[state6 s := sixteen s]\<rparr>"

definition push_field :: "ip6_scan \<Rightarrow> ip6_scan" where
  "push_field s = s\<lparr>unsorted := unsorted s @ [sixteen s]\<rparr>"

text \<open>\<open>already_compressed\<close> is set and read together with \<open>zero_compression\<close>.\<close>

definition ip6_switch :: "char \<Rightarrow> ip6_scan \<Rightarrow> ip6_scan option" where
  "ip6_switch c s =
     (if state6 s = 0 then
        Some (if c = CHR ''['' then (if char_counter6 s = 0 then s\<lparr>bracket_expected := True\<rparr> else ip6_to 11 s)
              else if isxdigit c then ip6_hex c s
              else if c = CHR '':'' then ip6_to 1 (store_field s)
              else ip6_to 11 s)
      else if state6 s = 1 then
        Some (if isxdigit c then ip6_hex c s
              else if c = CHR '':'' then
                ip6_to 2 (if char_counter6 s = 0 then s\<lparr>zero_compression := True\<rparr> else store_field s)
              else ip6_to 11 s)
      else if state6 s \<le> 6 then
        Some (if isxdigit c then ip6_hex c s
              else if c = CHR '':'' then
                (if char_counter6 s = 0 then
                   (if zero_compression s then ip6_to 11 s else s\<lparr>zero_compression := True\<rparr>)
                 else ip6_to (state6 s + 1) (if zero_compression s then push_field s else store_field s))
              else if c = CHR '']'' then
                (if bracket_expected s \<and> zero_compression s
                 then ip6_to 8 (push_field (s\<lparr>bracket_expected := False\<rparr>))
                 else ip6_to 11 s)
              else ip6_to 11 s)
      else if state6 s = 7 then
        Some (if isxdigit c then ip6_hex c s
              else if c = CHR '']'' then
                (if bracket_expected s then ip6_to 8 (store_field (s\<lparr>bracket_expected := False\<rparr>)) else ip6_to 11 s)
              else ip6_to 11 s)
      else if state6 s = 8 then Some (if c = CHR '':'' then ip6_to 9 s else ip6_to 11 s)
      else if state6 s = 9 then Some (if isdigit c then s\<lparr>port6 := Char2Dec (port6 s) c\<rparr> else ip6_to 11 s)
      else if state6 s = 10 then Some s
      else None)"

definition ip6_reset :: "ip6_scan \<Rightarrow> ip6_scan" where
  "ip6_reset s = s\<lparr>sixteen := 0, port6 := 0, char_counter6 := 0, is_upper := False, change6 := False\<rparr>"

definition ip6_step :: "char \<Rightarrow> ip6_scan \<Rightarrow> ip6_scan option" where
  "ip6_step c s =
     (case ip6_switch c (if isxdigit c \<and> isalpha c then s\<lparr>is_upper := isupper c\<rparr> else s) of
        None \<Rightarrow> None
      | Some s1 \<Rightarrow>
          (let s2 = s1\<lparr>char_counter6 := char_counter6 s1 + 1\<rparr> in
           if sixteen s2 > 65535 \<or> port6 s2 > 65535 then None
           else Some (if change6 s2 then ip6_reset s2 else s2)))"

fun ip6_loop :: "ip6_scan \<Rightarrow> string \<Rightarrow> ip6_scan option" where
  "ip6_loop s [] = Some s"
| "ip6_loop s (c # cs) = (case ip6_step c s of None \<Rightarrow> None | Some s' \<Rightarrow> ip6_loop s' cs)"

text \<open>\<open>address->sixteen[7 - i] = unsorted_sixteen[pick i]\<close> for every \<open>i\<close> in turn.\<close>

definition place :: "int list \<Rightarrow> int list \<Rightarrow> (nat \<Rightarrow> nat) \<Rightarrow> int list" where
  "place fs us pick = foldl (\<lambda>fs i. fs[7 - i := us ! pick i]) fs [0..<length us]"

definition ip6_finish :: "ip6_scan \<Rightarrow> (int list \<times> int) option" where
  "ip6_finish s =
     (if state6 s \<le> 1 then None
      else if state6 s \<le> 6 then
        (if bracket_expected s then None
         else if zero_compression s then
           (let us = unsorted s @ [sixteen s] in Some (place (groups s) us (\<lambda>i. length us - i - 1), 0))
         else None)
      else if state6 s = 7 then
        (if char_counter6 s = 0 \<or> bracket_expected s then None else Some ((groups s)[7 := sixteen s], 0))
      else if state6 s = 8 then
        Some (if zero_compression s then place (groups s) (unsorted s) (\<lambda>i. i) else groups s, 0)
      else if state6 s = 9 then (if char_counter6 s = 0 then None else Some (groups s, port6 s))
      else if state6 s = 11 then None
      else Some (groups s, 0))"

definition IPV6_parser :: "string \<Rightarrow> (int list \<times> int) option" where
  "IPV6_parser source = (case ip6_loop ip6_start source of None \<Rightarrow> None | Some s \<Rightarrow> ip6_finish s)"

section \<open>Addresses\<close>

datatype IPAddress = IPV4Address "int list" int | IPV6Address "int list" int

definition IPAddressNew :: "string option \<Rightarrow> IPAddress option" where
  "IPAddressNew source =
     (case source of
        None \<Rightarrow> None
      | Some pad \<Rightarrow>
          (case IPV4_parser pad of
             Some (os, p) \<Rightarrow> Some (IPV4Address os p)
           | None \<Rightarrow>
               (case IPV6_parser pad of
                  Some (fs, p) \<Rightarrow> Some (IPV6Address fs p)
                | None \<Rightarrow> None)))"

datatype IPAddressVersion = IP_ADDRESS_TYPE_IPV4 | IP_ADDRESS_TYPE_IPV6

fun IPAddressType :: "IPAddress option \<Rightarrow> IPAddressVersion option" where
  "IPAddressType None = None"
| "IPAddressType (Some (IPV4Address _ _)) = Some IP_ADDRESS_TYPE_IPV4"
| "IPAddressType (Some (IPV6Address _ _)) = Some IP_ADDRESS_TYPE_IPV6"

definition show_hex_digit :: "nat \<Rightarrow> char" where
  "show_hex_digit n = (if n < 10 then char_of (48 + n) else char_of (87 + n))"

fun show_hex :: "nat \<Rightarrow> string" where
  "show_hex n = (if n < 16 then [] else show_hex (n div 16)) @ [show_hex_digit (n mod 16)]"

declare show_hex.simps [simp del]

fun separated :: "char \<Rightarrow> string list \<Rightarrow> string" where
  "separated sep [] = []"
| "separated sep [s] = s"
| "separated sep (s # t # ss) = s @ sep # separated sep (t # ss)"

fun IPAddressGetAddress :: "IPAddress option \<Rightarrow> string option" where
  "IPAddressGetAddress None = None"
| "IPAddressGetAddress (Some (IPV4Address os _)) = Some (separated (CHR ''.'') (map (\<lambda>n. show_nat (nat n)) os))"
| "IPAddressGetAddress (Some (IPV6Address fs _)) = Some (separated (CHR '':'') (map (\<lambda>n. show_hex (nat n)) fs))"

fun IPAddressGetPort :: "IPAddress option \<Rightarrow> int" where
  "IPAddressGetPort None = - 1"
| "IPAddressGetPort (Some (IPV4Address _ p)) = p"
| "IPAddressGetPort (Some (IPV6Address _ p)) = p"

definition same_fields :: "int list \<Rightarrow> int list \<Rightarrow> nat \<Rightarrow> int" where
  "same_fields a b n = (if list_all (\<lambda>i. a ! i = b ! i) [0..<n] then 1 else 0)"

fun IPAddressIsEqual :: "IPAddress option \<Rightarrow> IPAddress option \<Rightarrow> int" where
  "IPAddressIsEqual (Some (IPV4Address a _)) (Some (IPV4Address b _)) = same_fields a b 4"
| "IPAddressIsEqual (Some (IPV6Address a _)) (Some (IPV6Address b _)) = same_fields a b 8"
| "IPAddressIsEqual _ _ = - 1"

text \<open>The answer and \<open>*address\<close>, which is left alone when there is none.\<close>

definition IPAddress_IsIPAddress :: "string option \<Rightarrow> IPAddress option \<Rightarrow> bool \<times> IPAddress option" where
  "IPAddress_IsIPAddress source address =
     (case IPAddressNew source of None \<Rightarrow> (False, address) | Some a \<Rightarrow> (True, Some a))"


section \<open>Printed addresses are read back\<close>

lemma Char2Dec_digit: "isdigit c \<Longrightarrow> Char2Dec n c = n * 10 + int (digit c) \<and> n * 10 \<le> Char2Dec n c"
  by (auto simp: Char2Dec_def digit_def isdigit_def)

lemma foldl_Char2Dec_ge: "list_all isdigit ds \<Longrightarrow> 0 \<le> n \<Longrightarrow> n \<le> foldl Char2Dec n ds"
proof (induction ds arbitrary: n)
  case (Cons d ds)
  then have "n \<le> Char2Dec n d" "0 \<le> Char2Dec n d" using Char2Dec_digit [of d n] by auto
  with Cons.IH [of "Char2Dec n d"] Cons.prems show ?case by simp
qed simp

lemma foldl_Char2Dec_number: "list_all isdigit ds \<Longrightarrow> foldl Char2Dec 0 ds = number 10 ds"
proof -
  have "list_all isdigit ds \<Longrightarrow> foldl Char2Dec n ds = foldl (\<lambda>a c. a * 10 + int (digit c)) n ds" for n
    by (induction ds arbitrary: n) (auto simp: Char2Dec_digit)
  then show "list_all isdigit ds \<Longrightarrow> foldl Char2Dec 0 ds = number 10 ds" by (simp add: number_def)
qed

lemma show_nat_all_digits: "list_all isdigit (show_nat n)"
  using show_nat_digits by (auto simp: list_all_iff)

lemma show_nat_value: "foldl Char2Dec 0 (show_nat n) = int n"
  by (simp add: foldl_Char2Dec_number show_nat_all_digits)

lemma ip4_digits:
  assumes "list_all isdigit ds" "foldl Char2Dec (octet s) ds \<le> 255" "0 \<le> octet s" "state4 s \<le> 3" "\<not> change4 s"
    and "period_counter s = 0" "port_counter s = 0" "port4 s = 0" "ds \<noteq> [] \<or> has_digit s"
  shows "ip4_loop s (ds @ rest) =
    ip4_loop (s\<lparr>octet := foldl Char2Dec (octet s) ds, has_digit := True, char_counter4 := char_counter4 s + length ds\<rparr>) rest"
  using assms
proof (induction ds arbitrary: s)
  case (Cons d ds)
  let ?s = "s\<lparr>octet := Char2Dec (octet s) d, has_digit := True, char_counter4 := Suc (char_counter4 s)\<rparr>"
  have d: "isdigit d" "list_all isdigit ds" using Cons.prems(1) by simp_all
  have nonneg: "0 \<le> Char2Dec (octet s) d" using Char2Dec_digit [OF d(1), of "octet s"] Cons.prems(3) by auto
  have "Char2Dec (octet s) d \<le> 255"
    using foldl_Char2Dec_ge [OF d(2) nonneg] Cons.prems(2) by simp
  moreover have "d \<noteq> CHR ''.''" "d \<noteq> CHR '':''" using d(1) by (auto simp: isdigit_def)
  ultimately have "ip4_step d s = Some ?s"
    using d(1) Cons.prems(4-8) by (auto simp: ip4_step_def ip4_switch_def ip4_digit_def Let_def)
  moreover have "ip4_loop ?s (ds @ rest) =
    ip4_loop (?s\<lparr>octet := foldl Char2Dec (octet ?s) ds, has_digit := True, char_counter4 := char_counter4 ?s + length ds\<rparr>) rest"
    by (rule Cons.IH) (use d(2) nonneg Cons.prems in simp_all)
  ultimately show ?case by simp
qed (auto intro: arg_cong [of _ _ "\<lambda>s. ip4_loop s rest"])

text \<open>The machine at the start of a field.\<close>

definition ip4_at :: "nat \<Rightarrow> int list \<Rightarrow> ip4_scan" where
  "ip4_at k os = ip4_start\<lparr>state4 := k, octets := os\<rparr>"

lemma ip4_at_simps [simp]:
  "state4 (ip4_at k os) = k" "octets (ip4_at k os) = os" "octet (ip4_at k os) = 0" "port4 (ip4_at k os) = 0"
  "period_counter (ip4_at k os) = 0" "port_counter (ip4_at k os) = 0" "char_counter4 (ip4_at k os) = 0"
  "\<not> has_digit (ip4_at k os)" "\<not> change4 (ip4_at k os)"
  by (simp_all add: ip4_at_def ip4_start_def)

lemma start4: "ip4_start = ip4_at 0 [0, 0, 0, 0]"
  by (simp add: ip4_at_def ip4_start_def)

lemma ip4_field:
  assumes "n \<le> 255" "k \<le> 3"
  shows "ip4_loop (ip4_at k os) (show_nat n @ rest) =
    ip4_loop ((ip4_at k os)\<lparr>octet := int n, has_digit := True, char_counter4 := length (show_nat n)\<rparr>) rest"
  using ip4_digits [OF show_nat_all_digits, of "ip4_at k os" n rest] assms by (simp add: show_nat_value)

lemma ip4_dot:
  assumes "n \<le> 255" "k < 3"
  shows "ip4_loop (ip4_at k os) (show_nat n @ CHR ''.'' # rest) = ip4_loop (ip4_at (Suc k) (os[k := int n])) rest"
proof -
  have "ip4_step (CHR ''.'') ((ip4_at k os)\<lparr>octet := int n, has_digit := True, char_counter4 := length (show_nat n)\<rparr>) =
    Some (ip4_at (Suc k) (os[k := int n]))"
    using assms by (simp add: ip4_step_def ip4_switch_def ip4_to_def store_octet_def ip4_reset_def isdigit_def
        ip4_at_def ip4_start_def)
  with assms show ?thesis by (simp add: ip4_field)
qed

definition dotted :: "nat list \<Rightarrow> string" where
  "dotted os = separated (CHR ''.'') (map show_nat os)"

lemma ip4_colon:
  assumes "n \<le> 255"
  shows "ip4_loop (ip4_at 3 os) (show_nat n @ CHR '':'' # rest) = ip4_loop (ip4_at 5 (os[3 := int n])) rest"
proof -
  have "ip4_step (CHR '':'') ((ip4_at 3 os)\<lparr>octet := int n, has_digit := True, char_counter4 := length (show_nat n)\<rparr>) =
    Some (ip4_at 5 (os[3 := int n]))"
    using assms by (simp add: ip4_step_def ip4_switch_def ip4_to_def store_octet_def ip4_reset_def isdigit_def
        ip4_at_def ip4_start_def)
  with assms show ?thesis by (simp add: ip4_field)
qed

lemma ip4_port_digits:
  assumes "list_all isdigit ds" "foldl Char2Dec (port4 s) ds \<le> 65535" "0 \<le> port4 s" "state4 s = 5" "\<not> change4 s"
    and "period_counter s = 0" "port_counter s = 0" "octet s = 0"
  shows "ip4_loop s ds =
    Some (s\<lparr>port4 := foldl Char2Dec (port4 s) ds, char_counter4 := char_counter4 s + length ds\<rparr>)"
  using assms
proof (induction ds arbitrary: s)
  case (Cons d ds)
  let ?s = "s\<lparr>port4 := Char2Dec (port4 s) d, char_counter4 := Suc (char_counter4 s)\<rparr>"
  have d: "isdigit d" "list_all isdigit ds" using Cons.prems(1) by simp_all
  have nonneg: "0 \<le> Char2Dec (port4 s) d" using Char2Dec_digit [OF d(1), of "port4 s"] Cons.prems(3) by auto
  have "Char2Dec (port4 s) d \<le> 65535"
    using foldl_Char2Dec_ge [OF d(2) nonneg] Cons.prems(2) by simp
  moreover have "d \<noteq> CHR ''.''" "d \<noteq> CHR '':''" using d(1) by (auto simp: isdigit_def)
  ultimately have "ip4_step d s = Some ?s"
    using d(1) Cons.prems(4-8) by (auto simp: ip4_step_def ip4_switch_def Let_def)
  moreover have "ip4_loop ?s ds =
    Some (?s\<lparr>port4 := foldl Char2Dec (port4 ?s) ds, char_counter4 := char_counter4 ?s + length ds\<rparr>)"
    by (rule Cons.IH) (use d(2) nonneg Cons.prems in simp_all)
  ultimately show ?case by simp
qed simp

text \<open>The first three fields of an address.\<close>

lemma ip4_loop_three:
  assumes "a \<le> 255" "b \<le> 255" "c \<le> 255"
  shows "ip4_loop ip4_start (show_nat a @ CHR ''.'' # show_nat b @ CHR ''.'' # show_nat c @ CHR ''.'' # rest) =
    ip4_loop (ip4_at 3 [int a, int b, int c, 0]) rest"
  using ip4_dot [OF assms(1), of 0] ip4_dot [OF assms(2), of 1] ip4_dot [OF assms(3), of 2]
  by (simp add: start4 numeral_2_eq_2 numeral_3_eq_3)

lemma four_octets:
  assumes "length os = 4" "list_all (\<lambda>n. n \<le> 255) os"
  obtains a b c d where "os = [a, b, c, d]" "a \<le> 255" "b \<le> 255" "c \<le> 255" "d \<le> (255 :: nat)"
proof -
  obtain a b c d where "os = [a, b, c, d]" using assms(1) by (auto simp: length_Suc_conv eval_nat_numeral)
  with assms(2) that show ?thesis by simp
qed

lemma IPV4_parser_dotted:
  assumes "length os = 4" "list_all (\<lambda>n. n \<le> 255) os"
  shows "IPV4_parser (dotted os) = Some (map int os, 0)"
proof -
  from assms obtain a b c d where os: "os = [a, b, c, d]" "a \<le> 255" "b \<le> 255" "c \<le> 255" "d \<le> 255"
    by (rule four_octets)
  with ip4_field [OF os(5), of 3 _ "[]"] show ?thesis
    by (simp add: IPV4_parser_def ip4_finish_def dotted_def ip4_loop_three numeral_3_eq_3)
qed

lemma IPV4_parser_dotted_port:
  assumes "length os = 4" "list_all (\<lambda>n. n \<le> 255) os" "p \<le> 65535"
  shows "IPV4_parser (dotted os @ CHR '':'' # show_nat p) = Some (map int os, int p)"
proof -
  from assms(1,2) obtain a b c d where os: "os = [a, b, c, d]" "a \<le> 255" "b \<le> 255" "c \<le> 255" "d \<le> 255"
    by (rule four_octets)
  have "ip4_loop (ip4_at 5 (map int os)) (show_nat p) =
      Some ((ip4_at 5 (map int os))\<lparr>port4 := int p, char_counter4 := length (show_nat p)\<rparr>)"
    using ip4_port_digits [OF show_nat_all_digits, of "ip4_at 5 (map int os)" p] assms(3) by (simp add: show_nat_value)
  with os ip4_colon [OF os(5), of "[int a, int b, int c, 0]" "show_nat p"] show ?thesis
    by (simp add: IPV4_parser_def ip4_finish_def dotted_def ip4_loop_three numeral_3_eq_3)
qed

text \<open>A hexadecimal digit that is printed.\<close>

lemma show_hex_digit_value:
  assumes "n < 16"
  shows "Char2Hex m (show_hex_digit n) = m * 16 + int n" "isxdigit (show_hex_digit n)"
    "\<not> isupper (show_hex_digit n)" "show_hex_digit n \<noteq> CHR '':''" "show_hex_digit n \<noteq> CHR ''.''"
    "show_hex_digit n \<noteq> CHR ''['' \<and> show_hex_digit n \<noteq> CHR '']''"
proof -
  have "n < 10 \<and> (of_char (show_hex_digit n) :: nat) = 48 + n \<or> 10 \<le> n \<and> (of_char (show_hex_digit n) :: nat) = 87 + n"
    using assms by (cases "n < 10") (simp_all add: show_hex_digit_def)
  with assms show "Char2Hex m (show_hex_digit n) = m * 16 + int n" "isxdigit (show_hex_digit n)"
      "\<not> isupper (show_hex_digit n)" "show_hex_digit n \<noteq> CHR '':''" "show_hex_digit n \<noteq> CHR ''.''"
      "show_hex_digit n \<noteq> CHR ''['' \<and> show_hex_digit n \<noteq> CHR '']''"
    by (auto simp: Char2Hex_def isxdigit_def isdigit_def isupper_def)
qed

definition hex_char :: "char \<Rightarrow> bool" where
  "hex_char c \<longleftrightarrow> (\<exists>n<16. c = show_hex_digit n)"

lemma show_hex_chars: "list_all hex_char (show_hex n)"
proof (induction n rule: show_hex.induct)
  case (1 n)
  moreover have "hex_char (show_hex_digit (n mod 16))" by (auto simp: hex_char_def intro!: exI [of _ "n mod 16"])
  ultimately show ?case by (subst show_hex.simps) simp
qed

lemma show_hex_value: "foldl Char2Hex 0 (show_hex n) = int n"
proof (induction n rule: show_hex.induct)
  case (1 n)
  then show ?case
    by (subst show_hex.simps) (auto simp: show_hex_digit_value of_nat_div of_nat_mod)
qed

lemma show_hex_nonempty [simp]: "show_hex n \<noteq> []"
  by (subst show_hex.simps) simp

lemma Char2Hex_ge: "hex_char c \<Longrightarrow> 0 \<le> m \<Longrightarrow> m \<le> Char2Hex m c"
  by (auto simp: hex_char_def show_hex_digit_value)

lemma foldl_Char2Hex_ge: "list_all hex_char ds \<Longrightarrow> 0 \<le> n \<Longrightarrow> n \<le> foldl Char2Hex n ds"
proof (induction ds arbitrary: n)
  case (Cons d ds)
  then have "n \<le> Char2Hex n d" using Char2Hex_ge by simp
  with Cons.IH [of "Char2Hex n d"] Cons.prems show ?case by simp
qed simp

lemma hex_char_facts:
  assumes "hex_char c"
  shows "isxdigit c" "\<not> isupper c" "c \<noteq> CHR '':''" "c \<noteq> CHR ''.''" "c \<noteq> CHR ''['' \<and> c \<noteq> CHR '']''"
  using assms by (auto simp: hex_char_def show_hex_digit_value)

lemma ip6_digits:
  assumes "list_all hex_char ds" "foldl Char2Hex (sixteen s) ds \<le> 65535" "0 \<le> sixteen s" "state6 s \<le> 7" "\<not> change6 s"
    and "port6 s = 0" "\<not> is_upper s"
  shows "ip6_loop s (ds @ rest) =
    ip6_loop (s\<lparr>sixteen := foldl Char2Hex (sixteen s) ds, char_counter6 := char_counter6 s + length ds\<rparr>) rest"
  using assms
proof (induction ds arbitrary: s)
  case (Cons d ds)
  let ?s = "s\<lparr>sixteen := Char2Hex (sixteen s) d, char_counter6 := Suc (char_counter6 s)\<rparr>"
  have d: "hex_char d" "list_all hex_char ds" using Cons.prems(1) by simp_all
  have nonneg: "0 \<le> Char2Hex (sixteen s) d" using Char2Hex_ge [OF d(1), of "sixteen s"] Cons.prems(3) by auto
  have le: "Char2Hex (sixteen s) d \<le> 65535"
    using foldl_Char2Hex_ge [OF d(2) nonneg] Cons.prems(2) by simp
  have "s\<lparr>is_upper := isupper d\<rparr> = s" using hex_char_facts(2) [OF d(1)] Cons.prems(7) by simp
  then have "ip6_step d s = Some ?s"
    using hex_char_facts [OF d(1)] le Cons.prems(4-7)
    by (auto simp: ip6_step_def ip6_switch_def ip6_hex_def Let_def)
  moreover have "ip6_loop ?s (ds @ rest) =
    ip6_loop (?s\<lparr>sixteen := foldl Char2Hex (sixteen ?s) ds, char_counter6 := char_counter6 ?s + length ds\<rparr>) rest"
    by (rule Cons.IH) (use d(2) nonneg Cons.prems in simp_all)
  ultimately show ?case by simp
qed simp


definition ip6_at :: "nat \<Rightarrow> int list \<Rightarrow> ip6_scan" where
  "ip6_at k gs = ip6_start\<lparr>state6 := k, groups := gs\<rparr>"

lemma ip6_at_simps [simp]:
  "state6 (ip6_at k gs) = k" "groups (ip6_at k gs) = gs" "sixteen (ip6_at k gs) = 0" "port6 (ip6_at k gs) = 0"
  "unsorted (ip6_at k gs) = []" "char_counter6 (ip6_at k gs) = 0" "\<not> bracket_expected (ip6_at k gs)"
  "\<not> is_upper (ip6_at k gs)" "\<not> zero_compression (ip6_at k gs)" "\<not> change6 (ip6_at k gs)"
  by (simp_all add: ip6_at_def ip6_start_def)

lemma start6: "ip6_start = ip6_at 0 (replicate 8 0)"
  by (simp add: ip6_at_def ip6_start_def)

lemma ip6_group:
  assumes "n \<le> 65535" "k \<le> 7"
  shows "ip6_loop (ip6_at k gs) (show_hex n @ rest) =
    ip6_loop ((ip6_at k gs)\<lparr>sixteen := int n, char_counter6 := length (show_hex n)\<rparr>) rest"
  using ip6_digits [OF show_hex_chars, of "ip6_at k gs" n rest] assms by (simp add: show_hex_value)

lemma ip6_colon:
  assumes "n \<le> 65535" "k < 7"
  shows "ip6_loop (ip6_at k gs) (show_hex n @ CHR '':'' # rest) = ip6_loop (ip6_at (Suc k) (gs[k := int n])) rest"
proof -
  have "\<not> isxdigit (CHR '':'')" by (simp add: isxdigit_def isdigit_def)
  then have "ip6_step (CHR '':'') ((ip6_at k gs)\<lparr>sixteen := int n, char_counter6 := length (show_hex n)\<rparr>) =
    Some (ip6_at (Suc k) (gs[k := int n]))"
    using assms
    by (auto simp: ip6_step_def ip6_switch_def ip6_to_def store_field_def ip6_reset_def ip6_at_def ip6_start_def
        Let_def)
  with assms show ?thesis by (simp add: ip6_group)
qed

definition colons :: "nat list \<Rightarrow> string" where
  "colons gs = separated (CHR '':'') (map show_hex gs)"

lemma ip6_loop_groups:
  assumes "list_all (\<lambda>n. n \<le> 65535) ns" "k + length ns \<le> 7" "length gs = 8"
  shows "ip6_loop (ip6_at k gs) (concat (map (\<lambda>n. show_hex n @ '':'') ns) @ rest) =
    ip6_loop (ip6_at (k + length ns) (take k gs @ map int ns @ drop (k + length ns) gs)) rest"
  using assms
proof (induction ns arbitrary: k gs)
  case (Cons n ns)
  then have "ip6_loop (ip6_at k gs) (show_hex n @ CHR '':'' # concat (map (\<lambda>n. show_hex n @ '':'') ns) @ rest) =
      ip6_loop (ip6_at (Suc k) (gs[k := int n])) (concat (map (\<lambda>n. show_hex n @ '':'') ns) @ rest)"
    by (intro ip6_colon) simp_all
  also have "\<dots> = ip6_loop (ip6_at (Suc k + length ns) (take (Suc k) (gs[k := int n]) @ map int ns @ drop (Suc k + length ns) (gs[k := int n]))) rest"
    using Cons by (intro Cons.IH) simp_all
  also have "take (Suc k) (gs[k := int n]) = take k gs @ [int n]"
    using Cons.prems(2,3) by (simp add: take_Suc_conv_app_nth)
  finally show ?case using Cons.prems by simp
qed simp

lemma separated_snoc:
  "separated c (map f xs @ [s]) = concat (map (\<lambda>x. f x @ [c]) xs) @ s"
proof (induction xs)
  case (Cons x xs)
  then show ?case by (cases xs) simp_all
qed simp

lemma IPV6_parser_colons:
  assumes "length gs = 8" "list_all (\<lambda>n. n \<le> 65535) gs"
  shows "IPV6_parser (colons gs) = Some (map int gs, 0)"
proof -
  obtain ns n where gs: "gs = ns @ [n]" using assms(1) by (cases gs rule: rev_cases) auto
  have "ip6_loop ip6_start (colons gs) = ip6_loop (ip6_at 7 (map int ns @ [0])) (show_hex n)"
    using ip6_loop_groups [of ns 0 "replicate 8 0" "show_hex n"] assms
    by (simp add: gs colons_def separated_snoc start6)
  also have "\<dots> = Some ((ip6_at 7 (map int ns @ [0]))\<lparr>sixteen := int n, char_counter6 := length (show_hex n)\<rparr>)"
    using ip6_group [of n 7 _ "[]"] assms(2) by (simp add: gs)
  finally show ?thesis
    using assms(1) by (simp add: IPV6_parser_def ip6_finish_def gs list_update_append)
qed


text \<open>A text without dots that goes on after its first character other than a digit is no IPv4 address.\<close>

lemma ip4_rejects:
  assumes "c \<noteq> CHR ''.''" "\<not> isdigit c" "list_all isdigit ds" "state4 s = 0" "period_counter s \<le> 1" "\<not> change4 s"
  shows "ip4_loop s (ds @ c # e # rest) = None"
  using assms
proof (induction ds arbitrary: s)
  case Nil
  show ?case
  proof (cases "ip4_step c s")
    case (Some s')
    have "state4 s' = 7"
      using Nil Some by (auto simp: ip4_step_def ip4_switch_def ip4_to_def ip4_reset_def Let_def split: if_splits)
    then have "ip4_step e s' = None" by (simp add: ip4_step_def ip4_switch_def)
    with Some show ?thesis by simp
  qed simp
next
  case (Cons d ds)
  show ?case
  proof (cases "ip4_step d s")
    case (Some s')
    have "state4 s' = 0" "period_counter s' \<le> 1" "\<not> change4 s'"
      using Cons.prems Some
      by (auto simp: ip4_step_def ip4_switch_def ip4_digit_def Let_def isdigit_def split: if_splits)
    with Some Cons show ?thesis by simp
  qed simp
qed

lemma IPV4_parser_colons:
  assumes "length gs = 8"
  shows "IPV4_parser (colons gs) = None"
proof -
  obtain n m ns where gs: "gs = n # m # ns" using assms by (auto simp: length_Suc_conv eval_nat_numeral)
  obtain f r where r: "show_hex m @ (case ns of [] \<Rightarrow> [] | k # ks \<Rightarrow> CHR '':'' # separated (CHR '':'') (map show_hex ns)) = f # r"
    using show_hex_nonempty [of m] by (cases "show_hex m") auto
  have tail: "separated (CHR '':'') (map show_hex (m # ns)) = f # r"
    using r by (cases ns) simp_all
  let ?ds = "takeWhile isdigit (show_hex n)" and ?t = "dropWhile isdigit (show_hex n)"
  have shown: "colons gs = ?ds @ (?t @ CHR '':'' # f # r)"
    using tail by (simp add: colons_def gs flip: append_assoc)
  obtain c e rest where c: "?t @ CHR '':'' # f # r = c # e # rest" "c \<noteq> CHR ''.''" "\<not> isdigit c"
  proof (cases ?t)
    case Nil
    then show ?thesis using that [of "CHR '':''" f r] by (simp add: isdigit_def)
  next
    case (Cons x xs)
    then have "x \<in> set (show_hex n)" by (metis list.set_intros(1) set_dropWhileD)
    then have "x \<noteq> CHR ''.''" using show_hex_chars [of n] hex_char_facts(4) by (auto simp: list_all_iff)
    moreover have "\<not> isdigit x" using Cons hd_dropWhile [of isdigit "show_hex n"] by simp
    ultimately show ?thesis using that [of x "hd (xs @ CHR '':'' # f # r)" "tl (xs @ CHR '':'' # f # r)"] Cons
      by (cases xs) simp_all
  qed
  have "list_all isdigit ?ds" by (auto simp: list_all_iff dest: set_takeWhileD)
  then have "ip4_loop ip4_start (?ds @ c # e # rest) = None"
    by (intro ip4_rejects [OF c(2,3)]) (simp_all add: ip4_start_def)
  then show ?thesis by (simp add: IPV4_parser_def shown c(1))
qed

fun address_ok :: "IPAddress \<Rightarrow> bool" where
  "address_ok (IPV4Address os p) \<longleftrightarrow> length os = 4 \<and> list_all (\<lambda>n. 0 \<le> n \<and> n \<le> 255) os"
| "address_ok (IPV6Address gs p) \<longleftrightarrow> length gs = 8 \<and> list_all (\<lambda>n. 0 \<le> n \<and> n \<le> 65535) gs"

fun without_port :: "IPAddress \<Rightarrow> IPAddress" where
  "without_port (IPV4Address os p) = IPV4Address os 0"
| "without_port (IPV6Address gs p) = IPV6Address gs 0"

text \<open>
  C33. What \<open>IPAddressGetAddress\<close> prints for an address of either kind \<open>IPAddressNew\<close> reads back as the same
  address, of the same kind and without a port; the two compare equal.
\<close>

theorem ip_address_roundtrip:
  assumes "address_ok a"
  shows "IPAddressNew (IPAddressGetAddress (Some a)) = Some (without_port a) \<and>
    IPAddressIsEqual (Some a) (IPAddressNew (IPAddressGetAddress (Some a))) = 1"
proof (cases a)
  case (IPV4Address os p)
  have os: "map int (map nat os) = os" "list_all (\<lambda>n. n \<le> 255) (map nat os)"
    using assms IPV4Address by (auto simp: list_all_iff intro: map_idI)
  then show ?thesis
    using assms IPV4Address IPV4_parser_dotted [OF _ os(2)]
    by (simp add: IPAddressNew_def dotted_def comp_def same_fields_def list_all_iff)
next
  case (IPV6Address gs p)
  have gs: "map int (map nat gs) = gs" "list_all (\<lambda>n. n \<le> 65535) (map nat gs)"
    using assms IPV6Address by (auto simp: list_all_iff intro: map_idI)
  then show ?thesis
    using assms IPV6Address IPV6_parser_colons [OF _ gs(2)] IPV4_parser_colons [of "map nat gs"]
    by (simp add: IPAddressNew_def colons_def comp_def same_fields_def list_all_iff)
qed

theorem ip_address_roundtrip_witness:
  "IPAddressGetAddress (Some (IPV6Address [65152, 0, 0, 1, 2, 3, 4, 255] 80)) = Some ''fe80:0:0:1:2:3:4:ff'' \<and>
   IPAddressNew (Some ''fe80:0:0:1:2:3:4:ff'') = Some (IPV6Address [65152, 0, 0, 1, 2, 3, 4, 255] 0)"
proof -
  have chars: "char_of (102 :: nat) = CHR ''f''" "char_of (101 :: nat) = CHR ''e''" "char_of (56 :: nat) = CHR ''8''"
    "char_of (48 :: nat) = CHR ''0''" "char_of (49 :: nat) = CHR ''1''" "char_of (50 :: nat) = CHR ''2''"
    "char_of (51 :: nat) = CHR ''3''" "char_of (52 :: nat) = CHR ''4''"
    by code_simp+
  have "IPAddressGetAddress (Some (IPV6Address [65152, 0, 0, 1, 2, 3, 4, 255] 80)) = Some ''fe80:0:0:1:2:3:4:ff''"
    by (simp add: show_hex.simps show_hex_digit_def chars)
  with ip_address_roundtrip [of "IPV6Address [65152, 0, 0, 1, 2, 3, 4, 255] 80"] show ?thesis by simp
qed

section \<open>Where the machines go wrong\<close>

text \<open>
  One character behind an address is not noticed; a digit and a character are an address. With a
  compressed zero the fields are lost when eight are read or a port follows, and reversed in brackets.
\<close>

lemma ip4_garbage:
  "IPV4_parser ''1.2.3.4x'' = Some ([1, 2, 3, 0], 0)" "IPV4_parser ''1x'' = Some ([0, 0, 0, 0], 0)"
  by code_simp+

lemma ip6_compressed:
  "IPV6_parser ''1::2:3'' = Some ([1, 0, 0, 0, 0, 0, 2, 3], 0)"
  "IPV6_parser ''[1::2:3]'' = Some ([1, 0, 0, 0, 0, 0, 3, 2], 0)"
  "IPV6_parser ''[1::2:3]:80'' = Some ([1, 0, 0, 0, 0, 0, 0, 0], 80)"
  "IPV6_parser ''1::2:3:4:5:6:7'' = Some ([1, 0, 0, 0, 0, 0, 0, 7], 0)"
  by code_simp+

end
