(* ===== verification/Addr_Lib.thy ===== *)
theory Addr_Lib
  imports Ip_Address Item_List String_Lib "HOL-Library.Signed_Division"
begin

text \<open>
  Matching of addresses against patterns, \<open>libpromises/addr_lib.c\<close>. \<open>None\<close> is what the code leaves undefined:
  reading behind a string, writing behind a buffer, a shift by a negative number, and an address
  that \<open>inet_pton\<close> did not fill in. \<open>inet_pton\<close> is a parameter for each of the two families and gives the bytes in their order; an
  IPv6 address that it does not accept is the zeros it was initialised to. A position in
  a string is the rest from there, or \<open>None\<close> behind its end.
\<close>

section \<open>Scanning\<close>

definition CF_MAX_IP_LEN :: nat where
  "CF_MAX_IP_LEN = 64"

definition to_int :: "int \<Rightarrow> int" where
  "to_int v = (v + 2 ^ 31) mod 2 ^ 32 - 2 ^ 31"

text \<open>\<open>sscanf(s, "%<n>[^/]/%d", address, &mask)\<close> with an empty address and a mask of zero to start from.\<close>

definition scan_cidr :: "nat \<Rightarrow> string \<Rightarrow> string \<times> int" where
  "scan_cidr n s =
     (let address = take n (takeWhile (\<lambda>c. c \<noteq> CHR ''/'') s) in
      (case drop (length address) s of
         [] \<Rightarrow> (address, 0)
       | c # cs \<Rightarrow>
           if address = [] \<or> c \<noteq> CHR ''/'' then (address, 0)
           else (case scan_ld cs of None \<Rightarrow> (address, 0) | Some (m, _) \<Rightarrow> (address, to_int m))))"

text \<open>\<open>sscanf(s, "%ld-%ld", &from, &to)\<close> and the same with \<open>%lx\<close>.\<close>

definition scan_span :: "(string \<Rightarrow> (int \<times> string) option) \<Rightarrow> string \<Rightarrow> int \<times> int \<Rightarrow> int \<times> int" where
  "scan_span scan s ft =
     (case scan s of
        None \<Rightarrow> ft
      | Some (f, CHR ''-'' # r) \<Rightarrow> (case scan r of None \<Rightarrow> (f, snd ft) | Some (t, _) \<Rightarrow> (f, t))
      | Some (f, _) \<Rightarrow> (f, snd ft))"

definition scan_one :: "(string \<Rightarrow> (int \<times> string) option) \<Rightarrow> string \<Rightarrow> int \<Rightarrow> int" where
  "scan_one scan s old = (case scan s of None \<Rightarrow> old | Some (v, _) \<Rightarrow> v)"

definition clamp_unsigned :: "int \<Rightarrow> int" where
  "clamp_unsigned v = min (2 ^ 64 - 1) v"

definition to_long :: "int \<Rightarrow> int" where
  "to_long v = (v + 2 ^ 63) mod 2 ^ 64 - 2 ^ 63"

definition hex_prefix :: "string \<Rightarrow> string" where
  "hex_prefix s =
     (if length s \<ge> 3 \<and> s ! 0 = CHR ''0'' \<and> (s ! 1 = CHR ''x'' \<or> s ! 1 = CHR ''X'') \<and> isxdigit (s ! 2) then drop 2 s else s)"

definition scan_lx :: "string \<Rightarrow> (int \<times> string) option" where
  "scan_lx s =
     (let (neg, t) = scan_sign (dropWhile isspace s);
          u = hex_prefix t;
          ds = takeWhile isxdigit u;
          v = clamp_unsigned (foldl Char2Hex 0 ds)
      in if ds = [] then None else Some (to_long (if neg then - v else v), drop (length ds) u))"

text \<open>
  \<open>sscanf(sp, "%[^c]", buffer); sp += strlen(buffer) + 1;\<close> A piece without characters leaves the
  buffer alone, which may be undefined.
\<close>

definition next_piece :: "char \<Rightarrow> string option \<Rightarrow> string option \<Rightarrow> (string \<times> string option) option" where
  "next_piece c sp buffer =
     (case sp of
        None \<Rightarrow> None
      | Some s \<Rightarrow>
          (let piece = takeWhile (\<lambda>x. x \<noteq> c) s in
           if piece = [] then
             (case buffer of
                None \<Rightarrow> None
              | Some b \<Rightarrow> Some (b, if length b < length s then Some (drop (Suc (length b)) s) else None))
           else if CF_MAX_IP_LEN \<le> length piece then None
           else Some (piece, if length piece < length s then Some (drop (Suc (length piece)) s) else None)))"

section \<open>Matching\<close>

definition address_number :: "nat list \<Rightarrow> nat" where
  "address_number bytes = foldl (\<lambda>a b. a * 256 + b) 0 bytes"

definition match_cidr4 :: "(string \<Rightarrow> nat list option) \<Rightarrow> string \<Rightarrow> string \<Rightarrow> int option" where
  "match_cidr4 pton s1 s2 =
     (let (address, mask) = scan_cidr 16 s1;
          shift = to_int (32 - mask)
      in (case (pton address, pton s2) of
            (Some b1, Some b2) \<Rightarrow>
              if shift < 0 \<or> 64 \<le> shift then None
              else Some (if address_number b1 div 2 ^ nat shift = address_number b2 div 2 ^ nat shift then 0 else - 1)
          | _ \<Rightarrow> None))"

text \<open>The loops over the fields, with the buffers and the numbers read so far.\<close>

fun range4_loop :: "nat \<Rightarrow> string option \<Rightarrow> string option \<Rightarrow> string option \<Rightarrow> int \<times> int \<Rightarrow> int \<Rightarrow> int option" where
  "range4_loop 0 sp1 sp2 buffer2 ft cmp = Some 0"
| "range4_loop (Suc n) sp1 sp2 buffer2 ft cmp =
     (case next_piece (CHR ''.'') sp1 (Some []) of
        None \<Rightarrow> None
      | Some (b1, sp1') \<Rightarrow>
          if b1 = [] then Some 0
          else
            (case next_piece (CHR ''.'') sp2 buffer2 of
               None \<Rightarrow> None
             | Some (b2, sp2') \<Rightarrow>
                 (let cmp' = scan_one scan_ld b2 cmp in
                  if strchr b1 (CHR ''-'') \<noteq> None then
                    (let (from, to) = scan_span scan_ld b1 ft in
                     if from < 0 \<or> to < 0 then Some (- 1)
                     else if from > cmp' \<or> cmp' > to then Some (- 1)
                     else range4_loop n sp1' sp2' (Some b2) (from, to) cmp')
                  else
                    (let from = scan_one scan_ld b1 (fst ft) in
                     if from \<noteq> cmp' then Some (- 1) else range4_loop n sp1' sp2' (Some b2) (from, snd ft) cmp'))))"

definition match_cidr6 :: "(string \<Rightarrow> nat list option) \<Rightarrow> string \<Rightarrow> string \<Rightarrow> int option" where
  "match_cidr6 pton s1 s2 =
     (let (address, mask) = scan_cidr 40 s1;
          bytes = (\<lambda>s. case pton s of Some b \<Rightarrow> b | None \<Rightarrow> replicate 16 0)
      in if mask smod 8 \<noteq> 0 then Some (- 1)
         else
           (case List.find (\<lambda>i. 16 \<le> i \<or> bytes address ! i \<noteq> bytes s2 ! i) [0..<nat (mask div 8)] of
              None \<Rightarrow> Some 0
            | Some i \<Rightarrow> if i < 16 then Some (- 1) else None))"

fun range6_loop ::
  "nat \<Rightarrow> string option \<Rightarrow> string option \<Rightarrow> string option \<Rightarrow> string option \<Rightarrow> int \<times> int \<Rightarrow> int \<Rightarrow> int option"
where
  "range6_loop 0 sp1 sp2 buffer1 buffer2 ft cmp = Some 0"
| "range6_loop (Suc n) sp1 sp2 buffer1 buffer2 ft cmp =
     (case (next_piece (CHR '':'') sp1 buffer1, next_piece (CHR '':'') sp2 buffer2) of
        (Some (b1, sp1'), Some (b2, sp2')) \<Rightarrow>
          if strchr b1 (CHR ''-'') \<noteq> None then
            (let (from, to) = scan_span scan_lx b1 ft; cmp' = scan_one scan_lx b2 cmp in
             if from < 0 \<or> to < 0 then Some (- 1)
             else if from \<ge> cmp' \<or> cmp' > to then Some (- 1)
             else range6_loop n sp1' sp2' (Some b1) (Some b2) (from, to) cmp')
          else
            (let from = scan_one scan_ld b1 (fst ft); cmp' = scan_one scan_ld b2 cmp in
             if from \<noteq> cmp' then Some (- 1) else range6_loop n sp1' sp2' (Some b1) (Some b2) (from, snd ft) cmp')
      | _ \<Rightarrow> None)"

definition FuzzySetMatch ::
  "(string \<Rightarrow> nat list option) \<Rightarrow> (string \<Rightarrow> nat list option) \<Rightarrow> string \<Rightarrow> string \<Rightarrow> int option"
where
  "FuzzySetMatch pton4 pton6 s1 s2 =
     (let has = (\<lambda>s c. strchr s c \<noteq> None);
          isCIDR = has s1 (CHR ''/'');
          isrange = has s1 (CHR ''-'');
          isv4 = (has s1 (CHR ''.'') \<or> has s2 (CHR ''.''));
          isv6 = (has s1 (CHR '':'') \<or> has s2 (CHR '':''))
      in if strcmp s1 s2 = 0 then Some 0
         else if isv4 \<and> isv6 then Some (- 1)
         else if isCIDR \<and> isrange then Some (- 1)
         else if \<not> (isv6 \<or> isv4) then Some (- 1)
         else if \<not> (isrange \<or> isCIDR) then
           (if length s2 > length s1 \<and> s2 ! length s1 \<noteq> CHR ''.'' then Some (- 1)
            else Some (strncmp s1 s2 (length s1)))
         else if isv4 then
           (if isCIDR then match_cidr4 pton4 s1 s2
            else range4_loop 4 (Some s1) (Some s2) None (- 1, - 1) (- 1))
         else if isCIDR then match_cidr6 pton6 s1 s2
         else range6_loop 8 (Some s1) (Some s2) None None (- 1, - 1) (- 1))"

section \<open>Hosts\<close>

definition FuzzyHostParse :: "string \<Rightarrow> bool" where
  "FuzzyHostParse arg2 =
     (case scan_ld arg2 of
        Some (_, CHR ''-'' # r) \<Rightarrow> scan_ld r \<noteq> None
      | _ \<Rightarrow> False)"

text \<open>
  The result is 0 for a match and 1 otherwise. A name that ends in nothing but digits makes the search
  for its last letter leave the buffer.
\<close>

definition FuzzyHostMatch :: "string \<Rightarrow> string \<Rightarrow> string \<Rightarrow> int option" where
  "FuzzyHostMatch arg0 arg1 refhost =
     (let refbase = strlcpy refhost CF_MAXVARSIZE;
          base = rev (dropWhile isdigit (rev refbase));
          number = drop (length base) refbase;
          cmp = scan_one scan_ld number (- 1);
          (start, stop) = scan_span scan_ld arg1 (- 1, - 1)
      in if base = [] then None
         else if cmp < 0 then Some 1
         else if cmp < start \<or> cmp > stop then Some 1
         else if strcmp (map ToLower (strlcpy base CF_BUFSIZE)) (map ToLower (strlcpy arg0 CF_BUFSIZE)) \<noteq> 0 then Some 1
         else Some 0)"

text \<open>Whether the text is an address; the first test leaves the loop before the colon is looked at.\<close>

fun is_address_loop :: "nat \<Rightarrow> string \<Rightarrow> bool" where
  "is_address_loop n [] = False"
| "is_address_loop n (c # cs) =
     (if \<not> isxdigit c then False
      else if c = CHR '':'' then True
      else if isdigit c then (if n + 1 > 3 then False else is_address_loop (n + 1) cs)
      else is_address_loop 0 cs)"

fun range_parse_loop :: "nat \<Rightarrow> string option \<Rightarrow> int \<times> int \<Rightarrow> bool option" where
  "range_parse_loop 0 sp1 ft = Some True"
| "range_parse_loop (Suc n) sp1 ft =
     (case next_piece (CHR ''.'') sp1 (Some []) of
        None \<Rightarrow> None
      | Some (b1, sp1') \<Rightarrow>
          if strchr b1 (CHR ''-'') \<noteq> None then
            (let (from, to) = scan_span scan_ld b1 ft in
             if from < 0 \<or> to < 0 then Some False
             else if to < from then Some False
             else range_parse_loop n sp1' (from, to))
          else range_parse_loop n sp1' ft)"

definition FuzzyMatchParse :: "string \<Rightarrow> bool option" where
  "FuzzyMatchParse s =
     (let has = (\<lambda>c. strchr s c \<noteq> None);
          isCIDR = has (CHR ''/''); isrange = has (CHR ''-''); isv4 = has (CHR ''.''); isv6 = has (CHR '':'');
          mask4 = snd (scan_cidr 16 s); mask6 = snd (scan_cidr 40 s)
      in if \<not> is_address_loop 0 s then Some True
         else if isv4 \<and> isv6 then Some False
         else if isCIDR \<and> isrange then Some False
         else if isv4 \<and> isCIDR \<and> (length s > 4 + 3 * 4 + 1 + 2 \<or> mask4 < 8 \<or> mask4 > 30) then Some False
         else
           (case (if isv4 \<and> isrange then range_parse_loop 4 (Some s) (- 1, - 1) else Some True) of
              None \<Rightarrow> None
            | Some False \<Rightarrow> Some False
            | Some True \<Rightarrow>
                Some (\<not> (isv6 \<and> isCIDR \<and> (length s < 20 \<or> length s > 42 \<or> mask6 smod 8 \<noteq> 0 \<or> mask6 > 15)))))"

definition IsLoopbackAddress :: "string \<Rightarrow> bool" where
  "IsLoopbackAddress address \<longleftrightarrow> strcmp address ''localhost'' = 0 \<or> strcmp address ''127.0.0.1'' = 0"


section \<open>What the patterns mean\<close>

datatype piece = One nat | Span nat nat

fun show_piece :: "piece \<Rightarrow> string" where
  "show_piece (One n) = show_nat n"
| "show_piece (Span a b) = show_nat a @ CHR ''-'' # show_nat b"

fun in_piece :: "piece \<Rightarrow> nat \<Rightarrow> bool" where
  "in_piece (One a) n \<longleftrightarrow> n = a"
| "in_piece (Span a b) n \<longleftrightarrow> a \<le> n \<and> n \<le> b"

fun piece_ok :: "piece \<Rightarrow> bool" where
  "piece_ok (One n) \<longleftrightarrow> n \<le> 255"
| "piece_ok (Span a b) \<longleftrightarrow> a \<le> 255 \<and> b \<le> 255"

datatype ip_pattern = Cidr "nat list" nat | Ranges "piece list"

fun show_pattern :: "ip_pattern \<Rightarrow> string" where
  "show_pattern (Cidr os m) = dotted os @ CHR ''/'' # show_nat m"
| "show_pattern (Ranges ps) = separated (CHR ''.'') (map show_piece ps)"

fun pattern_ok :: "ip_pattern \<Rightarrow> bool" where
  "pattern_ok (Cidr os m) \<longleftrightarrow> length os = 4 \<and> list_all (\<lambda>n. n \<le> 255) os \<and> m \<le> 32"
| "pattern_ok (Ranges ps) \<longleftrightarrow> length ps = 4 \<and> list_all piece_ok ps \<and> (\<exists>a b. Span a b \<in> set ps)"

fun in_pattern :: "ip_pattern \<Rightarrow> nat list \<Rightarrow> bool" where
  "in_pattern (Cidr os m) bs \<longleftrightarrow> address_number os div 2 ^ (32 - m) = address_number bs div 2 ^ (32 - m)"
| "in_pattern (Ranges ps) bs \<longleftrightarrow> list_all2 in_piece ps bs"

definition pton_ok :: "(string \<Rightarrow> nat list option) \<Rightarrow> bool" where
  "pton_ok pton \<longleftrightarrow> (\<forall>os. length os = 4 \<longrightarrow> list_all (\<lambda>n. n \<le> 255) os \<longrightarrow> pton (dotted os) = Some os)"

definition numeric :: "char \<Rightarrow> bool" where
  "numeric c \<longleftrightarrow> isdigit c \<or> c = CHR ''-''"

lemma show_nat_numeric: "c \<in> set (show_nat n) \<Longrightarrow> isdigit c"
  using show_nat_digits by blast

lemma not_in_show_nat: "\<not> isdigit c \<Longrightarrow> c \<notin> set (show_nat n)"
  using show_nat_numeric by blast

lemma punctuation_simps [simp]: "\<not> isdigit (CHR ''.'')" "\<not> isdigit (CHR ''-'')" "\<not> isdigit (CHR ''/'')" "\<not> isdigit (CHR '':'')"
  by (simp_all add: isdigit_def)

lemma set_separated: "set (separated c ss) = \<Union> (set ` set ss) \<union> (if 1 < length ss then {c} else {})"
  by (induction c ss rule: separated.induct) auto

lemma show_nat_255: "n \<le> 255 \<Longrightarrow> length (show_nat n) \<le> 3"
  by (auto simp: show_nat.simps [of n] show_nat.simps [of "n div 10"] show_nat.simps [of "n div 10 div 10"])

lemma strchr_iff: "strchr s c \<noteq> None \<longleftrightarrow> c \<in> set s"
  using strchr_None [of s c] by auto

text \<open>The next field of a text, in front of a separator or at the end.\<close>

lemma next_piece_sep:
  assumes "c \<notin> set p" "p \<noteq> []" "length p < CF_MAX_IP_LEN"
  shows "next_piece c (Some (p @ c # rest)) b = Some (p, Some rest)" "next_piece c (Some p) b = Some (p, None)"
proof -
  have "takeWhile (\<lambda>x. x \<noteq> c) (p @ c # rest) = p"
    using assms(1) by (auto simp: takeWhile_append)
  with assms(2,3) show "next_piece c (Some (p @ c # rest)) b = Some (p, Some rest)" by (simp add: next_piece_def)
  have t: "takeWhile (\<lambda>x. x \<noteq> c) p = p"
    using assms(1) by (auto simp: takeWhile_eq_all_conv)
  show "next_piece c (Some p) b = Some (p, None)"
    unfolding next_piece_def option.case Let_def t using assms(2,3) by simp
qed

definition opened :: "char \<Rightarrow> string list \<Rightarrow> string option" where
  "opened c ss = (if ss = [] then None else Some (separated c ss))"

lemma next_piece_opened:
  assumes "c \<notin> set p" "p \<noteq> []" "length p < CF_MAX_IP_LEN"
  shows "next_piece c (opened c (p # ps)) b = Some (p, opened c ps)"
  using next_piece_sep [OF assms] by (cases ps) (simp_all add: opened_def)

lemma scan_ld_show_nat: "n \<le> 255 \<Longrightarrow> no_digit rest \<Longrightarrow> scan_ld (show_nat n @ rest) = Some (int n, rest)"
  using scan_ld_show_int [of rest "int n"] by (simp add: show_int_def LONG_MIN_def LONG_MAX_def)

lemma scan_one_show: "n \<le> 255 \<Longrightarrow> scan_one scan_ld (show_nat n) old = int n"
  using scan_ld_show_nat [of n "[]"] by (simp add: scan_one_def)

lemma scan_span_show:
  "a \<le> 255 \<Longrightarrow> b \<le> 255 \<Longrightarrow> scan_span scan_ld (show_nat a @ CHR ''-'' # show_nat b) ft = (int a, int b)"
  using scan_ld_show_nat [of a "CHR ''-'' # show_nat b"] scan_ld_show_nat [of b "[]"] by (simp add: scan_span_def)

lemma show_piece_facts:
  assumes "piece_ok p"
  shows "show_piece p \<noteq> []" "length (show_piece p) < CF_MAX_IP_LEN" "CHR ''.'' \<notin> set (show_piece p)"
    "CHR ''/'' \<notin> set (show_piece p)" "CHR '':'' \<notin> set (show_piece p)"
    "CHR ''-'' \<in> set (show_piece p) \<longleftrightarrow> (\<exists>a b. p = Span a b)"
proof -
  consider (One) n where "p = One n" "n \<le> 255" | (Span) a b where "p = Span a b" "a \<le> 255" "b \<le> 255"
    using assms by (cases p) auto
  then have "show_piece p \<noteq> [] \<and> length (show_piece p) < CF_MAX_IP_LEN \<and> CHR ''.'' \<notin> set (show_piece p) \<and>
    CHR ''/'' \<notin> set (show_piece p) \<and> CHR '':'' \<notin> set (show_piece p) \<and>
    (CHR ''-'' \<in> set (show_piece p) \<longleftrightarrow> (\<exists>a b. p = Span a b))"
  proof cases
    case One
    with show_nat_255 [of n] show ?thesis by (simp add: not_in_show_nat CF_MAX_IP_LEN_def)
  next
    case Span
    with show_nat_255 [of a] show_nat_255 [of b] show ?thesis by (simp add: not_in_show_nat CF_MAX_IP_LEN_def)
  qed
  then show "show_piece p \<noteq> []" "length (show_piece p) < CF_MAX_IP_LEN" "CHR ''.'' \<notin> set (show_piece p)"
    "CHR ''/'' \<notin> set (show_piece p)" "CHR '':'' \<notin> set (show_piece p)"
    "CHR ''-'' \<in> set (show_piece p) \<longleftrightarrow> (\<exists>a b. p = Span a b)"
    by blast+
qed

lemma range4_step:
  assumes "piece_ok p" "n \<le> 255"
  shows "range4_loop (Suc k) (opened (CHR ''.'') (map show_piece (p # ps))) (opened (CHR ''.'') (map show_nat (n # ns))) b ft cmp =
    (if in_piece p n
     then range4_loop k (opened (CHR ''.'') (map show_piece ps)) (opened (CHR ''.'') (map show_nat ns)) (Some (show_nat n))
       (case p of One a \<Rightarrow> (int a, snd ft) | Span a b \<Rightarrow> (int a, int b)) (int n)
     else Some (- 1))"
proof -
  note facts = show_piece_facts [OF assms(1)]
  have 1: "next_piece (CHR ''.'') (opened (CHR ''.'') (map show_piece (p # ps))) (Some []) =
      Some (show_piece p, opened (CHR ''.'') (map show_piece ps))"
    using next_piece_opened [OF facts(3,1,2)] by simp
  have 2: "next_piece (CHR ''.'') (opened (CHR ''.'') (map show_nat (n # ns))) b = Some (show_nat n, opened (CHR ''.'') (map show_nat ns))"
    using next_piece_opened [of "CHR ''.''" "show_nat n"] show_nat_255 [OF assms(2)]
    by (simp add: not_in_show_nat CF_MAX_IP_LEN_def)
  show ?thesis
  proof (cases p)
    case (One a)
    then have "strchr (show_piece p) (CHR ''-'') = None" using facts(6) strchr_iff by blast
    with One 1 2 assms facts(1) show ?thesis by (auto simp: scan_one_show Let_def)
  next
    case (Span a b)
    then have "strchr (show_piece p) (CHR ''-'') \<noteq> None" using facts(6) strchr_iff by blast
    with Span 1 2 assms facts(1) show ?thesis by (auto simp: scan_one_show scan_span_show Let_def)
  qed
qed

lemma range4_loop_pieces:
  assumes "list_all piece_ok ps" "list_all (\<lambda>n. n \<le> 255) ns" "length ps = k" "length ns = k"
  shows "range4_loop k (opened (CHR ''.'') (map show_piece ps)) (opened (CHR ''.'') (map show_nat ns)) b ft cmp =
    Some (if list_all2 in_piece ps ns then 0 else - 1)"
  using assms
proof (induction k arbitrary: ps ns b ft cmp)
  case (Suc k)
  obtain p ps' n ns' where "ps = p # ps'" "ns = n # ns'" using Suc.prems(3,4) by (auto simp: length_Suc_conv)
  with Suc show ?case by (simp add: range4_step del: range4_loop.simps list.map)
qed simp


lemma dotted_chars:
  assumes "length os = 4"
  shows "CHR ''.'' \<in> set (dotted os)" "CHR '':'' \<notin> set (dotted os)" "CHR ''-'' \<notin> set (dotted os)"
    "CHR ''/'' \<notin> set (dotted os)"
  using assms by (auto simp: dotted_def set_separated dest: show_nat_numeric)

lemma length_dotted:
  assumes "length os = 4" "list_all (\<lambda>n. n \<le> 255) os"
  shows "length (dotted os) \<le> 15"
proof -
  from assms obtain a b c d where os: "os = [a, b, c, d]" "a \<le> 255" "b \<le> 255" "c \<le> 255" "d \<le> 255"
    by (rule four_octets)
  with show_nat_255 [of a] show_nat_255 [of b] show_nat_255 [of c] show_nat_255 [of d] show ?thesis
    by (simp add: dotted_def)
qed

lemma match_cidr4_show:
  assumes "pton_ok pton" "length os = 4" "list_all (\<lambda>n. n \<le> 255) os" "m \<le> 32" "length bs = 4" "list_all (\<lambda>n. n \<le> 255) bs"
  shows "match_cidr4 pton (dotted os @ CHR ''/'' # show_nat m) (dotted bs) =
    Some (if address_number os div 2 ^ (32 - m) = address_number bs div 2 ^ (32 - m) then 0 else - 1)"
proof -
  have t: "takeWhile (\<lambda>c. c \<noteq> CHR ''/'') (dotted os @ CHR ''/'' # show_nat m) = dotted os"
    using dotted_chars(4) [OF assms(2)] by (auto simp: takeWhile_append)
  have "dotted os \<noteq> []" using dotted_chars(1) [OF assms(2)] by auto
  then have "scan_cidr 16 (dotted os @ CHR ''/'' # show_nat m) = (dotted os, to_int (int m))"
    unfolding scan_cidr_def Let_def t
    using length_dotted [OF assms(2,3)] scan_ld_show_nat [of m "[]"] assms(4) by simp
  moreover have "to_int (int m) = int m" "to_int (32 - int m) = int (32 - m)"
    using assms(4) by (simp_all add: to_int_def of_nat_diff)
  moreover have "nat (32 - int m) = 32 - m" "0 \<le> 32 - int m" using assms(4) by simp_all
  ultimately show ?thesis
    using assms by (simp add: match_cidr4_def pton_ok_def Let_def)
qed


definition some_pton :: "string \<Rightarrow> nat list option" where
  "some_pton s = (case IPV4_parser s of Some (os, _) \<Rightarrow> Some (map nat os) | None \<Rightarrow> None)"


section \<open>Where the matching goes wrong\<close>

text \<open>
  Fields of IPv6 addresses are compared as decimal numbers, so that fields that start with a letter are all the same; a
  range leaves its lower end out; and the syntax of addresses is never checked.
\<close>

lemma ip6_fields_ignored:
  "FuzzySetMatch p4 p6 ''fe80:0:0:0:0:0:0:1-5'' ''abcd:0:0:0:0:0:0:2'' = Some 0"
  "FuzzySetMatch p4 p6 ''fe80:0:0:0:0:0:0:1-5'' ''fe80:0:0:0:0:0:0:1'' = Some (- 1)"
  by code_simp+

lemma short_range_leaves_string: "FuzzySetMatch p4 p6 ''10.0-5'' ''10.2.3.4'' = None"
  by code_simp

lemma is_address_loop_False: "\<not> is_address_loop n s"
proof (induction n s rule: is_address_loop.induct)
  case (2 n c cs)
  have "\<not> isxdigit (CHR '':'')" by (simp add: isxdigit_def)
  with 2 show ?case by auto
qed simp

lemma FuzzyMatchParse_accepts_all: "FuzzyMatchParse s = Some True"
  using is_address_loop_False by (simp add: FuzzyMatchParse_def Let_def)

end
