(* ===== verification/Shared_Buffer.thy ===== *)
theory Shared_Buffer
  imports Prelude "HOL-Library.Monad_Syntax"
begin

text \<open>
  Buffers that share their memory until one of them is written, \<open>libutils/buffer.c\<close> and \<open>libutils/refcount.c\<close>.
  Buffers, blocks of memory and reference counts are at addresses of a store. A block is the list of the
  bytes that were written from its start; a reference count is the list of its users in their order. A block that is reallocated keeps its address here.
  \<open>None\<close> is a failed assertion or an access to memory that is freed, not written or behind the end. The address
  of a new buffer is an argument. Sums of lengths wrap around like the \<open>unsigned int\<close> they are.
\<close>

datatype BufferBehavior = BUFFER_BEHAVIOR_CSTRING | BUFFER_BEHAVIOR_BYTEARRAY

record Buffer =
  data :: nat
  mode :: BufferBehavior
  capacity :: nat
  used :: nat
  memory_cap :: nat
  ref_count :: nat

record BufferStore =
  buffers :: "nat \<Rightarrow> Buffer option"
  blocks :: "nat \<Rightarrow> string option"
  refs :: "nat \<Rightarrow> nat list option"
  brk :: nat
  general_memory_cap :: nat

definition DEFAULT_BUFFER_SIZE :: nat where
  "DEFAULT_BUFFER_SIZE = 4096"

definition DEFAULT_MEMORY_CAP :: nat where
  "DEFAULT_MEMORY_CAP = 65535"

definition u32 :: "nat \<Rightarrow> nat" where
  "u32 n = n mod 2 ^ 32"

abbreviation NUL :: char where
  "NUL \<equiv> CHR 0x00"

definition empty_store :: BufferStore where
  "empty_store = \<lparr>buffers = (\<lambda>_. None), blocks = (\<lambda>_. None), refs = (\<lambda>_. None), brk = 0,
     general_memory_cap = DEFAULT_MEMORY_CAP\<rparr>"

definition BufferSetGeneralMemoryCap :: "BufferStore \<Rightarrow> nat \<Rightarrow> BufferStore" where
  "BufferSetGeneralMemoryCap st cap = (if cap = 0 then st else st\<lparr>general_memory_cap := cap\<rparr>)"

section \<open>Reference counts\<close>

definition RefCountNew :: "BufferStore \<Rightarrow> nat \<times> BufferStore" where
  "RefCountNew st = (brk st, st\<lparr>refs := (refs st)(brk st \<mapsto> []), brk := brk st + 1\<rparr>)"

definition RefCountDestroy :: "BufferStore \<Rightarrow> nat \<Rightarrow> BufferStore option" where
  "RefCountDestroy st r =
     do {
       users \<leftarrow> refs st r;
       (if length users \<le> 1 then Some (st\<lparr>refs := (refs st)(r := None)\<rparr>) else None)
     }"

definition RefCountAttach :: "BufferStore \<Rightarrow> nat \<Rightarrow> nat \<Rightarrow> BufferStore option" where
  "RefCountAttach st r owner =
     do { users \<leftarrow> refs st r; Some (st\<lparr>refs := (refs st)(r \<mapsto> users @ [owner])\<rparr>) }"

text \<open>Whether the owner was found, and the store.\<close>

definition RefCountDetach :: "BufferStore \<Rightarrow> nat \<Rightarrow> nat \<Rightarrow> (bool \<times> BufferStore) option" where
  "RefCountDetach st r owner =
     do {
       users \<leftarrow> refs st r;
       (if length users \<le> 1 then None
        else if owner \<in> set users then Some (True, st\<lparr>refs := (refs st)(r \<mapsto> remove1 owner users)\<rparr>)
        else Some (False, st))
     }"

definition RefCountIsShared :: "BufferStore \<Rightarrow> nat \<Rightarrow> bool option" where
  "RefCountIsShared st r = map_option (\<lambda>users. length users > 1) (refs st r)"

definition RefCountIsEqual :: "BufferStore \<Rightarrow> nat \<Rightarrow> nat \<Rightarrow> bool option" where
  "RefCountIsEqual st a b =
     (if a = b then Some True
      else do { ua \<leftarrow> refs st a; ub \<leftarrow> refs st b; Some (ua = ub) })"

section \<open>Creating, copying and destroying\<close>

definition new_block :: "BufferStore \<Rightarrow> string \<Rightarrow> nat \<times> BufferStore" where
  "new_block st bytes = (brk st, st\<lparr>blocks := (blocks st)(brk st \<mapsto> bytes), brk := brk st + 1\<rparr>)"

definition put_buffer :: "BufferStore \<Rightarrow> nat \<Rightarrow> Buffer \<Rightarrow> BufferStore" where
  "put_buffer st b B = st\<lparr>buffers := (buffers st)(b \<mapsto> B)\<rparr>"

definition put_block :: "BufferStore \<Rightarrow> nat \<Rightarrow> string \<Rightarrow> BufferStore" where
  "put_block st a bytes = st\<lparr>blocks := (blocks st)(a \<mapsto> bytes)\<rparr>"

definition create_buffer :: "BufferStore \<Rightarrow> nat \<Rightarrow> string \<Rightarrow> nat \<Rightarrow> nat \<Rightarrow> BufferStore option" where
  "create_buffer st b bytes cap n =
     (let (a, st1) = new_block st bytes; (r, st2) = RefCountNew st1 in
      do {
        st3 \<leftarrow> RefCountAttach st2 r b;
        Some (put_buffer st3 b \<lparr>data = a, mode = BUFFER_BEHAVIOR_CSTRING, capacity = cap, used = n,
          memory_cap = general_memory_cap st, ref_count = r\<rparr>)
      })"

definition BufferNew :: "BufferStore \<Rightarrow> nat \<Rightarrow> BufferStore option" where
  "BufferNew st b = create_buffer st b [NUL] DEFAULT_BUFFER_SIZE 0"

definition required_capacity :: "nat \<Rightarrow> nat" where
  "required_capacity n = u32 (u32 (n div DEFAULT_BUFFER_SIZE + 1) * DEFAULT_BUFFER_SIZE)"

text \<open>The first \<open>n\<close> bytes behind a pointer, up to a \<open>NUL\<close>; and whether there is one.\<close>

definition bytes_in :: "string \<Rightarrow> nat \<Rightarrow> string" where
  "bytes_in bytes n = takeWhile (\<lambda>c. c \<noteq> NUL) (take n bytes)"

definition readable :: "string \<Rightarrow> nat \<Rightarrow> bool" where
  "readable bytes n \<longleftrightarrow> n \<le> length bytes \<or> NUL \<in> set bytes"

definition nul_in :: "string \<Rightarrow> nat \<Rightarrow> bool" where
  "nul_in bytes n \<longleftrightarrow> NUL \<in> set (take n bytes)"

text \<open>The result is whether there is a buffer.\<close>

definition BufferNewFrom :: "BufferStore \<Rightarrow> nat \<Rightarrow> string \<Rightarrow> nat \<Rightarrow> (bool \<times> BufferStore) option" where
  "BufferNewFrom st b bytes n =
     (if n > general_memory_cap st then Some (False, st)
      else
        (let cap = (if n \<ge> DEFAULT_BUFFER_SIZE then required_capacity n else DEFAULT_BUFFER_SIZE);
             text = bytes_in bytes n
         in if \<not> readable bytes n \<or> cap \<le> length text then None
            else map_option (Pair True) (create_buffer st b (text @ [NUL]) cap (length text))))"

definition BufferDestroy :: "BufferStore \<Rightarrow> nat \<Rightarrow> (int \<times> BufferStore) option" where
  "BufferDestroy st b =
     do {
       B \<leftarrow> buffers st b;
       s \<leftarrow> RefCountIsShared st (ref_count B);
       (if s then do {
          (found, st1) \<leftarrow> RefCountDetach st (ref_count B) b;
          (if \<not> found then Some (- 1, st1) else Some (0, st1\<lparr>buffers := (buffers st1)(b := None)\<rparr>))
        }
        else do {
          st1 \<leftarrow> RefCountDestroy (st\<lparr>blocks := (blocks st)(data B := None)\<rparr>) (ref_count B);
          Some (0, st1\<lparr>buffers := (buffers st1)(b := None)\<rparr>)
        })
     }"

definition BufferCopy :: "BufferStore \<Rightarrow> nat \<Rightarrow> nat \<Rightarrow> (int \<times> BufferStore) option" where
  "BufferCopy st src dst =
     (if src = dst then Some (- 1, st)
      else do {
        B \<leftarrow> buffers st src;
        st1 \<leftarrow> RefCountAttach st (ref_count B) dst;
        Some (0, put_buffer st1 dst B)
      })"

section \<open>Writing\<close>

text \<open>
  A buffer that shares its memory gets a block and a count of its own before it is written. The result
  is whether that succeeded.
\<close>

definition unshare :: "BufferStore \<Rightarrow> nat \<Rightarrow> (bool \<times> BufferStore) option" where
  "unshare st b =
     do {
       B \<leftarrow> buffers st b;
       s \<leftarrow> RefCountIsShared st (ref_count B);
       (if \<not> s then Some (True, st)
        else do {
          let (r, st1) = RefCountNew st;
          st2 \<leftarrow> RefCountAttach st1 r b;
          (found, st3) \<leftarrow> RefCountDetach st2 (ref_count B) b;
          (if \<not> found then Some (False, st)
           else do {
             old \<leftarrow> blocks st3 (data B);
             let text = (if mode B = BUFFER_BEHAVIOR_CSTRING then takeWhile (\<lambda>c. c \<noteq> NUL) (take (used B) old)
                         else take (used B) old);
             let (a, st4) = new_block st3 text;
             Some (True, put_buffer st4 b (B\<lparr>data := a, ref_count := r, used := length text\<rparr>))
           })
        })
     }"

definition overwrite :: "string \<Rightarrow> nat \<Rightarrow> string \<Rightarrow> string" where
  "overwrite block pos bytes = take pos block @ bytes @ drop (pos + length bytes) block"

text \<open>The bytes are copied to the position \<open>pos\<close>; a \<open>NUL\<close> among them ends the copy and changes the mode.\<close>

definition copy_bytes :: "BufferStore \<Rightarrow> nat \<Rightarrow> nat \<Rightarrow> string \<Rightarrow> nat \<Rightarrow> (int \<times> BufferStore) option" where
  "copy_bytes st b pos bytes n =
     do {
       B \<leftarrow> buffers st b;
       block \<leftarrow> blocks st (data B);
       let text = bytes_in bytes n;
       let m = (if nul_in bytes n then BUFFER_BEHAVIOR_CSTRING else mode B);
       let written = text @ (if nul_in bytes n \<or> m = BUFFER_BEHAVIOR_CSTRING then [NUL] else []);
       (if \<not> readable bytes n \<or> length block < pos \<or> capacity B < pos + length written then None
        else Some (int (pos + length text),
          put_block (put_buffer st b (B\<lparr>mode := m, used := pos + length text\<rparr>)) (data B) (overwrite block pos written)))
     }"

definition BufferSet :: "BufferStore \<Rightarrow> nat \<Rightarrow> string \<Rightarrow> nat \<Rightarrow> (int \<times> BufferStore) option" where
  "BufferSet st b bytes n =
     do {
       B \<leftarrow> buffers st b;
       (if n > memory_cap B then Some (- 1, st)
        else do {
          (ok, st1) \<leftarrow> unshare st b;
          B1 \<leftarrow> buffers st1 b;
          (if \<not> ok then Some (- 1, st1)
           else if n \<ge> capacity B1
           then copy_bytes (put_buffer st1 b (B1\<lparr>capacity := required_capacity n, used := 0\<rparr>)) b 0 bytes n
           else copy_bytes st1 b 0 bytes n)
        })
     }"

definition BufferAppend :: "BufferStore \<Rightarrow> nat \<Rightarrow> string \<Rightarrow> nat \<Rightarrow> (int \<times> BufferStore) option" where
  "BufferAppend st b bytes n =
     do {
       B \<leftarrow> buffers st b;
       (if u32 (n + used B) > memory_cap B then Some (- 1, st)
        else do {
          (ok, st1) \<leftarrow> unshare st b;
          B1 \<leftarrow> buffers st1 b;
          (if \<not> ok then Some (- 1, st1)
           else if u32 (used B1 + n) \<ge> capacity B1
           then copy_bytes (put_buffer st1 b (B1\<lparr>capacity := required_capacity (u32 (used B1 + n))\<rparr>)) b (used B1) bytes n
           else copy_bytes st1 b (used B1) bytes n)
        })
     }"

text \<open>
  \<open>BufferPrintf\<close> and \<open>BufferVPrintf\<close>: \<open>out\<close> is the formatted text. What does not fit is cut off before its length is
  compared with the limit.
\<close>

definition BufferPrintf :: "BufferStore \<Rightarrow> nat \<Rightarrow> string \<Rightarrow> (int \<times> BufferStore) option" where
  "BufferPrintf st b out =
     do {
       (ok, st1) \<leftarrow> unshare st b;
       B \<leftarrow> buffers st1 b;
       block \<leftarrow> blocks st1 (data B);
       (if \<not> ok then Some (- 1, st1)
        else
          (let st2 = put_block st1 (data B) (overwrite block 0 (take (capacity B - 1) out @ [NUL])) in
           if length out \<ge> capacity B then
             (if length out > memory_cap B then Some (- 1, st2)
              else
                (let cap = required_capacity (length out) in
                 if cap \<le> length out then None
                 else Some (int (length out),
                   put_block (put_buffer st2 b (B\<lparr>capacity := cap, used := length out\<rparr>)) (data B) (out @ [NUL]))))
           else Some (int (length out), put_buffer st2 b (B\<lparr>used := length out\<rparr>))))
     }"

definition BufferZero :: "BufferStore \<Rightarrow> nat \<Rightarrow> BufferStore option" where
  "BufferZero st b =
     do {
       B \<leftarrow> buffers st b;
       s \<leftarrow> RefCountIsShared st (ref_count B);
       (if s then do {
          (found, st1) \<leftarrow> RefCountDetach st (ref_count B) b;
          let (a, st2) = new_block st1 [NUL];
          let (r, st3) = RefCountNew st2;
          st4 \<leftarrow> RefCountAttach st3 r b;
          Some (put_buffer st4 b (B\<lparr>data := a, ref_count := r, used := 0\<rparr>))
        }
        else do {
          block \<leftarrow> blocks st (data B);
          Some (put_block (put_buffer st b (B\<lparr>used := 0\<rparr>)) (data B) (overwrite block 0 [NUL]))
        })
     }"

section \<open>Reading\<close>

definition BufferSize :: "BufferStore \<Rightarrow> nat \<Rightarrow> nat option" where
  "BufferSize st b = map_option used (buffers st b)"

text \<open>A string in a buffer is read up to its \<open>NUL\<close>.\<close>

definition BufferData :: "BufferStore \<Rightarrow> nat \<Rightarrow> string option" where
  "BufferData st b = do { B \<leftarrow> buffers st b; blocks st (data B) }"

definition BufferMode :: "BufferStore \<Rightarrow> nat \<Rightarrow> BufferBehavior option" where
  "BufferMode st b = map_option mode (buffers st b)"

definition BufferSetMode :: "BufferStore \<Rightarrow> nat \<Rightarrow> BufferBehavior \<Rightarrow> BufferStore option" where
  "BufferSetMode st b m =
     do {
       B \<leftarrow> buffers st b;
       block \<leftarrow> blocks st (data B);
       Some (put_buffer st b (B\<lparr>mode := m,
         used := (if m = BUFFER_BEHAVIOR_CSTRING then length (bytes_in block (used B)) else used B)\<rparr>))
     }"

definition BufferMemoryCap :: "BufferStore \<Rightarrow> nat \<Rightarrow> nat option" where
  "BufferMemoryCap st b = map_option memory_cap (buffers st b)"

definition BufferSetMemoryCap :: "BufferStore \<Rightarrow> nat \<Rightarrow> nat \<Rightarrow> BufferStore option" where
  "BufferSetMemoryCap st b cap =
     do { B \<leftarrow> buffers st b; Some (if cap = 0 then st else put_buffer st b (B\<lparr>memory_cap := cap\<rparr>)) }"

text \<open>Characters are compared as signed ones, strings by \<open>strcmp\<close>.\<close>

definition schar :: "char \<Rightarrow> int" where
  "schar c = (let n = of_char c in if n < 128 then n else n - 256)"

fun compare_bytes :: "string \<Rightarrow> string \<Rightarrow> int" where
  "compare_bytes [] [] = 0"
| "compare_bytes [] (_ # _) = - 1"
| "compare_bytes (_ # _) [] = 1"
| "compare_bytes (a # as) (b # bs) =
     (if schar a < schar b then - 1 else if schar a > schar b then 1 else compare_bytes as bs)"

definition c_string :: "string \<Rightarrow> string option" where
  "c_string block = (if NUL \<in> set block then Some (takeWhile (\<lambda>c. c \<noteq> NUL) block) else None)"

fun BufferCompare :: "BufferStore \<Rightarrow> nat option \<Rightarrow> nat option \<Rightarrow> int option" where
  "BufferCompare st None None = Some 0"
| "BufferCompare st None (Some _) = Some (- 1)"
| "BufferCompare st (Some _) None = Some 1"
| "BufferCompare st (Some b1) (Some b2) =
     do {
       B1 \<leftarrow> buffers st b1;
       B2 \<leftarrow> buffers st b2;
       eq \<leftarrow> RefCountIsEqual st (ref_count B1) (ref_count B2);
       (if eq then Some 0
        else do {
          s1 \<leftarrow> blocks st (data B1);
          s2 \<leftarrow> blocks st (data B2);
          (if mode B1 = mode B2 \<and> mode B1 = BUFFER_BEHAVIOR_CSTRING
           then do { t1 \<leftarrow> c_string s1; t2 \<leftarrow> c_string s2; Some (strcmp t1 t2) }
           else Some (compare_bytes (take (used B1) s1) (take (used B2) s2)))
        })
     }"


section \<open>Sharing does not show\<close>

text \<open>
  A store is well formed when the users of a count are the buffers that point to it, exactly these share
  a block, the text lies in the block and in the capacity, and has no \<open>NUL\<close>.
\<close>

definition buffer_ok :: "BufferStore \<Rightarrow> nat \<Rightarrow> Buffer \<Rightarrow> bool" where
  "buffer_ok st b B \<longleftrightarrow>
     (\<exists>block users. blocks st (data B) = Some block \<and> refs st (ref_count B) = Some users \<and> distinct users \<and>
        (\<forall>b'. b' \<in> set users \<longleftrightarrow> (\<exists>B'. buffers st b' = Some B' \<and> ref_count B' = ref_count B)) \<and>
        used B \<le> length block \<and> length block \<le> capacity B \<and> NUL \<notin> set (take (used B) block)) \<and>
     used B < capacity B \<and> used B < 2 ^ 31 \<and> memory_cap B < 2 ^ 31 \<and> data B < brk st \<and> ref_count B < brk st"

definition store_ok :: "BufferStore \<Rightarrow> bool" where
  "store_ok st \<longleftrightarrow>
     (\<forall>b B. buffers st b = Some B \<longrightarrow> buffer_ok st b B) \<and>
     (\<forall>b B b' B'. buffers st b = Some B \<longrightarrow> buffers st b' = Some B' \<longrightarrow>
        (data B = data B' \<longleftrightarrow> ref_count B = ref_count B')) \<and>
     general_memory_cap st < 2 ^ 31"

type_synonym text_view = "BufferBehavior \<times> string \<times> nat"

definition view :: "BufferStore \<Rightarrow> nat \<Rightarrow> text_view option" where
  "view st b = map_option (\<lambda>B. (mode B, take (used B) (the (blocks st (data B))), memory_cap B)) (buffers st b)"

lemma store_okD:
  assumes "store_ok st" "buffers st b = Some B"
  obtains block users where "blocks st (data B) = Some block" "refs st (ref_count B) = Some users" "distinct users"
    "\<And>b'. b' \<in> set users \<longleftrightarrow> (\<exists>B'. buffers st b' = Some B' \<and> ref_count B' = ref_count B)"
    "used B \<le> length block" "length block \<le> capacity B" "NUL \<notin> set (take (used B) block)"
    "used B < capacity B" "used B < 2 ^ 31" "memory_cap B < 2 ^ 31" "data B < brk st" "ref_count B < brk st"
  using assms unfolding store_ok_def buffer_ok_def by blast

lemma store_ok_bounds:
  assumes "store_ok st" "buffers st b = Some B"
  shows "used B < capacity B" "used B < 2 ^ 31" "memory_cap B < 2 ^ 31" "data B < brk st" "ref_count B < brk st"
  using assms unfolding store_ok_def buffer_ok_def by blast+

lemma store_ok_share:
  "store_ok st \<Longrightarrow> buffers st b = Some B \<Longrightarrow> buffers st b' = Some B' \<Longrightarrow> data B = data B' \<longleftrightarrow> ref_count B = ref_count B'"
  unfolding store_ok_def by blast

lemma view_Some:
  "buffers st b = Some B \<Longrightarrow> blocks st (data B) = Some block \<Longrightarrow> view st b = Some (mode B, take (used B) block, memory_cap B)"
  by (simp add: view_def)

definition alone :: "BufferStore \<Rightarrow> nat \<Rightarrow> bool" where
  "alone st b \<longleftrightarrow> (\<exists>B. buffers st b = Some B \<and> refs st (ref_count B) = Some [b])"

text \<open>Changing a buffer that is alone with its block.\<close>

lemma update_alone:
  assumes "store_ok st" "alone st b" "buffers st b = Some B"
    and "data B' = data B" "ref_count B' = ref_count B" "used B' \<le> length block" "length block \<le> capacity B'"
    and "NUL \<notin> set (take (used B') block)" "used B' < capacity B'" "used B' < 2 ^ 31" "memory_cap B' < 2 ^ 31"
  defines "st' \<equiv> put_block (put_buffer st b B') (data B) block"
  shows "store_ok st'" "view st' = (view st)(b \<mapsto> (mode B', take (used B') block, memory_cap B'))"
proof -
  have ref: "refs st (ref_count B) = Some [b]" using assms(2,3) by (auto simp: alone_def)
  have only: "ref_count C \<noteq> ref_count B \<and> data C \<noteq> data B" if "buffers st c = Some C" "c \<noteq> b" for c C
  proof -
    obtain us where us: "refs st (ref_count B) = Some us"
        "\<And>b'. b' \<in> set us \<longleftrightarrow> (\<exists>B'. buffers st b' = Some B' \<and> ref_count B' = ref_count B)"
      by (rule store_okD [OF assms(1,3)]) (rule that; assumption)
    from us(1) ref have "us = [b]" by simp
    with us(2) [of c] that have "ref_count C \<noteq> ref_count B" by auto
    with store_ok_share [OF assms(1) that(1) assms(3)] show ?thesis by simp
  qed
  have buf: "buffers st' c = (if c = b then Some B' else buffers st c)" "refs st' = refs st" "brk st' = brk st"
    "blocks st' a = (if a = data B then Some block else blocks st a)" "general_memory_cap st' = general_memory_cap st" for c a
    by (simp_all add: st'_def put_block_def put_buffer_def)
  have low: "data B < brk st" "ref_count B < brk st" using store_ok_bounds [OF assms(1,3)] by simp_all
  have users: "b' \<in> set [b] \<longleftrightarrow> (\<exists>B''. buffers st' b' = Some B'' \<and> ref_count B'' = ref_count B')" for b'
    using only [of b'] assms(5) by (auto simp: buf)
  have "buffer_ok st' b B'"
    unfolding buffer_ok_def
    by (intro conjI exI [of _ block] exI [of _ "[b]"] allI users)
      (use assms(4-11) in \<open>simp_all add: buf ref low\<close>)
  moreover have "buffer_ok st' c C" if c: "buffers st c = Some C" "c \<noteq> b" for c C
  proof -
    obtain blk us where *: "blocks st (data C) = Some blk" "refs st (ref_count C) = Some us"
      "distinct us" "\<And>b'. b' \<in> set us \<longleftrightarrow> (\<exists>B'. buffers st b' = Some B' \<and> ref_count B' = ref_count C)"
      "used C \<le> length blk" "length blk \<le> capacity C" "NUL \<notin> set (take (used C) blk)"
      "used C < capacity C" "used C < 2 ^ 31" "memory_cap C < 2 ^ 31" "data C < brk st" "ref_count C < brk st"
      by (rule store_okD [OF assms(1) c(1)]) (rule that; assumption)
    have "b' \<in> set us \<longleftrightarrow> (\<exists>B''. buffers st' b' = Some B'' \<and> ref_count B'' = ref_count C)" for b'
      using *(4) [of b'] only [OF c] assms(3,5) by (auto simp: buf)
    with * only [OF c] show ?thesis unfolding buffer_ok_def buf by auto
  qed
  ultimately have 1: "buffer_ok st' c C" if "buffers st' c = Some C" for c C
    using that by (auto simp: buf split: if_splits)
  have "data C = data D \<longleftrightarrow> ref_count C = ref_count D" if "buffers st' c = Some C" "buffers st' d = Some D" for c d C D
    using that store_ok_share [OF assms(1), of c C d D] only [of c C] only [of d D] assms(4,5)
    by (cases "c = b"; cases "d = b") (auto simp: buf)
  with 1 assms(1) show "store_ok st'" unfolding store_ok_def buf(5) by blast
  show "view st' = (view st)(b \<mapsto> (mode B', take (used B') block, memory_cap B'))"
  proof
    fix c
    show "view st' c = ((view st)(b \<mapsto> (mode B', take (used B') block, memory_cap B'))) c"
      using only [of c] assms(4) by (cases "buffers st c") (auto simp: view_def buf)
  qed
qed

text \<open>Giving a buffer a block and a count of its own.\<close>

lemma own_block:
  assumes "store_ok st" "buffers st b = Some B" "refs st (ref_count B) = Some users" "1 < length users"
    and "length block \<le> capacity B" "NUL \<notin> set (take u block)" "u \<le> length block" "u \<le> used B"
    and "brk st \<le> a" "brk st \<le> r" "a < n" "r < n"
  defines "B' \<equiv> B\<lparr>data := a, ref_count := r, used := u\<rparr>"
  defines "st' \<equiv> st\<lparr>buffers := (buffers st)(b \<mapsto> B'), blocks := (blocks st)(a \<mapsto> block),
    refs := (refs st)(ref_count B \<mapsto> remove1 b users, r \<mapsto> [b]), brk := n\<rparr>"
  shows "store_ok st'" "view st' = (view st)(b \<mapsto> (mode B, take u block, memory_cap B))" "alone st' b" "buffers st' b = Some B'"
proof -
  have buf: "buffers st' c = (if c = b then Some B' else buffers st c)" "brk st' = n"
    "blocks st' x = (if x = a then Some block else blocks st x)" "general_memory_cap st' = general_memory_cap st"
    "refs st' x = (if x = r then Some [b] else if x = ref_count B then Some (remove1 b users) else refs st x)" for c x
    by (simp_all add: st'_def)
  have old: "data C \<noteq> a \<and> ref_count C \<noteq> r" if "buffers st c = Some C" for c C
    using store_ok_bounds(4,5) [OF assms(1) that] assms(9,10) by auto
  have low: "used B < capacity B" "used B < 2 ^ 31" "memory_cap B < 2 ^ 31" using store_ok_bounds [OF assms(1,2)] by simp_all
  have users: "b' \<in> set [b] \<longleftrightarrow> (\<exists>B''. buffers st' b' = Some B'' \<and> ref_count B'' = ref_count B')" for b'
    using old [of b'] by (auto simp: buf B'_def)
  have "buffer_ok st' b B'"
    unfolding buffer_ok_def
    by (intro conjI exI [of _ block] exI [of _ "[b]"] allI users)
      (use assms(5-8,11,12) low in \<open>simp_all add: buf B'_def\<close>)
  moreover have "buffer_ok st' c C" if c: "buffers st c = Some C" "c \<noteq> b" for c C
  proof -
    obtain blk us where *: "blocks st (data C) = Some blk" "refs st (ref_count C) = Some us"
      "distinct us" "\<And>b'. b' \<in> set us \<longleftrightarrow> (\<exists>B'. buffers st b' = Some B' \<and> ref_count B' = ref_count C)"
      "used C \<le> length blk" "length blk \<le> capacity C" "NUL \<notin> set (take (used C) blk)"
      "used C < capacity C" "used C < 2 ^ 31" "memory_cap C < 2 ^ 31" "data C < brk st" "ref_count C < brk st"
      by (rule store_okD [OF assms(1) c(1)]) (rule that; assumption)
    let ?us = "if ref_count C = ref_count B then remove1 b us else us"
    have "b' \<in> set ?us \<longleftrightarrow> (\<exists>B''. buffers st' b' = Some B'' \<and> ref_count B'' = ref_count C)" for b'
      using *(3) *(4) [of b'] old [OF c(1)] assms(2) by (auto simp: buf B'_def)
    moreover have "refs st' (ref_count C) = Some ?us"
      using *(2) assms(3) old [OF c(1)] by (cases "ref_count C = ref_count B") (simp_all add: buf)
    moreover have "distinct ?us" using *(3) by simp
    moreover have "blocks st' (data C) = Some blk" using *(1) old [OF c(1)] by (simp add: buf)
    moreover have "data C < n" "ref_count C < n" using *(11,12) assms(9-12) by simp_all
    ultimately show ?thesis using *(5-10) unfolding buffer_ok_def buf(2) by blast
  qed
  ultimately have 1: "buffer_ok st' c C" if "buffers st' c = Some C" for c C
    using that by (auto simp: buf split: if_splits)
  have "data C = data D \<longleftrightarrow> ref_count C = ref_count D" if "buffers st' c = Some C" "buffers st' d = Some D" for c d C D
    using that store_ok_share [OF assms(1), of c C d D] old [of c C] old [of d D]
    by (cases "c = b"; cases "d = b") (auto simp: buf B'_def)
  with 1 assms(1) show "store_ok st'" unfolding store_ok_def buf(4) by blast
  show "view st' = (view st)(b \<mapsto> (mode B, take u block, memory_cap B))"
  proof
    fix c
    show "view st' c = ((view st)(b \<mapsto> (mode B, take u block, memory_cap B))) c"
      using old [of c] by (cases "buffers st c") (auto simp: view_def buf B'_def)
  qed
  show "alone st' b" "buffers st' b = Some B'" by (simp_all add: alone_def buf B'_def)
qed


lemma shared_iff:
  assumes "store_ok st" "buffers st b = Some B"
  shows "RefCountIsShared st (ref_count B) = Some False \<and> alone st b \<or>
    (\<exists>users. RefCountIsShared st (ref_count B) = Some True \<and> refs st (ref_count B) = Some users \<and> 1 < length users \<and>
      b \<in> set users)"
proof -
  obtain us where us: "refs st (ref_count B) = Some us" "distinct us"
      "\<And>b'. b' \<in> set us \<longleftrightarrow> (\<exists>B'. buffers st b' = Some B' \<and> ref_count B' = ref_count B)"
    by (rule store_okD [OF assms]) (rule that; assumption)
  have b: "b \<in> set us" using us(3) [of b] assms(2) by auto
  show ?thesis
  proof (cases "1 < length us")
    case True
    with us b show ?thesis by (simp add: RefCountIsShared_def)
  next
    case False
    with b have "us = [b]" by (cases us; cases "tl us") auto
    with us assms(2) show ?thesis by (simp add: RefCountIsShared_def alone_def)
  qed
qed

lemma view_eq:
  assumes "store_ok st" "buffers st b = Some B"
  obtains block where "blocks st (data B) = Some block" "view st b = Some (mode B, take (used B) block, memory_cap B)"
    "used B \<le> length block" "length block \<le> capacity B" "NUL \<notin> set (take (used B) block)"
  by (rule store_okD [OF assms]) (rule that, assumption, simp add: view_def assms(2), assumption+)

lemma unshare_ok:
  assumes "store_ok st" "buffers st b = Some B"
  obtains st' B' where "unshare st b = Some (True, st')" "store_ok st'" "view st' = view st" "alone st' b"
    "buffers st' b = Some B'" "mode B' = mode B" "capacity B' = capacity B" "used B' = used B"
    "memory_cap B' = memory_cap B" "general_memory_cap st' = general_memory_cap st"
proof -
  obtain block where block: "blocks st (data B) = Some block" "view st b = Some (mode B, take (used B) block, memory_cap B)"
    "used B \<le> length block" "length block \<le> capacity B" "NUL \<notin> set (take (used B) block)"
    by (rule view_eq [OF assms]) (rule that; assumption)
  from shared_iff [OF assms] show ?thesis
  proof
    assume "RefCountIsShared st (ref_count B) = Some False \<and> alone st b"
    with assms show ?thesis by (intro that [of st B]) (simp_all add: unshare_def)
  next
    assume "\<exists>users. RefCountIsShared st (ref_count B) = Some True \<and> refs st (ref_count B) = Some users \<and>
      1 < length users \<and> b \<in> set users"
    then obtain users where u: "RefCountIsShared st (ref_count B) = Some True" "refs st (ref_count B) = Some users"
      "1 < length users" "b \<in> set users" by blast
    let ?text = "take (used B) block"
    let ?B = "B\<lparr>data := brk st + 1, ref_count := brk st, used := used B\<rparr>"
    let ?st = "st\<lparr>buffers := (buffers st)(b \<mapsto> ?B), blocks := (blocks st)(brk st + 1 \<mapsto> ?text),
      refs := (refs st)(ref_count B \<mapsto> remove1 b users, brk st \<mapsto> [b]), brk := brk st + 2\<rparr>"
    note low = store_ok_bounds [OF assms]
    have own: "store_ok ?st" "view ?st = (view st)(b \<mapsto> (mode B, take (used B) ?text, memory_cap B))" "alone ?st b"
      "buffers ?st b = Some ?B"
      using own_block [OF assms u(2,3), of ?text "used B" "brk st + 1" "brk st" "brk st + 2"] block low by simp_all
    have cut: "takeWhile (\<lambda>c. c \<noteq> NUL) ?text = ?text" using block(5) by (auto simp: takeWhile_eq_all_conv)
    have "ref_count B \<noteq> brk st" "length ?text = used B" using low block(3) by simp_all
    then have unshared: "unshare st b = Some (True, ?st)"
      using assms(2) u block(1)
      by (simp add: unshare_def RefCountNew_def RefCountAttach_def RefCountDetach_def new_block_def put_buffer_def
          Let_def cut fun_upd_twist [of "ref_count B" "brk st"])
    have "view ?st = view st" using own(2) block(2) by (simp add: fun_upd_idem)
    with own unshared show ?thesis by (intro that [of ?st ?B]) simp_all
  qed
qed


lemma bytes_in_facts: "NUL \<notin> set (bytes_in bytes n)" "length (bytes_in bytes n) \<le> n"
proof -
  show "NUL \<notin> set (bytes_in bytes n)" unfolding bytes_in_def by (auto dest: set_takeWhileD)
  show "length (bytes_in bytes n) \<le> n"
    unfolding bytes_in_def using length_takeWhile_le [of "\<lambda>c. c \<noteq> NUL" "take n bytes"] by simp
qed

lemma nul_shorter: "nul_in bytes n \<Longrightarrow> length (bytes_in bytes n) < n"
proof -
  assume "nul_in bytes n"
  then obtain xs ys where "take n bytes = xs @ NUL # ys" "NUL \<notin> set xs"
    unfolding nul_in_def by (meson split_list_first)
  then have "bytes_in bytes n = xs" "length xs < length (take n bytes)"
    by (auto simp: bytes_in_def takeWhile_append)
  then show ?thesis by simp
qed

lemma overwrite_facts:
  "pos \<le> length block \<Longrightarrow> length (overwrite block pos bytes) = max (length block) (pos + length bytes)"
  "pos \<le> length block \<Longrightarrow> take (pos + length bytes) (overwrite block pos bytes) = take pos block @ bytes"
  by (auto simp: overwrite_def)

lemma copy_bytes_ok:
  assumes "store_ok st" "alone st b" "buffers st b = Some B" "view st b = Some (m, old, c)"
    and "readable bytes n" "pos + n < cap" "pos \<le> length old" "capacity B \<le> cap" "pos + n < 2 ^ 31"
  shows "\<exists>st'. copy_bytes (put_buffer st b (B\<lparr>capacity := cap, used := u\<rparr>)) b pos bytes n =
      Some (int (pos + length (bytes_in bytes n)), st') \<and> store_ok st' \<and>
    view st' = (view st)(b \<mapsto> (if nul_in bytes n then BUFFER_BEHAVIOR_CSTRING else m,
      take pos old @ bytes_in bytes n, c)) \<and> general_memory_cap st' = general_memory_cap st"
proof -
  obtain block where block: "blocks st (data B) = Some block" "view st b = Some (mode B, take (used B) block, memory_cap B)"
    "used B \<le> length block" "length block \<le> capacity B" "NUL \<notin> set (take (used B) block)"
    by (rule view_eq [OF assms(1,3)]) (rule that; assumption)
  have v: "m = mode B" "old = take (used B) block" "c = memory_cap B" using block(2) assms(4) by auto
  let ?text = "bytes_in bytes n"
  let ?m = "if nul_in bytes n then BUFFER_BEHAVIOR_CSTRING else mode B"
  let ?nul = "if nul_in bytes n \<or> ?m = BUFFER_BEHAVIOR_CSTRING then [NUL] else []"
  let ?block = "overwrite block pos (?text @ ?nul)"
  let ?B = "B\<lparr>capacity := cap, mode := ?m, used := pos + length ?text\<rparr>"
  have len: "pos \<le> length block" "pos \<le> used B" "length ?text \<le> n" using assms(7) v(2) block(3) bytes_in_facts(2) by auto
  have cut: "take (pos + length ?text) ?block = take pos old @ ?text"
    using len v(2) by (simp add: overwrite_def min_def)
  have 1: "copy_bytes (put_buffer st b (B\<lparr>capacity := cap, used := u\<rparr>)) b pos bytes n =
      Some (int (pos + length ?text), put_block (put_buffer st b ?B) (data B) ?block)"
    using block(1) assms(5,6) len by (auto simp: copy_bytes_def put_buffer_def Let_def)
  have "NUL \<notin> set (take pos old @ ?text)" 
    using block(5) set_take_subset [of pos old] bytes_in_facts(1) [of bytes n] unfolding v(2) set_append by blast
  then have 2: "store_ok (put_block (put_buffer st b ?B) (data B) ?block)"
    "view (put_block (put_buffer st b ?B) (data B) ?block) = (view st)(b \<mapsto> (?m, take pos old @ ?text, memory_cap B))"
    using update_alone [OF assms(1-3), of ?B ?block] assms(6,8,9) len block(3,4) store_ok_bounds [OF assms(1,3)] cut
    by (simp_all add: overwrite_facts(1))
  have "general_memory_cap (put_block (put_buffer st b ?B) (data B) ?block) = general_memory_cap st"
    by (simp add: put_block_def put_buffer_def)
  with 1 2 v show ?thesis by auto
qed

lemma copy_bytes_same:
  "buffers st b = Some B \<Longrightarrow> copy_bytes st b pos bytes n = copy_bytes (put_buffer st b (B\<lparr>capacity := capacity B, used := used B\<rparr>)) b pos bytes n"
  by (simp add: put_buffer_def fun_upd_idem)

lemma required_capacity_larger:
  assumes "n < 2 ^ 31"
  shows "n < required_capacity n"
proof -
  have "n div 4096 + 1 < 2 ^ 20" "(n div 4096 + 1) * 4096 \<le> 2 ^ 31" using assms by auto
  then have "required_capacity n = (n div 4096 + 1) * 4096"
    by (simp add: required_capacity_def u32_def DEFAULT_BUFFER_SIZE_def)
  moreover have "n < (n div 4096 + 1) * 4096" by (simp add: dividend_less_times_div)
  ultimately show ?thesis by simp
qed

definition text_of :: "string \<Rightarrow> nat \<Rightarrow> BufferBehavior \<Rightarrow> BufferBehavior" where
  "text_of bytes n m = (if nul_in bytes n then BUFFER_BEHAVIOR_CSTRING else m)"

lemma BufferSet_ok:
  assumes "store_ok st" "view st b = Some (m, old, c)" "readable bytes n" "n < 2 ^ 31"
  shows "\<exists>r st'. BufferSet st b bytes n = Some (r, st') \<and> store_ok st' \<and> general_memory_cap st' = general_memory_cap st \<and>
    (if n > c then r = - 1 \<and> view st' = view st
     else r = int (length (bytes_in bytes n)) \<and> view st' = (view st)(b \<mapsto> (text_of bytes n m, bytes_in bytes n, c)))"
proof -
  obtain B where B: "buffers st b = Some B" "memory_cap B = c" using assms(2) by (auto simp: view_def)
  show ?thesis
  proof (cases "n > c")
    case True
    with assms(1) B show ?thesis by (simp add: BufferSet_def)
  next
    case False
    obtain st1 B1 where u: "unshare st b = Some (True, st1)" "store_ok st1" "view st1 = view st" "alone st1 b"
      "buffers st1 b = Some B1" "mode B1 = mode B" "capacity B1 = capacity B" "used B1 = used B"
      "memory_cap B1 = memory_cap B" "general_memory_cap st1 = general_memory_cap st"
      by (rule unshare_ok [OF assms(1) B(1)]) (rule that; assumption)
    have v: "view st1 b = Some (m, old, c)" using u(3) assms(2) by simp
    show ?thesis
    proof (cases "n \<ge> capacity B1")
      case True
      with copy_bytes_ok [OF u(2,4,5) v assms(3), of 0 "required_capacity n" 0] assms(4) required_capacity_larger [OF assms(4)]
      show ?thesis using False B u by (auto simp: BufferSet_def text_of_def)
    next
      case no: False
      with copy_bytes_ok [OF u(2,4,5) v assms(3), of 0 "capacity B1" "used B1"] assms(4) copy_bytes_same [OF u(5)]
      show ?thesis using False B u by (auto simp: BufferSet_def text_of_def)
    qed
  qed
qed

lemma BufferAppend_ok:
  assumes "store_ok st" "view st b = Some (m, old, c)" "readable bytes n" "n < 2 ^ 31"
  shows "\<exists>r st'. BufferAppend st b bytes n = Some (r, st') \<and> store_ok st' \<and> general_memory_cap st' = general_memory_cap st \<and>
    (if n + length old > c then r = - 1 \<and> view st' = view st
     else r = int (length (old @ bytes_in bytes n)) \<and>
       view st' = (view st)(b \<mapsto> (text_of bytes n m, old @ bytes_in bytes n, c)))"
proof -
  obtain B where B: "buffers st b = Some B" using assms(2) by (auto simp: view_def)
  obtain block where block: "blocks st (data B) = Some block" "view st b = Some (mode B, take (used B) block, memory_cap B)"
    "used B \<le> length block" "length block \<le> capacity B" "NUL \<notin> set (take (used B) block)"
    by (rule view_eq [OF assms(1) B]) (rule that; assumption)
  have len: "length old = used B" "memory_cap B = c" using block(2,3) assms(2) by auto
  have bound: "used B < 2 ^ 31" "c < 2 ^ 31" using store_ok_bounds [OF assms(1) B] len by simp_all
  have wrap: "u32 (n + used B) = n + used B" "u32 (used B + n) = used B + n"
    using bound assms(4) by (simp_all add: u32_def)
  show ?thesis
  proof (cases "n + length old > c")
    case True
    with assms(1) B len wrap show ?thesis by (simp add: BufferAppend_def)
  next
    case False
    obtain st1 B1 where u: "unshare st b = Some (True, st1)" "store_ok st1" "view st1 = view st" "alone st1 b"
      "buffers st1 b = Some B1" "mode B1 = mode B" "capacity B1 = capacity B" "used B1 = used B"
      "memory_cap B1 = memory_cap B" "general_memory_cap st1 = general_memory_cap st"
      by (rule unshare_ok [OF assms(1) B(1)]) (rule that; assumption)
    have v: "view st1 b = Some (m, old, c)" using u(3) assms(2) by simp
    have same: "B1\<lparr>capacity := k, used := used B\<rparr> = B1\<lparr>capacity := k\<rparr>" for k
      using u(8) by (cases B1) simp
    have small: "used B1 + n < 2 ^ 31" using False len bound u(8) by simp
    show ?thesis
    proof (cases "used B1 + n \<ge> capacity B1")
      case True
      with copy_bytes_ok [OF u(2,4,5) v assms(3), of "used B1" "required_capacity (used B1 + n)" "used B1"] small len u(8)
        required_capacity_larger [OF small]
      show ?thesis using False B u wrap by (auto simp: BufferAppend_def text_of_def same)
    next
      case no: False
      with copy_bytes_ok [OF u(2,4,5) v assms(3), of "used B1" "capacity B1" "used B1"] small len u(8) copy_bytes_same [OF u(5)]
      show ?thesis using False B u wrap by (auto simp: BufferAppend_def text_of_def)
    qed
  qed
qed


lemma BufferPrintf_ok:
  assumes "store_ok st" "view st b = Some (m, old, c)" "NUL \<notin> set out" "length out < 2 ^ 31"
  shows "\<exists>r st'. BufferPrintf st b out = Some (r, st') \<and> store_ok st' \<and> general_memory_cap st' = general_memory_cap st \<and>
    (r = int (length out) \<and> view st' = (view st)(b \<mapsto> (m, out, c)) \<or>
     c < length out \<and> r = - 1 \<and> view st' = (view st)(b \<mapsto> (m, take (length old) out, c)))"
proof -
  obtain B where B: "buffers st b = Some B" using assms(2) by (auto simp: view_def)
  obtain st1 B1 where u: "unshare st b = Some (True, st1)" "store_ok st1" "view st1 = view st" "alone st1 b"
    "buffers st1 b = Some B1" "mode B1 = mode B" "capacity B1 = capacity B" "used B1 = used B"
    "memory_cap B1 = memory_cap B" "general_memory_cap st1 = general_memory_cap st"
    by (rule unshare_ok [OF assms(1) B(1)]) (rule that; assumption)
  obtain block where block: "blocks st1 (data B1) = Some block" "view st1 b = Some (mode B1, take (used B1) block, memory_cap B1)"
    "used B1 \<le> length block" "length block \<le> capacity B1" "NUL \<notin> set (take (used B1) block)"
    by (rule view_eq [OF u(2,5)]) (rule that; assumption)
  have v: "m = mode B1" "length old = used B1" "c = memory_cap B1" using block(2,3) u(3) assms(2) by auto
  note low = store_ok_bounds [OF u(2,5)]
  let ?cut = "take (capacity B1 - 1) out @ [NUL]"
  let ?block = "overwrite block 0 ?cut"
  let ?st2 = "put_block st1 (data B1) ?block"
  have shown: "take n ?block = take n out" if "n < capacity B1" "n \<le> length out" for n
    using that by (simp add: overwrite_def)
  have length_block: "length ?block \<le> capacity B1" "length ?block \<ge> Suc (min (capacity B1 - 1) (length out))"
    using block(4) low(1) by (auto simp: overwrite_def)
  have gcap: "general_memory_cap (put_block (put_buffer st1 b X) a Y) = general_memory_cap st" for X a Y
    using u(10) by (simp add: put_block_def put_buffer_def)
  have put: "put_buffer (put_block st1 a Y) b X = put_block (put_buffer st1 b X) a Y" for X a Y
    by (simp add: put_block_def put_buffer_def)
  show ?thesis
  proof (cases "length out < capacity B1")
    case True
    let ?B = "B1\<lparr>used := length out\<rparr>"
    have "BufferPrintf st b out = Some (int (length out), put_block (put_buffer st1 b ?B) (data B1) ?block)"
      using True u(1,5) block(1) by (simp add: BufferPrintf_def Let_def put)
    moreover have "store_ok (put_block (put_buffer st1 b ?B) (data B1) ?block)"
      "view (put_block (put_buffer st1 b ?B) (data B1) ?block) = (view st1)(b \<mapsto> (mode ?B, take (length out) ?block, memory_cap ?B))"
      using update_alone [OF u(2,4,5), of ?B ?block] True shown [OF True] assms(3,4) low length_block by auto
    ultimately show ?thesis using shown [OF True] u(3) v gcap by auto
  next
    case False
    show ?thesis
    proof (cases "length out > memory_cap B1")
      case True
      have "BufferPrintf st b out = Some (- 1, put_block (put_buffer st1 b B1) (data B1) ?block)"
        using True False u(1,5) block(1) by (simp add: BufferPrintf_def Let_def put_buffer_def put_block_def fun_upd_idem)
      moreover have t: "take (used B1) ?block = take (used B1) out" using shown [of "used B1"] False low(1) by simp
      moreover have "NUL \<notin> set (take (used B1) out)" using assms(3) by (auto dest: in_set_takeD)
      moreover have "store_ok (put_block (put_buffer st1 b B1) (data B1) ?block)"
        "view (put_block (put_buffer st1 b B1) (data B1) ?block) = (view st1)(b \<mapsto> (mode B1, take (used B1) ?block, memory_cap B1))"
        using update_alone [OF u(2,4,5), of B1 ?block] calculation False low length_block by auto
      ultimately show ?thesis using True u(3) v gcap by auto
    next
      case le: False
      let ?B = "B1\<lparr>capacity := required_capacity (length out), used := length out\<rparr>"
      note larger = required_capacity_larger [OF assms(4)]
      have "BufferPrintf st b out = Some (int (length out), put_block (put_buffer st1 b ?B) (data B1) (out @ [NUL]))"
        using le False u(1,5) block(1) larger
        by (simp add: BufferPrintf_def Let_def put_buffer_def put_block_def)
      moreover have "store_ok (put_block (put_buffer st1 b ?B) (data B1) (out @ [NUL]))"
        "view (put_block (put_buffer st1 b ?B) (data B1) (out @ [NUL])) = (view st1)(b \<mapsto> (mode ?B, take (length out) (out @ [NUL]), memory_cap ?B))"
        using update_alone [OF u(2,4,5), of ?B "out @ [NUL]"] larger assms(3,4) low by auto
      ultimately show ?thesis using u(3) v gcap by auto
    qed
  qed
qed

lemma BufferZero_ok:
  assumes "store_ok st" "view st b = Some (m, old, c)"
  shows "\<exists>st'. BufferZero st b = Some st' \<and> store_ok st' \<and> general_memory_cap st' = general_memory_cap st \<and>
    view st' = (view st)(b \<mapsto> (m, [], c))"
proof -
  obtain B where B: "buffers st b = Some B" using assms(2) by (auto simp: view_def)
  obtain block where block: "blocks st (data B) = Some block" "view st b = Some (mode B, take (used B) block, memory_cap B)"
    "used B \<le> length block" "length block \<le> capacity B" "NUL \<notin> set (take (used B) block)"
    by (rule view_eq [OF assms(1) B]) (rule that; assumption)
  have v: "m = mode B" "c = memory_cap B" using block(2) assms(2) by auto
  note low = store_ok_bounds [OF assms(1) B]
  from shared_iff [OF assms(1) B] show ?thesis
  proof
    assume alone: "RefCountIsShared st (ref_count B) = Some False \<and> alone st b"
    let ?B = "B\<lparr>used := 0\<rparr>" and ?block = "overwrite block 0 [NUL]"
    have "BufferZero st b = Some (put_block (put_buffer st b ?B) (data B) ?block)"
      using alone B block(1) by (simp add: BufferZero_def)
    moreover have "store_ok (put_block (put_buffer st b ?B) (data B) ?block)"
      "view (put_block (put_buffer st b ?B) (data B) ?block) = (view st)(b \<mapsto> (mode ?B, take 0 ?block, memory_cap ?B))"
      using update_alone [OF assms(1) _ B, of ?B ?block] alone low block(4) by (auto simp: overwrite_def)
    ultimately show ?thesis using v by (simp add: put_block_def put_buffer_def)
  next
    assume "\<exists>users. RefCountIsShared st (ref_count B) = Some True \<and> refs st (ref_count B) = Some users \<and>
      1 < length users \<and> b \<in> set users"
    then obtain users where u: "RefCountIsShared st (ref_count B) = Some True" "refs st (ref_count B) = Some users"
      "1 < length users" "b \<in> set users" by blast
    let ?B = "B\<lparr>data := brk st, ref_count := brk st + 1, used := 0\<rparr>"
    let ?st = "st\<lparr>buffers := (buffers st)(b \<mapsto> ?B), blocks := (blocks st)(brk st \<mapsto> [NUL]),
      refs := (refs st)(ref_count B \<mapsto> remove1 b users, brk st + 1 \<mapsto> [b]), brk := brk st + 2\<rparr>"
    have "store_ok ?st" "view ?st = (view st)(b \<mapsto> (mode B, take 0 [NUL], memory_cap B))"
      using own_block [OF assms(1) B u(2,3), of "[NUL]" 0 "brk st" "brk st + 1" "brk st + 2"] low by simp_all
    moreover have "BufferZero st b = Some ?st"
      using B u low
      by (simp add: BufferZero_def RefCountNew_def RefCountAttach_def RefCountDetach_def new_block_def put_buffer_def Let_def)
    ultimately show ?thesis using v by simp
  qed
qed


lemma buffer_ok_obtain:
  assumes "store_ok st" "buffers st c = Some C"
  shows "\<exists>block users. blocks st (data C) = Some block \<and> refs st (ref_count C) = Some users \<and> distinct users \<and>
    (\<forall>b'. b' \<in> set users \<longleftrightarrow> (\<exists>B'. buffers st b' = Some B' \<and> ref_count B' = ref_count C)) \<and>
    used C \<le> length block \<and> length block \<le> capacity C \<and> NUL \<notin> set (take (used C) block)"
  using assms unfolding store_ok_def buffer_ok_def by blast

text \<open>A buffer whose block and count are there keeps its view.\<close>

lemma buffer_ok_transfer:
  assumes "store_ok st" "buffers st c = Some C" "blocks st' (data C) = blocks st (data C)" "brk st \<le> brk st'"
    and "refs st' (ref_count C) = Some users" "distinct users"
    and "\<And>b'. b' \<in> set users \<longleftrightarrow> (\<exists>B'. buffers st' b' = Some B' \<and> ref_count B' = ref_count C)"
  shows "buffer_ok st' c C"
  using buffer_ok_obtain [OF assms(1,2)] store_ok_bounds [OF assms(1,2)] assms(3-7)
  unfolding buffer_ok_def by auto

lemma store_okI:
  assumes "\<And>c C. buffers st c = Some C \<Longrightarrow> buffer_ok st c C" "general_memory_cap st < 2 ^ 31"
    and "\<And>c C d D. buffers st c = Some C \<Longrightarrow> buffers st d = Some D \<Longrightarrow> data C = data D \<longleftrightarrow> ref_count C = ref_count D"
  shows "store_ok st"
  using assms unfolding store_ok_def by blast

lemma create_buffer_ok:
  assumes "store_ok st" "buffers st b = None" "NUL \<notin> set t" "length t < cap" "length t < 2 ^ 31"
  shows "\<exists>st'. create_buffer st b (t @ [NUL]) cap (length t) = Some st' \<and> store_ok st' \<and>
    general_memory_cap st' = general_memory_cap st \<and>
    view st' = (view st)(b \<mapsto> (BUFFER_BEHAVIOR_CSTRING, t, general_memory_cap st))"
proof -
  let ?B = "\<lparr>data = brk st, mode = BUFFER_BEHAVIOR_CSTRING, capacity = cap, used = length t,
    memory_cap = general_memory_cap st, ref_count = brk st + 1\<rparr>"
  let ?st = "st\<lparr>buffers := (buffers st)(b \<mapsto> ?B), blocks := (blocks st)(brk st \<mapsto> t @ [NUL]),
    refs := (refs st)(brk st + 1 \<mapsto> [b]), brk := brk st + 2\<rparr>"
  have created: "create_buffer st b (t @ [NUL]) cap (length t) = Some ?st"
    by (simp add: create_buffer_def new_block_def RefCountNew_def RefCountAttach_def put_buffer_def)
  have old: "data C \<noteq> brk st \<and> ref_count C \<noteq> brk st + 1 \<and> ref_count C < brk st" if "buffers st c = Some C" for c C
    using store_ok_bounds(4,5) [OF assms(1) that] by auto
  have gcap: "general_memory_cap st < 2 ^ 31" using assms(1) by (simp add: store_ok_def)
  have "store_ok ?st"
  proof (rule store_okI)
    fix c C assume c: "buffers ?st c = Some C"
    show "buffer_ok ?st c C"
    proof (cases "c = b")
      case True
      with c have C: "C = ?B" by simp
      have "b' \<in> set [b] \<longleftrightarrow> (\<exists>B'. buffers ?st b' = Some B' \<and> ref_count B' = ref_count ?B)" for b'
        using old [of b'] by auto
      then show ?thesis unfolding C buffer_ok_def
        by (intro conjI exI [of _ "t @ [NUL]"] exI [of _ "[b]"]) (use assms(3-5) gcap in auto)
    next
      case False
      with c have c': "buffers st c = Some C" by simp
      obtain us where us: "refs st (ref_count C) = Some us" "distinct us"
        "\<And>b'. b' \<in> set us \<longleftrightarrow> (\<exists>B'. buffers st b' = Some B' \<and> ref_count B' = ref_count C)"
        using buffer_ok_obtain [OF assms(1) c'] by blast
      show ?thesis
      proof (rule buffer_ok_transfer [OF assms(1) c', of _ us])
        show "b' \<in> set us \<longleftrightarrow> (\<exists>B'. buffers ?st b' = Some B' \<and> ref_count B' = ref_count C)" for b'
          using us(3) [of b'] assms(2) old [OF c'] by auto
      qed (use us old [OF c'] in simp_all)
    qed
  next
    fix c C d D assume "buffers ?st c = Some C" "buffers ?st d = Some D"
    then show "data C = data D \<longleftrightarrow> ref_count C = ref_count D"
      using store_ok_share [OF assms(1), of c C d D] old [of c C] old [of d D]
      by (cases "c = b"; cases "d = b") auto
  qed (use gcap in simp)
  moreover have "view ?st = (view st)(b \<mapsto> (BUFFER_BEHAVIOR_CSTRING, t, general_memory_cap st))"
  proof
    fix c
    show "view ?st c = ((view st)(b \<mapsto> (BUFFER_BEHAVIOR_CSTRING, t, general_memory_cap st))) c"
      using old [of c] by (cases "buffers st c") (auto simp: view_def)
  qed
  ultimately show ?thesis using created by simp
qed

lemma BufferCopy_ok:
  assumes "store_ok st" "view st src = Some v" "buffers st dst = None"
  shows "\<exists>st'. BufferCopy st src dst = Some (0, st') \<and> store_ok st' \<and> general_memory_cap st' = general_memory_cap st \<and>
    view st' = (view st)(dst \<mapsto> v)"
proof -
  obtain B where B: "buffers st src = Some B" using assms(2) by (auto simp: view_def)
  obtain users where u: "refs st (ref_count B) = Some users" "distinct users"
    "\<And>b'. b' \<in> set users \<longleftrightarrow> (\<exists>B'. buffers st b' = Some B' \<and> ref_count B' = ref_count B)"
    using buffer_ok_obtain [OF assms(1) B] by blast
  have fresh: "dst \<notin> set users" "src \<noteq> dst" using u(3) [of dst] assms(3) B by auto
  let ?st = "st\<lparr>buffers := (buffers st)(dst \<mapsto> B), refs := (refs st)(ref_count B \<mapsto> users @ [dst])\<rparr>"
  have "store_ok ?st"
  proof (rule store_okI)
    fix c C assume c: "buffers ?st c = Some C"
    then obtain c' where c': "buffers st c' = Some C" "c = c' \<or> c = dst" using B by (auto split: if_splits)
    obtain us where us: "refs st (ref_count C) = Some us" "distinct us"
      "\<And>b'. b' \<in> set us \<longleftrightarrow> (\<exists>B'. buffers st b' = Some B' \<and> ref_count B' = ref_count C)"
      using buffer_ok_obtain [OF assms(1) c'(1)] by blast
    let ?us = "if ref_count C = ref_count B then users @ [dst] else us"
    have "buffer_ok ?st c' C"
    proof (rule buffer_ok_transfer [OF assms(1) c'(1), of _ ?us])
      show "b' \<in> set ?us \<longleftrightarrow> (\<exists>B'. buffers ?st b' = Some B' \<and> ref_count B' = ref_count C)" for b'
        using us(3) [of b'] u(3) [of b'] assms(3) by auto
    qed (use us u fresh in auto)
    then show "buffer_ok ?st c C" using c' by (auto simp: buffer_ok_def)
  next
    fix c C d D assume "buffers ?st c = Some C" "buffers ?st d = Some D"
    then obtain c' d' where "buffers st c' = Some C" "buffers st d' = Some D" using B by (auto split: if_splits)
    then show "data C = data D \<longleftrightarrow> ref_count C = ref_count D" by (rule store_ok_share [OF assms(1)])
  qed (use assms(1) in \<open>simp add: store_ok_def\<close>)
  moreover have "view ?st = (view st)(dst \<mapsto> v)"
    using assms(2) B by (auto simp: view_def fun_eq_iff)
  moreover have "BufferCopy st src dst = Some (0, ?st)"
    using B u(1) fresh by (simp add: BufferCopy_def RefCountAttach_def put_buffer_def)
  ultimately show ?thesis by simp
qed

lemma BufferDestroy_ok:
  assumes "store_ok st" "view st b = Some v"
  shows "\<exists>st'. BufferDestroy st b = Some (0, st') \<and> store_ok st' \<and> general_memory_cap st' = general_memory_cap st \<and>
    view st' = (view st)(b := None)"
proof -
  obtain B where B: "buffers st b = Some B" using assms(2) by (auto simp: view_def)
  obtain users where u: "refs st (ref_count B) = Some users" "distinct users"
    "\<And>b'. b' \<in> set users \<longleftrightarrow> (\<exists>B'. buffers st b' = Some B' \<and> ref_count B' = ref_count B)"
    using buffer_ok_obtain [OF assms(1) B] by blast
  have b: "b \<in> set users" using u(3) B by blast
  let ?single = "users = [b]"
  let ?st = "st\<lparr>buffers := (buffers st)(b := None), blocks := (if ?single then (blocks st)(data B := None) else blocks st),
    refs := (if ?single then (refs st)(ref_count B := None) else (refs st)(ref_count B \<mapsto> remove1 b users))\<rparr>"
  have only: "ref_count C \<noteq> ref_count B \<and> data C \<noteq> data B" if "?single" "buffers st c = Some C" "c \<noteq> b" for c C
    using that u(3) [of c] store_ok_share [OF assms(1) that(2) B] by auto
  have "store_ok ?st"
  proof (rule store_okI)
    fix c C assume "buffers ?st c = Some C"
    then have c: "buffers st c = Some C" "c \<noteq> b" by (auto split: if_splits)
    obtain us where us: "refs st (ref_count C) = Some us" "distinct us"
      "\<And>b'. b' \<in> set us \<longleftrightarrow> (\<exists>B'. buffers st b' = Some B' \<and> ref_count B' = ref_count C)"
      using buffer_ok_obtain [OF assms(1) c(1)] by blast
    let ?us = "if ref_count C = ref_count B then remove1 b users else us"
    show "buffer_ok ?st c C"
    proof (rule buffer_ok_transfer [OF assms(1) c(1), of _ ?us])
      show "b' \<in> set ?us \<longleftrightarrow> (\<exists>B'. buffers ?st b' = Some B' \<and> ref_count B' = ref_count C)" for b'
        using us(3) [of b'] u(2) u(3) [of b'] B by auto
      show "refs ?st (ref_count C) = Some ?us" using us(1) only [OF _ c] by (cases ?single) auto
      show "blocks ?st (data C) = blocks st (data C)" using only [OF _ c] by (cases ?single) auto
    qed (use us u in simp_all)
  next
    fix c C d D assume "buffers ?st c = Some C" "buffers ?st d = Some D"
    then show "data C = data D \<longleftrightarrow> ref_count C = ref_count D"
      using store_ok_share [OF assms(1), of c C d D] by (auto split: if_splits)
  qed (use assms(1) in \<open>simp add: store_ok_def\<close>)
  moreover have "view ?st = (view st)(b := None)"
  proof
    fix c
    show "view ?st c = ((view st)(b := None)) c"
      using only [of c] by (cases "buffers st c") (auto simp: view_def)
  qed
  moreover have "BufferDestroy st b = Some (0, ?st)"
  proof (cases ?single)
    case True
    with B u(1) show ?thesis
      by (simp add: BufferDestroy_def RefCountIsShared_def RefCountDestroy_def)
  next
    case False
    with b have "1 < length users" by (cases users; cases "tl users") auto
    with False B u(1) b show ?thesis
      by (simp add: BufferDestroy_def RefCountIsShared_def RefCountDetach_def)
  qed
  ultimately show ?thesis by auto
qed


lemma readable_takeWhile: "NUL \<notin> set xs \<Longrightarrow> takeWhile (\<lambda>c. c \<noteq> NUL) xs = xs"
  by (induction xs) auto

lemma put_same: "buffers st b = Some B \<Longrightarrow> blocks st (data B) = Some block \<Longrightarrow>
    put_block (put_buffer st b B') (data B) block = put_buffer st b B'"
  by (simp add: put_block_def put_buffer_def fun_upd_idem)

text \<open>What a buffer says of itself can change while others share its block.\<close>

lemma update_labels:
  assumes "store_ok st" "buffers st b = Some B" "data B' = data B" "ref_count B' = ref_count B" "used B' = used B"
    and "capacity B' = capacity B" "memory_cap B' < 2 ^ 31"
  shows "store_ok (put_buffer st b B')" "view (put_buffer st b B') = (view st)(b \<mapsto> (mode B', take (used B) (the (blocks st (data B))), memory_cap B'))"
proof -
  let ?st = "put_buffer st b B'"
  have same: "(\<exists>C. buffers ?st c = Some C \<and> ref_count C = r) \<longleftrightarrow> (\<exists>C. buffers st c = Some C \<and> ref_count C = r)" for c r
    using assms(2,4) by (simp add: put_buffer_def)
  show "store_ok ?st"
  proof (rule store_okI)
    fix c C assume "buffers ?st c = Some C"
    then obtain D where D: "buffers st c = Some D" "data C = data D" "ref_count C = ref_count D" "used C = used D"
      "capacity C = capacity D" "memory_cap C < 2 ^ 31"
      using assms(2-7) store_ok_bounds(3) [OF assms(1)] by (cases "c = b") (auto simp: put_buffer_def)
    have ok: "buffer_ok st c D" using assms(1) D(1) by (simp add: store_ok_def)
    then show "buffer_ok ?st c C"
      unfolding buffer_ok_def same D(2-5) using D(6) by (simp add: put_buffer_def)
  next
    fix c C d D assume "buffers ?st c = Some C" "buffers ?st d = Some D"
    then obtain C' D' where "buffers st c = Some C'" "buffers st d = Some D'" "data C = data C'" "data D = data D'"
      "ref_count C = ref_count C'" "ref_count D = ref_count D'"
      using assms(2-4) by (cases "c = b"; cases "d = b") (auto simp: put_buffer_def)
    then show "data C = data D \<longleftrightarrow> ref_count C = ref_count D" using store_ok_share [OF assms(1)] by simp
  qed (use assms(1) in \<open>simp add: store_ok_def put_buffer_def\<close>)
  show "view ?st = (view st)(b \<mapsto> (mode B', take (used B) (the (blocks st (data B))), memory_cap B'))"
    using assms(3,5) by (auto simp: view_def put_buffer_def fun_eq_iff)
qed

lemma BufferSetMode_ok:
  assumes "store_ok st" "view st b = Some (m, old, c)"
  shows "\<exists>st'. BufferSetMode st b m' = Some st' \<and> store_ok st' \<and> general_memory_cap st' = general_memory_cap st \<and>
    view st' = (view st)(b \<mapsto> (m', old, c))"
proof -
  obtain B where B: "buffers st b = Some B" using assms(2) by (auto simp: view_def)
  obtain block where block: "blocks st (data B) = Some block" "view st b = Some (mode B, take (used B) block, memory_cap B)"
    "used B \<le> length block" "length block \<le> capacity B" "NUL \<notin> set (take (used B) block)"
    by (rule view_eq [OF assms(1) B]) (rule that; assumption)
  have "length (bytes_in block (used B)) = used B"
    using block(3) by (simp add: bytes_in_def readable_takeWhile [OF block(5)] del: takeWhile_eq_all_conv)
  then have "BufferSetMode st b m' = Some (put_buffer st b (B\<lparr>mode := m', used := used B\<rparr>))"
    using B block(1) by (simp add: BufferSetMode_def)
  moreover have "store_ok (put_buffer st b (B\<lparr>mode := m', used := used B\<rparr>))"
    "view (put_buffer st b (B\<lparr>mode := m', used := used B\<rparr>)) = (view st)(b \<mapsto> (m', old, c))"
    using update_labels [OF assms(1) B, of "B\<lparr>mode := m', used := used B\<rparr>"] store_ok_bounds(3) [OF assms(1) B]
      block(1,2) assms(2) by auto
  ultimately show ?thesis by (simp add: put_buffer_def)
qed

lemma BufferSetMemoryCap_ok:
  assumes "store_ok st" "view st b = Some (m, old, c)" "c' < 2 ^ 31"
  shows "\<exists>st'. BufferSetMemoryCap st b c' = Some st' \<and> store_ok st' \<and> general_memory_cap st' = general_memory_cap st \<and>
    view st' = (view st)(b \<mapsto> (m, old, if c' = 0 then c else c'))"
proof -
  obtain B where B: "buffers st b = Some B" using assms(2) by (auto simp: view_def)
  show ?thesis
  proof (cases "c' = 0")
    case True
    with B assms(1,2) show ?thesis by (simp add: BufferSetMemoryCap_def fun_upd_idem)
  next
    case False
    moreover have "store_ok (put_buffer st b (B\<lparr>memory_cap := c'\<rparr>))"
      "view (put_buffer st b (B\<lparr>memory_cap := c'\<rparr>)) = (view st)(b \<mapsto> (m, old, c'))"
      using update_labels [OF assms(1) B, of "B\<lparr>memory_cap := c'\<rparr>"] assms(2,3) B by (auto simp: view_def)
    ultimately show ?thesis using B by (simp add: BufferSetMemoryCap_def put_buffer_def)
  qed
qed

lemma BufferNew_ok:
  assumes "store_ok st" "buffers st b = None"
  shows "\<exists>st'. BufferNew st b = Some st' \<and> store_ok st' \<and> general_memory_cap st' = general_memory_cap st \<and>
    view st' = (view st)(b \<mapsto> (BUFFER_BEHAVIOR_CSTRING, [], general_memory_cap st))"
  using create_buffer_ok [OF assms, of "[]" DEFAULT_BUFFER_SIZE] by (simp add: BufferNew_def DEFAULT_BUFFER_SIZE_def)

lemma BufferNewFrom_ok:
  assumes "store_ok st" "buffers st b = None" "readable bytes n" "n < 2 ^ 31"
  shows "\<exists>st'. BufferNewFrom st b bytes n = Some (n \<le> general_memory_cap st, st') \<and> store_ok st' \<and>
    general_memory_cap st' = general_memory_cap st \<and>
    view st' = (if n \<le> general_memory_cap st then (view st)(b \<mapsto> (BUFFER_BEHAVIOR_CSTRING, bytes_in bytes n, general_memory_cap st))
                else view st)"
proof (cases "n \<le> general_memory_cap st")
  case True
  let ?cap = "if n \<ge> DEFAULT_BUFFER_SIZE then required_capacity n else DEFAULT_BUFFER_SIZE"
  have "length (bytes_in bytes n) < ?cap" "length (bytes_in bytes n) < 2 ^ 31"
    using bytes_in_facts(2) [of bytes n] required_capacity_larger [OF assms(4)] assms(4) by auto
  with create_buffer_ok [OF assms(1,2) bytes_in_facts(1), of bytes n ?cap] True assms(3)
  show ?thesis by (auto simp: BufferNewFrom_def Let_def)
next
  case False
  then show ?thesis using assms(1) by (simp add: BufferNewFrom_def)
qed

section \<open>Buffers as values\<close>

datatype buffer_op =
    New nat
  | NewFrom nat string nat
  | Destroy nat
  | Copy nat nat
  | Assign nat string nat
  | Append nat string nat
  | Printf nat string
  | Zero nat
  | SetMode nat BufferBehavior
  | SetCap nat nat

fun run_op :: "BufferStore \<Rightarrow> buffer_op \<Rightarrow> (int \<times> BufferStore) option" where
  "run_op st (New b) = map_option (Pair 0) (BufferNew st b)"
| "run_op st (NewFrom b bytes n) = map_option (\<lambda>(ok, st'). (if ok then 0 else - 1, st')) (BufferNewFrom st b bytes n)"
| "run_op st (Destroy b) = BufferDestroy st b"
| "run_op st (Copy src dst) = BufferCopy st src dst"
| "run_op st (Assign b bytes n) = BufferSet st b bytes n"
| "run_op st (Append b bytes n) = BufferAppend st b bytes n"
| "run_op st (Printf b out) = BufferPrintf st b out"
| "run_op st (Zero b) = map_option (Pair 0) (BufferZero st b)"
| "run_op st (SetMode b m) = map_option (Pair 0) (BufferSetMode st b m)"
| "run_op st (SetCap b c) = map_option (Pair 0) (BufferSetMemoryCap st b c)"

text \<open>What a caller has to keep to: buffers that exist, addresses that are free, bytes that can be read, lengths below \<open>2^31\<close>.\<close>

fun op_ok :: "(nat \<Rightarrow> text_view option) \<Rightarrow> buffer_op \<Rightarrow> bool" where
  "op_ok vs (New b) \<longleftrightarrow> vs b = None"
| "op_ok vs (NewFrom b bytes n) \<longleftrightarrow> vs b = None \<and> readable bytes n \<and> n < 2 ^ 31"
| "op_ok vs (Destroy b) \<longleftrightarrow> vs b \<noteq> None"
| "op_ok vs (Copy src dst) \<longleftrightarrow> vs src \<noteq> None \<and> vs dst = None"
| "op_ok vs (Assign b bytes n) \<longleftrightarrow> vs b \<noteq> None \<and> readable bytes n \<and> n < 2 ^ 31"
| "op_ok vs (Append b bytes n) \<longleftrightarrow> vs b \<noteq> None \<and> readable bytes n \<and> n < 2 ^ 31"
| "op_ok vs (Printf b out) \<longleftrightarrow> vs b \<noteq> None \<and> NUL \<notin> set out \<and> length out < 2 ^ 31"
| "op_ok vs (Zero b) \<longleftrightarrow> vs b \<noteq> None"
| "op_ok vs (SetMode b m) \<longleftrightarrow> vs b \<noteq> None"
| "op_ok vs (SetCap b c) \<longleftrightarrow> vs b \<noteq> None \<and> c < 2 ^ 31"

text \<open>
  The buffers as values of their own: the results of an operation on the map of the views, with the limit \<open>g\<close> of new buffers. Only a
  \<open>Printf\<close> of more than the limit has two: it works when the text fits the memory that is there.
\<close>

fun spec_op :: "nat \<Rightarrow> (nat \<Rightarrow> text_view option) \<Rightarrow> buffer_op \<Rightarrow> (int \<times> (nat \<Rightarrow> text_view option)) list" where
  "spec_op g vs (New b) = [(0, vs(b \<mapsto> (BUFFER_BEHAVIOR_CSTRING, [], g)))]"
| "spec_op g vs (NewFrom b bytes n) =
     (if n \<le> g then [(0, vs(b \<mapsto> (BUFFER_BEHAVIOR_CSTRING, bytes_in bytes n, g)))] else [(- 1, vs)])"
| "spec_op g vs (Destroy b) = [(0, vs(b := None))]"
| "spec_op g vs (Copy src dst) = [(0, vs(dst := vs src))]"
| "spec_op g vs (Assign b bytes n) =
     (case vs b of None \<Rightarrow> []
      | Some (m, old, c) \<Rightarrow>
          (if n > c then [(- 1, vs)]
           else [(int (length (bytes_in bytes n)), vs(b \<mapsto> (text_of bytes n m, bytes_in bytes n, c)))]))"
| "spec_op g vs (Append b bytes n) =
     (case vs b of None \<Rightarrow> []
      | Some (m, old, c) \<Rightarrow>
          (if n + length old > c then [(- 1, vs)]
           else [(int (length (old @ bytes_in bytes n)), vs(b \<mapsto> (text_of bytes n m, old @ bytes_in bytes n, c)))]))"
| "spec_op g vs (Printf b out) =
     (case vs b of None \<Rightarrow> []
      | Some (m, old, c) \<Rightarrow>
          (int (length out), vs(b \<mapsto> (m, out, c))) #
          (if length out > c then [(- 1, vs(b \<mapsto> (m, take (length old) out, c)))] else []))"
| "spec_op g vs (Zero b) = (case vs b of None \<Rightarrow> [] | Some (m, old, c) \<Rightarrow> [(0, vs(b \<mapsto> (m, [], c)))])"
| "spec_op g vs (SetMode b m') = (case vs b of None \<Rightarrow> [] | Some (m, old, c) \<Rightarrow> [(0, vs(b \<mapsto> (m', old, c)))])"
| "spec_op g vs (SetCap b c') =
     (case vs b of None \<Rightarrow> [] | Some (m, old, c) \<Rightarrow> [(0, vs(b \<mapsto> (m, old, if c' = 0 then c else c')))])"

fun run_ops :: "BufferStore \<Rightarrow> buffer_op list \<Rightarrow> (int list \<times> BufferStore) option" where
  "run_ops st [] = Some ([], st)"
| "run_ops st (op # ops) =
     do { (r, st1) \<leftarrow> run_op st op; (rs, st2) \<leftarrow> run_ops st1 ops; Some (r # rs, st2) }"

text \<open>The results of the specification for a sequence of operations, \<open>[]\<close> when a caller breaks the rules.\<close>

fun spec_ops :: "nat \<Rightarrow> (nat \<Rightarrow> text_view option) \<Rightarrow> buffer_op list \<Rightarrow> (int list \<times> (nat \<Rightarrow> text_view option)) list" where
  "spec_ops g vs [] = [([], vs)]"
| "spec_ops g vs (op # ops) =
     concat (map (\<lambda>(r, vs1). map (\<lambda>(rs, vs2). (r # rs, vs2)) (spec_ops g vs1 ops)) (spec_op g vs op))"

lemma view_None: "view st b = None \<longleftrightarrow> buffers st b = None"
  by (simp add: view_def)

lemma run_op_ok:
  assumes "store_ok st" "op_ok (view st) op"
  shows "\<exists>r st'. run_op st op = Some (r, st') \<and> store_ok st' \<and> general_memory_cap st' = general_memory_cap st \<and>
    (r, view st') \<in> set (spec_op (general_memory_cap st) (view st) op)"
proof (cases op)
  case (New b)
  then show ?thesis using BufferNew_ok [OF assms(1), of b] assms(2) by (auto simp: view_None)
next
  case (NewFrom b bytes n)
  then show ?thesis using BufferNewFrom_ok [OF assms(1), of b bytes n] assms(2) by (auto simp: view_None split: if_splits)
next
  case (Destroy b)
  then show ?thesis using BufferDestroy_ok [OF assms(1), of b] assms(2) by auto
next
  case (Copy src dst)
  then obtain v where v: "view st src = Some v" using assms(2) by auto
  show ?thesis using BufferCopy_ok [OF assms(1) v, of dst] assms(2) Copy v by (auto simp: view_None)
next
  case (Assign b bytes n)
  then obtain m old c where v: "view st b = Some (m, old, c)" using assms(2) by auto
  show ?thesis using BufferSet_ok [OF assms(1) v, of bytes n] assms(2) Assign v by (auto split: if_splits)
next
  case (Append b bytes n)
  then obtain m old c where v: "view st b = Some (m, old, c)" using assms(2) by auto
  show ?thesis using BufferAppend_ok [OF assms(1) v, of bytes n] assms(2) Append v by (auto split: if_splits)
next
  case (Printf b out)
  then obtain m old c where v: "view st b = Some (m, old, c)" using assms(2) by auto
  show ?thesis using BufferPrintf_ok [OF assms(1) v, of out] assms(2) Printf v by auto
next
  case (Zero b)
  then obtain m old c where v: "view st b = Some (m, old, c)" using assms(2) by auto
  show ?thesis using BufferZero_ok [OF assms(1) v] Zero v by auto
next
  case (SetMode b m')
  then obtain m old c where v: "view st b = Some (m, old, c)" using assms(2) by auto
  show ?thesis using BufferSetMode_ok [OF assms(1) v, of m'] SetMode v by auto
next
  case (SetCap b c')
  then obtain m old c where v: "view st b = Some (m, old, c)" using assms(2) by auto
  show ?thesis using BufferSetMemoryCap_ok [OF assms(1) v, of c'] assms(2) SetCap v by auto
qed


fun ops_ok :: "nat \<Rightarrow> (nat \<Rightarrow> text_view option) \<Rightarrow> buffer_op list \<Rightarrow> bool" where
  "ops_ok g vs [] \<longleftrightarrow> True"
| "ops_ok g vs (op # ops) \<longleftrightarrow> op_ok vs op \<and> list_all (\<lambda>(r, vs'). ops_ok g vs' ops) (spec_op g vs op)"

lemma run_ops_ok:
  assumes "store_ok st" "ops_ok (general_memory_cap st) (view st) ops"
  shows "\<exists>rs st'. run_ops st ops = Some (rs, st') \<and> store_ok st' \<and>
    (rs, view st') \<in> set (spec_ops (general_memory_cap st) (view st) ops)"
  using assms
proof (induction ops arbitrary: st)
  case (Cons op ops)
  from Cons.prems(2) have "op_ok (view st) op" by simp
  then obtain r st1 where r: "run_op st op = Some (r, st1)" "store_ok st1" "general_memory_cap st1 = general_memory_cap st"
    "(r, view st1) \<in> set (spec_op (general_memory_cap st) (view st) op)"
    using run_op_ok [OF Cons.prems(1)] by blast
  then have "ops_ok (general_memory_cap st1) (view st1) ops" using Cons.prems(2) by (auto simp: list_all_iff)
  then obtain rs st2 where "run_ops st1 ops = Some (rs, st2)" "store_ok st2"
    "(rs, view st2) \<in> set (spec_ops (general_memory_cap st1) (view st1) ops)"
    using Cons.IH [OF r(2)] by blast
  with r show ?case by (auto intro!: bexI [OF _ r(4)] image_eqI [of _ _ "(rs, view st2)"])
qed simp

text \<open>What is read of a buffer is its view.\<close>

lemma reading_views:
  assumes "store_ok st"
  shows "BufferSize st b = map_option (\<lambda>(m, t, c). length t) (view st b)"
    "map_option (take (the (BufferSize st b))) (BufferData st b) = map_option (\<lambda>(m, t, c). t) (view st b)"
    "BufferMode st b = map_option (\<lambda>(m, t, c). m) (view st b)"
    "BufferMemoryCap st b = map_option (\<lambda>(m, t, c). c) (view st b)"
proof -
  have "BufferSize st b = map_option (\<lambda>(m, t, c). length t) (view st b) \<and>
    map_option (take (the (BufferSize st b))) (BufferData st b) = map_option (\<lambda>(m, t, c). t) (view st b)"
  proof (cases "buffers st b")
    case (Some B)
    obtain block where "blocks st (data B) = Some block" "view st b = Some (mode B, take (used B) block, memory_cap B)"
      "used B \<le> length block" "length block \<le> capacity B" "NUL \<notin> set (take (used B) block)"
      by (rule view_eq [OF assms Some]) (rule that; assumption)
    with Some show ?thesis by (simp add: BufferSize_def BufferData_def)
  qed (simp add: view_def BufferSize_def BufferData_def)
  then show "BufferSize st b = map_option (\<lambda>(m, t, c). length t) (view st b)"
    "map_option (take (the (BufferSize st b))) (BufferData st b) = map_option (\<lambda>(m, t, c). t) (view st b)" by blast+
qed (simp_all add: view_def BufferMode_def BufferMemoryCap_def option.map_comp comp_def)



section \<open>What breaks the rules\<close>

text \<open>
  A \<open>NUL\<close> among the bytes makes a byte array a string: the test of the mode in \<open>BufferSet\<close> and \<open>BufferAppend\<close> is an
  assignment. The rest of the bytes is dropped.
\<close>

lemma nul_changes_mode:
  assumes "store_ok st" "view st b = Some (BUFFER_BEHAVIOR_BYTEARRAY, old, c)" "n \<le> length bytes" "nul_in bytes n" "n \<le> c" "n < 2 ^ 31"
  shows "\<exists>r st'. BufferSet st b bytes n = Some (r, st') \<and> r < int n \<and> BufferMode st' b = Some BUFFER_BEHAVIOR_CSTRING"
proof -
  have r: "readable bytes n" using assms(3) by (simp add: readable_def)
  from BufferSet_ok [OF assms(1,2) r assms(6)] assms(4,5) obtain st' where
    s: "BufferSet st b bytes n = Some (int (length (bytes_in bytes n)), st')" "store_ok st'"
    "view st' = (view st)(b \<mapsto> (BUFFER_BEHAVIOR_CSTRING, bytes_in bytes n, c))" by (auto simp: text_of_def)
  then show ?thesis using nul_shorter [OF assms(4)] reading_views(3) [OF s(2), of b] by auto
qed

text \<open>The length of an addition wraps around, so that one near \<open>2^32\<close> passes the check of the limit.\<close>

lemma append_check_wraps:
  assumes "used B = 1" "memory_cap B = 65535"
  shows "u32 ((2 ^ 32 - 1) + used B) \<le> memory_cap B"
  using assms by (simp add: u32_def)

end
