(* ===== verification/File_Names.thy ===== *)
theory File_Names
  imports String_Lib Item_List
begin

text \<open>
  Paths: \<open>libpromises/files_names.c\<close> as it is built for Unix, where only \<open>/\<close> separates names. A path that is changed in
  place is the argument and the result of its function; a pointer into a path is an index.
\<close>

definition CF_MAXLINKSIZE :: nat where
  "CF_MAXLINKSIZE = 256"

definition path_limit :: nat where
  "path_limit = CF_BUFSIZE - 128"

definition IsFileSep :: "char \<Rightarrow> bool" where
  "IsFileSep c \<longleftrightarrow> c = CHR ''/''"

definition MapName :: "string \<Rightarrow> string" where
  "MapName s = s"

definition TranslatePath :: "string \<Rightarrow> string" where
  "TranslatePath old = take (CF_BUFSIZE - 1) old"

section \<open>Slashes\<close>

text \<open>A path with backslashes only is continued with a backslash.\<close>

definition AddSlash :: "string \<Rightarrow> string" where
  "AddSlash str =
     (if length str = 0 then ''/''
      else
        (let f = CHR ''/'' \<in> set str; b = CHR 0x5C \<in> set str;
             sep = (if b \<and> \<not> f then CHR 0x5C else CHR ''/'')
         in if IsFileSep (str ! (length str - 1)) then str else str @ [sep]))"

definition DeleteSlash :: "string \<Rightarrow> string" where
  "DeleteSlash str =
     (if length str = 0 then str
      else if strcmp str ''/'' = 0 then str
      else if IsFileSep (str ! (length str - 1)) then take (length str - 1) str
      else str)"

text \<open>The first component is whether the call succeeds.\<close>

definition JoinPath :: "string \<Rightarrow> string \<Rightarrow> bool \<times> string" where
  "JoinPath path leaf =
     (let path1 = AddSlash (snd (ChopAtMost path (2 * CF_BUFSIZE)))
      in if length path1 + length leaf > path_limit then (False, path1) else (True, path1 @ leaf))"

definition JoinSuffix :: "string \<Rightarrow> string \<Rightarrow> bool \<times> string" where
  "JoinSuffix path leaf =
     (let path1 = DeleteSlash (snd (ChopAtMost path (2 * CF_BUFSIZE)))
      in if length path1 + length leaf > path_limit then (False, path1) else (True, path1 @ leaf))"

section \<open>Separators\<close>

definition IsAbsPath :: "string \<Rightarrow> bool" where
  "IsAbsPath path \<longleftrightarrow> path \<noteq> [] \<and> IsFileSep (hd path)"

definition FirstFileSeparator :: "string \<Rightarrow> nat option" where
  "FirstFileSeparator str =
     (if str \<noteq> [] \<and> hd str = CHR ''/'' then Some 0
      else if take 2 str = [CHR 0x5C, CHR 0x5C] then Some 1
      else strchr str (CHR 0x5C))"

text \<open>The loop that walks through the string backwards, from the index \<open>n - 1\<close>.\<close>

fun last_separator :: "string \<Rightarrow> nat \<Rightarrow> nat option" where
  "last_separator str 0 = None"
| "last_separator str (Suc n) = (if IsFileSep (str ! n) then Some n else last_separator str n)"

definition LastFileSeparator :: "string \<Rightarrow> nat option" where
  "LastFileSeparator str = last_separator str (length str)"

definition ChopLastNode :: "string \<Rightarrow> bool \<times> string" where
  "ChopLastNode str =
     (let (ret, str1) = (case LastFileSeparator str of None \<Rightarrow> (False, str) | Some i \<Rightarrow> (True, take i str))
      in (ret, if length str1 = 0 then AddSlash str1 else str1))"

definition ReadLastNode :: "string \<Rightarrow> string" where
  "ReadLastNode str = (case LastFileSeparator str of None \<Rightarrow> str | Some i \<Rightarrow> drop (i + 1) str)"

text \<open>\<open>None\<close> is the failed assertion that the path is not empty, \<open>Some None\<close> is \<open>NULL\<close>.\<close>

definition GetParentDirectoryCopy :: "string \<Rightarrow> string option option" where
  "GetParentDirectoryCopy path =
     (if length path = 0 then None
      else if strcmp path ''/'' = 0 then Some (Some path)
      else
        (case LastFileSeparator path of
           None \<Rightarrow> Some None
         | Some i \<Rightarrow> Some (Some (if FirstFileSeparator path = Some i then take (i + 1) path else take i path))))"

section \<open>Names\<close>

definition TransformNameInPlace :: "string \<Rightarrow> char \<Rightarrow> char \<Rightarrow> string" where
  "TransformNameInPlace s from to = map (\<lambda>c. if c = from then to else c) s"

definition CanonifyChar :: "string \<Rightarrow> char \<Rightarrow> string" where
  "CanonifyChar str ch = map (\<lambda>c. if c = ch then CHR ''_'' else c) (take (CF_BUFSIZE - 1) str)"

text \<open>Characters are signed.\<close>

definition signed_char :: "char \<Rightarrow> int" where
  "signed_char c = (if code c < 128 then int (code c) else int (code c) - 256)"

text \<open>
  The loop goes on until both strings have ended. At the end of the shorter one \<open>NUL\<close> is compared, and the strings differ.
\<close>

definition csv_char :: "string \<Rightarrow> char" where
  "csv_char s = (case s of [] \<Rightarrow> CHR 0x00 | c # _ \<Rightarrow> (if c = CHR '','' then CHR ''_'' else c))"

function CompareCSVName :: "string \<Rightarrow> string \<Rightarrow> int" where
  "CompareCSVName s1 s2 =
     (if s1 = [] \<and> s2 = [] then 0
      else if signed_char (csv_char s1) > signed_char (csv_char s2) then 1
      else if signed_char (csv_char s1) < signed_char (csv_char s2) then - 1
      else CompareCSVName (tl s1) (tl s2))"
  by pat_completeness auto
termination
  by (relation "measure (\<lambda>(s1, s2). length s1 + length s2)")
    (auto simp: neq_Nil_conv)

declare CompareCSVName.simps [simp del]

definition IsAbsoluteFileName :: "string \<Rightarrow> bool" where
  "IsAbsoluteFileName f = (case dropWhile (\<lambda>c. c = CHR 0x22) f of [] \<Rightarrow> False | c # _ \<Rightarrow> c = CHR ''/'')"

definition IsFileOutsideDefaultRepository :: "string \<Rightarrow> bool" where
  "IsFileOutsideDefaultRepository f \<longleftrightarrow> (f \<noteq> [] \<and> hd f = CHR ''.'') \<or> IsAbsoluteFileName f"

datatype FilePathType = FILE_PATH_TYPE_ABSOLUTE | FILE_PATH_TYPE_RELATIVE | FILE_PATH_TYPE_NON_ANCHORED

definition FilePathGetType :: "string \<Rightarrow> FilePathType" where
  "FilePathGetType file_path =
     (if IsAbsoluteFileName file_path then FILE_PATH_TYPE_ABSOLUTE
      else if IsFileOutsideDefaultRepository file_path then FILE_PATH_TYPE_RELATIVE
      else FILE_PATH_TYPE_NON_ANCHORED)"

definition RootDirLength :: "string \<Rightarrow> nat" where
  "RootDirLength f = (if f \<noteq> [] \<and> IsFileSep (hd f) then 1 else 0)"

section \<open>Compressing a path\<close>

text \<open>The loop of \<open>CompressPath\<close> on the rest of the source and the text in \<open>dest\<close>.\<close>

function compress_loop :: "string \<Rightarrow> string \<Rightarrow> bool \<times> string" where
  "compress_loop [] dest = (True, dest)"
| "compress_loop (c # cs) dest =
     (if IsFileSep c then compress_loop cs dest
      else
        (let node = takeWhile (\<lambda>x. \<not> IsFileSep x) (c # cs);
             rest = dropWhile (\<lambda>x. \<not> IsFileSep x) (c # cs)
         in if length node > CF_MAXLINKSIZE + 1 then (False, dest)
            else if strcmp node ''.'' = 0 then compress_loop rest dest
            else if strcmp node ''..'' = 0 then
              (case ChopLastNode dest of (ok, dest1) \<Rightarrow>
                 if \<not> ok then (False, dest1) else compress_loop rest dest1)
            else
              (case JoinPath (AddSlash dest) node of (ok, dest1) \<Rightarrow>
                 if \<not> ok then (False, dest1) else compress_loop rest dest1)))"
  by pat_completeness auto
termination
proof (relation "measure (\<lambda>(s, _). length s)", goal_cases)
  case (3 c cs dest x xa)
  then show ?case using length_dropWhile_le [of "\<lambda>x. \<not> IsFileSep x" cs] by simp
next
  case (4 c cs dest x xa)
  then show ?case using length_dropWhile_le [of "\<lambda>x. \<not> IsFileSep x" cs] by simp
next
  case (5 c cs dest x xa)
  then show ?case using length_dropWhile_le [of "\<lambda>x. \<not> IsFileSep x" cs] by simp
qed simp_all

definition CompressPath :: "string \<Rightarrow> bool \<times> string" where
  "CompressPath src = (let rootlen = RootDirLength src in compress_loop (drop rootlen src) (take rootlen src))"


section \<open>What a compressed path is\<close>

text \<open>The names between the separators, the walk over them, and the path of the names that are left.\<close>

definition path_nodes :: "string \<Rightarrow> string list" where
  "path_nodes s = filter (\<lambda>n. n \<noteq> []) (strsep_tokens (CHR ''/'') s)"

fun walk :: "string list \<Rightarrow> string list \<Rightarrow> string list" where
  "walk up [] = up"
| "walk up (n # ns) = (if n = ''.'' then walk up ns else if n = ''..'' then walk (butlast up) ns else walk (up @ [n]) ns)"

definition path_of :: "string list \<Rightarrow> string" where
  "path_of ns = ''/'' @ join_with ''/'' ns"

definition plain_node :: "string \<Rightarrow> bool" where
  "plain_node n \<longleftrightarrow> n \<noteq> [] \<and> n \<noteq> ''.'' \<and> n \<noteq> ''..'' \<and> CHR ''/'' \<notin> set n"

lemma walk_plain:
  "list_all plain_node up \<Longrightarrow> list_all (\<lambda>n. n \<noteq> [] \<and> CHR ''/'' \<notin> set n) ns \<Longrightarrow> list_all plain_node (walk up ns)"
proof (induction up ns rule: walk.induct)
  case (2 up n ns)
  have "list_all plain_node (butlast up)" using "2.prems"(1) by (auto simp: list_all_iff dest: in_set_butlastD)
  moreover have "plain_node n" if "n \<noteq> ''.''" "n \<noteq> ''..''" using that "2.prems"(2) by (simp add: plain_node_def)
  ultimately show ?case using 2 by auto
qed simp

lemma path_nodes_plain: "list_all (\<lambda>n. n \<noteq> [] \<and> CHR ''/'' \<notin> set n) (path_nodes s)"
  by (auto simp: path_nodes_def list_all_iff dest: strsep_tokens_no_sep)

lemma path_nodes_sep [simp]: "path_nodes (CHR ''/'' # cs) = path_nodes cs"
  using strsep_tokens_cons [of "CHR ''/''" "[]" cs] by (simp add: path_nodes_def)

lemma path_nodes_Nil [simp]: "path_nodes [] = []"
  by (simp add: path_nodes_def)

lemma path_nodes_node:
  "n \<noteq> [] \<Longrightarrow> CHR ''/'' \<notin> set n \<Longrightarrow> rest = [] \<or> hd rest = CHR ''/'' \<Longrightarrow> path_nodes (n @ rest) = n # path_nodes rest"
  using path_nodes_sep by (cases rest) (auto simp: path_nodes_def)

lemma last_separator_found:
  "CHR ''/'' \<notin> set v \<Longrightarrow> last_separator (u @ CHR ''/'' # v) (Suc (length u + length v)) = Some (length u)"
proof (induction v rule: rev_induct)
  case Nil
  then show ?case by (simp add: IsFileSep_def)
next
  case (snoc c v)
  have same: "last_separator (s @ [x]) n = last_separator s n" if "n \<le> length s" for s x n
    using that by (induction n) (auto simp: nth_append)
  from snoc have "last_separator (u @ CHR ''/'' # v) (Suc (length u + length v)) = Some (length u)" by simp
  with same [of "Suc (length u + length v)" "u @ CHR ''/'' # v" c] snoc.prems show ?case
    by (simp add: nth_append IsFileSep_def eq_commute [of c])
qed

lemma LastFileSeparator_found [simp]:
  "CHR ''/'' \<notin> set v \<Longrightarrow> LastFileSeparator (u @ CHR ''/'' # v) = Some (length u)"
  using last_separator_found [of v u] by (simp add: LastFileSeparator_def)

lemma last_separator_none: "n \<le> length s \<Longrightarrow> CHR ''/'' \<notin> set s \<Longrightarrow> last_separator s n = None"
  by (induction n) (auto simp: IsFileSep_def in_set_conv_nth)

text \<open>A path is what is left of it without its last node, and that node.\<close>

lemma chop_and_read_last_node:
  assumes "CHR ''/'' \<notin> set v" "u \<noteq> []"
  shows "ChopLastNode (u @ CHR ''/'' # v) = (True, u)" "ReadLastNode (u @ CHR ''/'' # v) = v"
  using assms by (simp_all add: ChopLastNode_def ReadLastNode_def)

lemma join_with_snoc: "ns \<noteq> [] \<Longrightarrow> join_with sep (ns @ [n]) = join_with sep ns @ sep @ n"
proof (induction sep ns rule: join_with.induct)
  case (3 sep a b ns)
  then show ?case by (cases ns) auto
qed auto

lemma path_of_snoc: "path_of (ns @ [n]) = (if ns = [] then ''/'' else path_of ns @ ''/'') @ n"
  by (simp add: path_of_def join_with_snoc)

lemma chop_path:
  assumes "list_all plain_node up"
  shows "ChopLastNode (path_of up) = (True, path_of (butlast up))"
proof (cases up rule: rev_cases)
  case Nil
  then show ?thesis
    using LastFileSeparator_found [of "[]" "[]"] by (simp add: path_of_def ChopLastNode_def AddSlash_def)
next
  case (snoc ns n)
  then have n: "CHR ''/'' \<notin> set n" using assms by (simp add: plain_node_def)
  show ?thesis
  proof (cases ns)
    case Nil
    with snoc n show ?thesis
      using LastFileSeparator_found [of n "[]"] by (simp add: path_of_def ChopLastNode_def AddSlash_def)
  next
    case (Cons m ms)
    then have "path_of up = path_of ns @ CHR ''/'' # n" using snoc by (simp add: path_of_snoc del: append.append_Cons)
    moreover have "path_of ns \<noteq> []" by (simp add: path_of_def)
    ultimately show ?thesis using chop_and_read_last_node(1) [OF n] snoc by simp
  qed
qed

lemma add_slash_path: "list_all plain_node up \<Longrightarrow> AddSlash (path_of up) = (if up = [] then ''/'' else path_of up @ ''/'')"
proof (cases up rule: rev_cases)
  case (snoc ns n)
  assume "list_all plain_node up"
  with snoc have n: "n \<noteq> []" "CHR ''/'' \<notin> set n" by (auto simp: plain_node_def)
  then have "last n \<noteq> CHR ''/''" using last_in_set by metis
  with n have "last (path_of up) \<noteq> CHR ''/''" using snoc by (auto simp: path_of_snoc)
  moreover have "path_of up \<noteq> []" "CHR ''/'' \<in> set (path_of up)" by (simp_all add: path_of_def)
  ultimately show ?thesis using snoc by (simp add: AddSlash_def IsFileSep_def last_conv_nth)
qed (simp add: path_of_def AddSlash_def IsFileSep_def)

lemma chop_slash: "Chop (u @ ''/'') = u @ ''/''"
  by (simp add: Chop_def isspace_def)

lemma join_path_node:
  assumes "list_all plain_node up" "length (AddSlash (path_of up)) + length n \<le> path_limit"
  shows "JoinPath (AddSlash (path_of up)) n = (True, path_of (up @ [n]))"
proof -
  let ?p = "AddSlash (path_of up)"
  obtain u where u: "?p = u @ ''/''" using add_slash_path [OF assms(1)] by (cases "up = []") auto
  have "length ?p \<le> 2 * CF_BUFSIZE" using assms(2) by (simp add: path_limit_def)
  then have "snd (ChopAtMost ?p (2 * CF_BUFSIZE)) = ?p" unfolding u by (simp add: ChopAtMost_def chop_slash)
  moreover have "AddSlash ?p = ?p" unfolding u by (simp add: AddSlash_def IsFileSep_def nth_append)
  ultimately show ?thesis
    using assms add_slash_path [OF assms(1)] by (simp add: JoinPath_def path_of_snoc Let_def)
qed

lemma split_node:
  assumes "s \<noteq> []" "hd s \<noteq> CHR ''/''"
  shows "\<exists>n r. n \<noteq> [] \<and> CHR ''/'' \<notin> set n \<and> (r = [] \<or> hd r = CHR ''/'') \<and> s = n @ r"
proof -
  have "takeWhile (\<lambda>x. x \<noteq> CHR ''/'') s \<noteq> []" using assms by (cases s) auto
  moreover have "CHR ''/'' \<notin> set (takeWhile (\<lambda>x. x \<noteq> CHR ''/'') s)" by (auto dest: set_takeWhileD)
  moreover have "dropWhile (\<lambda>x. x \<noteq> CHR ''/'') s = [] \<or> hd (dropWhile (\<lambda>x. x \<noteq> CHR ''/'') s) = CHR ''/''"
    using hd_dropWhile [of "\<lambda>x. x \<noteq> CHR ''/''" s] by blast
  ultimately show ?thesis by (metis takeWhile_dropWhile_id)
qed

lemma compress_loop_node:
  assumes "n \<noteq> []" "CHR ''/'' \<notin> set n" "r = [] \<or> hd r = CHR ''/''" "length n \<le> CF_MAXLINKSIZE + 1"
  shows "compress_loop (n @ r) dest =
    (if n = ''.'' then compress_loop r dest
     else if n = ''..'' then (case ChopLastNode dest of (ok, d) \<Rightarrow> if \<not> ok then (False, d) else compress_loop r d)
     else (case JoinPath (AddSlash dest) n of (ok, d) \<Rightarrow> if \<not> ok then (False, d) else compress_loop r d))"
proof -
  obtain c cs where c: "n = c # cs" "c \<noteq> CHR ''/''" using assms(1,2) by (cases n) auto
  have stop: "takeWhile (\<lambda>x. x \<noteq> CHR ''/'') r = []" "dropWhile (\<lambda>x. x \<noteq> CHR ''/'') r = r" using assms(3) by (cases r; auto)+
  have all: "\<forall>x\<in>set cs. x \<noteq> CHR ''/''" using assms(2) c(1) by auto
  have "takeWhile (\<lambda>x. x \<noteq> CHR ''/'') (cs @ r) = cs" "dropWhile (\<lambda>x. x \<noteq> CHR ''/'') (cs @ r) = r"
    using all stop by (simp_all add: takeWhile_append dropWhile_append)
  then show ?thesis using c assms(4) by (simp add: IsFileSep_def Let_def)
qed

lemma compress_loop_walk:
  assumes "list_all plain_node up" "list_all (\<lambda>n. length n \<le> CF_MAXLINKSIZE + 1) (path_nodes s)"
    and "length (AddSlash (path_of up)) + length s \<le> path_limit + (if s \<noteq> [] \<and> hd s \<noteq> CHR ''/'' then 0 else 1)"
  shows "compress_loop s (path_of up) = (True, path_of (walk up (path_nodes s)))"
  using assms
proof (induction "length s" arbitrary: s up rule: less_induct)
  case less
  show ?case
  proof (cases s)
    case (Cons c cs)
    show ?thesis
    proof (cases "c = CHR ''/''")
      case True
      with less.hyps [of cs up] less.prems Cons show ?thesis by (auto simp: IsFileSep_def)
    next
      case False
      obtain n r where n: "n \<noteq> []" "CHR ''/'' \<notin> set n" "r = [] \<or> hd r = CHR ''/''" "s = n @ r"
        using split_node [of s] Cons False by auto
      then have nodes: "path_nodes s = n # path_nodes r" using path_nodes_node by metis
      have len: "length s = length n + length r" using n(4) by (metis length_append)
      have r: "length r < length s" using len n(1) by simp
      have small: "length (AddSlash (path_of up)) + length n + length r \<le> path_limit" using less.prems(3) Cons False len by simp
      have step: "compress_loop s (path_of up) = (if n = ''.'' then compress_loop r (path_of up)
          else if n = ''..'' then compress_loop r (path_of (butlast up)) else compress_loop r (path_of (up @ [n])))"
        using n less.prems(2) nodes chop_path [OF less.prems(1)] join_path_node [OF less.prems(1), of n] small
        by (simp add: compress_loop_node)
      have rest: "list_all (\<lambda>n. length n \<le> CF_MAXLINKSIZE + 1) (path_nodes r)" using less.prems(2) nodes by simp
      have butlast: "list_all plain_node (butlast up)"
        using less.prems(1) by (auto simp: list_all_iff dest: in_set_butlastD)
      have shorter: "length (AddSlash (path_of (butlast up))) \<le> length (AddSlash (path_of up))"
        unfolding add_slash_path [OF less.prems(1)] add_slash_path [OF butlast]
        by (cases up rule: rev_cases) (auto simp: path_of_snoc)
      show ?thesis
      proof (cases "n = ''.'' \<or> n = ''..''")
        case True
        have "length (AddSlash (path_of up)) + length r \<le> path_limit" using small by simp
        then show ?thesis
          using True step nodes less.hyps [OF r less.prems(1) rest] less.hyps [OF r butlast rest] shorter by auto
      next
        case False
        then have "plain_node n" using n by (simp add: plain_node_def)
        then have up: "list_all plain_node (up @ [n])" using less.prems(1) by simp
        have "length (AddSlash (path_of (up @ [n]))) \<le> length (AddSlash (path_of up)) + length n + 1"
          unfolding add_slash_path [OF less.prems(1)] add_slash_path [OF up] by (simp add: path_of_snoc)
        then have "length (AddSlash (path_of (up @ [n]))) + length r \<le> path_limit + 1" using small by simp
        then show ?thesis
          using False step nodes less.hyps [OF r up rest] n(3) by auto
      qed
    qed
  qed simp
qed

text \<open>
  C39. Compressing an absolute path that is not too long and has no node that is too long succeeds, with the path of the nodes that are left
  when every \<open>.\<close> is dropped and every \<open>..\<close> takes the node before it away, if there is one; no empty node, \<open>.\<close> or \<open>..\<close> is left.
\<close>

theorem compress_path:
  assumes "IsAbsPath src" "length src \<le> path_limit" "list_all (\<lambda>n. length n \<le> CF_MAXLINKSIZE + 1) (path_nodes src)"
  shows "CompressPath src = (True, path_of (walk [] (path_nodes src))) \<and> list_all plain_node (walk [] (path_nodes src))"
proof -
  obtain cs where cs: "src = CHR ''/'' # cs" using assms(1) by (cases src) (auto simp: IsAbsPath_def IsFileSep_def)
  have "compress_loop cs (path_of []) = (True, path_of (walk [] (path_nodes cs)))"
    using assms(2,3) cs by (intro compress_loop_walk) (auto simp: path_of_def AddSlash_def IsFileSep_def)
  then show ?thesis
    using walk_plain [OF _ path_nodes_plain, of "[]" src] cs
    by (simp add: CompressPath_def RootDirLength_def IsFileSep_def path_of_def)
qed

theorem compress_path_witness: "CompressPath ''/a//./b/../c'' = (True, ''/a/c'')"
proof -
  have nodes: "path_nodes ''/a//./b/../c'' = [''a'', ''.'', ''b'', ''..'', ''c'']" by (simp add: path_nodes_def strsep_tokens.simps)
  with compress_path [of "''/a//./b/../c''"] show ?thesis
    by (simp add: IsAbsPath_def IsFileSep_def path_limit_def CF_BUFSIZE_def CF_MAXLINKSIZE_def path_of_def)
qed

text \<open>A relative path becomes an absolute one.\<close>

lemma relative_path_made_absolute: "CompressPath ''a/b'' = (True, ''/a/b'')"
  using compress_loop_node [of "''a''" "''/b''" "[]"] compress_loop_node [of "''b''" "[]" "''/a''"]
  by (simp add: CompressPath_def RootDirLength_def IsFileSep_def CF_MAXLINKSIZE_def JoinPath_def AddSlash_def ChopAtMost_def
      Chop_def isspace_def path_limit_def CF_BUFSIZE_def)

lemma join_path_bound: "fst (JoinPath path leaf) \<Longrightarrow> length (snd (JoinPath path leaf)) \<le> path_limit"
  by (auto simp: JoinPath_def Let_def split: if_splits)

end
