(* ===== verification/Server_Access.thy ===== *)
theory Server_Access
  imports File_Names Addr_Lib Frames Conversion
begin

text \<open>
  What the file server lets a client see: the access rules of \<open>cf-serverd/server.c\<close>. Lists of items are lists of
  names with their classes. The file system, PCRE and the parsers of the socket library are a record of functions;
  \<open>None\<close> is the read behind the end of a pattern that \<open>FuzzySetMatch\<close> makes.
\<close>

type_synonym items = "(string \<times> string option) list"

record Auth =
  path :: string
  accesslist :: items
  maproot_hosts :: items
  encrypt :: bool
  literal :: bool
  classpattern :: bool
  variable :: bool

record ServerAccess =
  nonattackerlist :: items
  attackerlist :: items
  connectionlist :: items
  allowuserlist :: items
  multiconnlist :: items
  trustkeylist :: items
  skipverify :: items
  admit :: "Auth list"
  deny :: "Auth list"
  varadmit :: "Auth list"
  vardeny :: "Auth list"
  roles :: "Auth list"

record ServerConnectionState =
  id_verified :: bool
  rsa_auth :: bool
  maproot :: bool
  trust :: bool
  session_key :: "string option"
  digest :: "nat list"
  hostname :: string
  username :: string
  uid :: int
  encryption_type :: char
  ipaddr :: string

text \<open>
  The surroundings: what \<open>realpath\<close> answers and leaves in the buffer, whether a name can be examined with \<open>lstat\<close> and \<open>stat\<close>,
  \<open>FullTextMatch\<close>, and \<open>inet_pton\<close> for both families.
\<close>

record ServerEnv =
  realpath :: "string \<Rightarrow> bool \<times> string"
  lstat_ok :: "string \<Rightarrow> bool"
  stat_ok :: "string \<Rightarrow> bool"
  full_text_match :: "string \<Rightarrow> string \<Rightarrow> bool"
  pton4 :: "string \<Rightarrow> nat list option"
  pton6 :: "string \<Rightarrow> nat list option"

section \<open>Hosts in lists\<close>

fun match_items :: "ServerEnv \<Rightarrow> items \<Rightarrow> string \<Rightarrow> bool option" where
  "match_items env [] item = Some False"
| "match_items env ((nm, _) # ptr) item =
     do {
       r \<leftarrow> FuzzySetMatch (pton4 env) (pton6 env) nm item;
       (if r = 0 then Some True
        else if IsRegex nm \<and> full_text_match env nm item then Some True
        else match_items env ptr item)
     }"

definition IsMatchItemIn :: "ServerEnv \<Rightarrow> items \<Rightarrow> string \<Rightarrow> bool option" where
  "IsMatchItemIn env list item = (if length item = 0 then Some True else match_items env list item)"

definition item_in :: "items \<Rightarrow> string \<Rightarrow> bool" where
  "item_in list item \<longleftrightarrow> length item = 0 \<or> find_index (\<lambda>(nm, _). strcmp nm item = 0) list \<noteq> None"

definition AllowedUser :: "ServerAccess \<Rightarrow> string \<Rightarrow> bool" where
  "AllowedUser SV user \<longleftrightarrow> item_in (allowuserlist SV) user"

text \<open>\<open>IsMatchItemIn(list, MapAddress(conn->ipaddr)) || IsRegexItemIn(ctx, list, conn->hostname)\<close>\<close>

definition host_listed :: "ServerEnv \<Rightarrow> EvalContext \<Rightarrow> ServerConnectionState \<Rightarrow> items \<Rightarrow> bool option" where
  "host_listed env ctx conn list =
     do {
       m \<leftarrow> IsMatchItemIn env list (MapAddress (ipaddr conn));
       Some (m \<or> IsRegexItemIn (full_text_match env) ctx list (hostname conn))
     }"

section \<open>Files\<close>

text \<open>The result, and the text in \<open>res_path\<close>: what \<open>realpath\<close> left there when it fails.\<close>

definition ResolveFilename :: "ServerEnv \<Rightarrow> string \<Rightarrow> bool \<times> string" where
  "ResolveFilename env req_path =
     (let req_dir = snd (ChopLastNode (strlcpy req_path CF_BUFSIZE));
          req_filename = strlcpy (ReadLastNode req_path) CF_BUFSIZE
      in case realpath env req_dir of
           (False, res_path) \<Rightarrow> (False, res_path)
         | (True, dir) \<Rightarrow> (True, MapName (take (CF_BUFSIZE - 1) (AddSlash dir @ req_filename))))"

definition rule_path :: "Auth \<Rightarrow> string" where
  "rule_path ap = MapName (take (CF_BUFSIZE - 1) (path ap))"

definition rule_covers :: "string \<Rightarrow> string \<Rightarrow> bool" where
  "rule_covers transpath transrequest \<longleftrightarrow>
     (length transrequest > length transpath \<and> strncmp transpath transrequest (length transpath) = 0 \<and>
        transrequest ! length transpath = CHR ''/'') \<or>
     strcmp transpath transrequest = 0 \<or> strcmp transpath ''/'' = 0"

text \<open>
  The loop over \<open>SV.admit\<close>: whether there is access, whether root is mapped, and the text that is left in \<open>transpath\<close>.
\<close>

fun admit_loop ::
  "ServerEnv \<Rightarrow> EvalContext \<Rightarrow> ServerConnectionState \<Rightarrow> string \<Rightarrow> bool \<Rightarrow> Auth list \<Rightarrow> string \<Rightarrow> (bool \<times> bool \<times> string) option"
where
  "admit_loop env ctx conn transrequest enc [] transpath = Some (False, False, transpath)"
| "admit_loop env ctx conn transrequest enc (ap # aps) transpath =
     (if rule_covers (rule_path ap) transrequest then
        (if \<not> stat_ok env (rule_path ap) then admit_loop env ctx conn transrequest enc aps (rule_path ap)
         else if \<not> enc \<and> encrypt ap then Some (False, False, rule_path ap)
         else do {
           m \<leftarrow> host_listed env ctx conn (maproot_hosts ap);
           a \<leftarrow> host_listed env ctx conn (accesslist ap);
           Some (a, m, rule_path ap)
         })
      else admit_loop env ctx conn transrequest enc aps (rule_path ap))"

definition AccessControl ::
  "ServerEnv \<Rightarrow> ServerAccess \<Rightarrow> EvalContext \<Rightarrow> string \<Rightarrow> ServerConnectionState \<Rightarrow> bool \<Rightarrow>
   (bool \<times> ServerConnectionState) option"
where
  "AccessControl env SV ctx req_path conn enc =
     (let transrequest = snd (ResolveFilename env (TranslatePath req_path)) in
      if \<not> lstat_ok env transrequest then Some (False, conn)
      else if admit SV = [] then Some (False, conn)
      else do {
        (access, m, transpath) \<leftarrow> admit_loop env ctx (conn\<lparr>maproot := False\<rparr>) transrequest enc (admit SV) [];
        let denied = strncmp transpath transrequest (length transpath) = 0 \<and>
          find_index (\<lambda>ap. IsRegexItemIn (full_text_match env) ctx (accesslist ap) (hostname conn)) (deny SV) \<noteq> None;
        Some (access \<and> \<not> denied, conn\<lparr>maproot := m \<and> rsa_auth conn\<rparr>)
      })"

section \<open>Variables and classes\<close>

text \<open>\<open>%255[^\n]\<close> behind a word and a space: white space is skipped where the format has some.\<close>

definition scan_line :: "nat \<Rightarrow> string \<Rightarrow> string" where
  "scan_line n s = take n (takeWhile (\<lambda>c. c \<noteq> CHR ''\<newline>'') (dropWhile isspace s))"

definition scan_word :: "nat \<Rightarrow> string \<Rightarrow> string" where
  "scan_word n s = take n (takeWhile (\<lambda>c. \<not> isspace c) (dropWhile isspace s))"

definition literal_name :: "string \<Rightarrow> string" where
  "literal_name str =
     (if strncmp str ''VAR'' 3 = 0 then scan_line 255 (drop 3 str)
      else if strncmp str ''CALL_ME_BACK'' 12 = 0 then scan_line 255 (drop 12 str)
      else if strncmp str ''QUERY'' 5 = 0 then scan_word 128 (drop 5 str)
      else [])"

text \<open>The loop over the rules for the name; the results are \<open>access\<close> and \<open>conn->maproot\<close>.\<close>

fun literal_loop ::
  "ServerEnv \<Rightarrow> EvalContext \<Rightarrow> ServerConnectionState \<Rightarrow> string \<Rightarrow> bool \<Rightarrow> Auth list \<Rightarrow> bool \<Rightarrow> bool \<Rightarrow> (bool \<times> bool) option"
where
  "literal_loop env ctx conn name enc [] access m = Some (access, m)"
| "literal_loop env ctx conn name enc (ap # aps) access m =
     (if strcmp (path ap) name = 0 then
        (if \<not> literal ap \<and> \<not> variable ap then Some (False, m)
         else if \<not> enc \<and> encrypt ap then Some (False, m)
         else do {
           m' \<leftarrow> host_listed env ctx conn (maproot_hosts ap);
           a \<leftarrow> host_listed env ctx conn (accesslist ap);
           literal_loop env ctx conn name enc aps (access \<or> a) (m \<or> m')
         })
      else literal_loop env ctx conn name enc aps access m)"

fun literal_denied :: "ServerEnv \<Rightarrow> EvalContext \<Rightarrow> ServerConnectionState \<Rightarrow> string \<Rightarrow> Auth list \<Rightarrow> bool option" where
  "literal_denied env ctx conn name [] = Some False"
| "literal_denied env ctx conn name (ap # aps) =
     (if strcmp (path ap) name = 0 then
        do {
          d \<leftarrow> host_listed env ctx conn (accesslist ap);
          (if d then Some True else literal_denied env ctx conn name aps)
        }
      else literal_denied env ctx conn name aps)"

definition LiteralAccessControl ::
  "ServerEnv \<Rightarrow> ServerAccess \<Rightarrow> EvalContext \<Rightarrow> string \<Rightarrow> ServerConnectionState \<Rightarrow> bool \<Rightarrow>
   (bool \<times> ServerConnectionState) option"
where
  "LiteralAccessControl env SV ctx str conn enc =
     do {
       let name = literal_name str;
       (access, m) \<leftarrow> literal_loop env ctx conn name enc (varadmit SV) False False;
       d \<leftarrow> literal_denied env ctx conn name (vardeny SV);
       Some (access \<and> \<not> d, conn\<lparr>maproot := m \<and> rsa_auth conn\<rparr>)
     }"

text \<open>
  The rules for a class: \<open>access\<close> comes from the candidates before and is what is left for the ones behind.
\<close>

fun context_loop ::
  "ServerEnv \<Rightarrow> EvalContext \<Rightarrow> ServerConnectionState \<Rightarrow> string \<Rightarrow> bool \<Rightarrow> Auth list \<Rightarrow> bool \<Rightarrow> bool \<Rightarrow> (bool \<times> bool) option"
where
  "context_loop env ctx conn name enc [] access m = Some (access, m)"
| "context_loop env ctx conn name enc (ap # aps) access m =
     (if full_text_match env (path ap) name then
        (if \<not> classpattern ap then context_loop env ctx conn name enc aps False m
         else if \<not> enc \<and> encrypt ap then Some (False, m)
         else do {
           m' \<leftarrow> host_listed env ctx conn (maproot_hosts ap);
           a \<leftarrow> host_listed env ctx conn (accesslist ap);
           context_loop env ctx conn name enc aps (access \<or> a) (m \<or> m')
         })
      else context_loop env ctx conn name enc aps access m)"

fun context_candidates ::
  "ServerEnv \<Rightarrow> ServerAccess \<Rightarrow> EvalContext \<Rightarrow> ServerConnectionState \<Rightarrow> bool \<Rightarrow> string list \<Rightarrow> bool \<Rightarrow> bool \<Rightarrow>
   (string list \<times> bool) option"
where
  "context_candidates env SV ctx conn enc [] access m = Some ([], m)"
| "context_candidates env SV ctx conn enc (cls # candidates) access m =
     do {
       (access1, m1) \<leftarrow> context_loop env ctx conn cls enc (varadmit SV) access m;
       d \<leftarrow> literal_denied env ctx conn cls (vardeny SV);
       let access2 = (access1 \<and> \<not> d);
       (rest, m2) \<leftarrow> context_candidates env SV ctx conn enc candidates access2 m1;
       Some (if access2 then cls # rest else rest, m2)
     }"

text \<open>
  The classes that are answered, the connection, and the database without the classes that have expired. Without an expression
  in the request the buffer for it is not written.
\<close>

definition ContextAccessControl ::
  "ServerEnv \<Rightarrow> ServerAccess \<Rightarrow> EvalContext \<Rightarrow> int \<Rightarrow> StateDB \<Rightarrow> string \<Rightarrow> ServerConnectionState \<Rightarrow> bool \<Rightarrow>
   (string list \<times> ServerConnectionState \<times> StateDB) option"
where
  "ContextAccessControl env SV ctx now db str conn enc =
     do {
       let client_regex = scan_line 255 (drop 7 str);
       let alive = filter (\<lambda>(key, q). \<not> now > uint (expires q)) db;
       let hits = filter (full_text_match env client_regex) (map fst alive);
       (if client_regex = [] then None
        else do {
          (granted, m) \<leftarrow> context_candidates env SV ctx conn enc hits False (maproot conn);
          Some (granted, conn\<lparr>maproot := m\<rparr>, alive)
        })
     }"

section \<open>Roles\<close>

text \<open>Whether the client may activate the role \<open>ap\<close>.\<close>

definition role_open :: "ServerEnv \<Rightarrow> EvalContext \<Rightarrow> ServerConnectionState \<Rightarrow> Auth \<Rightarrow> bool option" where
  "role_open env ctx conn ap =
     do {
       let userid1 = take (CF_MAXVARSIZE - 1) (username conn @ ''@'' @ hostname conn);
       let userid2 = take (CF_MAXVARSIZE - 1) (username conn @ ''@'' @ ipaddr conn);
       h \<leftarrow> host_listed env ctx conn (accesslist ap);
       Some (h \<or> IsRegexItemIn (full_text_match env) ctx (accesslist ap) userid1 \<or>
         IsRegexItemIn (full_text_match env) ctx (accesslist ap) userid2 \<or>
         IsRegexItemIn (full_text_match env) ctx (accesslist ap) (username conn))
     }"

text \<open>\<open>None\<close> inside is the \<open>return false\<close> of a role that is not open to the client.\<close>

fun role_loop :: "ServerEnv \<Rightarrow> EvalContext \<Rightarrow> ServerConnectionState \<Rightarrow> string \<Rightarrow> Auth list \<Rightarrow> bool \<Rightarrow> bool option option" where
  "role_loop env ctx conn cls [] permitted = Some (Some permitted)"
| "role_loop env ctx conn cls (ap # aps) permitted =
     (if full_text_match env (path ap) cls then
        do {
          allowed \<leftarrow> role_open env ctx conn ap;
          (if allowed then role_loop env ctx conn cls aps True else Some None)
        }
      else role_loop env ctx conn cls aps permitted)"

fun roles_loop :: "ServerEnv \<Rightarrow> ServerAccess \<Rightarrow> EvalContext \<Rightarrow> ServerConnectionState \<Rightarrow> string list \<Rightarrow> bool \<Rightarrow> bool option" where
  "roles_loop env SV ctx conn [] permitted = Some permitted"
| "roles_loop env SV ctx conn (cls # wanted) permitted =
     do {
       r \<leftarrow> role_loop env ctx conn cls (roles SV) permitted;
       (case r of None \<Rightarrow> Some False | Some p \<Rightarrow> roles_loop env SV ctx conn wanted p)
     }"

text \<open>
  \<open>find_match\<close> is where PCRE finds the expression \<open>[,:;]\<close> in a string. The pieces of \<open>RlistFromSplitRegex\<close> are scalars.
\<close>

definition AuthorizeRoles ::
  "ServerEnv \<Rightarrow> (string \<Rightarrow> (nat \<times> nat) option) \<Rightarrow> ServerAccess \<Rightarrow> EvalContext \<Rightarrow> ServerConnectionState \<Rightarrow> string \<Rightarrow> bool option"
where
  "AuthorizeRoles env find_match SV ctx conn args =
     do {
       let sp = (if strncmp args ''--define'' 8 = 0 then drop 8 args else drop 2 args);
       wanted \<leftarrow> RlistFromSplitRegex find_match (Some (dropWhile (\<lambda>c. c = CHR '' '') sp)) 99 False;
       classes \<leftarrow> those (map RvalScalarValue wanted);
       roles_loop env SV ctx conn classes False
     }"


section \<open>Who gets a file\<close>

lemma host_listed_maproot [simp]: "host_listed env ctx (conn\<lparr>maproot := m\<rparr>) l = host_listed env ctx conn l"
  by (simp add: host_listed_def)

text \<open>The rule that decides: the first one that covers the file and whose path can be examined.\<close>

definition admitting_rule :: "ServerEnv \<Rightarrow> string \<Rightarrow> Auth list \<Rightarrow> Auth option" where
  "admitting_rule env req aps = List.find (\<lambda>ap. rule_covers (rule_path ap) req \<and> stat_ok env (rule_path ap)) aps"

lemma admit_loop_decides:
  "admit_loop env ctx conn req enc aps tp =
     (case admitting_rule env req aps of
        None \<Rightarrow> Some (False, False, if aps = [] then tp else rule_path (last aps))
      | Some ap \<Rightarrow>
          (if \<not> enc \<and> encrypt ap then Some (False, False, rule_path ap)
           else do {
             m \<leftarrow> host_listed env ctx conn (maproot_hosts ap);
             a \<leftarrow> host_listed env ctx conn (accesslist ap);
             Some (a, m, rule_path ap)
           }))"
  by (induction aps arbitrary: tp) (auto simp: admitting_rule_def split: option.splits)

lemma covers_prefix:
  "rule_covers tp req \<Longrightarrow> req \<noteq> [] \<Longrightarrow> hd req = CHR ''/'' \<Longrightarrow> take (length tp) req = tp"
  by (cases req) (auto simp: rule_covers_def)

text \<open>
  C4. A file is served exactly when it exists, the first rule that covers it and whose path can be examined allows a connection
  that is not encrypted or the connection is encrypted, lists the host by its address or its name, and no deny rule lists the name of the host.
  Root is mapped only for a client that has shown its key.
\<close>

theorem access_control:
  assumes "req = snd (ResolveFilename env (TranslatePath req_path))" "req \<noteq> []" "hd req = CHR ''/''"
  shows "case AccessControl env SV ctx req_path conn enc of
      None \<Rightarrow> (\<exists>ap. admitting_rule env req (admit SV) = Some ap \<and>
        (host_listed env ctx conn (accesslist ap) = None \<or> host_listed env ctx conn (maproot_hosts ap) = None))
    | Some (granted, conn') \<Rightarrow>
        (granted \<longleftrightarrow> lstat_ok env req \<and>
          (\<exists>ap. admitting_rule env req (admit SV) = Some ap \<and> (enc \<or> \<not> encrypt ap) \<and>
             host_listed env ctx conn (accesslist ap) = Some True) \<and>
          \<not> (\<exists>ap \<in> set (deny SV). IsRegexItemIn (full_text_match env) ctx (accesslist ap) (hostname conn))) \<and>
        (\<exists>m. conn' = conn\<lparr>maproot := m\<rparr> \<and> (granted \<and> m \<longrightarrow> rsa_auth conn))"
proof (cases "lstat_ok env req \<and> admit SV \<noteq> []")
  case False
  have same: "\<exists>m. conn = conn\<lparr>maproot := m\<rparr>" by (rule exI [of _ "maproot conn"]) simp
  from False have "AccessControl env SV ctx req_path conn enc = Some (False, conn)"
    by (auto simp: AccessControl_def Let_def assms(1))
  moreover have "admitting_rule env req [] = None" by (simp add: admitting_rule_def)
  ultimately show ?thesis using False same by auto
next
  case True
  note unfold = AccessControl_def Let_def assms(1) [symmetric] admit_loop_decides find_index_None
  show ?thesis
  proof (cases "admitting_rule env req (admit SV)")
    case None
    with True show ?thesis by (auto simp: unfold)
  next
    case (Some ap)
    then have "rule_covers (rule_path ap) req" by (auto simp: admitting_rule_def find_Some_iff)
    then have "take (length (rule_path ap)) req = rule_path ap" using covers_prefix assms(2,3) by blast
    with Some True show ?thesis
      by (cases "host_listed env ctx conn (accesslist ap)"; cases "host_listed env ctx conn (maproot_hosts ap)")
        (auto simp: unfold)
  qed
qed

text \<open>A small server: the directory \<open>/a\<close> is open to one address.\<close>

definition open_rule :: "string \<Rightarrow> items \<Rightarrow> Auth" where
  "open_rule p hosts = \<lparr>path = p, accesslist = hosts, maproot_hosts = [], encrypt = False, literal = True,
     classpattern = True, variable = True\<rparr>"

definition small_env :: ServerEnv where
  "small_env = \<lparr>realpath = Pair True, lstat_ok = (\<lambda>_. True), stat_ok = (\<lambda>_. True),
     full_text_match = (\<lambda>r s. r = s), pton4 = (\<lambda>_. None), pton6 = (\<lambda>_. None)\<rparr>"

definition no_access :: ServerAccess where
  "no_access = \<lparr>nonattackerlist = [], attackerlist = [], connectionlist = [], allowuserlist = [], multiconnlist = [],
     trustkeylist = [], skipverify = [], admit = [], deny = [], varadmit = [], vardeny = [], roles = []\<rparr>"

definition client :: "string \<Rightarrow> string \<Rightarrow> ServerConnectionState" where
  "client addr nm = \<lparr>id_verified = True, rsa_auth = False, maproot = False, trust = False, session_key = None, digest = [],
     hostname = nm, username = [], uid = 1000, encryption_type = CHR ''c'', ipaddr = addr\<rparr>"

lemma host_listed_address [simp]:
  "host_listed env ctx (client a n) [(a, c)] = Some True" if "a \<noteq> []" "MapAddress a = a"
  using that by (simp add: host_listed_def IsMatchItemIn_def client_def FuzzySetMatch_def Let_def)

lemma MapAddress_plain: "MapAddress ''10.0.0.1'' = ''10.0.0.1''"
  by (simp add: MapAddress_def)

definition small_access :: ServerAccess where
  "small_access = no_access\<lparr>admit := [open_rule ''/a'' [(''10.0.0.1'', None)]]\<rparr>"

lemma small_request: "snd (ResolveFilename small_env (TranslatePath ''/a/f'')) = ''/a/f''"
proof -
  have "LastFileSeparator (''/a'' @ CHR ''/'' # ''f'') = Some (length ''/a'')" by (rule LastFileSeparator_found) simp
  then show ?thesis
    by (simp add: ResolveFilename_def TranslatePath_def ChopLastNode_def ReadLastNode_def strlcpy_def CF_BUFSIZE_def small_env_def
        AddSlash_def IsFileSep_def MapName_def)
qed

lemma small_rule:
  "rule_covers ''/a'' ''/a/f''" "encrypt (open_rule p hosts) = False"
  "rule_path (open_rule ''/a'' hosts) = ''/a''" "accesslist (open_rule p hosts) = hosts" "maproot_hosts (open_rule p hosts) = []"
  "stat_ok small_env p = True" "lstat_ok small_env p = True"
  by (simp_all add: rule_covers_def rule_path_def MapName_def open_rule_def CF_BUFSIZE_def small_env_def)

lemma small_listed:
  "host_listed small_env ctx (client ''10.0.0.1'' n) [(''10.0.0.1'', None)] = Some True"
  "host_listed small_env ctx (client ''10.0.0.1'' n) [] = Some False"
  by (simp_all add: MapAddress_plain)
    (simp add: host_listed_def IsMatchItemIn_def client_def MapAddress_plain IsRegexItemIn_def)

theorem access_control_witness:
  "case AccessControl small_env small_access EvalContextNew ''/a/f'' (client ''10.0.0.1'' ''h'') False of
     None \<Rightarrow> False | Some (granted, _) \<Rightarrow> granted"
proof -
  have rule: "admitting_rule small_env ''/a/f'' (admit small_access) = Some (open_rule ''/a'' [(''10.0.0.1'', None)])"
    by (simp add: admitting_rule_def small_rule small_access_def)
  have "deny small_access = []" by (simp add: small_access_def no_access_def)
  with access_control [OF small_request [symmetric], of small_access EvalContextNew "client ''10.0.0.1'' ''h''" False] rule
  show ?thesis by (auto simp: small_rule small_listed split: option.splits)
qed

section \<open>What the rules also do\<close>

text \<open>The paths of the deny rules are not looked at: a name on one of them is denied every file.\<close>

lemma deny_rules_ignore_paths:
  assumes "ap \<in> set (deny SV)" "IsRegexItemIn (full_text_match env) ctx (accesslist ap) (hostname conn)"
    and "req = snd (ResolveFilename env (TranslatePath req_path))" "req \<noteq> []" "hd req = CHR ''/''"
    and "AccessControl env SV ctx req_path conn enc = Some (granted, conn')"
  shows "\<not> granted"
proof -
  have d: "find_index (\<lambda>ap. IsRegexItemIn (full_text_match env) ctx (accesslist ap) (hostname conn)) (deny SV) \<noteq> None"
    using assms(1,2) by (auto simp: find_index_None)
  show ?thesis
  proof (cases "admitting_rule env req (admit SV)")
    case None
    with assms(6) d show ?thesis
      by (auto simp: AccessControl_def Let_def assms(3) [symmetric] admit_loop_decides split: if_splits)
  next
    case (Some ap')
    then have "rule_covers (rule_path ap') req" by (auto simp: admitting_rule_def find_Some_iff)
    then have "take (length (rule_path ap')) req = rule_path ap'" using covers_prefix assms(4,5) by blast
    with assms(6) d Some show ?thesis
      by (auto simp: AccessControl_def Let_def assms(3) [symmetric] admit_loop_decides bind_eq_Some_conv split: if_splits)
  qed
qed

text \<open>A user without a name is allowed.\<close>

lemma empty_user_is_allowed: "AllowedUser SV []"
  by (simp add: AllowedUser_def item_in_def)

text \<open>
  The access that one class was given is left for the next: here only \<open>b\<close> is open, and \<open>secret\<close>, which no rule names, is
  answered when it is found behind \<open>b\<close>.
\<close>

lemma context_access_is_left:
  "context_candidates small_env (no_access\<lparr>varadmit := [open_rule ''b'' [(''10.0.0.1'', None)]]\<rparr>) ctx (client ''10.0.0.1'' ''h'') False
     [''b'', ''secret''] False False = Some ([''b'', ''secret''], False)"
proof -
  have "host_listed small_env ctx (client ''10.0.0.1'' ''h'') [(''10.0.0.1'', None)] = Some True"
    "host_listed small_env ctx (client ''10.0.0.1'' ''h'') [] = Some False"
    by (simp_all add: MapAddress_plain)
      (simp add: host_listed_def IsMatchItemIn_def client_def MapAddress_plain IsRegexItemIn_def)
  then show ?thesis by (simp add: no_access_def open_rule_def) (simp add: small_env_def)
qed

section \<open>Roles\<close>

lemma role_loop_result:
  "\<forall>ap \<in> set aps. role_open env ctx conn ap \<noteq> None \<Longrightarrow> role_loop env ctx conn cls aps p =
     Some (if \<exists>ap \<in> set aps. full_text_match env (path ap) cls \<and> role_open env ctx conn ap = Some False then None
           else Some (p \<or> (\<exists>ap \<in> set aps. full_text_match env (path ap) cls)))"
  by (induction aps arbitrary: p) auto

text \<open>
  A request to activate classes is permitted exactly when every role that covers one of them is open to the client, and
  some role covers one of them; nothing is asked of a class that no role covers.
\<close>

theorem roles_authorized:
  assumes "\<forall>ap \<in> set (roles SV). role_open env ctx conn ap \<noteq> None" "roles_loop env SV ctx conn wanted p = Some r"
  shows "r \<longleftrightarrow> (p \<or> (\<exists>cls \<in> set wanted. \<exists>ap \<in> set (roles SV). full_text_match env (path ap) cls)) \<and>
    (\<forall>cls \<in> set wanted. \<forall>ap \<in> set (roles SV). full_text_match env (path ap) cls \<longrightarrow> role_open env ctx conn ap = Some True)"
  using assms(2)
proof (induction wanted arbitrary: p)
  case (Cons cls wanted)
  from Cons.prems obtain q where q: "role_loop env ctx conn cls (roles SV) p = Some q"
    "(case q of None \<Rightarrow> Some False | Some p' \<Rightarrow> roles_loop env SV ctx conn wanted p') = Some r"
    by (auto simp: bind_eq_Some_conv)
  have all: "role_open env ctx conn ap = Some True \<longleftrightarrow> role_open env ctx conn ap \<noteq> Some False" if "ap \<in> set (roles SV)" for ap
    using assms(1) that by (cases "role_open env ctx conn ap") auto
  show ?case
  proof (cases q)
    case None
    with q role_loop_result [OF assms(1), of cls p] show ?thesis by (auto split: if_splits)
  next
    case (Some p')
    with q role_loop_result [OF assms(1), of cls p] Cons.IH [of p'] all show ?thesis by (auto split: if_splits)
  qed
qed simp

theorem roles_authorized_witness:
  "\<not> the (roles_loop small_env (no_access\<lparr>roles := [open_rule ''r'' []]\<rparr>) EvalContextNew (client ''10.0.0.1'' ''h'') [''x''] False)"
proof -
  let ?SV = "no_access\<lparr>roles := [open_rule ''r'' []]\<rparr>"
  have open_to: "\<forall>ap \<in> set (roles ?SV). role_open small_env EvalContextNew (client ''10.0.0.1'' ''h'') ap \<noteq> None"
    by (simp add: role_open_def Let_def open_rule_def host_listed_def IsMatchItemIn_def client_def MapAddress_plain)
  have run: "roles_loop small_env ?SV EvalContextNew (client ''10.0.0.1'' ''h'') [''x''] False = Some False"
    by (simp add: open_rule_def) (simp add: small_env_def)
  from roles_authorized [OF open_to run] run show ?thesis by simp
qed

end
