(* ===== verification/Server_Protocol.thy ===== *)
theory Server_Protocol
  imports Server_Access Lastseen
begin

text \<open>
  The protocol of \<open>cf-serverd/server.c\<close>: what a connection does with the messages of a client. The messages that are still to be
  received are a list of byte strings; what is sent is a list of events. The operating system, DNS, the password file and the
  cryptographic library are a record of functions. \<open>None\<close> is an access outside of a buffer.
\<close>

datatype ProtocolCommand =
    PROTOCOL_COMMAND_EXEC
  | PROTOCOL_COMMAND_AUTH
  | PROTOCOL_COMMAND_GET
  | PROTOCOL_COMMAND_OPENDIR
  | PROTOCOL_COMMAND_SYNC
  | PROTOCOL_COMMAND_CONTEXTS
  | PROTOCOL_COMMAND_MD5
  | PROTOCOL_COMMAND_MD5_SECURE
  | PROTOCOL_COMMAND_AUTH_CLEAR
  | PROTOCOL_COMMAND_AUTH_SECURE
  | PROTOCOL_COMMAND_SYNC_SECURE
  | PROTOCOL_COMMAND_GET_SECURE
  | PROTOCOL_COMMAND_VERSION
  | PROTOCOL_COMMAND_OPENDIR_SECURE
  | PROTOCOL_COMMAND_VAR
  | PROTOCOL_COMMAND_VAR_SECURE
  | PROTOCOL_COMMAND_CONTEXT
  | PROTOCOL_COMMAND_CONTEXT_SECURE
  | PROTOCOL_COMMAND_QUERY_SECURE
  | PROTOCOL_COMMAND_CALL_ME_BACK
  | PROTOCOL_COMMAND_BAD

definition PROTOCOL :: "(string \<times> ProtocolCommand) list" where
  "PROTOCOL =
     [(''EXEC'', PROTOCOL_COMMAND_EXEC), (''AUTH'', PROTOCOL_COMMAND_AUTH), (''GET'', PROTOCOL_COMMAND_GET),
      (''OPENDIR'', PROTOCOL_COMMAND_OPENDIR), (''SYNCH'', PROTOCOL_COMMAND_SYNC), (''CLASSES'', PROTOCOL_COMMAND_CONTEXTS),
      (''MD5'', PROTOCOL_COMMAND_MD5), (''SMD5'', PROTOCOL_COMMAND_MD5_SECURE), (''CAUTH'', PROTOCOL_COMMAND_AUTH_CLEAR),
      (''SAUTH'', PROTOCOL_COMMAND_AUTH_SECURE), (''SSYNCH'', PROTOCOL_COMMAND_SYNC_SECURE),
      (''SGET'', PROTOCOL_COMMAND_GET_SECURE), (''VERSION'', PROTOCOL_COMMAND_VERSION),
      (''SOPENDIR'', PROTOCOL_COMMAND_OPENDIR_SECURE), (''VAR'', PROTOCOL_COMMAND_VAR),
      (''SVAR'', PROTOCOL_COMMAND_VAR_SECURE), (''CONTEXT'', PROTOCOL_COMMAND_CONTEXT),
      (''SCONTEXT'', PROTOCOL_COMMAND_CONTEXT_SECURE), (''SQUERY'', PROTOCOL_COMMAND_QUERY_SECURE),
      (''SCALLBACK'', PROTOCOL_COMMAND_CALL_ME_BACK)]"

text \<open>The result \<open>-1\<close> is \<open>None\<close>.\<close>

definition GetCommand :: "string \<Rightarrow> ProtocolCommand option" where
  "GetCommand str = map_option snd (List.find (\<lambda>(word, _). strncmp str word (length word) = 0) PROTOCOL)"

section \<open>The world of a connection\<close>

datatype event =
    Refused
  | Told string
  | FileSent string bool
  | TransferFailed string
  | DirSent string bool
  | StatSent string
  | HashCompared string bool
  | LiteralSent string bool
  | ContextSent "string list" bool
  | Executed string
  | KeySaved string string
  | Challenged

record Host =
  decrypt :: "char \<Rightarrow> string option \<Rightarrow> string \<Rightarrow> string"
  addresses :: "string \<Rightarrow> string list"
  passwd :: "string \<Rightarrow> int option"
  file_owner :: "string \<Rightarrow> int"
  other_read :: "string \<Rightarrow> bool"
  can_open :: "string \<Rightarrow> bool"
  file_hash :: "string \<Rightarrow> nat list"
  clock :: "int option"
  find_separator :: "string \<Rightarrow> (nat \<times> nat) option"
  run_command :: string
  deny_bad_clocks :: bool
  clock_drift :: int
  default_digest :: HashMethod
  challenge_digest :: HashMethod
  own_key :: bool
  private_decrypt :: "string \<Rightarrow> string option"
  public_encrypt :: "int \<times> int \<Rightarrow> string \<Rightarrow> bool"
  big_number :: "string \<Rightarrow> int option"
  key_digest :: "int \<times> int \<Rightarrow> nat list"
  saved_key :: "string \<Rightarrow> string \<Rightarrow> string \<Rightarrow> (int \<times> int) option"
  hash_bytes :: "HashMethod \<Rightarrow> string \<Rightarrow> nat list"
  fresh_challenge :: string

record World =
  conn :: ServerConnectionState
  SV :: ServerAccess
  state_db :: StateDB
  seen_db :: "SeenDB option"
  inbox :: "string list"
  sent :: "event list"

definition send :: "event \<Rightarrow> World \<Rightarrow> World" where
  "send e w = w\<lparr>sent := sent w @ [e]\<rparr>"

abbreviation RefuseAccess :: "World \<Rightarrow> World" where
  "RefuseAccess w \<equiv> send Refused w"

definition CFD_TERMINATOR :: string where
  "CFD_TERMINATOR = ''---cfXen/gine/cfXen/gine---''"

definition Terminate :: "World \<Rightarrow> World" where
  "Terminate w = send (Told CFD_TERMINATOR) w"

definition ReplyNothing :: "World \<Rightarrow> World" where
  "ReplyNothing w = send (Told ''Hello, nothing relevant to do here'') w"

text \<open>The text in a buffer, up to the first \<open>NUL\<close>.\<close>

definition c_text :: "string \<Rightarrow> string" where
  "c_text bytes = takeWhile (\<lambda>c. c \<noteq> CHR 0x00) bytes"

text \<open>\<open>%d\<close>, \<open>%u\<close> and the characters a format has to match.\<close>

definition int32 :: "int \<Rightarrow> int" where
  "int32 i = (i + 2 ^ 31) mod 2 ^ 32 - 2 ^ 31"

definition after :: "string \<Rightarrow> string \<Rightarrow> string option" where
  "after word s = (if take (length word) s = word then Some (drop (length word) s) else None)"

definition scan_d :: "string \<Rightarrow> (int \<times> string) option" where
  "scan_d s = map_option (\<lambda>(i, r). (int32 i, r)) (scan_ld s)"

definition scan_u :: "string \<Rightarrow> (int \<times> string) option" where
  "scan_u s = map_option (\<lambda>(i, r). (i mod 2 ^ 32, r)) (scan_ld s)"

definition CF_PROTO_OFFSET :: int where
  "CF_PROTO_OFFSET = 16"

text \<open>The length an encrypted command announces; the variable is 0 when there is none.\<close>

definition announced :: "string \<Rightarrow> string \<Rightarrow> int" where
  "announced word s = (case after word s of None \<Rightarrow> 0 | Some r \<Rightarrow> (case scan_u r of None \<Rightarrow> 0 | Some (i, _) \<Rightarrow> i))"

text \<open>What is in the buffer when \<open>len\<close> bytes behind the offset have been decrypted to its start.\<close>

definition decrypted :: "Host \<Rightarrow> ServerConnectionState \<Rightarrow> string \<Rightarrow> int \<Rightarrow> string" where
  "decrypted host c raw len =
     (let plain = decrypt host (encryption_type c) (session_key c) (take (nat len) (drop 16 raw))
      in plain @ drop (length plain) raw)"

section \<open>Who is there\<close>

definition scan_words3 :: "string \<Rightarrow> string \<times> string \<times> string" where
  "scan_words3 buf =
     (let a = scan_word 255 buf; r = drop (length a) (dropWhile isspace buf);
          b = scan_word 255 r; q = drop (length b) (dropWhile isspace r)
      in (a, b, scan_word 255 q))"

definition lookup_uid :: "Host \<Rightarrow> string \<Rightarrow> int" where
  "lookup_uid host user = (case passwd host user of None \<Rightarrow> - 2 | Some u \<Rightarrow> u)"

text \<open>The names fit their fields, as a word has at most 255 characters.\<close>

definition VerifyConnection :: "ServerEnv \<Rightarrow> Host \<Rightarrow> ServerAccess \<Rightarrow> ServerConnectionState \<Rightarrow> string \<Rightarrow> (bool \<times> ServerConnectionState) option" where
  "VerifyConnection env host sv c buf =
     do {
       let (ipstring, fqname, user) = scan_words3 buf;
       let dns_assert = ToLowerStrInplace fqname;
       let c1 = c\<lparr>uid := lookup_uid host user\<rparr>;
       skip \<leftarrow> (if \<not> trust c then Some True else IsMatchItemIn env (skipverify sv) (MapAddress (ipaddr c)));
       (if skip then Some (True, c1\<lparr>hostname := dns_assert, username := user\<rparr>)
        else if strcmp ipstring (MapAddress (ipaddr c)) \<noteq> 0 then Some (False, c)
        else if length dns_assert = 0 then Some (False, c)
        else if strcmp dns_assert ''skipident'' = 0 then Some (False, c)
        else if \<not> list_ex (\<lambda>a. strcmp (MapAddress (ipaddr c)) a = 0) (addresses host dns_assert) then Some (False, c1)
        else Some (True, c1\<lparr>hostname := dns_assert, username := user\<rparr>))
     }"

definition IdempPrepend :: "items \<Rightarrow> string \<Rightarrow> items" where
  "IdempPrepend list item = (if item_in list item then list else (item, None) # list)"

text \<open>The key is known, or it is accepted on trust.\<close>

definition CheckStoreKey :: "ServerEnv \<Rightarrow> Host \<Rightarrow> World \<Rightarrow> int \<times> int \<Rightarrow> (bool \<times> World) option" where
  "CheckStoreKey env host w key =
     (let c = conn w; addr = MapAddress (ipaddr c);
          udigest = take (CF_MAXVARSIZE - 2) (HashPrintSafe (default_digest host) (digest c));
          saved = saved_key host (username c) addr udigest;
          w1 = (if saved = None then w else w\<lparr>SV := (SV w)\<lparr>skipverify := IdempPrepend (skipverify (SV w)) addr\<rparr>\<rparr>)
      in if saved = Some key then Some (True, send (Told ''OK: key accepted'') w1)
         else do {
           listed \<leftarrow> (if trustkeylist (SV w1) = [] then Some False else IsMatchItemIn env (trustkeylist (SV w1)) addr);
           (if listed then
              Some (True, send (KeySaved (username c) udigest)
                (send (Told ''OK: unknown key was accepted on trust'') (w1\<lparr>conn := c\<lparr>trust := True\<rparr>\<rparr>)))
            else Some (False, send (Told ''BAD: key could not be accepted on trust'') w1))
         })"

definition Receive :: "World \<Rightarrow> (string \<times> World) option" where
  "Receive w = (case inbox w of [] \<Rightarrow> None | m # ms \<Rightarrow> Some (m, w\<lparr>inbox := ms\<rparr>))"

text \<open>The fields of the opening string: the word, the letter and the two lengths.\<close>

definition scan_auth :: "string \<Rightarrow> string \<times> char \<times> int \<times> int \<times> char" where
  "scan_auth s =
     (let word = takeWhile (\<lambda>c. \<not> isspace c) (dropWhile isspace s);
          r = dropWhile isspace (drop (length word) (dropWhile isspace s))
      in case r of
           [] \<Rightarrow> (word, CHR ''n'', 0, 0, CHR ''c'')
         | c # r1 \<Rightarrow>
             (case scan_u r1 of
                None \<Rightarrow> (word, c, 0, 0, CHR ''c'')
              | Some (crypt_len, r2) \<Rightarrow>
                  (case scan_u r2 of
                     None \<Rightarrow> (word, c, crypt_len, 0, CHR ''c'')
                   | Some (nonce_len, r3) \<Rightarrow>
                       (word, c, crypt_len, nonce_len,
                        case dropWhile isspace r3 of [] \<Rightarrow> CHR ''c'' | d # _ \<Rightarrow> d))))"

definition bytes_of :: "string \<Rightarrow> nat list" where
  "bytes_of s = map of_char s"

text \<open>
  The second half of the dialogue, when the client's key is accepted: it has to answer the challenge and sends the key of the session. The
  key is taken as it is when it has 16 bytes.
\<close>

definition session_dialogue :: "Host \<Rightarrow> World \<Rightarrow> int \<times> int \<Rightarrow> char \<Rightarrow> char \<Rightarrow> bool \<times> World" where
  "session_dialogue host w key iscrypt enterprise_field =
     (if \<not> public_encrypt host key (fresh_challenge host) then (False, w)
      else
        (let w1 = send Challenged w;
             w2 = (if iscrypt \<noteq> CHR ''y'' then send (Told ''key'') w1 else w1)
         in case Receive w2 of
              None \<Rightarrow> (False, w2)
            | Some (reply, w3) \<Rightarrow>
                (if \<not> HashesMatch (hash_bytes host (challenge_digest host) (fresh_challenge host))
                        (bytes_of reply @ replicate CF_BUFSIZE 0) (challenge_digest host) then (False, w3)
                 else
                   (case Receive w3 of
                      None \<Rightarrow> (False, w3)
                    | Some (m, w4) \<Rightarrow>
                        (if length m > CF_BUFSIZE div 2 then (False, w4)
                         else
                           (let c = (conn w4)\<lparr>encryption_type := enterprise_field\<rparr> in
                            case (if length m = 16 then Some m else private_decrypt host m) of
                              None \<Rightarrow> (False, w4\<lparr>conn := c\<lparr>session_key := Some []\<rparr>\<rparr>)
                            | Some k \<Rightarrow> (True, w4\<lparr>conn := c\<lparr>session_key := Some (take 16 k), rsa_auth := True\<rparr>\<rparr>)))))))"

text \<open>
  \<open>char sauth[10]\<close> is filled by \<open>%s\<close> without a limit. The nonce is hashed to its announced length,
  of the bytes that were decrypted.
\<close>

definition AuthenticationDialogue :: "ServerEnv \<Rightarrow> Host \<Rightarrow> World \<Rightarrow> string \<Rightarrow> (bool \<times> World) option" where
  "AuthenticationDialogue env host w raw =
     (case scan_auth (c_text raw) of (sauth, iscrypt, crypt_len, nonce_len, enterprise_field) \<Rightarrow>
       if \<not> own_key host then Some (False, w)
       else if length sauth > 9 then None
       else if crypt_len = 0 \<or> nonce_len = 0 \<or> length sauth = 0 then Some (False, w)
       else if nonce_len > 512 \<or> crypt_len > 512 then Some (False, w)
       else if 24 + nonce_len > int (length raw) then Some (False, w)
       else if strcmp sauth ''SAUTH'' \<noteq> 0 then Some (False, w)
       else if iscrypt = CHR ''y'' \<and> private_decrypt host (take (nat crypt_len) (drop 24 raw)) = None then Some (False, w)
       else if nonce_len > crypt_len then (if iscrypt = CHR ''y'' then None else Some (False, w))
       else
         (case Receive w of
            None \<Rightarrow> Some (False, w)
          | Some (n, w1) \<Rightarrow>
              (if n = [] then Some (False, w1)
               else case big_number host n of
                 None \<Rightarrow> Some (False, w1)
               | Some kn \<Rightarrow>
                   (case Receive w1 of
                      None \<Rightarrow> Some (False, w1)
                    | Some (e, w2) \<Rightarrow>
                        (if e = [] then Some (False, w2)
                         else case big_number host e of
                           None \<Rightarrow> Some (False, w2)
                         | Some ke \<Rightarrow>
                             (let c = (conn w2)\<lparr>digest := key_digest host (kn, ke)\<rparr>;
                                  w3 = w2\<lparr>conn := c, seen_db :=
                                    LastSaw (default_digest host) (case clock host of None \<Rightarrow> - 1 | Some t \<Rightarrow> t) (ipaddr c) (digest c)
                                      LAST_SEEN_ROLE_ACCEPT (seen_db w2)\<rparr>
                              in do {
                                (ok, w4) \<leftarrow> CheckStoreKey env host w3 (kn, ke);
                                Some (if \<not> ok \<and> \<not> trust (conn w4) then (False, w4)
                                      else session_dialogue host (send (Told ''digest'') w4) (kn, ke) iscrypt enterprise_field)
                              }))))))"


section \<open>Commands\<close>

text \<open>\<open>SplitStringAsItemList\<close>: at most 255 characters up to a separator make an item.\<close>

function split_items :: "char \<Rightarrow> string \<Rightarrow> string list" where
  "split_items sep s =
     (if s = [] then []
      else
        (let node = take 255 (takeWhile (\<lambda>c. c \<noteq> sep) s) in
         if node = [] then split_items sep (tl s) else node # split_items sep (drop (length node) s)))"
  by pat_completeness auto
termination
  by (relation "measure (\<lambda>(_, s). length s)") auto

declare split_items.simps [simp del]

text \<open>Whether the names say that the answer is known: \<open>None\<close> goes on with the next message.\<close>

fun class_names :: "ServerEnv \<Rightarrow> EvalContext \<Rightarrow> string list \<Rightarrow> World \<Rightarrow> (bool \<times> World) option" where
  "class_names env ctx [] w = None"
| "class_names env ctx (nm # ip) w =
     (if IsDefinedClass ctx (Some nm) None then Some (True, w)
      else if EvalContextHeapMatchCountSoft (full_text_match env) ctx nm > 0 then Some (True, w)
      else if EvalContextHeapMatchCountHard (full_text_match env) ctx nm > 0 then Some (True, w)
      else if strncmp nm CFD_TERMINATOR (length CFD_TERMINATOR) = 0 then Some (False, ReplyNothing w)
      else class_names env ctx ip w)"

text \<open>Up to ten messages with classes, \<open>n\<close> of them to come.\<close>

fun match_classes_loop :: "ServerEnv \<Rightarrow> EvalContext \<Rightarrow> nat \<Rightarrow> World \<Rightarrow> bool \<times> World" where
  "match_classes_loop env ctx 0 w = (False, ReplyNothing w)"
| "match_classes_loop env ctx (Suc n) w =
     (case Receive w of
        None \<Rightarrow> (False, w)
      | Some (m, w1) \<Rightarrow>
          (if strncmp (c_text m) CFD_TERMINATOR (length CFD_TERMINATOR) = 0
           then (if Suc n = 10 then (True, w1) else (False, ReplyNothing w1))
           else
             (case class_names env ctx (split_items (CHR '' '') (c_text m)) w1 of
                Some r \<Rightarrow> r
              | None \<Rightarrow> match_classes_loop env ctx n w1)))"

definition MatchClasses :: "ServerEnv \<Rightarrow> EvalContext \<Rightarrow> World \<Rightarrow> bool \<times> World" where
  "MatchClasses env ctx w = match_classes_loop env ctx 10 w"

text \<open>Whether the word is at the index \<open>pos\<close> of the arguments.\<close>

definition OptionFound :: "string \<Rightarrow> nat \<Rightarrow> string \<Rightarrow> bool" where
  "OptionFound args pos word =
     (if length word = 2 \<and> strncmp (drop pos args) word 2 = 0 then True
      else if strncmp (drop pos args) word (length word) \<noteq> 0 then False
      else if pos = 0 then True
      else args ! (pos - 1) = CHR '' '' \<and>
        (pos + length word = length args \<or> args ! (pos + length word) = CHR '' ''))"

definition blank :: "nat \<Rightarrow> nat \<Rightarrow> string \<Rightarrow> string" where
  "blank pos n args = take pos args @ replicate n (CHR '' '') @ drop (pos + n) args"

text \<open>
  The loop over the arguments, of which \<open>n\<close> characters are to come: \<open>Some None\<close> when the client is told that it may not,
  else the arguments with the options blanked out.
\<close>

fun args_loop :: "ServerEnv \<Rightarrow> Host \<Rightarrow> EvalContext \<Rightarrow> World \<Rightarrow> nat \<Rightarrow> string \<Rightarrow> string option option" where
  "args_loop env host ctx w 0 args = Some (Some args)"
| "args_loop env host ctx w (Suc n) args =
     (let sp = length args - Suc n; c = args ! sp in
      if c = CHR '';'' \<or> c = CHR ''&'' \<or> c = CHR ''|'' then Some None
      else if OptionFound args sp ''-K'' \<or> OptionFound args sp ''-f''
      then args_loop env host ctx w n (blank sp 2 args)
      else if OptionFound args sp ''--no-lock'' then args_loop env host ctx w n (blank sp 9 args)
      else if OptionFound args sp ''--file'' then args_loop env host ctx w n (blank sp 6 args)
      else if OptionFound args sp ''--define'' \<or> OptionFound args sp ''-D'' then
        do {
          ok \<leftarrow> AuthorizeRoles env (find_separator host) (SV w) ctx (conn w) (drop sp args);
          (if ok then args_loop env host ctx w n args else Some None)
        }
      else args_loop env host ctx w n args)"

definition DoExec :: "ServerEnv \<Rightarrow> Host \<Rightarrow> EvalContext \<Rightarrow> World \<Rightarrow> string \<Rightarrow> World option" where
  "DoExec env host ctx w args =
     (if length (run_command host) = 0 then Some (send (Told ''Exec request: no cfruncommand defined'') w)
      else do {
        r \<leftarrow> args_loop env host ctx w (length args) args;
        (case r of
           None \<Rightarrow> Some (send (Told ''You are not authorized to activate these classes/roles'') w)
         | Some args1 \<Rightarrow>
             (let ebuff = take (CF_BUFSIZE - 1) (run_command host @ '' --inform'') in
              if length ebuff + length args1 + 6 > CF_BUFSIZE then Some (send (Told ''Command line too long'') w)
              else Some (send (Executed (if length args1 > 0 then ebuff @ '' '' @ args1 else ebuff)) w)))
      })"

definition TransferRights :: "Host \<Rightarrow> ServerConnectionState \<Rightarrow> string \<Rightarrow> bool" where
  "TransferRights host c filename =
     (if uid c \<noteq> 0 \<and> \<not> maproot c then
        (if file_owner host filename = uid c then True else other_read host filename)
      else True)"

definition CfGetFile :: "Host \<Rightarrow> World \<Rightarrow> string \<Rightarrow> World" where
  "CfGetFile host w replyfile =
     (let filename = TranslatePath replyfile in
      if \<not> TransferRights host (conn w) filename then send (TransferFailed filename) (RefuseAccess w)
      else if \<not> can_open host filename then send (TransferFailed filename) w
      else send (FileSent filename False) w)"

text \<open>The transfer goes on after it has been refused.\<close>

definition CfEncryptGetFile :: "Host \<Rightarrow> World \<Rightarrow> string \<Rightarrow> World" where
  "CfEncryptGetFile host w replyfile =
     (let filename = TranslatePath replyfile;
          w1 = (if \<not> TransferRights host (conn w) filename then send (TransferFailed filename) (RefuseAccess w) else w)
      in if \<not> can_open host filename then send (TransferFailed filename) w1
         else send (FileSent filename True) w1)"

definition CfOpenDirectory :: "Host \<Rightarrow> World \<Rightarrow> string \<Rightarrow> World" where
  "CfOpenDirectory host w oldDirname =
     (let dirname = TranslatePath oldDirname in
      if \<not> IsAbsoluteFileName dirname then send (Told ''BAD: request to access a non-absolute filename'') w
      else if \<not> can_open host dirname then send (Told ''BAD: cfengine, could not open dir'') w
      else send (DirSent dirname False) w)"

definition CfSecOpenDirectory :: "Host \<Rightarrow> World \<Rightarrow> string \<Rightarrow> World" where
  "CfSecOpenDirectory host w dirname =
     (if \<not> IsAbsoluteFileName dirname then send (Told ''BAD: request to access a non-absolute filename'') w
      else if \<not> can_open host dirname then send (Told ''BAD: cfengine, could not open dir'') w
      else send (DirSent dirname True) w)"

definition StatFile :: "ServerEnv \<Rightarrow> World \<Rightarrow> string \<Rightarrow> World" where
  "StatFile env w ofilename =
     (let filename = TranslatePath ofilename in
      if length (ReadLastNode filename) > CF_MAXLINKSIZE then send (Told ''BAD: Filename suspiciously long'') w
      else if \<not> lstat_ok env filename then send (Told ''BAD: unable to stat file'') w
      else send (StatSent filename) w)"

text \<open>The digest of the client is behind the text and two bytes.\<close>

definition CompareLocalHash :: "Host \<Rightarrow> World \<Rightarrow> string \<Rightarrow> World" where
  "CompareLocalHash host w raw =
     (let txt = c_text raw;
          filename = TranslatePath (scan_line CF_BUFSIZE (drop 3 txt));
          digest1 = bytes_of (drop (length txt + 2) raw) @ replicate CF_BUFSIZE 0;
          digest2 = file_hash host filename
      in send (HashCompared filename
           (HashesMatch digest1 digest2 (default_digest host) \<or> HashesMatch digest1 digest2 HASH_METHOD_MD5)) w)"

text \<open>Literals and queries are answered by the enterprise edition only.\<close>

definition GetServerLiteral :: "World \<Rightarrow> bool \<Rightarrow> World" where
  "GetServerLiteral w encrypted = send (LiteralSent ''BAD: Not found'' encrypted) w"

definition GetServerQuery :: "World \<Rightarrow> string \<Rightarrow> bool" where
  "GetServerQuery w txt = False"

fun context_text :: "string list \<Rightarrow> nat \<Rightarrow> string list" where
  "context_text [] used = []"
| "context_text (nm # ip) used =
     (if used + length nm < CF_BUFSIZE - 3 then nm # context_text ip (used + length nm + 1) else [])"

definition ReplyServerContext :: "World \<Rightarrow> bool \<Rightarrow> string list \<Rightarrow> World" where
  "ReplyServerContext w encrypted classes = send (ContextSent (context_text classes 0) encrypted) w"

section \<open>One message\<close>

definition bad_request :: "World \<Rightarrow> bool \<times> World" where
  "bad_request w = (False, send (Told ''BAD: Request denied'') w)"

definition busy_exec :: "ServerEnv \<Rightarrow> Host \<Rightarrow> EvalContext \<Rightarrow> World \<Rightarrow> string \<Rightarrow> (bool \<times> World) option" where
  "busy_exec env host ctx w txt =
     (let args = scan_line 255 (drop 4 txt); c = conn w in
      if \<not> id_verified c then Some (False, RefuseAccess w)
      else if \<not> AllowedUser (SV w) (username c) then Some (False, RefuseAccess w)
      else if \<not> rsa_auth c then Some (False, RefuseAccess w)
      else do {
        (ok, c1) \<leftarrow> AccessControl env (SV w) ctx (CommandArg0 (run_command host)) c False;
        let w1 = w\<lparr>conn := c1\<rparr>;
        (if \<not> ok then Some (False, RefuseAccess w1)
         else
           (case MatchClasses env ctx w1 of
              (False, w2) \<Rightarrow> Some (False, Terminate w2)
            | (True, w2) \<Rightarrow> do { w3 \<leftarrow> DoExec env host ctx w2 args; Some (False, Terminate w3) }))
      })"

text \<open>A file that is asked for by name: the connection is kept or closed when the access is denied.\<close>

definition with_access ::
  "ServerEnv \<Rightarrow> EvalContext \<Rightarrow> World \<Rightarrow> string \<Rightarrow> bool \<Rightarrow> bool \<Rightarrow> (World \<Rightarrow> World) \<Rightarrow> (bool \<times> World) option"
where
  "with_access env ctx w filename enc stay serve =
     (if \<not> id_verified (conn w) then Some (False, RefuseAccess w)
      else do {
        (ok, c1) \<leftarrow> AccessControl env (SV w) ctx filename (conn w) enc;
        let w1 = w\<lparr>conn := c1\<rparr>;
        Some (if ok then (True, serve w1) else (stay, RefuseAccess w1))
      })"

definition busy_get :: "ServerEnv \<Rightarrow> Host \<Rightarrow> EvalContext \<Rightarrow> World \<Rightarrow> string \<Rightarrow> (bool \<times> World) option" where
  "busy_get env host ctx w txt =
     (let (buf_size, filename) =
        (case scan_d (drop 3 txt) of None \<Rightarrow> (0, []) | Some (i, r) \<Rightarrow> (i, scan_line CF_BUFSIZE r))
      in if buf_size < 0 \<or> buf_size > int CF_BUFSIZE then Some (False, RefuseAccess w)
         else with_access env ctx w filename False True (\<lambda>w1. CfGetFile host w1 filename))"

definition busy_get_secure :: "ServerEnv \<Rightarrow> Host \<Rightarrow> EvalContext \<Rightarrow> World \<Rightarrow> string \<Rightarrow> (bool \<times> World) option" where
  "busy_get_secure env host ctx w raw =
     (let txt = c_text raw;
          (len, buf_size) = (case scan_u (drop 4 txt) of None \<Rightarrow> (0, 0)
            | Some (l, r) \<Rightarrow> (case scan_d r of None \<Rightarrow> (l, 0) | Some (b, _) \<Rightarrow> (l, b)))
      in if int (length raw) \<noteq> (len + CF_PROTO_OFFSET) mod 2 ^ 32 then Some (False, RefuseAccess w)
         else
           (let buffer = decrypt host (encryption_type (conn w)) (session_key (conn w)) (take (nat len) (drop 16 raw));
                check = c_text (take 3 buffer); filename = c_text (drop 13 buffer)
            in if strcmp check ''GET'' \<noteq> 0 then Some (True, RefuseAccess w)
               else if buf_size < 0 \<or> buf_size > 8192 then Some (False, RefuseAccess w)
               else with_access env ctx w filename True False (\<lambda>w1. CfEncryptGetFile host w1 filename)))"

text \<open>
  An encrypted command: the length is checked, with or without one the session key, and the buffer is decrypted; \<open>stay\<close> and
  \<open>stay2\<close> are the results of the two refusals.
\<close>

definition with_decrypted ::
  "Host \<Rightarrow> World \<Rightarrow> string \<Rightarrow> string \<Rightarrow> bool \<Rightarrow> string \<Rightarrow> bool \<Rightarrow> bool \<Rightarrow> (string \<Rightarrow> (bool \<times> World) option) \<Rightarrow>
   (bool \<times> World) option"
where
  "with_decrypted host w raw word need_key inner stay stay2 next_step =
     (let len = announced word (c_text raw) in
      if len \<ge> int CF_BUFSIZE \<or> int (length raw) \<noteq> (len + CF_PROTO_OFFSET) mod 2 ^ 32 then Some (stay, RefuseAccess w)
      else if need_key \<and> session_key (conn w) = None then Some (False, RefuseAccess w)
      else
        (let raw1 = decrypted host (conn w) raw len in
         if strncmp (c_text raw1) inner (length inner) \<noteq> 0 then Some (stay2, RefuseAccess w) else next_step raw1))"

definition busy_opendir :: "ServerEnv \<Rightarrow> EvalContext \<Rightarrow> World \<Rightarrow> string \<Rightarrow> (World \<Rightarrow> string \<Rightarrow> World) \<Rightarrow> (bool \<times> World) option" where
  "busy_opendir env ctx w txt serve =
     (let filename = scan_line CF_BUFSIZE (drop 7 txt)
      in with_access env ctx w filename True False (\<lambda>w1. serve w1 filename))"

text \<open>The difference of the clocks is an \<open>int\<close>, and so is its square.\<close>

definition clocks_differ :: "Host \<Rightarrow> int \<Rightarrow> int \<Rightarrow> bool" where
  "clocks_differ host tloc trem \<longleftrightarrow>
     (let drift = int32 (tloc - trem)
      in deny_bad_clocks host \<and> int32 (drift * drift) > int32 (clock_drift host * clock_drift host))"

definition busy_sync :: "ServerEnv \<Rightarrow> Host \<Rightarrow> EvalContext \<Rightarrow> World \<Rightarrow> string \<Rightarrow> (bool \<times> World) option" where
  "busy_sync env host ctx w txt =
     (if \<not> id_verified (conn w) then Some (False, RefuseAccess w)
      else
        (let (time_no_see, filename) =
           (case scan_ld (drop 5 txt) of
              None \<Rightarrow> (0, [])
            | Some (t, r) \<Rightarrow>
                (case after ''STAT'' (dropWhile isspace r) of None \<Rightarrow> (t, []) | Some q \<Rightarrow> (t, scan_line CF_BUFSIZE q)))
         in if time_no_see = 0 \<or> filename = [] then Some (bad_request w)
            else
              (case clock host of
                 None \<Rightarrow> Some (True, send (Told ''BAD: clocks out of synch'') w)
               | Some tloc \<Rightarrow>
                   with_access env ctx w filename True True
                     (\<lambda>w1. if clocks_differ host tloc time_no_see then send (Told ''BAD: Clocks are too far unsynchronized'') w1
                           else StatFile env w1 filename))))"

definition busy_var :: "ServerEnv \<Rightarrow> EvalContext \<Rightarrow> World \<Rightarrow> string \<Rightarrow> bool \<Rightarrow> (World \<Rightarrow> bool \<times> World) \<Rightarrow> (bool \<times> World) option" where
  "busy_var env ctx w txt encrypted serve =
     (if \<not> id_verified (conn w) then Some (True, RefuseAccess w)
      else do {
        (ok, c1) \<leftarrow> LiteralAccessControl env (SV w) ctx txt (conn w) encrypted;
        let w1 = w\<lparr>conn := c1\<rparr>;
        Some (if ok then serve w1 else (False, RefuseAccess w1))
      })"

definition busy_context :: "ServerEnv \<Rightarrow> Host \<Rightarrow> EvalContext \<Rightarrow> World \<Rightarrow> string \<Rightarrow> bool \<Rightarrow> (bool \<times> World) option" where
  "busy_context env host ctx w txt encrypted =
     (if \<not> id_verified (conn w) then Some (True, RefuseAccess w)
      else do {
        (classes, c1, db) \<leftarrow> ContextAccessControl env (SV w) ctx (case clock host of None \<Rightarrow> - 1 | Some t \<Rightarrow> t) (state_db w) txt
          (conn w) encrypted;
        let w1 = w\<lparr>conn := c1, state_db := db\<rparr>;
        Some (if classes = [] then (False, RefuseAccess w1) else (True, ReplyServerContext w1 encrypted classes))
      })"

definition busy_command ::
  "ServerEnv \<Rightarrow> Host \<Rightarrow> EvalContext \<Rightarrow> World \<Rightarrow> string \<Rightarrow> ProtocolCommand option \<Rightarrow> (bool \<times> World) option"
where
  "busy_command env host ctx w raw command =
     (let txt = c_text raw; c = conn w in
      case command of
        Some PROTOCOL_COMMAND_EXEC \<Rightarrow> busy_exec env host ctx w txt
      | Some PROTOCOL_COMMAND_VERSION \<Rightarrow>
          Some (id_verified c, send (Told ''OK: version'') (if id_verified c then w else RefuseAccess w))
      | Some PROTOCOL_COMMAND_AUTH_CLEAR \<Rightarrow>
          do {
            (ok, c1) \<leftarrow> VerifyConnection env host (SV w) c (drop 6 txt);
            let w1 = w\<lparr>conn := c1\<lparr>id_verified := ok\<rparr>\<rparr>;
            Some (ok, if ok then w1 else RefuseAccess w1)
          }
      | Some PROTOCOL_COMMAND_AUTH_SECURE \<Rightarrow>
          (if \<not> id_verified c then Some (False, RefuseAccess w)
           else do {
             (ok, w1) \<leftarrow> AuthenticationDialogue env host w raw;
             Some (ok, if ok then w1 else RefuseAccess w1)
           })
      | Some PROTOCOL_COMMAND_GET \<Rightarrow> busy_get env host ctx w txt
      | Some PROTOCOL_COMMAND_GET_SECURE \<Rightarrow> busy_get_secure env host ctx w raw
      | Some PROTOCOL_COMMAND_OPENDIR_SECURE \<Rightarrow>
          with_decrypted host w raw ''SOPENDIR'' True ''OPENDIR'' False True
            (\<lambda>raw1. busy_opendir env ctx w (c_text raw1) (CfSecOpenDirectory host))
      | Some PROTOCOL_COMMAND_OPENDIR \<Rightarrow> busy_opendir env ctx w txt (CfOpenDirectory host)
      | Some PROTOCOL_COMMAND_SYNC_SECURE \<Rightarrow>
          with_decrypted host w raw ''SSYNCH'' True ''SYNCH'' False True (\<lambda>raw1. busy_sync env host ctx w (c_text raw1))
      | Some PROTOCOL_COMMAND_SYNC \<Rightarrow> busy_sync env host ctx w txt
      | Some PROTOCOL_COMMAND_MD5_SECURE \<Rightarrow>
          with_decrypted host w raw ''SMD5'' False ''MD5'' True False
            (\<lambda>raw1. Some (if id_verified c then (True, CompareLocalHash host w raw1) else (True, RefuseAccess w)))
      | Some PROTOCOL_COMMAND_MD5 \<Rightarrow>
          Some (if id_verified c then (True, CompareLocalHash host w raw) else (True, RefuseAccess w))
      | Some PROTOCOL_COMMAND_VAR_SECURE \<Rightarrow>
          with_decrypted host w raw ''SVAR'' False ''VAR'' True False
            (\<lambda>raw1. busy_var env ctx w (c_text raw1) True (\<lambda>w1. (True, GetServerLiteral w1 True)))
      | Some PROTOCOL_COMMAND_VAR \<Rightarrow> busy_var env ctx w txt False (\<lambda>w1. (True, GetServerLiteral w1 False))
      | Some PROTOCOL_COMMAND_CONTEXT_SECURE \<Rightarrow>
          with_decrypted host w raw ''SCONTEXT'' False ''CONTEXT'' True False
            (\<lambda>raw1. busy_context env host ctx w (c_text raw1) True)
      | Some PROTOCOL_COMMAND_CONTEXT \<Rightarrow> busy_context env host ctx w txt False
      | Some PROTOCOL_COMMAND_QUERY_SECURE \<Rightarrow>
          with_decrypted host w raw ''SQUERY'' False ''QUERY'' True False
            (\<lambda>raw1. busy_var env ctx w (c_text raw1) True
               (\<lambda>w1. if GetServerQuery w1 (c_text raw1) then (True, w1) else bad_request w1))
      | Some PROTOCOL_COMMAND_CALL_ME_BACK \<Rightarrow>
          with_decrypted host w raw ''SCALLBACK'' False ''CALL_ME_BACK collect_calls'' True False
            (\<lambda>raw1. busy_var env ctx w (c_text raw1) True (\<lambda>w1. (False, w1)))
      | _ \<Rightarrow> Some (bad_request w))"

definition BusyWithConnection :: "ServerEnv \<Rightarrow> Host \<Rightarrow> EvalContext \<Rightarrow> World \<Rightarrow> (bool \<times> World) option" where
  "BusyWithConnection env host ctx w =
     (case Receive w of
        None \<Rightarrow> Some (False, w)
      | Some (raw, w1) \<Rightarrow>
          (if length (c_text raw) = 0 then Some (False, w1)
           else busy_command env host ctx w1 raw (GetCommand (c_text raw))))"


text \<open>
  The loop of \<open>HandleConnection\<close>, with \<open>n\<close> rounds at most; the last component is whether it has ended.
\<close>

fun handle_loop :: "ServerEnv \<Rightarrow> Host \<Rightarrow> EvalContext \<Rightarrow> nat \<Rightarrow> World \<Rightarrow> (World \<times> bool) option" where
  "handle_loop env host ctx 0 w = Some (w, False)"
| "handle_loop env host ctx (Suc n) w =
     do {
       (busy, w1) \<leftarrow> BusyWithConnection env host ctx w;
       (if busy then handle_loop env host ctx n w1 else Some (w1, True))
     }"

definition NewConn :: "int \<Rightarrow> bool \<Rightarrow> string \<Rightarrow> ServerConnectionState" where
  "NewConn u m addr = \<lparr>id_verified = False, rsa_auth = False, maproot = m, trust = False, session_key = None, digest = [],
     hostname = [], username = [], uid = u, encryption_type = CHR ''c'', ipaddr = take 63 addr\<rparr>"

end
