(* ===== verification/Server_Safety.thy ===== *)
theory Server_Safety
  imports Server_Protocol
begin

text \<open>
  What the protocol of the server keeps: a client is sent a file, a directory or the properties of a file, and a command is run,
  only when the connection is verified and the access rules grant it; and what it does not keep.
\<close>

section \<open>Nothing is sent without access\<close>

definition adds :: "(event \<Rightarrow> bool) \<Rightarrow> World \<Rightarrow> World \<Rightarrow> bool" where
  "adds P w w' \<longleftrightarrow> (\<exists>new. sent w' = sent w @ new \<and> list_all P new)"

lemma adds_refl [simp, intro]: "adds P w w"
  by (simp add: adds_def)

lemma adds_same: "sent w' = sent w \<Longrightarrow> adds P w w'"
  by (simp add: adds_def)

lemma adds_send [simp]: "P e \<Longrightarrow> adds P w w' \<Longrightarrow> adds P w (send e w')"
  by (auto simp: adds_def send_def)

lemma adds_update [simp]:
  "adds P w (w'\<lparr>conn := c\<rparr>) \<longleftrightarrow> adds P w w'" "adds P w (w'\<lparr>SV := v\<rparr>) \<longleftrightarrow> adds P w w'"
  "adds P w (w'\<lparr>state_db := d\<rparr>) \<longleftrightarrow> adds P w w'" "adds P w (w'\<lparr>seen_db := e\<rparr>) \<longleftrightarrow> adds P w w'"
  "adds P w (w'\<lparr>inbox := i\<rparr>) \<longleftrightarrow> adds P w w'"
  "adds P (w\<lparr>conn := c\<rparr>) w' \<longleftrightarrow> adds P w w'" "adds P (w\<lparr>inbox := i\<rparr>) w' \<longleftrightarrow> adds P w w'"
  by (simp_all add: adds_def)

lemma send_fields [simp]:
  "conn (send e w) = conn w" "SV (send e w) = SV w" "inbox (send e w) = inbox w" "state_db (send e w) = state_db w"
  by (simp_all add: send_def)

lemma adds_trans: "adds P w w1 \<Longrightarrow> adds P w1 w2 \<Longrightarrow> adds P w w2"
  by (auto simp: adds_def)

text \<open>
  What has to hold when an event is sent, in the state before the message. \<open>granted\<close> is that the access rules give
  the connection the file.
\<close>

definition granted :: "ServerEnv \<Rightarrow> EvalContext \<Rightarrow> World \<Rightarrow> string \<Rightarrow> bool \<Rightarrow> bool" where
  "granted env ctx w f enc \<longleftrightarrow> (case AccessControl env (SV w) ctx f (conn w) enc of Some (ok, _) \<Rightarrow> ok | None \<Rightarrow> False)"

fun justified :: "ServerEnv \<Rightarrow> Host \<Rightarrow> EvalContext \<Rightarrow> World \<Rightarrow> event \<Rightarrow> bool" where
  "justified env host ctx w (FileSent f enc) \<longleftrightarrow>
     id_verified (conn w) \<and> (\<exists>g. f = TranslatePath g \<and> granted env ctx w g enc)"
| "justified env host ctx w (DirSent f enc) \<longleftrightarrow>
     id_verified (conn w) \<and> (\<exists>g. f = (if enc then g else TranslatePath g) \<and> granted env ctx w g True)"
| "justified env host ctx w (StatSent f) \<longleftrightarrow>
     id_verified (conn w) \<and> (\<exists>g. f = TranslatePath g \<and> granted env ctx w g True)"
| "justified env host ctx w (HashCompared f m) \<longleftrightarrow> id_verified (conn w)"
| "justified env host ctx w (LiteralSent t enc) \<longleftrightarrow> id_verified (conn w)"
| "justified env host ctx w (ContextSent cs enc) \<longleftrightarrow> id_verified (conn w)"
| "justified env host ctx w (Executed cmd) \<longleftrightarrow>
     id_verified (conn w) \<and> rsa_auth (conn w) \<and> AllowedUser (SV w) (username (conn w)) \<and>
     granted env ctx w (CommandArg0 (run_command host)) False"
| "justified env host ctx w (KeySaved user key) \<longleftrightarrow> id_verified (conn w)"
| "justified env host ctx w _ \<longleftrightarrow> True"

lemma justified_access:
  "id_verified (conn w) \<Longrightarrow> granted env ctx w g enc \<Longrightarrow> justified env host ctx w (FileSent (TranslatePath g) enc)"
  "id_verified (conn w) \<Longrightarrow> granted env ctx w g True \<Longrightarrow> justified env host ctx w (DirSent (TranslatePath g) False)"
  "id_verified (conn w) \<Longrightarrow> granted env ctx w g True \<Longrightarrow> justified env host ctx w (DirSent g True)"
  "id_verified (conn w) \<Longrightarrow> granted env ctx w g True \<Longrightarrow> justified env host ctx w (StatSent (TranslatePath g))"
  by auto

lemma with_access_adds:
  assumes "with_access env ctx w f enc stay serve = Some (b, w')"
    and "\<And>c. id_verified (conn w) \<Longrightarrow> granted env ctx w f enc \<Longrightarrow> adds P w (serve (w\<lparr>conn := c\<rparr>))" "P Refused"
  shows "adds P w w'"
  using assms by (auto simp: with_access_def granted_def Let_def bind_eq_Some_conv split: if_splits)

lemma with_decrypted_adds:
  assumes "with_decrypted host w raw word need_key inner stay stay2 next_step = Some (b, w')"
    and "\<And>raw1. next_step raw1 = Some (b, w') \<Longrightarrow> adds P w w'" "P Refused"
  shows "adds P w w'"
  using assms by (auto simp: with_decrypted_def Let_def split: if_splits)

lemma class_names_adds: "class_names env ctx ip w = Some (b, w') \<Longrightarrow> (\<And>t. P (Told t)) \<Longrightarrow> adds P w w' \<and> conn w' = conn w \<and> SV w' = SV w"
  by (induction ip) (auto simp: ReplyNothing_def split: if_splits)

lemma MatchClasses_adds:
  assumes "\<And>t. P (Told t)"
  shows "match_classes_loop env ctx n w = (b, w') \<Longrightarrow> adds P w w' \<and> conn w' = conn w \<and> SV w' = SV w"
proof (induction n arbitrary: w)
  case (Suc n)
  show ?case
  proof (cases "inbox w")
    case (Cons m ms)
    then have r: "Receive w = Some (m, w\<lparr>inbox := ms\<rparr>)" by (simp add: Receive_def)
    show ?thesis
    proof (cases "class_names env ctx (split_items (CHR '' '') (c_text m)) (w\<lparr>inbox := ms\<rparr>)")
      case None
      with Suc.IH [of "w\<lparr>inbox := ms\<rparr>"] Suc.prems r assms show ?thesis
        by (auto simp: ReplyNothing_def split: if_splits)
    next
      case (Some q)
      with Suc.prems r assms class_names_adds [of env ctx _ "w\<lparr>inbox := ms\<rparr>" "fst q" "snd q" P] show ?thesis
        by (auto simp: ReplyNothing_def split: if_splits)
    qed
  qed (use Suc.prems in \<open>simp add: Receive_def\<close>)
qed (use assms in \<open>auto simp: ReplyNothing_def\<close>)

lemma DoExec_sends:
  assumes "DoExec env host ctx w args = Some w'"
  shows "\<exists>t. w' = send (Told t) w \<or> w' = send (Executed t) w"
proof (cases "length (run_command host) = 0")
  case True
  with assms show ?thesis unfolding DoExec_def by auto
next
  case False
  show ?thesis
  proof (cases "args_loop env host ctx w (length args) args")
    case None
    with False assms show ?thesis by (simp add: DoExec_def)
  next
    case (Some r)
    show ?thesis
    proof (cases r)
      case None
      with Some False assms show ?thesis by (simp add: DoExec_def) blast
    next
      case (Some args1)
      with \<open>args_loop env host ctx w (length args) args = Some r\<close> False assms show ?thesis
        by (simp add: DoExec_def Let_def del: take_append split: if_splits) blast+
    qed
  qed
qed

lemma DoExec_adds:
  "DoExec env host ctx w args = Some w' \<Longrightarrow> (\<And>t. P (Told t)) \<Longrightarrow> (\<And>t. P (Executed t)) \<Longrightarrow> adds P w w'"
  using DoExec_sends [of env host ctx w args w'] by auto

lemma busy_exec_adds:
  assumes "busy_exec env host ctx w txt = Some (b, w')"
  shows "adds (justified env host ctx w) w w'"
proof (cases "id_verified (conn w) \<and> AllowedUser (SV w) (username (conn w)) \<and> rsa_auth (conn w)")
  case False
  then have "busy_exec env host ctx w txt = Some (False, RefuseAccess w)" by (simp add: busy_exec_def Let_def)
  with assms show ?thesis by auto
next
  case True
  with assms obtain ok c1 where a: "AccessControl env (SV w) ctx (CommandArg0 (run_command host)) (conn w) False = Some (ok, c1)"
    by (auto simp: busy_exec_def Let_def bind_eq_Some_conv)
  show ?thesis
  proof (cases ok)
    case False
    with True a have "busy_exec env host ctx w txt = Some (False, RefuseAccess (w\<lparr>conn := c1\<rparr>))" by (simp add: busy_exec_def Let_def)
    with assms show ?thesis by auto
  next
    case ok: True
    then have g: "granted env ctx w (CommandArg0 (run_command host)) False" using a by (simp add: granted_def)
    obtain m w2 where m: "MatchClasses env ctx (w\<lparr>conn := c1\<rparr>) = (m, w2)" by (cases "MatchClasses env ctx (w\<lparr>conn := c1\<rparr>)")
    have "adds (justified env host ctx w) (w\<lparr>conn := c1\<rparr>) w2"
      using MatchClasses_adds [of "justified env host ctx w" env ctx 10 "w\<lparr>conn := c1\<rparr>" m w2] m by (simp add: MatchClasses_def)
    then have a2: "adds (justified env host ctx w) w w2" by simp
    show ?thesis
    proof (cases m)
      case False
      with True a ok m have "busy_exec env host ctx w txt = Some (False, Terminate w2)" by (simp add: busy_exec_def Let_def)
      with assms a2 show ?thesis by (auto simp: Terminate_def)
    next
      case m': True
      with True a ok m assms obtain w3 where w3: "DoExec env host ctx w2 (scan_line 255 (drop 4 txt)) = Some w3" "w' = Terminate w3"
        by (simp add: busy_exec_def Let_def bind_eq_Some_conv) blast
      have "adds (justified env host ctx w) w2 w3" using DoExec_adds [OF w3(1)] True g by simp
      with a2 w3(2) show ?thesis by (auto simp: Terminate_def dest: adds_trans)
    qed
  qed
qed

lemma directory_adds:
  "id_verified (conn w) \<Longrightarrow> granted env ctx w f True \<Longrightarrow> adds (justified env host ctx w) v (CfOpenDirectory host v f)"
  "id_verified (conn w) \<Longrightarrow> granted env ctx w f True \<Longrightarrow> adds (justified env host ctx w) v (CfSecOpenDirectory host v f)"
  by (simp_all add: CfOpenDirectory_def CfSecOpenDirectory_def Let_def justified_access del: justified.simps(2))

lemma busy_get_adds:
  assumes "busy_get env host ctx w txt = Some (b, w')"
  shows "adds (justified env host ctx w) w w'"
proof -
  obtain i f where f: "(case scan_d (drop 3 txt) of None \<Rightarrow> (0, []) | Some (i, r) \<Rightarrow> (i, scan_line CF_BUFSIZE r)) = (i, f)"
    by (cases "(case scan_d (drop 3 txt) of None \<Rightarrow> (0, []) | Some (i, r) \<Rightarrow> (i, scan_line CF_BUFSIZE r))") blast
  show ?thesis
  proof (cases "i < 0 \<or> i > int CF_BUFSIZE")
    case True
    with assms f show ?thesis by (auto simp: busy_get_def)
  next
    case False
    with assms f have "with_access env ctx w f False True (\<lambda>w1. CfGetFile host w1 f) = Some (b, w')" by (simp add: busy_get_def)
    then show ?thesis
      by (rule with_access_adds) (simp_all add: justified_access CfGetFile_def Let_def del: justified.simps(1))
  qed
qed

lemma busy_get_secure_cases:
  assumes "busy_get_secure env host ctx w raw = Some (b, w')"
  obtains "w' = RefuseAccess w" | f where "with_access env ctx w f True False (\<lambda>w1. CfEncryptGetFile host w1 f) = Some (b, w')"
proof -
  define p where "p = (case scan_u (drop 4 (c_text raw)) of None \<Rightarrow> (0, 0)
    | Some (l, r) \<Rightarrow> (case scan_d r of None \<Rightarrow> (l, 0) | Some (b, _) \<Rightarrow> (l, b)))"
  define buffer where "buffer = decrypt host (encryption_type (conn w)) (session_key (conn w)) (take (nat (fst p)) (drop 16 raw))"
  let ?f = "c_text (drop 13 buffer)"
  have "w' = RefuseAccess w \<or> with_access env ctx w ?f True False (\<lambda>w1. CfEncryptGetFile host w1 ?f) = Some (b, w')"
    using assms unfolding busy_get_secure_def Let_def p_def [symmetric]
    by (cases p) (simp add: buffer_def split: if_splits)
  then show ?thesis using that by blast
qed

lemma busy_get_secure_adds:
  assumes "busy_get_secure env host ctx w raw = Some (b, w')"
  shows "adds (justified env host ctx w) w w'"
  using assms
proof (cases rule: busy_get_secure_cases)
  case (2 f)
  then show ?thesis
    by (rule with_access_adds) (simp_all add: justified_access CfEncryptGetFile_def Let_def del: justified.simps(1))
qed simp

lemma busy_opendir_adds:
  assumes "busy_opendir env ctx w txt serve = Some (b, w')"
    and "\<And>f v. id_verified (conn w) \<Longrightarrow> granted env ctx w f True \<Longrightarrow> adds (justified env host ctx w) v (serve v f)"
  shows "adds (justified env host ctx w) w w'"
proof (rule with_access_adds [OF assms(1) [unfolded busy_opendir_def Let_def]])
  fix c
  assume "id_verified (conn w)" "granted env ctx w (scan_line CF_BUFSIZE (drop 7 txt)) True"
  from assms(2) [OF this, of "w\<lparr>conn := c\<rparr>"]
  show "adds (justified env host ctx w) w (serve (w\<lparr>conn := c\<rparr>) (scan_line CF_BUFSIZE (drop 7 txt)))" by simp
qed simp

lemma busy_sync_cases:
  assumes "busy_sync env host ctx w txt = Some (b, w')"
  obtains t where "w' = send t w" "t = Refused \<or> (\<exists>m. t = Told m)"
  | tloc t f where "with_access env ctx w f True True
      (\<lambda>w1. if clocks_differ host tloc t then send (Told ''BAD: Clocks are too far unsynchronized'') w1 else StatFile env w1 f) = Some (b, w')"
proof -
  define p where "p = (case scan_ld (drop 5 txt) of
              None \<Rightarrow> (0, [])
            | Some (t, r) \<Rightarrow>
                (case after ''STAT'' (dropWhile isspace r) of None \<Rightarrow> (t, []) | Some q \<Rightarrow> (t, scan_line CF_BUFSIZE q)))"
  obtain t f where tf: "p = (t, f)" by (cases p)
  have "w' = RefuseAccess w \<or> (b, w') = bad_request w \<or> w' = send (Told ''BAD: clocks out of synch'') w \<or>
    (\<exists>tloc. with_access env ctx w f True True
       (\<lambda>w1. if clocks_differ host tloc t then send (Told ''BAD: Clocks are too far unsynchronized'') w1 else StatFile env w1 f) = Some (b, w'))"
    using assms unfolding busy_sync_def p_def [symmetric] tf by (simp split: if_splits option.splits) auto
  then show ?thesis using that by (auto simp: bad_request_def)
qed

lemma busy_sync_adds:
  assumes "busy_sync env host ctx w txt = Some (b, w')"
  shows "adds (justified env host ctx w) w w'"
  using assms
proof (cases rule: busy_sync_cases)
  case (1 t)
  then show ?thesis by auto
next
  case (2 tloc t f)
  then show ?thesis
    by (rule with_access_adds) (simp_all add: justified_access StatFile_def Let_def del: justified.simps(3))
qed

lemma busy_var_adds:
  assumes "busy_var env ctx w txt enc serve = Some (b, w')" "P Refused"
    and "\<And>c v. id_verified (conn w) \<Longrightarrow> serve (w\<lparr>conn := c\<rparr>) = (b, v) \<Longrightarrow> adds P w v"
  shows "adds P w w'"
  using assms by (auto simp: busy_var_def Let_def bind_eq_Some_conv split: if_splits)

lemma busy_context_adds: "busy_context env host ctx w txt enc = Some (b, w') \<Longrightarrow> adds (justified env host ctx w) w w'"
  unfolding busy_context_def Let_def
  by (auto simp: bind_eq_Some_conv ReplyServerContext_def split: if_splits)

lemma CheckStoreKey_result:
  assumes "CheckStoreKey env host w key = Some (ok, w')"
  shows "(\<forall>t. P (Told t)) \<Longrightarrow> (\<forall>u k. P (KeySaved u k)) \<Longrightarrow> adds P w w'"
    and "ok \<Longrightarrow> saved_key host (username (conn w)) (MapAddress (ipaddr (conn w)))
             (take (CF_MAXVARSIZE - 2) (HashPrintSafe (default_digest host) (digest (conn w)))) = Some key \<or>
           IsMatchItemIn env (trustkeylist (SV w)) (MapAddress (ipaddr (conn w))) = Some True"
    and "digest (conn w') = digest (conn w) \<and> username (conn w') = username (conn w) \<and> hostname (conn w') = hostname (conn w) \<and>
      rsa_auth (conn w') = rsa_auth (conn w) \<and> (\<not> ok \<longrightarrow> trust (conn w') = trust (conn w))"
  using assms unfolding CheckStoreKey_def Let_def
  by (auto simp: bind_eq_Some_conv split: if_splits)

lemma session_dialogue_result:
  "session_dialogue host w key iscrypt f = (ok, w') \<Longrightarrow>
     ((\<forall>t. P (Told t)) \<longrightarrow> P Challenged \<longrightarrow> adds P w w') \<and> (rsa_auth (conn w') \<longleftrightarrow> ok \<or> rsa_auth (conn w)) \<and>
     digest (conn w') = digest (conn w) \<and> username (conn w') = username (conn w) \<and> hostname (conn w') = hostname (conn w)"
  unfolding session_dialogue_def Let_def Receive_def
  by (auto split: if_splits option.splits list.splits)


section \<open>Keys\<close>

text \<open>A dialogue ends early, or the key is checked.\<close>

definition check_key :: "ServerEnv \<Rightarrow> Host \<Rightarrow> World \<Rightarrow> int \<times> int \<Rightarrow> char \<Rightarrow> char \<Rightarrow> (bool \<times> World) option" where
  "check_key env host w key iscrypt f =
     (let c = (conn w)\<lparr>digest := key_digest host key\<rparr>;
          w3 = w\<lparr>conn := c, seen_db :=
            LastSaw (default_digest host) (case clock host of None \<Rightarrow> - 1 | Some t \<Rightarrow> t) (ipaddr c) (digest c) LAST_SEEN_ROLE_ACCEPT (seen_db w)\<rparr>
      in do {
        (ok, w4) \<leftarrow> CheckStoreKey env host w3 key;
        Some (if \<not> ok \<and> \<not> trust (conn w4) then (False, w4)
              else session_dialogue host (send (Told ''digest'') w4) key iscrypt f)
      })"

definition same_but_inbox :: "World \<Rightarrow> World \<Rightarrow> bool" where
  "same_but_inbox w w' \<longleftrightarrow> w'\<lparr>inbox := inbox w\<rparr> = w"

lemma same_but_inbox [simp]: "same_but_inbox w w" "same_but_inbox w (w\<lparr>inbox := i\<rparr>)"
  by (simp_all add: same_but_inbox_def)

lemma same_but_inbox_fields:
  "same_but_inbox w w' \<Longrightarrow> conn w' = conn w \<and> SV w' = SV w \<and> sent w' = sent w \<and> seen_db w' = seen_db w \<and> state_db w' = state_db w"
  by (cases w; cases w') (simp add: same_but_inbox_def)

lemma AuthenticationDialogue_cases:
  assumes "AuthenticationDialogue env host w raw = Some (ok, w')"
  shows "(\<not> ok \<and> same_but_inbox w w') \<or> (\<exists>v key iscrypt f. same_but_inbox w v \<and> check_key env host v key iscrypt f = Some (ok, w'))"
proof -
  obtain sauth iscrypt cl nl f where scan: "scan_auth (c_text raw) = (sauth, iscrypt, cl, nl, f)" by (cases "scan_auth (c_text raw)") auto
  note unfold = AuthenticationDialogue_def scan prod.case Receive_def
  show ?thesis
  proof (cases "inbox w")
    case Nil
    with assms have "\<not> ok \<and> w' = w" unfolding unfold by (simp split: if_splits)
    then show ?thesis by simp
  next
    case (Cons n ms)
    show ?thesis
    proof (cases ms)
      case Nil
      with Cons assms have "\<not> ok \<and> (w' = w \<or> w' = w\<lparr>inbox := ms\<rparr>)" unfolding unfold by (simp split: if_splits option.splits)
      then show ?thesis by auto
    next
      case (Cons e ks)
      have "(\<not> ok \<and> (w' = w \<or> w' = w\<lparr>inbox := ms\<rparr> \<or> w' = w\<lparr>inbox := ks\<rparr>)) \<or>
          (\<exists>key. check_key env host (w\<lparr>inbox := ks\<rparr>) key iscrypt f = Some (ok, w'))"
        using \<open>inbox w = n # ms\<close> Cons assms unfolding unfold check_key_def Let_def
        by (simp split: if_splits option.splits) blast+
      then show ?thesis using same_but_inbox by blast
    qed
  qed
qed


lemma check_key_cases:
  assumes "check_key env host v key iscrypt f = Some (ok, w')"
  obtains v3 ok' w4 where "conn v3 = (conn v)\<lparr>digest := key_digest host key\<rparr>" "SV v3 = SV v" "sent v3 = sent v"
    "CheckStoreKey env host v3 key = Some (ok', w4)"
    "(ok, w') = (if \<not> ok' \<and> \<not> trust (conn w4) then (False, w4)
       else session_dialogue host (send (Told ''digest'') w4) key iscrypt f)"
proof -
  define v3 where "v3 = v\<lparr>conn := (conn v)\<lparr>digest := key_digest host key\<rparr>, seen_db :=
    LastSaw (default_digest host) (case clock host of None \<Rightarrow> - 1 | Some t \<Rightarrow> t) (ipaddr (conn v)) (key_digest host key)
      LAST_SEEN_ROLE_ACCEPT (seen_db v)\<rparr>"
  from assms obtain ok' w4 where "CheckStoreKey env host v3 key = Some (ok', w4)"
    "(ok, w') = (if \<not> ok' \<and> \<not> trust (conn w4) then (False, w4) else session_dialogue host (send (Told ''digest'') w4) key iscrypt f)"
    by (auto simp: check_key_def v3_def Let_def bind_eq_Some_conv)
  then show ?thesis by (rule that [rotated 3]) (simp_all add: v3_def)
qed

lemma AuthenticationDialogue_adds:
  assumes "AuthenticationDialogue env host w raw = Some (ok, w')" "id_verified (conn w)"
  shows "adds (justified env host ctx w) w w'"
  using AuthenticationDialogue_cases [OF assms(1)]
proof (elim disjE exE conjE)
  assume "same_but_inbox w w'"
  then show ?thesis by (auto dest: same_but_inbox_fields intro: adds_same)
next
  fix v key iscrypt f
  assume v: "same_but_inbox w v" and c: "check_key env host v key iscrypt f = Some (ok, w')"
  obtain v3 ok' w4 where v3: "sent v3 = sent v" "CheckStoreKey env host v3 key = Some (ok', w4)"
    and w': "(ok, w') = (if \<not> ok' \<and> \<not> trust (conn w4) then (False, w4) else session_dialogue host (send (Told ''digest'') w4) key iscrypt f)"
    using check_key_cases [OF c] by metis
  let ?P = "justified env host ctx w"
  have "adds ?P v3 w4" using CheckStoreKey_result(1) [OF v3(2), of ?P] assms(2) by simp
  moreover have "adds ?P w v3" using v3(1) same_but_inbox_fields [OF v] by (intro adds_same) simp
  ultimately have "adds ?P w w4" by (rule adds_trans [rotated])
  moreover have "adds ?P w4 w'"
  proof (cases "\<not> ok' \<and> \<not> trust (conn w4)")
    case False
    with w' have "session_dialogue host (send (Told ''digest'') w4) key iscrypt f = (ok, w')" by auto
    from session_dialogue_result [OF this, of ?P] show ?thesis by (auto intro: adds_trans [of _ _ "send (Told ''digest'') w4"])
  qed (use w' in auto)
  ultimately show ?thesis by (rule adds_trans)
qed

text \<open>What makes a key one that the server accepts.\<close>

definition key_accepted :: "ServerEnv \<Rightarrow> Host \<Rightarrow> World \<Rightarrow> int \<times> int \<Rightarrow> bool" where
  "key_accepted env host w key \<longleftrightarrow>
     trust (conn w) \<or> IsMatchItemIn env (trustkeylist (SV w)) (MapAddress (ipaddr (conn w))) = Some True \<or>
     saved_key host (username (conn w)) (MapAddress (ipaddr (conn w)))
       (take (CF_MAXVARSIZE - 2) (HashPrintSafe (default_digest host) (key_digest host key))) = Some key"

lemma AuthenticationDialogue_key:
  assumes "AuthenticationDialogue env host w raw = Some (ok, w')"
  shows "rsa_auth (conn w') \<longleftrightarrow> ok \<or> rsa_auth (conn w)"
    and "ok \<Longrightarrow> \<exists>key. digest (conn w') = key_digest host key \<and> key_accepted env host w key"
proof -
  have both: "(rsa_auth (conn w') \<longleftrightarrow> ok \<or> rsa_auth (conn w)) \<and>
    (ok \<longrightarrow> (\<exists>key. digest (conn w') = key_digest host key \<and> key_accepted env host w key))"
    using AuthenticationDialogue_cases [OF assms]
  proof (elim disjE exE conjE)
    assume "\<not> ok" "same_but_inbox w w'"
    then show ?thesis by (auto dest: same_but_inbox_fields)
  next
    fix v key iscrypt f
    assume v: "same_but_inbox w v" and c: "check_key env host v key iscrypt f = Some (ok, w')"
    obtain v3 ok' w4 where v3: "conn v3 = (conn v)\<lparr>digest := key_digest host key\<rparr>" "SV v3 = SV v" "CheckStoreKey env host v3 key = Some (ok', w4)"
      and w': "(ok, w') = (if \<not> ok' \<and> \<not> trust (conn w4) then (False, w4) else session_dialogue host (send (Told ''digest'') w4) key iscrypt f)"
      using check_key_cases [OF c] by metis
    note k = CheckStoreKey_result(2,3) [OF v3(3)]
    have accepted: "ok' \<or> trust (conn w4) \<Longrightarrow> key_accepted env host w key"
      using k v3(1,2) same_but_inbox_fields [OF v] by (cases ok') (auto simp: key_accepted_def)
    show ?thesis
    proof (cases "\<not> ok' \<and> \<not> trust (conn w4)")
      case True
      with w' k v3 same_but_inbox_fields [OF v] show ?thesis by simp
    next
      case False
      with w' have "session_dialogue host (send (Told ''digest'') w4) key iscrypt f = (ok, w')" by auto
      note session_dialogue_result [OF this, of "\<lambda>_. True"]
      then have "(rsa_auth (conn w') \<longleftrightarrow> ok \<or> rsa_auth (conn w)) \<and> digest (conn w') = key_digest host key"
        using k(2) v3(1) same_but_inbox_fields [OF v] by simp
      moreover have "key_accepted env host w key" using accepted False by blast
      ultimately show ?thesis by blast
    qed
  qed
  then show "rsa_auth (conn w') \<longleftrightarrow> ok \<or> rsa_auth (conn w)"
    and "ok \<Longrightarrow> \<exists>key. digest (conn w') = key_digest host key \<and> key_accepted env host w key" by simp_all
qed


section \<open>Who the client is\<close>

text \<open>Every command other than the two that authenticate leaves the connection as it is, but for the mapping of root.\<close>

definition same_identity :: "ServerConnectionState \<Rightarrow> ServerConnectionState \<Rightarrow> bool" where
  "same_identity c c' \<longleftrightarrow> c'\<lparr>maproot := maproot c\<rparr> = c"

lemma same_identity [simp]: "same_identity c c" "same_identity c (c\<lparr>maproot := m\<rparr>)"
  by (simp_all add: same_identity_def)

lemma same_identity_fields:
  "same_identity c c' \<Longrightarrow> id_verified c' = id_verified c \<and> rsa_auth c' = rsa_auth c \<and> trust c' = trust c \<and>
     session_key c' = session_key c \<and> digest c' = digest c \<and> hostname c' = hostname c \<and> username c' = username c \<and> uid c' = uid c"
  by (cases c; cases c') (simp add: same_identity_def)

lemma access_identity:
  "AccessControl env sv ctx f c enc = Some (ok, c') \<Longrightarrow> same_identity c c'"
  "LiteralAccessControl env sv ctx f c enc = Some (ok, c') \<Longrightarrow> same_identity c c'"
  "ContextAccessControl env sv ctx now db f c enc = Some (cs, c', db') \<Longrightarrow> same_identity c c'"
  by (auto simp: AccessControl_def LiteralAccessControl_def ContextAccessControl_def Let_def bind_eq_Some_conv split: if_splits)

lemma with_access_identity:
  assumes "with_access env ctx w f enc stay serve = Some (b, w')" "\<And>v. conn (serve v) = conn v"
  shows "same_identity (conn w) (conn w')"
  using assms by (auto simp: with_access_def Let_def bind_eq_Some_conv dest: access_identity split: if_splits)

lemma with_decrypted_identity:
  assumes "with_decrypted host w raw word need_key inner stay stay2 next_step = Some (b, w')"
    and "\<And>raw1. next_step raw1 = Some (b, w') \<Longrightarrow> same_identity (conn w) (conn w')"
  shows "same_identity (conn w) (conn w')"
  using assms by (auto simp: with_decrypted_def Let_def split: if_splits)

lemma serving_keeps_connection [simp]:
  "conn (CfGetFile host v f) = conn v" "conn (CfEncryptGetFile host v f) = conn v" "conn (CfOpenDirectory host v f) = conn v"
  "conn (CfSecOpenDirectory host v f) = conn v" "conn (StatFile env v f) = conn v" "conn (CompareLocalHash host v raw) = conn v"
  "conn (ReplyServerContext v enc cs) = conn v" "conn (GetServerLiteral v enc) = conn v" "conn (Terminate v) = conn v"
  "conn (snd (bad_request v)) = conn v"
  by (simp_all add: CfGetFile_def CfEncryptGetFile_def CfOpenDirectory_def CfSecOpenDirectory_def StatFile_def CompareLocalHash_def
      ReplyServerContext_def GetServerLiteral_def Terminate_def bad_request_def Let_def)

lemma busy_exec_identity:
  assumes "busy_exec env host ctx w txt = Some (b, w')"
  shows "same_identity (conn w) (conn w')"
proof (cases "id_verified (conn w) \<and> AllowedUser (SV w) (username (conn w)) \<and> rsa_auth (conn w)")
  case False
  then have "busy_exec env host ctx w txt = Some (False, RefuseAccess w)" by (simp add: busy_exec_def Let_def)
  with assms show ?thesis by auto
next
  case True
  with assms obtain ok c1 where a: "AccessControl env (SV w) ctx (CommandArg0 (run_command host)) (conn w) False = Some (ok, c1)"
    by (auto simp: busy_exec_def Let_def bind_eq_Some_conv)
  obtain m w2 where m: "MatchClasses env ctx (w\<lparr>conn := c1\<rparr>) = (m, w2)" by (cases "MatchClasses env ctx (w\<lparr>conn := c1\<rparr>)")
  then have c: "conn w2 = c1"
    using MatchClasses_adds [of "\<lambda>_. True" env ctx 10 "w\<lparr>conn := c1\<rparr>" m w2] by (simp add: MatchClasses_def)
  have "conn w' = c1"
  proof (cases "ok \<and> m")
    case False
    then have "w' = RefuseAccess (w\<lparr>conn := c1\<rparr>) \<or> w' = Terminate w2"
      using True a m assms by (cases ok; cases m) (simp_all add: busy_exec_def Let_def)
    with c show ?thesis by auto
  next
    case both: True
    with True a m assms obtain w3 where w3: "DoExec env host ctx w2 (scan_line 255 (drop 4 txt)) = Some w3" "w' = Terminate w3"
      by (simp add: busy_exec_def Let_def bind_eq_Some_conv) blast
    with DoExec_sends [OF w3(1)] c show ?thesis by auto
  qed
  with access_identity(1) [OF a] show ?thesis by simp
qed

lemma busy_get_identity:
  assumes "busy_get env host ctx w txt = Some (b, w')"
  shows "same_identity (conn w) (conn w')"
proof -
  obtain i f where f: "(case scan_d (drop 3 txt) of None \<Rightarrow> (0, []) | Some (i, r) \<Rightarrow> (i, scan_line CF_BUFSIZE r)) = (i, f)"
    by (cases "(case scan_d (drop 3 txt) of None \<Rightarrow> (0, []) | Some (i, r) \<Rightarrow> (i, scan_line CF_BUFSIZE r))") blast
  with assms have "w' = RefuseAccess w \<or> with_access env ctx w f False True (\<lambda>w1. CfGetFile host w1 f) = Some (b, w')"
    by (auto simp: busy_get_def split: if_splits)
  then show ?thesis by (auto elim!: with_access_identity)
qed


lemma busy_get_secure_identity: "busy_get_secure env host ctx w raw = Some (b, w') \<Longrightarrow> same_identity (conn w) (conn w')"
  by (erule busy_get_secure_cases) (auto elim!: with_access_identity)

lemma busy_sync_identity: "busy_sync env host ctx w txt = Some (b, w') \<Longrightarrow> same_identity (conn w) (conn w')"
  by (erule busy_sync_cases) (auto elim!: with_access_identity)

lemma busy_opendir_identity:
  "busy_opendir env ctx w txt serve = Some (b, w') \<Longrightarrow> (\<And>v f. conn (serve v f) = conn v) \<Longrightarrow> same_identity (conn w) (conn w')"
  unfolding busy_opendir_def Let_def by (erule with_access_identity) simp

lemma busy_var_identity:
  assumes "busy_var env ctx w txt enc serve = Some (b, w')" "\<And>v. conn (snd (serve v)) = conn v"
  shows "same_identity (conn w) (conn w')"
proof (cases "id_verified (conn w)")
  case True
  with assms(1) obtain ok c1 where a: "LiteralAccessControl env (SV w) ctx txt (conn w) enc = Some (ok, c1)"
    by (auto simp: busy_var_def Let_def bind_eq_Some_conv)
  with True assms(1) have "(b, w') = (if ok then serve (w\<lparr>conn := c1\<rparr>) else (False, RefuseAccess (w\<lparr>conn := c1\<rparr>)))"
    by (simp add: busy_var_def Let_def)
  then have "conn w' = c1" using assms(2) [of "w\<lparr>conn := c1\<rparr>"] by (auto split: if_splits dest: arg_cong [where f = snd])
  with access_identity(2) [OF a] show ?thesis by simp
qed (use assms in \<open>auto simp: busy_var_def\<close>)

lemma busy_context_identity:
  "busy_context env host ctx w txt enc = Some (b, w') \<Longrightarrow> same_identity (conn w) (conn w')"
  unfolding busy_context_def Let_def
  by (auto simp: bind_eq_Some_conv dest!: access_identity(3) split: if_splits)


section \<open>One message\<close>

lemma justified_inbox [simp]: "justified env host ctx (w\<lparr>inbox := i\<rparr>) = justified env host ctx w"
proof
  fix e
  show "justified env host ctx (w\<lparr>inbox := i\<rparr>) e = justified env host ctx w e" by (cases e) (simp_all add: granted_def)
qed

lemma md5_adds: "id_verified (conn w) \<Longrightarrow> adds (justified env host ctx w) w (CompareLocalHash host w raw)"
  by (simp add: CompareLocalHash_def Let_def)

text \<open>The step of every command.\<close>

lemma busy_command_steps:
  "busy_command env host ctx w raw None = Some (bad_request w)"
  "busy_command env host ctx w raw (Some PROTOCOL_COMMAND_BAD) = Some (bad_request w)"
  "busy_command env host ctx w raw (Some PROTOCOL_COMMAND_AUTH) = Some (bad_request w)"
  "busy_command env host ctx w raw (Some PROTOCOL_COMMAND_CONTEXTS) = Some (bad_request w)"
  "busy_command env host ctx w raw (Some PROTOCOL_COMMAND_EXEC) = busy_exec env host ctx w (c_text raw)"
  "busy_command env host ctx w raw (Some PROTOCOL_COMMAND_VERSION) =
     Some (id_verified (conn w), send (Told ''OK: version'') (if id_verified (conn w) then w else RefuseAccess w))"
  "busy_command env host ctx w raw (Some PROTOCOL_COMMAND_AUTH_CLEAR) =
     do {
       (ok, c1) \<leftarrow> VerifyConnection env host (SV w) (conn w) (drop 6 (c_text raw));
       let w1 = w\<lparr>conn := c1\<lparr>id_verified := ok\<rparr>\<rparr>;
       Some (ok, if ok then w1 else RefuseAccess w1)
     }"
  "busy_command env host ctx w raw (Some PROTOCOL_COMMAND_AUTH_SECURE) =
     (if \<not> id_verified (conn w) then Some (False, RefuseAccess w)
      else do { (ok, w1) \<leftarrow> AuthenticationDialogue env host w raw; Some (ok, if ok then w1 else RefuseAccess w1) })"
  "busy_command env host ctx w raw (Some PROTOCOL_COMMAND_GET) = busy_get env host ctx w (c_text raw)"
  "busy_command env host ctx w raw (Some PROTOCOL_COMMAND_GET_SECURE) = busy_get_secure env host ctx w raw"
  "busy_command env host ctx w raw (Some PROTOCOL_COMMAND_OPENDIR) = busy_opendir env ctx w (c_text raw) (CfOpenDirectory host)"
  "busy_command env host ctx w raw (Some PROTOCOL_COMMAND_OPENDIR_SECURE) =
     with_decrypted host w raw ''SOPENDIR'' True ''OPENDIR'' False True
       (\<lambda>raw1. busy_opendir env ctx w (c_text raw1) (CfSecOpenDirectory host))"
  "busy_command env host ctx w raw (Some PROTOCOL_COMMAND_SYNC) = busy_sync env host ctx w (c_text raw)"
  "busy_command env host ctx w raw (Some PROTOCOL_COMMAND_SYNC_SECURE) =
     with_decrypted host w raw ''SSYNCH'' True ''SYNCH'' False True (\<lambda>raw1. busy_sync env host ctx w (c_text raw1))"
  "busy_command env host ctx w raw (Some PROTOCOL_COMMAND_MD5) =
     Some (if id_verified (conn w) then (True, CompareLocalHash host w raw) else (True, RefuseAccess w))"
  "busy_command env host ctx w raw (Some PROTOCOL_COMMAND_MD5_SECURE) =
     with_decrypted host w raw ''SMD5'' False ''MD5'' True False
       (\<lambda>raw1. Some (if id_verified (conn w) then (True, CompareLocalHash host w raw1) else (True, RefuseAccess w)))"
  "busy_command env host ctx w raw (Some PROTOCOL_COMMAND_VAR) =
     busy_var env ctx w (c_text raw) False (\<lambda>w1. (True, GetServerLiteral w1 False))"
  "busy_command env host ctx w raw (Some PROTOCOL_COMMAND_VAR_SECURE) =
     with_decrypted host w raw ''SVAR'' False ''VAR'' True False
       (\<lambda>raw1. busy_var env ctx w (c_text raw1) True (\<lambda>w1. (True, GetServerLiteral w1 True)))"
  "busy_command env host ctx w raw (Some PROTOCOL_COMMAND_CONTEXT) = busy_context env host ctx w (c_text raw) False"
  "busy_command env host ctx w raw (Some PROTOCOL_COMMAND_CONTEXT_SECURE) =
     with_decrypted host w raw ''SCONTEXT'' False ''CONTEXT'' True False
       (\<lambda>raw1. busy_context env host ctx w (c_text raw1) True)"
  "busy_command env host ctx w raw (Some PROTOCOL_COMMAND_QUERY_SECURE) =
     with_decrypted host w raw ''SQUERY'' False ''QUERY'' True False
       (\<lambda>raw1. busy_var env ctx w (c_text raw1) True
          (\<lambda>w1. if GetServerQuery w1 (c_text raw1) then (True, w1) else bad_request w1))"
  "busy_command env host ctx w raw (Some PROTOCOL_COMMAND_CALL_ME_BACK) =
     with_decrypted host w raw ''SCALLBACK'' False ''CALL_ME_BACK collect_calls'' True False
       (\<lambda>raw1. busy_var env ctx w (c_text raw1) True (\<lambda>w1. (False, w1)))"
  unfolding busy_command_def
  by (simp_all only: Let_def option.case ProtocolCommand.case cong: option.case_cong_weak ProtocolCommand.case_cong_weak)

lemma busy_command_adds:
  assumes "busy_command env host ctx w raw command = Some (b, w')"
  shows "adds (justified env host ctx w) w w'"
proof (cases command)
  case None
  from assms [unfolded None busy_command_steps] show ?thesis by (auto simp: bad_request_def)
next
  case (Some cmd)
  show ?thesis
  proof (cases cmd)
    case PROTOCOL_COMMAND_EXEC
    note now = assms [unfolded Some PROTOCOL_COMMAND_EXEC busy_command_steps]
    from now show ?thesis by (rule busy_exec_adds)
  next
    case PROTOCOL_COMMAND_AUTH
    note now = assms [unfolded Some PROTOCOL_COMMAND_AUTH busy_command_steps]
    from now show ?thesis by (auto simp: bad_request_def)
  next
    case PROTOCOL_COMMAND_GET
    note now = assms [unfolded Some PROTOCOL_COMMAND_GET busy_command_steps]
    from now show ?thesis by (rule busy_get_adds)
  next
    case PROTOCOL_COMMAND_OPENDIR
    note now = assms [unfolded Some PROTOCOL_COMMAND_OPENDIR busy_command_steps]
    from now show ?thesis by (rule busy_opendir_adds) (rule directory_adds)
  next
    case PROTOCOL_COMMAND_SYNC
    note now = assms [unfolded Some PROTOCOL_COMMAND_SYNC busy_command_steps]
    from now show ?thesis by (rule busy_sync_adds)
  next
    case PROTOCOL_COMMAND_CONTEXTS
    note now = assms [unfolded Some PROTOCOL_COMMAND_CONTEXTS busy_command_steps]
    from now show ?thesis by (auto simp: bad_request_def)
  next
    case PROTOCOL_COMMAND_MD5
    note now = assms [unfolded Some PROTOCOL_COMMAND_MD5 busy_command_steps]
    from now show ?thesis by (auto split: if_splits intro: md5_adds)
  next
    case PROTOCOL_COMMAND_MD5_SECURE
    note now = assms [unfolded Some PROTOCOL_COMMAND_MD5_SECURE busy_command_steps]
    from now show ?thesis
      by (rule with_decrypted_adds) (auto split: if_splits intro: md5_adds)
  next
    case PROTOCOL_COMMAND_AUTH_CLEAR
    note now = assms [unfolded Some PROTOCOL_COMMAND_AUTH_CLEAR busy_command_steps]
    from now obtain c1 where "VerifyConnection env host (SV w) (conn w) (drop 6 (c_text raw)) = Some (b, c1)"
      by (auto simp: Let_def bind_eq_Some_conv simp del: adds_update)
    with now have "w' = w\<lparr>conn := c1\<lparr>id_verified := b\<rparr>\<rparr> \<or> w' = RefuseAccess (w\<lparr>conn := c1\<lparr>id_verified := b\<rparr>\<rparr>)"
      by (simp add: Let_def split: if_splits)
    then show ?thesis by (elim disjE) simp_all
  next
    case PROTOCOL_COMMAND_AUTH_SECURE
    note now = assms [unfolded Some PROTOCOL_COMMAND_AUTH_SECURE busy_command_steps]
    show ?thesis
    proof (cases "id_verified (conn w)")
      case True
      with now obtain w1 where "AuthenticationDialogue env host w raw = Some (b, w1)"
        "w' = (if b then w1 else RefuseAccess w1)" by (auto simp: bind_eq_Some_conv)
      with AuthenticationDialogue_adds [of env host w raw b w1 ctx] True show ?thesis by simp
    qed (use now in auto)
  next
    case PROTOCOL_COMMAND_SYNC_SECURE
    note now = assms [unfolded Some PROTOCOL_COMMAND_SYNC_SECURE busy_command_steps]
    from now show ?thesis
      by (rule with_decrypted_adds) (erule busy_sync_adds, simp)
  next
    case PROTOCOL_COMMAND_GET_SECURE
    note now = assms [unfolded Some PROTOCOL_COMMAND_GET_SECURE busy_command_steps]
    from now show ?thesis by (rule busy_get_secure_adds)
  next
    case PROTOCOL_COMMAND_VERSION
    note now = assms [unfolded Some PROTOCOL_COMMAND_VERSION busy_command_steps]
    from now show ?thesis by auto
  next
    case PROTOCOL_COMMAND_OPENDIR_SECURE
    note now = assms [unfolded Some PROTOCOL_COMMAND_OPENDIR_SECURE busy_command_steps]
    from now show ?thesis
      by (rule with_decrypted_adds) (erule busy_opendir_adds, erule (1) directory_adds, simp)
  next
    case PROTOCOL_COMMAND_VAR
    note now = assms [unfolded Some PROTOCOL_COMMAND_VAR busy_command_steps]
    from now show ?thesis by (rule busy_var_adds) (auto simp: GetServerLiteral_def)
  next
    case PROTOCOL_COMMAND_VAR_SECURE
    note now = assms [unfolded Some PROTOCOL_COMMAND_VAR_SECURE busy_command_steps]
    from now show ?thesis
      by (rule with_decrypted_adds) ((erule busy_var_adds; auto simp: GetServerLiteral_def), simp)
  next
    case PROTOCOL_COMMAND_CONTEXT
    note now = assms [unfolded Some PROTOCOL_COMMAND_CONTEXT busy_command_steps]
    from now show ?thesis by (rule busy_context_adds)
  next
    case PROTOCOL_COMMAND_CONTEXT_SECURE
    note now = assms [unfolded Some PROTOCOL_COMMAND_CONTEXT_SECURE busy_command_steps]
    from now show ?thesis
      by (rule with_decrypted_adds) (erule busy_context_adds, simp)
  next
    case PROTOCOL_COMMAND_QUERY_SECURE
    note now = assms [unfolded Some PROTOCOL_COMMAND_QUERY_SECURE busy_command_steps]
    from now show ?thesis
      by (rule with_decrypted_adds) ((erule busy_var_adds; auto simp: bad_request_def GetServerQuery_def), simp)
  next
    case PROTOCOL_COMMAND_CALL_ME_BACK
    note now = assms [unfolded Some PROTOCOL_COMMAND_CALL_ME_BACK busy_command_steps]
    from now show ?thesis
      by (rule with_decrypted_adds) ((erule busy_var_adds; auto), simp)
  next
    case PROTOCOL_COMMAND_BAD
    note now = assms [unfolded Some PROTOCOL_COMMAND_BAD busy_command_steps]
    from now show ?thesis by (auto simp: bad_request_def)
  qed
qed

lemma VerifyConnection_keeps:
  "VerifyConnection env host sv c buf = Some (ok, c') \<Longrightarrow>
     rsa_auth c' = rsa_auth c \<and> trust c' = trust c \<and> digest c' = digest c \<and> session_key c' = session_key c"
  unfolding VerifyConnection_def Let_def
  by (auto simp: bind_eq_Some_conv split: if_splits prod.splits)


lemma busy_command_identity:
  assumes "busy_command env host ctx w raw command = Some (b, w')"
    and "command \<noteq> Some PROTOCOL_COMMAND_AUTH_CLEAR" "command \<noteq> Some PROTOCOL_COMMAND_AUTH_SECURE"
  shows "same_identity (conn w) (conn w')"
proof (cases command)
  case None
  from assms(1) [unfolded None busy_command_steps] show ?thesis by (auto simp: bad_request_def)
next
  case (Some cmd)
  show ?thesis
  proof (cases cmd)
    case PROTOCOL_COMMAND_EXEC
    note now = assms(1) [unfolded Some PROTOCOL_COMMAND_EXEC busy_command_steps]
    from now show ?thesis by (rule busy_exec_identity)
  next
    case PROTOCOL_COMMAND_AUTH
    note now = assms(1) [unfolded Some PROTOCOL_COMMAND_AUTH busy_command_steps]
    from now show ?thesis by (auto simp: bad_request_def)
  next
    case PROTOCOL_COMMAND_GET
    note now = assms(1) [unfolded Some PROTOCOL_COMMAND_GET busy_command_steps]
    from now show ?thesis by (rule busy_get_identity)
  next
    case PROTOCOL_COMMAND_OPENDIR
    note now = assms(1) [unfolded Some PROTOCOL_COMMAND_OPENDIR busy_command_steps]
    from now show ?thesis by (rule busy_opendir_identity) simp
  next
    case PROTOCOL_COMMAND_SYNC
    note now = assms(1) [unfolded Some PROTOCOL_COMMAND_SYNC busy_command_steps]
    from now show ?thesis by (rule busy_sync_identity)
  next
    case PROTOCOL_COMMAND_CONTEXTS
    note now = assms(1) [unfolded Some PROTOCOL_COMMAND_CONTEXTS busy_command_steps]
    from now show ?thesis by (auto simp: bad_request_def)
  next
    case PROTOCOL_COMMAND_MD5
    note now = assms(1) [unfolded Some PROTOCOL_COMMAND_MD5 busy_command_steps]
    from now show ?thesis by (auto split: if_splits)
  next
    case PROTOCOL_COMMAND_MD5_SECURE
    note now = assms(1) [unfolded Some PROTOCOL_COMMAND_MD5_SECURE busy_command_steps]
    from now show ?thesis
      by (rule with_decrypted_identity) (auto split: if_splits)
  next
    case PROTOCOL_COMMAND_AUTH_CLEAR
    note now = assms(1) [unfolded Some PROTOCOL_COMMAND_AUTH_CLEAR busy_command_steps]
    show ?thesis using assms(2,3) Some PROTOCOL_COMMAND_AUTH_CLEAR by simp
  next
    case PROTOCOL_COMMAND_AUTH_SECURE
    note now = assms(1) [unfolded Some PROTOCOL_COMMAND_AUTH_SECURE busy_command_steps]
    show ?thesis using assms(2,3) Some PROTOCOL_COMMAND_AUTH_SECURE by simp
  next
    case PROTOCOL_COMMAND_SYNC_SECURE
    note now = assms(1) [unfolded Some PROTOCOL_COMMAND_SYNC_SECURE busy_command_steps]
    from now show ?thesis
      by (rule with_decrypted_identity) (erule busy_sync_identity)
  next
    case PROTOCOL_COMMAND_GET_SECURE
    note now = assms(1) [unfolded Some PROTOCOL_COMMAND_GET_SECURE busy_command_steps]
    from now show ?thesis by (rule busy_get_secure_identity)
  next
    case PROTOCOL_COMMAND_VERSION
    note now = assms(1) [unfolded Some PROTOCOL_COMMAND_VERSION busy_command_steps]
    from now show ?thesis by auto
  next
    case PROTOCOL_COMMAND_OPENDIR_SECURE
    note now = assms(1) [unfolded Some PROTOCOL_COMMAND_OPENDIR_SECURE busy_command_steps]
    from now show ?thesis
      by (rule with_decrypted_identity) (erule busy_opendir_identity, simp)
  next
    case PROTOCOL_COMMAND_VAR
    note now = assms(1) [unfolded Some PROTOCOL_COMMAND_VAR busy_command_steps]
    from now show ?thesis by (rule busy_var_identity) simp
  next
    case PROTOCOL_COMMAND_VAR_SECURE
    note now = assms(1) [unfolded Some PROTOCOL_COMMAND_VAR_SECURE busy_command_steps]
    from now show ?thesis
      by (rule with_decrypted_identity) (erule busy_var_identity, simp)
  next
    case PROTOCOL_COMMAND_CONTEXT
    note now = assms(1) [unfolded Some PROTOCOL_COMMAND_CONTEXT busy_command_steps]
    from now show ?thesis by (rule busy_context_identity)
  next
    case PROTOCOL_COMMAND_CONTEXT_SECURE
    note now = assms(1) [unfolded Some PROTOCOL_COMMAND_CONTEXT_SECURE busy_command_steps]
    from now show ?thesis
      by (rule with_decrypted_identity) (erule busy_context_identity)
  next
    case PROTOCOL_COMMAND_QUERY_SECURE
    note now = assms(1) [unfolded Some PROTOCOL_COMMAND_QUERY_SECURE busy_command_steps]
    from now show ?thesis
      by (rule with_decrypted_identity) (erule busy_var_identity, simp add: GetServerQuery_def)
  next
    case PROTOCOL_COMMAND_CALL_ME_BACK
    note now = assms(1) [unfolded Some PROTOCOL_COMMAND_CALL_ME_BACK busy_command_steps]
    from now show ?thesis
      by (rule with_decrypted_identity) (erule busy_var_identity, simp)
  next
    case PROTOCOL_COMMAND_BAD
    note now = assms(1) [unfolded Some PROTOCOL_COMMAND_BAD busy_command_steps]
    from now show ?thesis by (auto simp: bad_request_def)
  qed
qed

lemma busy_command_key:
  assumes "busy_command env host ctx w raw command = Some (b, w')" "rsa_auth (conn w')" "\<not> rsa_auth (conn w)"
  shows "command = Some PROTOCOL_COMMAND_AUTH_SECURE \<and> id_verified (conn w) \<and>
    (\<exists>key. digest (conn w') = key_digest host key \<and> key_accepted env host w key)"
proof (cases "command = Some PROTOCOL_COMMAND_AUTH_SECURE")
  case True
  note now = assms(1) [unfolded True busy_command_steps]
  have v: "id_verified (conn w)"
  proof (rule ccontr)
    assume "\<not> id_verified (conn w)"
    with now have "w' = RefuseAccess w" by simp
    with assms(2,3) show False by simp
  qed
  with now obtain w1 where w1: "AuthenticationDialogue env host w raw = Some (b, w1)"
    "w' = (if b then w1 else RefuseAccess w1)" by (auto simp: bind_eq_Some_conv)
  then have "conn w' = conn w1" by simp
  with AuthenticationDialogue_key [OF w1(1)] assms(2,3) v True show ?thesis by auto
next
  case False
  have "rsa_auth (conn w') = rsa_auth (conn w)"
  proof (cases "command = Some PROTOCOL_COMMAND_AUTH_CLEAR")
    case True
    note now = assms(1) [unfolded True busy_command_steps]
    from now obtain c1 where c1: "VerifyConnection env host (SV w) (conn w) (drop 6 (c_text raw)) = Some (b, c1)"
      by (auto simp: Let_def bind_eq_Some_conv simp del: adds_update)
    with now have "w' = w\<lparr>conn := c1\<lparr>id_verified := b\<rparr>\<rparr> \<or> w' = RefuseAccess (w\<lparr>conn := c1\<lparr>id_verified := b\<rparr>\<rparr>)"
      by (simp add: Let_def split: if_splits)
    then have "rsa_auth (conn w') = rsa_auth c1" by (elim disjE) simp_all
    with VerifyConnection_keeps [OF c1] show ?thesis by simp
  next
    case clear: False
    from same_identity_fields [OF busy_command_identity [OF assms(1) clear False]] show ?thesis by simp
  qed
  with assms(2,3) show ?thesis by simp
qed


section \<open>Nothing is served that is not granted\<close>

lemma step_justified:
  assumes "BusyWithConnection env host ctx w = Some (b, w')"
  shows "adds (justified env host ctx w) w w'"
proof (cases "inbox w")
  case Nil
  with assms show ?thesis by (auto simp: BusyWithConnection_def Receive_def)
next
  case (Cons raw ms)
  have "adds (justified env host ctx (w\<lparr>inbox := ms\<rparr>)) (w\<lparr>inbox := ms\<rparr>) w'"
  proof (cases "length (c_text raw) = 0")
    case True
    with Cons assms show ?thesis by (auto simp: BusyWithConnection_def Receive_def)
  next
    case False
    with Cons assms show ?thesis by (intro busy_command_adds) (simp add: BusyWithConnection_def Receive_def)
  qed
  then show ?thesis by simp
qed

text \<open>
  C1. Whatever a client sends, an answer to one message contains nothing it has no right to: a file, a directory or the properties of a file are
  sent, a command is run and a hash is compared only for a client whose host is verified; the first four only when the access rules
  grant this host this name, encrypted if the rule asks for it (directories and properties are asked for as if encrypted); and a
  command is run only for an allowed user whose key has been accepted.
\<close>

theorem served_only_if_granted:
  assumes "BusyWithConnection env host ctx w = Some (b, w')"
  shows "\<exists>new. sent w' = sent w @ new \<and> list_all (justified env host ctx w) new"
  using step_justified [OF assms] by (simp add: adds_def)

text \<open>A small host: everything can be read, and every key is a number.\<close>

definition small_host :: Host where
  "small_host =
     \<lparr>decrypt = (\<lambda>_ _ s. s), addresses = (\<lambda>_. []), passwd = (\<lambda>_. None), file_owner = (\<lambda>_. 0), other_read = (\<lambda>_. True),
      can_open = (\<lambda>_. True), file_hash = (\<lambda>_. []), clock = None, find_separator = (\<lambda>_. None), run_command = ''/a/f'',
      deny_bad_clocks = False, clock_drift = 0, default_digest = HASH_METHOD_MD5, challenge_digest = HASH_METHOD_MD5,
      own_key = True, private_decrypt = Some, public_encrypt = (\<lambda>_ _. True), big_number = (\<lambda>s. Some (int (length s))),
      key_digest = (\<lambda>_. replicate 16 0), saved_key = (\<lambda>_ _ _. None), hash_bytes = (\<lambda>_ _. replicate 16 0),
      fresh_challenge = ''c''\<rparr>"

definition small_world :: "ServerConnectionState \<Rightarrow> string list \<Rightarrow> event list \<Rightarrow> World" where
  "small_world c ms es = \<lparr>conn = c, SV = small_access, state_db = [], seen_db = None, inbox = ms, sent = es\<rparr>"

lemma small_host [simp]:
  "can_open small_host f" "other_read small_host f" "clock small_host = None" "run_command small_host = ''/a/f''"
  "default_digest small_host = HASH_METHOD_MD5" "challenge_digest small_host = HASH_METHOD_MD5" "own_key small_host"
  "private_decrypt small_host s = Some s" "public_encrypt small_host k s" "big_number small_host s = Some (int (length s))"
  "key_digest small_host k = replicate 16 0" "saved_key small_host u a d = None" "hash_bytes small_host h s = replicate 16 0"
  by (simp_all add: small_host_def)

lemma small_granted:
  assumes "ipaddr c = ''10.0.0.1''" "hostname c = ''h''" "\<not> maproot c"
  shows "AccessControl small_env small_access ctx ''/a/f'' c False = Some (True, c)"
proof -
  have listed: "host_listed small_env ctx c l = host_listed small_env ctx (client ''10.0.0.1'' ''h'') l" for l
    using assms by (simp add: host_listed_def client_def)
  have "admit small_access = [open_rule ''/a'' [(''10.0.0.1'', None)]]" "deny small_access = []"
    by (simp_all add: small_access_def no_access_def)
  then show ?thesis
    by (simp add: AccessControl_def small_request small_rule listed small_listed Let_def) (cases c, use assms in simp)
qed

lemma small_world [simp]:
  "Receive (small_world c (m # ms) es) = Some (m, small_world c ms es)" "conn (small_world c ms es) = c"
  "SV (small_world c ms es) = small_access" "sent (small_world c ms es) = es" "seen_db (small_world c ms es) = None"
  "(small_world c ms es)\<lparr>conn := c'\<rparr> = small_world c' ms es" "(small_world c ms es)\<lparr>seen_db := None\<rparr> = small_world c ms es"
  "send e (small_world c ms es) = small_world c ms (es @ [e])"
  by (simp_all add: small_world_def Receive_def send_def)

lemma client_fields [simp]:
  "id_verified (client a n)" "\<not> rsa_auth (client a n)" "username (client a n) = []" "ipaddr (client a n) = a"
  "hostname (client a n) = n" "\<not> maproot (client a n)"
  by (simp_all add: client_def)

lemma small_get: "BusyWithConnection small_env small_host ctx (small_world (client ''10.0.0.1'' ''h'') [''GET 9 /a/f''] []) =
    Some (True, small_world (client ''10.0.0.1'' ''h'') [] [FileSent ''/a/f'' False])"
proof -
  have m: "GetCommand ''GET 9 /a/f'' = Some PROTOCOL_COMMAND_GET" by (simp add: GetCommand_def PROTOCOL_def strncmp_def)
  have t: "c_text ''GET 9 /a/f'' = ''GET 9 /a/f''" by (simp add: c_text_def)
  have d: "scan_d '' 9 /a/f'' = Some (9, '' /a/f'')" 
    by (simp add: scan_d_def scan_ld_def scan_digits_def isspace_def isdigit_def digit_def clamp_long_def LONG_MIN_def LONG_MAX_def int32_def
        number_def)
  have f: "scan_line CF_BUFSIZE '' /a/f'' = ''/a/f''" by (simp add: scan_line_def CF_BUFSIZE_def isspace_def)
  have b: "\<not> CF_BUFSIZE < 9" by (simp add: CF_BUFSIZE_def)
  show ?thesis
    by (simp add: BusyWithConnection_def t m busy_command_steps busy_get_def d f with_access_def small_granted b)
      (simp add: CfGetFile_def TransferRights_def TranslatePath_def MapName_def CF_BUFSIZE_def Let_def)
qed


theorem served_only_if_granted_witness:
  "list_all (justified small_env small_host EvalContextNew (small_world (client ''10.0.0.1'' ''h'') [''GET 9 /a/f''] [])) [FileSent ''/a/f'' False]"
  using served_only_if_granted [OF small_get [of EvalContextNew]] by (simp del: justified.simps)

section \<open>A whole connection\<close>

text \<open>The states between the messages of a connection.\<close>

inductive session :: "ServerEnv \<Rightarrow> Host \<Rightarrow> EvalContext \<Rightarrow> World \<Rightarrow> World \<Rightarrow> bool" for env host ctx where
  start: "session env host ctx w w"
| message: "BusyWithConnection env host ctx w = Some (b, v) \<Longrightarrow> session env host ctx v u \<Longrightarrow> session env host ctx w u"

lemma message_key:
  assumes "BusyWithConnection env host ctx w = Some (b, v)" "rsa_auth (conn v)" "\<not> rsa_auth (conn w)"
  shows "id_verified (conn w) \<and> (\<exists>key. digest (conn v) = key_digest host key \<and> key_accepted env host w key)"
proof (cases "inbox w")
  case Nil
  with assms show ?thesis by (auto simp: BusyWithConnection_def Receive_def)
next
  case (Cons raw ms)
  show ?thesis
  proof (cases "length (c_text raw) = 0")
    case True
    with Cons assms show ?thesis by (auto simp: BusyWithConnection_def Receive_def)
  next
    case False
    with Cons assms have "busy_command env host ctx (w\<lparr>inbox := ms\<rparr>) raw (GetCommand (c_text raw)) = Some (b, v)"
      by (simp add: BusyWithConnection_def Receive_def)
    from busy_command_key [OF this] assms(2,3) show ?thesis by (simp add: key_accepted_def)
  qed
qed

lemma session_key_accepted:
  "session env host ctx w u \<Longrightarrow> rsa_auth (conn u) \<Longrightarrow> \<not> rsa_auth (conn w) \<Longrightarrow>
     \<exists>v key. session env host ctx w v \<and> id_verified (conn v) \<and> key_accepted env host v key"
proof (induction rule: session.induct)
  case (message w b v u)
  show ?case
  proof (cases "rsa_auth (conn v)")
    case True
    from message_key [OF message.hyps(1) True message.prems(2)] show ?thesis by (blast intro: session.start)
  next
    case False
    from message.IH [OF message.prems(1) False] message.hyps(1) show ?thesis by (blast intro: session.message)
  qed
qed simp

lemma handle_loop_events:
  "handle_loop env host ctx n w = Some (w', ended) \<Longrightarrow> e \<in> set (sent w') \<Longrightarrow> e \<notin> set (sent w) \<Longrightarrow>
     \<exists>v. session env host ctx w v \<and> justified env host ctx v e"
proof (induction n arbitrary: w)
  case (Suc n)
  from Suc.prems(1) obtain busy w1 where step: "BusyWithConnection env host ctx w = Some (busy, w1)"
    and rest: "(if busy then handle_loop env host ctx n w1 else Some (w1, True)) = Some (w', ended)"
    by (auto simp: bind_eq_Some_conv)
  have here: "e \<in> set (sent w1) \<Longrightarrow> justified env host ctx w e"
    using step_justified [OF step] Suc.prems(3) by (auto simp: adds_def list_all_iff)
  show ?case
  proof (cases "e \<in> set (sent w1)")
    case True
    with here show ?thesis by (blast intro: session.start)
  next
    case False
    with rest Suc.prems(2) have "handle_loop env host ctx n w1 = Some (w', ended)" by (simp split: if_splits)
    from Suc.IH [OF this Suc.prems(2) False] step show ?thesis by (blast intro: session.message)
  qed
qed simp

text \<open>
  C2. In a connection of any length, a command is run only after an accepted key: if a connection that is not yet authenticated has run a
  command, then in one state of it the host was verified and the rules granted it the command and the user, and in one the host was
  verified and a key was accepted: as the saved one, by an address in the list of trusted ones, or since the connection trusts.
\<close>

theorem command_needs_key:
  assumes "handle_loop env host ctx n w = Some (w', ended)" "Executed cmd \<in> set (sent w')"
    and "Executed cmd \<notin> set (sent w)" "\<not> rsa_auth (conn w)"
  shows "\<exists>v u key. session env host ctx w v \<and> session env host ctx w u \<and>
    id_verified (conn v) \<and> AllowedUser (SV v) (username (conn v)) \<and> granted env ctx v (CommandArg0 (run_command host)) False \<and>
    id_verified (conn u) \<and> key_accepted env host u key"
proof -
  from handle_loop_events [OF assms(1-3)] obtain v where v: "session env host ctx w v" "justified env host ctx v (Executed cmd)" by blast
  then have "rsa_auth (conn v)" by simp
  from session_key_accepted [OF v(1) this assms(4)] v show ?thesis by auto
qed

text \<open>A connection that trusts: the client sends its key, answers the challenge, sends a session key and has the command run.\<close>

definition keyed :: ServerConnectionState where
  "keyed = (client ''10.0.0.1'' ''h'')\<lparr>trust := True, digest := replicate 16 0, session_key := Some ''0123456789abcdef'', rsa_auth := True\<rparr>"

lemma trusting_client:
  "\<not> rsa_auth ((client a n)\<lparr>trust := True\<rparr>)" "id_verified keyed" "rsa_auth keyed" "username keyed = []" "hostname keyed = ''h''"
  "ipaddr keyed = ''10.0.0.1''" "\<not> maproot keyed"
  by (simp_all add: client_def keyed_def)

lemma trusting_session:
  "BusyWithConnection small_env small_host ctx
     (small_world ((client ''10.0.0.1'' ''h'')\<lparr>trust := True\<rparr>)
       [''SAUTH n 1 1 c            '', ''n'', ''e'', [], ''0123456789abcdef'', ''EXEC'', CFD_TERMINATOR] []) =
   Some (True, small_world keyed [''EXEC'', CFD_TERMINATOR]
     [Told ''BAD: key could not be accepted on trust'', Told ''digest'', Challenged, Told ''key''])"
proof -
  have trusted: "trustkeylist small_access = []" by (simp add: small_access_def no_access_def)
  let ?raw = "''SAUTH n 1 1 c            ''"
  have m: "GetCommand ?raw = Some PROTOCOL_COMMAND_AUTH_SECURE" by (simp add: GetCommand_def PROTOCOL_def strncmp_def)
  have t: "c_text ?raw = ?raw" by (simp add: c_text_def)
  have u: "scan_u '' 1 1 c            '' = Some (1, '' 1 c            '')" "scan_u '' 1 c            '' = Some (1, '' c            '')"
    "scan_u ''1 1 c            '' = Some (1, '' 1 c            '')"
    by (simp_all add: scan_u_def scan_ld_def scan_digits_def isspace_def isdigit_def digit_def clamp_long_def LONG_MIN_def LONG_MAX_def number_def)
  have s: "scan_auth ?raw = (''SAUTH'', CHR ''n'', 1, 1, CHR ''c'')" by (simp add: scan_auth_def isspace_def u)
  show ?thesis
    by (simp add: BusyWithConnection_def t m busy_command_steps AuthenticationDialogue_def s CheckStoreKey_def LastSaw_def
        UpdateLastSawHost_def Let_def trusted)
      (simp add: session_dialogue_def Let_def HashesMatch_def FileHashSize_def keyed_def list_all_iff bytes_of_def CF_BUFSIZE_def client_def)
qed

lemma keyed_exec:
  "BusyWithConnection small_env small_host ctx (small_world keyed [''EXEC'', CFD_TERMINATOR] es) =
   Some (False, small_world keyed [] (es @ [Executed ''/a/f --inform'', Told CFD_TERMINATOR]))"
proof -
  have m: "GetCommand ''EXEC'' = Some PROTOCOL_COMMAND_EXEC" by (simp add: GetCommand_def PROTOCOL_def strncmp_def)
  have t: "c_text ''EXEC'' = ''EXEC''" "c_text CFD_TERMINATOR = CFD_TERMINATOR" by (simp_all add: c_text_def CFD_TERMINATOR_def)
  have l: "scan_line 255 [] = []" by (simp add: scan_line_def)
  have u: "AllowedUser small_access []" by (simp add: empty_user_is_allowed)
  have c: "CommandArg0 ''/a/f'' = ''/a/f''" by (simp add: CommandArg0_def strlcpy_def CF_BUFSIZE_def Let_def)
  have g: "AccessControl small_env small_access ctx ''/a/f'' keyed False = Some (True, keyed)"
    by (rule small_granted) (simp_all add: trusting_client)
  have mc: "MatchClasses small_env ctx (small_world keyed [CFD_TERMINATOR] es) = (True, small_world keyed [] es)"
    by (simp add: MatchClasses_def eval_nat_numeral t)
  show ?thesis
    by (simp add: BusyWithConnection_def t m busy_command_steps busy_exec_def trusting_client l u c g mc Let_def DoExec_def Terminate_def)
      (simp add: CF_BUFSIZE_def)
qed

theorem command_needs_key_witness:
  "\<exists>v u key. id_verified (conn v) \<and> granted small_env EvalContextNew v ''/a/f'' False \<and> id_verified (conn u) \<and> key_accepted small_env small_host u key"
proof -
  let ?w = "small_world ((client ''10.0.0.1'' ''h'')\<lparr>trust := True\<rparr>)
       [''SAUTH n 1 1 c            '', ''n'', ''e'', [], ''0123456789abcdef'', ''EXEC'', CFD_TERMINATOR] []"
  have "handle_loop small_env small_host EvalContextNew (Suc (Suc 0)) ?w = Some (small_world keyed []
     [Told ''BAD: key could not be accepted on trust'', Told ''digest'', Challenged, Told ''key'', Executed ''/a/f --inform'',
      Told CFD_TERMINATOR], True)"
    by (simp add: trusting_session keyed_exec)
  moreover have "CommandArg0 (run_command small_host) = ''/a/f''" by (simp add: CommandArg0_def strlcpy_def CF_BUFSIZE_def Let_def)
  ultimately show ?thesis using command_needs_key [of small_env small_host EvalContextNew "Suc (Suc 0)" ?w _ True "''/a/f --inform''"]
    by (auto simp: trusting_client)
qed

section \<open>What the server also does\<close>

text \<open>An encrypted transfer that the rights of the user forbid is refused, and the file is sent all the same.\<close>

lemma refused_and_sent:
  "\<not> TransferRights host (conn w) (TranslatePath f) \<Longrightarrow> can_open host (TranslatePath f) \<Longrightarrow>
     sent (CfEncryptGetFile host w f) = sent w @ [Refused, TransferFailed (TranslatePath f), FileSent (TranslatePath f) True]"
  by (simp add: CfEncryptGetFile_def Let_def send_def)

text \<open>A connection that does not trust takes every name for the host that the client gives.\<close>

lemma untrusting_takes_any_name:
  "\<not> trust c \<Longrightarrow> \<exists>c'. VerifyConnection env host sv c buf = Some (True, c') \<and>
     hostname c' = ToLowerStrInplace (fst (snd (scan_words3 buf))) \<and> username c' = snd (snd (scan_words3 buf))"
  by (cases "scan_words3 buf") (simp add: VerifyConnection_def)

text \<open>Clocks that are 65536 seconds apart are not too far apart: the square of the difference is 0 as an \<open>int\<close>.\<close>

lemma far_clocks_pass: "clock_drift host = 60 \<Longrightarrow> \<not> clocks_differ host (t + 65536) t"
  by (simp add: clocks_differ_def int32_def)

text \<open>Behind another argument, \<open>--define=x\<close> is not taken for the option, so the roles are not asked.\<close>

lemma define_with_value: "\<not> OptionFound ''-v --define=x'' 3 ''--define''"
  by (simp add: OptionFound_def strncmp_def)

end
