(* ===== verification/Server_Connections.thy ===== *)
theory Server_Connections
  imports Server_Protocol
begin

text \<open>
  Which connections the server takes: \<open>ServerEntryPoint\<close>, \<open>PurgeOldConnections\<close>, \<open>SpawnConnection\<close>, the beginning and end of
  \<open>HandleConnection\<close> and \<open>DeleteConn\<close> in \<open>cf-serverd/server.c\<close>. A lock that cannot be had is the argument \<open>lock\<close>; what a
  connection does in between is in \<open>Server_Protocol\<close>. \<open>None\<close> is an access outside of a buffer.
\<close>

text \<open>\<open>ip->classes\<close> is the time of the connection; a text without a number leaves \<open>then\<close> as it was.\<close>

fun purge_loop :: "int \<Rightarrow> int \<Rightarrow> items \<Rightarrow> items" where
  "purge_loop now thn [] = []"
| "purge_loop now thn ((nm, intime) # ip) =
     (let thn1 = (case scan_d (NULLStringToEmpty intime) of None \<Rightarrow> thn | Some (i, _) \<Rightarrow> i) in
      if now > int32 (thn1 + 7200) then purge_loop now thn1 ip else (nm, intime) # purge_loop now thn1 ip)"

definition PurgeOldConnections :: "bool \<Rightarrow> items \<Rightarrow> int \<Rightarrow> items" where
  "PurgeOldConnections lock list now = (if lock then purge_loop now 0 list else list)"

text \<open>The connections after the call, and whether a thread is spawned for the new one.\<close>

definition ServerEntryPoint ::
  "ServerEnv \<Rightarrow> ServerAccess \<Rightarrow> bool \<Rightarrow> int option \<Rightarrow> string \<Rightarrow> (bool \<times> ServerAccess) option"
where
  "ServerEntryPoint env sv lock clk addr =
     do {
       let ip = MapAddress addr;
       non \<leftarrow> (if nonattackerlist sv = [] then Some True else IsMatchItemIn env (nonattackerlist sv) ip);
       (if \<not> non then Some (False, sv)
        else do {
          attacker \<leftarrow> IsMatchItemIn env (attackerlist sv) ip;
          (if attacker then Some (False, sv)
           else do {
             let now = (case clk of None \<Rightarrow> 0 | Some t \<Rightarrow> t);
             let sv1 = sv\<lparr>connectionlist := PurgeOldConnections lock (connectionlist sv) now\<rparr>;
             multi \<leftarrow> IsMatchItemIn env (multiconnlist sv) ip;
             (if \<not> multi \<and> \<not> lock then Some (False, sv1)
              else if \<not> multi \<and> item_in (connectionlist sv1) ip then Some (False, sv1)
              else if \<not> lock then Some (False, sv1)
              else Some (True, sv1\<lparr>connectionlist := (ip, Some (StringFromLong (int32 now))) # connectionlist sv1\<rparr>))
           })
        })
     }"

text \<open>The address of a connection that ends is deleted: the first one that it matches as an expression.\<close>

definition delete_matching :: "ServerEnv \<Rightarrow> items \<Rightarrow> string \<Rightarrow> items" where
  "delete_matching env list str =
     (case find_index (\<lambda>(nm, _). full_text_match env str nm) list of None \<Rightarrow> list | Some i \<Rightarrow> remove_at i list)"

definition DeleteConn :: "ServerEnv \<Rightarrow> bool \<Rightarrow> ServerAccess \<Rightarrow> string \<Rightarrow> ServerAccess" where
  "DeleteConn env lock sv addr =
     (if lock then sv\<lparr>connectionlist := delete_matching env (connectionlist sv) (MapAddress addr)\<rparr> else sv)"

record Threads =
  access :: ServerAccess
  spawned :: "string list"
  running :: "string list"
  ACTIVE_THREADS :: int
  TRIES :: int

text \<open>The beginning of \<open>HandleConnection\<close>: \<open>None\<close> when the server gives up, else whether the connection is taken.\<close>

definition begin_connection :: "int \<Rightarrow> int \<Rightarrow> int \<Rightarrow> int \<Rightarrow> (bool \<times> int \<times> int) option" where
  "begin_connection max_processes max_tries active tries =
     (if active + 1 \<ge> max_processes then (if tries > max_tries then None else Some (False, active, tries + 1))
      else Some (True, active + 1, 0))"

text \<open>
  What happens to the server, with the limits: a connection arrives, a thread that was spawned begins, and one that runs ends. The locks can
  be had; the end of a connection that is not taken is its beginning.
\<close>

inductive server_step :: "ServerEnv \<Rightarrow> int \<Rightarrow> int \<Rightarrow> Threads \<Rightarrow> Threads \<Rightarrow> bool" for env max_processes max_tries where
  arrives: "ServerEntryPoint env (access s) True clk addr = Some (True, sv1) \<Longrightarrow>
     server_step env max_processes max_tries s (s\<lparr>access := sv1, spawned := take 63 addr # spawned s\<rparr>)"
| refused: "ServerEntryPoint env (access s) True clk addr = Some (False, sv1) \<Longrightarrow>
     server_step env max_processes max_tries s (s\<lparr>access := sv1\<rparr>)"
| begins: "i < length (spawned s) \<Longrightarrow>
     begin_connection max_processes max_tries (ACTIVE_THREADS s) (TRIES s) = Some (True, active, tries) \<Longrightarrow>
     server_step env max_processes max_tries s
       (s\<lparr>spawned := remove_at i (spawned s), running := (spawned s ! i) # running s, ACTIVE_THREADS := active, TRIES := tries\<rparr>)"
| too_busy: "i < length (spawned s) \<Longrightarrow>
     begin_connection max_processes max_tries (ACTIVE_THREADS s) (TRIES s) = Some (False, active, tries) \<Longrightarrow>
     server_step env max_processes max_tries s
       (s\<lparr>access := DeleteConn env True (access s) (spawned s ! i), spawned := remove_at i (spawned s), ACTIVE_THREADS := active,
          TRIES := tries\<rparr>)"
| ends: "i < length (running s) \<Longrightarrow>
     server_step env max_processes max_tries s
       (s\<lparr>access := DeleteConn env True (access s) (running s ! i), running := remove_at i (running s),
          ACTIVE_THREADS := ACTIVE_THREADS s - 1\<rparr>)"

inductive serving :: "ServerEnv \<Rightarrow> int \<Rightarrow> int \<Rightarrow> ServerAccess \<Rightarrow> Threads \<Rightarrow> bool" for env max_processes max_tries sv where
  idle: "connectionlist sv = [] \<Longrightarrow>
     serving env max_processes max_tries sv \<lparr>access = sv, spawned = [], running = [], ACTIVE_THREADS = 0, TRIES = 0\<rparr>"
| step: "serving env max_processes max_tries sv s \<Longrightarrow> server_step env max_processes max_tries s s' \<Longrightarrow>
     serving env max_processes max_tries sv s'"

section \<open>One connection for every address\<close>

definition once :: "ServerEnv \<Rightarrow> ServerAccess \<Rightarrow> bool" where
  "once env sv \<longleftrightarrow> distinct (filter (\<lambda>a. IsMatchItemIn env (multiconnlist sv) a = Some False) (map fst (connectionlist sv)))"

lemma subseq_distinct: "subseq xs ys \<Longrightarrow> distinct ys \<Longrightarrow> distinct xs"
  by (induction rule: list_emb.induct) (auto dest: list_emb_set)

lemma once_subseq:
  "subseq list (connectionlist sv) \<Longrightarrow> once env sv \<Longrightarrow> once env (sv\<lparr>connectionlist := list\<rparr>)"
  unfolding once_def by simp (rule subseq_distinct [OF subseq_filter [OF subseq_map]])

lemma purge_subseq: "subseq (purge_loop now thn list) list"
  by (induction now thn list rule: purge_loop.induct) (auto simp: Let_def intro: list_emb_Cons)

lemma remove_at_subseq: "subseq (remove_at i xs) xs"
proof -
  have "subseq (take i xs @ drop (Suc i) xs) (take i xs @ drop i xs)"
    by (intro list_emb_append_mono subseq_order.order_refl) (cases "drop i xs"; auto simp: drop_Suc tl_drop [symmetric])
  then show ?thesis by (simp add: remove_at_def)
qed

lemma once_DeleteConn: "once env sv \<Longrightarrow> once env (DeleteConn env lock sv addr)"
  by (auto simp: DeleteConn_def delete_matching_def intro: once_subseq remove_at_subseq split: option.splits)

lemma DeleteConn_fields [simp]: "multiconnlist (DeleteConn env lock sv addr) = multiconnlist sv"
  by (simp add: DeleteConn_def)

lemma once_ServerEntryPoint:
  assumes "ServerEntryPoint env sv lock clk addr = Some (ok, sv')" "once env sv"
  shows "once env sv'"
proof -
  let ?list = "PurgeOldConnections lock (connectionlist sv) (case clk of None \<Rightarrow> 0 | Some t \<Rightarrow> t)"
  let ?sv1 = "sv\<lparr>connectionlist := ?list\<rparr>" and ?ip = "MapAddress addr"
  have o: "once env ?sv1"
    by (rule once_subseq [OF _ assms(2)]) (simp add: PurgeOldConnections_def purge_subseq)
  show ?thesis
  proof (cases "sv' = sv \<or> sv' = ?sv1")
    case True
    with o assms(2) show ?thesis by auto
  next
    case False
    with assms(1) obtain multi t where multi: "IsMatchItemIn env (multiconnlist sv) ?ip = Some multi"
      and new: "multi \<or> \<not> item_in ?list ?ip" and sv': "sv' = ?sv1\<lparr>connectionlist := (?ip, t) # ?list\<rparr>"
      by (auto simp: ServerEntryPoint_def Let_def bind_eq_Some_conv split: if_splits)
    have "\<not> multi \<Longrightarrow> ?ip \<notin> fst ` set ?list"
      using new by (auto simp: item_in_def find_index_None)
    with multi o show ?thesis by (auto simp: sv' once_def)
  qed
qed


definition server_invar :: "ServerEnv \<Rightarrow> int \<Rightarrow> Threads \<Rightarrow> bool" where
  "server_invar env max_processes s \<longleftrightarrow>
     once env (access s) \<and> ACTIVE_THREADS s = int (length (running s)) \<and> (running s = [] \<or> ACTIVE_THREADS s < max_processes)"

lemma server_step_invar:
  assumes "server_step env max_processes max_tries s s'" "server_invar env max_processes s"
  shows "server_invar env max_processes s'"
  using assms
proof cases
  case (begins i active tries)
  with assms(2) show ?thesis by (auto simp: server_invar_def begin_connection_def split: if_splits)
next
  case (too_busy i active tries)
  with assms(2) show ?thesis by (auto simp: server_invar_def begin_connection_def once_DeleteConn split: if_splits)
next
  case (ends i)
  with assms(2) show ?thesis by (auto simp: server_invar_def once_DeleteConn length_remove_at)
qed (auto simp: server_invar_def dest: once_ServerEntryPoint)

lemma serving_invar: "serving env max_processes max_tries sv s \<Longrightarrow> server_invar env max_processes s"
  by (induction rule: serving.induct) (auto simp: server_invar_def [of _ _ "\<lparr>access = sv, spawned = [], running = [], ACTIVE_THREADS = 0, TRIES = 0\<rparr>"]
      once_def intro: server_step_invar)



text \<open>An address that is still in the list is refused, also when its connection could not be set up and nothing deletes it.\<close>

lemma repeated_connection:
  "IsMatchItemIn env (multiconnlist sv) (MapAddress a) = Some False \<Longrightarrow> (MapAddress a, t) \<in> set (PurgeOldConnections True (connectionlist sv) now) \<Longrightarrow>
   nonattackerlist sv = [] \<Longrightarrow> IsMatchItemIn env (attackerlist sv) (MapAddress a) = Some False \<Longrightarrow>
   \<exists>sv'. ServerEntryPoint env sv True (Some now) a = Some (False, sv')"
  by (auto simp: ServerEntryPoint_def Let_def item_in_def find_index_None)

end
