(* ===== verification/Syntax_Check.thy ===== *)
theory Syntax_Check
  imports Complex_Main Conversion Modes String_Lib Vars
begin

text \<open>
  The checks of \<open>libpromises/syntax.c\<close>: whether a value has the type and lies in the range that the syntax gives for an attribute,
  with \<open>DoubleFromString\<close> of \<open>conversion.c\<close>, and the table of functions with their types of \<open>evalfunction.c\<close>.
  \<open>FullTextMatch\<close> is the argument \<open>matches\<close>, and the time of \<open>IntFromString\<close> is \<open>now\<close>. \<open>None\<close> is a programming error, an overflow,
  or an access outside of a buffer.
\<close>

datatype SyntaxTypeMatch =
    SYNTAX_TYPE_MATCH_OK
  | SYNTAX_TYPE_MATCH_ERROR_UNEXPANDED
  | SYNTAX_TYPE_MATCH_ERROR_RANGE_BRACKETED
  | SYNTAX_TYPE_MATCH_ERROR_RANGE_MULTIPLE_ITEMS
  | SYNTAX_TYPE_MATCH_ERROR_GOT_SCALAR
  | SYNTAX_TYPE_MATCH_ERROR_GOT_LIST
  | SYNTAX_TYPE_MATCH_ERROR_SCALAR_OUT_OF_RANGE
  | SYNTAX_TYPE_MATCH_ERROR_STRING_UNIX_PERMISSION
  | SYNTAX_TYPE_MATCH_ERROR_INT_PARSE
  | SYNTAX_TYPE_MATCH_ERROR_INT_OUT_OF_RANGE
  | SYNTAX_TYPE_MATCH_ERROR_REAL_INF
  | SYNTAX_TYPE_MATCH_ERROR_REAL_OUT_OF_RANGE
  | SYNTAX_TYPE_MATCH_ERROR_OPTS_OUT_OF_RANGE
  | SYNTAX_TYPE_MATCH_ERROR_FNCALL_RETURN_TYPE
  | SYNTAX_TYPE_MATCH_ERROR_FNCALL_UNKNOWN
  | SYNTAX_TYPE_MATCH_ERROR_CONTEXT_OUT_OF_RANGE

text \<open>The names that \<open>SplitString\<close> puts into its list; \<open>Item_List\<close> has the list itself.\<close>

fun split_names :: "char \<Rightarrow> string \<Rightarrow> char option \<Rightarrow> string \<Rightarrow> string list option" where
  "split_names sep [] prev before = (if CF_BUFSIZE \<le> length before then None else Some [before])"
| "split_names sep (c # cs) prev before =
     (if CF_BUFSIZE \<le> length before then None
      else if c = sep then
        (if prev = Some (CHR 0x5C) then
           (if before = [] then None else split_names sep cs (Some c) (butlast before @ [sep]))
         else map_option ((#) before) (split_names sep cs (Some c) []))
      else split_names sep cs (Some c) (before @ [c]))"

definition split_string :: "string \<Rightarrow> string list option" where
  "split_string s = split_names (CHR '','') s None []"

section \<open>Real numbers\<close>

text \<open>
  A \<open>double\<close> is a rational number, and infinite from \<open>2 ^ 1024\<close> on; the rounding to 53 bits is left out.
\<close>

datatype double = Finite rat | Infinite bool | NaN

definition to_double :: "rat \<Rightarrow> double" where
  "to_double q = (if q \<ge> 2 ^ 1024 then Infinite False else if q \<le> - (2 ^ 1024) then Infinite True else Finite q)"

fun double_less :: "double \<Rightarrow> double \<Rightarrow> bool" where
  "double_less NaN _ = False"
| "double_less _ NaN = False"
| "double_less (Finite p) (Finite q) = (p < q)"
| "double_less (Finite p) (Infinite neg) = (\<not> neg)"
| "double_less (Infinite neg) (Finite q) = neg"
| "double_less (Infinite n1) (Infinite n2) = (n1 \<and> \<not> n2)"

fun double_times :: "rat \<Rightarrow> double \<Rightarrow> double" where
  "double_times k (Finite q) = to_double (k * q)"
| "double_times k (Infinite neg) = Infinite neg"
| "double_times k NaN = NaN"

fun double_neg :: "double \<Rightarrow> double" where
  "double_neg (Finite q) = Finite (- q)"
| "double_neg (Infinite neg) = Infinite (\<not> neg)"
| "double_neg NaN = NaN"

text \<open>\<open>%lf\<close>: the words for infinity and \<open>NaN\<close>, hexadecimal and decimal numbers with a point and an exponent.\<close>

definition xdigit :: "char \<Rightarrow> nat option" where
  "xdigit c = (if isdigit c then Some (digit c)
     else if 97 \<le> code (ToLower c) \<and> code (ToLower c) \<le> 102 then Some (code (ToLower c) - 87) else None)"

definition digit_of :: "nat \<Rightarrow> char \<Rightarrow> nat option" where
  "digit_of base c = (case xdigit c of None \<Rightarrow> None | Some d \<Rightarrow> if d < base then Some d else None)"

definition take_digits :: "nat \<Rightarrow> string \<Rightarrow> nat list \<times> string" where
  "take_digits base s = (map (\<lambda>c. the (digit_of base c)) (takeWhile (\<lambda>c. digit_of base c \<noteq> None) s),
     dropWhile (\<lambda>c. digit_of base c \<noteq> None) s)"

definition digits_value :: "nat \<Rightarrow> nat list \<Rightarrow> rat" where
  "digits_value base ds = of_nat (foldl (\<lambda>a d. a * base + d) 0 ds)"

definition power_to :: "rat \<Rightarrow> int \<Rightarrow> rat" where
  "power_to b e = (if e \<ge> 0 then b ^ nat e else 1 / b ^ nat (- e))"

definition scan_exponent :: "char \<Rightarrow> string \<Rightarrow> int \<times> string" where
  "scan_exponent mark s =
     (case s of
        [] \<Rightarrow> (0, s)
      | c # t \<Rightarrow>
          (if ToLower c \<noteq> mark then (0, s)
           else case scan_sign t of (neg, u) \<Rightarrow>
             (if take_digits 10 u = ([], u) then (0, s)
              else case take_digits 10 u of (ds, v) \<Rightarrow>
                (let e = int (foldl (\<lambda>a d. a * 10 + d) 0 ds) in (if neg then - e else e, v)))))"

definition scan_mantissa :: "nat \<Rightarrow> char \<Rightarrow> rat \<Rightarrow> string \<Rightarrow> (rat \<times> string) option" where
  "scan_mantissa base mark expbase s =
     (let (ds, r) = take_digits base s;
          (fs, r1) = (case r of [] \<Rightarrow> ([], r) | c # t \<Rightarrow> if c = CHR ''.'' then take_digits base t else ([], r))
      in if ds = [] \<and> fs = [] then None
         else
           (let (e, r2) = scan_exponent mark r1
            in Some (digits_value base (ds @ fs) / of_nat base ^ length fs * power_to expbase e, r2)))"

definition begins_with :: "string \<Rightarrow> string \<Rightarrow> bool" where
  "begins_with word s \<longleftrightarrow> map ToLower (take (length word) s) = word"

definition scan_lf :: "string \<Rightarrow> (double \<times> string) option" where
  "scan_lf str =
     (let (neg, s) = scan_sign (dropWhile isspace str);
          signed = (\<lambda>q. to_double (if neg then - q else q));
          hex = (if begins_with ''0x'' s then scan_mantissa 16 (CHR ''p'') 2 (drop 2 s) else None)
      in if begins_with ''infinity'' s then Some (Infinite neg, drop 8 s)
         else if begins_with ''inf'' s then Some (Infinite neg, drop 3 s)
         else if begins_with ''nan'' s then Some (NaN, drop 3 s)
         else case hex of
             Some (q, r) \<Rightarrow> Some (signed q, r)
           | None \<Rightarrow> map_option (\<lambda>(q, r). (signed q, r)) (scan_mantissa 10 (CHR ''e'') 10 s))"

text \<open>\<open>Some None\<close> is the result \<open>false\<close>; \<open>None\<close> a word that does not fit its buffer.\<close>

definition DoubleFromString :: "string option \<Rightarrow> double option option" where
  "DoubleFromString str =
     (case str of
        None \<Rightarrow> Some None
      | Some s \<Rightarrow>
          (let (a, c, remainder) =
             (case scan_lf s of
                None \<Rightarrow> (Finite (- 12345 / 100), CHR ''X'', [])
              | Some (a, []) \<Rightarrow> (a, CHR ''X'', [])
              | Some (a, c # t) \<Rightarrow> (a, c, takeWhile (\<lambda>c. \<not> isspace c) (dropWhile isspace t)))
           in if length remainder \<ge> CF_BUFSIZE then None
              else if a = Finite (- 12345 / 100) \<or> \<not> IsSpace remainder then Some None
              else if c = CHR ''k'' then Some (Some (double_times 1000 a))
              else if c = CHR ''K'' then Some (Some (double_times 1024 a))
              else if c = CHR ''m'' then Some (Some (double_times (1000 * 1000) a))
              else if c = CHR ''M'' then Some (Some (double_times (1024 * 1024) a))
              else if c = CHR ''g'' then Some (Some (double_times (1000 * 1000 * 1000) a))
              else if c = CHR ''G'' then Some (Some (double_times (1024 * 1024 * 1024) a))
              else if c = CHR ''%'' then
                (if double_less a (Finite 0) \<or> double_less (Finite 100) a then Some None else Some (Some (double_neg a)))
              else Some (Some a)))"

section \<open>Checks of scalars\<close>

text \<open>A text that is \<open>NULL\<close> is \<open>None\<close> as an argument.\<close>

definition CheckParseString :: "(string \<Rightarrow> string \<Rightarrow> bool) \<Rightarrow> string \<Rightarrow> string option \<Rightarrow> string \<Rightarrow> SyntaxTypeMatch" where
  "CheckParseString matches lval str rng =
     (case str of
        None \<Rightarrow> SYNTAX_TYPE_MATCH_OK
      | Some s \<Rightarrow>
          (if length rng = 0 then SYNTAX_TYPE_MATCH_OK
           else if IsNakedVar str (CHR ''@'') \<or> IsNakedVar str (CHR ''$'') then SYNTAX_TYPE_MATCH_ERROR_UNEXPANDED
           else if (strcmp lval ''mode'' = 0 \<or> strcmp lval ''search_mode'' = 0) \<and> \<not> fst (ParseModeString str)
           then SYNTAX_TYPE_MATCH_ERROR_STRING_UNIX_PERMISSION
           else if matches rng s then SYNTAX_TYPE_MATCH_OK
           else if IsCf3VarString str then SYNTAX_TYPE_MATCH_ERROR_UNEXPANDED
           else SYNTAX_TYPE_MATCH_ERROR_SCALAR_OUT_OF_RANGE))"

definition CheckParseContext :: "(string \<Rightarrow> string \<Rightarrow> bool) \<Rightarrow> string option \<Rightarrow> string \<Rightarrow> SyntaxTypeMatch option" where
  "CheckParseContext matches cls rng =
     (if length rng = 0 then Some SYNTAX_TYPE_MATCH_OK
      else do {
        s \<leftarrow> cls;
        Some (if matches rng s then SYNTAX_TYPE_MATCH_OK else SYNTAX_TYPE_MATCH_ERROR_CONTEXT_OUT_OF_RANGE)
      })"

text \<open>\<open>min,max\<close> of a range, the second of which may be \<open>inf\<close>.\<close>

definition int_bounds :: "string \<Rightarrow> (int \<times> int) option" where
  "int_bounds rng =
     do {
       split \<leftarrow> split_string rng;
       (case split of
          [a, b] \<Rightarrow>
            (let lo = (case scan_ld a of None \<Rightarrow> CF_HIGHINIT | Some (i, _) \<Rightarrow> i);
                 hi = (if strcmp b ''inf'' = 0 then CF_INFINITY else case scan_ld b of None \<Rightarrow> CF_LOWINIT | Some (i, _) \<Rightarrow> i)
             in if lo = CF_HIGHINIT \<or> hi = CF_LOWINIT then None else Some (lo, hi))
        | _ \<Rightarrow> None)
     }"

definition CheckParseInt :: "int \<Rightarrow> string option \<Rightarrow> string \<Rightarrow> SyntaxTypeMatch option" where
  "CheckParseInt now s rng =
     do {
       (lo, hi) \<leftarrow> int_bounds rng;
       (if IsCf3VarString s then Some SYNTAX_TYPE_MATCH_ERROR_UNEXPANDED
        else do {
          v \<leftarrow> IntFromString now s;
          Some (if v = CF_NOINT then SYNTAX_TYPE_MATCH_ERROR_INT_PARSE
                else if v > hi \<or> v < lo then SYNTAX_TYPE_MATCH_ERROR_INT_OUT_OF_RANGE
                else SYNTAX_TYPE_MATCH_OK)
        })
     }"

fun int_items_check :: "int \<Rightarrow> int \<Rightarrow> int \<Rightarrow> string list \<Rightarrow> SyntaxTypeMatch option" where
  "int_items_check now lo hi [] = Some SYNTAX_TYPE_MATCH_OK"
| "int_items_check now lo hi (nm # ip) =
     do {
       v \<leftarrow> IntFromString now (Some nm);
       (if v > hi \<or> v < lo then Some SYNTAX_TYPE_MATCH_ERROR_INT_OUT_OF_RANGE else int_items_check now lo hi ip)
     }"

definition bracketed :: "string \<Rightarrow> bool" where
  "bracketed s \<longleftrightarrow> s \<noteq> [] \<and> (hd s = CHR ''['' \<or> hd s = CHR ''('')"

definition CheckParseIntRange :: "int \<Rightarrow> string option \<Rightarrow> string \<Rightarrow> SyntaxTypeMatch option" where
  "CheckParseIntRange now str rng =
     do {
       s \<leftarrow> str;
       (if bracketed s then Some SYNTAX_TYPE_MATCH_ERROR_RANGE_BRACKETED
        else do {
          (lo, hi) \<leftarrow> int_bounds rng;
          (if IsCf3VarString str then Some SYNTAX_TYPE_MATCH_ERROR_UNEXPANDED
           else do {
             rangep \<leftarrow> split_string s;
             (if length rangep \<noteq> 2 then Some SYNTAX_TYPE_MATCH_ERROR_RANGE_MULTIPLE_ITEMS
              else int_items_check now lo hi rangep)
           })
        })
     }"

definition real_bounds :: "string \<Rightarrow> (double \<times> double) option" where
  "real_bounds rng =
     do {
       split \<leftarrow> split_string rng;
       (case split of
          [a, b] \<Rightarrow>
            (let lo = (case scan_lf a of None \<Rightarrow> Finite (of_int CF_HIGHINIT) | Some (i, _) \<Rightarrow> i);
                 hi = (case scan_lf b of None \<Rightarrow> Finite (of_int CF_LOWINIT) | Some (i, _) \<Rightarrow> i)
             in if lo = Finite (of_int CF_HIGHINIT) \<or> hi = Finite (of_int CF_LOWINIT) then None else Some (lo, hi))
        | _ \<Rightarrow> None)
     }"

definition real_check :: "double \<Rightarrow> double \<Rightarrow> string \<Rightarrow> SyntaxTypeMatch option" where
  "real_check lo hi s =
     do {
       r \<leftarrow> DoubleFromString (Some s);
       Some (case r of
          None \<Rightarrow> SYNTAX_TYPE_MATCH_ERROR_REAL_OUT_OF_RANGE
        | Some v \<Rightarrow>
            if double_less hi v \<or> double_less v lo then SYNTAX_TYPE_MATCH_ERROR_REAL_OUT_OF_RANGE else SYNTAX_TYPE_MATCH_OK)
     }"

definition CheckParseReal :: "string option \<Rightarrow> string \<Rightarrow> SyntaxTypeMatch option" where
  "CheckParseReal str rng =
     do {
       s \<leftarrow> str;
       (if strcmp s ''inf'' = 0 then Some SYNTAX_TYPE_MATCH_ERROR_REAL_INF
        else if IsCf3VarString str then Some SYNTAX_TYPE_MATCH_ERROR_UNEXPANDED
        else do { (lo, hi) \<leftarrow> real_bounds rng; real_check lo hi s })
     }"

fun real_items_check :: "double \<Rightarrow> double \<Rightarrow> string list \<Rightarrow> SyntaxTypeMatch option" where
  "real_items_check lo hi [] = Some SYNTAX_TYPE_MATCH_OK"
| "real_items_check lo hi (nm # ip) =
     do {
       r \<leftarrow> real_check lo hi nm;
       (if r \<noteq> SYNTAX_TYPE_MATCH_OK then Some r else real_items_check lo hi ip)
     }"

definition CheckParseRealRange :: "string option \<Rightarrow> string \<Rightarrow> SyntaxTypeMatch option" where
  "CheckParseRealRange str rng =
     do {
       s \<leftarrow> str;
       (if bracketed s then Some SYNTAX_TYPE_MATCH_ERROR_RANGE_BRACKETED
        else if strcmp s ''inf'' = 0 then Some SYNTAX_TYPE_MATCH_ERROR_REAL_INF
        else if IsCf3VarString str then Some SYNTAX_TYPE_MATCH_ERROR_UNEXPANDED
        else do {
          (lo, hi) \<leftarrow> real_bounds rng;
          rangep \<leftarrow> split_string s;
          (if length rangep \<noteq> 2 then Some SYNTAX_TYPE_MATCH_ERROR_RANGE_MULTIPLE_ITEMS
           else real_items_check lo hi rangep)
        })
     }"

text \<open>\<open>IsItemIn\<close> answers true for the empty text.\<close>

definition CheckParseOpts :: "string \<Rightarrow> string \<Rightarrow> SyntaxTypeMatch option" where
  "CheckParseOpts s rng =
     (if IsNakedVar (Some s) (CHR ''@'') \<or> IsNakedVar (Some s) (CHR ''$'') then Some SYNTAX_TYPE_MATCH_ERROR_UNEXPANDED
      else do {
        split \<leftarrow> split_string rng;
        Some (if s = [] \<or> s \<in> set split then SYNTAX_TYPE_MATCH_OK else SYNTAX_TYPE_MATCH_ERROR_OPTS_OUT_OF_RANGE)
      })"

definition IsDataType :: "string \<Rightarrow> bool" where
  "IsDataType s \<longleftrightarrow> strcmp s ''string'' = 0 \<or> strcmp s ''slist'' = 0 \<or> strcmp s ''int'' = 0 \<or> strcmp s ''ilist'' = 0 \<or>
     strcmp s ''real'' = 0 \<or> strcmp s ''rlist'' = 0"

section \<open>Calls\<close>

text \<open>The names of the functions, their types, and whether the number of their arguments varies.\<close>

definition CF_FNCALL_TYPES :: "(string \<times> DataType \<times> bool) list" where
  "CF_FNCALL_TYPES =
     [(''accessedbefore'', DATA_TYPE_CONTEXT, False), (''accumulated'', DATA_TYPE_INT, False), (''ago'', DATA_TYPE_INT, False),
      (''and'', DATA_TYPE_STRING, True), (''canonify'', DATA_TYPE_STRING, False), (''concat'', DATA_TYPE_STRING, True),
      (''changedbefore'', DATA_TYPE_CONTEXT, False), (''classify'', DATA_TYPE_CONTEXT, False),
      (''classmatch'', DATA_TYPE_CONTEXT, False), (''classesmatching'', DATA_TYPE_STRING_LIST, False),
      (''countclassesmatching'', DATA_TYPE_INT, False), (''countlinesmatching'', DATA_TYPE_INT, False),
      (''difference'', DATA_TYPE_STRING_LIST, False), (''dirname'', DATA_TYPE_STRING, False),
      (''diskfree'', DATA_TYPE_INT, False), (''escape'', DATA_TYPE_STRING, False), (''every'', DATA_TYPE_CONTEXT, False),
      (''execresult'', DATA_TYPE_STRING, False), (''fileexists'', DATA_TYPE_CONTEXT, False),
      (''filesexist'', DATA_TYPE_CONTEXT, False), (''filesize'', DATA_TYPE_INT, False),
      (''filestat'', DATA_TYPE_STRING, False), (''filter'', DATA_TYPE_STRING_LIST, False),
      (''format'', DATA_TYPE_STRING, True), (''getenv'', DATA_TYPE_STRING, False), (''getfields'', DATA_TYPE_INT, False),
      (''getgid'', DATA_TYPE_INT, False), (''getindices'', DATA_TYPE_STRING_LIST, False), (''getuid'', DATA_TYPE_INT, False),
      (''getusers'', DATA_TYPE_STRING_LIST, False), (''getvalues'', DATA_TYPE_STRING_LIST, False),
      (''grep'', DATA_TYPE_STRING_LIST, False), (''groupexists'', DATA_TYPE_CONTEXT, False),
      (''hash'', DATA_TYPE_STRING, False), (''hashmatch'', DATA_TYPE_CONTEXT, False), (''host2ip'', DATA_TYPE_STRING, False),
      (''ip2host'', DATA_TYPE_STRING, False), (''hostinnetgroup'', DATA_TYPE_CONTEXT, False),
      (''hostrange'', DATA_TYPE_CONTEXT, False), (''hostsseen'', DATA_TYPE_STRING_LIST, False),
      (''hostswithclass'', DATA_TYPE_STRING_LIST, False), (''hubknowledge'', DATA_TYPE_STRING, False),
      (''ifelse'', DATA_TYPE_STRING, True), (''intersection'', DATA_TYPE_STRING_LIST, False),
      (''iprange'', DATA_TYPE_CONTEXT, False), (''irange'', DATA_TYPE_INT_RANGE, False), (''isdir'', DATA_TYPE_CONTEXT, False),
      (''isexecutable'', DATA_TYPE_CONTEXT, False), (''isgreaterthan'', DATA_TYPE_CONTEXT, False),
      (''islessthan'', DATA_TYPE_CONTEXT, False), (''islink'', DATA_TYPE_CONTEXT, False),
      (''isnewerthan'', DATA_TYPE_CONTEXT, False), (''isplain'', DATA_TYPE_CONTEXT, False),
      (''isvariable'', DATA_TYPE_CONTEXT, False), (''join'', DATA_TYPE_STRING, False), (''lastnode'', DATA_TYPE_STRING, False),
      (''laterthan'', DATA_TYPE_CONTEXT, False), (''ldaparray'', DATA_TYPE_CONTEXT, False),
      (''ldaplist'', DATA_TYPE_STRING_LIST, False), (''ldapvalue'', DATA_TYPE_STRING, False),
      (''length'', DATA_TYPE_INT, False), (''lsdir'', DATA_TYPE_STRING_LIST, False),
      (''maparray'', DATA_TYPE_STRING_LIST, False), (''maplist'', DATA_TYPE_STRING_LIST, False),
      (''none'', DATA_TYPE_CONTEXT, False), (''not'', DATA_TYPE_STRING, False), (''now'', DATA_TYPE_INT, False),
      (''nth'', DATA_TYPE_STRING, False), (''on'', DATA_TYPE_INT, False), (''or'', DATA_TYPE_STRING, True),
      (''parseintarray'', DATA_TYPE_INT, False), (''parserealarray'', DATA_TYPE_INT, False),
      (''parsestringarray'', DATA_TYPE_INT, False), (''parsestringarrayidx'', DATA_TYPE_INT, False),
      (''peers'', DATA_TYPE_STRING_LIST, False), (''peerleader'', DATA_TYPE_STRING, False),
      (''peerleaders'', DATA_TYPE_STRING_LIST, False), (''product'', DATA_TYPE_REAL, False),
      (''randomint'', DATA_TYPE_INT, False), (''readfile'', DATA_TYPE_STRING, False), (''readintarray'', DATA_TYPE_INT, False),
      (''readintlist'', DATA_TYPE_INT_LIST, False), (''readrealarray'', DATA_TYPE_INT, False),
      (''readreallist'', DATA_TYPE_REAL_LIST, False), (''readstringarray'', DATA_TYPE_INT, False),
      (''readstringarrayidx'', DATA_TYPE_INT, False), (''readstringlist'', DATA_TYPE_STRING_LIST, False),
      (''readtcp'', DATA_TYPE_STRING, False), (''regarray'', DATA_TYPE_CONTEXT, False), (''regcmp'', DATA_TYPE_CONTEXT, False),
      (''regextract'', DATA_TYPE_CONTEXT, False), (''registryvalue'', DATA_TYPE_STRING, False),
      (''regline'', DATA_TYPE_CONTEXT, False), (''reglist'', DATA_TYPE_CONTEXT, False),
      (''regldap'', DATA_TYPE_CONTEXT, False), (''remotescalar'', DATA_TYPE_STRING, False),
      (''remoteclassesmatching'', DATA_TYPE_CONTEXT, False), (''returnszero'', DATA_TYPE_CONTEXT, False),
      (''rrange'', DATA_TYPE_REAL_RANGE, False), (''reverse'', DATA_TYPE_STRING_LIST, False),
      (''selectservers'', DATA_TYPE_INT, False), (''shuffle'', DATA_TYPE_STRING_LIST, False),
      (''some'', DATA_TYPE_CONTEXT, False), (''sort'', DATA_TYPE_STRING_LIST, False),
      (''splayclass'', DATA_TYPE_CONTEXT, False), (''splitstring'', DATA_TYPE_STRING_LIST, False),
      (''strcmp'', DATA_TYPE_CONTEXT, False), (''strftime'', DATA_TYPE_STRING, False),
      (''sublist'', DATA_TYPE_STRING_LIST, False), (''sum'', DATA_TYPE_REAL, False),
      (''translatepath'', DATA_TYPE_STRING, False), (''unique'', DATA_TYPE_STRING_LIST, False),
      (''usemodule'', DATA_TYPE_CONTEXT, False), (''userexists'', DATA_TYPE_CONTEXT, False)]"

definition FnCallTypeGet :: "string \<Rightarrow> (string \<times> DataType \<times> bool) option" where
  "FnCallTypeGet nm = List.find (\<lambda>(n, _). strcmp n nm = 0) CF_FNCALL_TYPES"

definition CheckFnCallType :: "string \<Rightarrow> DataType \<Rightarrow> SyntaxTypeMatch" where
  "CheckFnCallType s dtype =
     (case FnCallTypeGet s of
        None \<Rightarrow> SYNTAX_TYPE_MATCH_ERROR_FNCALL_UNKNOWN
      | Some (_, dt, _) \<Rightarrow>
          (if dtype = dt then SYNTAX_TYPE_MATCH_OK
           else if dt = DATA_TYPE_STRING \<and> dtype = DATA_TYPE_STRING_LIST then SYNTAX_TYPE_MATCH_OK
           else if dt = DATA_TYPE_INT \<and> dtype = DATA_TYPE_INT_LIST then SYNTAX_TYPE_MATCH_OK
           else if dt = DATA_TYPE_REAL \<and> dtype = DATA_TYPE_REAL_LIST then SYNTAX_TYPE_MATCH_OK
           else if dt = DATA_TYPE_OPTION \<and> dtype = DATA_TYPE_OPTION_LIST then SYNTAX_TYPE_MATCH_OK
           else if dt = DATA_TYPE_CONTEXT \<and> dtype = DATA_TYPE_CONTEXT_LIST then SYNTAX_TYPE_MATCH_OK
           else SYNTAX_TYPE_MATCH_ERROR_FNCALL_RETURN_TYPE))"

section \<open>Values\<close>

definition is_list_type :: "DataType \<Rightarrow> bool" where
  "is_list_type dt \<longleftrightarrow> dt \<in> {DATA_TYPE_STRING_LIST, DATA_TYPE_INT_LIST, DATA_TYPE_REAL_LIST, DATA_TYPE_CONTEXT_LIST, DATA_TYPE_OPTION_LIST}"

text \<open>The check of a scalar or of no value at all.\<close>

definition check_literal ::
  "(string \<Rightarrow> string \<Rightarrow> bool) \<Rightarrow> int \<Rightarrow> string \<Rightarrow> string option \<Rightarrow> DataType \<Rightarrow> string \<Rightarrow> SyntaxTypeMatch option"
where
  "check_literal matches now lval s dt rng =
     (case dt of
        DATA_TYPE_STRING \<Rightarrow> Some (CheckParseString matches lval s rng)
      | DATA_TYPE_STRING_LIST \<Rightarrow> Some (CheckParseString matches lval s rng)
      | DATA_TYPE_INT \<Rightarrow> CheckParseInt now s rng
      | DATA_TYPE_INT_LIST \<Rightarrow> CheckParseInt now s rng
      | DATA_TYPE_REAL \<Rightarrow> CheckParseReal s rng
      | DATA_TYPE_REAL_LIST \<Rightarrow> CheckParseReal s rng
      | DATA_TYPE_BODY \<Rightarrow> Some SYNTAX_TYPE_MATCH_OK
      | DATA_TYPE_BUNDLE \<Rightarrow> Some SYNTAX_TYPE_MATCH_OK
      | DATA_TYPE_OPTION \<Rightarrow> do { t \<leftarrow> s; CheckParseOpts t rng }
      | DATA_TYPE_OPTION_LIST \<Rightarrow> do { t \<leftarrow> s; CheckParseOpts t rng }
      | DATA_TYPE_CONTEXT \<Rightarrow> CheckParseContext matches s rng
      | DATA_TYPE_CONTEXT_LIST \<Rightarrow> CheckParseContext matches s rng
      | DATA_TYPE_INT_RANGE \<Rightarrow> CheckParseIntRange now s rng
      | DATA_TYPE_REAL_RANGE \<Rightarrow> CheckParseRealRange s rng
      | _ \<Rightarrow> None)"

text \<open>The attributes for which a call is a bundle with arguments.\<close>

definition bundle_attributes :: "string list" where
  "bundle_attributes = [''bundlesequence'', ''edit_line'', ''edit_xml'', ''usebundle'', ''service_bundle'']"

fun CheckConstraintTypeMatch ::
    "(string \<Rightarrow> string \<Rightarrow> bool) \<Rightarrow> int \<Rightarrow> string \<Rightarrow> Rval \<Rightarrow> DataType \<Rightarrow> string \<Rightarrow> nat \<Rightarrow> SyntaxTypeMatch option"
  and check_elements ::
    "(string \<Rightarrow> string \<Rightarrow> bool) \<Rightarrow> int \<Rightarrow> string \<Rightarrow> Rval list \<Rightarrow> DataType \<Rightarrow> string \<Rightarrow> SyntaxTypeMatch option"
where
  "CheckConstraintTypeMatch matches now lval (Scalar s) dt rng level =
     (if is_list_type dt \<and> level = 0 then Some SYNTAX_TYPE_MATCH_ERROR_GOT_SCALAR
      else check_literal matches now lval (Some s) dt rng)"
| "CheckConstraintTypeMatch matches now lval (ListVal rp) dt rng level =
     (if \<not> is_list_type dt then Some SYNTAX_TYPE_MATCH_ERROR_GOT_LIST else check_elements matches now lval rp dt rng)"
| "CheckConstraintTypeMatch matches now lval (FnCall nm args) dt rng level =
     (if lval \<noteq> [] \<and> lval \<notin> set bundle_attributes then Some (CheckFnCallType nm dt) else Some SYNTAX_TYPE_MATCH_OK)"
| "CheckConstraintTypeMatch matches now lval NoPromisee dt rng level = check_literal matches now lval None dt rng"
| "check_elements matches now lval [] dt rng = Some SYNTAX_TYPE_MATCH_OK"
| "check_elements matches now lval (r # rp) dt rng =
     do {
       err \<leftarrow> CheckConstraintTypeMatch matches now lval r dt rng 1;
       (if err = SYNTAX_TYPE_MATCH_OK \<or> err = SYNTAX_TYPE_MATCH_ERROR_UNEXPANDED then check_elements matches now lval rp dt rng
        else Some err)
     }"

section \<open>The tables of the syntax\<close>

text \<open>
  What the modules declare: attributes with their types and ranges, bodies, and types of promises. The tables themselves
  (\<open>CF_ALL_PROMISE_TYPES\<close> with a list for every module, and those that are common to all types) are arguments.
\<close>

datatype ConstraintSyntax = ConstraintSyntax (cs_lval: string) (cs_dtype: DataType) (cs_range: SyntaxRange)
  and SyntaxRange = ValidationString string | BodyTypeSyntax (body_type: string) (body_constraints: "ConstraintSyntax list")

record PromiseTypeSyntax =
  bundle_type :: string
  promise_type :: string
  pts_constraints :: "ConstraintSyntax list"

definition PromiseTypeSyntaxGetStrict :: "PromiseTypeSyntax list list \<Rightarrow> string \<Rightarrow> string \<Rightarrow> PromiseTypeSyntax option" where
  "PromiseTypeSyntaxGetStrict modules bundle promise =
     List.find (\<lambda>pts. strcmp bundle (bundle_type pts) = 0 \<and> strcmp promise (promise_type pts) = 0) (concat modules)"

definition PromiseTypeSyntaxGet :: "PromiseTypeSyntax list list \<Rightarrow> string \<Rightarrow> string \<Rightarrow> PromiseTypeSyntax option" where
  "PromiseTypeSyntaxGet modules bundle promise =
     (case PromiseTypeSyntaxGetStrict modules bundle promise of
        Some pts \<Rightarrow> Some pts
      | None \<Rightarrow> PromiseTypeSyntaxGetStrict modules ''*'' promise)"

definition BodySyntaxGetConstraintSyntax :: "ConstraintSyntax list \<Rightarrow> string \<Rightarrow> ConstraintSyntax option" where
  "BodySyntaxGetConstraintSyntax body_syntax lval = List.find (\<lambda>cs. strcmp (cs_lval cs) lval = 0) body_syntax"

definition GetCommonConstraint :: "PromiseTypeSyntax list \<Rightarrow> string \<Rightarrow> ConstraintSyntax option" where
  "GetCommonConstraint common lval = List.find (\<lambda>cs. strcmp (cs_lval cs) lval = 0) (concat (map pts_constraints common))"

definition PromiseTypeSyntaxGetConstraintSyntax ::
  "ConstraintSyntax list \<Rightarrow> ConstraintSyntax list \<Rightarrow> PromiseTypeSyntax list \<Rightarrow> PromiseTypeSyntax \<Rightarrow> string \<Rightarrow> ConstraintSyntax option"
where
  "PromiseTypeSyntaxGetConstraintSyntax editbodies xmlbodies common pts lval =
     (case BodySyntaxGetConstraintSyntax (pts_constraints pts) lval of
        Some cs \<Rightarrow> Some cs
      | None \<Rightarrow>
          (case (if strcmp ''edit_line'' (bundle_type pts) = 0 then BodySyntaxGetConstraintSyntax editbodies lval
                 else if strcmp ''edit_xml'' (bundle_type pts) = 0 then BodySyntaxGetConstraintSyntax xmlbodies lval
                 else None) of
             Some cs \<Rightarrow> Some cs
           | None \<Rightarrow> GetCommonConstraint common lval))"

text \<open>The syntax of a body is that of an attribute that takes it, or a control body.\<close>

definition BodySyntaxGet ::
  "PromiseTypeSyntax list list \<Rightarrow> (string \<times> ConstraintSyntax list) list \<Rightarrow> string \<Rightarrow> (string \<times> ConstraintSyntax list) option"
where
  "BodySyntaxGet modules control body =
     (case List.find (\<lambda>cs. cs_dtype cs = DATA_TYPE_BODY \<and> strcmp body (cs_lval cs) = 0)
         (concat (map pts_constraints (concat modules))) of
        Some (ConstraintSyntax _ _ (BodyTypeSyntax t cs)) \<Rightarrow> Some (t, cs)
      | Some _ \<Rightarrow> None
      | None \<Rightarrow> List.find (\<lambda>(t, _). strcmp body t = 0) control)"

text \<open>The attributes of the bodies are searched after those of the type of promise.\<close>

definition body_dtype :: "string \<Rightarrow> ConstraintSyntax \<Rightarrow> DataType option" where
  "body_dtype lvalname cs =
     (case cs of
        ConstraintSyntax _ DATA_TYPE_BODY (BodyTypeSyntax _ bs2) \<Rightarrow>
          map_option cs_dtype (List.find (\<lambda>b. strcmp lvalname (cs_lval b) = 0) (takeWhile (\<lambda>b. cs_dtype b \<noteq> DATA_TYPE_NONE) bs2))
      | _ \<Rightarrow> None)"

fun first_some :: "('a \<Rightarrow> 'b option) \<Rightarrow> 'a list \<Rightarrow> 'b option" where
  "first_some f [] = None"
| "first_some f (x # xs) = (case f x of Some y \<Rightarrow> Some y | None \<Rightarrow> first_some f xs)"

definition ExpectedDataType :: "PromiseTypeSyntax list list \<Rightarrow> string \<Rightarrow> DataType" where
  "ExpectedDataType modules lvalname =
     (case first_some (\<lambda>pts.
         case BodySyntaxGetConstraintSyntax (pts_constraints pts) lvalname of
           Some cs \<Rightarrow> Some (cs_dtype cs)
         | None \<Rightarrow> first_some (body_dtype lvalname) (pts_constraints pts)) (concat modules) of
        Some dt \<Rightarrow> dt
      | None \<Rightarrow> DATA_TYPE_NONE)"

section \<open>Names of variables\<close>

text \<open>
  The loop counts points and brackets: \<open>None\<close> when the name is refused, else the number of points. A name with one point has a
  scope and a name, neither of them longer than its buffer; without a name behind the point the buffer is not written.
\<close>

fun name_loop :: "string \<Rightarrow> int \<Rightarrow> int \<Rightarrow> int option" where
  "name_loop [] points level = Some points"
| "name_loop (c # cs) points level =
     (let points1 = (if c = CHR ''.'' then points + 1 else points);
          level1 = (if c = CHR ''['' then level + 1 else if c = CHR '']'' then level - 1 else level)
      in if c = CHR ''.'' \<and> points1 > 1 \<and> level \<noteq> 1 then None
         else if level1 > 1 then None
         else name_loop cs points1 level1)"

definition CheckParseVariableName :: "string \<Rightarrow> bool option" where
  "CheckParseVariableName nm =
     (if IsStrIn nm [''promiser'', ''handle'', ''promise_filename'', ''promise_linenumber'', ''this''] then Some False
      else if CHR ''.'' \<notin> set nm then Some True
      else case name_loop nm 0 0 of
          None \<Rightarrow> Some False
        | Some points \<Rightarrow>
            (if points \<noteq> 1 then Some True
             else
               (let scopeid = takeWhile (\<lambda>c. c \<noteq> CHR ''.'') nm;
                    vlval = takeWhile (\<lambda>c. \<not> isspace c) (dropWhile isspace (drop (length scopeid + 1) nm))
                in if scopeid = [] then Some False
                   else if length scopeid \<ge> CF_MAXVARSIZE \<or> length vlval \<ge> CF_MAXVARSIZE \<or> vlval = [] then None
                   else Some True)))"


section \<open>Splitting\<close>

definition plain :: "string \<Rightarrow> bool" where
  "plain s \<longleftrightarrow> CHR 0x5C \<notin> set s \<and> CHR '','' \<notin> set s \<and> length s < CF_BUFSIZE"

lemma split_names_item:
  assumes "CHR 0x5C \<notin> set s" "CHR '','' \<notin> set s" "length before + length s < CF_BUFSIZE" "prev \<noteq> Some (CHR 0x5C)"
  shows "split_names (CHR '','') (s @ CHR '','' # t) prev before = map_option ((#) (before @ s)) (split_names (CHR '','') t (Some (CHR '','')) [])"
    and "split_names (CHR '','') s prev before = Some [before @ s]"
  using assms by (induction s arbitrary: prev before) auto

fun joined :: "string list \<Rightarrow> string" where
  "joined [] = []"
| "joined [s] = s"
| "joined (s # t # ts) = s @ CHR '','' # joined (t # ts)"

lemma split_joined: "items \<noteq> [] \<Longrightarrow> list_all plain items \<Longrightarrow> prev \<noteq> Some (CHR 0x5C) \<Longrightarrow>
    split_names (CHR '','') (joined items) prev [] = Some items"
  by (induction items arbitrary: prev rule: joined.induct) (auto simp: plain_def split_names_item)

lemma split_string_joined: "items \<noteq> [] \<Longrightarrow> list_all plain items \<Longrightarrow> split_string (joined items) = Some items"
  by (simp add: split_string_def split_joined)

lemma length_show_nat: "n < 10 ^ k \<Longrightarrow> 0 < k \<Longrightarrow> length (show_nat n) \<le> k"
proof (induction n arbitrary: k rule: show_nat.induct)
  case (1 n)
  show ?case
  proof (cases "n < 10")
    case True
    with 1(3) show ?thesis by (simp add: show_nat.simps [of n])
  next
    case False
    then have "k \<noteq> 1" using 1(2) by auto
    then have k: "1 < k" using 1(3) by simp
    then have "n div 10 < 10 ^ (k - 1)" using 1(2) by (cases k) (auto simp: less_mult_imp_div_less)
    with 1(1) [OF False, of "k - 1"] k False show ?thesis by (simp add: show_nat.simps [of n])
  qed
qed

lemma plain_show_int:
  assumes "LONG_MIN \<le> i" "i \<le> LONG_MAX"
  shows "plain (show_int i)"
proof -
  have "nat \<bar>i\<bar> < 10 ^ 19" using assms by (simp add: LONG_MIN_def LONG_MAX_def)
  then have "length (show_nat (nat \<bar>i\<bar>)) \<le> 19" by (rule length_show_nat) simp
  moreover have "CHR 0x5C \<notin> set (show_nat n)" "CHR '','' \<notin> set (show_nat n)" for n
    using show_nat_digits [of "CHR 0x5C" n] show_nat_digits [of "CHR '',''" n] by (auto simp: isdigit_def)
  ultimately show ?thesis
    by (auto simp: plain_def show_int_def CF_BUFSIZE_def split: if_splits)
qed

lemma number_bounds:
  assumes "LONG_MIN \<le> lo" "lo \<le> LONG_MAX" "LONG_MIN \<le> hi" "hi \<le> LONG_MAX" "lo \<noteq> CF_HIGHINIT" "hi \<noteq> CF_LOWINIT"
  shows "int_bounds (show_int lo @ CHR '','' # show_int hi) = Some (lo, hi)"
    and "int_bounds (show_int lo @ '',inf'') = Some (lo, CF_INFINITY)"
proof -
  have inf: "show_int hi \<noteq> ''inf''" using show_int_no_word [of "CHR ''i''" hi "[]"] by (simp add: isdigit_def)
  have "split_string (joined [show_int lo, show_int hi]) = Some [show_int lo, show_int hi]"
    using assms(1-4) by (intro split_string_joined) (simp_all add: plain_show_int)
  moreover have "split_string (joined [show_int lo, ''inf'']) = Some [show_int lo, ''inf'']"
    using assms(1,2) by (intro split_string_joined) (simp_all add: plain_show_int, simp add: plain_def CF_BUFSIZE_def)
  moreover have "scan_ld (show_int lo) = Some (lo, [])" "scan_ld (show_int hi) = Some (hi, [])"
    using scan_ld_show_int [where i = lo and rest = "[]"] scan_ld_show_int [where i = hi and rest = "[]"] assms(1-4) by simp_all
  ultimately show "int_bounds (show_int lo @ CHR '','' # show_int hi) = Some (lo, hi)"
    and "int_bounds (show_int lo @ '',inf'') = Some (lo, CF_INFINITY)"
    using assms(5,6) inf by (simp_all add: int_bounds_def CF_INFINITY_def CF_LOWINIT_def)
qed

section \<open>Types\<close>

text \<open>What the syntax says about the values of an attribute: the type, and the text for the range.\<close>

datatype domain = Str string | Int_in int "int option" | Real_in string double double | One_of "string list" | Cls string
  | Ints_in int "int option"

fun type_of :: "domain \<Rightarrow> bool \<Rightarrow> DataType" where
  "type_of (Str r) aslist = (if aslist then DATA_TYPE_STRING_LIST else DATA_TYPE_STRING)"
| "type_of (Int_in lo hi) aslist = (if aslist then DATA_TYPE_INT_LIST else DATA_TYPE_INT)"
| "type_of (Real_in r lo hi) aslist = (if aslist then DATA_TYPE_REAL_LIST else DATA_TYPE_REAL)"
| "type_of (One_of os) aslist = (if aslist then DATA_TYPE_OPTION_LIST else DATA_TYPE_OPTION)"
| "type_of (Cls r) aslist = (if aslist then DATA_TYPE_CONTEXT_LIST else DATA_TYPE_CONTEXT)"
| "type_of (Ints_in lo hi) aslist = DATA_TYPE_INT_RANGE"

fun range_text :: "domain \<Rightarrow> string" where
  "range_text (Str r) = r"
| "range_text (Int_in lo hi) = show_int lo @ CHR '','' # (case hi of None \<Rightarrow> ''inf'' | Some h \<Rightarrow> show_int h)"
| "range_text (Real_in r lo hi) = r"
| "range_text (One_of os) = joined os"
| "range_text (Cls r) = r"
| "range_text (Ints_in lo hi) = show_int lo @ CHR '','' # (case hi of None \<Rightarrow> ''inf'' | Some h \<Rightarrow> show_int h)"

definition bounds_ok :: "int \<Rightarrow> int option \<Rightarrow> bool" where
  "bounds_ok lo hi \<longleftrightarrow> LONG_MIN \<le> lo \<and> lo \<le> LONG_MAX \<and> lo \<noteq> CF_HIGHINIT \<and>
     (case hi of None \<Rightarrow> True | Some h \<Rightarrow> LONG_MIN \<le> h \<and> h \<le> LONG_MAX \<and> h \<noteq> CF_LOWINIT)"

fun domain_ok :: "domain \<Rightarrow> bool" where
  "domain_ok (Int_in lo hi) = bounds_ok lo hi"
| "domain_ok (Ints_in lo hi) = bounds_ok lo hi"
| "domain_ok (Real_in r lo hi) \<longleftrightarrow> real_bounds r = Some (lo, hi)"
| "domain_ok (One_of os) \<longleftrightarrow> os \<noteq> [] \<and> list_all plain os"
| "domain_ok _ \<longleftrightarrow> True"

definition upper :: "int option \<Rightarrow> int" where
  "upper hi = (case hi of None \<Rightarrow> CF_INFINITY | Some h \<Rightarrow> h)"

definition int_between :: "int \<Rightarrow> int \<Rightarrow> int option \<Rightarrow> string \<Rightarrow> bool" where
  "int_between now lo hi s \<longleftrightarrow> (case IntFromString now (Some s) of None \<Rightarrow> False | Some v \<Rightarrow> lo \<le> v \<and> v \<le> upper hi)"

definition naked :: "string \<Rightarrow> bool" where
  "naked s \<longleftrightarrow> IsNakedVar (Some s) (CHR ''@'') \<or> IsNakedVar (Some s) (CHR ''$'')"

definition mode_ok :: "string \<Rightarrow> string \<Rightarrow> bool" where
  "mode_ok lval s \<longleftrightarrow> (lval \<noteq> ''mode'' \<and> lval \<noteq> ''search_mode'') \<or> fst (ParseModeString (Some s))"

text \<open>The values of a domain, and the texts that refer to variables, whose values are checked later.\<close>

fun in_domain :: "(string \<Rightarrow> string \<Rightarrow> bool) \<Rightarrow> int \<Rightarrow> string \<Rightarrow> domain \<Rightarrow> string \<Rightarrow> bool" where
  "in_domain matches now lval (Str r) s \<longleftrightarrow> r = [] \<or> \<not> naked s \<and> mode_ok lval s \<and> matches r s"
| "in_domain matches now lval (Int_in lo hi) s \<longleftrightarrow>
     \<not> IsCf3VarString (Some s) \<and> IntFromString now (Some s) \<noteq> Some CF_NOINT \<and> int_between now lo hi s"
| "in_domain matches now lval (Real_in r lo hi) s \<longleftrightarrow>
     s \<noteq> ''inf'' \<and> \<not> IsCf3VarString (Some s) \<and>
     (case DoubleFromString (Some s) of Some (Some v) \<Rightarrow> \<not> double_less hi v \<and> \<not> double_less v lo | _ \<Rightarrow> False)"
| "in_domain matches now lval (One_of os) s \<longleftrightarrow> \<not> naked s \<and> (s = [] \<or> s \<in> set os)"
| "in_domain matches now lval (Cls r) s \<longleftrightarrow> r = [] \<or> matches r s"
| "in_domain matches now lval (Ints_in lo hi) s \<longleftrightarrow>
     \<not> bracketed s \<and> \<not> IsCf3VarString (Some s) \<and>
     (case split_string s of Some [a, b] \<Rightarrow> int_between now lo hi a \<and> int_between now lo hi b | _ \<Rightarrow> False)"

fun refers :: "(string \<Rightarrow> string \<Rightarrow> bool) \<Rightarrow> string \<Rightarrow> domain \<Rightarrow> string \<Rightarrow> bool" where
  "refers matches lval (Str r) s \<longleftrightarrow> r \<noteq> [] \<and> (naked s \<or> mode_ok lval s \<and> \<not> matches r s \<and> IsCf3VarString (Some s))"
| "refers matches lval (Int_in lo hi) s \<longleftrightarrow> IsCf3VarString (Some s)"
| "refers matches lval (Real_in r lo hi) s \<longleftrightarrow> s \<noteq> ''inf'' \<and> IsCf3VarString (Some s)"
| "refers matches lval (One_of os) s \<longleftrightarrow> naked s"
| "refers matches lval (Cls r) s \<longleftrightarrow> False"
| "refers matches lval (Ints_in lo hi) s \<longleftrightarrow> \<not> bracketed s \<and> IsCf3VarString (Some s)"

definition call_ok :: "string \<Rightarrow> domain \<Rightarrow> bool \<Rightarrow> string \<Rightarrow> bool" where
  "call_ok lval dm aslist f \<longleftrightarrow> lval = [] \<or> lval \<in> set bundle_attributes \<or>
     (case FnCallTypeGet f of
        None \<Rightarrow> False
      | Some (_, dt, _) \<Rightarrow> dt = type_of dm aslist \<or> aslist \<and> dt = type_of dm False)"

fun no_value_ok :: "domain \<Rightarrow> bool" where
  "no_value_ok (Str r) = True"
| "no_value_ok (Cls r) = (r = [])"
| "no_value_ok _ = False"

fun element_ok :: "(string \<Rightarrow> string \<Rightarrow> bool) \<Rightarrow> int \<Rightarrow> string \<Rightarrow> domain \<Rightarrow> Rval \<Rightarrow> bool" where
  "element_ok matches now lval dm (Scalar s) \<longleftrightarrow> in_domain matches now lval dm s \<or> refers matches lval dm s"
| "element_ok matches now lval dm (ListVal rs) \<longleftrightarrow> list_all (element_ok matches now lval dm) rs"
| "element_ok matches now lval dm (FnCall f args) \<longleftrightarrow> call_ok lval dm True f"
| "element_ok matches now lval dm NoPromisee \<longleftrightarrow> no_value_ok dm"

fun has_type :: "(string \<Rightarrow> string \<Rightarrow> bool) \<Rightarrow> int \<Rightarrow> string \<Rightarrow> domain \<Rightarrow> bool \<Rightarrow> Rval \<Rightarrow> bool" where
  "has_type matches now lval dm aslist (Scalar s) \<longleftrightarrow> \<not> aslist \<and> in_domain matches now lval dm s"
| "has_type matches now lval dm aslist (ListVal rs) \<longleftrightarrow> aslist \<and> list_all (element_ok matches now lval dm) rs"
| "has_type matches now lval dm aslist (FnCall f args) \<longleftrightarrow> call_ok lval dm aslist f"
| "has_type matches now lval dm aslist NoPromisee \<longleftrightarrow> no_value_ok dm"

lemma bounds_of_text:
  "bounds_ok lo hi \<Longrightarrow> int_bounds (show_int lo @ CHR '','' # (case hi of None \<Rightarrow> ''inf'' | Some h \<Rightarrow> show_int h)) = Some (lo, upper hi)"
  using number_bounds [of lo "0"] number_bounds [of lo "the hi"]
  by (cases hi) (auto simp: bounds_ok_def upper_def LONG_MIN_def LONG_MAX_def CF_LOWINIT_def)

lemma int_items_two:
  "int_items_check now lo (upper hi) [a, b] = Some SYNTAX_TYPE_MATCH_OK \<longleftrightarrow> int_between now lo hi a \<and> int_between now lo hi b"
  "int_items_check now lo h items \<noteq> Some SYNTAX_TYPE_MATCH_ERROR_UNEXPANDED"
proof -
  show "int_items_check now lo (upper hi) [a, b] = Some SYNTAX_TYPE_MATCH_OK \<longleftrightarrow> int_between now lo hi a \<and> int_between now lo hi b"
    by (cases "IntFromString now (Some a)"; cases "IntFromString now (Some b)") (auto simp: int_between_def)
  show "int_items_check now lo h items \<noteq> Some SYNTAX_TYPE_MATCH_ERROR_UNEXPANDED"
    by (induction items) (auto simp: bind_eq_Some_conv)
qed

lemma int_range_result:
  assumes "bounds_ok lo hi"
  shows "CheckParseIntRange now (Some s) (range_text (Ints_in lo hi)) = Some SYNTAX_TYPE_MATCH_OK \<longleftrightarrow>
       in_domain matches now lval (Ints_in lo hi) s"
    and "CheckParseIntRange now (Some s) (range_text (Ints_in lo hi)) = Some SYNTAX_TYPE_MATCH_ERROR_UNEXPANDED \<longleftrightarrow>
       refers matches lval (Ints_in lo hi) s"
proof -
  note b = bounds_of_text [OF assms]
  let ?r = "range_text (Ints_in lo hi)"
  have "(CheckParseIntRange now (Some s) ?r = Some SYNTAX_TYPE_MATCH_OK \<longleftrightarrow> in_domain matches now lval (Ints_in lo hi) s) \<and>
    (CheckParseIntRange now (Some s) ?r = Some SYNTAX_TYPE_MATCH_ERROR_UNEXPANDED \<longleftrightarrow> refers matches lval (Ints_in lo hi) s)"
  proof (cases "bracketed s \<or> IsCf3VarString (Some s)")
    case True
    with b show ?thesis by (auto simp: CheckParseIntRange_def)
  next
    case False
    show ?thesis
    proof (cases "split_string s")
      case None
      with False b show ?thesis by (simp add: CheckParseIntRange_def)
    next
      case (Some rangep)
      show ?thesis
      proof (cases "\<exists>x y. rangep = [x, y]")
        case True
        then obtain x y where "rangep = [x, y]" by blast
        with Some False b int_items_two(1) [of now lo hi x y] int_items_two(2) [of now lo "upper hi" "[x, y]"] show ?thesis
          by (simp add: CheckParseIntRange_def del: int_items_check.simps)
      next
        case no: False
        then have "length rangep \<noteq> 2" by (auto simp: length_Suc_conv numeral_2_eq_2)
        moreover have "(case rangep of [x, y] \<Rightarrow> P x y | _ \<Rightarrow> False) = False" for P
          using no by (auto split: list.splits)
        ultimately show ?thesis using Some False b by (simp add: CheckParseIntRange_def)
      qed
    qed
  qed
  then show "CheckParseIntRange now (Some s) ?r = Some SYNTAX_TYPE_MATCH_OK \<longleftrightarrow> in_domain matches now lval (Ints_in lo hi) s"
    and "CheckParseIntRange now (Some s) ?r = Some SYNTAX_TYPE_MATCH_ERROR_UNEXPANDED \<longleftrightarrow> refers matches lval (Ints_in lo hi) s"
    by simp_all
qed

lemma literal_result:
  assumes "domain_ok dm"
  shows "check_literal matches now lval (Some s) (type_of dm aslist) (range_text dm) = Some SYNTAX_TYPE_MATCH_OK \<longleftrightarrow>
       in_domain matches now lval dm s"
    and "check_literal matches now lval (Some s) (type_of dm aslist) (range_text dm) = Some SYNTAX_TYPE_MATCH_ERROR_UNEXPANDED \<longleftrightarrow>
       refers matches lval dm s"
proof -
  let ?c = "check_literal matches now lval (Some s) (type_of dm aslist) (range_text dm)"
  have "(?c = Some SYNTAX_TYPE_MATCH_OK \<longleftrightarrow> in_domain matches now lval dm s) \<and>
    (?c = Some SYNTAX_TYPE_MATCH_ERROR_UNEXPANDED \<longleftrightarrow> refers matches lval dm s)"
  proof (cases dm)
    case (Str r)
    then show ?thesis by (auto simp: check_literal_def CheckParseString_def naked_def mode_ok_def)
  next
    case (Int_in lo hi)
    with assms bounds_of_text [of lo hi] have c: "?c = (if IsCf3VarString (Some s) then Some SYNTAX_TYPE_MATCH_ERROR_UNEXPANDED
        else do {
          v \<leftarrow> IntFromString now (Some s);
          Some (if v = CF_NOINT then SYNTAX_TYPE_MATCH_ERROR_INT_PARSE
                else if v > upper hi \<or> v < lo then SYNTAX_TYPE_MATCH_ERROR_INT_OUT_OF_RANGE
                else SYNTAX_TYPE_MATCH_OK)
        })"
      by (simp add: check_literal_def CheckParseInt_def)
    show ?thesis unfolding c using Int_in by (cases "IntFromString now (Some s)") (auto simp: int_between_def)
  next
    case (Real_in r lo hi)
    with assms have c: "?c = (if s = ''inf'' then Some SYNTAX_TYPE_MATCH_ERROR_REAL_INF
        else if IsCf3VarString (Some s) then Some SYNTAX_TYPE_MATCH_ERROR_UNEXPANDED else real_check lo hi s)"
      by (simp add: check_literal_def CheckParseReal_def)
    show ?thesis unfolding c using Real_in
      by (cases "DoubleFromString (Some s)") (auto simp: real_check_def split: option.splits)
  next
    case (One_of os)
    with assms split_string_joined [of os] show ?thesis
      by (auto simp: check_literal_def CheckParseOpts_def naked_def)
  next
    case (Cls r)
    then show ?thesis by (auto simp: check_literal_def CheckParseContext_def)
  next
    case (Ints_in lo hi)
    with assms int_range_result [of lo hi now s matches lval] show ?thesis by (simp add: check_literal_def)
  qed
  then show "?c = Some SYNTAX_TYPE_MATCH_OK \<longleftrightarrow> in_domain matches now lval dm s"
    and "?c = Some SYNTAX_TYPE_MATCH_ERROR_UNEXPANDED \<longleftrightarrow> refers matches lval dm s" by simp_all
qed

lemma no_literal_result:
  assumes "domain_ok dm"
  shows "check_literal matches now lval None (type_of dm aslist) (range_text dm) = Some SYNTAX_TYPE_MATCH_OK \<longleftrightarrow> no_value_ok dm"
    and "check_literal matches now lval None (type_of dm aslist) (range_text dm) \<noteq> Some SYNTAX_TYPE_MATCH_ERROR_UNEXPANDED"
  using assms bounds_of_text
  by (cases dm; simp add: check_literal_def CheckParseString_def CheckParseInt_def CheckParseReal_def CheckParseContext_def
      CheckParseIntRange_def IsCf3VarString_def IntFromString_def)+

lemma call_result:
  "CheckFnCallType f dt \<noteq> SYNTAX_TYPE_MATCH_ERROR_UNEXPANDED"
  "(if lval \<noteq> [] \<and> lval \<notin> set bundle_attributes then Some (CheckFnCallType f (type_of dm aslist)) else Some SYNTAX_TYPE_MATCH_OK) =
     Some SYNTAX_TYPE_MATCH_OK \<longleftrightarrow> call_ok lval dm (aslist \<and> (\<forall>lo hi. dm \<noteq> Ints_in lo hi)) f"
  by (cases dm; auto simp: CheckFnCallType_def call_ok_def split: option.splits)+

lemma check_elements_result:
  "check_elements matches now lval rs dt rng = Some SYNTAX_TYPE_MATCH_OK \<longleftrightarrow>
     list_all (\<lambda>r. CheckConstraintTypeMatch matches now lval r dt rng 1 \<in>
       {Some SYNTAX_TYPE_MATCH_OK, Some SYNTAX_TYPE_MATCH_ERROR_UNEXPANDED}) rs"
  "check_elements matches now lval rs dt rng \<noteq> Some SYNTAX_TYPE_MATCH_ERROR_UNEXPANDED"
  by (induction rs) (auto simp: bind_eq_Some_conv)

lemma list_type: "is_list_type (type_of dm aslist) \<longleftrightarrow> aslist \<and> (\<forall>lo hi. dm \<noteq> Ints_in lo hi)"
  by (cases dm) (auto simp: is_list_type_def)

lemma element_result:
  assumes "domain_ok dm" "\<forall>lo hi. dm \<noteq> Ints_in lo hi"
  shows "CheckConstraintTypeMatch matches now lval r (type_of dm True) (range_text dm) 1 \<in>
      {Some SYNTAX_TYPE_MATCH_OK, Some SYNTAX_TYPE_MATCH_ERROR_UNEXPANDED} \<longleftrightarrow> element_ok matches now lval dm r"
proof (induction r)
  case (Scalar s)
  then show ?case using literal_result [OF assms(1), of matches now lval s True] by auto
next
  case (ListVal rs)
  then show ?case
    using assms(2) by (simp add: list_type check_elements_result list_all_iff)
next
  case (FnCall f args)
  then show ?case using call_result(2) [of lval f dm True] call_result(1) [of f] assms(2) by (auto split: if_splits)
next
  case NoPromisee
  then show ?case using no_literal_result [OF assms(1), of matches now lval True] by simp
qed



section \<open>What passes the checks\<close>

text \<open>The empty text is an option of every attribute.\<close>

lemma empty_option_passes: "split_string rng \<noteq> None \<Longrightarrow> CheckParseOpts [] rng = Some SYNTAX_TYPE_MATCH_OK"
  by (auto simp: CheckParseOpts_def IsNakedVar_def)

text \<open>\<open>NaN\<close> is a real number between all bounds, as it is neither above nor below one.\<close>

lemma double_less_NaN [simp]: "double_less v NaN = False"
  by (cases v) simp_all

lemma nan_passes: "real_bounds rng \<noteq> None \<Longrightarrow> CheckParseReal (Some ''nan'') rng = Some SYNTAX_TYPE_MATCH_OK"
proof -
  have "scan_lf ''nan'' = Some (NaN, [])"
    by (simp add: scan_lf_def begins_with_def ToLower_def isupper_def isspace_def)
  moreover have "\<not> IsCf3VarString (Some ''nan'')" by code_simp
  moreover have "IsSpace []" by (simp add: IsSpace_def)
  ultimately have "DoubleFromString (Some ''nan'') = Some (Some NaN)" by (simp add: DoubleFromString_def CF_BUFSIZE_def)
  moreover assume "real_bounds rng \<noteq> None"
  ultimately show ?thesis
    using \<open>\<not> IsCf3VarString (Some ''nan'')\<close> by (auto simp: CheckParseReal_def real_check_def)
qed

text \<open>In a pair of integers, a text that is no number counts as \<open>-678\<close>.\<close>

lemma no_number_in_pair:
  "lo \<le> - 678 \<Longrightarrow> 0 \<le> upper hi \<Longrightarrow> int_between now lo hi ''abc''"
proof -
  have "scan_value ''abc'' = Some (CF_NOINT, CHR ''X'', [])" by code_simp
  then show "lo \<le> - 678 \<Longrightarrow> 0 \<le> upper hi \<Longrightarrow> int_between now lo hi ''abc''"
    by (simp add: int_between_def IntFromString_def CF_NOINT_def)
qed

end
