(* ===== verification/Fn_Logic.thy ===== *)
theory Fn_Logic
  imports Complex_Main Syntax_Check Frames Expand File_Names Hashes Addr_Lib Matching
begin

text \<open>
  Built-in functions of \<open>libpromises/evalfunction.c\<close> on scalars: classes, strings, numbers, dates and ranges of hosts.
  A function takes its arguments one by one, or as a list where the number of them is free. \<open>any\<close> is the class that
  is always defined, so the text \<open>any\<close> is true and \<open>!any\<close> is false. \<open>None\<close> and \<open>Fault\<close> are programming errors, overflows and
  accesses outside of a buffer; \<open>FatalError\<close> ends the program. What the functions read from the system, like
  the name of the host, is an argument.
\<close>

datatype FnCallResult = FNCALL_SUCCESS Rval | FNCALL_FAILURE

definition truth :: "bool \<Rightarrow> FnCallResult" where
  "truth b = FNCALL_SUCCESS (Scalar (if b then ''any'' else ''!any''))"

lemma truth_inj [simp]: "truth a = truth b \<longleftrightarrow> a = b"
  by (simp add: truth_def)

text \<open>\<open>(int)\<close> of a \<open>long\<close>.\<close>

definition int_of_long :: "int \<Rightarrow> int" where
  "int_of_long i = sint (word_of_int i :: 32 word)"

section \<open>Classes\<close>

text \<open>The arguments of a function with any number of them have to be scalars; the position of a call is checked too.\<close>

fun check_args :: "(string \<Rightarrow> string \<Rightarrow> bool) \<Rightarrow> int \<Rightarrow> string \<Rightarrow> Rval list \<Rightarrow> unit outcome" where
  "check_args matches now fid [] = Done ()"
| "check_args matches now fid (arg # args) =
     (case CheckConstraintTypeMatch matches now fid arg DATA_TYPE_STRING [] 1 of
        None \<Rightarrow> Fault
      | Some err \<Rightarrow>
          if err \<noteq> SYNTAX_TYPE_MATCH_OK \<and> err \<noteq> SYNTAX_TYPE_MATCH_ERROR_UNEXPANDED then Exit1
          else check_args matches now fid args)"

fun and_loop :: "EvalContext \<Rightarrow> string option \<Rightarrow> Rval list \<Rightarrow> FnCallResult outcome" where
  "and_loop ctx nsp [] = Done (truth True)"
| "and_loop ctx nsp (arg # args) =
     and_then (checked (RvalScalarValue arg)) (\<lambda>s.
       if \<not> IsDefinedClass ctx (Some s) nsp then Done (truth False) else and_loop ctx nsp args)"

definition FnCallAnd ::
  "(string \<Rightarrow> string \<Rightarrow> bool) \<Rightarrow> int \<Rightarrow> EvalContext \<Rightarrow> string option \<Rightarrow> Rval list \<Rightarrow> FnCallResult outcome"
where
  "FnCallAnd matches now ctx nsp finalargs =
     and_then (check_args matches now ''built-in FnCall and-arg'' finalargs) (\<lambda>_. and_loop ctx nsp finalargs)"

fun or_loop :: "EvalContext \<Rightarrow> string option \<Rightarrow> Rval list \<Rightarrow> FnCallResult outcome" where
  "or_loop ctx nsp [] = Done (truth False)"
| "or_loop ctx nsp (arg # args) =
     and_then (checked (RvalScalarValue arg)) (\<lambda>s.
       if IsDefinedClass ctx (Some s) nsp then Done (truth True) else or_loop ctx nsp args)"

definition FnCallOr ::
  "(string \<Rightarrow> string \<Rightarrow> bool) \<Rightarrow> int \<Rightarrow> EvalContext \<Rightarrow> string option \<Rightarrow> Rval list \<Rightarrow> FnCallResult outcome"
where
  "FnCallOr matches now ctx nsp finalargs =
     and_then (check_args matches now ''built-in FnCall or-arg'' finalargs) (\<lambda>_. or_loop ctx nsp finalargs)"

definition FnCallNot :: "EvalContext \<Rightarrow> string option \<Rightarrow> string \<Rightarrow> FnCallResult" where
  "FnCallNot ctx nsp arg = truth (\<not> IsDefinedClass ctx (Some arg) nsp)"

text \<open>The loop takes two arguments in each turn; the last one is the value without a condition.\<close>

fun ifelse_loop :: "EvalContext \<Rightarrow> string option \<Rightarrow> Rval list \<Rightarrow> FnCallResult outcome" where
  "ifelse_loop ctx nsp [] = Fault"
| "ifelse_loop ctx nsp [arg] = and_then (checked (RvalScalarValue arg)) (\<lambda>s. Done (FNCALL_SUCCESS (Scalar s)))"
| "ifelse_loop ctx nsp (arg # arg2 # args) =
     and_then (checked (RvalScalarValue arg)) (\<lambda>s.
       if IsDefinedClass ctx (Some s) nsp
       then and_then (checked (RvalScalarValue arg2)) (\<lambda>t. Done (FNCALL_SUCCESS (Scalar t)))
       else ifelse_loop ctx nsp args)"

definition FnCallIfElse ::
  "(string \<Rightarrow> string \<Rightarrow> bool) \<Rightarrow> int \<Rightarrow> EvalContext \<Rightarrow> string option \<Rightarrow> Rval list \<Rightarrow> FnCallResult outcome"
where
  "FnCallIfElse matches now ctx nsp finalargs =
     and_then (check_args matches now ''built-in FnCall ifelse-arg'' finalargs) (\<lambda>_.
       if length finalargs mod 2 \<noteq> 1 then Exit1 else ifelse_loop ctx nsp finalargs)"

text \<open>\<open>strlcat\<close> returns the length that the text would have had.\<close>

fun concat_loop :: "string \<Rightarrow> Rval list \<Rightarrow> FnCallResult outcome" where
  "concat_loop res [] = Done (FNCALL_SUCCESS (Scalar res))"
| "concat_loop res (arg # args) =
     and_then (checked (RvalScalarValue arg)) (\<lambda>s.
       if length res + length s \<ge> CF_BUFSIZE then Done FNCALL_FAILURE
       else concat_loop (strlcat res s CF_BUFSIZE) args)"

definition FnCallConcat :: "(string \<Rightarrow> string \<Rightarrow> bool) \<Rightarrow> int \<Rightarrow> Rval list \<Rightarrow> FnCallResult outcome" where
  "FnCallConcat matches now finalargs =
     and_then (check_args matches now ''built-in FnCall concat-arg'' finalargs) (\<lambda>_. concat_loop [] finalargs)"

definition FnCallClassMatch :: "(string \<Rightarrow> string \<Rightarrow> bool) \<Rightarrow> EvalContext \<Rightarrow> string \<Rightarrow> FnCallResult outcome" where
  "FnCallClassMatch matches ctx regex =
     (if EvalContextHeapMatchCountHard matches ctx regex \<noteq> 0 \<or> EvalContextHeapMatchCountSoft matches ctx regex \<noteq> 0
      then Done (truth True)
      else and_then (EvalContextStackFrameMatchCountSoft matches ctx regex) (\<lambda>n. Done (truth (n \<noteq> 0))))"

definition FnCallCountClassesMatching :: "(string \<Rightarrow> string \<Rightarrow> bool) \<Rightarrow> EvalContext \<Rightarrow> string \<Rightarrow> FnCallResult outcome" where
  "FnCallCountClassesMatching matches ctx regex =
     and_then (EvalContextStackFrameMatchCountSoft matches ctx regex) (\<lambda>n.
       Done (FNCALL_SUCCESS (Scalar (show_nat
         (EvalContextHeapMatchCountSoft matches ctx regex + EvalContextHeapMatchCountHard matches ctx regex + n)))))"

definition FnCallClassify :: "EvalContext \<Rightarrow> string option \<Rightarrow> string \<Rightarrow> FnCallResult option" where
  "FnCallClassify ctx nsp arg = do { c \<leftarrow> CanonifyName arg; Some (truth (IsDefinedClass ctx (Some c) nsp)) }"

text \<open>\<open>%02d\<close>\<close>

definition two_digits :: "nat \<Rightarrow> string" where
  "two_digits n = (if n < 10 then CHR ''0'' # show_nat n else show_nat n)"

definition splay_minutes :: "nat \<Rightarrow> string" where
  "splay_minutes slot = ''Min'' @ two_digits (slot * 5) @ CHR ''_'' # two_digits (((slot + 1) * 5) mod 60)"

definition splay_class :: "string \<Rightarrow> bool \<Rightarrow> string" where
  "splay_class arg hourly =
     (let h = OatHash arg (of_nat CF_HASHTABLESIZE) in
      if hourly then splay_minutes (h * 12 div CF_HASHTABLESIZE)
      else
        (let dayslot = h * 12 * 24 div CF_HASHTABLESIZE in
         splay_minutes (dayslot mod 12) @ ''.Hr'' @ two_digits (dayslot div 12)))"

definition FnCallSplayClass :: "EvalContext \<Rightarrow> string option \<Rightarrow> string \<Rightarrow> string \<Rightarrow> FnCallResult option" where
  "FnCallSplayClass ctx nsp arg pol =
     do {
       p \<leftarrow> IntervalFromString (Some pol);
       Some (truth (IsDefinedClass ctx (Some (splay_class arg (p = INTERVAL_HOURLY))) nsp))
     }"

section \<open>Strings\<close>

definition FnCallCanonify :: "string \<Rightarrow> FnCallResult option" where
  "FnCallCanonify arg = map_option (\<lambda>c. FNCALL_SUCCESS (Scalar c)) (CanonifyName arg)"

definition FnCallDirname :: "string \<Rightarrow> FnCallResult" where
  "FnCallDirname arg = FNCALL_SUCCESS (Scalar (snd (ChopLastNode (DeleteSlash arg))))"

text \<open>The last part of a text that is split by a regular expression; \<open>find_match\<close> finds one in a text.\<close>

definition FnCallLastNode :: "(string \<Rightarrow> string \<Rightarrow> (nat \<times> nat) option) \<Rightarrow> string \<Rightarrow> string \<Rightarrow> FnCallResult option" where
  "FnCallLastNode find_match nm split =
     do {
       newlist \<leftarrow> RlistFromSplitRegex (find_match split) (Some nm) 100 True;
       (if newlist = [] then Some FNCALL_FAILURE
        else do { s \<leftarrow> RvalScalarValue (last newlist); Some (FNCALL_SUCCESS (Scalar s)) })
     }"

definition FnCallStrCmp :: "string \<Rightarrow> string \<Rightarrow> FnCallResult" where
  "FnCallStrCmp s t = truth (strcmp s t = 0)"

definition FnCallRegCmp ::
  "(string \<Rightarrow> pcre option) \<Rightarrow> bool \<Rightarrow> string \<Rightarrow> string \<Rightarrow> Scopes \<Rightarrow> (FnCallResult \<times> Scopes) option"
where
  "FnCallRegCmp pcre_compile agent argv0 argv1 st =
     do { (b, st1) \<leftarrow> FullTextMatch pcre_compile agent argv0 argv1 st; Some (truth b, st1) }"

definition FnCallEscape :: "string \<Rightarrow> FnCallResult option" where
  "FnCallEscape nm =
     map_option (\<lambda>b. FNCALL_SUCCESS (Scalar b)) (EscapeSpecialChars nm (int CF_BUFSIZE - 1) (Some []) (Some []))"

definition MAX_FILENAME :: nat where
  "MAX_FILENAME = 254"

definition FnCallTranslatePath :: "string \<Rightarrow> FnCallResult" where
  "FnCallTranslatePath arg = FNCALL_SUCCESS (Scalar (MapName (take (MAX_FILENAME - 1) arg)))"

text \<open>\<open>%.<limit>s\<close>; with a number below zero this is no format.\<close>

definition FnCallGetEnv :: "(string \<Rightarrow> string option) \<Rightarrow> int \<Rightarrow> string \<Rightarrow> string \<Rightarrow> FnCallResult option" where
  "FnCallGetEnv getenv now nm arg2 =
     do {
       limit \<leftarrow> IntFromString now (Some arg2);
       (case getenv nm of
          None \<Rightarrow> Some (FNCALL_SUCCESS (Scalar []))
        | Some v \<Rightarrow>
            if int_of_long limit < 0 then None
            else Some (FNCALL_SUCCESS (Scalar (take (CF_BUFSIZE - 2) (take (nat (int_of_long limit)) v)))))
     }"

section \<open>Numbers\<close>

text \<open>A number at the start is enough for \<open>IsRealNumber\<close>, but not for \<open>DoubleFromString\<close>.\<close>

definition IsRealNumber :: "string \<Rightarrow> bool" where
  "IsRealNumber s \<longleftrightarrow> (case scan_lf s of None \<Rightarrow> False | Some (a, _) \<Rightarrow> a \<noteq> Finite (- 12345 / 100))"

definition FnCallIsLessGreaterThan :: "string \<Rightarrow> string \<Rightarrow> string \<Rightarrow> FnCallResult option" where
  "FnCallIsLessGreaterThan fname argv0 argv1 =
     (if IsRealNumber argv0 \<and> IsRealNumber argv1 then do {
        ra \<leftarrow> DoubleFromString (Some argv0);
        (case ra of None \<Rightarrow> Some FNCALL_FAILURE | Some a \<Rightarrow> do {
           rb \<leftarrow> DoubleFromString (Some argv1);
           (case rb of None \<Rightarrow> Some FNCALL_FAILURE | Some b \<Rightarrow>
              Some (truth (if strcmp fname ''isgreaterthan'' = 0 then double_less b a else double_less a b)))
         })
      }
      else if strcmp argv0 argv1 > 0 then Some (truth (strcmp fname ''isgreaterthan'' = 0))
      else Some (truth (strcmp fname ''isgreaterthan'' \<noteq> 0)))"

definition FnCallIRange :: "int \<Rightarrow> string \<Rightarrow> string \<Rightarrow> FnCallResult option" where
  "FnCallIRange now arg1 arg2 =
     do {
       a \<leftarrow> IntFromString now (Some arg1);
       b \<leftarrow> IntFromString now (Some arg2);
       Some (if a = CF_NOINT \<or> b = CF_NOINT then FNCALL_FAILURE
             else FNCALL_SUCCESS (Scalar (show_int (min a b) @ CHR '','' # show_int (max a b))))
     }"

text \<open>\<open>(int) x\<close> of a real number, and a real number as \<open>printf\<close> writes it for \<open>%lf\<close>, which is an argument.\<close>

definition int_of_double :: "double \<Rightarrow> double option" where
  "int_of_double d =
     (case d of
        Finite q \<Rightarrow>
          (let t = (if q < 0 then \<lceil>q\<rceil> else \<lfloor>q\<rfloor>) in if - (2 ^ 31) \<le> t \<and> t < 2 ^ 31 then Some (Finite (of_int t)) else None)
      | _ \<Rightarrow> None)"

text \<open>The code reads its first argument twice.\<close>

definition FnCallRRange :: "(double \<Rightarrow> string) \<Rightarrow> string \<Rightarrow> string \<Rightarrow> FnCallResult option" where
  "FnCallRRange show_lf arg1 arg2 =
     do {
       ra \<leftarrow> DoubleFromString (Some arg1);
       (case ra of None \<Rightarrow> Some FNCALL_FAILURE | Some from_ \<Rightarrow> do {
          rb \<leftarrow> DoubleFromString (Some arg1);
          (case rb of None \<Rightarrow> Some FNCALL_FAILURE | Some to_ \<Rightarrow> do {
             (lo, hi) \<leftarrow> (if double_less to_ from_ then map_option (\<lambda>tmp. (tmp, from_)) (int_of_double to_) else Some (from_, to_));
             Some (FNCALL_SUCCESS (Scalar (take (CF_BUFSIZE - 2) (show_lf lo @ CHR '','' # show_lf hi))))
           })
        })
     }"

text \<open>\<open>drand48\<close> gives a number from \<open>0\<close> on and below \<open>1\<close>.\<close>

definition FnCallRandomInt :: "int \<Rightarrow> rat \<Rightarrow> string \<Rightarrow> string \<Rightarrow> FnCallResult option" where
  "FnCallRandomInt now rand arg1 arg2 =
     do {
       a \<leftarrow> map_option int_of_long (IntFromString now (Some arg1));
       b \<leftarrow> map_option int_of_long (IntFromString now (Some arg2));
       (if a = CF_NOINT \<or> b = CF_NOINT then Some FNCALL_FAILURE
        else
          (let lo = min a b; hi = max a b in
           if hi - lo \<ge> 2 ^ 31 then None
           else Some (FNCALL_SUCCESS (Scalar (show_int (lo + \<lfloor>rand * of_int (hi - lo)\<rfloor>))))))
     }"

section \<open>Dates\<close>

text \<open>Year, month, day, hour, minutes and seconds; with fewer arguments the numbers that are read were never written.\<close>

definition date_args :: "int \<Rightarrow> Rval list \<Rightarrow> int list option" where
  "date_args now finalargs =
     (if length finalargs < 6 then None
      else those (map (\<lambda>rp. do { s \<leftarrow> RvalScalarValue rp; IntFromString now (Some s) }) (take 6 finalargs)))"

text \<open>\<open>mktime\<close> of the C library, with the seconds as a second argument.\<close>

definition cf_mktime :: "(tm \<Rightarrow> int \<Rightarrow> int) \<Rightarrow> int list \<Rightarrow> int" where
  "cf_mktime mktime d =
     mktime \<lparr>tm_year = int_of_long (d ! 0 - 1900), tm_mon = int_of_long (d ! 1 - 1), tm_mday = int_of_long (d ! 2),
       tm_hour = int_of_long (d ! 3), tm_min = int_of_long (d ! 4)\<rparr> (int_of_long (d ! 5))"

definition FnCallOn :: "(tm \<Rightarrow> int \<Rightarrow> int) \<Rightarrow> int \<Rightarrow> Rval list \<Rightarrow> FnCallResult option" where
  "FnCallOn mktime now finalargs =
     do { d \<leftarrow> date_args now finalargs; Some (FNCALL_SUCCESS (Scalar (show_int (cf_mktime mktime d)))) }"

definition FnCallLaterThan :: "(tm \<Rightarrow> int \<Rightarrow> int) \<Rightarrow> int \<Rightarrow> Rval list \<Rightarrow> FnCallResult option" where
  "FnCallLaterThan mktime now finalargs =
     do { d \<leftarrow> date_args now finalargs; Some (truth (now > cf_mktime mktime d)) }"

definition add_long :: "int \<Rightarrow> int \<Rightarrow> int option" where
  "add_long a b =
     (if LONG_MIN \<le> b \<and> b \<le> LONG_MAX \<and> LONG_MIN \<le> a + b \<and> a + b \<le> LONG_MAX then Some (a + b) else None)"

definition sub_long :: "int \<Rightarrow> int \<Rightarrow> int option" where
  "sub_long a b =
     (if LONG_MIN \<le> b \<and> b \<le> LONG_MAX \<and> LONG_MIN \<le> a - b \<and> a - b \<le> LONG_MAX then Some (a - b) else None)"

definition FnCallAgoDate :: "int \<Rightarrow> int \<Rightarrow> string \<Rightarrow> string \<Rightarrow> Rval list \<Rightarrow> FnCallResult option" where
  "FnCallAgoDate now CFSTARTTIME VMONTH VYEAR finalargs =
     do {
       d \<leftarrow> date_args now finalargs;
       c1 \<leftarrow> sub_long CFSTARTTIME (d ! 5);
       c2 \<leftarrow> sub_long c1 (d ! 4 * 60);
       c3 \<leftarrow> sub_long c2 (d ! 3 * 3600);
       c4 \<leftarrow> sub_long c3 (d ! 2 * 24 * 3600);
       months \<leftarrow> Months2Seconds now VMONTH VYEAR (int_of_long (d ! 1));
       c5 \<leftarrow> sub_long c4 months;
       c6 \<leftarrow> sub_long c5 (d ! 0 * 365 * 24 * 3600);
       Some (FNCALL_SUCCESS (Scalar (if c6 < 0 then ''0'' else show_int c6)))
     }"

definition FnCallAccumulatedDate :: "int \<Rightarrow> Rval list \<Rightarrow> FnCallResult option" where
  "FnCallAccumulatedDate now finalargs =
     do {
       d \<leftarrow> date_args now finalargs;
       c1 \<leftarrow> add_long 0 (d ! 5);
       c2 \<leftarrow> add_long c1 (d ! 4 * 60);
       c3 \<leftarrow> add_long c2 (d ! 3 * 3600);
       c4 \<leftarrow> add_long c3 (d ! 2 * 24 * 3600);
       c5 \<leftarrow> add_long c4 (d ! 1 * 30 * 24 * 3600);
       c6 \<leftarrow> add_long c5 (d ! 0 * 365 * 24 * 3600);
       Some (FNCALL_SUCCESS (Scalar (show_int c6)))
     }"

definition FnCallNow :: "int \<Rightarrow> FnCallResult" where
  "FnCallNow CFSTARTTIME = FNCALL_SUCCESS (Scalar (show_int CFSTARTTIME))"

section \<open>Hosts\<close>

text \<open>\<open>IPADDRESSES\<close> are the addresses of the host; that of its main interface is asked again for each of them.\<close>

fun iprange_loop ::
  "(string \<Rightarrow> nat list option) \<Rightarrow> (string \<Rightarrow> nat list option) \<Rightarrow> string \<Rightarrow> string \<Rightarrow> string list \<Rightarrow> bool option"
where
  "iprange_loop pton4 pton6 VIPADDRESS rng [] = Some False"
| "iprange_loop pton4 pton6 VIPADDRESS rng (nm # ip) =
     do {
       m \<leftarrow> FuzzySetMatch pton4 pton6 rng VIPADDRESS;
       (if m = 0 then Some True
        else do {
          n \<leftarrow> FuzzySetMatch pton4 pton6 rng nm;
          (if n = 0 then Some True else iprange_loop pton4 pton6 VIPADDRESS rng ip)
        })
     }"

definition FnCallIPRange ::
  "(string \<Rightarrow> nat list option) \<Rightarrow> (string \<Rightarrow> nat list option) \<Rightarrow> string \<Rightarrow> string list \<Rightarrow> string \<Rightarrow> FnCallResult option"
where
  "FnCallIPRange pton4 pton6 VIPADDRESS IPADDRESSES rng =
     do {
       ok \<leftarrow> FuzzyMatchParse rng;
       (if \<not> ok then Some FNCALL_FAILURE
        else map_option truth (iprange_loop pton4 pton6 VIPADDRESS rng IPADDRESSES))
     }"

definition FnCallHostRange :: "string \<Rightarrow> string \<Rightarrow> string \<Rightarrow> FnCallResult option" where
  "FnCallHostRange VUQNAME pre rng =
     (if \<not> FuzzyHostParse rng then Some FNCALL_FAILURE
      else do { m \<leftarrow> FuzzyHostMatch pre rng VUQNAME; Some (truth (m = 0)) })"

text \<open>The hosts of the entries of a net group; an entry without a host stands for all of them.\<close>

definition FnCallHostInNetgroup :: "(string \<Rightarrow> string option list) \<Rightarrow> string \<Rightarrow> string \<Rightarrow> string \<Rightarrow> FnCallResult" where
  "FnCallHostInNetgroup netgroup VFQNAME VUQNAME arg =
     truth (\<exists>host \<in> set (netgroup arg). case host of None \<Rightarrow> True | Some h \<Rightarrow> strcmp h VFQNAME = 0 \<or> strcmp h VUQNAME = 0)"

text \<open>The users of the system that are in neither list.\<close>

fun users_loop :: "Rval list \<Rightarrow> Rval list \<Rightarrow> (string \<times> 32 word) list \<Rightarrow> Rval list \<Rightarrow> Rval list" where
  "users_loop except_names except_uids [] newlist = newlist"
| "users_loop except_names except_uids ((nm, uid) # pws) newlist =
     users_loop except_names except_uids pws
       (if \<not> RlistIsStringIn except_names (Some nm) \<and> \<not> RlistIsIntIn except_uids (sint uid)
        then snd (RlistAppendScalarIdemp newlist nm) else newlist)"

definition FnCallGetUsers :: "(string \<times> 32 word) list \<Rightarrow> string \<Rightarrow> string \<Rightarrow> FnCallResult option" where
  "FnCallGetUsers passwd except_name except_uid =
     do {
       except_names \<leftarrow> RlistFromSplitString (Some except_name) (CHR '','');
       except_uids \<leftarrow> RlistFromSplitString (Some except_uid) (CHR '','');
       Some (FNCALL_SUCCESS (ListVal (users_loop except_names except_uids passwd [])))
     }"

section \<open>Functions and operators\<close>

text \<open>An expression without references to variables.\<close>

fun closed_name :: "StringExpression \<Rightarrow> bool" where
  "closed_name (CONCAT l r) = (closed_name l \<and> closed_name r)"
| "closed_name (LITERAL s) = True"
| "closed_name (VARREF n t) = False"

fun closed_expression :: "Expression \<Rightarrow> bool" where
  "closed_expression (Expression.OR l r) = (closed_expression l \<and> closed_expression r)"
| "closed_expression (Expression.AND l r) = (closed_expression l \<and> closed_expression r)"
| "closed_expression (Expression.NOT e) = closed_expression e"
| "closed_expression (EVAL n) = closed_name n"

lemma closed_name_value: "closed_name n \<Longrightarrow> \<exists>s. EvalStringExpression f n = Some s"
  by (induction n) auto

lemma closed_value:
  "closed_expression e \<Longrightarrow> EvalExpression (EvalTokenAsClass ctx nsp) f e \<noteq> EXP_ERROR"
  by (induction e)
    (auto simp: Let_def EvalTokenAsClass_def exp_bool_def dest!: closed_name_value [where f = f] split: if_splits)

definition holds :: "EvalContext \<Rightarrow> string option \<Rightarrow> Expression \<Rightarrow> bool" where
  "holds ctx nsp e \<longleftrightarrow> EvalExpression (EvalTokenAsClass ctx nsp) EvalVarRef e = EXP_TRUE"

lemma IsDefinedClass_show:
  "wf_expression e \<Longrightarrow> IsDefinedClass ctx (Some (show_expression e)) nsp = holds ctx nsp e"
  by (simp add: IsDefinedClass_def ParseExpression_show holds_def)

lemma holds_simps:
  "holds ctx nsp (Expression.AND l r) \<longleftrightarrow> holds ctx nsp l \<and> holds ctx nsp r"
  "closed_expression l \<Longrightarrow> closed_expression r \<Longrightarrow> holds ctx nsp (Expression.OR l r) \<longleftrightarrow> holds ctx nsp l \<or> holds ctx nsp r"
  "closed_expression e \<Longrightarrow> holds ctx nsp (Expression.NOT e) \<longleftrightarrow> \<not> holds ctx nsp e"
proof -
  let ?v = "EvalExpression (EvalTokenAsClass ctx nsp) EvalVarRef"
  show "holds ctx nsp (Expression.AND l r) \<longleftrightarrow> holds ctx nsp l \<and> holds ctx nsp r"
    by (cases "?v l"; cases "?v r") (simp_all add: holds_def Let_def exp_bool_def)
  show "closed_expression l \<Longrightarrow> closed_expression r \<Longrightarrow> holds ctx nsp (Expression.OR l r) \<longleftrightarrow> holds ctx nsp l \<or> holds ctx nsp r"
    using closed_value [of l ctx nsp EvalVarRef] closed_value [of r ctx nsp EvalVarRef]
    by (cases "?v l"; cases "?v r") (simp_all add: holds_def Let_def exp_bool_def)
  show "closed_expression e \<Longrightarrow> holds ctx nsp (Expression.NOT e) \<longleftrightarrow> \<not> holds ctx nsp e"
    using closed_value [of e ctx nsp EvalVarRef]
    by (cases "?v e") (simp_all add: holds_def Let_def exp_bool_def)
qed

text \<open>\<open>e1.e2.\<dots>\<close> and \<open>e1|e2|\<dots>\<close>\<close>

fun joined_with :: "(Expression \<Rightarrow> Expression \<Rightarrow> Expression) \<Rightarrow> Expression \<Rightarrow> Expression list \<Rightarrow> Expression" where
  "joined_with f e [] = e"
| "joined_with f e (e1 # es) = f e (joined_with f e1 es)"

lemma wf_joined:
  "wf_expression e \<Longrightarrow> \<forall>x \<in> set es. wf_expression x \<Longrightarrow> f \<in> {Expression.AND, Expression.OR} \<Longrightarrow> wf_expression (joined_with f e es)"
  by (induction f e es rule: joined_with.induct) auto

lemma holds_joined_and: "holds ctx nsp (joined_with Expression.AND e es) \<longleftrightarrow> (\<forall>x \<in> set (e # es). holds ctx nsp x)"
  by (induction Expression.AND e es rule: joined_with.induct) (auto simp: holds_simps)

lemma closed_joined:
  "\<forall>x \<in> set (e # es). closed_expression x \<Longrightarrow> closed_expression (joined_with Expression.OR e es)"
  by (induction Expression.OR e es rule: joined_with.induct) auto

lemma holds_joined_or:
  "\<forall>x \<in> set (e # es). closed_expression x \<Longrightarrow>
   holds ctx nsp (joined_with Expression.OR e es) \<longleftrightarrow> (\<exists>x \<in> set (e # es). holds ctx nsp x)"
  by (induction Expression.OR e es rule: joined_with.induct) (auto simp: holds_simps closed_joined)

lemma check_args_scalars: "check_args matches now fid (map (Scalar \<circ> f) xs) = Done ()"
  by (induction xs)
    (simp_all add: check_literal_def CheckParseString_def is_list_type_def)

lemma and_loop_scalars: "and_loop ctx nsp (map (Scalar \<circ> f) xs) = Done (truth (\<forall>x \<in> set xs. IsDefinedClass ctx (Some (f x)) nsp))"
  by (induction xs) (auto simp: checked_def)

lemma or_loop_scalars: "or_loop ctx nsp (map (Scalar \<circ> f) xs) = Done (truth (\<exists>x \<in> set xs. IsDefinedClass ctx (Some (f x)) nsp))"
  by (induction xs) (auto simp: checked_def)

text \<open>
  C7. The functions \<open>and\<close>, \<open>or\<close> and \<open>not\<close> of any class expressions without variables answer as the operators of class
  expressions do: \<open>and(e1, e2, \<dots>)\<close> is true when the expression \<open>e1.e2.\<dots>\<close> is defined, \<open>or(e1, e2, \<dots>)\<close> when \<open>e1|e2|\<dots>\<close>
  is, and \<open>not(e)\<close> when \<open>!e\<close> is, with the parentheses of the printed expressions. The arguments never end the program.
\<close>

theorem logic_functions:
  assumes "\<forall>x \<in> set (e # es). wf_expression x \<and> closed_expression x"
  shows "FnCallAnd matches now ctx nsp (map (Scalar \<circ> show_expression) (e # es)) =
      Done (truth (IsDefinedClass ctx (Some (show_expression (joined_with Expression.AND e es))) nsp)) \<and>
    FnCallOr matches now ctx nsp (map (Scalar \<circ> show_expression) (e # es)) =
      Done (truth (IsDefinedClass ctx (Some (show_expression (joined_with Expression.OR e es))) nsp)) \<and>
    FnCallNot ctx nsp (show_expression e) = truth (IsDefinedClass ctx (Some (show_expression (Expression.NOT e))) nsp)"
proof -
  have wf: "wf_expression (joined_with Expression.AND e es)" "wf_expression (joined_with Expression.OR e es)" "wf_expression (Expression.NOT e)"
    using assms by (auto intro!: wf_joined)
  have defs: "IsDefinedClass ctx (Some (show_expression x)) nsp = holds ctx nsp x" if "x \<in> set (e # es)" for x
    using assms that by (intro IsDefinedClass_show) auto
  have "FnCallAnd matches now ctx nsp (map (Scalar \<circ> show_expression) (e # es)) =
      Done (truth (\<forall>x \<in> set (e # es). holds ctx nsp x))"
    unfolding FnCallAnd_def check_args_scalars and_then.simps and_loop_scalars using defs by simp
  moreover have "FnCallOr matches now ctx nsp (map (Scalar \<circ> show_expression) (e # es)) =
      Done (truth (\<exists>x \<in> set (e # es). holds ctx nsp x))"
    unfolding FnCallOr_def check_args_scalars and_then.simps or_loop_scalars using defs by simp
  moreover have "FnCallNot ctx nsp (show_expression e) = truth (\<not> holds ctx nsp e)"
    using defs [of e] by (simp add: FnCallNot_def)
  ultimately show ?thesis
    unfolding IsDefinedClass_show [OF wf(1)] IsDefinedClass_show [OF wf(2)] IsDefinedClass_show [OF wf(3)]
    using assms holds_joined_or [of e es ctx nsp] by (simp add: holds_joined_and holds_simps)
qed

lemma logic_functions_witness:
  "let e = Expression.OR (EVAL (LITERAL ''linux'')) (EVAL (LITERAL ''any'')); es = [EVAL (LITERAL ''web_server'')] in
   FnCallAnd (\<lambda>_ _. False) 0 EvalContextNew None (map (Scalar \<circ> show_expression) (e # es)) =
     Done (truth (IsDefinedClass EvalContextNew (Some (show_expression (joined_with Expression.AND e es))) None)) \<and>
   show_expression (joined_with Expression.AND e es) = ''(linux|any).web_server''"
  using logic_functions [of "Expression.OR (EVAL (LITERAL ''linux'')) (EVAL (LITERAL ''any''))" "[EVAL (LITERAL ''web_server'')]"
      "\<lambda>_ _. False" 0 EvalContextNew None]
  by (simp add: Let_def parens_def ValidTokenCharacter_def less_eq_char_def eval_nat_numeral)


section \<open>Values\<close>

text \<open>The text of a call that is not among the functions is refused, one that is known is then no scalar.\<close>

lemma and_of_calls:
  "FnCallAnd matches now ctx nsp [FnCall ''nothing'' []] = Exit1"
  "FnCallAnd matches now ctx nsp [ListVal []] = Exit1"
  "FnCallAnd matches now ctx nsp [FnCall ''concat'' []] = Fault"
  by (simp_all add: FnCallAnd_def CheckFnCallType_def FnCallTypeGet_def CF_FNCALL_TYPES_def bundle_attributes_def is_list_type_def
      checked_def)

text \<open>\<open>ifelse\<close> gives the text behind the first condition that holds, or the last one.\<close>

fun first_value :: "(string \<Rightarrow> bool) \<Rightarrow> (string \<times> string) list \<Rightarrow> string \<Rightarrow> string" where
  "first_value P [] d = d"
| "first_value P ((c, v) # cvs) d = (if P c then v else first_value P cvs d)"

definition pair_args :: "(string \<times> string) list \<Rightarrow> string \<Rightarrow> string list" where
  "pair_args cvs d = concat (map (\<lambda>(c, v). [c, v]) cvs) @ [d]"

lemma length_pair_args: "length (pair_args cvs d) = 2 * length cvs + 1"
  by (induction cvs) (auto simp: pair_args_def)

lemma ifelse_loop_pairs:
  "ifelse_loop ctx nsp (map Scalar (pair_args cvs d)) =
     Done (FNCALL_SUCCESS (Scalar (first_value (\<lambda>c. IsDefinedClass ctx (Some c) nsp) cvs d)))"
proof (induction cvs)
  case (Cons cv cvs)
  obtain c v where cv: "cv = (c, v)"
    by (cases cv)
  obtain x xs where x: "pair_args cvs d = x # xs"
    by (cases "pair_args cvs d") (auto simp: pair_args_def)
  have "pair_args (cv # cvs) d = c # v # pair_args cvs d"
    by (simp add: pair_args_def cv)
  with Cons.IH show ?case
    by (simp add: cv checked_def x)
qed (simp add: pair_args_def checked_def)

lemma ifelse_function:
  "FnCallIfElse matches now ctx nsp (map Scalar (pair_args cvs d)) =
     Done (FNCALL_SUCCESS (Scalar (first_value (\<lambda>c. IsDefinedClass ctx (Some c) nsp) cvs d)))"
  using check_args_scalars [of matches now _ id "pair_args cvs d"]
  by (simp add: FnCallIfElse_def length_pair_args ifelse_loop_pairs o_def)

lemma ifelse_even_number: "FnCallIfElse matches now ctx nsp (map Scalar [s, t]) = Exit1"
  using check_args_scalars [of matches now _ id "[s, t]"] by (simp add: FnCallIfElse_def o_def)

text \<open>\<open>concat\<close> joins its arguments, unless they are longer than the buffer.\<close>

lemma concat_loop_scalars:
  "length res < CF_BUFSIZE \<Longrightarrow>
   concat_loop res (map Scalar ss) =
     Done (if length res + length (concat ss) < CF_BUFSIZE then FNCALL_SUCCESS (Scalar (res @ concat ss)) else FNCALL_FAILURE)"
proof (induction ss arbitrary: res)
  case (Cons s ss)
  show ?case
  proof (cases "length res + length s < CF_BUFSIZE")
    case True
    then have "strlcat res s CF_BUFSIZE = res @ s"
      by (simp add: strlcat_def)
    then show ?thesis
      using Cons.IH [of "res @ s"] True by (simp add: checked_def algebra_simps)
  qed (simp add: checked_def)
qed simp

lemma concat_function:
  "FnCallConcat matches now (map Scalar ss) =
     Done (if length (concat ss) < CF_BUFSIZE then FNCALL_SUCCESS (Scalar (concat ss)) else FNCALL_FAILURE)"
  using check_args_scalars [of matches now _ id ss] concat_loop_scalars [of "[]" ss]
  by (simp add: FnCallConcat_def o_def CF_BUFSIZE_def)

text \<open>A splay class is one of the twelve of an hour, with one of the hours of a day.\<close>

lemma OatHash_below: "OatHash key (of_nat CF_HASHTABLESIZE) < CF_HASHTABLESIZE"
proof -
  have "OatHash key (of_nat CF_HASHTABLESIZE) \<le> unat (8191 :: 32 word)"
    unfolding OatHash_def CF_HASHTABLESIZE_def by (rule word_le_nat_alt [THEN iffD1]) (simp add: word_and_le1)
  then show ?thesis
    by (simp add: CF_HASHTABLESIZE_def)
qed

lemma splay_class_on_grid:
  "\<exists>slot hour. slot < 12 \<and> hour < 24 \<and>
     splay_class arg hourly = splay_minutes slot @ (if hourly then [] else ''.Hr'' @ two_digits hour)"
proof (cases hourly)
  case True
  have "OatHash arg (of_nat CF_HASHTABLESIZE) * 12 div CF_HASHTABLESIZE < 12"
    using OatHash_below [of arg] by (simp add: less_mult_imp_div_less CF_HASHTABLESIZE_def)
  with True show ?thesis
    by (intro exI [of _ "OatHash arg (of_nat CF_HASHTABLESIZE) * 12 div CF_HASHTABLESIZE"] exI [of _ 0])
      (simp add: splay_class_def Let_def)
next
  case False
  let ?d = "OatHash arg (of_nat CF_HASHTABLESIZE) * 12 * 24 div CF_HASHTABLESIZE"
  have "?d < 24 * 12"
    using OatHash_below [of arg] by (simp add: less_mult_imp_div_less CF_HASHTABLESIZE_def)
  then have "?d div 12 < 24" "?d mod 12 < 12"
    by (simp_all add: less_mult_imp_div_less)
  with False show ?thesis
    by (intro exI [of _ "?d mod 12"] exI [of _ "?d div 12"]) (simp add: splay_class_def Let_def)
qed

text \<open>A random number lies between the bounds, and is the upper one only when they are equal.\<close>

lemma random_int_between:
  assumes "0 \<le> r" "r < (1 :: rat)" and "lo \<le> hi" "hi - lo < 2 ^ 31"
    and "IntFromString now (Some s) = Some lo" "IntFromString now (Some t) = Some hi"
    and "int_of_long lo = lo" "int_of_long hi = hi" "lo \<noteq> CF_NOINT" "hi \<noteq> CF_NOINT"
  shows "\<exists>v. FnCallRandomInt now r s t = Some (FNCALL_SUCCESS (Scalar (show_int v))) \<and>
     lo \<le> v \<and> (if lo = hi then v = lo else v < hi)"
proof -
  have "0 \<le> r * of_int (hi - lo)"
    using assms by simp
  moreover have "r * of_int (hi - lo) < of_int (hi - lo)" if "lo \<noteq> hi"
    using mult_strict_right_mono [of r 1 "of_int (hi - lo)"] assms that by simp
  ultimately have "0 \<le> \<lfloor>r * of_int (hi - lo)\<rfloor>" "lo \<noteq> hi \<Longrightarrow> \<lfloor>r * of_int (hi - lo)\<rfloor> < hi - lo"
    by (simp_all add: floor_less_iff)
  with assms show ?thesis
    by (intro exI [of _ "lo + \<lfloor>r * of_int (hi - lo)\<rfloor>"]) (auto simp: FnCallRandomInt_def Let_def)
qed

text \<open>Both ends of a range of reals are the first argument.\<close>

lemma rrange_ignores_second: "FnCallRRange show_lf s t = FnCallRRange show_lf s u"
  by (simp add: FnCallRRange_def)

text \<open>Texts that do not both begin like numbers are compared as texts; equal ones are less.\<close>

lemma texts_compare:
  "\<not> (IsRealNumber s \<and> IsRealNumber t) \<Longrightarrow>
   FnCallIsLessGreaterThan ''isgreaterthan'' s t = Some (truth (strcmp s t > 0)) \<and>
   FnCallIsLessGreaterThan ''islessthan'' s t = Some (truth (strcmp s t \<le> 0))"
  by (auto simp: FnCallIsLessGreaterThan_def)

end
