(* ===== verification/Fn_Lists.thy ===== *)
theory Fn_Lists
  imports Fn_Logic Iteration Sequence
begin

text \<open>
  Built-in functions of \<open>libpromises/evalfunction.c\<close> on list variables and arrays. A list is named by its variable;
  its elements are scalars, and reading another value as one is \<open>None\<close>. Matching by regular expressions leaves the
  groups in the scope \<open>match\<close>, so that functions which match return the scopes too.
\<close>

lemma int_of_long_small: "- (2 ^ 31) \<le> i \<Longrightarrow> i < 2 ^ 31 \<Longrightarrow> int_of_long i = i"
  unfolding int_of_long_def by (subst sint_sbintrunc') (simp add: signed_take_bit_int_eq_self)

section \<open>List variables\<close>

text \<open>
  \<open>Some None\<close> is the result \<open>false\<close>. For a variable that is no list, the message shows the type of the variable, which
  is read through \<open>NULL\<close> when the caller does not ask for it (\<open>typed\<close>).
\<close>

definition GetListReferenceArgument ::
  "EvalContext \<Rightarrow> string \<Rightarrow> bool \<Rightarrow> Scopes \<Rightarrow> (Rval list \<times> DataType) option option"
where
  "GetListReferenceArgument ctx lval_str typed st =
     do {
       ref \<leftarrow> VarRefParse lval_str;
       (found, rv, dt) \<leftarrow> EvalContextVariableGet ctx ref typed st;
       (if \<not> found then Some None
        else case rv of ListVal l \<Rightarrow> Some (Some (l, dt)) | _ \<Rightarrow> if typed then Some None else None)
     }"

text \<open>The rest of a function that needs a list.\<close>

definition with_list ::
  "EvalContext \<Rightarrow> string \<Rightarrow> Scopes \<Rightarrow> (Rval list \<Rightarrow> FnCallResult option) \<Rightarrow> FnCallResult option"
where
  "with_list ctx nm st f =
     do {
       r \<leftarrow> GetListReferenceArgument ctx nm False st;
       (case r of None \<Rightarrow> Some FNCALL_FAILURE | Some (l, _) \<Rightarrow> f l)
     }"

definition scalars_of :: "Rval list \<Rightarrow> string list option" where
  "scalars_of l = those (map RvalScalarValue l)"

section \<open>Filters\<close>

text \<open>The loop returns \<open>match_count\<close>, \<open>total\<close> and the list; \<open>some\<close> and \<open>every\<close> leave it early.\<close>

fun filter_items ::
  "(string \<Rightarrow> pcre option) \<Rightarrow> bool \<Rightarrow> string \<Rightarrow> string \<Rightarrow> bool \<Rightarrow> bool \<Rightarrow> int \<Rightarrow> Rval list \<Rightarrow> int \<Rightarrow> int \<Rightarrow> Rval list \<Rightarrow>
   Scopes \<Rightarrow> (int \<times> int \<times> Rval list \<times> Scopes) option"
where
  "filter_items pcre_compile agent fname regex do_regex invert limit [] match_count tot returnlist st =
     Some (match_count, tot, returnlist, st)"
| "filter_items pcre_compile agent fname regex do_regex invert limit (rp # rps) match_count tot returnlist st =
     (if \<not> match_count < limit then Some (match_count, tot, returnlist, st)
      else do {
        s \<leftarrow> RvalScalarValue rp;
        (found, st1) \<leftarrow> (if do_regex then FullTextMatch pcre_compile agent regex s st else Some (strcmp regex s = 0, st));
        (if (if invert then \<not> found else found) then
           (let ret = RlistAppendScalar returnlist (Some s) in
            if strcmp fname ''some'' = 0 then Some (match_count + 1, tot, ret, st1)
            else filter_items pcre_compile agent fname regex do_regex invert limit rps (match_count + 1) (tot + 1) ret st1)
         else if strcmp fname ''every'' = 0 then Some (match_count, tot + 1, returnlist, st1)
         else filter_items pcre_compile agent fname regex do_regex invert limit rps match_count (tot + 1) returnlist st1)
      })"

definition FilterInternal ::
  "(string \<Rightarrow> pcre option) \<Rightarrow> bool \<Rightarrow> EvalContext \<Rightarrow> string \<Rightarrow> string \<Rightarrow> string \<Rightarrow> bool \<Rightarrow> bool \<Rightarrow> int \<Rightarrow> Scopes \<Rightarrow>
   (FnCallResult \<times> Scopes) option"
where
  "FilterInternal pcre_compile agent ctx fname regex nm do_regex invert limit st =
     do {
       r \<leftarrow> GetListReferenceArgument ctx nm False st;
       (case r of
          None \<Rightarrow> Some (FNCALL_FAILURE, st)
        | Some (l, _) \<Rightarrow> do {
            (match_count, tot, returnlist, st1) \<leftarrow>
              filter_items pcre_compile agent fname regex do_regex invert limit l 0 0 (RlistAppendScalar [] (Some CF_NULL_VALUE)) st;
            (if strcmp fname ''every'' = 0 then Some (truth (match_count = tot), st1)
             else if strcmp fname ''none'' = 0 then Some (truth (match_count = 0), st1)
             else if strcmp fname ''some'' = 0 then Some (truth (match_count > 0), st1)
             else if strcmp fname ''grep'' \<noteq> 0 \<and> strcmp fname ''filter'' \<noteq> 0 then None
             else Some (FNCALL_SUCCESS (ListVal returnlist), st1))
          })
     }"

definition FnCallGrep ::
  "(string \<Rightarrow> pcre option) \<Rightarrow> bool \<Rightarrow> EvalContext \<Rightarrow> string \<Rightarrow> string \<Rightarrow> Scopes \<Rightarrow> (FnCallResult \<times> Scopes) option"
where
  "FnCallGrep pcre_compile agent ctx regex nm st =
     FilterInternal pcre_compile agent ctx ''grep'' regex nm True False 99999999999 st"

definition FnCallEverySomeNone ::
  "(string \<Rightarrow> pcre option) \<Rightarrow> bool \<Rightarrow> EvalContext \<Rightarrow> string \<Rightarrow> string \<Rightarrow> string \<Rightarrow> Scopes \<Rightarrow> (FnCallResult \<times> Scopes) option"
where
  "FnCallEverySomeNone pcre_compile agent ctx fname regex nm st =
     FilterInternal pcre_compile agent ctx fname regex nm True False 99999999999 st"

text \<open>\<open>h\<close> is the heap of items in which \<open>BooleanFromString\<close> splits its menu.\<close>

definition FnCallFilter ::
  "(string \<Rightarrow> pcre option) \<Rightarrow> bool \<Rightarrow> ItemHeap \<Rightarrow> int \<Rightarrow> EvalContext \<Rightarrow> string \<Rightarrow> string \<Rightarrow> string \<Rightarrow> string \<Rightarrow> string \<Rightarrow> Scopes \<Rightarrow>
   (FnCallResult \<times> Scopes) option"
where
  "FnCallFilter pcre_compile agent h now ctx regex nm arg3 arg4 arg5 st =
     do {
       do_regex \<leftarrow> BooleanFromString h arg3;
       invert \<leftarrow> BooleanFromString h arg4;
       limit \<leftarrow> IntFromString now (Some arg5);
       FilterInternal pcre_compile agent ctx ''filter'' regex nm do_regex invert limit st
     }"

section \<open>Parts of lists\<close>

definition FnCallSublist :: "int \<Rightarrow> EvalContext \<Rightarrow> string \<Rightarrow> string \<Rightarrow> string \<Rightarrow> Scopes \<Rightarrow> FnCallResult option" where
  "FnCallSublist now ctx nm arg2 arg3 st =
     do {
       limit \<leftarrow> IntFromString now (Some arg3);
       with_list ctx nm st (\<lambda>l.
         let part = (if strcmp arg2 ''head'' = 0 then take (nat limit) l
                     else if limit > 0 then drop (if limit \<ge> int (length l) then 0 else length l - nat limit) l
                     else [])
         in do {
           ss \<leftarrow> scalars_of part;
           Some (FNCALL_SUCCESS (ListVal (foldl (\<lambda>ret s. RlistAppendScalar ret (Some s))
             (RlistAppendScalar [] (Some CF_NULL_VALUE)) ss)))
         })
     }"

text \<open>Difference and intersection; the second list goes into a set.\<close>

definition setop_set :: "string list \<Rightarrow> StringSet" where
  "setop_set ss = foldl StringSetAdd SetNew ss"

fun setop_loop :: "bool \<Rightarrow> StringSet \<Rightarrow> string list \<Rightarrow> Rval list \<Rightarrow> Rval list" where
  "setop_loop difference set_b [] returnlist = returnlist"
| "setop_loop difference set_b (s # ss) returnlist =
     setop_loop difference set_b ss
       (if strcmp s CF_NULL_VALUE = 0 then returnlist
        else if difference \<and> StringSetContains set_b s then returnlist
        else if \<not> difference \<and> \<not> StringSetContains set_b s then returnlist
        else snd (RlistAppendScalarIdemp returnlist s))"

definition FnCallSetop :: "EvalContext \<Rightarrow> string \<Rightarrow> string \<Rightarrow> string \<Rightarrow> Scopes \<Rightarrow> FnCallResult option" where
  "FnCallSetop ctx fname name_a name_b st =
     with_list ctx name_a st (\<lambda>rval_a. with_list ctx name_b st (\<lambda>rval_b. do {
       bs \<leftarrow> scalars_of rval_b;
       as \<leftarrow> scalars_of rval_a;
       Some (FNCALL_SUCCESS (ListVal (setop_loop (strcmp fname ''difference'' = 0) (setop_set bs) as
         (RlistAppendScalar [] (Some CF_NULL_VALUE)))))
     }))"

definition FnCallLength :: "EvalContext \<Rightarrow> string \<Rightarrow> Scopes \<Rightarrow> FnCallResult option" where
  "FnCallLength ctx nm st =
     with_list ctx nm st (\<lambda>l. do {
       ss \<leftarrow> scalars_of l;
       Some (FNCALL_SUCCESS (Scalar (show_nat
         (if length ss = 1 \<and> CF_NULL_VALUE \<in> set ss then 0 else length ss))))
     })"

definition FnCallUnique :: "EvalContext \<Rightarrow> string \<Rightarrow> Scopes \<Rightarrow> FnCallResult option" where
  "FnCallUnique ctx nm st =
     with_list ctx nm st (\<lambda>l. do {
       ss \<leftarrow> scalars_of l;
       Some (FNCALL_SUCCESS (ListVal (foldl (\<lambda>ret s. snd (RlistAppendScalarIdemp ret s))
         (RlistAppendScalar [] (Some CF_NULL_VALUE)) ss)))
     })"

text \<open>An index below zero does not become zero before the list ends.\<close>

definition FnCallNth :: "int \<Rightarrow> EvalContext \<Rightarrow> string \<Rightarrow> string \<Rightarrow> Scopes \<Rightarrow> FnCallResult option" where
  "FnCallNth now ctx nm arg2 st =
     do {
       offset \<leftarrow> IntFromString now (Some arg2);
       with_list ctx nm st (\<lambda>l.
         if 0 \<le> offset \<and> nat offset < length l
         then do { s \<leftarrow> RvalScalarValue (l ! nat offset); Some (FNCALL_SUCCESS (Scalar s)) }
         else Some FNCALL_FAILURE)
     }"

definition with_string_list ::
  "EvalContext \<Rightarrow> string \<Rightarrow> Scopes \<Rightarrow> (Rval list \<Rightarrow> FnCallResult option) \<Rightarrow> FnCallResult option"
where
  "with_string_list ctx nm st f =
     do {
       r \<leftarrow> GetListReferenceArgument ctx nm True st;
       (case r of
          None \<Rightarrow> Some FNCALL_FAILURE
        | Some (l, dt) \<Rightarrow> if dt \<noteq> DATA_TYPE_STRING_LIST then Some FNCALL_FAILURE else f l)
     }"

definition FnCallReverse :: "EvalContext \<Rightarrow> string \<Rightarrow> Scopes \<Rightarrow> FnCallResult option" where
  "FnCallReverse ctx nm st =
     with_string_list ctx nm st (\<lambda>l. Some (FNCALL_SUCCESS (ListVal (RlistReverse (RlistCopy l)))))"

text \<open>\<open>rand\<close> gives the numbers that \<open>srand\<close> and \<open>rand\<close> give for a seed; \<open>RAND_MAX\<close> is that of glibc.\<close>

definition RAND_MAX :: "32 word" where
  "RAND_MAX = 2147483647"

definition FnCallShuffle :: "(nat \<Rightarrow> nat \<Rightarrow> nat) \<Rightarrow> EvalContext \<Rightarrow> string \<Rightarrow> string \<Rightarrow> Scopes \<Rightarrow> FnCallResult option" where
  "FnCallShuffle rand ctx nm seed_str st =
     with_string_list ctx nm st (\<lambda>l. do {
       ss \<leftarrow> scalars_of l;
       sq \<leftarrow> append_all (SeqNew 1000 False) ss;
       shuffled \<leftarrow> SeqShuffle (rand (OatHash seed_str RAND_MAX)) sq;
       Some (FNCALL_SUCCESS (ListVal (foldl (\<lambda>ret s. RlistPrependScalar ret (Some s)) [] (items shuffled))))
     })"

text \<open>A separator stands behind every element but the last of the list, even if the last one is left out.\<close>

fun join_loop :: "string \<Rightarrow> string list \<Rightarrow> string" where
  "join_loop sep [] = []"
| "join_loop sep (s # ss) =
     (if strcmp s CF_NULL_VALUE = 0 then join_loop sep ss
      else s @ (if ss \<noteq> [] then sep else []) @ join_loop sep ss)"

definition FnCallJoin :: "EvalContext \<Rightarrow> string \<Rightarrow> string \<Rightarrow> Scopes \<Rightarrow> FnCallResult option" where
  "FnCallJoin ctx join nm st =
     do {
       ref \<leftarrow> VarRefParse nm;
       (found, rv, _) \<leftarrow> EvalContextVariableGet ctx ref False st;
       (if \<not> found then Some FNCALL_FAILURE
        else case rv of
            ListVal l \<Rightarrow> do { ss \<leftarrow> scalars_of l; Some (FNCALL_SUCCESS (Scalar (join_loop join ss))) }
          | _ \<Rightarrow> Some FNCALL_FAILURE)
     }"

definition FnCallIsVariable :: "EvalContext \<Rightarrow> string \<Rightarrow> Scopes \<Rightarrow> FnCallResult option" where
  "FnCallIsVariable ctx nm st =
     do {
       ref \<leftarrow> VarRefParse nm;
       (found, _, _) \<leftarrow> EvalContextVariableGet ctx ref False st;
       Some (truth found)
     }"

definition FnCallSplitString ::
  "(string \<Rightarrow> string \<Rightarrow> (nat \<times> nat) option) \<Rightarrow> int \<Rightarrow> string \<Rightarrow> string \<Rightarrow> string \<Rightarrow> FnCallResult option"
where
  "FnCallSplitString find_match now str split arg3 =
     do {
       limit \<leftarrow> IntFromString now (Some arg3);
       newlist \<leftarrow> RlistFromSplitRegex (find_match split) (Some str) (int_of_long limit) True;
       Some (FNCALL_SUCCESS (ListVal (if newlist = [] then RlistPrependScalar newlist (Some CF_NULL_VALUE) else newlist)))
     }"

text \<open>\<open>reglist\<close>: whether an element matches.\<close>

fun reglist_loop ::
  "(string \<Rightarrow> pcre option) \<Rightarrow> bool \<Rightarrow> string \<Rightarrow> Rval list \<Rightarrow> Scopes \<Rightarrow> (bool \<times> Scopes) option"
where
  "reglist_loop pcre_compile agent regex [] st = Some (False, st)"
| "reglist_loop pcre_compile agent regex (rp # rps) st =
     do {
       s \<leftarrow> RvalScalarValue rp;
       (if strcmp s CF_NULL_VALUE = 0 then reglist_loop pcre_compile agent regex rps st
        else do {
          (b, st1) \<leftarrow> FullTextMatch pcre_compile agent regex s st;
          (if b then Some (True, st1) else reglist_loop pcre_compile agent regex rps st1)
        })
     }"

definition FnCallRegList ::
  "(string \<Rightarrow> pcre option) \<Rightarrow> bool \<Rightarrow> EvalContext \<Rightarrow> string \<Rightarrow> string \<Rightarrow> Scopes \<Rightarrow> (FnCallResult \<times> Scopes) option"
where
  "FnCallRegList pcre_compile agent ctx listvar regex st =
     (if \<not> IsVarList listvar then Some (FNCALL_FAILURE, st)
      else do {
        naked \<leftarrow> GetNaked listvar;
        ref \<leftarrow> VarRefParse naked;
        (found, rv, _) \<leftarrow> EvalContextVariableGet ctx ref False st;
        (if \<not> found then Some (FNCALL_FAILURE, st)
         else case rv of
             ListVal l \<Rightarrow> do { (b, st1) \<leftarrow> reglist_loop pcre_compile agent regex l st; Some (truth b, st1) }
           | _ \<Rightarrow> Some (FNCALL_FAILURE, st))
      })"

section \<open>What is kept\<close>

lemma scalars_of_map [simp]: "scalars_of (map Scalar ss) = Some ss"
  by (induction ss) (auto simp: scalars_of_def)

lemma key_in_scalars [simp]: "RlistKeyIn (map Scalar ss) s = None \<longleftrightarrow> s \<notin> set ss"
  by (auto simp: RlistKeyIn_def find_index_None)

lemma append_scalar [simp]: "RlistAppendScalar l (Some s) = l @ [Scalar s]"
  by (simp add: RlistAppendScalar_def RlistAppendRval_def RvalCopyScalar_def)

lemma append_idemp:
  "snd (RlistAppendScalarIdemp (map Scalar ss) s) = map Scalar (if s \<in> set ss then ss else ss @ [s])"
  by (simp add: RlistAppendScalarIdemp_def)

text \<open>The first occurrences, which \<open>RlistAppendScalarIdemp\<close> keeps.\<close>

definition firsts :: "'a list \<Rightarrow> 'a list" where
  "firsts xs = rev (remdups (rev xs))"

lemma firsts_facts: "set (firsts xs) = set xs" "distinct (firsts xs)"
  by (simp_all add: firsts_def)

lemma firsts_snoc: "firsts (xs @ [x]) = (if x \<in> set xs then firsts xs else firsts xs @ [x])"
  by (simp add: firsts_def)

lemma append_all_idemp:
  "foldl (\<lambda>ret s. snd (RlistAppendScalarIdemp ret s)) (map Scalar (firsts xs)) ss = map Scalar (firsts (xs @ ss))"
proof (induction ss arbitrary: xs)
  case (Cons s ss)
  have "snd (RlistAppendScalarIdemp (map Scalar (firsts xs)) s) = map Scalar (firsts (xs @ [s]))"
    by (simp only: append_idemp firsts_facts firsts_snoc)
  with Cons.IH [of "xs @ [s]"] show ?case
    by simp
qed simp

lemma append_behind:
  "foldl (\<lambda>ret s. snd (RlistAppendScalarIdemp ret s)) [Scalar c] ss = map Scalar (firsts (c # ss))"
  using append_all_idemp [of "[c]" ss] by (simp add: firsts_def)

lemma setop_set_contains: "StringSetContains (setop_set ss) s \<longleftrightarrow> s \<in> set ss"
  by (simp add: setop_set_def str_set.contains_adds str_set.invar_new str_set.contains_new)

lemma setop_loop_fold:
  "setop_loop d (setop_set bs) ss res =
     foldl (\<lambda>ret s. snd (RlistAppendScalarIdemp ret s)) res (filter (\<lambda>s. s \<noteq> CF_NULL_VALUE \<and> (s \<in> set bs) = (\<not> d)) ss)"
  by (induction d "setop_set bs" ss res rule: setop_loop.induct) (auto simp: setop_set_contains)

text \<open>A function on a list whose variable is known.\<close>

definition list_variable :: "EvalContext \<Rightarrow> Scopes \<Rightarrow> string \<Rightarrow> string list \<Rightarrow> bool" where
  "list_variable ctx st nm ss \<longleftrightarrow>
     (\<exists>ref. VarRefParse nm = Some ref \<and>
        (\<forall>typed. EvalContextVariableGet ctx ref typed st = Some (True, ListVal (map Scalar ss), DATA_TYPE_STRING_LIST)))"

lemma lists_argument:
  "list_variable ctx st nm ss \<Longrightarrow> GetListReferenceArgument ctx nm typed st = Some (Some (map Scalar ss, DATA_TYPE_STRING_LIST))"
  by (auto simp: list_variable_def GetListReferenceArgument_def)

lemma with_list_known: "list_variable ctx st nm ss \<Longrightarrow> with_list ctx nm st f = f (map Scalar ss)"
  by (simp add: with_list_def lists_argument)

text \<open>
  C12. The operations on lists as sets: \<open>difference\<close> and \<open>intersection\<close> give the elements of the first list, in its
  order and each of them once, that are not in the second list or that are, and \<open>unique\<close> those of its list. The blank
  \<open>cf_null\<close> stands before the elements, and is no element itself.
\<close>

theorem set_functions:
  assumes "list_variable ctx st a as" and "list_variable ctx st b bs"
  shows "FnCallSetop ctx ''difference'' a b st =
      Some (FNCALL_SUCCESS (ListVal (map Scalar (firsts (''cf_null'' # filter (\<lambda>s. s \<noteq> ''cf_null'' \<and> s \<notin> set bs) as))))) \<and>
    FnCallSetop ctx ''intersection'' a b st =
      Some (FNCALL_SUCCESS (ListVal (map Scalar (firsts (''cf_null'' # filter (\<lambda>s. s \<noteq> ''cf_null'' \<and> s \<in> set bs) as))))) \<and>
    FnCallUnique ctx a st = Some (FNCALL_SUCCESS (ListVal (map Scalar (firsts (''cf_null'' # as)))))"
  unfolding FnCallSetop_def FnCallUnique_def with_list_known [OF assms(1)] with_list_known [OF assms(2)]
  by (simp add: setop_loop_fold append_behind CF_NULL_VALUE_def)

section \<open>What filters answer\<close>

definition hit :: "(string \<Rightarrow> pcre option) \<Rightarrow> string \<Rightarrow> bool \<Rightarrow> string \<Rightarrow> bool" where
  "hit pcre_compile regex do_regex s \<longleftrightarrow> (if do_regex then full_match pcre_compile regex s else regex = s)"

lemma match_step:
  assumes "pcre_ok pcre_compile" "match_table st \<noteq> None"
  obtains st1 where "(if do_regex then FullTextMatch pcre_compile agent regex s st else Some (strcmp regex s = 0, st)) =
      Some (hit pcre_compile regex do_regex s, st1)" "match_table st1 \<noteq> None"
  using full_text_match [OF assms, of agent regex s] assms(2) that by (cases do_regex) (auto simp: hit_def)

lemma filter_keeps:
  assumes "pcre_ok pcre_compile" "fname \<noteq> ''some''" "fname \<noteq> ''every''"
  shows "match_table st \<noteq> None \<Longrightarrow>
    \<exists>tot' st'. filter_items pcre_compile agent fname regex do_regex invert limit (map Scalar ss) mc tot res st =
      (let kept = take (nat (limit - mc)) (filter (\<lambda>s. hit pcre_compile regex do_regex s \<noteq> invert) ss)
       in Some (mc + int (length kept), tot', res @ map Scalar kept, st'))"
proof (induction ss arbitrary: mc tot res st)
  case (Cons s ss)
  obtain st1 where st1: "(if do_regex then FullTextMatch pcre_compile agent regex s st else Some (strcmp regex s = 0, st)) =
      Some (hit pcre_compile regex do_regex s, st1)" "match_table st1 \<noteq> None"
    by (rule match_step [OF assms(1) Cons.prems])
  show ?case
  proof (cases "mc < limit")
    case True
    then have n: "nat (limit - mc) = Suc (nat (limit - (mc + 1)))"
      by simp
    from True assms st1(1) Cons.IH [OF st1(2), of "mc + 1" "tot + 1" "res @ [Scalar s]"] Cons.IH [OF st1(2), of mc "tot + 1" res]
    show ?thesis
      by (cases "hit pcre_compile regex do_regex s"; cases invert) (auto simp: n Let_def)
  qed (simp add: Let_def)
qed (simp add: Let_def)

lemma filter_every:
  assumes "pcre_ok pcre_compile"
  shows "match_table st \<noteq> None \<Longrightarrow> mc + int (length ss) < limit \<Longrightarrow>
    \<exists>mc' tot' l st'. filter_items pcre_compile agent ''every'' regex do_regex invert limit (map Scalar ss) mc mc res st =
      Some (mc', tot', l, st') \<and> (mc' = tot' \<longleftrightarrow> (\<forall>s \<in> set ss. hit pcre_compile regex do_regex s \<noteq> invert))"
proof (induction ss arbitrary: mc res st)
  case (Cons s ss)
  obtain st1 where st1: "(if do_regex then FullTextMatch pcre_compile agent regex s st else Some (strcmp regex s = 0, st)) =
      Some (hit pcre_compile regex do_regex s, st1)" "match_table st1 \<noteq> None"
    by (rule match_step [OF assms(1) Cons.prems(1)])
  from st1(1) Cons.prems(2) Cons.IH [OF st1(2), of "mc + 1" "res @ [Scalar s]"] show ?case
    by (cases "hit pcre_compile regex do_regex s"; cases invert) (auto simp: Let_def algebra_simps)
qed simp

lemma filter_some:
  assumes "pcre_ok pcre_compile"
  shows "match_table st \<noteq> None \<Longrightarrow> mc < limit \<Longrightarrow>
    \<exists>mc' tot' l st'. filter_items pcre_compile agent ''some'' regex do_regex invert limit (map Scalar ss) mc tot res st =
      Some (mc', tot', l, st') \<and> mc' = (if \<exists>s \<in> set ss. hit pcre_compile regex do_regex s \<noteq> invert then mc + 1 else mc)"
proof (induction ss arbitrary: tot res st)
  case (Cons s ss)
  obtain st1 where st1: "(if do_regex then FullTextMatch pcre_compile agent regex s st else Some (strcmp regex s = 0, st)) =
      Some (hit pcre_compile regex do_regex s, st1)" "match_table st1 \<noteq> None"
    by (rule match_step [OF assms(1) Cons.prems(1)])
  from st1(1) Cons.prems(2) Cons.IH [OF st1(2), of "tot + 1" res] show ?case
    by (cases "hit pcre_compile regex do_regex s"; cases invert) (auto simp: Let_def)
qed simp


text \<open>Two lists in the scope of a bundle, for the examples.\<close>

definition example_lists :: Scopes where
  "example_lists =
     \<lparr>VSCOPE = [0], scope_at = [0 \<mapsto> \<lparr>sc_ns = ''default'', sc_scope = ''b'', sc_table = Tiny
        [NewAssoc ''x'' (ListVal (map Scalar [''one'', ''two'', ''one'', ''three''])) DATA_TYPE_STRING_LIST,
         NewAssoc ''y'' (ListVal (map Scalar [''cf_null'', ''two''])) DATA_TYPE_STRING_LIST]\<rparr>],
      SCOPE_MATCH = None, CF_STCK = [], scope_brk = 1, stale = []\<rparr>"

lemma example_lists_facts:
  "list_variable EvalContextNew example_lists ''b.x'' [''one'', ''two'', ''one'', ''three'']"
  "list_variable EvalContextNew example_lists ''b.y'' [''cf_null'', ''two'']"
proof -
  have refs: "VarRefParse ''b.x'' = Some \<lparr>VarRef.ns = None, scope = Some ''b'', vlval = ''x'', indices = []\<rparr>"
    "VarRefParse ''b.y'' = Some \<lparr>VarRef.ns = None, scope = Some ''b'', vlval = ''y'', indices = []\<rparr>"
    by code_simp+
  have plain: "\<not> IsQualifiedVariable ''x''" "\<not> IsQualifiedVariable ''y''" "ns_or_default None = ''default''"
    "VarRefToString \<lparr>VarRef.ns = None, scope = Some ''b'', vlval = ''x'', indices = []\<rparr> False = ''x''"
    "VarRefToString \<lparr>VarRef.ns = None, scope = Some ''b'', vlval = ''y'', indices = []\<rparr> False = ''y''"
    by code_simp+
  have get: "EvalContextVariableGet EvalContextNew \<lparr>VarRef.ns = None, scope = Some ''b'', vlval = ''x'', indices = []\<rparr> typed example_lists =
      Some (True, ListVal (map Scalar [''one'', ''two'', ''one'', ''three'']), DATA_TYPE_STRING_LIST)"
    "EvalContextVariableGet EvalContextNew \<lparr>VarRef.ns = None, scope = Some ''b'', vlval = ''y'', indices = []\<rparr> typed example_lists =
      Some (True, ListVal (map Scalar [''cf_null'', ''two'']), DATA_TYPE_STRING_LIST)" for typed
    by (simp_all add: EvalContextVariableGet_def lookup_scope_def VarRefIsQualified_def ScopeGet_def example_lists_def plain
        HashLookupElement_def TinyHashLookupElement_def NewAssoc_def)
  show "list_variable EvalContextNew example_lists ''b.x'' [''one'', ''two'', ''one'', ''three'']"
    "list_variable EvalContextNew example_lists ''b.y'' [''cf_null'', ''two'']"
    unfolding list_variable_def using refs get by blast+
qed

lemma set_functions_witness:
  "FnCallSetop EvalContextNew ''difference'' ''b.x'' ''b.y'' example_lists =
     Some (FNCALL_SUCCESS (ListVal (map Scalar [''cf_null'', ''one'', ''three''])))"
  using set_functions [OF example_lists_facts] by (simp add: firsts_def)


section \<open>Further functions\<close>

text \<open>The list that a filter gives begins with the blank, which \<open>length\<close> counts when elements follow.\<close>

lemma length_function:
  assumes "list_variable ctx st nm ss"
  shows "FnCallLength ctx nm st = Some (FNCALL_SUCCESS (Scalar (show_nat (if ss = [''cf_null''] then 0 else length ss))))"
  unfolding FnCallLength_def with_list_known [OF assms] scalars_of_map
  by (cases ss; cases "tl ss") (auto simp: CF_NULL_VALUE_def)

text \<open>A variable that is no list ends the program, where a type is not asked for.\<close>

lemma length_of_scalar_crashes:
  assumes "VarRefParse nm = Some ref" "EvalContextVariableGet ctx ref False st = Some (True, Scalar s, dt)"
  shows "FnCallLength ctx nm st = None"
  using assms by (simp add: FnCallLength_def with_list_def GetListReferenceArgument_def)

lemma sublist_function:
  assumes "list_variable ctx st nm ss" "IntFromString now (Some t) = Some n" "0 \<le> n"
  shows "FnCallSublist now ctx nm ''head'' t st =
      Some (FNCALL_SUCCESS (ListVal (map Scalar (''cf_null'' # take (nat n) ss)))) \<and>
    FnCallSublist now ctx nm ''tail'' t st =
      Some (FNCALL_SUCCESS (ListVal (map Scalar (''cf_null'' # drop (length ss - nat n) ss))))"
proof -
  have fold: "foldl (\<lambda>ret s. ret @ [Scalar s]) l xs = l @ map Scalar xs" for l xs
    by (induction xs arbitrary: l) auto
  have "scalars_of (take m (map Scalar ss)) = Some (take m ss)" "scalars_of (drop m (map Scalar ss)) = Some (drop m ss)" for m
    by (simp_all only: take_map drop_map scalars_of_map)
  moreover have "scalars_of [] = Some []"
    by (simp add: scalars_of_def)
  ultimately show ?thesis
    using assms by (auto simp: FnCallSublist_def with_list_known fold CF_NULL_VALUE_def not_le)
qed

lemma nth_function:
  assumes "list_variable ctx st nm ss" "IntFromString now (Some t) = Some n"
  shows "FnCallNth now ctx nm t st =
    Some (if 0 \<le> n \<and> nat n < length ss then FNCALL_SUCCESS (Scalar (ss ! nat n)) else FNCALL_FAILURE)"
  using assms by (simp add: FnCallNth_def with_list_known)

lemma reverse_loop_rev: "reverse_loop l acc = rev l @ acc"
  by (induction l arbitrary: acc) auto

lemma reverse_function:
  assumes "list_variable ctx st nm ss"
  shows "FnCallReverse ctx nm st = Some (FNCALL_SUCCESS (ListVal (map Scalar (rev ss))))"
proof -
  have "concat (map flat (map Scalar ss)) = map Scalar ss"
    by (induction ss) auto
  with assms show ?thesis
    by (simp add: FnCallReverse_def with_string_list_def lists_argument RlistReverse_def reverse_loop_rev RlistCopy_flat rev_map)
qed

text \<open>The elements without blanks, with the separator between them; a blank at the end leaves a separator behind.\<close>

lemma join_loop_plain:
  "\<forall>s \<in> set ss. s \<noteq> ''cf_null'' \<Longrightarrow> join_loop sep ss = join_with sep ss"
  by (induction ss rule: induct_list012) (auto simp: CF_NULL_VALUE_def)

lemma join_leaves_separator: "join_loop '','' [''a'', ''cf_null''] = ''a,''"
  by (simp add: CF_NULL_VALUE_def)

end
