(* ===== verification/Fn_Files.thy ===== *)
theory Fn_Files
  imports Fn_Lists "HOL-Library.Signed_Division"
begin

text \<open>
  Built-in functions of \<open>libpromises/evalfunction.c\<close> that read text: lines of files that match, lists, arrays made of
  the lines of a text, and groups of peers. \<open>files\<close> gives the content of the files that can be read, without \<open>NUL\<close>.
\<close>

section \<open>Reading\<close>

text \<open>A limit below zero makes the size of the buffer overflow.\<close>

definition CfReadFile :: "(string \<Rightarrow> string option) \<Rightarrow> string \<Rightarrow> int \<Rightarrow> string option option" where
  "CfReadFile files filename maxsize =
     (case files filename of
        None \<Rightarrow> Some None
      | Some raw \<Rightarrow>
          if maxsize < 0 then None
          else
            (let res = take (nat maxsize) raw in
             if res \<noteq> [] \<and> (\<forall>c \<in> set (butlast res). c \<noteq> CHR 0x0A \<and> c \<noteq> CHR 0x0D) \<and> (last res = CHR 0x0A \<or> last res = CHR 0x0D)
             then Some (Some (butlast res)) else Some (Some res)))"

definition FnCallReadFile :: "(string \<Rightarrow> string option) \<Rightarrow> int \<Rightarrow> string \<Rightarrow> string \<Rightarrow> FnCallResult option" where
  "FnCallReadFile files now filename arg2 =
     do {
       maxsize \<leftarrow> IntFromString now (Some arg2);
       contents \<leftarrow> CfReadFile files filename (int_of_long maxsize);
       Some (case contents of Some c \<Rightarrow> FNCALL_SUCCESS (Scalar c) | None \<Rightarrow> FNCALL_FAILURE)
     }"

text \<open>The lines that \<open>fgets\<close> gives: up to a newline, and no longer than the buffer.\<close>

function fgets_lines :: "string \<Rightarrow> string list" where
  "fgets_lines s =
     (if s = [] then []
      else
        (let l = takeWhile (\<lambda>c. c \<noteq> CHR 0x0A) s;
             n = min (CF_BUFSIZE - 1) (length l + 1)
         in take n s # fgets_lines (drop n s)))"
  by pat_completeness auto
termination
  by (relation "measure length") (auto simp: CF_BUFSIZE_def)

declare fgets_lines.simps [simp del]

text \<open>Every line is chopped before it is matched.\<close>

fun regline_loop ::
  "(string \<Rightarrow> pcre option) \<Rightarrow> bool \<Rightarrow> string \<Rightarrow> string list \<Rightarrow> Scopes \<Rightarrow> (bool \<times> Scopes) option"
where
  "regline_loop pcre_compile agent regex [] st = Some (False, st)"
| "regline_loop pcre_compile agent regex (line # ls) st =
     do {
       (b, st1) \<leftarrow> FullTextMatch pcre_compile agent regex (Chop line) st;
       (if b then Some (True, st1) else regline_loop pcre_compile agent regex ls st1)
     }"

definition FnCallRegLine ::
  "(string \<Rightarrow> pcre option) \<Rightarrow> bool \<Rightarrow> (string \<Rightarrow> string option) \<Rightarrow> string \<Rightarrow> string \<Rightarrow> Scopes \<Rightarrow> (FnCallResult \<times> Scopes) option"
where
  "FnCallRegLine pcre_compile agent files argv0 argv1 st =
     (case files argv1 of
        None \<Rightarrow> Some (truth False, st)
      | Some raw \<Rightarrow> do {
          (b, st1) \<leftarrow> regline_loop pcre_compile agent argv0 (fgets_lines raw) st;
          Some (truth b, st1)
        })"

fun count_lines ::
  "(string \<Rightarrow> pcre option) \<Rightarrow> bool \<Rightarrow> string \<Rightarrow> string list \<Rightarrow> nat \<Rightarrow> Scopes \<Rightarrow> (nat \<times> Scopes) option"
where
  "count_lines pcre_compile agent regex [] lcount st = Some (lcount, st)"
| "count_lines pcre_compile agent regex (line # ls) lcount st =
     do {
       (b, st1) \<leftarrow> FullTextMatch pcre_compile agent regex (Chop line) st;
       count_lines pcre_compile agent regex ls (if b then lcount + 1 else lcount) st1
     }"

definition FnCallCountLinesMatching ::
  "(string \<Rightarrow> pcre option) \<Rightarrow> bool \<Rightarrow> (string \<Rightarrow> string option) \<Rightarrow> string \<Rightarrow> string \<Rightarrow> Scopes \<Rightarrow> (FnCallResult \<times> Scopes) option"
where
  "FnCallCountLinesMatching pcre_compile agent files regex filename st =
     (case files filename of
        None \<Rightarrow> Some (FNCALL_SUCCESS (Scalar ''0''), st)
      | Some raw \<Rightarrow> do {
          (n, st1) \<leftarrow> count_lines pcre_compile agent regex (fgets_lines raw) 0 st;
          Some (FNCALL_SUCCESS (Scalar (show_nat n)), st1)
        })"

text \<open>The elements of a list become the elements \<open>1\<close>, \<open>2\<close>, \<open>\<dots>\<close> of an array.\<close>

fun put_fields :: "EvalContext \<Rightarrow> Bundle \<Rightarrow> string \<Rightarrow> nat \<Rightarrow> Rval list \<Rightarrow> Scopes \<Rightarrow> Scopes option" where
  "put_fields ctx b array_lval vcount [] st = Some st"
| "put_fields ctx b array_lval vcount (rp # rps) st =
     do {
       s \<leftarrow> RvalScalarValue rp;
       ref \<leftarrow> bundle_ref (take (CF_MAXVARSIZE - 2) (array_lval @ ''['' @ show_nat vcount @ '']'')) b;
       (_, st1) \<leftarrow> EvalContextVariablePut ctx ref (Scalar s) DATA_TYPE_STRING st;
       put_fields ctx b array_lval (vcount + 1) rps st1
     }"

fun fields_loop ::
  "(string \<Rightarrow> pcre option) \<Rightarrow> bool \<Rightarrow> (string \<Rightarrow> string \<Rightarrow> (nat \<times> nat) option) \<Rightarrow> EvalContext \<Rightarrow> Bundle \<Rightarrow> string \<Rightarrow> string \<Rightarrow> string \<Rightarrow>
   string list \<Rightarrow> nat \<Rightarrow> Scopes \<Rightarrow> (nat \<times> Scopes) option"
where
  "fields_loop pcre_compile agent find_match ctx b regex split array_lval [] lcount st = Some (lcount, st)"
| "fields_loop pcre_compile agent find_match ctx b regex split array_lval (line # ls) lcount st =
     do {
       (m, st1) \<leftarrow> FullTextMatch pcre_compile agent regex (Chop line) st;
       (if \<not> m then fields_loop pcre_compile agent find_match ctx b regex split array_lval ls lcount st1
        else do {
          st2 \<leftarrow> (if lcount = 0 then do {
                     newlist \<leftarrow> RlistFromSplitRegex (find_match split) (Some (Chop line)) 31 True;
                     put_fields ctx b array_lval 1 newlist st1
                   } else Some st1);
          fields_loop pcre_compile agent find_match ctx b regex split array_lval ls (lcount + 1) st2
        })
     }"

definition FnCallGetFields ::
  "(string \<Rightarrow> pcre option) \<Rightarrow> bool \<Rightarrow> (string \<Rightarrow> string \<Rightarrow> (nat \<times> nat) option) \<Rightarrow> (string \<Rightarrow> string option) \<Rightarrow> EvalContext \<Rightarrow> Bundle \<Rightarrow>
   string \<Rightarrow> string \<Rightarrow> string \<Rightarrow> string \<Rightarrow> Scopes \<Rightarrow> (FnCallResult \<times> Scopes) option"
where
  "FnCallGetFields pcre_compile agent find_match files ctx b regex filename split array_lval st =
     (case files filename of
        None \<Rightarrow> Some (FNCALL_FAILURE, st)
      | Some raw \<Rightarrow> do {
          (n, st1) \<leftarrow> fields_loop pcre_compile agent find_match ctx b regex split array_lval (fgets_lines raw) 0 st;
          Some (FNCALL_SUCCESS (Scalar (show_nat n)), st1)
        })"

text \<open>The entries of a directory, in the order of \<open>DirRead\<close>; the last one stands first in the list.\<close>

fun lsdir_loop ::
  "(string \<Rightarrow> pcre option) \<Rightarrow> bool \<Rightarrow> string \<Rightarrow> string \<Rightarrow> bool \<Rightarrow> string list \<Rightarrow> Rval list \<Rightarrow> Scopes \<Rightarrow> (Rval list \<times> Scopes) option"
where
  "lsdir_loop pcre_compile agent dirname regex includepath [] newlist st = Some (newlist, st)"
| "lsdir_loop pcre_compile agent dirname regex includepath (nm # nms) newlist st =
     do {
       (b, st1) \<leftarrow> (if regex = [] then Some (True, st) else FullTextMatch pcre_compile agent regex nm st);
       lsdir_loop pcre_compile agent dirname regex includepath nms
         (if \<not> b then newlist
          else RlistPrependScalar newlist (Some (if includepath then MapName (take (CF_BUFSIZE - 1) (dirname @ ''/'' @ nm)) else nm))) st1
     }"

definition FnCallLsDir ::
  "(string \<Rightarrow> pcre option) \<Rightarrow> bool \<Rightarrow> ItemHeap \<Rightarrow> (string \<Rightarrow> string list option) \<Rightarrow> string \<Rightarrow> string \<Rightarrow> string \<Rightarrow> Scopes \<Rightarrow>
   (FnCallResult \<times> Scopes) option"
where
  "FnCallLsDir pcre_compile agent h dirs dirname regex arg3 st =
     do {
       includepath \<leftarrow> BooleanFromString h arg3;
       (case dirs dirname of
          None \<Rightarrow> Some (FNCALL_SUCCESS (ListVal (RlistPrependScalar [] (Some CF_NULL_VALUE))), st)
        | Some nms \<Rightarrow> do {
            (newlist, st1) \<leftarrow> lsdir_loop pcre_compile agent dirname regex includepath nms [] st;
            Some (FNCALL_SUCCESS (ListVal (if newlist = [] then RlistPrependScalar [] (Some CF_NULL_VALUE) else newlist)), st1)
          })
     }"

section \<open>Comments\<close>

definition CloseStringHole :: "string \<Rightarrow> int \<Rightarrow> int \<Rightarrow> string option" where
  "CloseStringHole s start stop =
     (if stop - start \<le> 0 then Some s
      else if 0 \<le> start \<and> stop \<le> int (length s) then Some (take (nat start) s @ drop (nat stop) s)
      else None)"

lemma length_CloseStringHole: "CloseStringHole s start stop = Some t \<Longrightarrow> length t \<le> length s"
  by (auto simp: CloseStringHole_def min_def split: if_splits)

text \<open>The loop ends when nothing matches, or when it has gone round more often than there are characters.\<close>

function strip_loop ::
  "(string \<Rightarrow> pcre option) \<Rightarrow> bool \<Rightarrow> string \<Rightarrow> string \<Rightarrow> nat \<Rightarrow> Scopes \<Rightarrow> (string \<times> Scopes) option"
where
  "strip_loop pcre_compile agent pattern s cnt st =
     (case BlockTextMatch pcre_compile agent pattern s st of
        None \<Rightarrow> None
      | Some ((False, _), st1) \<Rightarrow> Some (s, st1)
      | Some ((True, None), st1) \<Rightarrow> None
      | Some ((True, Some (start, stop)), st1) \<Rightarrow>
          (case CloseStringHole s start stop of
             None \<Rightarrow> None
           | Some t \<Rightarrow> if cnt > length t then Some (t, st1) else strip_loop pcre_compile agent pattern t (Suc cnt) st1))"
  by pat_completeness auto
termination
  by (relation "measure (\<lambda>(_, _, _, s, cnt, _). length s + 1 - cnt)") (auto dest!: length_CloseStringHole)

declare strip_loop.simps [simp del]

definition StripPatterns ::
  "(string \<Rightarrow> pcre option) \<Rightarrow> bool \<Rightarrow> string \<Rightarrow> string \<Rightarrow> Scopes \<Rightarrow> (string \<times> Scopes) option"
where
  "StripPatterns pcre_compile agent file_buffer pattern st =
     (if pattern = [] then Some (file_buffer, st) else strip_loop pcre_compile agent pattern file_buffer 0 st)"

section \<open>Lists and arrays of text\<close>

definition ReadList ::
  "(string \<Rightarrow> pcre option) \<Rightarrow> bool \<Rightarrow> (string \<Rightarrow> string \<Rightarrow> (nat \<times> nat) option) \<Rightarrow> (string \<Rightarrow> string option) \<Rightarrow> int \<Rightarrow> DataType \<Rightarrow>
   string \<Rightarrow> string \<Rightarrow> string \<Rightarrow> string \<Rightarrow> string \<Rightarrow> Scopes \<Rightarrow> (FnCallResult \<times> Scopes) option"
where
  "ReadList pcre_compile agent find_match files now dt filename comment split arg4 arg5 st =
     do {
       maxent \<leftarrow> IntFromString now (Some arg4);
       maxsize \<leftarrow> IntFromString now (Some arg5);
       file_buffer \<leftarrow> CfReadFile files filename (int_of_long maxsize);
       (case file_buffer of
          None \<Rightarrow> Some (FNCALL_FAILURE, st)
        | Some buf \<Rightarrow> do {
            (stripped, st1) \<leftarrow> StripPatterns pcre_compile agent buf comment st;
            newlist \<leftarrow> RlistFromSplitRegex (find_match split) (Some stripped) (int_of_long maxent) False;
            ss \<leftarrow> scalars_of newlist;
            noerrors \<leftarrow>
              (if dt = DATA_TYPE_STRING then Some True
               else if dt = DATA_TYPE_INT then map_option (\<lambda>vs. CF_NOINT \<notin> set vs) (those (map (\<lambda>s. IntFromString now (Some s)) ss))
               else if dt = DATA_TYPE_REAL then map_option (\<lambda>vs. None \<notin> set vs) (those (map (\<lambda>s. DoubleFromString (Some s)) ss))
               else None);
            Some (if newlist \<noteq> [] \<and> noerrors then FNCALL_SUCCESS (ListVal newlist) else FNCALL_FAILURE, st1)
          })
     }"

text \<open>The value of a cell. \<open>strncpy\<close> leaves a text that fills its buffer without a terminator.\<close>

definition cell_value :: "int \<Rightarrow> DataType \<Rightarrow> string \<Rightarrow> string outcome" where
  "cell_value now dt item =
     (case dt of
        DATA_TYPE_STRING \<Rightarrow> if length item \<ge> CF_MAXVARSIZE - 1 then Fault else Done item
      | DATA_TYPE_INT \<Rightarrow> and_then (checked (IntFromString now (Some item))) (\<lambda>ival. Done (show_int (int_of_long ival)))
      | DATA_TYPE_REAL \<Rightarrow>
          and_then (checked (DoubleFromString (Some item))) (\<lambda>real_value.
            if real_value = None then Exit1 else Done (take 255 (takeWhile (\<lambda>c. \<not> isspace c) (dropWhile isspace item))))
      | _ \<Rightarrow> Fault)"

text \<open>The first index of a line is its number, or its first cell that is not empty.\<close>

definition cell_name :: "bool \<Rightarrow> string \<Rightarrow> nat \<Rightarrow> string \<Rightarrow> nat \<Rightarrow> string" where
  "cell_name intIndex array_lval hcount first_one vcount =
     take (CF_MAXVARSIZE - 1)
       (array_lval @ ''['' @ (if intIndex then show_nat hcount else first_one) @ '']['' @ show_nat vcount @ '']'')"

fun line_cells ::
  "int \<Rightarrow> EvalContext \<Rightarrow> Bundle \<Rightarrow> string \<Rightarrow> DataType \<Rightarrow> bool \<Rightarrow> nat \<Rightarrow> Rval list \<Rightarrow> nat \<Rightarrow> string \<Rightarrow> Scopes \<Rightarrow> Scopes outcome"
where
  "line_cells now ctx b array_lval dt intIndex hcount [] vcount first_one st = Done st"
| "line_cells now ctx b array_lval dt intIndex hcount (rp # rps) vcount first_one st =
     and_then (checked (RvalScalarValue rp)) (\<lambda>item.
     and_then (cell_value now dt item) (\<lambda>this_rval.
       (let first1 = (if first_one = [] then this_rval else first_one) in
        and_then (checked (bundle_ref (cell_name intIndex array_lval hcount first1 vcount) b)) (\<lambda>ref.
        and_then (checked (EvalContextVariablePut ctx ref (Scalar this_rval) dt st)) (\<lambda>(_, st1).
          line_cells now ctx b array_lval dt intIndex hcount rps (vcount + 1) first1 st1)))))"

text \<open>Lines are read from a buffer of 1023 characters; the character behind them is skipped, newline or not.\<close>

function build_lines ::
  "(string \<Rightarrow> string \<Rightarrow> (nat \<times> nat) option) \<Rightarrow> int \<Rightarrow> EvalContext \<Rightarrow> Bundle \<Rightarrow> string \<Rightarrow> string \<Rightarrow> int \<Rightarrow> DataType \<Rightarrow> bool \<Rightarrow>
   string \<Rightarrow> nat \<Rightarrow> nat \<Rightarrow> Scopes \<Rightarrow> (nat \<times> Scopes) outcome"
where
  "build_lines find_match now ctx b array_lval split maxent dt intIndex sp hcount lcount st =
     (if \<not> int hcount < maxent \<or> sp = [] then Done (hcount, st)
      else
        (let linebuf = take 1023 (takeWhile (\<lambda>c. c \<noteq> CHR 0x0A) sp) in
         if linebuf = [] \<or> linebuf = [CHR 0x0D] then
           build_lines find_match now ctx b array_lval split maxent dt intIndex (tl sp) hcount lcount st
         else if lcount > CF_HASHTABLESIZE then Done (hcount, st)
         else
           (case RlistFromSplitRegex (find_match split)
               (Some (if last linebuf = CHR 0x0D then butlast linebuf else linebuf)) maxent True of
              None \<Rightarrow> Fault
            | Some newlist \<Rightarrow>
                (case line_cells now ctx b array_lval dt intIndex hcount newlist 0 [] st of
                   Fault \<Rightarrow> Fault
                 | Exit1 \<Rightarrow> Exit1
                 | Done st1 \<Rightarrow>
                     if drop (length linebuf) sp = [] then Done (hcount + 1, st1)
                     else build_lines find_match now ctx b array_lval split maxent dt intIndex
                       (drop (length linebuf + 1) sp) (hcount + 1) (lcount + 1) st1))))"
  by pat_completeness auto
termination
  by (relation "measure (\<lambda>(_, _, _, _, _, _, _, _, _, sp, _). length sp)") auto

declare build_lines.simps [simp del]

definition BuildLineArray ::
  "(string \<Rightarrow> string \<Rightarrow> (nat \<times> nat) option) \<Rightarrow> int \<Rightarrow> EvalContext \<Rightarrow> Bundle \<Rightarrow> string \<Rightarrow> string \<Rightarrow> string \<Rightarrow> int \<Rightarrow> DataType \<Rightarrow> bool \<Rightarrow>
   Scopes \<Rightarrow> (nat \<times> Scopes) outcome"
where
  "BuildLineArray find_match now ctx b array_lval file_buffer split maxent dt intIndex st =
     build_lines find_match now ctx b array_lval split maxent dt intIndex file_buffer 0 0 st"

text \<open>The rest of \<open>ReadArray\<close> and \<open>ParseArray\<close> with the text, \<open>None\<close> when there is none.\<close>

definition array_of_text ::
  "(string \<Rightarrow> pcre option) \<Rightarrow> bool \<Rightarrow> (string \<Rightarrow> string \<Rightarrow> (nat \<times> nat) option) \<Rightarrow> int \<Rightarrow> EvalContext \<Rightarrow> Bundle \<Rightarrow> DataType \<Rightarrow> bool \<Rightarrow>
   string \<Rightarrow> string option \<Rightarrow> string \<Rightarrow> string \<Rightarrow> int \<Rightarrow> Scopes \<Rightarrow> (FnCallResult \<times> Scopes) outcome"
where
  "array_of_text pcre_compile agent find_match now ctx b dt intIndex array_lval buf comment split maxent st =
     and_then
       (case buf of
          None \<Rightarrow> Done (0, st)
        | Some s \<Rightarrow>
            and_then (checked (StripPatterns pcre_compile agent s comment st)) (\<lambda>(stripped, st1).
              BuildLineArray find_match now ctx b array_lval stripped split maxent dt intIndex st1))
       (\<lambda>(entries, st2).
         if dt \<in> {DATA_TYPE_STRING, DATA_TYPE_INT, DATA_TYPE_REAL} then Done (FNCALL_SUCCESS (Scalar (show_nat entries)), st2)
         else Fault)"

definition ReadArray ::
  "(string \<Rightarrow> pcre option) \<Rightarrow> bool \<Rightarrow> (string \<Rightarrow> string \<Rightarrow> (nat \<times> nat) option) \<Rightarrow> (string \<Rightarrow> string option) \<Rightarrow> int \<Rightarrow> EvalContext \<Rightarrow>
   Bundle \<Rightarrow> DataType \<Rightarrow> bool \<Rightarrow> string \<Rightarrow> string \<Rightarrow> string \<Rightarrow> string \<Rightarrow> string \<Rightarrow> string \<Rightarrow> Scopes \<Rightarrow> (FnCallResult \<times> Scopes) outcome"
where
  "ReadArray pcre_compile agent find_match files now ctx b dt intIndex array_lval filename comment split arg5 arg6 st =
     and_then (checked (IntFromString now (Some arg5))) (\<lambda>maxent.
     and_then (checked (IntFromString now (Some arg6))) (\<lambda>maxsize.
     and_then (checked (CfReadFile files filename (int_of_long maxsize))) (\<lambda>buf.
       array_of_text pcre_compile agent find_match now ctx b dt intIndex array_lval buf comment split (int_of_long maxent) st)))"

definition ParseArray ::
  "(string \<Rightarrow> pcre option) \<Rightarrow> bool \<Rightarrow> (string \<Rightarrow> string \<Rightarrow> (nat \<times> nat) option) \<Rightarrow> int \<Rightarrow> EvalContext \<Rightarrow>
   Bundle \<Rightarrow> DataType \<Rightarrow> bool \<Rightarrow> string \<Rightarrow> string \<Rightarrow> string \<Rightarrow> string \<Rightarrow> string \<Rightarrow> string \<Rightarrow> Scopes \<Rightarrow> (FnCallResult \<times> Scopes) outcome"
where
  "ParseArray pcre_compile agent find_match now ctx b dt intIndex array_lval instring comment split arg5 arg6 st =
     and_then (checked (IntFromString now (Some arg5))) (\<lambda>maxent.
     and_then (checked (IntFromString now (Some arg6))) (\<lambda>maxsize.
       array_of_text pcre_compile agent find_match now ctx b dt intIndex array_lval (Some instring) comment split (int_of_long maxent) st))"

section \<open>Peers\<close>

text \<open>The hosts of a file stand one in a line, with comments; \<open>groupsize\<close> of them make a group.\<close>

definition read_hosts ::
  "(string \<Rightarrow> pcre option) \<Rightarrow> bool \<Rightarrow> (string \<Rightarrow> string \<Rightarrow> (nat \<times> nat) option) \<Rightarrow> (string \<Rightarrow> string option) \<Rightarrow> string \<Rightarrow> string \<Rightarrow> Scopes \<Rightarrow>
   (string list option \<times> Scopes) option"
where
  "read_hosts pcre_compile agent find_match files filename comment st =
     do {
       file_buffer \<leftarrow> CfReadFile files filename 100000;
       (case file_buffer of
          None \<Rightarrow> Some (None, st)
        | Some buf \<Rightarrow> do {
            (stripped, st1) \<leftarrow> StripPatterns pcre_compile agent buf comment st;
            newlist \<leftarrow> RlistFromSplitRegex (find_match [CHR 0x0A]) (Some stripped) 100000 True;
            ss \<leftarrow> scalars_of newlist;
            Some (Some ss, st1)
          })
     }"

definition host_word :: "string \<Rightarrow> string" where
  "host_word item = takeWhile (\<lambda>c. \<not> isspace c) (dropWhile isspace item)"

fun peers_loop :: "(string \<Rightarrow> bool) \<Rightarrow> int \<Rightarrow> string list \<Rightarrow> nat \<Rightarrow> bool \<Rightarrow> Rval list \<Rightarrow> Rval list" where
  "peers_loop me groupsize [] i found pruned = pruned"
| "peers_loop me groupsize (item # rps) i found pruned =
     (if EmptyString item then peers_loop me groupsize rps i found pruned
      else
        (let s = host_word item;
             found1 = (if me s then True else found);
             pruned1 = (if me s then pruned else RlistPrependScalar pruned (Some s))
         in if int i smod groupsize = groupsize - 1
            then (if found1 then pruned1 else peers_loop me groupsize rps (i + 1) found1 [])
            else peers_loop me groupsize rps (i + 1) found1 pruned1))"

definition FnCallPeers ::
  "(string \<Rightarrow> pcre option) \<Rightarrow> bool \<Rightarrow> (string \<Rightarrow> string \<Rightarrow> (nat \<times> nat) option) \<Rightarrow> (string \<Rightarrow> string option) \<Rightarrow> int \<Rightarrow> string \<Rightarrow> string \<Rightarrow>
   string \<Rightarrow> string \<Rightarrow> string \<Rightarrow> Scopes \<Rightarrow> (FnCallResult \<times> Scopes) option"
where
  "FnCallPeers pcre_compile agent find_match files now VFQNAME VUQNAME filename comment arg3 st =
     do {
       groupsize \<leftarrow> map_option int_of_long (IntFromString now (Some arg3));
       (hosts, st1) \<leftarrow> read_hosts pcre_compile agent find_match files filename comment st;
       (case hosts of
          None \<Rightarrow> Some (FNCALL_FAILURE, st1)
        | Some hs \<Rightarrow>
            if groupsize = 0 \<and> \<not> list_all EmptyString hs then None
            else
              (let pruned = peers_loop (\<lambda>s. strcmp s VFQNAME = 0 \<or> strcmp s VUQNAME = 0) groupsize hs 0 False []
               in Some (if pruned \<noteq> [] then FNCALL_SUCCESS (ListVal pruned) else FNCALL_FAILURE, st1)))
     }"

fun leader_loop :: "(string \<Rightarrow> bool) \<Rightarrow> int \<Rightarrow> string list \<Rightarrow> nat \<Rightarrow> bool \<Rightarrow> string" where
  "leader_loop me groupsize [] i found = []"
| "leader_loop me groupsize (item # rps) i found =
     (if EmptyString item then leader_loop me groupsize rps i found
      else
        (let s = host_word item;
             found1 = (if me s then True else found)
         in if int i smod groupsize = 0 \<and> found1 then (if me s then ''localhost'' else s)
            else leader_loop me groupsize rps (i + 1) found1))"

definition FnCallPeerLeader ::
  "(string \<Rightarrow> pcre option) \<Rightarrow> bool \<Rightarrow> (string \<Rightarrow> string \<Rightarrow> (nat \<times> nat) option) \<Rightarrow> (string \<Rightarrow> string option) \<Rightarrow> int \<Rightarrow> string \<Rightarrow> string \<Rightarrow>
   string \<Rightarrow> string \<Rightarrow> string \<Rightarrow> Scopes \<Rightarrow> (FnCallResult \<times> Scopes) option"
where
  "FnCallPeerLeader pcre_compile agent find_match files now VFQNAME VUQNAME filename comment arg3 st =
     do {
       groupsize \<leftarrow> map_option int_of_long (IntFromString now (Some arg3));
       (hosts, st1) \<leftarrow> read_hosts pcre_compile agent find_match files filename comment st;
       (case hosts of
          None \<Rightarrow> Some (FNCALL_FAILURE, st1)
        | Some hs \<Rightarrow>
            if groupsize = 0 \<and> \<not> list_all EmptyString hs then None
            else
              (let buffer = leader_loop (\<lambda>s. strcmp s VFQNAME = 0 \<or> strcmp s VUQNAME = 0) groupsize hs 0 False
               in Some (if buffer \<noteq> [] then FNCALL_SUCCESS (Scalar buffer) else FNCALL_FAILURE, st1)))
     }"

fun leaders_loop :: "(string \<Rightarrow> bool) \<Rightarrow> int \<Rightarrow> string list \<Rightarrow> nat \<Rightarrow> Rval list \<Rightarrow> Rval list" where
  "leaders_loop me groupsize [] i pruned = pruned"
| "leaders_loop me groupsize (item # rps) i pruned =
     (if EmptyString item then leaders_loop me groupsize rps i pruned
      else
        (let s = host_word item
         in leaders_loop me groupsize rps (i + 1)
              (if int i smod groupsize = 0 then RlistPrependScalar pruned (Some (if me s then ''localhost'' else s)) else pruned)))"

text \<open>Without leaders the text of the file is released twice.\<close>

definition FnCallPeerLeaders ::
  "(string \<Rightarrow> pcre option) \<Rightarrow> bool \<Rightarrow> (string \<Rightarrow> string \<Rightarrow> (nat \<times> nat) option) \<Rightarrow> (string \<Rightarrow> string option) \<Rightarrow> int \<Rightarrow> string \<Rightarrow> string \<Rightarrow>
   string \<Rightarrow> string \<Rightarrow> string \<Rightarrow> Scopes \<Rightarrow> (FnCallResult \<times> Scopes) option"
where
  "FnCallPeerLeaders pcre_compile agent find_match files now VFQNAME VUQNAME filename comment arg3 st =
     do {
       groupsize \<leftarrow> map_option int_of_long (IntFromString now (Some arg3));
       (hosts, st1) \<leftarrow> read_hosts pcre_compile agent find_match files filename comment st;
       (case hosts of
          None \<Rightarrow> Some (FNCALL_FAILURE, st1)
        | Some hs \<Rightarrow>
            if groupsize = 0 \<and> \<not> list_all EmptyString hs then None
            else
              (let pruned = leaders_loop (\<lambda>s. strcmp s VFQNAME = 0 \<or> strcmp s VUQNAME = 0) groupsize hs 0 []
               in if pruned \<noteq> [] then Some (FNCALL_SUCCESS (ListVal pruned), st1) else None))
     }"

section \<open>Groups of peers\<close>

text \<open>The groups of \<open>n\<close>; the last one may be shorter.\<close>

function groups :: "nat \<Rightarrow> 'a list \<Rightarrow> 'a list list" where
  "groups n xs = (if xs = [] \<or> n = 0 then [] else take n xs # groups n (drop n xs))"
  by pat_completeness auto
termination
  by (relation "measure (\<lambda>(_, xs). length xs)") auto

declare groups.simps [simp del]

lemma groups_simps:
  "groups n [] = []"
  "xs \<noteq> [] \<Longrightarrow> 0 < n \<Longrightarrow> groups n xs = take n xs # groups n (drop n xs)"
  by (simp_all add: groups.simps [of n])

text \<open>The hosts in the lines that are not blank.\<close>

definition hosts_of :: "string list \<Rightarrow> string list" where
  "hosts_of its = map host_word (filter (\<lambda>s. \<not> EmptyString s) its)"

lemma smod_nat: "0 < n \<Longrightarrow> int i smod int n = int (i mod n)"
  by (simp add: signed_modulo_int_def zmod_int sgn_if)

lemma prepend_scalar [simp]: "RlistPrependScalar l (Some s) = Scalar s # l"
  by (simp add: RlistPrependScalar_def RlistPrependRval_def RvalCopyScalar_def)

lemma hosts_of_Cons:
  "hosts_of (item # its) = (if EmptyString item then hosts_of its else host_word item # hosts_of its)"
  by (simp add: hosts_of_def)

text \<open>The loops on hosts, with the group so far.\<close>

definition others :: "(string \<Rightarrow> bool) \<Rightarrow> string list \<Rightarrow> string list" where
  "others me g = filter (\<lambda>s. \<not> me s) g"

definition mine :: "(string \<Rightarrow> bool) \<Rightarrow> string list \<Rightarrow> bool" where
  "mine me g \<longleftrightarrow> (\<exists>s \<in> set g. me s)"

fun peers_from :: "(string \<Rightarrow> bool) \<Rightarrow> nat \<Rightarrow> string list \<Rightarrow> string list \<Rightarrow> string list" where
  "peers_from me n g [] = others me g"
| "peers_from me n g (h # hs) =
     (if Suc (length g) = n then (if mine me (g @ [h]) then others me (g @ [h]) else peers_from me n [] hs)
      else peers_from me n (g @ [h]) hs)"

lemma peers_loop_step:
  assumes "\<not> EmptyString item" "i mod n = length g" "0 < n"
  shows "peers_loop me (int n) (item # its) i (mine me g) (rev (map Scalar (others me g))) =
    (let g1 = g @ [host_word item] in
     if Suc (length g) = n
     then (if mine me g1 then rev (map Scalar (others me g1)) else peers_loop me (int n) its (Suc i) (mine me []) (rev (map Scalar (others me []))))
     else peers_loop me (int n) its (Suc i) (mine me g1) (rev (map Scalar (others me g1))))"
proof -
  have "int i smod int n = int n - 1 \<longleftrightarrow> Suc (length g) = n"
    using assms by (auto simp: smod_nat)
  with assms(1) show ?thesis
    by (cases "me (host_word item)") (simp_all add: Let_def mine_def others_def)
qed

lemma peers_loop_from:
  "length g < n \<Longrightarrow> i mod n = length g \<Longrightarrow>
   peers_loop me (int n) its i (mine me g) (rev (map Scalar (others me g))) = rev (map Scalar (peers_from me n g (hosts_of its)))"
proof (induction its arbitrary: i g)
  case (Cons item its)
  show ?case
  proof (cases "EmptyString item")
    case False
    have n: "0 < n"
      using Cons.prems by simp
    show ?thesis
    proof (cases "Suc (length g) = n")
      case True
      then have "Suc i mod n = length []"
        using Cons.prems(2) by (simp add: mod_Suc)
      from Cons.IH [of "[]" "Suc i", OF _ this] n True show ?thesis
        unfolding peers_loop_step [OF False Cons.prems(2) n] by (simp add: hosts_of_Cons False Let_def)
    next
      case ne: False
      then have "Suc i mod n = length (g @ [host_word item])"
        using Cons.prems(2) by (simp add: mod_Suc)
      from Cons.IH [of "g @ [host_word item]" "Suc i", OF _ this] ne Cons.prems(1) show ?thesis
        unfolding peers_loop_step [OF False Cons.prems(2) n] by (simp add: hosts_of_Cons False Let_def)
    qed
  qed (use Cons in \<open>simp add: hosts_of_Cons\<close>)
qed (simp add: hosts_of_def)

text \<open>The groups that are found.\<close>

lemma peers_from_full:
  "g \<noteq> [] \<Longrightarrow> length pre + length g = n \<Longrightarrow>
   peers_from me n pre (g @ hs) = (if mine me (pre @ g) then others me (pre @ g) else peers_from me n [] hs)"
proof (induction g arbitrary: pre)
  case (Cons h g)
  show ?case
  proof (cases "g = []")
    case False
    with Cons.IH [of "pre @ [h]"] Cons.prems show ?thesis
      by auto
  qed (use Cons.prems in auto)
qed simp

lemma peers_from_short: "length pre + length g < n \<Longrightarrow> peers_from me n pre g = others me (pre @ g)"
  by (induction g arbitrary: pre) auto

text \<open>The last group, when it is not full.\<close>

definition last_rest :: "nat \<Rightarrow> 'a list \<Rightarrow> 'a list" where
  "last_rest n xs = drop (length xs div n * n) xs"

lemma last_rest_drop:
  assumes "0 < n" "n \<le> length xs"
  shows "last_rest n xs = last_rest n (drop n xs)"
proof -
  have "length xs div n = Suc ((length xs - n) div n)"
    using assms by (simp add: le_div_geq)
  then show ?thesis
    by (simp add: last_rest_def add.commute)
qed

lemma peers_from_groups:
  assumes "0 < n"
  shows "peers_from me n [] hs =
    (case List.find (mine me) (groups n hs) of Some g \<Rightarrow> others me g | None \<Rightarrow> others me (last_rest n hs))"
proof (induction "length hs" arbitrary: hs rule: less_induct)
  case less
  show ?case
  proof (cases "length hs < n")
    case True
    then have "last_rest n hs = hs" "groups n hs = (if hs = [] then [] else [hs])"
      using assms by (auto simp: last_rest_def groups_simps)
    with peers_from_short [of "[]" hs n me] True show ?thesis
      by (auto simp: others_def)
  next
    case False
    then have "peers_from me n [] (take n hs @ drop n hs) =
        (if mine me (take n hs) then others me (take n hs) else peers_from me n [] (drop n hs))"
      using peers_from_full [of "take n hs" "[]" n me "drop n hs"] assms by force
    moreover have "hs \<noteq> []" "length (drop n hs) < length hs"
      using False assms by auto
    ultimately show ?thesis
      using less.hyps [of "drop n hs"] last_rest_drop [of n hs] False assms by (simp add: groups_simps split: option.split)
  qed
qed

text \<open>Leaders: the first hosts of the groups.\<close>

definition leader_name :: "(string \<Rightarrow> bool) \<Rightarrow> string \<Rightarrow> string" where
  "leader_name me h = (if me h then ''localhost'' else h)"

fun leaders_from :: "(string \<Rightarrow> bool) \<Rightarrow> nat \<Rightarrow> nat \<Rightarrow> string list \<Rightarrow> string list" where
  "leaders_from me n k [] = []"
| "leaders_from me n k (h # hs) =
     (if k = 0 then leader_name me h # leaders_from me n (Suc k mod n) hs else leaders_from me n (Suc k mod n) hs)"

lemma leaders_loop_from:
  "0 < n \<Longrightarrow> leaders_loop me (int n) its i pruned = rev (map Scalar (leaders_from me n (i mod n) (hosts_of its))) @ pruned"
proof (induction its arbitrary: i pruned)
  case (Cons item its)
  then show ?case
    by (cases "EmptyString item") (simp_all add: hosts_of_Cons leader_name_def Let_def smod_nat mod_Suc)
qed (simp add: hosts_of_def)

lemma leaders_from_inside: "g \<noteq> [] \<Longrightarrow> 0 < k \<Longrightarrow> k + length g = n \<Longrightarrow> leaders_from me n k (g @ hs) = leaders_from me n 0 hs"
proof (induction g arbitrary: k)
  case (Cons h g)
  show ?case
  proof (cases "g = []")
    case False
    with Cons.IH [of "Suc k"] Cons.prems show ?thesis
      by (cases g) auto
  qed (use Cons.prems in auto)
qed auto

lemma leaders_from_rest: "0 < k \<Longrightarrow> k + length g \<le> n \<Longrightarrow> leaders_from me n k g = []"
proof (induction g arbitrary: k)
  case (Cons h g)
  then show ?case
    using Cons.IH [of "Suc k"] by (cases g) (auto simp: mod_less)
qed simp

lemma first_and_rest:
  assumes "hs \<noteq> []" "0 < n"
  obtains h t where "hs = h # t" "take n hs = h # take (n - 1) t" "drop n hs = drop (n - 1) t"
proof (cases hs)
  case (Cons h t)
  with assms(2) that show thesis
    by (cases n) auto
qed (use assms in simp)

lemma leaders_from_groups:
  assumes "0 < n"
  shows "leaders_from me n 0 hs = map (\<lambda>g. leader_name me (hd g)) (groups n hs)"
proof (induction "length hs" arbitrary: hs rule: less_induct)
  case less
  show ?case
  proof (cases "hs = []")
    case False
    then obtain h t where ht: "hs = h # t" "take n hs = h # take (n - 1) t" "drop n hs = drop (n - 1) t"
      using assms by (rule first_and_rest)
    have "leaders_from me n (Suc 0 mod n) t = leaders_from me n 0 (drop (n - 1) t)"
    proof (cases "length t < n - 1")
      case True
      with leaders_from_rest [of 1 t n me] show ?thesis
        by simp
    next
      case large: False
      show ?thesis
      proof (cases "n = 1")
        case False
        with assms large leaders_from_inside [of "take (n - 1) t" 1 n me "drop (n - 1) t"] show ?thesis
          by (cases t) auto
      qed simp
    qed
    with less.hyps [of "drop n hs"] assms False ht show ?thesis
      by (simp add: groups_simps)
  qed (simp add: groups_simps)
qed

text \<open>\<open>peerleader\<close> goes on from the host to the next beginning of a group.\<close>

fun leader_from :: "(string \<Rightarrow> bool) \<Rightarrow> nat \<Rightarrow> nat \<Rightarrow> bool \<Rightarrow> string list \<Rightarrow> string" where
  "leader_from me n k f [] = []"
| "leader_from me n k f (h # hs) =
     (if k = 0 \<and> (f \<or> me h) then leader_name me h else leader_from me n (Suc k mod n) (f \<or> me h) hs)"

lemma leader_loop_from:
  "0 < n \<Longrightarrow> leader_loop me (int n) its i f = leader_from me n (i mod n) f (hosts_of its)"
proof (induction its arbitrary: i f)
  case (Cons item its)
  then show ?case
    by (cases "EmptyString item") (auto simp add: hosts_of_Cons leader_name_def Let_def smod_nat mod_Suc)
qed (simp add: hosts_of_def)

lemma leader_from_inside:
  "g \<noteq> [] \<Longrightarrow> 0 < k \<Longrightarrow> k + length g = n \<Longrightarrow> leader_from me n k f (g @ hs) = leader_from me n 0 (f \<or> mine me g) hs"
proof (induction g arbitrary: k f)
  case (Cons h g)
  show ?case
  proof (cases "g = []")
    case False
    with Cons.IH [of "Suc k" "f \<or> me h"] Cons.prems show ?thesis
      by (cases g) (auto simp: mine_def disj_assoc)
  qed (use Cons.prems in \<open>auto simp: mine_def\<close>)
qed auto

lemma leader_from_rest: "0 < k \<Longrightarrow> k + length g \<le> n \<Longrightarrow> leader_from me n k f g = []"
proof (induction g arbitrary: k f)
  case (Cons h g)
  then show ?case
    using Cons.IH [of "Suc k" "f \<or> me h"] by (cases g) (auto simp: mod_less)
qed simp

text \<open>The host leads its group itself, or the leader of the next group is taken.\<close>

fun leader_after :: "(string \<Rightarrow> bool) \<Rightarrow> bool \<Rightarrow> string list list \<Rightarrow> string" where
  "leader_after me f [] = []"
| "leader_after me f (g # gs) = (if f \<or> me (hd g) then leader_name me (hd g) else leader_after me (mine me g) gs)"

lemma leader_from_groups:
  assumes "0 < n"
  shows "leader_from me n 0 f hs = leader_after me f (groups n hs)"
proof (induction "length hs" arbitrary: hs f rule: less_induct)
  case less
  show ?case
  proof (cases "hs = []")
    case False
    then obtain h t where ht: "hs = h # t" "take n hs = h # take (n - 1) t" "drop n hs = drop (n - 1) t"
      using assms by (rule first_and_rest)
    show ?thesis
    proof (cases "f \<or> me h")
      case True
      with assms False ht show ?thesis
        by (simp add: groups_simps)
    next
      case no: False
      have "leader_from me n (Suc 0 mod n) False t = leader_from me n 0 (mine me (take (n - 1) t)) (drop (n - 1) t)"
      proof (cases "length t < n - 1")
        case True
        with leader_from_rest [of 1 t n me False] show ?thesis
          by simp
      next
        case large: False
        show ?thesis
        proof (cases "n = 1")
          case False
          with assms large leader_from_inside [of "take (n - 1) t" 1 n me False "drop (n - 1) t"] show ?thesis
            by (cases t) auto
        qed (simp add: mine_def)
      qed
      with less.hyps [of "drop n hs"] assms False ht no show ?thesis
        by (simp add: groups_simps mine_def)
    qed
  qed (simp add: groups_simps)
qed


text \<open>Newlines found in a text, for the example.\<close>

definition find_newline :: "string \<Rightarrow> string \<Rightarrow> (nat \<times> nat) option" where
  "find_newline r s = (if CHR 0x0A \<in> set s then Some (length (takeWhile (\<lambda>c. c \<noteq> CHR 0x0A) s), Suc (length (takeWhile (\<lambda>c. c \<noteq> CHR 0x0A) s))) else None)"


text \<open>A host that is in no group gets those of the last one, and the leader of a host is that of the next group.\<close>

lemma stranger_has_peers: "peers_loop (\<lambda>s. s = ''z'') 2 [''a'', ''b'', ''c''] 0 False [] = [Scalar ''c'']"
  by code_simp

lemma leader_of_next_group: "leader_loop (\<lambda>s. s = ''b'') 2 [''a'', ''b'', ''c'', ''d''] 0 False = ''c''"
  by code_simp

text \<open>The character behind 1023 others is lost.\<close>

lemma long_line_loses_character:
  assumes "\<forall>c \<in> set s. c \<noteq> CHR 0x0A" "length s = 1023" "last s \<noteq> CHR 0x0D" "0 < maxent"
    and "RlistFromSplitRegex (find_match split) (Some s) maxent True = Some newlist"
    and "line_cells now ctx b nm dt ix 0 newlist 0 [] st = Done st1"
  shows "BuildLineArray find_match now ctx b nm (s @ c # t) split maxent dt ix st =
    build_lines find_match now ctx b nm split maxent dt ix t 1 1 st1"
proof -
  have "take 1023 (takeWhile (\<lambda>c. c \<noteq> CHR 0x0A) (s @ c # t)) = s"
    using assms(1,2) by (auto simp: takeWhile_append)
  moreover have "s \<noteq> []" "s \<noteq> [CHR 0x0D]"
    using assms(2) by auto
  ultimately show ?thesis
    using assms by (simp add: BuildLineArray_def build_lines.simps [where sp = "s @ c # t"] Let_def)
qed

end
