(* ===== verification/Fn_Hosts.thy ===== *)
theory Fn_Hosts
  imports Fn_Lists Lastseen
begin

text \<open>
  The function \<open>hostsseen\<close> of \<open>libpromises/evalfunction.c\<close> on the database of the hosts that were seen (\<open>Lastseen\<close>):
  the hosts with a sighting in the last hours, or those without. A list of items is one of addresses with times.
\<close>

definition CF_UNKNOWN_IP :: string where
  "CF_UNKNOWN_IP = ''location unknown''"

definition HostKeyAddressUnknown :: "string \<Rightarrow> bool" where
  "HostKeyAddressUnknown v \<longleftrightarrow> strcmp v CF_UNKNOWN_IP = 0"

definition CallHostsSeenCallback ::
  "string \<Rightarrow> string \<Rightarrow> bool \<Rightarrow> KeyHostSeen \<Rightarrow> (string \<times> string) list \<Rightarrow> bool \<times> (string \<times> string) list"
where
  "CallHostsSeenCallback hostkey address incoming quality addresses =
     (if HostKeyAddressUnknown hostkey then (True, addresses)
      else (True, (address, show_nat (nat (lastseen quality mod 2 ^ 64))) # addresses))"

text \<open>\<open>dns\<close> is \<open>IPString2Hostname\<close>.\<close>

definition host_address :: "(string \<Rightarrow> string option) \<Rightarrow> bool \<Rightarrow> string \<Rightarrow> string" where
  "host_address dns return_address nm =
     take (CF_MAXVARSIZE - 1)
       (if return_address then nm else case dns nm of Some hostname \<Rightarrow> hostname | None \<Rightarrow> nm)"

fun hosts_loop ::
  "(string \<Rightarrow> string option) \<Rightarrow> int \<Rightarrow> int \<Rightarrow> bool \<Rightarrow> (string \<times> string) list \<Rightarrow> Rval list \<Rightarrow> Rval list \<Rightarrow> Rval list \<times> Rval list"
where
  "hosts_loop dns now horizon return_address [] recent aged = (recent, aged)"
| "hosts_loop dns now horizon return_address ((nm, time_text) # ip) recent aged =
     (case scan_lf time_text of
        None \<Rightarrow> hosts_loop dns now horizon return_address ip recent aged
      | Some (entrytime, _) \<Rightarrow>
          (let address = host_address dns return_address nm in
           if double_less entrytime (Finite (of_int (now - horizon))) then
             hosts_loop dns now horizon return_address ip recent
               (if RlistKeyIn recent address \<noteq> None then aged else snd (RlistPrependScalarIdemp aged address))
           else
             hosts_loop dns now horizon return_address ip (snd (RlistPrependScalarIdemp recent address))
               (case RlistKeyIn aged address of Some i \<Rightarrow> RlistDestroyEntry aged i | None \<Rightarrow> aged)))"

definition GetHostsFromLastseenDB ::
  "(string \<Rightarrow> string option) \<Rightarrow> int \<Rightarrow> (string \<times> string) list \<Rightarrow> int \<Rightarrow> bool \<Rightarrow> bool \<Rightarrow> Rval list"
where
  "GetHostsFromLastseenDB dns now addresses horizon return_address return_recent =
     (let (recent, aged) = hosts_loop dns now horizon return_address addresses [] [];
          l = (if return_recent then recent else aged)
      in if l = [] then snd (RlistAppendScalarIdemp l CF_NULL_VALUE) else l)"

definition FnCallHostsSeen ::
  "(string \<Rightarrow> string option) \<Rightarrow> int \<Rightarrow> SeenDB option \<Rightarrow> string \<Rightarrow> string \<Rightarrow> string \<Rightarrow> FnCallResult option"
where
  "FnCallHostsSeen dns now db arg1 pol fmt =
     do {
       hours \<leftarrow> IntFromString now (Some arg1);
       (if hours * 3600 < LONG_MIN \<or> hours * 3600 > LONG_MAX then None
        else
          (case ScanLastSeenQuality CallHostsSeenCallback db [] of
             (False, _) \<Rightarrow> Some FNCALL_FAILURE
           | (True, addresses) \<Rightarrow>
               (let l = GetHostsFromLastseenDB dns now addresses (int_of_long (hours * 3600))
                   (strcmp fmt ''address'' = 0) (strcmp pol ''lastseen'' = 0)
                in Some (if l = [] then FNCALL_FAILURE else FNCALL_SUCCESS (ListVal l)))))
     }"

section \<open>Recent and old hosts\<close>

text \<open>The entries with a time: the address, and whether it is older than the horizon.\<close>

definition sightings :: "(string \<Rightarrow> string option) \<Rightarrow> int \<Rightarrow> int \<Rightarrow> bool \<Rightarrow> (string \<times> string) list \<Rightarrow> (string \<times> bool) list" where
  "sightings dns now horizon return_address addresses =
     List.map_filter (\<lambda>(nm, time_text).
       case scan_lf time_text of
         None \<Rightarrow> None
       | Some (entrytime, _) \<Rightarrow>
           Some (host_address dns return_address nm, double_less entrytime (Finite (of_int (now - horizon))))) addresses"

text \<open>What the lists hold after some sightings.\<close>

definition sorted_hosts :: "(string \<times> bool) set \<Rightarrow> string list \<Rightarrow> string list \<Rightarrow> bool" where
  "sorted_hosts S recent aged \<longleftrightarrow>
     distinct recent \<and> distinct aged \<and>
     set recent = {a. (a, False) \<in> S} \<and> set aged = {a. (a, True) \<in> S \<and> (a, False) \<notin> S}"

lemma prepend_idemp:
  "snd (RlistPrependScalarIdemp (map Scalar ss) s) = map Scalar (if s \<in> set ss then ss else s # ss)"
  by (simp add: RlistPrependScalarIdemp_def RlistPrependScalar_def RlistPrependRval_def RvalCopyScalar_def)

lemma remove_key:
  assumes "distinct ss"
  shows "(case RlistKeyIn (map Scalar ss) s of Some i \<Rightarrow> RlistDestroyEntry (map Scalar ss) i | None \<Rightarrow> map Scalar ss) =
    map Scalar (filter (\<lambda>x. x \<noteq> s) ss)"
proof (cases "s \<in> set ss")
  case True
  then obtain xs ys where ss: "ss = xs @ s # ys" "s \<notin> set xs"
    by (meson split_list_first)
  with assms have "s \<notin> set ys" "filter (\<lambda>x. x \<noteq> s) xs = xs" "filter (\<lambda>x. x \<noteq> s) ys = ys"
    by (auto intro!: filter_True)
  moreover have "RlistKeyIn (map Scalar xs @ Scalar s # map Scalar ys) s = Some (length xs)"
    using ss(2) by (auto simp: RlistKeyIn_def find_index_append find_index_None)
  moreover have "remove_at (length xs) (map Scalar xs @ Scalar s # map Scalar ys) = map Scalar (xs @ ys)"
    using remove_at_middle [of "map Scalar xs" "Scalar s" "map Scalar ys"] by simp
  ultimately show ?thesis
    by (simp add: ss RlistDestroyEntry_def)
next
  case False
  then have "filter (\<lambda>x. x \<noteq> s) ss = ss"
    by (auto intro!: filter_True)
  moreover have "RlistKeyIn (map Scalar ss) s = None"
    using False by simp
  ultimately show ?thesis
    by (simp only: option.case)
qed

lemma hosts_loop_sorted:
  "sorted_hosts S recent aged \<Longrightarrow>
   \<exists>recent' aged'. hosts_loop dns now horizon ra addresses (map Scalar recent) (map Scalar aged) =
       (map Scalar recent', map Scalar aged') \<and>
     sorted_hosts (S \<union> set (sightings dns now horizon ra addresses)) recent' aged'"
proof (induction addresses arbitrary: S recent aged)
  case (Cons e ip)
  obtain nm t where e: "e = (nm, t)"
    by force
  show ?case
  proof (cases "scan_lf t")
    case None
    with Cons.IH [OF Cons.prems] show ?thesis
      by (simp add: e sightings_def map_filter_simps)
  next
    case (Some r)
    obtain d u where r: "r = (d, u)"
      by force
    let ?a = "host_address dns ra nm" and ?old = "double_less d (Finite (of_int (now - horizon)))"
    let ?recent = "if ?old then recent else if ?a \<in> set recent then recent else ?a # recent"
    let ?aged = "if ?old then (if ?a \<in> set recent then aged else if ?a \<in> set aged then aged else ?a # aged)
        else filter (\<lambda>x. x \<noteq> ?a) aged"
    have "sorted_hosts (insert (?a, ?old) S) ?recent ?aged"
      using Cons.prems by (auto simp: sorted_hosts_def)
    then obtain recent' aged' where rest: "hosts_loop dns now horizon ra ip (map Scalar ?recent) (map Scalar ?aged) = (map Scalar recent', map Scalar aged')"
        "sorted_hosts (insert (?a, ?old) S \<union> set (sightings dns now horizon ra ip)) recent' aged'"
      using Cons.IH by blast
    have "distinct aged"
      using Cons.prems by (simp add: sorted_hosts_def)
    note remove = remove_key [OF this, of ?a]
    have "hosts_loop dns now horizon ra (e # ip) (map Scalar recent) (map Scalar aged) =
        hosts_loop dns now horizon ra ip (map Scalar ?recent) (map Scalar ?aged)"
    proof (cases ?old)
      case True
      then show ?thesis
        by (simp add: e Some r Let_def prepend_idemp)
    next
      case False
      then have "hosts_loop dns now horizon ra (e # ip) (map Scalar recent) (map Scalar aged) =
          hosts_loop dns now horizon ra ip (snd (RlistPrependScalarIdemp (map Scalar recent) ?a))
            (case RlistKeyIn (map Scalar aged) ?a of Some i \<Rightarrow> RlistDestroyEntry (map Scalar aged) i | None \<Rightarrow> map Scalar aged)"
        by (simp only: e hosts_loop.simps Some r option.case prod.case Let_def if_False)
      with False show ?thesis
        by (simp only: remove prepend_idemp if_False)
    qed
    moreover have "sightings dns now horizon ra (e # ip) = (?a, ?old) # sightings dns now horizon ra ip"
      by (simp add: sightings_def map_filter_simps e Some r)
    ultimately show ?thesis
      using rest by auto
  qed
qed (auto simp: sightings_def map_filter_simps)



end
