(* ===== verification/Fn_Arrays.thy ===== *)
theory Fn_Arrays
  imports Fn_Lists Eval_Classes
begin

text \<open>
  Built-in functions of \<open>libpromises/evalfunction.c\<close> on arrays, which are the variables \<open>name[index]\<close> of a scope, the
  functions that expand a text for every element of a list or an array, and the protocol of modules. What happens
  to the variables is part of the result.
\<close>

section \<open>Arrays\<close>

text \<open>
  An iterator looks at the places of a table one after the other. What is written meanwhile is seen, so that
  the table is looked up again at every place.
\<close>

definition entry_at :: "('r, 'd) AssocHashTable \<Rightarrow> nat \<Rightarrow> ('r, 'd) CfAssoc option" where
  "entry_at t i = (case t of Huge bs \<Rightarrow> slot_entry (bs i) | Tiny vals \<Rightarrow> if i < length vals then Some (vals ! i) else None)"

lemma entry_at_entries:
  assumes "\<And>vals. t = Tiny vals \<Longrightarrow> length vals \<le> CF_HASHTABLESIZE"
  shows "List.map_filter (entry_at t) [0..<CF_HASHTABLESIZE] = entries_from t 0"
proof (cases t)
  case (Tiny vals)
  have "List.map_filter (entry_at t) [0..<CF_HASHTABLESIZE] =
      List.map_filter (entry_at t) [0..<length vals] @ List.map_filter (entry_at t) [length vals..<CF_HASHTABLESIZE]"
    using upt_add_eq_append [of 0 "length vals" "CF_HASHTABLESIZE - length vals"] assms [OF Tiny]
    by (simp add: map_filter_def flip: filter_append map_append)
  moreover have "List.map_filter (entry_at t) [length vals..<CF_HASHTABLESIZE] = []"
    by (simp add: map_filter_def filter_empty_conv Tiny entry_at_def)
  moreover have "List.map_filter (entry_at t) [0..<length vals] = map ((!) vals) [0..<length vals]"
    by (simp add: map_filter_def Tiny entry_at_def)
  ultimately show ?thesis
    by (simp add: Tiny entries_from_def map_nth)
qed (simp add: entries_from_def entry_at_def map_filter_def)

definition array_prefix :: "string \<Rightarrow> string" where
  "array_prefix nm = take 127 nm @ ''[''"

definition is_element :: "string \<Rightarrow> string \<Rightarrow> bool" where
  "is_element pre nm \<longleftrightarrow> strncmp pre nm (length pre) = 0"

text \<open>The index of an element, without the bracket or the last character; without any character the buffer is left.\<close>

definition index_text :: "string \<Rightarrow> string option" where
  "index_text idx =
     (case strchr idx (CHR '']'') of
        Some i \<Rightarrow> Some (take i idx)
      | None \<Rightarrow> if idx = [] then None else Some (butlast idx))"

definition table_of :: "Scopes \<Rightarrow> VarRef \<Rightarrow> VariableTable option option" where
  "table_of st ref =
     do {
       p \<leftarrow> ScopeGet (VarRef.ns ref) (VarRef.scope ref) st;
       (case p of None \<Rightarrow> Some None | Some a \<Rightarrow> do { s \<leftarrow> scope_at st a; Some (Some (sc_table s)) })
     }"

fun indices_loop :: "string \<Rightarrow> (Rval, DataType) CfAssoc list \<Rightarrow> Rval list \<Rightarrow> Rval list option" where
  "indices_loop pre [] returnlist = Some returnlist"
| "indices_loop pre (assoc # as) returnlist =
     (if \<not> is_element pre (lval assoc) then indices_loop pre as returnlist
      else do {
        idx \<leftarrow> index_text (StringNotMatchingSetCapped (drop (length pre) (lval assoc)) CF_MAXVARSIZE (CHR 0x0A));
        indices_loop pre as (if idx \<noteq> [] then snd (RlistAppendScalarIdemp returnlist idx) else returnlist)
      })"

definition or_blank :: "Rval list \<Rightarrow> Rval list" where
  "or_blank l = (if l = [] then snd (RlistAppendScalarIdemp l CF_NULL_VALUE) else l)"

definition FnCallGetIndices :: "Bundle \<Rightarrow> string \<Rightarrow> Scopes \<Rightarrow> FnCallResult option" where
  "FnCallGetIndices b arg st =
     do {
       ref \<leftarrow> bundle_ref arg b;
       table \<leftarrow> table_of st ref;
       (case table of
          None \<Rightarrow> Some (FNCALL_SUCCESS (ListVal (or_blank [])))
        | Some t \<Rightarrow> do {
            l \<leftarrow> indices_loop (array_prefix (vlval ref)) (entries_from t 0) [];
            Some (FNCALL_SUCCESS (ListVal (or_blank l)))
          })
     }"

fun values_loop :: "string \<Rightarrow> (Rval, DataType) CfAssoc list \<Rightarrow> Rval list \<Rightarrow> Rval list option" where
  "values_loop pre [] returnlist = Some returnlist"
| "values_loop pre (assoc # as) returnlist =
     (if \<not> is_element pre (lval assoc) then values_loop pre as returnlist
      else case CfAssoc.rval assoc of
          Scalar s \<Rightarrow> values_loop pre as (snd (RlistAppendScalarIdemp returnlist s))
        | ListVal l \<Rightarrow> do {
            ss \<leftarrow> scalars_of l;
            values_loop pre as (foldl (\<lambda>acc s. snd (RlistAppendScalarIdemp acc s)) returnlist ss)
          }
        | _ \<Rightarrow> values_loop pre as returnlist)"

definition FnCallGetValues :: "Bundle \<Rightarrow> string \<Rightarrow> Scopes \<Rightarrow> FnCallResult option" where
  "FnCallGetValues b arg st =
     do {
       ref \<leftarrow> bundle_ref arg b;
       table \<leftarrow> table_of st ref;
       (case table of
          None \<Rightarrow> Some (FNCALL_SUCCESS (ListVal (or_blank [])))
        | Some t \<Rightarrow> do {
            l \<leftarrow> values_loop (array_prefix (vlval ref)) (entries_from t 0) [];
            Some (FNCALL_SUCCESS (ListVal (or_blank l)))
          })
     }"

text \<open>\<open>regarray\<close> matches while it iterates, which may write into the table.\<close>

definition entry_of :: "Scopes \<Rightarrow> nat \<Rightarrow> nat \<Rightarrow> (Rval, DataType) CfAssoc option option" where
  "entry_of st a i = do { s \<leftarrow> scope_at st a; Some (entry_at (sc_table s) i) }"

fun regarray_loop ::
  "(string \<Rightarrow> pcre option) \<Rightarrow> bool \<Rightarrow> string \<Rightarrow> string \<Rightarrow> nat \<Rightarrow> nat list \<Rightarrow> Scopes \<Rightarrow> (bool \<times> Scopes) option"
where
  "regarray_loop pcre_compile agent regex pre a [] st = Some (False, st)"
| "regarray_loop pcre_compile agent regex pre a (i # is) st =
     do {
       e \<leftarrow> entry_of st a i;
       (case e of
          None \<Rightarrow> regarray_loop pcre_compile agent regex pre a is st
        | Some assoc \<Rightarrow>
            if \<not> is_element pre (lval assoc) then regarray_loop pcre_compile agent regex pre a is st
            else do {
              s \<leftarrow> RvalScalarValue (CfAssoc.rval assoc);
              (b, st1) \<leftarrow> FullTextMatch pcre_compile agent regex s st;
              (if b then Some (True, st1) else regarray_loop pcre_compile agent regex pre a is st1)
            })
     }"

definition FnCallRegArray ::
  "(string \<Rightarrow> pcre option) \<Rightarrow> bool \<Rightarrow> string \<Rightarrow> string \<Rightarrow> Scopes \<Rightarrow> (FnCallResult \<times> Scopes) option"
where
  "FnCallRegArray pcre_compile agent arrayname regex st =
     do {
       ref \<leftarrow> VarRefParse arrayname;
       p \<leftarrow> ScopeGet (VarRef.ns ref) (VarRef.scope ref) st;
       (case p of
          None \<Rightarrow> Some (FNCALL_FAILURE, st)
        | Some a \<Rightarrow> do {
            (b, st1) \<leftarrow> regarray_loop pcre_compile agent regex (take (CF_MAXVARSIZE - 1) (vlval ref @ ''['')) a [0..<CF_HASHTABLESIZE] st;
            Some (truth b, st1)
          })
     }"

text \<open>\<open>regextract\<close> copies the groups of the match into an array.\<close>

fun extract_loop ::
  "EvalContext \<Rightarrow> Bundle \<Rightarrow> string \<Rightarrow> nat \<Rightarrow> nat list \<Rightarrow> Scopes \<Rightarrow> (bool \<times> Scopes) option"
where
  "extract_loop ctx b arrayname a [] st = Some (True, st)"
| "extract_loop ctx b arrayname a (i # is) st =
     do {
       e \<leftarrow> entry_of st a i;
       (case e of
          None \<Rightarrow> extract_loop ctx b arrayname a is st
        | Some assoc \<Rightarrow>
            (case CfAssoc.rval assoc of
               Scalar s \<Rightarrow> do {
                 ref \<leftarrow> bundle_ref (take (CF_MAXVARSIZE - 2) (arrayname @ ''['' @ lval assoc @ '']'')) b;
                 (_, st1) \<leftarrow> EvalContextVariablePut ctx ref (Scalar s) DATA_TYPE_STRING st;
                 extract_loop ctx b arrayname a is st1
               }
             | _ \<Rightarrow> Some (False, st)))
     }"

definition FnCallRegExtract ::
  "(string \<Rightarrow> pcre option) \<Rightarrow> bool \<Rightarrow> EvalContext \<Rightarrow> Bundle \<Rightarrow> string \<Rightarrow> string \<Rightarrow> string \<Rightarrow> Scopes \<Rightarrow> (FnCallResult \<times> Scopes) option"
where
  "FnCallRegExtract pcre_compile agent ctx b regex subject arrayname st =
     do {
       (m, st1) \<leftarrow> FullTextMatch pcre_compile agent regex subject st;
       p \<leftarrow> ScopeGet None (Some ''match'') st1;
       (case p of
          None \<Rightarrow> Some (truth False, st1)
        | Some a \<Rightarrow> do {
            (ok, st2) \<leftarrow> extract_loop ctx b arrayname a [0..<CF_HASHTABLESIZE] st1;
            Some (if ok then truth m else FNCALL_FAILURE, st2)
          })
     }"

section \<open>Expanding for every element\<close>

definition refers_to :: "string list \<Rightarrow> string \<Rightarrow> bool" where
  "refers_to nms s \<longleftrightarrow> (\<exists>nm \<in> set nms. strstr s (''$('' @ nm @ '')'') \<or> strstr s (''${'' @ nm @ ''}''))"

definition expand_in :: "EvalContext \<Rightarrow> Bundle \<Rightarrow> string \<Rightarrow> Scopes \<Rightarrow> string outcome" where
  "expand_in ctx b template st =
     and_then (ExpandScalar ctx (Some (bundle_ns b)) (Some (bundle_name b)) st template) (\<lambda>(_, expbuf). Done expbuf)"

text \<open>\<open>maplist\<close>: when the text still refers to \<open>this\<close>, the variable is left behind.\<close>

fun maplist_loop ::
  "EvalContext \<Rightarrow> Bundle \<Rightarrow> string \<Rightarrow> Rval list \<Rightarrow> Rval list \<Rightarrow> Scopes \<Rightarrow> (FnCallResult \<times> Scopes) outcome"
where
  "maplist_loop ctx b template [] newlist st = Done (FNCALL_SUCCESS (ListVal newlist), st)"
| "maplist_loop ctx b template (rp # rps) newlist st =
     and_then (checked (RvalScalarValue rp)) (\<lambda>s.
     and_then (checked (ScopeNewSpecial ctx SPECIAL_SCOPE_THIS ''this'' (Scalar s) DATA_TYPE_STRING st)) (\<lambda>st1.
     and_then (expand_in ctx b template st1) (\<lambda>expbuf.
       if refers_to [''this''] expbuf then Done (FNCALL_FAILURE, st1)
       else and_then (checked (ScopeDeleteSpecial SPECIAL_SCOPE_THIS ''this'' st1)) (\<lambda>st2.
         maplist_loop ctx b template rps (RlistAppendScalar newlist (Some expbuf)) st2))))"

definition FnCallMapList ::
  "EvalContext \<Rightarrow> Bundle \<Rightarrow> string \<Rightarrow> string \<Rightarrow> Scopes \<Rightarrow> (FnCallResult \<times> Scopes) outcome"
where
  "FnCallMapList ctx b template listvar st =
     and_then (checked (if IsVarList listvar then GetNaked listvar else Some (take (CF_MAXVARSIZE - 1) listvar))) (\<lambda>naked.
     and_then (checked (VarRefParse naked)) (\<lambda>ref.
     and_then (checked (EvalContextVariableGet ctx ref True st)) (\<lambda>(found, rv, retype).
       if \<not> found \<or> retype \<notin> {DATA_TYPE_STRING_LIST, DATA_TYPE_INT_LIST, DATA_TYPE_REAL_LIST} then Done (FNCALL_FAILURE, st)
       else case rv of ListVal l \<Rightarrow> maplist_loop ctx b template l [] st | _ \<Rightarrow> Fault)))"

text \<open>One value of an array, with \<open>this.v\<close>; a failure ends the function (\<open>None\<close>).\<close>

definition map_value ::
  "EvalContext \<Rightarrow> Bundle \<Rightarrow> string \<Rightarrow> string \<Rightarrow> Scopes \<Rightarrow> (string option \<times> Scopes) outcome"
where
  "map_value ctx b template v st =
     and_then (checked (ScopeNewSpecial ctx SPECIAL_SCOPE_THIS ''v'' (Scalar v) DATA_TYPE_STRING st)) (\<lambda>st1.
     and_then (expand_in ctx b template st1) (\<lambda>expbuf.
       if refers_to [''this.k'', ''this.v''] expbuf then
         and_then (checked (ScopeDeleteSpecial SPECIAL_SCOPE_THIS ''k'' st1)) (\<lambda>st2.
         and_then (checked (ScopeDeleteSpecial SPECIAL_SCOPE_THIS ''v'' st2)) (\<lambda>st3. Done (None, st3)))
       else and_then (checked (ScopeDeleteSpecial SPECIAL_SCOPE_THIS ''v'' st1)) (\<lambda>st2. Done (Some expbuf, st2))))"

fun map_values ::
  "EvalContext \<Rightarrow> Bundle \<Rightarrow> string \<Rightarrow> Rval list \<Rightarrow> Rval list \<Rightarrow> Scopes \<Rightarrow> (Rval list option \<times> Scopes) outcome"
where
  "map_values ctx b template [] returnlist st = Done (Some returnlist, st)"
| "map_values ctx b template (rp # rps) returnlist st =
     and_then (checked (RvalScalarValue rp)) (\<lambda>s.
     and_then (map_value ctx b template s st) (\<lambda>(e, st1).
       case e of
         None \<Rightarrow> Done (None, st1)
       | Some expbuf \<Rightarrow> map_values ctx b template rps (snd (RlistAppendScalarIdemp returnlist expbuf)) st1))"

fun maparray_loop ::
  "EvalContext \<Rightarrow> Bundle \<Rightarrow> string \<Rightarrow> string \<Rightarrow> nat \<Rightarrow> nat list \<Rightarrow> Rval list \<Rightarrow> Scopes \<Rightarrow> (FnCallResult \<times> Scopes) outcome"
where
  "maparray_loop ctx b template pre a [] returnlist st = Done (FNCALL_SUCCESS (ListVal (or_blank returnlist)), st)"
| "maparray_loop ctx b template pre a (i # is) returnlist st =
     and_then (checked (entry_of st a i)) (\<lambda>e.
       case e of
         None \<Rightarrow> maparray_loop ctx b template pre a is returnlist st
       | Some assoc \<Rightarrow>
           if \<not> is_element pre (lval assoc) then maparray_loop ctx b template pre a is returnlist st
           else
             and_then (checked (index_text (take 127 (takeWhile (\<lambda>c. c \<noteq> CHR 0x0A) (drop (length pre) (lval assoc)))))) (\<lambda>idx.
               if idx = [] then maparray_loop ctx b template pre a is returnlist st
               else
                 and_then (checked (ScopeNewSpecial ctx SPECIAL_SCOPE_THIS ''k'' (Scalar idx) DATA_TYPE_STRING st)) (\<lambda>st1.
                 and_then
                   (case CfAssoc.rval assoc of
                      Scalar v \<Rightarrow>
                        and_then (map_value ctx b template v st1) (\<lambda>(e, st2).
                          Done (map_option (\<lambda>expbuf. RlistAppendScalar returnlist (Some expbuf)) e, st2))
                    | ListVal l \<Rightarrow> map_values ctx b template l returnlist st1
                    | _ \<Rightarrow> Done (Some returnlist, st1))
                   (\<lambda>(r, st2).
                     case r of
                       None \<Rightarrow> Done (FNCALL_FAILURE, st2)
                     | Some l \<Rightarrow>
                         and_then (checked (ScopeDeleteSpecial SPECIAL_SCOPE_THIS ''k'' st2)) (\<lambda>st3.
                           maparray_loop ctx b template pre a is l st3)))))"

definition FnCallMapArray ::
  "EvalContext \<Rightarrow> Bundle \<Rightarrow> string \<Rightarrow> string \<Rightarrow> Scopes \<Rightarrow> (FnCallResult \<times> Scopes) outcome"
where
  "FnCallMapArray ctx b template arg st =
     and_then (checked (bundle_ref arg b)) (\<lambda>ref.
     and_then (checked (ScopeGet (VarRef.ns ref) (VarRef.scope ref) st)) (\<lambda>p.
       case p of
         None \<Rightarrow> Done (FNCALL_FAILURE, st)
       | Some a \<Rightarrow> maparray_loop ctx b template (array_prefix (vlval ref)) a [0..<CF_HASHTABLESIZE] [] st))"

section \<open>The protocol of modules\<close>

definition CheckID :: "string \<Rightarrow> bool" where
  "CheckID idn \<longleftrightarrow>
     list_all (\<lambda>c. isalnum c \<or> c = CHR ''.'' \<or> c = CHR ''-'' \<or> c = CHR ''_'' \<or> c = CHR ''['' \<or> c = CHR '']'') idn"

text \<open>
  \<open>"%[^=]=%[^\n]"\<close>: the name, unless it is empty, and what follows the sign, unless that is empty. Lines are shorter than the buffers.
\<close>

definition scan_assignment :: "string \<Rightarrow> string \<times> string" where
  "scan_assignment s =
     (let nm = takeWhile (\<lambda>c. c \<noteq> CHR ''='') s;
          rest = drop (Suc (length nm)) s
      in if nm = [] then ([], []) else (nm, takeWhile (\<lambda>c. c \<noteq> CHR 0x0A) rest))"

text \<open>The name of the file of the command, made into a name of a scope. \<open>basename\<close> is that of the C library.\<close>

definition module_context :: "(string \<Rightarrow> string) \<Rightarrow> string \<Rightarrow> string" where
  "module_context basename command = CanonifyNameInPlace (basename (take (CF_BUFSIZE - 1) (CommandArg0 command)))"

fun negate_all :: "EvalContext \<Rightarrow> string list \<Rightarrow> EvalContext outcome" where
  "negate_all ctx [] = Done ctx"
| "negate_all ctx (c # cs) =
     (if EvalContextHeapContainsHard ctx c then Exit1 else negate_all (EvalContextHeapAddNegated ctx c) cs)"

definition put_module_value ::
  "EvalContext \<Rightarrow> string \<Rightarrow> string \<Rightarrow> Rval \<Rightarrow> DataType \<Rightarrow> Scopes \<Rightarrow> (EvalContext \<times> Scopes) outcome"
where
  "put_module_value ctx nm sc rv dt st =
     and_then (checked (VarRefParseFromScope nm (Some sc))) (\<lambda>ref.
     and_then (checked (EvalContextVariablePut ctx ref rv dt st)) (\<lambda>(_, st1). Done (ctx, st1)))"

definition ModuleProtocol ::
  "(string \<Rightarrow> string \<Rightarrow> bool) \<Rightarrow> (string \<Rightarrow> string) \<Rightarrow> EvalContext \<Rightarrow> string \<Rightarrow> string \<Rightarrow> string option \<Rightarrow> Scopes \<Rightarrow> (EvalContext \<times> Scopes) outcome"
where
  "ModuleProtocol matches basename ctx command line nsp st =
     (let sc = module_context basename command in
      case line of
        [] \<Rightarrow> Done (ctx, st)
      | c # rest \<Rightarrow>
          if c = CHR ''+'' then
            (if CheckID rest then and_then (EvalContextHeapAddSoft matches ctx rest nsp) (\<lambda>ctx1. Done (ctx1, st)) else Done (ctx, st))
          else if c = CHR ''-'' then
            (if CheckID rest \<and> rest \<noteq> []
             then and_then (negate_all ctx (SetElements (StringSetFromString rest (CHR '','')))) (\<lambda>ctx1. Done (ctx1, st))
             else Done (ctx, st))
          else if c = CHR ''='' then
            (let (nm, v) = scan_assignment rest in
             if CheckID nm then put_module_value ctx nm sc (Scalar v) DATA_TYPE_STRING st else Done (ctx, st))
          else if c = CHR ''@'' then
            (let (nm, v) = scan_assignment rest in
             if CheckID nm then
               and_then (checked (RlistParseString v)) (\<lambda>l. put_module_value ctx nm sc (ListVal l) DATA_TYPE_STRING_LIST st)
             else Done (ctx, st))
          else Done (ctx, st))"

text \<open>\<open>ExecModule\<close>: the lines of the output one after the other, until one is too long.\<close>

fun module_lines ::
  "(string \<Rightarrow> string \<Rightarrow> bool) \<Rightarrow> (string \<Rightarrow> string) \<Rightarrow> string \<Rightarrow> string option \<Rightarrow> string list \<Rightarrow> EvalContext \<Rightarrow> Scopes \<Rightarrow> (EvalContext \<times> Scopes) outcome"
where
  "module_lines matches basename command nsp [] ctx st = Done (ctx, st)"
| "module_lines matches basename command nsp (line # ls) ctx st =
     (if length line > CF_BUFSIZE - 80 then Done (ctx, st)
      else and_then (ModuleProtocol matches basename ctx command line nsp st) (\<lambda>(ctx1, st1).
        module_lines matches basename command nsp ls ctx1 st1))"

definition ExecModule ::
  "(string \<Rightarrow> string \<Rightarrow> bool) \<Rightarrow> (string \<Rightarrow> string) \<Rightarrow> (string \<Rightarrow> (string list \<times> bool) option) \<Rightarrow> EvalContext \<Rightarrow> string \<Rightarrow> string option \<Rightarrow> Scopes \<Rightarrow>
   (bool \<times> EvalContext \<times> Scopes) outcome"
where
  "ExecModule matches basename output ctx command nsp st =
     (case output command of
        None \<Rightarrow> Done (False, ctx, st)
      | Some (ls, finished) \<Rightarrow>
          and_then (module_lines matches basename command nsp ls ctx st) (\<lambda>(ctx1, st1).
            Done (finished \<or> (\<exists>l \<in> set ls. length l > CF_BUFSIZE - 80), ctx1, st1)))"

section \<open>What a module can do to classes\<close>

lemma AddSoft_keeps:
  "EvalContextHeapAddSoft matches ctx c nsp = Done ctx' \<Longrightarrow>
   heap_hard ctx' = heap_hard ctx \<and> heap_negated ctx' = heap_negated ctx \<and> stack ctx' = stack ctx"
  by (auto simp: EvalContextHeapAddSoft_def Let_def elim!: guarded_add_cases split: if_splits)

lemma single_set: "CHR '','' \<notin> set s \<Longrightarrow> SetElements (StringSetFromString s (CHR '','')) = [s]"
  by (simp add: StringSetFromString_def SetElements_def StringSetAdd_def SetAdd_def MapInsert_def SetNew_def MapNew_def
      ArrayMapNew_def ArrayMapInsert_def TINY_LIMIT_def)

lemma CheckID_no_comma: "CheckID s \<Longrightarrow> CHR '','' \<notin> set s"
  by (auto simp: CheckID_def list_all_iff isalnum_def isalpha_def isdigit_def isupper_def islower_def)

definition negates :: "string \<Rightarrow> string \<Rightarrow> bool" where
  "negates line c \<longleftrightarrow> line = CHR ''-'' # c \<and> c \<noteq> [] \<and> CheckID c"

lemma ModuleProtocol_classes:
  assumes "ModuleProtocol matches basename ctx command line nsp st = Done (ctx', st')"
  shows "heap_hard ctx' = heap_hard ctx" "stack ctx' = stack ctx"
    "heap_negated ctx' = (if negates line (tl line) then StringSetAdd (heap_negated ctx) (tl line) else heap_negated ctx)"
    "negates line c \<Longrightarrow> \<not> EvalContextHeapContainsHard ctx c"
proof -
  have "heap_hard ctx' = heap_hard ctx \<and> stack ctx' = stack ctx \<and>
    heap_negated ctx' = (if negates line (tl line) then StringSetAdd (heap_negated ctx) (tl line) else heap_negated ctx) \<and>
    (\<forall>c. negates line c \<longrightarrow> \<not> EvalContextHeapContainsHard ctx c)"
  proof (cases line)
    case (Cons k rest)
    consider "k = CHR ''+''" | "k = CHR ''-''" | "k \<noteq> CHR ''+''" "k \<noteq> CHR ''-''"
      by blast
    then show ?thesis
    proof cases
      case 1
      with assms Cons show ?thesis
        by (auto simp: ModuleProtocol_def Let_def negates_def and_then_Done dest: AddSoft_keeps split: if_splits)
    next
      case 2
      with assms Cons show ?thesis
        by (auto simp: ModuleProtocol_def Let_def negates_def and_then_Done CheckID_no_comma single_set EvalContextHeapAddNegated_def
            split: if_splits)
    next
      case 3
      with assms Cons show ?thesis
        by (auto simp: ModuleProtocol_def Let_def negates_def and_then_Done put_module_value_def split: if_splits prod.splits)
    qed
  qed (use assms in \<open>simp add: ModuleProtocol_def negates_def Let_def\<close>)
  then show "heap_hard ctx' = heap_hard ctx" "stack ctx' = stack ctx"
    "heap_negated ctx' = (if negates line (tl line) then StringSetAdd (heap_negated ctx) (tl line) else heap_negated ctx)"
    "negates line c \<Longrightarrow> \<not> EvalContextHeapContainsHard ctx c"
    by blast+
qed

definition sensible :: "string list \<Rightarrow> string list" where
  "sensible ls = takeWhile (\<lambda>l. length l \<le> CF_BUFSIZE - 80) ls"

lemma module_lines_classes:
  "module_lines matches basename command nsp ls ctx st = Done (ctx', st') \<Longrightarrow> str_keys.map_inv (heap_negated ctx) \<Longrightarrow>
   heap_hard ctx' = heap_hard ctx \<and> stack ctx' = stack ctx \<and>
   (\<forall>c. StringSetContains (heap_negated ctx') c \<longleftrightarrow>
      StringSetContains (heap_negated ctx) c \<or> (\<exists>line \<in> set (sensible ls). negates line c)) \<and>
   (\<forall>line \<in> set (sensible ls). \<forall>c. negates line c \<longrightarrow> \<not> EvalContextHeapContainsHard ctx c)"
proof (induction ls arbitrary: ctx st)
  case (Cons line ls)
  show ?case
  proof (cases "length line > CF_BUFSIZE - 80")
    case True
    with Cons.prems show ?thesis
      by (simp add: sensible_def)
  next
    case False
    with Cons.prems obtain ctx1 st1 where one: "ModuleProtocol matches basename ctx command line nsp st = Done (ctx1, st1)"
        and rest: "module_lines matches basename command nsp ls ctx1 st1 = Done (ctx', st')"
      by (auto simp: and_then_Done)
    note facts = ModuleProtocol_classes [OF one]
    have wf: "str_keys.map_inv (heap_negated ctx1)"
      using Cons.prems(2) by (simp add: facts(3) str_set.invar_add)
    have "StringSetContains (heap_negated ctx1) c \<longleftrightarrow> StringSetContains (heap_negated ctx) c \<or> negates line c" for c
      using Cons.prems(2) by (auto simp: facts(3) str_set.contains_add negates_def)
    moreover have "sensible (line # ls) = line # sensible ls"
      using False by (simp add: sensible_def)
    ultimately show ?thesis
      using Cons.IH [OF rest wf] facts(1,2,4) by (auto simp: EvalContextHeapContainsHard_def)
  qed
qed (simp add: sensible_def)

text \<open>
  C8. Whatever a module prints, it changes neither the hard classes nor the stack, and the classes it negates are those that its
  lines name after a minus, up to the first line that is too long, among them no hard class.
\<close>

theorem module_classes:
  assumes "ctx_wf ctx" "output command = Some (ls, finished)"
    and "ExecModule matches basename output ctx command nsp st = Done (ok, ctx', st')"
  shows "heap_hard ctx' = heap_hard ctx \<and> stack ctx' = stack ctx \<and>
    (\<forall>c. StringSetContains (heap_negated ctx') c \<longleftrightarrow>
      StringSetContains (heap_negated ctx) c \<or> (\<exists>line \<in> set (sensible ls). negates line c)) \<and>
    (\<forall>line \<in> set (sensible ls). \<forall>c. negates line c \<longrightarrow> \<not> EvalContextHeapContainsHard ctx c)"
proof -
  have "module_lines matches basename command nsp ls ctx st = Done (ctx', st')"
    using assms(2,3) by (auto simp: ExecModule_def and_then_Done)
  with assms(1) show ?thesis
    by (intro module_lines_classes) (simp_all add: ctx_wf_def)
qed

lemma module_classes_witness:
  "\<exists>ok ctx' st'. ExecModule (\<lambda>_ _. False) (\<lambda>s. s) (\<lambda>_. Some ([''-web_server'', ''note''], True)) EvalContextNew ''/bin/m'' None no_scopes =
     Done (ok, ctx', st') \<and> StringSetContains (heap_negated ctx') ''web_server''"
proof -
  have id: "CheckID ''web_server''" "sensible [''-web_server'', ''note''] = [''-web_server'', ''note'']"
    by code_simp+
  have new: "\<not> EvalContextHeapContainsHard EvalContextNew ''web_server''"
    by (simp add: EvalContextHeapContainsHard_def EvalContextNew_def str_set.contains_new)
  obtain ctx' where run: "ExecModule (\<lambda>_ _. False) (\<lambda>s. s) (\<lambda>_. Some ([''-web_server'', ''note''], True)) EvalContextNew ''/bin/m'' None no_scopes =
      Done (True, ctx', no_scopes)"
    using single_set [of "''web_server''"] id(1) new
    by (simp add: ExecModule_def ModuleProtocol_def CF_BUFSIZE_def Let_def)
  from module_classes [OF ctx_wf_new _ this] have "StringSetContains (heap_negated ctx') ''web_server''"
    using id by (simp add: negates_def)
  with run show ?thesis
    by blast
qed

end
