(* ===== verification/Spec2Isabelle.thy ===== *)
theory Spec2Isabelle
  imports Logic_Expr Map_Impl Assoc Var_Expr Value_List Conversion Modes Frames Iteration Json_Text Lastseen Addr_Lib Shared_Buffer
    Server_Safety Server_Connections Syntax_Check Fn_Logic Fn_Lists Fn_Files Fn_Hosts Fn_Arrays
begin

text \<open>
  A verification library for CFEngine 3: the agents, daemons and libraries in C that read
  policies (promises guarded by class expressions), evaluate them in a context of classes and
  variables, and repair the system.

  \<^bold>\<open>The program.\<close> \<open>libutils\<close> holds containers, strings, JSON and addresses; \<open>libpromises\<close> the
  policy language: its parser, class and variable expressions, the evaluation context with its
  variable tables and class sets, right-hand-side values and their lists, item lists for text
  editing, matching, expansion and the built-in functions; \<open>libcfnet\<close> the wire protocol; the
  directories \<open>cf-*\<close> the programs. The components modelled here are the data structures and
  languages the rest stands on.

  \<^bold>\<open>Theories and sources.\<close>
  \<^item> \<open>Prelude\<close>: C strings and searches shared by all (\<open>strchr\<close>, \<open>strcmp\<close>, \<open>strstr\<close>, \<open>strsep\<close>,
    bounded scans, array searches), with their lemmas.
  \<^item> \<open>String_Expr\<close>, \<open>Logic_Expr\<close>: \<open>libpromises/string_expressions.c\<close> and \<open>logic_expressions.c\<close>, the
    parsers and evaluators of class expressions. Parsers are functions of a text and two indices,
    like the code's; the mutual recursion is opened into steps and closed by fuel, which the
    lemmas show to be enough when it is the length of the text, so the recursive equations of
    the code hold for the closed parsers. Shown: the bounds of every result, that no character
    at or after the end is read, and that printed expressions are read back.
  \<^item> \<open>Hashes\<close>, \<open>Map_Impl\<close>: \<open>libutils/hashes.c\<close> (the string hash on 32-bit words), \<open>array_map.c\<close>,
    \<open>hash_map.c\<close>, \<open>map.c\<close>, \<open>set.c\<close>. A map is an array of up to 14 entries that turns into a hash
    table; the calls of the destructors are logged. Shown: refinement of a partial function, that
    each key and value is held or destroyed exactly once. The locale \<open>map_iface\<close> is the contract
    of the two layers, \<open>key_ops\<close> that of the callbacks for keys, \<open>set_iface\<close> that of the sets;
    each is interpreted for string keys.
  \<^item> \<open>Assoc\<close>: \<open>libpromises/assoc.c\<close>, the variable table with open addressing: lookups after
    insertions, copying, and the entry that deletion makes unreachable.
  \<^item> \<open>Var_Expr\<close>: \<open>libpromises/var_expressions.c\<close>, references \<open>ns:scope.name[i][j]\<close> and their mangled
    form: both printers are read back by the parser.
  \<^item> \<open>Linked_List\<close>, \<open>List_Sort\<close>: linked lists in a heap, loops over them, and the merge sort of
    \<open>libpromises/sort.c\<close>, which relinks cells through callbacks (locale \<open>linked\<close>) and compares them
    (locale \<open>sortable\<close>). Following \<open>NULL\<close> or a freed cell and running forever are \<open>None\<close>, so that
    a result \<open>Some\<close> is also memory safety and termination.
  \<^item> \<open>Item_List\<close>: \<open>libpromises/item_lib.c\<close> on that heap, and the item instances of the sort (the
    interpretations \<open>item_links\<close>, \<open>by_name\<close>, \<open>by_classes\<close>, \<open>by_counter\<close>, \<open>by_time\<close>).
  \<^item> \<open>Value_List\<close>: \<open>libpromises/rlist.c\<close>: copying, splitting, writing, and the state machine that
    parses the lists printed by modules, whose language is given by a grammar.
  \<^item> \<open>Scan\<close>, \<open>Conversion_Types\<close>, \<open>Conversion\<close>: \<open>libpromises/conversion.c\<close> on the parts of \<open>ctype.h\<close>
    and \<open>sscanf\<close> it uses: the enumerations, integers with units, ranges, months, commands, owners.
  \<^item> \<open>Modes\<close>: \<open>libpromises/modes.c\<close>, file modes on 32-bit words; a symbolic mode means the union of
    its clauses.
  \<^item> \<open>Vars\<close>: \<open>libpromises/vars.c\<close> and the tests of \<open>expand.c\<close>, where references stand in a string.
  \<^item> \<open>Scope\<close>: \<open>libpromises/scope.c\<close>, variable tables at addresses, the list of scopes and the stack of
    the scopes called \<open>this\<close>.
  \<^item> \<open>Matching\<close>: \<open>libpromises/matching.c\<close> over PCRE as a parameter, with the match variables it leaves
    in a scope, and its escaping functions.
  \<^item> \<open>Eval_Context\<close>, \<open>Eval_Classes\<close>: \<open>libpromises/env_context.c\<close>, the stack of frames and the class
    sets. Adding a class may end the program (\<open>Exit1\<close>) or fail (\<open>Fault\<close>); persistent classes live
    in a store that is a list of keys and entries. Shown: what adding, aborting and reloading do.
  \<^item> \<open>Variables\<close>: reading and writing variables through the context (\<open>EvalContextVariablePut\<close> and
    \<open>Get\<close>); what is put is got.
  \<^item> \<open>Expand\<close>: \<open>libpromises/expand.c\<close>, the expansion of strings, lists and calls. The loop over a string
    is total: a reference that is expanded first is shorter. Values are expanded to a depth that
    the caller gives, as lists that are named in lists may refer to each other for ever.
  \<^item> \<open>Frames\<close>: pushing and popping the frames of bundles, bodies, promises and rounds with their scopes
    and arguments; the frames of every reachable context nest, and the last bundle is found.
  \<^item> \<open>Iteration\<close>: \<open>libpromises/iteration.c\<close> and the loops of \<open>ExpandPromiseAndDo\<close>, the odometer over
    list variables; its rounds are the combinations of the elements.
  \<^item> \<open>Sequence\<close>: \<open>libutils/sequence.c\<close>, growing arrays; the locale \<open>comparator\<close> is what the quicksort
    needs of its callback, interpreted for strings. Up to a thousand items it returns, stays inside
    of the array and sorts.
  \<^item> \<open>Json\<close>, \<open>Json_Text\<close>: \<open>libutils/json.c\<close>, elements, the printer and the parser. The loops of the parser
    have fuel, one unit for each turn; the length of the text is enough. What is printed is read back.
  \<^item> \<open>Key_Store\<close>, \<open>Lastseen\<close>: the databases behind \<open>libpromises/dbm_api.h\<close> as lists of entries, and
    \<open>libpromises/lastseen.c\<close> on one of them, with the digests of \<open>files_hashes.c\<close>. The questions asked of
    the database are answered as the history of sightings tells.
  \<^item> \<open>Ip_Address\<close>, \<open>Addr_Lib\<close>: \<open>libutils/ip_address.c\<close> and \<open>libpromises/addr_lib.c\<close>, the parsers, printers
    and comparisons of addresses and the sets of addresses written with prefixes and ranges.
  \<^item> \<open>Shared_Buffer\<close>: \<open>libutils/buffer.c\<close> and \<open>refcount.c\<close>, buffers that share a block of memory until
    one of them is written. Blocks and reference counts are at addresses of a store; sequences of
    operations refine a specification in which each buffer is a text of its own.
  \<^item> \<open>String_Lib\<close>, \<open>File_Names\<close>: \<open>libutils/string_lib.c\<close> and \<open>libpromises/files_names.c\<close>, the functions on
    strings and on paths. Replacing and compressing are described without their loops, and the memory
    that escaping needs is compared with what it allocates.
  \<^item> \<open>Server_Access\<close>, \<open>Server_Protocol\<close>, \<open>Server_Safety\<close>, \<open>Server_Connections\<close>: \<open>cf-serverd/server.c\<close>, the access
    rules, the commands of the protocol with the dialogue that authenticates a client, what they never
    send, and how connections come and go. The state of a connection holds the messages that are still to
    come and the events that were sent; files, DNS, users and cryptography are records of functions.
  \<^item> \<open>Syntax_Check\<close>: \<open>libpromises/syntax.c\<close>, the checks of the type and range of the values of attributes, on
    the tables of the syntax as arguments; the values that pass are described by a type of domains.
  \<^item> \<open>Fn_Logic\<close>: the built-in functions of \<open>libpromises/evalfunction.c\<close> on scalars. Those with any number
    of arguments check them by \<open>Syntax_Check\<close> first. The logical ones answer as the operators of class expressions.
  \<^item> \<open>Fn_Lists\<close>, \<open>Fn_Files\<close>, \<open>Fn_Hosts\<close>, \<open>Fn_Arrays\<close>: the built-in functions on list variables, on lines of text, on
    \<open>Lastseen\<close> and on arrays, and the lines that modules print. Shown: what filters and operations on sets give, that
    the loops which cut the hosts of a file into groups mean those groups, which hosts \<open>hostsseen\<close> gives, and that a
    module never changes hard classes. Loops over text end, as every turn leaves a shorter text; that which removes
    comments stops after as many turns as the text has characters, as in the code.

  \<^bold>\<open>Conventions.\<close> A struct is a record, a tagged union a datatype, a pointer that may be \<open>NULL\<close> an
  option. Fixed buffers are checked where the code relies on the length of the input (\<open>None\<close> for
  a write outside). \<open>int\<close> counters are integers, and their overflow (undefined in C, unreachable
  for lists that fit in memory) is not modelled. PCRE is a parameter of what uses it.

  \<^bold>\<open>Not modelled.\<close> System calls, processes, the content of files, sockets and crypto, but as functions the model is given; the yacc and
  lex sources of the policy parser; logging; release of memory where no property depends on it.

  \<^bold>\<open>Plan.\<close> The evaluation of variables that holds
  lists in promises; \<open>rb-tree.c\<close>; version comparison; locks over the key-value store.
\<close>

end
